(* ===== verification/Prelude.thy ===== *)
theory Prelude
  imports Main "HOL-Library.Word"
begin

text \<open>
  What every component of the development shares: the machine types of the C sources, the faults
  a C program can run into (a fault is a value, so that memory safety is a theorem and not an
  assumption), fixed-size arrays with checked access, the ASCII bytes and the character classes of
  \<^verbatim>\<open>utils/parser/parser_utils.h\<close>, and the run of a byte-driven parser over a list of bytes.
\<close>

unbundle bit_operations_syntax

section \<open>Machine types\<close>

type_synonym u8 = "8 word"
type_synonym u16 = "16 word"
type_synonym u32 = "32 word"
type_synonym u64 = "64 word"

type_synonym bytes = "u8 list"

section \<open>Faults\<close>

text \<open>
  \<open>OutOfBounds\<close>: an array access outside its bounds. \<open>NullDeref\<close>: a null pointer is read.
  \<open>AssertFail\<close>: an \<^verbatim>\<open>assert\<close> fails. \<open>Aborted\<close>: the code calls \<^verbatim>\<open>abort\<close>.
  \<open>UnionMisread\<close>: a union is read through a member other than the one written last.
  \<open>SignedOverflow\<close>: an arithmetic operation on \<^verbatim>\<open>int\<close> overflows. \<open>Hang\<close>: a loop of the source
  does not stop (its fuel is used up). \<open>UseAfterFree\<close>: a pointer to freed memory is used.
\<close>

datatype fault =
    OutOfBounds
  | NullDeref
  | AssertFail
  | Aborted
  | UnionMisread
  | SignedOverflow
  | Hang
  | UseAfterFree

type_synonym 'a res = "fault + 'a"

fun bindR :: "fault + 'a \<Rightarrow> ('a \<Rightarrow> fault + 'b) \<Rightarrow> fault + 'b" where
  "bindR (Inl e) f = Inl e"
| "bindR (Inr x) f = f x"

named_theorems res_simps "equations of results"
named_theorems res_dests "eliminations of results"

lemma bindR_eq_Inr [res_simps]: "bindR r k = Inr b \<longleftrightarrow> (\<exists>a. k a = Inr b \<and> r = Inr a)"
  by (cases r) auto

lemma bindR_eq_Inl [res_simps]:
  "bindR m f = Inl e \<longleftrightarrow> m = Inl e \<or> (\<exists>x. m = Inr x \<and> f x = Inl e)"
  by (cases m) auto

lemma bindR_assoc: "bindR (bindR m f) g = bindR m (\<lambda>x. bindR (f x) g)"
  by (cases m) auto

lemma bindR_Inr_right [simp]: "bindR m Inr = m"
  by (cases m) simp_all

section \<open>Arrays\<close>

text \<open>
  A C array is a list of fixed length; reading or writing it at an index outside
  \<open>0 .. length - 1\<close> is the fault \<open>OutOfBounds\<close>.
\<close>

definition arr_get :: "'a list \<Rightarrow> int \<Rightarrow> fault + 'a" where
  "arr_get xs i = (if 0 \<le> i \<and> i < int (length xs) then Inr (xs ! nat i) else Inl OutOfBounds)"

definition arr_set :: "'a list \<Rightarrow> int \<Rightarrow> 'a \<Rightarrow> fault + 'a list" where
  "arr_set xs i v =
     (if 0 \<le> i \<and> i < int (length xs) then Inr (xs[nat i := v]) else Inl OutOfBounds)"

lemma arr_get_ok [simp]: "0 \<le> i \<Longrightarrow> i < int (length xs) \<Longrightarrow> arr_get xs i = Inr (xs ! nat i)"
  by (simp add: arr_get_def)

lemma arr_set_ok [simp]:
  "0 \<le> i \<Longrightarrow> i < int (length xs) \<Longrightarrow> arr_set xs i v = Inr (xs[nat i := v])"
  by (simp add: arr_set_def)

lemma arr_set_Inr [res_simps]:
  "arr_set xs i v = Inr ys \<longleftrightarrow> 0 \<le> i \<and> i < int (length xs) \<and> ys = xs[nat i := v]"
  by (auto simp: arr_set_def)

lemma arr_get_Inr [res_simps]:
  "arr_get xs i = Inr y \<longleftrightarrow> 0 \<le> i \<and> i < int (length xs) \<and> y = xs ! nat i"
  by (auto simp: arr_get_def)

lemma arr_set_length: "arr_set xs i v = Inr ys \<Longrightarrow> length ys = length xs"
  by (auto simp: arr_set_Inr)

text \<open>\<open>overwrite xs i ys\<close> stores \<open>ys\<close> into \<open>xs\<close> from index \<open>i\<close> on.\<close>

definition overwrite :: "'a list \<Rightarrow> nat \<Rightarrow> 'a list \<Rightarrow> 'a list" where
  "overwrite xs i ys = take i xs @ ys @ drop (i + length ys) xs"

lemma overwrite_Nil [simp]: "overwrite xs i [] = xs"
  by (simp add: overwrite_def)

lemma length_overwrite [simp]:
  "i + length ys \<le> length xs \<Longrightarrow> length (overwrite xs i ys) = length xs"
  by (simp add: overwrite_def)

lemma overwrite_Cons:
  "i < length xs \<Longrightarrow> overwrite (xs[i := y]) (Suc i) ys = overwrite xs i (y # ys)"
  by (simp add: overwrite_def take_Suc_conv_app_nth drop_update_cancel)

lemma overwrite_nth:
  "i + length ys \<le> length xs \<Longrightarrow> j < length xs \<Longrightarrow>
   overwrite xs i ys ! j = (if i \<le> j \<and> j < i + length ys then ys ! (j - i) else xs ! j)"
  by (auto simp: overwrite_def nth_append min_def)

lemma take_overwrite:
  "i + length ys \<le> length xs \<Longrightarrow> take (i + length ys) (overwrite xs i ys) = take i xs @ ys"
  by (simp add: overwrite_def)

text \<open>
  The C string held by an array: its bytes up to the first NUL. Reading a string from an array
  without a NUL runs out of bounds.
\<close>

definition cstr :: "bytes \<Rightarrow> bytes" where
  "cstr xs = takeWhile (\<lambda>c. c \<noteq> 0) xs"

definition c_string :: "bytes \<Rightarrow> fault + bytes" where
  "c_string xs = (if 0 \<in> set xs then Inr (cstr xs) else Inl OutOfBounds)"

lemma cstr_append_zero [simp]: "0 \<notin> set xs \<Longrightarrow> cstr (xs @ 0 # ys) = xs"
  by (induction xs) (auto simp: cstr_def)

lemma cstr_overwrite:
  assumes "0 \<notin> set ys" and "length ys < length xs" and "xs ! length ys = 0"
  shows "cstr (overwrite xs 0 ys) = ys"
proof -
  have "overwrite xs 0 ys = ys @ 0 # drop (Suc (length ys)) xs"
    using assms(2,3) by (simp add: overwrite_def Cons_nth_drop_Suc [symmetric])
  then show ?thesis using assms(1) by simp
qed

text \<open>An array of \<open>n\<close> bytes that holds \<open>xs\<close> and is zero after it.\<close>

definition pad :: "nat \<Rightarrow> bytes \<Rightarrow> bytes" where
  "pad n xs = xs @ replicate (n - length xs) 0"

lemma length_pad [simp]: "length xs \<le> n \<Longrightarrow> length (pad n xs) = n"
  by (simp add: pad_def)

lemma pad_Nil: "pad n [] = replicate n 0"
  by (simp add: pad_def)

lemma pad_snoc: "length xs < n \<Longrightarrow> (pad n xs)[length xs := c] = pad n (xs @ [c])"
  by (simp add: pad_def list_update_append Suc_diff_Suc [symmetric])

lemma pad_end: "(pad n xs)[length xs := 0] = pad n xs"
  by (cases "n - length xs") (simp_all add: pad_def list_update_append list_update_beyond)

lemma pad_last:
  assumes "xs \<noteq> []" "length xs \<le> n"
  shows "(pad n xs)[length xs - Suc 0 := 0] = pad n (butlast xs)"
proof -
  obtain ys y where "xs = ys @ [y]" using assms(1) by (cases xs rule: rev_cases) auto
  moreover have "n - length ys = Suc (n - Suc (length ys))" using assms(2) calculation by simp
  ultimately show ?thesis by (simp add: pad_def list_update_append)
qed

lemma pad_nth: "j < length xs \<Longrightarrow> pad n xs ! j = xs ! j"
  by (simp add: pad_def nth_append)

lemma cstr_id: "0 \<notin> set xs \<Longrightarrow> cstr xs = xs"
  by (induction xs) (auto simp: cstr_def)

lemma cstr_pad: "cstr (pad n xs) = cstr xs"
proof -
  have "cstr (xs @ replicate k 0) = cstr xs" for k
    by (induction xs) (auto simp: cstr_def takeWhile_replicate)
  then show ?thesis by (simp add: pad_def)
qed

lemma c_string_pad: "length xs < n \<Longrightarrow> c_string (pad n xs) = Inr (cstr xs)"
  by (simp add: c_string_def cstr_pad) (simp add: pad_def)

lemma arr_set_pad:
  "length xs < n \<Longrightarrow> arr_set (pad n xs) (int (length xs)) c = Inr (pad n (xs @ [c]))"
  by (simp add: pad_snoc)

section \<open>Bytes\<close>

abbreviation HT :: u8 where "HT \<equiv> 9"
abbreviation LF :: u8 where "LF \<equiv> 10"
abbreviation CR :: u8 where "CR \<equiv> 13"
abbreviation SP :: u8 where "SP \<equiv> 32"
abbreviation HASH :: u8 where "HASH \<equiv> 35"
abbreviation PLUS :: u8 where "PLUS \<equiv> 43"
abbreviation DASH :: u8 where "DASH \<equiv> 45"
abbreviation DOT :: u8 where "DOT \<equiv> 46"
abbreviation SLASH :: u8 where "SLASH \<equiv> 47"
abbreviation DIG0 :: u8 where "DIG0 \<equiv> 48"
abbreviation DIG9 :: u8 where "DIG9 \<equiv> 57"
abbreviation COLON :: u8 where "COLON \<equiv> 58"
abbreviation EQSIGN :: u8 where "EQSIGN \<equiv> 61"
abbreviation QMARK :: u8 where "QMARK \<equiv> 63"
abbreviation LBRACK :: u8 where "LBRACK \<equiv> 91"
abbreviation RBRACK :: u8 where "RBRACK \<equiv> 93"

text \<open>The macros of \<^verbatim>\<open>utils/parser/parser_utils.h\<close>.\<close>

definition is_digit :: "u8 \<Rightarrow> bool" where
  "is_digit x \<longleftrightarrow> DIG0 \<le> x \<and> x \<le> DIG9"

definition is_alpha :: "u8 \<Rightarrow> bool" where
  "is_alpha x \<longleftrightarrow> 97 \<le> x \<and> x \<le> 122 \<or> 65 \<le> x \<and> x \<le> 90"

definition is_token :: "u8 \<Rightarrow> bool" where
  "is_token x \<longleftrightarrow>
     x = 33 \<or> x = 35 \<or> x = 36 \<or> x = 37 \<or> x = 38 \<or> x = 39 \<or> x = 42 \<or> x = 43 \<or> x = 45 \<or>
     x = 46 \<or> x = 94 \<or> x = 95 \<or> x = 96 \<or> x = 124 \<or> x = 126 \<or> is_digit x \<or> is_alpha x"

definition end_of_authority :: "u8 \<Rightarrow> bool" where
  "end_of_authority x \<longleftrightarrow> x = SLASH \<or> x = HASH \<or> x = QMARK"

definition is_reason_phrase :: "u8 \<Rightarrow> bool" where
  "is_reason_phrase x \<longleftrightarrow> x = SP \<or> x = HT \<or> is_alpha x \<or> is_digit x"

definition is_space :: "u8 \<Rightarrow> bool" where
  "is_space x \<longleftrightarrow> x = SP \<or> x = HT"

definition is_vchar :: "u8 \<Rightarrow> bool" where
  "is_vchar x \<longleftrightarrow> 33 \<le> x \<and> x \<le> 126"

definition is_base_64 :: "u8 \<Rightarrow> bool" where
  "is_base_64 x \<longleftrightarrow> is_digit x \<or> is_alpha x \<or> x = PLUS \<or> x = SLASH \<or> x = EQSIGN"

lemmas char_class_defs =
  is_digit_def is_alpha_def is_token_def end_of_authority_def is_reason_phrase_def
  is_space_def is_vchar_def is_base_64_def

lemma is_digit_value: "is_digit c \<Longrightarrow> unat (c - DIG0) < 10"
  by (simp add: is_digit_def) unat_arith

lemma is_token_not_delimiter [simp]:
  "\<not> is_token SP" "\<not> is_token COLON" "\<not> is_token CR" "\<not> is_token LF" "\<not> is_token 0"
  by (simp_all add: char_class_defs)

lemma is_digit_not_delimiter [simp]:
  "\<not> is_digit SP" "\<not> is_digit COLON" "\<not> is_digit CR" "\<not> is_digit DOT" "\<not> is_digit SLASH"
  "\<not> is_digit HASH" "\<not> is_digit QMARK" "\<not> is_digit 0"
  by (simp_all add: char_class_defs)

text \<open>The value of a string of decimal digits.\<close>

fun dec_val :: "nat \<Rightarrow> bytes \<Rightarrow> nat" where
  "dec_val acc [] = acc"
| "dec_val acc (d # ds) = dec_val (acc * 10 + unat (d - DIG0)) ds"

definition digits :: "bytes \<Rightarrow> bool" where
  "digits ds \<longleftrightarrow> (\<forall>d\<in>set ds. is_digit d)"

lemma digits_simps [simp]:
  "digits []" "digits (d # ds) \<longleftrightarrow> is_digit d \<and> digits ds"
  "digits (xs @ ys) \<longleftrightarrow> digits xs \<and> digits ys"
  by (auto simp: digits_def)

lemma dec_val_append: "dec_val acc (xs @ ys) = dec_val (dec_val acc xs) ys"
  by (induction xs arbitrary: acc) auto

lemma dec_val_bound: "digits ds \<Longrightarrow> dec_val acc ds < (acc + 1) * 10 ^ length ds"
proof (induction ds arbitrary: acc)
  case Nil
  then show ?case by simp
next
  case (Cons d ds)
  have "dec_val acc (d # ds) < (acc * 10 + unat (d - DIG0) + 1) * 10 ^ length ds"
    using Cons by simp
  also have "\<dots> \<le> (acc * 10 + 10) * 10 ^ length ds"
    using Cons.prems is_digit_value [of d] by (intro mult_right_mono) auto
  finally show ?case by (simp add: algebra_simps)
qed

text \<open>A delimiter that cannot occur in the pieces before it splits a list in one way only.\<close>

lemma split_unique:
  "xs @ d # r = ys @ e # s \<Longrightarrow> \<forall>x\<in>set xs. P x \<Longrightarrow> \<forall>y\<in>set ys. P y \<Longrightarrow> \<not> P d \<Longrightarrow> \<not> P e \<Longrightarrow>
   xs = ys \<and> d = e \<and> r = s"
proof (induction xs arbitrary: ys)
  case Nil
  then show ?case by (cases ys) auto
next
  case (Cons x xs)
  then show ?case by (cases ys) auto
qed

text \<open>Values of narrow words and of decimal steps on them.\<close>

lemma unat_u8: "unat (d :: u8) < 256"
  using unsigned_less [of d] by simp

lemma unat_of_nat16: "n < 65536 \<Longrightarrow> unat (word_of_nat n :: u16) = n"
  by (simp add: unat_of_nat)

lemma uint_of_nat16: "n < 65536 \<Longrightarrow> uint (word_of_nat n :: u16) = int n"
  by (simp add: uint_nat unat_of_nat16)

lemma ucast_8_16: "(ucast (d :: u8) :: u16) = word_of_nat (unat d)"
  by simp

lemma uint_ucast_8_16: "uint (ucast (d :: u8) :: u16) = int (unat d)"
  using uint_of_nat16 [of "unat d"] unat_u8 [of d] by simp

lemma dec_step16:
  assumes "n * 10 + unat d < 65536"
  shows "uint ((word_of_nat n :: u16) * 10 + ucast (d :: u8)) = int (n * 10 + unat d)"
proof -
  have "(word_of_nat n :: u16) * 10 + ucast d = word_of_nat (n * 10 + unat d)"
    by simp
  then show ?thesis using uint_of_nat16 [OF assms] by (simp only:)
qed

section \<open>Byte order\<close>

text \<open>
  \<^verbatim>\<open>htons\<close> and \<^verbatim>\<open>ntohs\<close> on the little-endian hosts the makefile builds for: both swap the two
  bytes of their argument.
\<close>

definition htons :: "u16 \<Rightarrow> u16" where
  "htons x = push_bit 8 x OR drop_bit 8 x"

definition ntohs :: "u16 \<Rightarrow> u16" where
  "ntohs x = push_bit 8 x OR drop_bit 8 x"

lemma ntohs_htons [simp]: "ntohs (htons x) = x"
  unfolding ntohs_def htons_def
  by (rule bit_word_eqI) (auto simp: bit_simps)

lemma htons_ntohs [simp]: "htons (ntohs x) = x"
  unfolding ntohs_def htons_def
  by (rule bit_word_eqI) (auto simp: bit_simps)

section \<open>Numbers in network order\<close>

definition be16 :: "u16 \<Rightarrow> bytes" where
  "be16 v = [ucast (drop_bit 8 v), ucast v]"

definition be32 :: "u32 \<Rightarrow> bytes" where
  "be32 v = [ucast (drop_bit 24 v), ucast (drop_bit 16 v), ucast (drop_bit 8 v), ucast v]"

lemma split_u16: "push_bit 8 (ucast (h :: u8)) + ucast (l :: u8) = (v :: u16) \<Longrightarrow>
   ucast (drop_bit 8 v) = h \<and> ucast v = l"
proof -
  assume "push_bit 8 (ucast h) + ucast l = v"
  moreover have "push_bit 8 (ucast h :: u16) AND ucast l = 0"
    by (rule bit_word_eqI) (auto simp: bit_simps dest: bit_imp_le_length)
  ultimately have v: "v = push_bit 8 (ucast h) OR ucast l"
    by (simp add: disjunctive_add_eq_or)
  have "ucast (drop_bit 8 v) = h" unfolding v
    by (rule bit_word_eqI) (auto simp: bit_simps dest: bit_imp_le_length)
  moreover have "ucast v = l" unfolding v
    by (rule bit_word_eqI) (auto simp: bit_simps dest: bit_imp_le_length)
  ultimately show ?thesis by simp
qed

lemma join_u16: "push_bit 8 (ucast (ucast (drop_bit 8 (v :: u16)) :: u8)) + ucast (ucast v :: u8) = v"
proof -
  have a: "push_bit 8 (ucast (ucast (drop_bit 8 v) :: u8) :: u16) AND ucast (ucast v :: u8) = 0"
    by (rule bit_word_eqI) (auto simp: bit_simps dest: bit_imp_le_length)
  have "push_bit 8 (ucast (ucast (drop_bit 8 v) :: u8) :: u16) OR ucast (ucast v :: u8) = v"
    by (rule bit_word_eqI) (auto simp: bit_simps dest: bit_imp_le_length)
  then show ?thesis using a by (simp add: disjunctive_add_eq_or)
qed

lemma join_u32:
  fixes v :: u32
  shows "push_bit 24 (ucast (ucast (drop_bit 24 v) :: u8)) + push_bit 16 (ucast (ucast (drop_bit 16 v) :: u8)) +
     push_bit 8 (ucast (ucast (drop_bit 8 v) :: u8)) + ucast (ucast v :: u8) = v"
proof -
  have step: "push_bit (n + 8) (drop_bit (n + 8) v) + push_bit n (ucast (ucast (drop_bit n v) :: u8)) =
      push_bit n (drop_bit n v)" if "n + 8 \<le> 32" for n
  proof -
    have "push_bit (n + 8) (drop_bit (n + 8) v) AND push_bit n (ucast (ucast (drop_bit n v) :: u8)) = 0"
      by (rule bit_word_eqI) (auto simp: bit_simps)
    moreover have "push_bit (n + 8) (drop_bit (n + 8) v) OR push_bit n (ucast (ucast (drop_bit n v) :: u8)) =
        push_bit n (drop_bit n v)"
    proof (rule bit_word_eqI)
      fix k assume "k < LENGTH(32)"
      then show "bit (push_bit (n + 8) (drop_bit (n + 8) v) OR push_bit n (ucast (ucast (drop_bit n v) :: u8))) k =
          bit (push_bit n (drop_bit n v)) k"
        by (cases "n + 8 \<le> k") (auto simp: bit_simps)
    qed
    ultimately show ?thesis by (simp add: disjunctive_add_eq_or)
  qed
  have top: "push_bit 24 (ucast (ucast (drop_bit 24 v) :: u8)) = push_bit 24 (drop_bit 24 v)"
    by (rule bit_word_eqI) (auto simp: bit_simps)
  show ?thesis
    unfolding top using step [of 16] step [of 8] step [of 0] by simp
qed

lemma uint_of_nat8: "n < 256 \<Longrightarrow> uint (word_of_nat n :: u8) = int n"
  by (simp add: uint_nat unat_of_nat)

end
