(* ===== verification/Byte_Parser.thy ===== *)
theory Byte_Parser
  imports Prelude
begin

text \<open>
  The interface every parser of \<^verbatim>\<open>parsers/\<close> offers to its callers: an operation
  \<^verbatim>\<open>X_parser_feed(p, c)\<close> that consumes one byte, and a set of final states (done and error) in
  which it stays. \<open>run\<close> feeds a whole list; \<open>drive\<close> is the loop the callers write: feed until a
  final state is reached, leave the remaining bytes alone. The locale states the contract once;
  each parser theory interprets it on its own feed function.
\<close>

fun run :: "('p \<Rightarrow> u8 \<Rightarrow> fault + 'p) \<Rightarrow> 'p \<Rightarrow> bytes \<Rightarrow> fault + 'p" where
  "run feed p [] = Inr p"
| "run feed p (c # cs) = bindR (feed p c) (\<lambda>p'. run feed p' cs)"

fun drive :: "('p \<Rightarrow> u8 \<Rightarrow> fault + 'p) \<Rightarrow> ('p \<Rightarrow> bool) \<Rightarrow> 'p \<Rightarrow> bytes \<Rightarrow> fault + ('p \<times> bytes)" where
  "drive feed fin p [] = Inr (p, [])"
| "drive feed fin p (c # cs) =
     bindR (feed p c) (\<lambda>p'. if fin p' then Inr (p', cs) else drive feed fin p' cs)"

lemma run_append: "run feed p (xs @ ys) = bindR (run feed p xs) (\<lambda>q. run feed q ys)"
  by (induction xs arbitrary: p) (simp_all add: bindR_assoc)

lemma run_Inr_append:
  "run feed p xs = Inr q \<Longrightarrow> run feed p (xs @ ys) = run feed q ys"
  by (simp add: run_append)

lemma run_then: "run feed p xs = Inr q \<Longrightarrow> run feed q ys = r \<Longrightarrow> run feed p (xs @ ys) = r"
  by (simp add: run_append)

lemma run_step: "feed p c = Inr q \<Longrightarrow> run feed q cs = r \<Longrightarrow> run feed p (c # cs) = r"
  by simp

lemma run_singleton [simp]: "run feed p [c] = feed p c"
  by (cases "feed p c") auto

lemma run_snoc: "run feed p (xs @ [c]) = bindR (run feed p xs) (\<lambda>q. feed q c)"
  by (simp add: run_append del: run.simps)

text \<open>Bytes that leave the parser where it is, however many there are.\<close>

lemma run_stay: "(\<And>c. c \<in> set cs \<Longrightarrow> feed p c = Inr p) \<Longrightarrow> run feed p cs = Inr p"
  by (induction cs) auto

text \<open>A parser that never leaves its final states and keeps an invariant as long as it runs.\<close>

locale byte_parser =
  fixes feed :: "'p \<Rightarrow> u8 \<Rightarrow> fault + 'p"
    and inv :: "'p \<Rightarrow> bool"
    and fin :: "'p \<Rightarrow> bool"
  assumes feed_inv: "inv p \<Longrightarrow> feed p c = Inr p' \<Longrightarrow> inv p'"
    and fin_stays: "fin p \<Longrightarrow> feed p c = Inr p"
begin

lemma run_inv: "inv p \<Longrightarrow> run feed p cs = Inr p' \<Longrightarrow> inv p'"
  by (induction cs arbitrary: p) (auto simp: bindR_eq_Inr dest: feed_inv)

lemma run_fin: "fin p \<Longrightarrow> run feed p cs = Inr p"
  by (induction cs) (simp_all add: fin_stays)

text \<open>A parser that has not ended after some bytes has not ended before.\<close>

lemma drive_through:
  assumes "run feed p xs = Inr q" "\<not> fin q"
  shows "drive feed fin p (xs @ ys) = drive feed fin q ys"
  using assms(1)
proof (induction xs arbitrary: p)
  case Nil
  then show ?case by simp
next
  case (Cons x xs)
  then obtain p1 where p1: "feed p x = Inr p1" "run feed p1 xs = Inr q" by (auto simp: bindR_eq_Inr)
  then have "\<not> fin p1" using run_fin [of p1] assms(2) by auto
  then show ?case using p1 Cons.IH [OF p1(2)] by simp
qed

text \<open>Feeding past a final state changes nothing, so the caller's loop and the full run agree.\<close>

lemma drive_run:
  "drive feed fin p cs = Inr (q, rest) \<Longrightarrow> run feed p cs = Inr q"
proof (induction cs arbitrary: p)
  case Nil
  then show ?case by simp
next
  case (Cons c cs)
  then show ?case by (auto simp: bindR_eq_Inr run_fin split: if_splits)
qed

lemma run_drive:
  "run feed p cs = Inr q \<Longrightarrow> \<exists>rest. drive feed fin p cs = Inr (q, rest)"
proof (induction cs arbitrary: p)
  case Nil
  then show ?case by simp
next
  case (Cons c cs)
  then obtain p1 where "feed p c = Inr p1" "run feed p1 cs = Inr q"
    by (auto simp: bindR_eq_Inr)
  then show ?case using Cons.IH [of p1] by (auto simp: run_fin)
qed

lemma drive_suffix:
  "drive feed fin p cs = Inr (q, rest) \<Longrightarrow> \<exists>used. cs = used @ rest"
proof (induction cs arbitrary: p)
  case Nil
  then show ?case by simp
next
  case (Cons c cs)
  then obtain p' where "feed p c = Inr p'"
      "(if fin p' then Inr (p', cs) else drive feed fin p' cs) = Inr (q, rest)"
    by (auto simp: bindR_eq_Inr)
  then show ?case using Cons.IH [of p'] by (cases "fin p'") auto
qed

lemma run_prefix_fin:
  assumes "run feed p xs = Inr q" and "fin q"
  shows "run feed p (xs @ ys) = Inr q"
  using assms by (simp add: run_append run_fin)

end

text \<open>A parser that, in addition, never faults.\<close>

locale safe_byte_parser = byte_parser +
  assumes feed_safe: "inv p \<Longrightarrow> \<exists>p'. feed p c = Inr p'"
begin

lemma run_safe: "inv p \<Longrightarrow> \<exists>p'. run feed p cs = Inr p' \<and> inv p'"
proof (induction cs arbitrary: p)
  case Nil
  then show ?case by simp
next
  case (Cons c cs)
  obtain p1 where "feed p c = Inr p1" using feed_safe [OF Cons.prems] by blast
  then show ?case using Cons.IH [of p1] feed_inv [OF Cons.prems] by auto
qed

end

end
