(* ===== verification/Percy.thy ===== *)
theory Percy
  imports Byte_Parser
begin

text \<open>
  The two parsers of the Percy management protocol (\<^verbatim>\<open>percy_protocol.txt\<close>): the request parser of
  the server (\<^verbatim>\<open>parsers/percy_request_parser\<close>) and the response parser of the client
  (\<^verbatim>\<open>management_client/percy_response_parser\<close>). Fields carry the prefixes \<open>pq_\<close>, \<open>qp_\<close> (request
  and its parser) and \<open>ps_\<close>, \<open>rsp_\<close> (response and its parser).
\<close>

section \<open>Requests\<close>

record request_percy =
  pq_ver :: u8
  pq_type :: u8
  pq_passphrase :: bytes
  pq_method :: u8
  pq_resv :: u8
  pq_value :: u16

datatype percy_request_state =
    percy_request_ver
  | percy_request_type
  | percy_request_passphrase
  | percy_request_method
  | percy_request_resv
  | percy_request_value
  | percy_request_done
  | percy_request_error

record percy_request_parser =
  qp_request :: request_percy
  qp_state :: percy_request_state
  qp_i :: int
  qp_n :: int

definition PASS_PHRASE_LEN :: nat where "PASS_PHRASE_LEN = 6"
definition VALUE_LEN :: nat where "VALUE_LEN = 2"
definition PERCY_REQUEST_SIZE :: nat where "PERCY_REQUEST_SIZE = 12"

definition IS_PERCY_TYPE :: "u8 \<Rightarrow> bool" where
  "IS_PERCY_TYPE x \<longleftrightarrow> x = 0 \<or> x = 1 \<or> x = 2"

definition IS_PERCY_METHOD :: "u8 \<Rightarrow> bool" where
  "IS_PERCY_METHOD x \<longleftrightarrow> x = 0 \<or> x = 1 \<or> x = 2 \<or> x = 3 \<or> x = 4 \<or> x = 5 \<or> x = 6 \<or> x = 7"

definition zero_request_percy :: request_percy where
  "zero_request_percy =
     \<lparr>pq_ver = 0, pq_type = 0, pq_passphrase = replicate 6 0, pq_method = 0, pq_resv = 0,
      pq_value = 0\<rparr>"

definition percy_request_parser_init :: "percy_request_parser \<Rightarrow> percy_request_parser" where
  "percy_request_parser_init p =
     p\<lparr>qp_state := percy_request_ver, qp_i := 0, qp_request := zero_request_percy\<rparr>"

type_synonym percy_result = "fault + (percy_request_parser \<times> percy_request_state)"

definition p_request_ver :: "percy_request_parser \<Rightarrow> u8 \<Rightarrow> percy_result" where
  "p_request_ver p c =
     (if c \<noteq> 1 then Inr (p, percy_request_error)
      else Inr (p\<lparr>qp_request := (qp_request p)\<lparr>pq_ver := c\<rparr>, qp_i := 0,
                  qp_n := int PASS_PHRASE_LEN\<rparr>, percy_request_passphrase))"

definition p_request_passphrase :: "percy_request_parser \<Rightarrow> u8 \<Rightarrow> percy_result" where
  "p_request_passphrase p c =
     bindR (arr_set (pq_passphrase (qp_request p)) (qp_i p) c) (\<lambda>ps.
       let p = p\<lparr>qp_request := (qp_request p)\<lparr>pq_passphrase := ps\<rparr>, qp_i := qp_i p + 1\<rparr>
       in Inr (p, if qp_i p = qp_n p then percy_request_type else percy_request_passphrase))"

definition p_request_type :: "percy_request_parser \<Rightarrow> u8 \<Rightarrow> percy_result" where
  "p_request_type p c =
     (if \<not> IS_PERCY_TYPE c then Inr (p, percy_request_error)
      else Inr (p\<lparr>qp_request := (qp_request p)\<lparr>pq_type := c\<rparr>\<rparr>, percy_request_method))"

definition p_request_method :: "percy_request_parser \<Rightarrow> u8 \<Rightarrow> percy_result" where
  "p_request_method p c =
     (if \<not> IS_PERCY_METHOD c then Inr (p, percy_request_error)
      else Inr (p\<lparr>qp_request := (qp_request p)\<lparr>pq_method := c\<rparr>\<rparr>, percy_request_resv))"

definition p_request_resv :: "percy_request_parser \<Rightarrow> u8 \<Rightarrow> percy_result" where
  "p_request_resv p c =
     Inr (p\<lparr>qp_request := (qp_request p)\<lparr>pq_resv := c\<rparr>, qp_i := 0, qp_n := int VALUE_LEN\<rparr>,
          percy_request_value)"

definition p_request_value :: "percy_request_parser \<Rightarrow> u8 \<Rightarrow> percy_result" where
  "p_request_value p c =
     (if qp_i p = 0
      then Inr (p\<lparr>qp_i := qp_i p + 1,
                  qp_request := (qp_request p)\<lparr>pq_value := push_bit 8 (ucast c)\<rparr>\<rparr>,
                percy_request_value)
      else if qp_i p = 1
      then Inr (p\<lparr>qp_request := (qp_request p)\<lparr>pq_value := pq_value (qp_request p) + ucast c\<rparr>\<rparr>,
                percy_request_done)
      else Inr (p, percy_request_error))"

definition percy_request_step :: "percy_request_parser \<Rightarrow> u8 \<Rightarrow> percy_result" where
  "percy_request_step p c =
     (case qp_state p of
        percy_request_ver \<Rightarrow> p_request_ver p c
      | percy_request_type \<Rightarrow> p_request_type p c
      | percy_request_passphrase \<Rightarrow> p_request_passphrase p c
      | percy_request_method \<Rightarrow> p_request_method p c
      | percy_request_resv \<Rightarrow> p_request_resv p c
      | percy_request_value \<Rightarrow> p_request_value p c
      | percy_request_done \<Rightarrow> Inr (p, qp_state p)
      | percy_request_error \<Rightarrow> Inr (p, qp_state p))"

definition percy_request_parser_feed ::
  "percy_request_parser \<Rightarrow> u8 \<Rightarrow> fault + percy_request_parser" where
  "percy_request_parser_feed p c =
     bindR (percy_request_step p c) (\<lambda>(p', next). Inr (p'\<lparr>qp_state := next\<rparr>))"

lemmas percy_request_defs =
  percy_request_parser_feed_def percy_request_step_def p_request_ver_def p_request_passphrase_def
  p_request_type_def p_request_method_def p_request_resv_def p_request_value_def
  PASS_PHRASE_LEN_def VALUE_LEN_def

definition percy_request_fin :: "percy_request_parser \<Rightarrow> bool" where
  "percy_request_fin p \<longleftrightarrow> qp_state p = percy_request_done \<or> qp_state p = percy_request_error"

definition percy_request_inv :: "percy_request_parser \<Rightarrow> bool" where
  "percy_request_inv p \<longleftrightarrow>
     length (pq_passphrase (qp_request p)) = 6 \<and>
     (qp_state p = percy_request_passphrase \<longrightarrow> 0 \<le> qp_i p \<and> qp_i p < 6 \<and> qp_n p = 6)"

lemma percy_request_inv_init: "percy_request_inv (percy_request_parser_init p)"
  by (simp add: percy_request_inv_def percy_request_parser_init_def zero_request_percy_def)

interpretation percy_req: safe_byte_parser percy_request_parser_feed percy_request_inv percy_request_fin
proof unfold_locales
  fix p c p'
  show "percy_request_inv p \<Longrightarrow> percy_request_parser_feed p c = Inr p' \<Longrightarrow> percy_request_inv p'"
    by (cases "qp_state p")
      (auto simp: percy_request_defs percy_request_inv_def Let_def res_simps split: if_splits)
  show "percy_request_fin p \<Longrightarrow> percy_request_parser_feed p c = Inr p"
    by (auto simp: percy_request_defs percy_request_fin_def)
  show "percy_request_inv p \<Longrightarrow> \<exists>p'. percy_request_parser_feed p c = Inr p'"
    by (cases "qp_state p") (auto simp: percy_request_defs percy_request_inv_def Let_def)
qed

section \<open>Responses\<close>

record percy_response =
  ps_ver :: u8
  ps_status :: u8
  ps_resv :: u8
  ps_value :: u64

datatype percy_response_state =
    percy_response_ver
  | percy_response_status
  | percy_response_resv
  | percy_response_value
  | percy_response_done
  | percy_response_error

record percy_response_parser =
  rsp_response :: percy_response
  rsp_state :: percy_response_state
  rsp_i :: int
  rsp_n :: int

definition zero_percy_response :: percy_response where
  "zero_percy_response = \<lparr>ps_ver = 0, ps_status = 0, ps_resv = 0, ps_value = 0\<rparr>"

definition percy_response_parser_init :: "percy_response_parser \<Rightarrow> percy_response_parser" where
  "percy_response_parser_init p =
     p\<lparr>rsp_state := percy_response_ver, rsp_response := zero_percy_response\<rparr>"

type_synonym percy_response_result = "percy_response_parser \<times> percy_response_state"

definition p_response_ver :: "percy_response_parser \<Rightarrow> u8 \<Rightarrow> percy_response_result" where
  "p_response_ver p c =
     (p\<lparr>rsp_response := (rsp_response p)\<lparr>ps_ver := c\<rparr>\<rparr>, percy_response_status)"

definition p_response_status :: "percy_response_parser \<Rightarrow> u8 \<Rightarrow> percy_response_result" where
  "p_response_status p c =
     (p\<lparr>rsp_response := (rsp_response p)\<lparr>ps_status := c\<rparr>\<rparr>, percy_response_resv)"

definition p_response_resv :: "percy_response_parser \<Rightarrow> u8 \<Rightarrow> percy_response_result" where
  "p_response_resv p c =
     (p\<lparr>rsp_response := (rsp_response p)\<lparr>ps_resv := c\<rparr>, rsp_i := 0, rsp_n := 8\<rparr>,
      percy_response_value)"

definition p_response_value :: "percy_response_parser \<Rightarrow> u8 \<Rightarrow> percy_response_result" where
  "p_response_value p c =
     (if rsp_i p = rsp_n p then (p, percy_response_done)
      else let r = rsp_response p; i = rsp_i p; c' = (ucast c :: u64);
               v = (if i = 0 then push_bit 56 c'
                    else if i = 1 then ps_value r + push_bit 48 c'
                    else if i = 2 then ps_value r + push_bit 40 c'
                    else if i = 3 then ps_value r + push_bit 32 c'
                    else if i = 4 then ps_value r + push_bit 24 c'
                    else if i = 5 then ps_value r + push_bit 16 c'
                    else if i = 6 then ps_value r + push_bit 8 c'
                    else if i = 7 then ps_value r + c'
                    else ps_value r)
           in (p\<lparr>rsp_response := r\<lparr>ps_value := v\<rparr>, rsp_i := i + 1\<rparr>, percy_response_value))"

definition percy_response_step :: "percy_response_parser \<Rightarrow> u8 \<Rightarrow> percy_response_result" where
  "percy_response_step p c =
     (case rsp_state p of
        percy_response_ver \<Rightarrow> p_response_ver p c
      | percy_response_status \<Rightarrow> p_response_status p c
      | percy_response_resv \<Rightarrow> p_response_resv p c
      | percy_response_value \<Rightarrow> p_response_value p c
      | percy_response_done \<Rightarrow> (p, rsp_state p)
      | percy_response_error \<Rightarrow> (p, rsp_state p))"

definition percy_response_parser_feed ::
  "percy_response_parser \<Rightarrow> u8 \<Rightarrow> fault + percy_response_parser" where
  "percy_response_parser_feed p c =
     (case percy_response_step p c of (p', next) \<Rightarrow> Inr (p'\<lparr>rsp_state := next\<rparr>))"

lemmas percy_response_defs =
  percy_response_parser_feed_def percy_response_step_def p_response_ver_def p_response_status_def
  p_response_resv_def p_response_value_def

definition percy_response_fin :: "percy_response_parser \<Rightarrow> bool" where
  "percy_response_fin p \<longleftrightarrow> rsp_state p = percy_response_done \<or> rsp_state p = percy_response_error"

interpretation percy_resp: safe_byte_parser percy_response_parser_feed "\<lambda>_. True" percy_response_fin
  by unfold_locales (auto simp: percy_response_defs percy_response_fin_def split: prod.splits)

section \<open>What the request parser accepts\<close>

definition percy_bytes :: "request_percy \<Rightarrow> bytes" where
  "percy_bytes r =
     pq_ver r # pq_passphrase r @
     [pq_type r, pq_method r, pq_resv r, ucast (drop_bit 8 (pq_value r)), ucast (pq_value r)]"

definition percy_ok :: "request_percy \<Rightarrow> bool" where
  "percy_ok r \<longleftrightarrow> pq_ver r = 1 \<and> length (pq_passphrase r) = 6 \<and> IS_PERCY_TYPE (pq_type r) \<and>
     IS_PERCY_METHOD (pq_method r)"

text \<open>The parser after the ten first bytes of a request, and in each of its states before.\<close>

definition qst :: "request_percy \<Rightarrow> percy_request_state \<Rightarrow> int \<Rightarrow> int \<Rightarrow> percy_request_parser" where
  "qst r s i n = \<lparr>qp_request = r, qp_state = s, qp_i = i, qp_n = n\<rparr>"

definition qreq :: "bytes \<Rightarrow> u8 \<Rightarrow> u8 \<Rightarrow> u8 \<Rightarrow> u16 \<Rightarrow> request_percy" where
  "qreq ps t m r v = \<lparr>pq_ver = 1, pq_type = t, pq_passphrase = pad 6 ps, pq_method = m,
                      pq_resv = r, pq_value = v\<rparr>"

inductive percy_reads :: "bytes \<Rightarrow> percy_request_parser \<Rightarrow> bool" where
  pr_ver: "percy_reads [] (qst zero_request_percy percy_request_ver 0 n)"
| pr_passphrase: "length ps < 6 \<Longrightarrow>
    percy_reads (1 # ps) (qst (qreq ps 0 0 0 0) percy_request_passphrase (int (length ps)) 6)"
| pr_type: "length ps = 6 \<Longrightarrow>
    percy_reads (1 # ps) (qst (qreq ps 0 0 0 0) percy_request_type 6 6)"
| pr_method: "length ps = 6 \<Longrightarrow> IS_PERCY_TYPE t \<Longrightarrow>
    percy_reads (1 # ps @ [t]) (qst (qreq ps t 0 0 0) percy_request_method 6 6)"
| pr_resv: "length ps = 6 \<Longrightarrow> IS_PERCY_TYPE t \<Longrightarrow> IS_PERCY_METHOD m \<Longrightarrow>
    percy_reads (1 # ps @ [t, m]) (qst (qreq ps t m 0 0) percy_request_resv 6 6)"
| pr_value: "length ps = 6 \<Longrightarrow> IS_PERCY_TYPE t \<Longrightarrow> IS_PERCY_METHOD m \<Longrightarrow>
    percy_reads (1 # ps @ [t, m, r]) (qst (qreq ps t m r 0) percy_request_value 0 2)"
| pr_value2: "length ps = 6 \<Longrightarrow> IS_PERCY_TYPE t \<Longrightarrow> IS_PERCY_METHOD m \<Longrightarrow>
    percy_reads (1 # ps @ [t, m, r, h]) (qst (qreq ps t m r (push_bit 8 (ucast h))) percy_request_value 1 2)"
| pr_done: "length ps = 6 \<Longrightarrow> IS_PERCY_TYPE t \<Longrightarrow> IS_PERCY_METHOD m \<Longrightarrow>
    percy_reads (1 # ps @ t # m # r # h # l # rest)
      (qst (qreq ps t m r (push_bit 8 (ucast h) + ucast l)) percy_request_done 1 2)"
| pr_error: "qp_state p = percy_request_error \<Longrightarrow> percy_reads bs p"

lemma percy_reads_as: "percy_reads bs' p' \<Longrightarrow> bs' = bs \<Longrightarrow> p' = p \<Longrightarrow> percy_reads bs p"
  by simp

lemma feed_passphrase:
  assumes "length ps < 6"
  shows "percy_request_parser_feed (qst (qreq ps 0 0 0 0) percy_request_passphrase (int (length ps)) 6) c =
    Inr (qst (qreq (ps @ [c]) 0 0 0 0)
      (if length ps = 5 then percy_request_type else percy_request_passphrase) (1 + int (length ps)) 6)"
  using assms by (auto simp: percy_request_defs qst_def qreq_def pad_snoc Let_def)

lemma percy_reads_step:
  assumes "percy_reads bs p" "percy_request_parser_feed p c = Inr q"
  shows "percy_reads (bs @ [c]) q"
  using assms
proof (cases rule: percy_reads.cases)
  case (pr_ver n)
  then have "q = (if c = 1 then qst (qreq [] 0 0 0 0) percy_request_passphrase 0 6
      else qst zero_request_percy percy_request_error 0 n)"
    using assms(2)
    by (auto simp: percy_request_defs qst_def qreq_def zero_request_percy_def pad_Nil)
  then show ?thesis using pr_ver percy_reads.pr_passphrase [of "[]"]
    by (auto intro: pr_error simp: qst_def)
next
  case (pr_passphrase ps)
  then show ?thesis using assms(2) percy_reads.pr_passphrase [of "ps @ [c]"] pr_type [of "ps @ [c]"]
    by (auto simp: feed_passphrase split: if_splits)
next
  case (pr_type ps)
  then show ?thesis using assms(2) pr_method [of ps c] pr_error
    by (auto simp: percy_request_defs qst_def qreq_def split: if_splits)
next
  case (pr_method ps t)
  then show ?thesis using assms(2) pr_resv [of ps t c] pr_error
    by (auto simp: percy_request_defs qst_def qreq_def split: if_splits)
next
  case (pr_resv ps t m)
  then show ?thesis using assms(2) pr_value [of ps t m c]
    by (auto simp: percy_request_defs qst_def qreq_def)
next
  case (pr_value ps t m r)
  then show ?thesis using assms(2) pr_value2 [of ps t m r c]
    by (auto simp: percy_request_defs qst_def qreq_def)
next
  case (pr_value2 ps t m r h)
  then show ?thesis using assms(2) pr_done [of ps t m r h c "[]"]
    by (auto simp: percy_request_defs qst_def qreq_def)
next
  case (pr_done ps t m r h l rest)
  then show ?thesis using assms(2) percy_reads.pr_done [of ps t m r h l "rest @ [c]"]
    by (auto simp: percy_request_defs qst_def)
next
  case pr_error
  then show ?thesis using assms(2) by (auto intro: percy_reads.pr_error simp: percy_request_defs)
qed

lemma percy_reads_run:
  "run percy_request_parser_feed (percy_request_parser_init p) bs = Inr q \<Longrightarrow> percy_reads bs q"
proof (induction bs arbitrary: q rule: rev_induct)
  case Nil
  then show ?case using pr_ver [of "qp_n p"]
    by (cases p) (auto simp: percy_request_parser_init_def qst_def)
next
  case (snoc c bs)
  then obtain q1 where "run percy_request_parser_feed (percy_request_parser_init p) bs = Inr q1"
      "percy_request_parser_feed q1 c = Inr q"
    by (auto simp: run_snoc bindR_eq_Inr)
  then show ?case using snoc.IH percy_reads_step by blast
qed

lemma run_passphrase:
  "length ps < 6 \<Longrightarrow> run percy_request_parser_feed (qst (qreq [] 0 0 0 0) percy_request_passphrase 0 6) ps =
   Inr (qst (qreq ps 0 0 0 0) percy_request_passphrase (int (length ps)) 6)"
  by (induction ps rule: rev_induct) (simp_all add: run_snoc feed_passphrase)

lemma run_percy_request:
  assumes "percy_ok r"
  shows "run percy_request_parser_feed (percy_request_parser_init p) (percy_bytes r) =
     Inr (qst r percy_request_done 1 2)"
proof -
  let ?ps = "pq_passphrase r"
  obtain xs c where ps: "?ps = xs @ [c]" "length xs = 5"
    using assms by (cases ?ps rule: rev_cases) (auto simp: percy_ok_def)
  have "run percy_request_parser_feed (percy_request_parser_init p) [1] =
      Inr (qst (qreq [] 0 0 0 0) percy_request_passphrase 0 6)"
    by (simp add: percy_request_parser_init_def percy_request_defs qst_def qreq_def zero_request_percy_def pad_Nil)
  from run_then [OF this run_passphrase [of xs]] ps(2)
  have "run percy_request_parser_feed (percy_request_parser_init p) (1 # xs) =
      Inr (qst (qreq xs 0 0 0 0) percy_request_passphrase 5 6)" by simp
  from run_then [OF this, of "[c]"]
  have "run percy_request_parser_feed (percy_request_parser_init p) ((1 # xs) @ [c]) =
      Inr (qst (qreq ?ps 0 0 0 0) percy_request_type 6 6)"
    using feed_passphrase [of xs c] ps by simp
  moreover have "run percy_request_parser_feed (qst (qreq ?ps 0 0 0 0) percy_request_type 6 6)
      [pq_type r, pq_method r, pq_resv r, ucast (drop_bit 8 (pq_value r)), ucast (pq_value r)] =
      Inr (qst r percy_request_done 1 2)"
    using assms join_u16 [of "pq_value r"]
    by (simp add: percy_ok_def percy_request_defs qst_def qreq_def pad_def)
  ultimately have "run percy_request_parser_feed (percy_request_parser_init p) (((1 # xs) @ [c]) @
      [pq_type r, pq_method r, pq_resv r, ucast (drop_bit 8 (pq_value r)), ucast (pq_value r)]) =
      Inr (qst r percy_request_done 1 2)"
    by (rule run_then)
  then show ?thesis using assms ps(1) by (simp add: percy_bytes_def percy_ok_def)
qed

lemma percy_sound:
  assumes "run percy_request_parser_feed (percy_request_parser_init p) bs = Inr q"
    "qp_state q = percy_request_done"
  shows "percy_ok (qp_request q) \<and> (\<exists>rest. bs = percy_bytes (qp_request q) @ rest)"
  using percy_reads_run [OF assms(1)] assms(2)
proof (cases rule: percy_reads.cases)
  case (pr_done ps t m rv h l rest)
  then show ?thesis using split_u16 [of h l]
    by (simp add: percy_ok_def percy_bytes_def qst_def qreq_def pad_def)
qed (auto simp: qst_def)

lemma percy_complete:
  assumes "percy_ok r"
  shows "run percy_request_parser_feed (percy_request_parser_init p) (percy_bytes r @ rest) =
     Inr (qst r percy_request_done 1 2)"
proof (rule run_then [OF run_percy_request [OF assms]])
  show "run percy_request_parser_feed (qst r percy_request_done 1 2) rest = Inr (qst r percy_request_done 1 2)"
    by (rule percy_req.run_fin) (simp add: percy_request_fin_def qst_def)
qed

text \<open>
  C31: The Percy request parser, over the whole language it accepts: it ends in
  \<^verbatim>\<open>percy_request_done\<close> holding the request \<open>r\<close> if and only if \<open>r\<close> has version 1, a type of at most 2
  and a method of at most 7, and the input begins with the twelve bytes of \<open>r\<close> (version, six bytes
  of passphrase, type, method, reserved byte, value in network order).
\<close>

theorem percy_request_exact:
  "(\<exists>q. run percy_request_parser_feed (percy_request_parser_init p) bs = Inr q \<and>
        qp_state q = percy_request_done \<and> qp_request q = r) \<longleftrightarrow>
   percy_ok r \<and> (\<exists>rest. bs = percy_bytes r @ rest)"
proof
  assume "\<exists>q. run percy_request_parser_feed (percy_request_parser_init p) bs = Inr q \<and>
      qp_state q = percy_request_done \<and> qp_request q = r"
  then show "percy_ok r \<and> (\<exists>rest. bs = percy_bytes r @ rest)" using percy_sound by blast
next
  assume "percy_ok r \<and> (\<exists>rest. bs = percy_bytes r @ rest)"
  then show "\<exists>q. run percy_request_parser_feed (percy_request_parser_init p) bs = Inr q \<and>
      qp_state q = percy_request_done \<and> qp_request q = r"
    using percy_complete [of r p] by (auto simp: qst_def)
qed

end
