(* ===== verification/Buffer.thy ===== *)
theory Buffer
  imports Prelude
begin

text \<open>
  The I/O buffer of \<^verbatim>\<open>utils/buffer/buffer.c\<close>. The four pointers become a memory block and three
  offsets into it. The block may be shorter than \<open>b_limit\<close>: \<^verbatim>\<open>buffer_init\<close> trusts its caller,
  and the development keeps that freedom. \<open>buffer_inv\<close> is the invariant the header of the C
  file draws (R \<open>\<le>\<close> W \<open>\<le>\<close> limit), together with the block being large enough. The locale
  \<open>byte_queue\<close> is what the rest of the proxy relies on: a bounded first-in first-out
  queue of bytes.
\<close>

record buffer =
  b_data :: bytes
  b_limit :: nat
  b_read :: nat
  b_write :: nat

definition buffer_reset :: "buffer \<Rightarrow> buffer" where
  "buffer_reset b = b\<lparr>b_read := 0, b_write := 0\<rparr>"

definition buffer_init :: "nat \<Rightarrow> bytes \<Rightarrow> buffer" where
  "buffer_init n block = buffer_reset \<lparr>b_data = block, b_limit = n, b_read = 0, b_write = 0\<rparr>"

definition buffer_can_write :: "buffer \<Rightarrow> bool" where
  "buffer_can_write b \<longleftrightarrow> int (b_limit b) - int (b_write b) > 0"

text \<open>\<^verbatim>\<open>buffer_write_ptr\<close> and \<^verbatim>\<open>buffer_read_ptr\<close>: the pointer (an offset) and \<^verbatim>\<open>*nbyte\<close>.\<close>

definition buffer_write_ptr :: "buffer \<Rightarrow> fault + (nat \<times> nat)" where
  "buffer_write_ptr b =
     (if b_write b \<le> b_limit b then Inr (b_write b, b_limit b - b_write b) else Inl AssertFail)"

definition buffer_can_read :: "buffer \<Rightarrow> bool" where
  "buffer_can_read b \<longleftrightarrow> int (b_write b) - int (b_read b) > 0"

definition buffer_read_ptr :: "buffer \<Rightarrow> fault + (nat \<times> nat)" where
  "buffer_read_ptr b =
     (if b_read b \<le> b_write b then Inr (b_read b, b_write b - b_read b) else Inl AssertFail)"

definition buffer_write_adv :: "buffer \<Rightarrow> int \<Rightarrow> fault + buffer" where
  "buffer_write_adv b n =
     (if n > -1
      then let b' = b\<lparr>b_write := b_write b + nat n\<rparr>
           in if b_write b' \<le> b_limit b' then Inr b' else Inl AssertFail
      else Inr b)"

text \<open>\<open>memmove\<close> of the \<open>n\<close> readable bytes to the start of the block.\<close>

definition buffer_compact :: "buffer \<Rightarrow> fault + buffer" where
  "buffer_compact b =
     (if b_read b = 0 then Inr b
      else if b_read b = b_write b then Inr (b\<lparr>b_read := 0, b_write := 0\<rparr>)
      else let n = b_write b - b_read b
           in if b_read b + n \<le> length (b_data b)
              then Inr (b\<lparr>b_data := overwrite (b_data b) 0 (take n (drop (b_read b) (b_data b))),
                          b_read := 0, b_write := n\<rparr>)
              else Inl OutOfBounds)"

definition buffer_read_adv :: "buffer \<Rightarrow> int \<Rightarrow> fault + buffer" where
  "buffer_read_adv b n =
     (if n > -1
      then let b' = b\<lparr>b_read := b_read b + nat n\<rparr>
           in if b_read b' \<le> b_write b'
              then (if b_read b' = b_write b' then buffer_compact b' else Inr b')
              else Inl AssertFail
      else Inr b)"

definition buffer_read :: "buffer \<Rightarrow> fault + (u8 \<times> buffer)" where
  "buffer_read b =
     (if buffer_can_read b
      then bindR (arr_get (b_data b) (int (b_read b))) (\<lambda>c.
           bindR (buffer_read_adv b 1) (\<lambda>b'. Inr (c, b')))
      else Inr (0, b))"

definition buffer_write :: "buffer \<Rightarrow> u8 \<Rightarrow> fault + buffer" where
  "buffer_write b c =
     (if buffer_can_write b
      then bindR (arr_set (b_data b) (int (b_write b)) c) (\<lambda>d.
           buffer_write_adv (b\<lparr>b_data := d\<rparr>) 1)
      else Inr b)"

text \<open>
  The idiom of every producer of the proxy: get the write pointer, let \<^verbatim>\<open>read\<close>, \<^verbatim>\<open>memcpy\<close> or
  \<^verbatim>\<open>sprintf\<close> store bytes there, then advance by their number. The store itself goes to the block
  and knows nothing of \<open>b_limit\<close>.
\<close>

definition buffer_store :: "buffer \<Rightarrow> bytes \<Rightarrow> fault + buffer" where
  "buffer_store b bs =
     (if b_write b + length bs \<le> length (b_data b)
      then Inr (b\<lparr>b_data := overwrite (b_data b) (b_write b) bs\<rparr>)
      else Inl OutOfBounds)"

definition buffer_put :: "buffer \<Rightarrow> bytes \<Rightarrow> fault + buffer" where
  "buffer_put b bs =
     bindR (buffer_write_ptr b) (\<lambda>_.
     bindR (buffer_store b bs) (\<lambda>b'. buffer_write_adv b' (int (length bs))))"

section \<open>Invariant and contents\<close>

definition buffer_inv :: "buffer \<Rightarrow> bool" where
  "buffer_inv b \<longleftrightarrow>
     b_read b \<le> b_write b \<and> b_write b \<le> b_limit b \<and> b_limit b \<le> length (b_data b)"

definition contents :: "buffer \<Rightarrow> bytes" where
  "contents b = take (b_write b - b_read b) (drop (b_read b) (b_data b))"

definition buffer_room :: "buffer \<Rightarrow> nat" where
  "buffer_room b = b_limit b - b_write b"

lemma buffer_inv_init: "n \<le> length block \<Longrightarrow> buffer_inv (buffer_init n block)"
  by (simp add: buffer_inv_def buffer_init_def buffer_reset_def)

lemma contents_init [simp]: "contents (buffer_init n block) = []"
  by (simp add: contents_def buffer_init_def buffer_reset_def)

lemma buffer_inv_reset [simp]: "buffer_inv b \<Longrightarrow> buffer_inv (buffer_reset b)"
  by (simp add: buffer_inv_def buffer_reset_def)

lemma contents_reset [simp]: "contents (buffer_reset b) = []"
  by (simp add: contents_def buffer_reset_def)

lemma room_reset [simp]: "buffer_room (buffer_reset b) = b_limit b"
  by (simp add: buffer_room_def buffer_reset_def)

lemma length_contents: "buffer_inv b \<Longrightarrow> length (contents b) = b_write b - b_read b"
  by (auto simp: contents_def buffer_inv_def)

lemma can_read_iff: "buffer_inv b \<Longrightarrow> buffer_can_read b \<longleftrightarrow> contents b \<noteq> []"
  by (auto simp: buffer_can_read_def contents_def buffer_inv_def)

lemma can_write_iff: "buffer_can_write b \<longleftrightarrow> 0 < buffer_room b"
  by (auto simp: buffer_can_write_def buffer_room_def)

lemma read_ptr_length:
  "buffer_inv b \<Longrightarrow> buffer_read_ptr b = Inr (b_read b, length (contents b))"
  by (simp add: buffer_read_ptr_def length_contents) (simp add: buffer_inv_def)

lemma write_ptr_room:
  "buffer_inv b \<Longrightarrow> buffer_write_ptr b = Inr (b_write b, buffer_room b)"
  by (simp add: buffer_write_ptr_def buffer_room_def buffer_inv_def)

lemma compact_spec:
  assumes "buffer_inv b"
  obtains b' where "buffer_compact b = Inr b'" "buffer_inv b'" "contents b' = contents b"
    "b_limit b' = b_limit b" "b_read b' = 0" "length (b_data b') = length (b_data b)"
proof -
  have *: "buffer_compact b = Inr b' \<Longrightarrow> buffer_inv b' \<and> contents b' = contents b \<and>
      b_limit b' = b_limit b \<and> b_read b' = 0 \<and> length (b_data b') = length (b_data b)" for b'
    using assms
    by (auto simp: buffer_compact_def buffer_inv_def contents_def Let_def overwrite_def
        split: if_splits)
  have "\<exists>b'. buffer_compact b = Inr b'"
    using assms by (auto simp: buffer_compact_def buffer_inv_def Let_def)
  then show ?thesis using * that by blast
qed

lemma read_adv_spec:
  assumes "buffer_inv b" and "n \<le> length (contents b)"
  shows "\<exists>b'. buffer_read_adv b (int n) = Inr b' \<and> buffer_inv b' \<and>
     contents b' = drop n (contents b) \<and> b_limit b' = b_limit b"
proof -
  let ?b = "b\<lparr>b_read := b_read b + n\<rparr>"
  have n: "b_read b + n \<le> b_write b"
    using assms by (auto simp: length_contents buffer_inv_def)
  then have inv: "buffer_inv ?b" using assms(1) by (simp add: buffer_inv_def)
  have c: "contents ?b = drop n (contents b)"
    by (simp add: contents_def drop_take add.commute)
  obtain b' where "buffer_compact ?b = Inr b'" "buffer_inv b'" "contents b' = contents ?b"
      "b_limit b' = b_limit ?b"
    using compact_spec [OF inv] by metis
  then show ?thesis using n inv c by (auto simp: buffer_read_adv_def Let_def)
qed

lemma put_spec:
  assumes "buffer_inv b" and "length bs \<le> buffer_room b"
  shows "\<exists>b'. buffer_put b bs = Inr b' \<and> buffer_inv b' \<and>
     contents b' = contents b @ bs \<and> b_limit b' = b_limit b"
proof -
  have l: "b_write b + length bs \<le> b_limit b"
    using assms by (auto simp: buffer_room_def buffer_inv_def)
  let ?b = "b\<lparr>b_data := overwrite (b_data b) (b_write b) bs, b_write := b_write b + length bs\<rparr>"
  have "buffer_put b bs = Inr ?b"
    using assms(1) l
    by (simp add: buffer_put_def buffer_write_ptr_def buffer_store_def buffer_write_adv_def
        buffer_inv_def Let_def)
  moreover have "buffer_inv ?b" using assms(1) l by (simp add: buffer_inv_def)
  moreover have "contents ?b = contents b @ bs"
  proof -
    have "take (b_write b - b_read b) (drop (b_read b) (b_data b)) @ bs =
        drop (b_read b) (take (b_write b) (b_data b) @ bs)"
      using assms(1) l by (auto simp: buffer_inv_def drop_take)
    moreover have "length (take (b_write b) (b_data b)) = b_write b"
      using assms(1) by (auto simp: buffer_inv_def)
    ultimately show ?thesis
      using assms(1) by (auto simp: contents_def overwrite_def buffer_inv_def)
  qed
  ultimately show ?thesis by simp
qed

section \<open>The queue interface\<close>

text \<open>
  Runs of a queue: \<open>Put\<close> stores bytes, \<open>Take n\<close> consumes \<open>n\<close> of them. The run returns the
  bytes consumed, in order.
\<close>

datatype queue_op = Put bytes | Take nat

fun queue_run ::
  "('q \<Rightarrow> bytes \<Rightarrow> fault + 'q) \<Rightarrow> ('q \<Rightarrow> int \<Rightarrow> fault + 'q) \<Rightarrow> ('q \<Rightarrow> bytes) \<Rightarrow>
   'q \<Rightarrow> queue_op list \<Rightarrow> fault + (bytes \<times> 'q)" where
  "queue_run put adv cont q [] = Inr ([], q)"
| "queue_run put adv cont q (Put bs # ops) =
     bindR (put q bs) (\<lambda>q'. queue_run put adv cont q' ops)"
| "queue_run put adv cont q (Take n # ops) =
     bindR (adv q (int n)) (\<lambda>q'.
     bindR (queue_run put adv cont q' ops) (\<lambda>(out, q''). Inr (take n (cont q) @ out, q'')))"

fun bytes_in :: "queue_op list \<Rightarrow> bytes" where
  "bytes_in [] = []"
| "bytes_in (Put bs # ops) = bs @ bytes_in ops"
| "bytes_in (Take n # ops) = bytes_in ops"

locale byte_queue =
  fixes inv :: "'q \<Rightarrow> bool"
    and cont :: "'q \<Rightarrow> bytes"
    and room :: "'q \<Rightarrow> nat"
    and put :: "'q \<Rightarrow> bytes \<Rightarrow> fault + 'q"
    and adv :: "'q \<Rightarrow> int \<Rightarrow> fault + 'q"
  assumes put_ok: "inv q \<Longrightarrow> length bs \<le> room q \<Longrightarrow>
      \<exists>q'. put q bs = Inr q' \<and> inv q' \<and> cont q' = cont q @ bs"
    and adv_ok: "inv q \<Longrightarrow> n \<le> length (cont q) \<Longrightarrow>
      \<exists>q'. adv q (int n) = Inr q' \<and> inv q' \<and> cont q' = drop n (cont q)"
    and put_room: "inv q \<Longrightarrow> room q < length bs \<Longrightarrow> \<exists>e. put q bs = Inl e"
    and adv_room: "inv q \<Longrightarrow> length (cont q) < n \<Longrightarrow> \<exists>e. adv q (int n) = Inl e"
begin

lemma put_Inr: "inv q \<Longrightarrow> put q bs = Inr q' \<Longrightarrow> inv q' \<and> cont q' = cont q @ bs"
  using put_ok [of q bs] put_room [of q bs] by (cases "length bs \<le> room q") auto

lemma adv_Inr:
  "inv q \<Longrightarrow> adv q (int n) = Inr q' \<Longrightarrow> n \<le> length (cont q) \<and> inv q' \<and> cont q' = drop n (cont q)"
  using adv_ok [of q n] adv_room [of q n] by (cases "n \<le> length (cont q)") auto

lemma fifo:
  "inv q \<Longrightarrow> queue_run put adv cont q ops = Inr (out, q') \<Longrightarrow>
   inv q' \<and> out @ cont q' = cont q @ bytes_in ops"
proof (induction ops arbitrary: q out)
  case Nil
  then show ?case by simp
next
  case (Cons op ops)
  show ?case
  proof (cases op)
    case (Put bs)
    with Cons.prems obtain q1 where q1: "put q bs = Inr q1"
        "queue_run put adv cont q1 ops = Inr (out, q')"
      by (auto simp: bindR_eq_Inr)
    have "inv q1" "cont q1 = cont q @ bs" using put_Inr [OF Cons.prems(1) q1(1)] by auto
    with Cons.IH [OF _ q1(2)] Put show ?thesis by simp
  next
    case (Take n)
    with Cons.prems obtain q1 out1 where q1: "adv q (int n) = Inr q1"
        "queue_run put adv cont q1 ops = Inr (out1, q')" "out = take n (cont q) @ out1"
      by (auto simp: bindR_eq_Inr)
    have "inv q1" "cont q1 = drop n (cont q)" using adv_Inr [OF Cons.prems(1) q1(1)] by auto
    with Cons.IH [OF _ q1(2)] q1(3) Take show ?thesis
      by (metis append.assoc append_take_drop_id bytes_in.simps(3))
  qed
qed

end

lemma put_fails:
  "buffer_inv b \<Longrightarrow> buffer_room b < length bs \<Longrightarrow> \<exists>e. buffer_put b bs = Inl e"
  by (auto simp: buffer_put_def buffer_write_ptr_def buffer_store_def buffer_write_adv_def
      buffer_room_def buffer_inv_def Let_def)

lemma read_adv_fails:
  "buffer_inv b \<Longrightarrow> length (contents b) < n \<Longrightarrow> \<exists>e. buffer_read_adv b (int n) = Inl e"
  by (auto simp: buffer_read_adv_def length_contents Let_def)

interpretation bq: byte_queue buffer_inv contents buffer_room buffer_put buffer_read_adv
  using put_spec read_adv_spec put_fails read_adv_fails by unfold_locales blast+

text \<open>One byte at a time: \<^verbatim>\<open>buffer_read\<close> takes the first readable byte, \<^verbatim>\<open>buffer_write\<close> adds one.\<close>

lemma buffer_read_spec:
  assumes "buffer_inv b" and "contents b = c # cs"
  shows "\<exists>b'. buffer_read b = Inr (c, b') \<and> buffer_inv b' \<and> contents b' = cs \<and>
     b_limit b' = b_limit b"
proof -
  have lt: "b_read b < b_write b" and len: "b_write b \<le> length (b_data b)"
    using assms length_contents [of b] by (auto simp: buffer_inv_def)
  then have "b_data b ! b_read b = c"
    using assms(2) by (simp add: contents_def take_Cons' Cons_nth_drop_Suc [symmetric])
  moreover obtain b' where "buffer_read_adv b 1 = Inr b'" "buffer_inv b'" "contents b' = cs"
      "b_limit b' = b_limit b"
    using read_adv_spec [of b 1] assms by auto
  ultimately show ?thesis using lt len by (simp add: buffer_read_def buffer_can_read_def)
qed

lemma buffer_write_spec:
  assumes "buffer_inv b" and "0 < buffer_room b"
  shows "\<exists>b'. buffer_write b c = Inr b' \<and> buffer_inv b' \<and> contents b' = contents b @ [c]"
proof -
  have "overwrite (b_data b) (b_write b) [c] = (b_data b)[b_write b := c]"
    using assms by (simp add: buffer_inv_def buffer_room_def overwrite_def upd_conv_take_nth_drop)
  then have "buffer_write b c = buffer_put b [c]"
    using assms
    by (simp add: buffer_write_def buffer_put_def buffer_can_write_def buffer_room_def
        buffer_write_ptr_def buffer_store_def buffer_inv_def)
  then show ?thesis using put_spec [OF assms(1), of "[c]"] assms(2) by auto
qed

section \<open>Properties\<close>

text \<open>
  C26: The buffer is a first-in first-out queue. For every sequence of stores and consumptions that
  runs without a fault, the bytes consumed followed by the bytes still readable are the bytes that
  were readable at the start followed by the bytes stored, in order, and the pointers stay ordered.
\<close>

theorem buffer_fifo:
  assumes "buffer_inv b" "queue_run buffer_put buffer_read_adv contents b ops = Inr (out, b')"
  shows "buffer_inv b' \<and> out @ contents b' = contents b @ bytes_in ops"
  using assms by (rule bq.fifo)

theorem buffer_fifo_witness:
  "\<exists>out b'. queue_run buffer_put buffer_read_adv contents (buffer_init 4 [0, 0, 0, 0])
      [Put [1, 2, 3], Take 2, Put [4], Take 2] = Inr (out, b') \<and>
     buffer_inv b' \<and> out @ contents b' = [1, 2, 3, 4]"
proof -
  let ?ops = "[Put [1, 2, 3], Take 2, Put [4], Take 2]"
  let ?b = "buffer_init 4 [0, 0, 0, 0]"
  have "\<exists>out b'. queue_run buffer_put buffer_read_adv contents ?b ?ops = Inr (out, b')"
    by (simp add: buffer_init_def buffer_reset_def buffer_put_def buffer_write_ptr_def buffer_store_def
        buffer_write_adv_def buffer_read_adv_def buffer_compact_def contents_def overwrite_def Let_def)
  then obtain out b' where r: "queue_run buffer_put buffer_read_adv contents ?b ?ops = Inr (out, b')" by blast
  have "buffer_inv ?b" by (rule buffer_inv_init) simp
  from buffer_fifo [OF this r] r show ?thesis by auto
qed

text \<open>
  Compaction moves the readable bytes to the start of the block and loses none: they are the
  same bytes in the same order, and all the space they do not take becomes writable again.
\<close>

theorem buffer_compact_room:
  assumes "buffer_inv b"
  shows "\<exists>b'. buffer_compact b = Inr b' \<and> buffer_inv b' \<and> contents b' = contents b \<and>
     buffer_room b' = b_limit b - length (contents b)"
proof -
  obtain b' where b': "buffer_compact b = Inr b'" "buffer_inv b'" "contents b' = contents b"
      "b_limit b' = b_limit b" "b_read b' = 0"
    using compact_spec [OF assms] by metis
  have "buffer_room b' = b_limit b - length (contents b)"
    using length_contents [OF b'(2)] b'(3-5) by (simp add: buffer_room_def)
  then show ?thesis using b' by blast
qed

theorem buffer_compact_room_witness:
  "\<exists>b'. buffer_compact \<lparr>b_data = [1, 2, 3, 4], b_limit = 4, b_read = 2, b_write = 4\<rparr> = Inr b' \<and>
     buffer_inv b' \<and> contents b' = [3, 4] \<and> buffer_room b' = 2"
proof -
  have "buffer_inv \<lparr>b_data = [1, 2, 3, 4], b_limit = 4, b_read = 2, b_write = 4\<rparr>"
    by (simp add: buffer_inv_def)
  from buffer_compact_room [OF this] show ?thesis by (simp add: contents_def)
qed

text \<open>
  Reading and writing one byte at a time: a byte written into a buffer with room is, after as
  many single reads as there were bytes before it, the byte that \<^verbatim>\<open>buffer_read\<close> returns; an empty
  buffer yields 0 and a full one drops the byte, both leaving the buffer as it was.
\<close>

theorem buffer_byte_ops:
  assumes "buffer_inv b"
  shows "(contents b = [] \<longrightarrow> buffer_read b = Inr (0, b)) \<and>
     (buffer_room b = 0 \<longrightarrow> buffer_write b c = Inr b) \<and>
     (0 < buffer_room b \<longrightarrow> (\<exists>b'. buffer_write b c = Inr b' \<and> buffer_inv b' \<and>
         contents b' = contents b @ [c])) \<and>
     (\<forall>x xs. contents b = x # xs \<longrightarrow> (\<exists>b'. buffer_read b = Inr (x, b') \<and> buffer_inv b' \<and> contents b' = xs))"
  using buffer_read_spec [OF assms] buffer_write_spec [OF assms, of c]
  by (auto simp: buffer_read_def buffer_write_def can_read_iff [OF assms] can_write_iff)

theorem buffer_byte_ops_witness:
  "buffer_inv \<lparr>b_data = [7, 8], b_limit = 2, b_read = 0, b_write = 1\<rparr> \<and>
   (\<exists>b'. buffer_write \<lparr>b_data = [7, 8], b_limit = 2, b_read = 0, b_write = 1\<rparr> 9 = Inr b' \<and>
     contents b' = [7, 9])"
proof -
  have i: "buffer_inv \<lparr>b_data = [7, 8], b_limit = 2, b_read = 0, b_write = 1\<rparr>" (is "buffer_inv ?b")
    by (simp add: buffer_inv_def)
  have "0 < buffer_room ?b" "contents ?b = [7]" by (simp_all add: buffer_room_def contents_def)
  then show ?thesis using i buffer_byte_ops [OF i, of 9] by auto
qed

end
