(* ===== verification/Http_Version.thy ===== *)
theory Http_Version
  imports Byte_Parser
begin

text \<open>
  What the request line parser and the status line parser have in common: both read \<^verbatim>\<open>HTTP/\<close>
  against the same C literal and accumulate the digits of the two version numbers the same way.
\<close>

text \<open>The literal \<^verbatim>\<open>"HTTP/"\<close> with its terminator: an array of six bytes.\<close>

definition version_literal :: bytes where
  "version_literal = [72, 84, 84, 80, SLASH, 0]"

text \<open>
  The two version numbers: a \<^verbatim>\<open>uint8_t\<close> digit is added to a \<^verbatim>\<open>uint16_t\<close> and stored back in a
  \<^verbatim>\<open>uint8_t\<close>.
\<close>

definition version_digit :: "int \<Rightarrow> u8 \<Rightarrow> u8 \<Rightarrow> u8" where
  "version_digit i old c =
     (let num = c - DIG0;
          v16 = (if i = 0 then ucast num else ucast old * 10 + ucast num :: u16)
      in ucast v16)"

definition http_slash :: bytes where "http_slash = [72, 84, 84, 80, SLASH]"

lemma version_literal_cases:
  assumes "0 \<le> i" "i \<le> 4"
  shows "arr_get version_literal i = Inr (version_literal ! nat i)"
    and "version_literal ! nat i = SLASH \<longleftrightarrow> i = 4"
    and "version_literal ! nat i \<noteq> 0"
proof -
  have "i = 0 \<or> i = 1 \<or> i = 2 \<or> i = 3 \<or> i = 4" using assms by arith
  then show "arr_get version_literal i = Inr (version_literal ! nat i)"
      "version_literal ! nat i = SLASH \<longleftrightarrow> i = 4" "version_literal ! nat i \<noteq> 0"
    by (auto simp: version_literal_def)
qed

lemma http_slash_nth:
  assumes "0 \<le> i" "i \<le> 4"
  shows "take (nat (i + 1)) http_slash = take (nat i) http_slash @ [version_literal ! nat i]"
proof -
  have "i = 0 \<or> i = 1 \<or> i = 2 \<or> i = 3 \<or> i = 4" using assms by arith
  then show ?thesis by (auto simp: version_literal_def http_slash_def)
qed

end
