(* ===== verification/Request_Line_Parser.thy ===== *)
theory Request_Line_Parser
  imports Http_Version
begin

text \<open>
  The HTTP request line parser of \<^verbatim>\<open>parsers/request_line_parser/request_line_parser.c\<close>. The fields
  of the C structures carry the prefixes \<open>rl_\<close> (\<^verbatim>\<open>struct request_line\<close>), \<open>rt_\<close>
  (\<^verbatim>\<open>struct request_target\<close>) and \<open>rp_\<close> (the parser). The union \<^verbatim>\<open>host\<close> is a datatype whose
  constructor says which member was written last; reading another member is a fault. The two
  address parsers of the C library (\<^verbatim>\<open>inet_pton\<close> for \<^verbatim>\<open>AF_INET\<close> and \<^verbatim>\<open>AF_INET6\<close>) are the
  arguments \<open>pton4\<close> and \<open>pton6\<close>.
\<close>

section \<open>Data\<close>

record sockaddr_in =
  sin_family :: u16
  sin_port :: u16
  sin_addr :: u32

record sockaddr_in6 =
  sin6_family :: u16
  sin6_port :: u16
  sin6_addr :: bytes

datatype target_type = absolute_form | authority_form

datatype host_type = domain | ipv4 | ipv6

datatype host = HDomain bytes | HIpv4 sockaddr_in | HIpv6 sockaddr_in6

record request_target =
  rt_type :: target_type
  rt_host_type :: host_type
  rt_host :: host
  rt_port :: u16
  rt_origin_form :: bytes

record request_line =
  rl_version_major :: u8
  rl_version_minor :: u8
  rl_method :: bytes
  rl_request_target :: request_target

datatype request_state =
    request_method
  | request_target_scheme
  | request_target_host
  | request_target_port
  | request_target_ogform
  | request_version
  | request_version_major
  | request_version_minor
  | request_end
  | request_done
  | request_error
  | request_error_unsupported_version
  | request_error_unsupported_method

record request_parser =
  rp_request :: request_line
  rp_state :: request_state
  rp_i :: int
  rp_n :: int

type_synonym pton4 = "bytes \<Rightarrow> u32 option"
type_synonym pton6 = "bytes \<Rightarrow> bytes option"

definition MAX_METHOD_LENGTH :: int where "MAX_METHOD_LENGTH = 24"
definition MAX_FQDN_LENGTH :: int where "MAX_FQDN_LENGTH = 255"
definition SCHEME_LENGTH :: int where "SCHEME_LENGTH = 7"
definition MAX_PORT_LENGTH :: int where "MAX_PORT_LENGTH = 5"
definition VERSION_LENGTH :: int where "VERSION_LENGTH = 8"
definition MAX_ORIGIN_FORM :: int where "MAX_ORIGIN_FORM = 1024"

definition AF_INET :: u16 where "AF_INET = 2"
definition AF_INET6 :: u16 where "AF_INET6 = 10"

definition CONNECT_method :: bytes where "CONNECT_method = [67, 79, 78, 78, 69, 67, 84]"
definition OPTIONS_method :: bytes where "OPTIONS_method = [79, 80, 84, 73, 79, 78, 83]"

text \<open>The literal \<^verbatim>\<open>"http://"\<close> with its terminator.\<close>

definition scheme_literal :: bytes where
  "scheme_literal = [104, 116, 116, 112, COLON, SLASH, SLASH, 0]"

text \<open>The all-zero \<^verbatim>\<open>struct request_line\<close>; the zero of both enumerations is their first constant.\<close>

definition zero_request_target :: request_target where
  "zero_request_target =
     \<lparr>rt_type = absolute_form, rt_host_type = domain, rt_host = HDomain (replicate 256 0),
      rt_port = 0, rt_origin_form = replicate 1024 0\<rparr>"

definition zero_request_line :: request_line where
  "zero_request_line =
     \<lparr>rl_version_major = 0, rl_version_minor = 0, rl_method = replicate 25 0,
      rl_request_target = zero_request_target\<rparr>"

definition request_parser_init :: "request_parser \<Rightarrow> request_parser" where
  "request_parser_init p =
     p\<lparr>rp_state := request_method, rp_i := 0, rp_n := MAX_METHOD_LENGTH,
       rp_request := zero_request_line\<rparr>"

section \<open>Access to the nested structures\<close>

abbreviation rp_target :: "request_parser \<Rightarrow> request_target" where
  "rp_target p \<equiv> rl_request_target (rp_request p)"

definition upd_request :: "(request_line \<Rightarrow> request_line) \<Rightarrow> request_parser \<Rightarrow> request_parser" where
  "upd_request f p = p\<lparr>rp_request := f (rp_request p)\<rparr>"

definition upd_target ::
  "(request_target \<Rightarrow> request_target) \<Rightarrow> request_parser \<Rightarrow> request_parser" where
  "upd_target f p = upd_request (\<lambda>r. r\<lparr>rl_request_target := f (rl_request_target r)\<rparr>) p"

text \<open>The member \<^verbatim>\<open>domain\<close> of the union.\<close>

fun host_domain :: "host \<Rightarrow> fault + bytes" where
  "host_domain (HDomain d) = Inr d"
| "host_domain _ = Inl UnionMisread"

definition domain_get :: "request_parser \<Rightarrow> int \<Rightarrow> fault + u8" where
  "domain_get p i = bindR (host_domain (rt_host (rp_target p))) (\<lambda>d. arr_get d i)"

definition domain_set :: "request_parser \<Rightarrow> int \<Rightarrow> u8 \<Rightarrow> fault + request_parser" where
  "domain_set p i c =
     bindR (host_domain (rt_host (rp_target p))) (\<lambda>d.
     bindR (arr_set d i c) (\<lambda>d'. Inr (upd_target (\<lambda>t. t\<lparr>rt_host := HDomain d'\<rparr>) p)))"

definition origin_set :: "request_parser \<Rightarrow> int \<Rightarrow> u8 \<Rightarrow> fault + request_parser" where
  "origin_set p i c =
     bindR (arr_set (rt_origin_form (rp_target p)) i c) (\<lambda>og.
     Inr (upd_target (\<lambda>t. t\<lparr>rt_origin_form := og\<rparr>) p))"

section \<open>Addresses and ports\<close>

definition parse_ipv6 :: "pton6 \<Rightarrow> request_parser \<Rightarrow> fault + (request_parser \<times> bool)" where
  "parse_ipv6 pton6 p =
     bindR (host_domain (rt_host (rp_target p))) (\<lambda>d.
     bindR (c_string d) (\<lambda>s.
       case pton6 s of
         None \<Rightarrow> Inr (p, False)
       | Some a \<Rightarrow>
           Inr (upd_target (\<lambda>t. t\<lparr>rt_port := htons 80,
                  rt_host := HIpv6 \<lparr>sin6_family = AF_INET6, sin6_port = htons 80, sin6_addr = a\<rparr>,
                  rt_host_type := ipv6\<rparr>) p, True)))"

definition parse_ipv4 :: "pton4 \<Rightarrow> request_parser \<Rightarrow> fault + (request_parser \<times> bool)" where
  "parse_ipv4 pton4 p =
     bindR (host_domain (rt_host (rp_target p))) (\<lambda>d.
     bindR (c_string d) (\<lambda>s.
       case pton4 s of
         None \<Rightarrow> Inr (upd_target (\<lambda>t. t\<lparr>rt_port := htons 80, rt_host_type := domain\<rparr>) p, False)
       | Some a \<Rightarrow>
           Inr (upd_target (\<lambda>t. t\<lparr>rt_port := htons 80,
                  rt_host := HIpv4 \<lparr>sin_family = AF_INET, sin_port = htons 80, sin_addr = a\<rparr>,
                  rt_host_type := ipv4\<rparr>) p, True)))"

text \<open>
  \<^verbatim>\<open>assign_port\<close> writes the port into the member of the union that \<^verbatim>\<open>host_type\<close> names.
\<close>

definition assign_port :: "request_parser \<Rightarrow> fault + request_parser" where
  "assign_port p =
     (let port = rt_port (rp_target p)
      in case rt_host_type (rp_target p) of
           ipv4 \<Rightarrow> (case rt_host (rp_target p) of
               HIpv4 a \<Rightarrow> Inr (upd_target (\<lambda>t. t\<lparr>rt_host := HIpv4 (a\<lparr>sin_port := port\<rparr>)\<rparr>) p)
             | _ \<Rightarrow> Inl UnionMisread)
         | ipv6 \<Rightarrow> (case rt_host (rp_target p) of
               HIpv6 a \<Rightarrow> Inr (upd_target (\<lambda>t. t\<lparr>rt_host := HIpv6 (a\<lparr>sin6_port := port\<rparr>)\<rparr>) p)
             | _ \<Rightarrow> Inl UnionMisread)
         | domain \<Rightarrow> Inr p)"

section \<open>The states\<close>

type_synonym request_result = "fault + (request_parser \<times> request_state)"

definition get_method_state :: "request_parser \<Rightarrow> request_result" where
  "get_method_state p =
     bindR (c_string (rl_method (rp_request p))) (\<lambda>m.
       if m \<noteq> CONNECT_method
       then Inr (upd_target (\<lambda>t. t\<lparr>rt_type := absolute_form\<rparr>) (p\<lparr>rp_n := SCHEME_LENGTH\<rparr>),
                 request_target_scheme)
       else Inr (upd_target (\<lambda>t. t\<lparr>rt_type := authority_form\<rparr>) (p\<lparr>rp_n := MAX_FQDN_LENGTH\<rparr>),
                 request_target_host))"

definition r_method :: "u8 \<Rightarrow> request_parser \<Rightarrow> request_result" where
  "r_method c p =
     (if rp_i p < rp_n p
      then if is_token c
           then bindR (arr_set (rl_method (rp_request p)) (rp_i p) c) (\<lambda>m.
                Inr (upd_request (\<lambda>r. r\<lparr>rl_method := m\<rparr>) (p\<lparr>rp_i := rp_i p + 1\<rparr>), request_method))
           else if c = SP
           then bindR (arr_set (rl_method (rp_request p)) (rp_i p) 0) (\<lambda>m.
                get_method_state (upd_request (\<lambda>r. r\<lparr>rl_method := m\<rparr>) (p\<lparr>rp_i := 0\<rparr>)))
           else Inr (p, request_error_unsupported_method)
      else Inr (p, request_error_unsupported_method))"

definition r_target_scheme :: "u8 \<Rightarrow> request_parser \<Rightarrow> request_result" where
  "r_target_scheme c p =
     (if rp_i p \<ge> rp_n p then Inr (p, request_error)
      else bindR (arr_get scheme_literal (rp_i p)) (\<lambda>s.
        if s \<noteq> c then Inr (p, request_error)
        else if rp_i p = rp_n p - 1
        then Inr (p\<lparr>rp_i := 0, rp_n := MAX_FQDN_LENGTH\<rparr>, request_target_host)
        else Inr (p\<lparr>rp_i := rp_i p + 1\<rparr>, request_target_scheme)))"

text \<open>
  What the four ends of the host do after the address has been parsed: the port, the origin form
  beginning with \<open>c\<close>, or the version, with \<^verbatim>\<open>/\<close> as origin form unless the method is \<^verbatim>\<open>OPTIONS\<close>.
\<close>

definition host_to_port :: "request_parser \<Rightarrow> request_result" where
  "host_to_port p = Inr (p\<lparr>rp_i := 0, rp_n := MAX_PORT_LENGTH\<rparr>, request_target_port)"

definition host_to_ogform :: "u8 \<Rightarrow> request_parser \<Rightarrow> request_result" where
  "host_to_ogform c p =
     bindR (origin_set p 0 c) (\<lambda>p'.
     Inr (p'\<lparr>rp_i := 1, rp_n := MAX_ORIGIN_FORM\<rparr>, request_target_ogform))"

definition host_to_version :: "request_parser \<Rightarrow> request_result" where
  "host_to_version p =
     bindR (c_string (rl_method (rp_request p))) (\<lambda>m.
     bindR (if m \<noteq> OPTIONS_method then origin_set p 0 SLASH else Inr p) (\<lambda>p'.
     Inr (p'\<lparr>rp_i := 0, rp_n := VERSION_LENGTH\<rparr>, request_version)))"

text \<open>
  Inside brackets: every end first overwrites the byte before it (the closing bracket, when there
  is one) with the terminator of the address.
\<close>

definition close_ipv6 :: "pton6 \<Rightarrow> (request_parser \<Rightarrow> request_result) \<Rightarrow> request_parser \<Rightarrow> request_result"
  where
  "close_ipv6 pton6 k p =
     bindR (domain_set p (rp_i p - 1) 0) (\<lambda>p1.
     bindR (parse_ipv6 pton6 p1) (\<lambda>(p2, ok). if \<not> ok then Inr (p2, request_error) else k p2))"

definition r_target_host :: "pton4 \<Rightarrow> pton6 \<Rightarrow> u8 \<Rightarrow> request_parser \<Rightarrow> request_result" where
  "r_target_host pton4 pton6 c p =
     (if rp_i p \<ge> rp_n p then Inr (p, request_error)
      else if rp_i p = 0 \<and> c = LBRACK
      then Inr (upd_target (\<lambda>t. t\<lparr>rt_host_type := ipv6\<rparr>) p, request_target_host)
      else if rt_host_type (rp_target p) = ipv6
      then if c = RBRACK
           then bindR (domain_set p (rp_i p) c) (\<lambda>p'.
                Inr (p'\<lparr>rp_i := rp_i p + 1\<rparr>, request_target_host))
           else bindR (if c = COLON then bindR (domain_get p (rp_i p - 1)) (\<lambda>b. Inr (b = RBRACK))
                       else Inr False) (\<lambda>colon_end.
             if colon_end then close_ipv6 pton6 host_to_port p
             else if end_of_authority c then close_ipv6 pton6 (host_to_ogform c) p
             else if c = SP then close_ipv6 pton6 host_to_version p
             else bindR (domain_set p (rp_i p) c) (\<lambda>p'.
                  Inr (p'\<lparr>rp_i := rp_i p + 1\<rparr>, request_target_host)))
      else if c = COLON then bindR (parse_ipv4 pton4 p) (\<lambda>(p', _). host_to_port p')
      else if end_of_authority c then bindR (parse_ipv4 pton4 p) (\<lambda>(p', _). host_to_ogform c p')
      else if c = SP then bindR (parse_ipv4 pton4 p) (\<lambda>(p', _). host_to_version p')
      else bindR (domain_set p (rp_i p) c) (\<lambda>p'.
           Inr (p'\<lparr>rp_i := rp_i p + 1\<rparr>, request_target_host)))"

definition r_target_port :: "u8 \<Rightarrow> request_parser \<Rightarrow> request_result" where
  "r_target_port c p =
     (if rp_i p \<ge> rp_n p then Inr (p, request_error)
      else if end_of_authority c
      then bindR (assign_port (upd_target (\<lambda>t. t\<lparr>rt_port := htons (rt_port t)\<rparr>) p)) (host_to_ogform c)
      else if c = SP
      then bindR (assign_port (upd_target (\<lambda>t. t\<lparr>rt_port := htons (rt_port t)\<rparr>) p)) host_to_version
      else if \<not> is_digit c then Inr (p, request_error)
      else let num = c - DIG0;
               port = (if rp_i p = 0 then ucast num else rt_port (rp_target p) * 10 + ucast num)
           in Inr (upd_target (\<lambda>t. t\<lparr>rt_port := port\<rparr>) (p\<lparr>rp_i := rp_i p + 1\<rparr>),
                   request_target_port))"

definition r_target_ogform :: "u8 \<Rightarrow> request_parser \<Rightarrow> request_result" where
  "r_target_ogform c p =
     (if rp_i p \<ge> rp_n p then Inr (p, request_error)
      else if c = SP then Inr (p\<lparr>rp_i := 0, rp_n := VERSION_LENGTH\<rparr>, request_version)
      else bindR (origin_set p (rp_i p) c) (\<lambda>p'.
           Inr (p'\<lparr>rp_i := rp_i p + 1\<rparr>, request_target_ogform)))"

definition r_version :: "u8 \<Rightarrow> request_parser \<Rightarrow> request_result" where
  "r_version c p =
     (if rp_i p \<ge> rp_n p then Inr (p, request_error)
      else bindR (arr_get version_literal (rp_i p)) (\<lambda>v.
        if v \<noteq> c then Inr (p, request_error)
        else let p = p\<lparr>rp_i := rp_i p + 1\<rparr>
             in if c = SLASH then Inr (p\<lparr>rp_i := 0, rp_n := 2\<rparr>, request_version_major)
                else Inr (p, request_version)))"

definition r_version_major :: "u8 \<Rightarrow> request_parser \<Rightarrow> request_result" where
  "r_version_major c p =
     (if rp_i p \<ge> rp_n p then Inr (p, request_error_unsupported_version)
      else if c = DOT then Inr (p\<lparr>rp_i := 0, rp_n := 2\<rparr>, request_version_minor)
      else if \<not> is_digit c then Inr (p, request_error)
      else Inr (upd_request (\<lambda>r. r\<lparr>rl_version_major :=
                  version_digit (rp_i p) (rl_version_major r) c\<rparr>) (p\<lparr>rp_i := rp_i p + 1\<rparr>),
                request_version_major))"

definition r_version_minor :: "u8 \<Rightarrow> request_parser \<Rightarrow> request_result" where
  "r_version_minor c p =
     (if rp_i p \<ge> rp_n p then Inr (p, request_error_unsupported_version)
      else if c = CR then Inr (p\<lparr>rp_i := 0\<rparr>, request_end)
      else if \<not> is_digit c then Inr (p, request_error)
      else Inr (upd_request (\<lambda>r. r\<lparr>rl_version_minor :=
                  version_digit (rp_i p) (rl_version_minor r) c\<rparr>) (p\<lparr>rp_i := rp_i p + 1\<rparr>),
                request_version_minor))"

definition r_end :: "u8 \<Rightarrow> request_parser \<Rightarrow> request_result" where
  "r_end c p = (if c \<noteq> LF then Inr (p, request_error) else Inr (p, request_done))"

definition request_step :: "pton4 \<Rightarrow> pton6 \<Rightarrow> request_parser \<Rightarrow> u8 \<Rightarrow> request_result" where
  "request_step pton4 pton6 p c =
     (case rp_state p of
        request_method \<Rightarrow> r_method c p
      | request_target_scheme \<Rightarrow> r_target_scheme c p
      | request_target_host \<Rightarrow> r_target_host pton4 pton6 c p
      | request_target_port \<Rightarrow> r_target_port c p
      | request_target_ogform \<Rightarrow> r_target_ogform c p
      | request_version \<Rightarrow> r_version c p
      | request_version_major \<Rightarrow> r_version_major c p
      | request_version_minor \<Rightarrow> r_version_minor c p
      | request_end \<Rightarrow> r_end c p
      | request_done \<Rightarrow> Inr (p, rp_state p)
      | request_error \<Rightarrow> Inr (p, rp_state p)
      | request_error_unsupported_method \<Rightarrow> Inr (p, rp_state p)
      | request_error_unsupported_version \<Rightarrow> Inr (p, rp_state p))"

definition request_parser_feed ::
  "pton4 \<Rightarrow> pton6 \<Rightarrow> request_parser \<Rightarrow> u8 \<Rightarrow> fault + request_parser" where
  "request_parser_feed pton4 pton6 p c =
     bindR (request_step pton4 pton6 p c) (\<lambda>(p', next). Inr (p'\<lparr>rp_state := next\<rparr>))"

section \<open>The pieces of a request line\<close>

text \<open>
  The authority of a target, as the parser tells its two forms apart: a name (or IPv4 address), or
  a bracketed text, of which the parser drops every opening bracket it starts with.
\<close>

datatype authority = Name bytes | Bracket nat bytes

fun authority_text :: "authority \<Rightarrow> bytes" where
  "authority_text (Name h) = h"
| "authority_text (Bracket k b) = b"

fun authority_bytes :: "authority \<Rightarrow> bytes" where
  "authority_bytes (Name h) = h"
| "authority_bytes (Bracket k b) = replicate (Suc k) LBRACK @ b"

fun authority_type :: "authority \<Rightarrow> host_type" where
  "authority_type (Name h) = domain"
| "authority_type (Bracket k b) = ipv6"

definition host_end :: "u8 \<Rightarrow> bool" where
  "host_end c \<longleftrightarrow> c = COLON \<or> end_of_authority c \<or> c = SP"

text \<open>No colon follows a closing bracket inside the text, and none opens it.\<close>

definition no_colon_end :: "bytes \<Rightarrow> bool" where
  "no_colon_end b \<longleftrightarrow>
     (b \<noteq> [] \<longrightarrow> hd b \<noteq> COLON) \<and> successively (\<lambda>x y. x = RBRACK \<longrightarrow> y \<noteq> COLON) b"

fun authority_reading :: "authority \<Rightarrow> bool" where
  "authority_reading (Name h) \<longleftrightarrow>
     (\<forall>c\<in>set h. \<not> host_end c) \<and> (h \<noteq> [] \<longrightarrow> hd h \<noteq> LBRACK) \<and> length h \<le> 255"
| "authority_reading (Bracket k b) \<longleftrightarrow>
     (\<forall>c\<in>set b. \<not> end_of_authority c \<and> c \<noteq> SP) \<and> no_colon_end b \<and>
     (b \<noteq> [] \<longrightarrow> hd b \<noteq> LBRACK) \<and> length b \<le> 255"

text \<open>An authority that the parser accepts when \<open>c\<close> follows it.\<close>

fun authority_ok :: "pton6 \<Rightarrow> authority \<Rightarrow> u8 \<Rightarrow> bool" where
  "authority_ok pton6 (Name h) c \<longleftrightarrow> authority_reading (Name h) \<and> length h \<le> 254"
| "authority_ok pton6 (Bracket k b) c \<longleftrightarrow>
     authority_reading (Bracket k b) \<and> length b \<le> 254 \<and> b \<noteq> [] \<and>
     pton6 (cstr (butlast b)) \<noteq> None \<and> (c = COLON \<longrightarrow> last b = RBRACK)"

record pieces =
  q_method :: bytes
  q_authority :: authority
  q_port :: "bytes option"
  q_origin :: "bytes option"

definition method_ok :: "bytes \<Rightarrow> bool" where
  "method_ok m \<longleftrightarrow> (\<forall>c\<in>set m. is_token c) \<and> length m \<le> 23"

definition http_scheme :: bytes where
  "http_scheme = [104, 116, 116, 112, COLON, SLASH, SLASH]"

definition scheme_bytes :: "bytes \<Rightarrow> bytes" where
  "scheme_bytes m = (if m = CONNECT_method then [] else http_scheme)"

definition host_part :: "bytes \<Rightarrow> authority \<Rightarrow> bytes" where
  "host_part m a = m @ SP # scheme_bytes m @ authority_bytes a"

fun port_part :: "bytes option \<Rightarrow> bytes" where
  "port_part None = []"
| "port_part (Some ds) = COLON # ds"

fun port_ok :: "bytes option \<Rightarrow> bool" where
  "port_ok None \<longleftrightarrow> True"
| "port_ok (Some ds) \<longleftrightarrow> digits ds \<and> length ds \<le> 4"

definition origin_ok :: "bytes \<Rightarrow> bool" where
  "origin_ok og \<longleftrightarrow> og \<noteq> [] \<and> end_of_authority (hd og) \<and> SP \<notin> set og"

definition after_host :: "bytes option \<Rightarrow> u8 \<Rightarrow> u8" where
  "after_host po c = (case po of None \<Rightarrow> c | Some _ \<Rightarrow> COLON)"

definition pieces_ok :: "pton6 \<Rightarrow> pieces \<Rightarrow> bool" where
  "pieces_ok pton6 r \<longleftrightarrow>
     method_ok (q_method r) \<and> port_ok (q_port r) \<and>
     (case q_origin r of
        None \<Rightarrow> authority_ok pton6 (q_authority r) (after_host (q_port r) SP)
      | Some og \<Rightarrow> authority_ok pton6 (q_authority r) (after_host (q_port r) (hd og)) \<and>
                  origin_ok og \<and> length og \<le> 1023)"

definition target_bytes :: "pieces \<Rightarrow> bytes" where
  "target_bytes r =
     host_part (q_method r) (q_authority r) @ port_part (q_port r) @
     (case q_origin r of None \<Rightarrow> [] | Some og \<Rightarrow> og) @ [SP]"

definition request_bytes :: "pieces \<Rightarrow> bytes \<Rightarrow> bytes \<Rightarrow> bytes" where
  "request_bytes r ma mi = target_bytes r @ http_slash @ ma @ [DOT] @ mi @ [CR, LF]"

section \<open>The values the parser stores\<close>

definition rq :: "bytes \<Rightarrow> request_target \<Rightarrow> request_line" where
  "rq m t = \<lparr>rl_version_major = 0, rl_version_minor = 0, rl_method = pad 25 m,
             rl_request_target = t\<rparr>"

definition method_type :: "bytes \<Rightarrow> target_type" where
  "method_type m = (if m = CONNECT_method then authority_form else absolute_form)"

definition tgt :: "bytes \<Rightarrow> host_type \<Rightarrow> host \<Rightarrow> u16 \<Rightarrow> bytes \<Rightarrow> request_target" where
  "tgt m ht h port og =
     \<lparr>rt_type = method_type m, rt_host_type = ht, rt_host = h, rt_port = port,
      rt_origin_form = pad 1024 og\<rparr>"

fun host_kind :: "pton4 \<Rightarrow> authority \<Rightarrow> host_type" where
  "host_kind pton4 (Name h) = (case pton4 (cstr h) of None \<Rightarrow> domain | Some _ \<Rightarrow> ipv4)"
| "host_kind pton4 (Bracket k b) = ipv6"

fun host_value :: "pton4 \<Rightarrow> pton6 \<Rightarrow> authority \<Rightarrow> u16 \<Rightarrow> host" where
  "host_value pton4 pton6 (Name h) port =
     (case pton4 (cstr h) of
        None \<Rightarrow> HDomain (pad 256 h)
      | Some x \<Rightarrow> HIpv4 \<lparr>sin_family = AF_INET, sin_port = port, sin_addr = x\<rparr>)"
| "host_value pton4 pton6 (Bracket k b) port =
     (case pton6 (cstr (butlast b)) of
        None \<Rightarrow> HDomain (pad 256 (butlast b))
      | Some x \<Rightarrow> HIpv6 \<lparr>sin6_family = AF_INET6, sin6_port = port, sin6_addr = x\<rparr>)"

text \<open>
  The port as the digits leave it (before the conversion to network order): without a digit it is
  still the default, which is in network order already.
\<close>

definition port_read :: "bytes \<Rightarrow> u16" where
  "port_read ds = (if ds = [] then htons 80 else word_of_nat (dec_val 0 ds))"

fun port_value :: "bytes option \<Rightarrow> u16" where
  "port_value None = htons 80"
| "port_value (Some ds) = htons (port_read ds)"

definition origin_value :: "bytes \<Rightarrow> bytes option \<Rightarrow> bytes" where
  "origin_value m o' =
     (case o' of Some og \<Rightarrow> og | None \<Rightarrow> if m = OPTIONS_method then [] else [SLASH])"

definition target_value :: "pton4 \<Rightarrow> pton6 \<Rightarrow> bytes \<Rightarrow> authority \<Rightarrow> bytes option \<Rightarrow> bytes \<Rightarrow> request_target"
  where
  "target_value pton4 pton6 m a po og =
     tgt m (host_kind pton4 a) (host_value pton4 pton6 a (port_value po)) (port_value po) og"

fun version_value :: "bytes \<Rightarrow> u8" where
  "version_value [] = 0"
| "version_value [d] = d - DIG0"
| "version_value (d # e # ds) = version_digit 1 (d - DIG0) e"

definition target_line :: "pton4 \<Rightarrow> pton6 \<Rightarrow> pieces \<Rightarrow> request_line" where
  "target_line pton4 pton6 r =
     rq (q_method r) (target_value pton4 pton6 (q_method r) (q_authority r) (q_port r)
       (origin_value (q_method r) (q_origin r)))"

definition request_value :: "pton4 \<Rightarrow> pton6 \<Rightarrow> pieces \<Rightarrow> bytes \<Rightarrow> bytes \<Rightarrow> request_line" where
  "request_value pton4 pton6 r ma mi =
     (target_line pton4 pton6 r)\<lparr>rl_version_major := version_value ma,
                                 rl_version_minor := version_value mi\<rparr>"

section \<open>The parser in each state\<close>

definition st_method :: "bytes \<Rightarrow> request_parser" where
  "st_method m = \<lparr>rp_request = rq m zero_request_target, rp_state = request_method,
                  rp_i = int (length m), rp_n = 24\<rparr>"

definition st_scheme :: "bytes \<Rightarrow> nat \<Rightarrow> request_parser" where
  "st_scheme m k = \<lparr>rp_request = rq m (tgt m domain (HDomain (pad 256 [])) 0 []),
                    rp_state = request_target_scheme, rp_i = int k, rp_n = 7\<rparr>"

definition st_host :: "bytes \<Rightarrow> authority \<Rightarrow> request_parser" where
  "st_host m a =
     \<lparr>rp_request = rq m (tgt m (authority_type a) (HDomain (pad 256 (authority_text a))) 0 []),
      rp_state = request_target_host, rp_i = int (length (authority_text a)), rp_n = 255\<rparr>"

definition st_port :: "pton4 \<Rightarrow> pton6 \<Rightarrow> bytes \<Rightarrow> authority \<Rightarrow> bytes \<Rightarrow> request_parser" where
  "st_port pton4 pton6 m a ds =
     \<lparr>rp_request = rq m (tgt m (host_kind pton4 a) (host_value pton4 pton6 a (htons 80))
                          (port_read ds) []),
      rp_state = request_target_port, rp_i = int (length ds), rp_n = 5\<rparr>"

definition st_origin ::
  "pton4 \<Rightarrow> pton6 \<Rightarrow> bytes \<Rightarrow> authority \<Rightarrow> bytes option \<Rightarrow> bytes \<Rightarrow> request_parser" where
  "st_origin pton4 pton6 m a po og =
     \<lparr>rp_request = rq m (target_value pton4 pton6 m a po og),
      rp_state = request_target_ogform, rp_i = int (length og), rp_n = 1024\<rparr>"

definition st_version :: "request_line \<Rightarrow> nat \<Rightarrow> request_parser" where
  "st_version rl k = \<lparr>rp_request = rl, rp_state = request_version, rp_i = int k, rp_n = 8\<rparr>"

definition st_major :: "request_line \<Rightarrow> bytes \<Rightarrow> request_parser" where
  "st_major rl ma = \<lparr>rp_request = rl\<lparr>rl_version_major := version_value ma\<rparr>,
     rp_state = request_version_major, rp_i = int (length ma), rp_n = 2\<rparr>"

definition st_minor :: "request_line \<Rightarrow> bytes \<Rightarrow> request_parser" where
  "st_minor rl mi = \<lparr>rp_request = rl\<lparr>rl_version_minor := version_value mi\<rparr>,
     rp_state = request_version_minor, rp_i = int (length mi), rp_n = 2\<rparr>"

definition st_end :: "request_line \<Rightarrow> request_state \<Rightarrow> request_parser" where
  "st_end rl s = \<lparr>rp_request = rl, rp_state = s, rp_i = 0, rp_n = 2\<rparr>"

lemmas request_consts =
  MAX_METHOD_LENGTH_def MAX_FQDN_LENGTH_def SCHEME_LENGTH_def MAX_PORT_LENGTH_def
  VERSION_LENGTH_def MAX_ORIGIN_FORM_def

lemmas request_step_defs = request_parser_feed_def request_step_def

lemmas request_access_defs =
  upd_target_def upd_request_def domain_get_def domain_set_def origin_set_def

lemma init_is_st_method: "request_parser_init p = st_method []"
  by (simp add: request_parser_init_def st_method_def request_consts zero_request_line_def rq_def pad_Nil)

lemma tokens_no_zero: "method_ok m \<Longrightarrow> cstr m = m"
  by (rule cstr_id) (auto simp: method_ok_def)

lemma zero_target: "zero_request_target\<lparr>rt_type := method_type m\<rparr> = tgt m domain (HDomain (pad 256 [])) 0 []"
  by (simp add: zero_request_target_def tgt_def pad_Nil)

lemma feed_method:
  assumes "\<forall>x\<in>set m. is_token x"
  shows "length m < 24 \<Longrightarrow> is_token c \<Longrightarrow>
      request_parser_feed pton4 pton6 (st_method m) c = Inr (st_method (m @ [c]))"
    and "length m < 24 \<Longrightarrow>
      request_parser_feed pton4 pton6 (st_method m) SP =
        Inr (if m = CONNECT_method then st_host m (Name []) else st_scheme m 0)"
    and "\<not> (length m < 24 \<and> (is_token c \<or> c = SP)) \<Longrightarrow>
      request_parser_feed pton4 pton6 (st_method m) c =
        Inr ((st_method m)\<lparr>rp_state := request_error_unsupported_method\<rparr>)"
proof -
  show "length m < 24 \<Longrightarrow> is_token c \<Longrightarrow>
      request_parser_feed pton4 pton6 (st_method m) c = Inr (st_method (m @ [c]))"
    by (simp add: request_step_defs st_method_def r_method_def rq_def pad_snoc upd_request_def)
  have c: "c_string (pad 25 m) = Inr m" if "length m < 24"
  proof -
    have "0 \<notin> set m" using assms by auto
    then show ?thesis using that by (simp add: c_string_pad cstr_id)
  qed
  show "length m < 24 \<Longrightarrow>
      request_parser_feed pton4 pton6 (st_method m) SP =
        Inr (if m = CONNECT_method then st_host m (Name []) else st_scheme m 0)"
    using zero_target [of m]
    by (auto simp: request_step_defs st_method_def r_method_def rq_def upd_request_def
        pad_end get_method_state_def c st_host_def st_scheme_def upd_target_def method_type_def request_consts)
  show "\<not> (length m < 24 \<and> (is_token c \<or> c = SP)) \<Longrightarrow>
      request_parser_feed pton4 pton6 (st_method m) c =
        Inr ((st_method m)\<lparr>rp_state := request_error_unsupported_method\<rparr>)"
    by (auto simp: request_step_defs st_method_def r_method_def)
qed

lemma feed_scheme:
  assumes "k \<le> 6"
  shows "request_parser_feed pton4 pton6 (st_scheme m k) c =
     Inr (if c = http_scheme ! k
          then (if k = 6 then st_host m (Name []) else st_scheme m (Suc k))
          else (st_scheme m k)\<lparr>rp_state := request_error\<rparr>)"
proof -
  have "k = 0 \<or> k = 1 \<or> k = 2 \<or> k = 3 \<or> k = 4 \<or> k = 5 \<or> k = 6" using assms by arith
  then show ?thesis
    by (elim disjE; cases "c = http_scheme ! k")
      (simp_all add: request_step_defs st_scheme_def r_target_scheme_def scheme_literal_def http_scheme_def
        st_host_def request_consts)
qed

lemma feed_version:
  assumes "k \<le> 4" "rl_version_major rl = 0"
  shows "request_parser_feed pton4 pton6 (st_version rl k) c =
     Inr (if c = http_slash ! k
          then (if k = 4 then st_major rl [] else st_version rl (Suc k))
          else (st_version rl k)\<lparr>rp_state := request_error\<rparr>)"
proof -
  have "k = 0 \<or> k = 1 \<or> k = 2 \<or> k = 3 \<or> k = 4" using assms(1) by arith
  then show ?thesis using assms(2)
    by (elim disjE; cases "c = http_slash ! k")
      (simp_all add: request_step_defs st_version_def r_version_def version_literal_def http_slash_def
        st_major_def request_consts)
qed

lemma ucast_8_16_8 [simp]: "ucast (ucast (x :: u8) :: u16) = x"
  by (rule bit_word_eqI) (simp add: bit_simps)

lemma version_value_snoc:
  "length ds < 2 \<Longrightarrow> version_digit (int (length ds)) (version_value ds) c = version_value (ds @ [c])"
  by (cases ds) (auto simp: version_digit_def Let_def)

lemma feed_major:
  assumes "rl_version_minor rl = 0"
  shows "request_parser_feed pton4 pton6 (st_major rl ma) c =
     Inr (if 2 \<le> length ma then (st_major rl ma)\<lparr>rp_state := request_error_unsupported_version\<rparr>
          else if c = DOT then st_minor (rl\<lparr>rl_version_major := version_value ma\<rparr>) []
          else if is_digit c then st_major rl (ma @ [c])
          else (st_major rl ma)\<lparr>rp_state := request_error\<rparr>)"
  using assms
  by (auto simp: request_step_defs st_major_def st_minor_def r_version_major_def upd_request_def
      version_value_snoc)

lemma feed_minor:
  "request_parser_feed pton4 pton6 (st_minor rl mi) c =
     Inr (if 2 \<le> length mi then (st_minor rl mi)\<lparr>rp_state := request_error_unsupported_version\<rparr>
          else if c = CR then st_end (rl\<lparr>rl_version_minor := version_value mi\<rparr>) request_end
          else if is_digit c then st_minor rl (mi @ [c])
          else (st_minor rl mi)\<lparr>rp_state := request_error\<rparr>)"
  by (auto simp: request_step_defs st_minor_def st_end_def r_version_minor_def upd_request_def
      version_value_snoc)

lemma feed_end:
  "request_parser_feed pton4 pton6 (st_end rl request_end) c =
     Inr (st_end rl (if c = LF then request_done else request_error))"
  by (simp add: request_step_defs st_end_def r_end_def)

lemma feed_origin:
  "request_parser_feed pton4 pton6 (st_origin pton4 pton6 m a po og) c =
     Inr (if 1024 \<le> length og then (st_origin pton4 pton6 m a po og)\<lparr>rp_state := request_error\<rparr>
          else if c = SP then st_version (rq m (target_value pton4 pton6 m a po og)) 0
          else st_origin pton4 pton6 m a po (og @ [c]))"
  by (auto simp: request_step_defs st_origin_def r_target_ogform_def origin_set_def st_version_def
      target_value_def rq_def tgt_def pad_snoc upd_target_def upd_request_def request_consts)

lemma method_c_string: "method_ok m \<Longrightarrow> c_string (pad 25 m) = Inr m"
  using tokens_no_zero [of m] by (simp add: c_string_pad method_ok_def)

lemma to_version:
  assumes "method_ok m" "rp_request p = rq m (tgt m ht h port [])"
  shows "host_to_version p =
     Inr (p\<lparr>rp_request := rq m (tgt m ht h port (origin_value m None)), rp_i := 0, rp_n := 8\<rparr>,
          request_version)"
proof -
  have "arr_set (pad 1024 []) 0 SLASH = Inr (pad 1024 [SLASH])"
    using arr_set_pad [of "[]" 1024 SLASH] by simp
  then show ?thesis using assms
    by (simp add: host_to_version_def method_c_string rq_def tgt_def origin_value_def origin_set_def
        upd_target_def upd_request_def request_consts)
qed

lemma to_origin:
  assumes "rp_request p = rq m (tgt m ht h port [])"
  shows "host_to_ogform c p =
     Inr (p\<lparr>rp_request := rq m (tgt m ht h port [c]), rp_i := 1, rp_n := 1024\<rparr>, request_target_ogform)"
proof -
  have "arr_set (pad 1024 []) 0 c = Inr (pad 1024 [c])"
    using arr_set_pad [of "[]" 1024 c] by simp
  then show ?thesis using assms
    by (simp add: host_to_ogform_def rq_def tgt_def origin_set_def
        upd_target_def upd_request_def request_consts)
qed

lemma assign_port_value:
  assumes "authority_ok pton6 a x"
    "rp_request p = rq m (tgt m (host_kind pton4 a) (host_value pton4 pton6 a q) port og)"
  shows "assign_port p =
     Inr (p\<lparr>rp_request := rq m (tgt m (host_kind pton4 a) (host_value pton4 pton6 a port) port og)\<rparr>)"
  using assms
  by (cases a) (auto simp: assign_port_def rq_def tgt_def upd_target_def upd_request_def split: option.splits)

lemma port_read_snoc: "port_read (ds @ [c]) =
    (if ds = [] then ucast (c - DIG0) else port_read ds * 10 + ucast (c - DIG0))"
  by (simp add: port_read_def dec_val_append)

lemma feed_port:
  assumes "authority_ok pton6 a x" "method_ok m"
  shows "5 \<le> length ds \<Longrightarrow> request_parser_feed pton4 pton6 (st_port pton4 pton6 m a ds) c =
       Inr ((st_port pton4 pton6 m a ds)\<lparr>rp_state := request_error\<rparr>)"
    and "length ds < 5 \<Longrightarrow> end_of_authority c \<Longrightarrow>
       request_parser_feed pton4 pton6 (st_port pton4 pton6 m a ds) c =
       Inr (st_origin pton4 pton6 m a (Some ds) [c])"
    and "length ds < 5 \<Longrightarrow>
       request_parser_feed pton4 pton6 (st_port pton4 pton6 m a ds) SP =
       Inr (st_version (rq m (target_value pton4 pton6 m a (Some ds) (origin_value m None))) 0)"
    and "length ds < 5 \<Longrightarrow> is_digit c \<Longrightarrow>
       request_parser_feed pton4 pton6 (st_port pton4 pton6 m a ds) c =
       Inr (st_port pton4 pton6 m a (ds @ [c]))"
    and "length ds < 5 \<Longrightarrow> \<not> end_of_authority c \<Longrightarrow> c \<noteq> SP \<Longrightarrow> \<not> is_digit c \<Longrightarrow>
       request_parser_feed pton4 pton6 (st_port pton4 pton6 m a ds) c =
       Inr ((st_port pton4 pton6 m a ds)\<lparr>rp_state := request_error\<rparr>)"
proof -
  let ?p = "upd_target (\<lambda>t. t\<lparr>rt_port := htons (rt_port t)\<rparr>) (st_port pton4 pton6 m a ds)"
  have rp: "rp_request ?p = rq m (tgt m (host_kind pton4 a) (host_value pton4 pton6 a (htons 80))
      (htons (port_read ds)) [])"
    by (simp add: st_port_def upd_target_def upd_request_def rq_def tgt_def)
  let ?q = "?p\<lparr>rp_request := rq m (tgt m (host_kind pton4 a)
      (host_value pton4 pton6 a (htons (port_read ds))) (htons (port_read ds)) [])\<rparr>"
  have as: "assign_port ?p = Inr ?q" by (rule assign_port_value [OF assms(1) rp])
  have sp: "\<not> end_of_authority SP" by (simp add: end_of_authority_def)
  have dg: "is_digit c \<Longrightarrow> \<not> end_of_authority c" by (auto simp: char_class_defs)
  have st: "rp_state (st_port pton4 pton6 m a ds) = request_target_port"
      "rp_i (st_port pton4 pton6 m a ds) = int (length ds)" "rp_n (st_port pton4 pton6 m a ds) = 5"
    by (simp_all add: st_port_def)
  show "5 \<le> length ds \<Longrightarrow> request_parser_feed pton4 pton6 (st_port pton4 pton6 m a ds) c =
       Inr ((st_port pton4 pton6 m a ds)\<lparr>rp_state := request_error\<rparr>)"
    by (simp add: request_step_defs st r_target_port_def)
  show "length ds < 5 \<Longrightarrow> end_of_authority c \<Longrightarrow>
       request_parser_feed pton4 pton6 (st_port pton4 pton6 m a ds) c =
       Inr (st_origin pton4 pton6 m a (Some ds) [c])"
    using to_origin [of ?q m "host_kind pton4 a"] as
    by (simp add: request_step_defs st r_target_port_def)
      (simp add: st_origin_def target_value_def st_port_def upd_target_def upd_request_def)
  show "length ds < 5 \<Longrightarrow>
       request_parser_feed pton4 pton6 (st_port pton4 pton6 m a ds) SP =
       Inr (st_version (rq m (target_value pton4 pton6 m a (Some ds) (origin_value m None))) 0)"
    using to_version [OF assms(2), of ?q "host_kind pton4 a"] as sp
    by (simp add: request_step_defs st r_target_port_def)
      (simp add: st_version_def target_value_def st_port_def upd_target_def upd_request_def)
  show "length ds < 5 \<Longrightarrow> is_digit c \<Longrightarrow>
       request_parser_feed pton4 pton6 (st_port pton4 pton6 m a ds) c =
       Inr (st_port pton4 pton6 m a (ds @ [c]))"
    using dg
    by (auto simp: request_step_defs st_port_def r_target_port_def upd_target_def upd_request_def
        port_read_snoc rq_def tgt_def Let_def)
  show "length ds < 5 \<Longrightarrow> \<not> end_of_authority c \<Longrightarrow> c \<noteq> SP \<Longrightarrow> \<not> is_digit c \<Longrightarrow>
       request_parser_feed pton4 pton6 (st_port pton4 pton6 m a ds) c =
       Inr ((st_port pton4 pton6 m a ds)\<lparr>rp_state := request_error\<rparr>)"
    by (simp add: request_step_defs st r_target_port_def)
qed

lemma host_end_cases: "host_end c \<longleftrightarrow> c = COLON \<or> c = SLASH \<or> c = HASH \<or> c = QMARK \<or> c = SP"
  by (auto simp: host_end_def end_of_authority_def)

lemma parse_ipv4_value:
  assumes "rp_request p = rq m (tgt m domain (HDomain (pad 256 h)) 0 [])" "length h < 256"
  shows "\<exists>ok. parse_ipv4 pton4 p = Inr (p\<lparr>rp_request := rq m (tgt m (host_kind pton4 (Name h))
     (host_value pton4 pton6 (Name h) (htons 80)) (htons 80) [])\<rparr>, ok)"
  using assms
  by (auto simp: parse_ipv4_def c_string_pad rq_def tgt_def upd_target_def upd_request_def
      split: option.splits)

lemma st_host_fields [simp]:
  "rp_state (st_host m a) = request_target_host" "rp_n (st_host m a) = 255"
  "rp_i (st_host m a) = int (length (authority_text a))"
  "rp_request (st_host m a) = rq m (tgt m (authority_type a) (HDomain (pad 256 (authority_text a))) 0 [])"
  "rt_host_type (rl_request_target (rq m t)) = rt_host_type t"
  "rt_host (rl_request_target (rq m t)) = rt_host t"
  "rt_host_type (tgt m ht h port og) = ht" "rt_host (tgt m ht h port og) = h"
  by (simp_all add: st_host_def rq_def tgt_def)

lemma set_host:
  "length (authority_text a) < 256 \<Longrightarrow> authority_type a' = authority_type a \<Longrightarrow>
   authority_text a' = authority_text a @ [c] \<Longrightarrow>
   bindR (domain_set (st_host m a) (int (length (authority_text a))) c) (\<lambda>p'.
      Inr (p'\<lparr>rp_i := int (length (authority_text a)) + 1\<rparr>, request_target_host)) =
   Inr (st_host m a', request_target_host)"
  by (simp add: domain_set_def pad_snoc upd_target_def upd_request_def)
    (simp add: st_host_def rq_def tgt_def)

lemma same_state [simp]: "rp_state p = s \<Longrightarrow> p\<lparr>rp_state := s\<rparr> = p"
  by simp

lemma feed_name:
  assumes "length h < 255" "method_ok m"
  shows "h = [] \<Longrightarrow> request_parser_feed pton4 pton6 (st_host m (Name h)) LBRACK =
       Inr (st_host m (Bracket 0 []))"
    and "(h = [] \<longrightarrow> c \<noteq> LBRACK) \<Longrightarrow> \<not> host_end c \<Longrightarrow>
       request_parser_feed pton4 pton6 (st_host m (Name h)) c = Inr (st_host m (Name (h @ [c])))"
    and "request_parser_feed pton4 pton6 (st_host m (Name h)) COLON =
       Inr (st_port pton4 pton6 m (Name h) [])"
    and "end_of_authority c \<Longrightarrow>
       request_parser_feed pton4 pton6 (st_host m (Name h)) c = Inr (st_origin pton4 pton6 m (Name h) None [c])"
    and "request_parser_feed pton4 pton6 (st_host m (Name h)) SP =
       Inr (st_version (rq m (target_value pton4 pton6 m (Name h) None (origin_value m None))) 0)"
proof -
  let ?p = "st_host m (Name h)"
  let ?q = "?p\<lparr>rp_request := rq m (tgt m (host_kind pton4 (Name h))
     (host_value pton4 pton6 (Name h) (htons 80)) (htons 80) [])\<rparr>"
  obtain ok where ps: "parse_ipv4 pton4 ?p = Inr (?q, ok)"
    using parse_ipv4_value [of ?p m h pton4 pton6] assms(1) by auto
  have rq: "rp_request ?q = rq m (tgt m (host_kind pton4 (Name h))
     (host_value pton4 pton6 (Name h) (htons 80)) (htons 80) [])" by simp
  have no: "\<not> end_of_authority COLON" "\<not> end_of_authority SP" "\<not> end_of_authority LBRACK"
    by (simp_all add: end_of_authority_def)
  show "h = [] \<Longrightarrow> request_parser_feed pton4 pton6 ?p LBRACK = Inr (st_host m (Bracket 0 []))"
    by (simp add: request_step_defs r_target_host_def st_host_def upd_target_def upd_request_def rq_def tgt_def)
  show "(h = [] \<longrightarrow> c \<noteq> LBRACK) \<Longrightarrow> \<not> host_end c \<Longrightarrow>
       request_parser_feed pton4 pton6 ?p c = Inr (st_host m (Name (h @ [c])))"
    using assms(1) set_host [of "Name h" "Name (h @ [c])" c m]
    by (auto simp: request_step_defs r_target_host_def host_end_def)
  show "request_parser_feed pton4 pton6 ?p COLON = Inr (st_port pton4 pton6 m (Name h) [])"
    using assms(1) ps
    by (simp add: request_step_defs r_target_host_def host_to_port_def)
      (simp add: st_port_def st_host_def port_read_def request_consts)
  show "end_of_authority c \<Longrightarrow> request_parser_feed pton4 pton6 ?p c =
      Inr (st_origin pton4 pton6 m (Name h) None [c])"
    using assms(1) ps no to_origin [OF rq, of c]
    by (auto simp: request_step_defs r_target_host_def)
      (simp_all add: st_origin_def target_value_def st_host_def)
  show "request_parser_feed pton4 pton6 ?p SP =
       Inr (st_version (rq m (target_value pton4 pton6 m (Name h) None (origin_value m None))) 0)"
    using assms(1) ps no to_version [OF assms(2) rq]
    by (simp add: request_step_defs r_target_host_def)
      (simp add: st_version_def target_value_def)
qed

lemma feed_host_full:
  "255 \<le> length (authority_text a) \<Longrightarrow>
   request_parser_feed pton4 pton6 (st_host m a) c = Inr ((st_host m a)\<lparr>rp_state := request_error\<rparr>)"
  by (simp add: request_step_defs r_target_host_def)


lemma parse_ipv6_value:
  assumes "length b < 256" "b \<noteq> []"
  shows "close_ipv6 pton6 k (st_host m (Bracket n b)) =
     (case pton6 (cstr (butlast b)) of
        None \<Rightarrow> Inr (st_host m (Bracket n b)
            \<lparr>rp_request := rq m (tgt m ipv6 (HDomain (pad 256 (butlast b))) 0 [])\<rparr>, request_error)
      | Some x \<Rightarrow> k (st_host m (Bracket n b)
            \<lparr>rp_request := rq m (tgt m ipv6 (host_value pton4 pton6 (Bracket n b) (htons 80)) (htons 80) [])\<rparr>))"
proof -
  have "nat (int (length b) - 1) = length b - Suc 0" "0 < length b" using assms(2) by auto
  then have "domain_set (st_host m (Bracket n b)) (int (length b) - 1) 0 =
      Inr (st_host m (Bracket n b)\<lparr>rp_request := rq m (tgt m ipv6 (HDomain (pad 256 (butlast b))) 0 [])\<rparr>)"
    using assms
    by (simp add: domain_set_def pad_last upd_target_def upd_request_def)
      (simp add: st_host_def rq_def tgt_def)
  moreover have "c_string (pad 256 (butlast b)) = Inr (cstr (butlast b))"
    using assms by (simp add: c_string_pad)
  ultimately show ?thesis
    by (auto simp: close_ipv6_def parse_ipv6_def upd_target_def upd_request_def rq_def tgt_def
        split: option.splits)
qed

lemma domain_get_last:
  "b \<noteq> [] \<Longrightarrow> length b < 256 \<Longrightarrow>
   domain_get (st_host m (Bracket n b)) (int (length b) - 1) = Inr (last b)"
  by (simp add: domain_get_def Suc_le_eq nat_diff_distrib' last_conv_nth pad_nth)

text \<open>The bytes that end a bracketed text of last byte \<open>l\<close>.\<close>

definition bracket_end :: "bytes \<Rightarrow> u8 \<Rightarrow> bool" where
  "bracket_end b c \<longleftrightarrow> end_of_authority c \<or> c = SP \<or> c = COLON \<and> last b = RBRACK"

lemma feed_bracket:
  assumes "length b < 255"
  shows "b = [] \<Longrightarrow> request_parser_feed pton4 pton6 (st_host m (Bracket n b)) LBRACK =
       Inr (st_host m (Bracket (Suc n) []))"
    and "b = [] \<Longrightarrow> host_end c \<Longrightarrow>
       request_parser_feed pton4 pton6 (st_host m (Bracket n b)) c = Inl OutOfBounds"
    and "(b = [] \<longrightarrow> c \<noteq> LBRACK \<and> c \<noteq> COLON) \<Longrightarrow> \<not> bracket_end b c \<Longrightarrow>
       request_parser_feed pton4 pton6 (st_host m (Bracket n b)) c = Inr (st_host m (Bracket n (b @ [c])))"
    and "b \<noteq> [] \<Longrightarrow> bracket_end b c \<Longrightarrow> pton6 (cstr (butlast b)) = None \<Longrightarrow>
       \<exists>q. request_parser_feed pton4 pton6 (st_host m (Bracket n b)) c = Inr q \<and> rp_state q = request_error"
proof -
  let ?p = "st_host m (Bracket n b)"
  have no: "\<not> end_of_authority COLON" "\<not> end_of_authority SP" "\<not> end_of_authority LBRACK"
      "\<not> end_of_authority RBRACK"
    by (simp_all add: end_of_authority_def)
  show "b = [] \<Longrightarrow> request_parser_feed pton4 pton6 ?p LBRACK = Inr (st_host m (Bracket (Suc n) []))"
    by (simp add: request_step_defs r_target_host_def st_host_def upd_target_def upd_request_def rq_def tgt_def)
  show "b = [] \<Longrightarrow> host_end c \<Longrightarrow> request_parser_feed pton4 pton6 ?p c = Inl OutOfBounds"
    by (auto simp: request_step_defs r_target_host_def host_end_def end_of_authority_def domain_get_def arr_get_def
        close_ipv6_def domain_set_def arr_set_def)
  show "(b = [] \<longrightarrow> c \<noteq> LBRACK \<and> c \<noteq> COLON) \<Longrightarrow> \<not> bracket_end b c \<Longrightarrow>
       request_parser_feed pton4 pton6 ?p c = Inr (st_host m (Bracket n (b @ [c])))"
    using assms set_host [of "Bracket n b" "Bracket n (b @ [c])" c m] domain_get_last [of b m n]
    by (auto simp: request_step_defs r_target_host_def bracket_end_def)
  show "b \<noteq> [] \<Longrightarrow> bracket_end b c \<Longrightarrow> pton6 (cstr (butlast b)) = None \<Longrightarrow>
       \<exists>q. request_parser_feed pton4 pton6 ?p c = Inr q \<and> rp_state q = request_error"
    using assms domain_get_last [of b m n] no
    by (auto simp: request_step_defs r_target_host_def bracket_end_def
        parse_ipv6_value [where ?pton4.0 = "\<lambda>_. None"])
qed

lemma feed_bracket_end:
  assumes "length b < 255" "b \<noteq> []" "method_ok m" "pton6 (cstr (butlast b)) = Some x"
  shows "last b = RBRACK \<Longrightarrow> request_parser_feed pton4 pton6 (st_host m (Bracket n b)) COLON =
       Inr (st_port pton4 pton6 m (Bracket n b) [])"
    and "end_of_authority c \<Longrightarrow>
       request_parser_feed pton4 pton6 (st_host m (Bracket n b)) c =
       Inr (st_origin pton4 pton6 m (Bracket n b) None [c])"
    and "request_parser_feed pton4 pton6 (st_host m (Bracket n b)) SP =
       Inr (st_version (rq m (target_value pton4 pton6 m (Bracket n b) None (origin_value m None))) 0)"
proof -
  let ?p = "st_host m (Bracket n b)"
  let ?q = "?p\<lparr>rp_request := rq m (tgt m ipv6 (host_value pton4 pton6 (Bracket n b) (htons 80)) (htons 80) [])\<rparr>"
  have rq: "rp_request ?q = rq m (tgt m ipv6 (host_value pton4 pton6 (Bracket n b) (htons 80)) (htons 80) [])"
    by simp
  have cl: "close_ipv6 pton6 k ?p = k ?q" for k :: "request_parser \<Rightarrow> request_result"
    using parse_ipv6_value [of b pton6 k m n pton4] assms by simp
  have no: "\<not> end_of_authority COLON" "\<not> end_of_authority SP" "\<not> end_of_authority LBRACK"
      "\<not> end_of_authority RBRACK"
    by (simp_all add: end_of_authority_def)
  show "last b = RBRACK \<Longrightarrow> request_parser_feed pton4 pton6 ?p COLON = Inr (st_port pton4 pton6 m (Bracket n b) [])"
    using assms(1,2) cl [of host_to_port] domain_get_last [of b m n] no
    by (simp add: request_step_defs r_target_host_def host_to_port_def del: host_value.simps)
      (simp add: st_port_def st_host_def port_read_def request_consts)
  show "end_of_authority c \<Longrightarrow> request_parser_feed pton4 pton6 ?p c =
      Inr (st_origin pton4 pton6 m (Bracket n b) None [c])"
    using assms(1,2) cl [of "host_to_ogform c"] no to_origin [OF rq, of c]
    by (auto simp: request_step_defs r_target_host_def simp del: host_value.simps)
      (simp_all add: st_origin_def target_value_def st_host_def)
  show "request_parser_feed pton4 pton6 ?p SP =
       Inr (st_version (rq m (target_value pton4 pton6 m (Bracket n b) None (origin_value m None))) 0)"
    using assms(1,2) cl [of host_to_version] no to_version [OF assms(3) rq]
    by (simp add: request_step_defs r_target_host_def del: host_value.simps)
      (simp add: st_version_def target_value_def st_host_def)
qed

section \<open>What has been read in each state\<close>

definition request_failed :: "request_parser \<Rightarrow> bool" where
  "request_failed p \<longleftrightarrow>
     rp_state p \<in> {request_error, request_error_unsupported_method, request_error_unsupported_version}"

inductive request_reads :: "pton4 \<Rightarrow> pton6 \<Rightarrow> bytes \<Rightarrow> request_parser \<Rightarrow> bool"
  for pton4 pton6 where
  rd_method: "\<forall>x\<in>set m. is_token x \<Longrightarrow> length m \<le> 24 \<Longrightarrow>
    request_reads pton4 pton6 m (st_method m)"
| rd_scheme: "method_ok m \<Longrightarrow> m \<noteq> CONNECT_method \<Longrightarrow> k \<le> 6 \<Longrightarrow>
    request_reads pton4 pton6 (m @ SP # take k http_scheme) (st_scheme m k)"
| rd_host: "method_ok m \<Longrightarrow> authority_reading a \<Longrightarrow>
    request_reads pton4 pton6 (host_part m a) (st_host m a)"
| rd_port: "method_ok m \<Longrightarrow> authority_ok pton6 a COLON \<Longrightarrow> digits ds \<Longrightarrow> length ds \<le> 5 \<Longrightarrow>
    request_reads pton4 pton6 (host_part m a @ COLON # ds) (st_port pton4 pton6 m a ds)"
| rd_origin: "method_ok m \<Longrightarrow> port_ok po \<Longrightarrow> authority_ok pton6 a (after_host po (hd og)) \<Longrightarrow>
    origin_ok og \<Longrightarrow> length og \<le> 1024 \<Longrightarrow>
    request_reads pton4 pton6 (host_part m a @ port_part po @ og) (st_origin pton4 pton6 m a po og)"
| rd_version: "pieces_ok pton6 r \<Longrightarrow> k \<le> 4 \<Longrightarrow>
    request_reads pton4 pton6 (target_bytes r @ take k http_slash)
      (st_version (target_line pton4 pton6 r) k)"
| rd_major: "pieces_ok pton6 r \<Longrightarrow> digits ma \<Longrightarrow> length ma \<le> 2 \<Longrightarrow>
    request_reads pton4 pton6 (target_bytes r @ http_slash @ ma)
      (st_major (target_line pton4 pton6 r) ma)"
| rd_minor: "pieces_ok pton6 r \<Longrightarrow> digits ma \<Longrightarrow> length ma \<le> 1 \<Longrightarrow> digits mi \<Longrightarrow> length mi \<le> 2 \<Longrightarrow>
    request_reads pton4 pton6 (target_bytes r @ http_slash @ ma @ DOT # mi)
      (st_minor ((target_line pton4 pton6 r)\<lparr>rl_version_major := version_value ma\<rparr>) mi)"
| rd_end: "pieces_ok pton6 r \<Longrightarrow> digits ma \<Longrightarrow> length ma \<le> 1 \<Longrightarrow> digits mi \<Longrightarrow> length mi \<le> 1 \<Longrightarrow>
    request_reads pton4 pton6 (target_bytes r @ http_slash @ ma @ DOT # mi @ [CR])
      (st_end (request_value pton4 pton6 r ma mi) request_end)"
| rd_done: "pieces_ok pton6 r \<Longrightarrow> digits ma \<Longrightarrow> length ma \<le> 1 \<Longrightarrow> digits mi \<Longrightarrow> length mi \<le> 1 \<Longrightarrow>
    request_reads pton4 pton6 (request_bytes r ma mi @ rest)
      (st_end (request_value pton4 pton6 r ma mi) request_done)"
| rd_failed: "request_failed p \<Longrightarrow> request_reads pton4 pton6 bs p"

lemma reads_as:
  "request_reads pton4 pton6 bs' p \<Longrightarrow> bs' = bs \<Longrightarrow> request_reads pton4 pton6 bs p"
  by simp

lemma to_version_reads:
  assumes "pieces_ok pton6 r" "target_bytes r = bs" "target_line pton4 pton6 r = rl"
  shows "request_reads pton4 pton6 bs (st_version rl 0)"
  using rd_version [OF assms(1), of 0 pton4] assms(2,3) by simp

lemma host_part_snoc:
  "authority_bytes a' = authority_bytes a @ [c] \<Longrightarrow> host_part m a' = host_part m a @ [c]"
  by (simp add: host_part_def)

lemma step_method:
  assumes "\<forall>x\<in>set m. is_token x" "length m \<le> 24"
    "request_parser_feed pton4 pton6 (st_method m) c = Inr q"
  shows "request_reads pton4 pton6 (m @ [c]) q"
proof -
  consider "length m < 24" "is_token c" | "length m < 24" "c = SP"
    | "\<not> (length m < 24 \<and> (is_token c \<or> c = SP))" by blast
  then show ?thesis
  proof cases
    case 1
    then show ?thesis using assms feed_method(1) [OF assms(1)] by (auto intro!: rd_method)
  next
    case 2
    then have m: "method_ok m" using assms(1) by (simp add: method_ok_def)
    have "request_reads pton4 pton6 (host_part m (Name [])) (st_host m (Name []))"
      using m by (intro rd_host) simp_all
    moreover have "m \<noteq> CONNECT_method \<Longrightarrow>
        request_reads pton4 pton6 (m @ SP # take 0 http_scheme) (st_scheme m 0)"
      using m by (intro rd_scheme) simp_all
    ultimately show ?thesis using assms(3) 2 feed_method(2) [OF assms(1)]
      by (auto simp: host_part_def scheme_bytes_def split: if_splits)
  next
    case 3
    then show ?thesis using assms(3) feed_method(3) [OF assms(1)]
      by (auto intro: rd_failed simp: request_failed_def)
  qed
qed

lemma step_scheme:
  assumes "method_ok m" "m \<noteq> CONNECT_method" "k \<le> 6"
    "request_parser_feed pton4 pton6 (st_scheme m k) c = Inr q"
  shows "request_reads pton4 pton6 ((m @ SP # take k http_scheme) @ [c]) q"
proof (cases "c = http_scheme ! k")
  case True
  have l: "k < length http_scheme" using assms(3) by (simp add: http_scheme_def)
  show ?thesis
  proof (cases "k = 6")
    case True6: True
    have "take 6 http_scheme @ [http_scheme ! 6] = http_scheme" by (simp add: http_scheme_def)
    then have "host_part m (Name []) = (m @ SP # take k http_scheme) @ [c]"
      using assms(2) True True6 by (simp add: host_part_def scheme_bytes_def)
    moreover have "q = st_host m (Name [])" using assms(4) True True6 by (simp add: feed_scheme)
    ultimately show ?thesis using rd_host [OF assms(1), of "Name []" pton4 pton6] by simp
  next
    case False
    then have "request_reads pton4 pton6 (m @ SP # take (Suc k) http_scheme) q"
      using assms True feed_scheme [OF assms(3)] by (auto intro!: rd_scheme)
    then show ?thesis using True l by (simp add: take_Suc_conv_app_nth)
  qed
next
  case False
  then show ?thesis using assms feed_scheme [OF assms(3)]
    by (auto intro!: rd_failed simp: request_failed_def)
qed

lemma no_colon_end_snoc:
  "no_colon_end (b @ [c]) \<longleftrightarrow>
     no_colon_end b \<and> (c = COLON \<longrightarrow> b \<noteq> [] \<and> last b \<noteq> RBRACK)"
  by (auto simp: no_colon_end_def successively_append_iff hd_append)

lemma version_pieces:
  assumes "method_ok m" "port_ok po" "authority_ok pton6 a (after_host po SP)"
    "bs = host_part m a @ port_part po @ [SP]"
  shows "request_reads pton4 pton6 bs
     (st_version (rq m (target_value pton4 pton6 m a po (origin_value m None))) 0)"
  by (rule to_version_reads
      [where r = "\<lparr>q_method = m, q_authority = a, q_port = po, q_origin = None\<rparr>"])
    (use assms in \<open>simp_all add: pieces_ok_def target_bytes_def target_line_def\<close>)

lemma origin_pieces:
  assumes "method_ok m" "port_ok po" "authority_ok pton6 a (after_host po c)" "end_of_authority c"
    "bs = host_part m a @ port_part po @ [c]"
  shows "request_reads pton4 pton6 bs (st_origin pton4 pton6 m a po [c])"
proof -
  have "origin_ok [c]" using assms(4) by (auto simp: origin_ok_def end_of_authority_def)
  then show ?thesis using assms rd_origin [of m po pton6 a "[c]" pton4] by simp
qed

lemma step_name:
  assumes "method_ok m" "authority_reading (Name h)"
    "request_parser_feed pton4 pton6 (st_host m (Name h)) c = Inr q"
  shows "request_reads pton4 pton6 (host_part m (Name h) @ [c]) q"
proof (cases "length h < 255")
  case False
  then show ?thesis using assms feed_host_full [of "Name h"]
    by (auto intro!: rd_failed simp: request_failed_def)
next
  case len: True
  note fn = feed_name [OF len assms(1)]
  have ok: "authority_ok pton6 (Name h) x" for x using assms(2) len by simp
  consider "h = []" "c = LBRACK" | "h = [] \<longrightarrow> c \<noteq> LBRACK" "\<not> host_end c" | "c = COLON"
    | "end_of_authority c" | "c = SP"
    by (auto simp: host_end_def)
  then show ?thesis
  proof cases
    case 1
    then have "q = st_host m (Bracket 0 [])" using fn(1) assms(3) by simp
    moreover have "host_part m (Bracket 0 []) = host_part m (Name h) @ [c]"
      using 1 by (intro host_part_snoc) simp
    ultimately show ?thesis using rd_host [OF assms(1), of "Bracket 0 []" pton4 pton6]
      by (simp add: no_colon_end_def)
  next
    case 2
    then have "q = st_host m (Name (h @ [c]))" using fn(2) assms(3) by simp
    moreover have "host_part m (Name (h @ [c])) = host_part m (Name h) @ [c]"
      by (intro host_part_snoc) simp
    moreover have "authority_reading (Name (h @ [c]))"
      using assms(2) 2 len by (auto simp: hd_append)
    ultimately show ?thesis using rd_host [OF assms(1), of "Name (h @ [c])" pton4 pton6] by simp
  next
    case 3
    then have "q = st_port pton4 pton6 m (Name h) []" using fn(3) assms(3) by simp
    then show ?thesis using 3 rd_port [OF assms(1) ok, of "[]" pton4] by simp
  next
    case 4
    then have "q = st_origin pton4 pton6 m (Name h) None [c]" using fn(4) assms(3) by simp
    then show ?thesis using 4 assms(1) ok by (auto intro!: origin_pieces)
  next
    case 5
    then have "q = st_version (rq m (target_value pton4 pton6 m (Name h) None (origin_value m None))) 0"
      using fn(5) assms(3) by simp
    then show ?thesis using 5 assms(1) ok by (auto intro!: version_pieces)
  qed
qed

lemma step_bracket:
  assumes "method_ok m" "authority_reading (Bracket n b)"
    "request_parser_feed pton4 pton6 (st_host m (Bracket n b)) c = Inr q"
  shows "request_reads pton4 pton6 (host_part m (Bracket n b) @ [c]) q"
proof (cases "length b < 255")
  case False
  then show ?thesis using assms feed_host_full [of "Bracket n b"]
    by (auto intro!: rd_failed simp: request_failed_def)
next
  case len: True
  note fb = feed_bracket [OF len]
  have "b = [] \<Longrightarrow> \<not> host_end c" using fb(2) assms(3) by fastforce
  then consider "b = []" "c = LBRACK" | "b = [] \<longrightarrow> c \<noteq> LBRACK \<and> c \<noteq> COLON" "\<not> bracket_end b c"
    | "b \<noteq> []" "bracket_end b c" "pton6 (cstr (butlast b)) = None"
    | x where "b \<noteq> []" "bracket_end b c" "pton6 (cstr (butlast b)) = Some x"
    by (cases "pton6 (cstr (butlast b))") (auto simp: host_end_def bracket_end_def)
  then show ?thesis
  proof cases
    case 1
    then have "q = st_host m (Bracket (Suc n) [])" using fb(1) assms(3) by simp
    moreover have "host_part m (Bracket (Suc n) []) = host_part m (Bracket n b) @ [c]"
      using 1 by (intro host_part_snoc) (simp add: replicate_append_same)
    ultimately show ?thesis using rd_host [OF assms(1), of "Bracket (Suc n) []" pton4 pton6]
      by (simp add: no_colon_end_def)
  next
    case 2
    then have "q = st_host m (Bracket n (b @ [c]))" using fb(3) assms(3) by simp
    moreover have "host_part m (Bracket n (b @ [c])) = host_part m (Bracket n b) @ [c]"
      by (intro host_part_snoc) simp
    moreover have "authority_reading (Bracket n (b @ [c]))"
      using assms(2) 2 len by (auto simp: hd_append no_colon_end_snoc bracket_end_def)
    ultimately show ?thesis using rd_host [OF assms(1), of "Bracket n (b @ [c])" pton4 pton6] by simp
  next
    case 3
    then have "rp_state q = request_error" using fb(4) [of c pton6 pton4 m n] 3 assms(3) by auto
    then show ?thesis by (intro rd_failed) (simp add: request_failed_def)
  next
    case 4
    note fe = feed_bracket_end [where b = b and ?pton6.0 = pton6, OF len 4(1) assms(1) 4(3)]
    have ok: "c = COLON \<and> last b = RBRACK \<or> e \<noteq> COLON \<Longrightarrow> authority_ok pton6 (Bracket n b) e" for e
      using assms(2) len 4 by auto
    from 4(2) consider "c = COLON" "last b = RBRACK" | "end_of_authority c" | "c = SP"
      by (auto simp: bracket_end_def)
    then show ?thesis
    proof cases
      case 1
      then have "q = st_port pton4 pton6 m (Bracket n b) []" using fe(1) assms(3) by simp
      then show ?thesis using 1 rd_port [OF assms(1) ok, of "[]" pton4] by simp
    next
      case 2
      then have "q = st_origin pton4 pton6 m (Bracket n b) None [c]" "c \<noteq> COLON"
        using fe(2) assms(3) by (auto simp: end_of_authority_def)
      then show ?thesis using 2 assms(1) ok [of c]
        by (auto intro!: origin_pieces simp: after_host_def simp del: authority_ok.simps)
    next
      case 3
      then have "q = st_version (rq m (target_value pton4 pton6 m (Bracket n b) None (origin_value m None))) 0"
        using fe(3) assms(3) by simp
      then show ?thesis using 3 assms(1) ok [of SP]
        by (auto intro!: version_pieces simp: after_host_def simp del: authority_ok.simps)
    qed
  qed
qed

lemma step_port:
  assumes "method_ok m" "authority_ok pton6 a COLON" "digits ds" "length ds \<le> 5"
    "request_parser_feed pton4 pton6 (st_port pton4 pton6 m a ds) c = Inr q"
  shows "request_reads pton4 pton6 ((host_part m a @ COLON # ds) @ [c]) q"
proof -
  note fp = feed_port [OF assms(2,1)]
  have ok: "authority_ok pton6 a (after_host (Some ds) x)" for x
    using assms(2) by (simp add: after_host_def)
  consider "5 \<le> length ds" | "length ds < 5" "end_of_authority c" | "length ds < 5" "c = SP"
    | "length ds < 5" "is_digit c" | "length ds < 5" "\<not> end_of_authority c" "c \<noteq> SP" "\<not> is_digit c"
    by linarith
  then show ?thesis
  proof cases
    case 1
    then show ?thesis using fp(1) assms(5) by (auto intro!: rd_failed simp: request_failed_def)
  next
    case 2
    then have "q = st_origin pton4 pton6 m a (Some ds) [c]" using fp(2) assms(5) by simp
    then show ?thesis using 2 assms(1,3) ok by (auto intro!: origin_pieces)
  next
    case 3
    then have "q = st_version (rq m (target_value pton4 pton6 m a (Some ds) (origin_value m None))) 0"
      using fp(3) assms(5) by simp
    then show ?thesis using 3 assms(1,3) ok by (auto intro!: version_pieces)
  next
    case 4
    then have "q = st_port pton4 pton6 m a (ds @ [c])" using fp(4) assms(5) by simp
    then show ?thesis using 4 assms(1-3) rd_port [of m pton6 a "ds @ [c]" pton4] by simp
  next
    case 5
    then show ?thesis using fp(5) assms(5) by (auto intro!: rd_failed simp: request_failed_def)
  qed
qed

lemma step_origin:
  assumes "method_ok m" "port_ok po" "authority_ok pton6 a (after_host po (hd og))" "origin_ok og"
    "length og \<le> 1024"
    "request_parser_feed pton4 pton6 (st_origin pton4 pton6 m a po og) c = Inr q"
  shows "request_reads pton4 pton6 ((host_part m a @ port_part po @ og) @ [c]) q"
proof -
  note fo = feed_origin [of pton4 pton6 m a po og c]
  consider "1024 \<le> length og" | "length og < 1024" "c = SP" | "length og < 1024" "c \<noteq> SP" by linarith
  then show ?thesis
  proof cases
    case 1
    then show ?thesis using fo assms(6) by (auto intro!: rd_failed simp: request_failed_def)
  next
    case 2
    then have "q = st_version (rq m (target_value pton4 pton6 m a po og)) 0" using fo assms(6) by simp
    moreover have "request_reads pton4 pton6 ((host_part m a @ port_part po @ og) @ [c])
        (st_version (rq m (target_value pton4 pton6 m a po og)) 0)"
      by (rule to_version_reads
          [where r = "\<lparr>q_method = m, q_authority = a, q_port = po, q_origin = Some og\<rparr>"])
        (use assms 2 in \<open>simp_all add: pieces_ok_def target_bytes_def target_line_def origin_value_def\<close>)
    ultimately show ?thesis by simp
  next
    case 3
    then have "q = st_origin pton4 pton6 m a po (og @ [c])" using fo assms(6) by simp
    moreover have "origin_ok (og @ [c])" "hd (og @ [c]) = hd og"
      using assms(4) 3 by (auto simp: origin_ok_def)
    ultimately show ?thesis using rd_origin [of m po pton6 a "og @ [c]" pton4] assms 3 by simp
  qed
qed

lemma target_line_versions [simp]:
  "rl_version_major (target_line pton4 pton6 r) = 0" "rl_version_minor (target_line pton4 pton6 r) = 0"
  by (simp_all add: target_line_def rq_def)

lemma step_version:
  assumes "pieces_ok pton6 r" "k \<le> 4"
    "request_parser_feed pton4 pton6 (st_version (target_line pton4 pton6 r) k) c = Inr q"
  shows "request_reads pton4 pton6 ((target_bytes r @ take k http_slash) @ [c]) q"
proof (cases "c = http_slash ! k")
  case False
  then show ?thesis using assms feed_version [OF assms(2)]
    by (auto intro!: rd_failed simp: request_failed_def)
next
  case True
  have l: "take k http_slash @ [c] = take (Suc k) http_slash"
    using take_Suc_conv_app_nth [of k http_slash] assms(2) True by (simp add: http_slash_def)
  have "k = 4 \<Longrightarrow> take (Suc k) http_slash = http_slash" by (simp add: http_slash_def)
  then show ?thesis
    using assms True l feed_version [OF assms(2), of "target_line pton4 pton6 r" pton4 pton6 c]
      rd_version [OF assms(1), of "Suc k" pton4] rd_major [OF assms(1), of "[]" pton4]
    by (cases "k = 4") auto
qed

lemma step_major:
  assumes "pieces_ok pton6 r" "digits ma" "length ma \<le> 2"
    "request_parser_feed pton4 pton6 (st_major (target_line pton4 pton6 r) ma) c = Inr q"
  shows "request_reads pton4 pton6 ((target_bytes r @ http_slash @ ma) @ [c]) q"
  using assms feed_major [of "target_line pton4 pton6 r" pton4 pton6 ma c]
    rd_major [OF assms(1), of "ma @ [c]" pton4] rd_minor [OF assms(1,2), of "[]" pton4]
    rd_failed [of q pton4 pton6]
  by (auto simp: request_failed_def split: if_splits)

lemma step_minor:
  assumes "pieces_ok pton6 r" "digits ma" "length ma \<le> 1" "digits mi" "length mi \<le> 2"
    "request_parser_feed pton4 pton6
       (st_minor ((target_line pton4 pton6 r)\<lparr>rl_version_major := version_value ma\<rparr>) mi) c = Inr q"
  shows "request_reads pton4 pton6 ((target_bytes r @ http_slash @ ma @ DOT # mi) @ [c]) q"
  using assms feed_minor [of pton4 pton6 "(target_line pton4 pton6 r)\<lparr>rl_version_major := version_value ma\<rparr>" mi c]
    rd_minor [OF assms(1-3), of "mi @ [c]" pton4] rd_end [OF assms(1-4), of pton4]
    rd_failed [of q pton4 pton6]
  by (auto simp: request_failed_def request_value_def split: if_splits)

lemma request_failed_stays: "request_failed p \<Longrightarrow> request_parser_feed pton4 pton6 p c = Inr p"
  by (auto simp: request_failed_def request_step_defs)

lemma request_done_stays: "rp_state p = request_done \<Longrightarrow> request_parser_feed pton4 pton6 p c = Inr p"
  by (simp add: request_step_defs)

lemma request_reads_step:
  assumes "request_reads pton4 pton6 bs p" "request_parser_feed pton4 pton6 p c = Inr q"
  shows "request_reads pton4 pton6 (bs @ [c]) q"
  using assms
proof (cases rule: request_reads.cases)
  case rd_method
  then show ?thesis using assms(2) step_method by blast
next
  case (rd_scheme m k)
  then show ?thesis using assms(2) step_scheme by blast
next
  case (rd_host m a)
  then show ?thesis using assms(2) step_name step_bracket by (cases a) blast+
next
  case (rd_port m a ds)
  then show ?thesis using assms(2) step_port by blast
next
  case (rd_origin m po a og)
  then show ?thesis using assms(2) step_origin by blast
next
  case (rd_version r k)
  then show ?thesis using assms(2) step_version by blast
next
  case (rd_major r ma)
  then show ?thesis using assms(2) step_major by blast
next
  case (rd_minor r ma mi)
  then show ?thesis using assms(2) step_minor by blast
next
  case (rd_end r ma mi)
  then have q: "q = st_end (request_value pton4 pton6 r ma mi) (if c = LF then request_done else request_error)"
    using assms(2) by (simp add: feed_end)
  have "c = LF \<Longrightarrow> bs @ [c] = request_bytes r ma mi @ []"
    using rd_end(1) by (simp add: request_bytes_def)
  then show ?thesis using q request_reads.rd_done [OF rd_end(3-7), of pton4 "[]"]
    by (cases "c = LF") (auto intro!: rd_failed simp: request_failed_def st_end_def)
next
  case (rd_done r ma mi rest)
  then have "q = p" using assms(2) by (simp add: request_done_stays st_end_def)
  then show ?thesis
    using rd_done request_reads.rd_done [of pton6 r ma mi pton4 "rest @ [c]"] by simp
next
  case rd_failed
  then show ?thesis using assms(2) request_failed_stays [of p pton4 pton6 c]
    by (auto intro: request_reads.rd_failed)
qed

lemma request_reads_run:
  "run (request_parser_feed pton4 pton6) (request_parser_init p) bs = Inr q \<Longrightarrow>
   request_reads pton4 pton6 bs q"
proof (induction bs arbitrary: q rule: rev_induct)
  case Nil
  then show ?case using rd_method [of "[]"] by (simp add: init_is_st_method)
next
  case (snoc c bs)
  then obtain q1 where "run (request_parser_feed pton4 pton6) (request_parser_init p) bs = Inr q1"
      "request_parser_feed pton4 pton6 q1 c = Inr q"
    by (auto simp: run_snoc bindR_eq_Inr)
  then show ?case using snoc.IH request_reads_step by blast
qed

text \<open>The other direction: the pieces of a request line, one after the other.\<close>

lemma run_method:
  "\<forall>x\<in>set m. is_token x \<Longrightarrow> length m \<le> 24 \<Longrightarrow>
   run (request_parser_feed pton4 pton6) (st_method []) m = Inr (st_method m)"
  by (induction m rule: rev_induct) (simp_all add: run_snoc feed_method)

lemma run_scheme:
  "run (request_parser_feed pton4 pton6) (st_scheme m 0) http_scheme = Inr (st_host m (Name []))"
proof -
  have "run (request_parser_feed pton4 pton6) (st_scheme m 0) (take k http_scheme) =
      Inr (st_scheme m k)" if "k \<le> 6" for k
    using that
  proof (induction k)
    case (Suc k)
    then have "take (Suc k) http_scheme = take k http_scheme @ [http_scheme ! k]"
      by (intro take_Suc_conv_app_nth) (simp add: http_scheme_def)
    then show ?case using Suc by (simp add: run_snoc feed_scheme)
  qed simp
  from this [of 6] have "run (request_parser_feed pton4 pton6) (st_scheme m 0)
      (take 6 http_scheme @ [http_scheme ! 6]) = Inr (st_host m (Name []))"
    by (simp add: run_snoc feed_scheme)
  then show ?thesis by (simp add: http_scheme_def)
qed

lemma run_to_host:
  assumes "method_ok m"
  shows "run (request_parser_feed pton4 pton6) (st_method []) (m @ SP # scheme_bytes m) =
     Inr (st_host m (Name []))"
proof (rule run_then [OF run_method], goal_cases)
  case 3
  have "\<forall>x\<in>set m. is_token x" "length m < 24" using assms by (auto simp: method_ok_def)
  then show ?case
    using run_scheme [of pton4 pton6 m] by (simp add: feed_method(2) scheme_bytes_def)
qed (use assms in \<open>auto simp: method_ok_def\<close>)

lemma run_name:
  "authority_reading (Name h) \<Longrightarrow> method_ok m \<Longrightarrow>
   run (request_parser_feed pton4 pton6) (st_host m (Name [])) h = Inr (st_host m (Name h))"
  by (induction h rule: rev_induct) (auto simp: run_snoc feed_name(2) hd_append split: if_splits)

lemma run_brackets:
  "method_ok m \<Longrightarrow> run (request_parser_feed pton4 pton6) (st_host m (Name [])) (replicate (Suc k) LBRACK) =
   Inr (st_host m (Bracket k []))"
proof (induction k)
  case 0
  then show ?case using feed_name(1) [of "[]" m pton4 pton6] by simp
next
  case (Suc k)
  have "replicate (Suc (Suc k)) LBRACK = replicate (Suc k) LBRACK @ [LBRACK]"
    by (simp add: replicate_append_same)
  then show ?case using Suc feed_bracket(1) [of "[]" pton4 pton6 m k]
    by (simp only: run_snoc bindR.simps) simp
qed

lemma run_bracket_text:
  "authority_reading (Bracket k b) \<Longrightarrow> method_ok m \<Longrightarrow>
   run (request_parser_feed pton4 pton6) (st_host m (Bracket k [])) b = Inr (st_host m (Bracket k b))"
  by (induction b rule: rev_induct)
    (auto simp: run_snoc feed_bracket(3) hd_append no_colon_end_snoc bracket_end_def split: if_splits)

lemma run_authority:
  assumes "authority_reading a" "method_ok m"
  shows "run (request_parser_feed pton4 pton6) (st_host m (Name [])) (authority_bytes a) = Inr (st_host m a)"
proof (cases a)
  case (Name h)
  then show ?thesis using run_name assms by simp
next
  case (Bracket k b)
  then show ?thesis
    using run_then [OF run_brackets [OF assms(2)] run_bracket_text [OF _ assms(2)]] assms(1)
    by (simp del: replicate.simps)
qed

lemma host_exit:
  assumes "authority_ok pton6 a c" "method_ok m"
  shows "c = COLON \<Longrightarrow> request_parser_feed pton4 pton6 (st_host m a) c = Inr (st_port pton4 pton6 m a [])"
    and "end_of_authority c \<Longrightarrow>
       request_parser_feed pton4 pton6 (st_host m a) c = Inr (st_origin pton4 pton6 m a None [c])"
    and "c = SP \<Longrightarrow> request_parser_feed pton4 pton6 (st_host m a) c =
       Inr (st_version (rq m (target_value pton4 pton6 m a None (origin_value m None))) 0)"
  using assms by (cases a; auto simp: feed_name feed_bracket_end)+

lemma run_port:
  "authority_ok pton6 a x \<Longrightarrow> method_ok m \<Longrightarrow> digits ds \<Longrightarrow> length ds \<le> 5 \<Longrightarrow>
   run (request_parser_feed pton4 pton6) (st_port pton4 pton6 m a []) ds = Inr (st_port pton4 pton6 m a ds)"
  by (induction ds rule: rev_induct) (simp_all add: run_snoc feed_port)

lemma run_origin:
  "SP \<notin> set og \<Longrightarrow> length (o0 @ og) \<le> 1024 \<Longrightarrow>
   run (request_parser_feed pton4 pton6) (st_origin pton4 pton6 m a po o0) og =
   Inr (st_origin pton4 pton6 m a po (o0 @ og))"
  by (induction og rule: rev_induct) (simp_all add: run_snoc feed_origin)

lemma run_port_part:
  assumes "authority_ok pton6 a (after_host po c)" "method_ok m" "port_ok po"
    "end_of_authority c \<or> c = SP"
  shows "run (request_parser_feed pton4 pton6) (st_host m a) (port_part po @ [c]) =
     Inr (if c = SP then st_version (rq m (target_value pton4 pton6 m a po (origin_value m None))) 0
          else st_origin pton4 pton6 m a po [c])"
proof (cases po)
  case None
  then show ?thesis using host_exit [OF _ assms(2), of pton6 a c pton4] assms
    by (auto simp: after_host_def end_of_authority_def)
next
  case (Some ds)
  have a: "authority_ok pton6 a COLON" using assms(1) Some by (simp add: after_host_def)
  have ds: "digits ds" "length ds \<le> 4" using assms(3) Some by auto
  have "run (request_parser_feed pton4 pton6) (st_host m a) (COLON # ds) = Inr (st_port pton4 pton6 m a ds)"
    using host_exit(1) [OF a assms(2)] run_port [OF a assms(2)] ds by simp
  then show ?thesis
    using feed_port(2,3) [OF a assms(2)] ds Some assms(4)
    by (auto simp: run_snoc simp flip: append_Cons simp del: run.simps)
qed

lemma run_target:
  assumes "pieces_ok pton6 r"
  shows "run (request_parser_feed pton4 pton6) (st_method []) (target_bytes r) =
     Inr (st_version (target_line pton4 pton6 r) 0)"
proof -
  let ?m = "q_method r" and ?a = "q_authority r" and ?po = "q_port r"
  have m: "method_ok ?m" and po: "port_ok ?po" using assms by (auto simp: pieces_ok_def)
  obtain x where "authority_ok pton6 ?a x"
    using assms by (auto simp: pieces_ok_def split: option.splits)
  then have "authority_reading ?a" by (cases ?a) auto
  then have h: "run (request_parser_feed pton4 pton6) (st_method []) (host_part ?m ?a) = Inr (st_host ?m ?a)"
    using run_then [OF run_to_host [OF m] run_authority [OF _ m]] by (simp add: host_part_def)
  show ?thesis
  proof (cases "q_origin r")
    case None
    then have "authority_ok pton6 ?a (after_host ?po SP)" using assms by (simp add: pieces_ok_def)
    from run_port_part [OF this m po]
    have "run (request_parser_feed pton4 pton6) (st_host ?m ?a) (port_part ?po @ [SP]) =
        Inr (st_version (target_line pton4 pton6 r) 0)"
      using None by (simp add: target_line_def)
    then show ?thesis using run_then [OF h] None by (simp add: target_bytes_def)
  next
    case (Some og)
    then obtain c cs where og: "og = c # cs" "end_of_authority c" "c \<noteq> SP" "SP \<notin> set cs"
        "length og \<le> 1023" "authority_ok pton6 ?a (after_host ?po c)"
      using assms by (cases og) (auto simp: pieces_ok_def origin_ok_def)
    have "run (request_parser_feed pton4 pton6) (st_host ?m ?a) (port_part ?po @ [c]) =
        Inr (st_origin pton4 pton6 ?m ?a ?po [c])"
      using run_port_part [OF og(6) m po] og by simp
    moreover have "run (request_parser_feed pton4 pton6) (st_origin pton4 pton6 ?m ?a ?po [c]) (cs @ [SP]) =
        Inr (st_version (target_line pton4 pton6 r) 0)"
      using run_origin [of cs "[c]"] og Some
      by (simp add: run_snoc feed_origin target_line_def origin_value_def)
    ultimately have "run (request_parser_feed pton4 pton6) (st_host ?m ?a)
        ((port_part ?po @ [c]) @ (cs @ [SP])) = Inr (st_version (target_line pton4 pton6 r) 0)"
      by (rule run_then)
    then show ?thesis using run_then [OF h] Some og(1) by (simp add: target_bytes_def)
  qed
qed

lemma run_http_version:
  "rl_version_major rl = 0 \<Longrightarrow>
   run (request_parser_feed pton4 pton6) (st_version rl 0) http_slash = Inr (st_major rl [])"
  by (simp add: http_slash_def feed_version eval_nat_numeral)

definition version_ok :: "bytes \<Rightarrow> bytes \<Rightarrow> bool" where
  "version_ok ma mi \<longleftrightarrow> digits ma \<and> length ma \<le> 1 \<and> digits mi \<and> length mi \<le> 1"

lemma short_digits: "digits ds \<Longrightarrow> length ds \<le> 1 \<Longrightarrow> ds = [] \<or> (\<exists>d. ds = [d] \<and> is_digit d)"
  by (cases ds) auto

lemma run_versions:
  assumes "version_ok ma mi" "rl_version_minor rl = 0"
  shows "run (request_parser_feed pton4 pton6) (st_major rl []) (ma @ [DOT] @ mi @ [CR, LF]) =
     Inr (st_end (rl\<lparr>rl_version_major := version_value ma, rl_version_minor := version_value mi\<rparr>) request_done)"
proof -
  have "ma = [] \<or> (\<exists>d. ma = [d] \<and> is_digit d)" "mi = [] \<or> (\<exists>d. mi = [d] \<and> is_digit d)"
    using assms(1) by (auto simp: version_ok_def short_digits)
  then show ?thesis using assms(2)
    by (auto simp: feed_major feed_minor feed_end)
qed

lemma run_request:
  assumes "pieces_ok pton6 r" "version_ok ma mi"
  shows "run (request_parser_feed pton4 pton6) (request_parser_init p) (request_bytes r ma mi) =
     Inr (st_end (request_value pton4 pton6 r ma mi) request_done)"
  unfolding request_bytes_def init_is_st_method
  by (rule run_then [OF run_target [OF assms(1)]], rule run_then [OF run_http_version])
    (use run_versions [OF assms(2)] in \<open>simp_all add: request_value_def\<close>)



section \<open>Memory safety\<close>

lemma request_reads_fault:
  assumes "request_reads pton4 pton6 bs p" "request_parser_feed pton4 pton6 p c = Inl e"
  shows "host_end c \<and> (\<exists>m k. method_ok m \<and> bs = host_part m (Bracket k []))"
  using assms
proof (cases rule: request_reads.cases)
  case rd_method
  consider "length bs < 24" "is_token c" | "length bs < 24" "c = SP"
    | "\<not> (length bs < 24 \<and> (is_token c \<or> c = SP))" by blast
  then show ?thesis using assms(2) rd_method(1) feed_method [OF rd_method(2)] by cases auto
next
  case (rd_host m a)
  show ?thesis
  proof (cases "length (authority_text a) < 255")
    case False
    then show ?thesis using assms(2) rd_host feed_host_full [of a] by simp
  next
    case len: True
    show ?thesis
    proof (cases a)
      case (Name h)
      have "h = [] \<and> c = LBRACK \<or> (h = [] \<longrightarrow> c \<noteq> LBRACK) \<and> \<not> host_end c \<or> c = COLON \<or>
          end_of_authority c \<or> c = SP" by (auto simp: host_end_def)
      then show ?thesis
        using assms(2) rd_host len Name feed_name [of h m, OF _ rd_host(3)] by auto
    next
      case (Bracket k b)
      then have l: "length b < 255" using len by simp
      consider "b = []" "host_end c" | "b = []" "c = LBRACK"
        | "b = [] \<longrightarrow> c \<noteq> LBRACK \<and> c \<noteq> COLON" "\<not> bracket_end b c"
        | "b \<noteq> []" "bracket_end b c" "pton6 (cstr (butlast b)) = None"
        | x where "b \<noteq> []" "bracket_end b c" "pton6 (cstr (butlast b)) = Some x"
        by (cases "pton6 (cstr (butlast b))") (auto simp: host_end_def bracket_end_def)
      then show ?thesis
      proof cases
        case 1
        then show ?thesis using rd_host Bracket by auto
      next
        case 2
        then show ?thesis using assms(2) rd_host Bracket feed_bracket(1) [OF l] by simp
      next
        case 3
        then show ?thesis using assms(2) rd_host Bracket feed_bracket(3) [OF l] by simp
      next
        case 4
        then show ?thesis
          using assms(2) rd_host Bracket feed_bracket(4) [OF l, of c pton6 pton4 m k] by auto
      next
        case 5
        have "c = COLON \<longrightarrow> last b = RBRACK" using 5(2) by (auto simp: bracket_end_def end_of_authority_def)
        then have "authority_ok pton6 a c" using rd_host(4) Bracket l 5(1,3) by simp
        note ex = host_exit [OF this rd_host(3), of pton4]
        have "c = COLON \<or> end_of_authority c \<or> c = SP" using 5(2) by (auto simp: bracket_end_def)
        then show ?thesis using assms(2) rd_host(2) ex by (elim disjE) simp_all
      qed
    qed
  qed
next
  case (rd_port m a ds)
  note fp = feed_port [OF rd_port(4,3)]
  consider "5 \<le> length ds" | "length ds < 5" "end_of_authority c" | "length ds < 5" "c = SP"
    | "length ds < 5" "is_digit c" | "length ds < 5" "\<not> end_of_authority c" "c \<noteq> SP" "\<not> is_digit c"
    by linarith
  then show ?thesis using assms(2) unfolding rd_port(2) by cases (simp_all add: fp)
next
  case (rd_scheme m k)
  then show ?thesis using assms(2) by (simp add: feed_scheme)
next
  case (rd_version r k)
  then show ?thesis using assms(2) by (simp add: feed_version)
next
  case (rd_done r ma mi rest)
  then show ?thesis using assms(2) by (simp add: request_done_stays st_end_def)
qed (use assms(2) in \<open>simp_all add: feed_major feed_minor feed_end feed_origin request_failed_stays\<close>)

text \<open>
  C24: Memory safety of the request line parser, with its one exception. For every input, the parser
  reads and writes inside its arrays and reads the union through the member written last, unless
  the host is a run of opening brackets followed at once by one of the bytes that end a host: then
  it accesses \<^verbatim>\<open>domain[-1]\<close>, and that input always makes it do so.
\<close>

theorem request_line_faults:
  "(\<exists>e. run (request_parser_feed pton4 pton6) (request_parser_init p) bs = Inl e) \<longleftrightarrow>
   (\<exists>m k c rest. bs = host_part m (Bracket k []) @ c # rest \<and> method_ok m \<and> host_end c)"
proof
  show "\<exists>e. run (request_parser_feed pton4 pton6) (request_parser_init p) bs = Inl e \<Longrightarrow>
      \<exists>m k c rest. bs = host_part m (Bracket k []) @ c # rest \<and> method_ok m \<and> host_end c"
  proof (induction bs rule: rev_induct)
    case (snoc c bs)
    show ?case
    proof (cases "run (request_parser_feed pton4 pton6) (request_parser_init p) bs")
      case (Inl e)
      then obtain m k d rest where "bs = host_part m (Bracket k []) @ d # rest" "method_ok m" "host_end d"
        using snoc.IH by blast
      then have "bs @ [c] = host_part m (Bracket k []) @ d # (rest @ [c])" by simp
      then show ?thesis using \<open>method_ok m\<close> \<open>host_end d\<close> by blast
    next
      case (Inr q)
      then obtain e where "request_parser_feed pton4 pton6 q c = Inl e"
        using snoc.prems by (auto simp: run_snoc)
      from request_reads_fault [OF request_reads_run [OF Inr] this] show ?thesis by blast
    qed
  qed simp
next
  assume "\<exists>m k c rest. bs = host_part m (Bracket k []) @ c # rest \<and> method_ok m \<and> host_end c"
  then obtain m k c rest where r: "bs = host_part m (Bracket k []) @ c # rest" "method_ok m" "host_end c"
    by blast
  have "run (request_parser_feed pton4 pton6) (request_parser_init p) (host_part m (Bracket k [])) =
      Inr (st_host m (Bracket k []))"
    using run_then [OF run_to_host [OF r(2)] run_authority [OF _ r(2)], of "Bracket k []" pton4 pton6]
    by (simp add: host_part_def init_is_st_method no_colon_end_def)
  moreover have "run (request_parser_feed pton4 pton6) (st_host m (Bracket k [])) (c # rest) = Inl OutOfBounds"
    using r(3) by (simp add: feed_bracket(2))
  ultimately show "\<exists>e. run (request_parser_feed pton4 pton6) (request_parser_init p) bs = Inl e"
    using run_then r(1) by metis
qed

section \<open>Final states\<close>

definition request_fin :: "request_parser \<Rightarrow> bool" where
  "request_fin p \<longleftrightarrow> rp_state p = request_done \<or> request_failed p"

interpretation req: byte_parser "request_parser_feed pton4 pton6"
  "\<lambda>p. \<exists>bs. request_reads pton4 pton6 bs p" request_fin for pton4 pton6
  by unfold_locales
    (auto simp: request_fin_def request_done_stays request_failed_stays dest: request_reads_step)

text \<open>
  A port of five digits, the length the constant \<^verbatim>\<open>MAX_PORT_LENGTH\<close> allows, is never accepted:
  whatever follows the fifth digit, the parser ends in \<^verbatim>\<open>request_error\<close>. So no request can name
  a port above 9999.
\<close>

theorem five_digit_port_refused:
  assumes "method_ok m" "authority_ok pton6 a COLON" "digits ds" "length ds = 5"
  shows "\<exists>q. run (request_parser_feed pton4 pton6) (request_parser_init p)
           (host_part m a @ COLON # ds @ c # rest) = Inr q \<and> rp_state q = request_error"
proof -
  have "authority_reading a" using assms(2) by (cases a) auto
  then have h: "run (request_parser_feed pton4 pton6) (request_parser_init p) (host_part m a) = Inr (st_host m a)"
    using run_then [OF run_to_host [OF assms(1)] run_authority [OF _ assms(1)]]
    by (simp add: host_part_def init_is_st_method)
  let ?q = "(st_port pton4 pton6 m a ds)\<lparr>rp_state := request_error\<rparr>"
  have f: "request_failed ?q" by (simp add: request_failed_def)
  have "run (request_parser_feed pton4 pton6) (st_port pton4 pton6 m a []) (ds @ c # rest) = Inr ?q"
    by (rule run_then [OF run_port [OF assms(2,1,3)]])
      (use feed_port(1) [OF assms(2,1), of ds] assms(4) req.run_fin [of ?q] f in \<open>simp_all add: request_fin_def\<close>)
  then have "run (request_parser_feed pton4 pton6) (st_host m a) (COLON # ds @ c # rest) = Inr ?q"
    by (simp add: host_exit(1) [OF assms(2,1)])
  then show ?thesis using run_then [OF h] by simp
qed

definition blank_request_parser :: request_parser where
  "blank_request_parser =
     \<lparr>rp_request = zero_request_line, rp_state = request_method, rp_i = 0, rp_n = 0\<rparr>"

text \<open>\<^verbatim>\<open>GET http://a:12345/\<close>\<close>

theorem five_digit_port_refused_witness:
  "\<exists>q. run (request_parser_feed (\<lambda>_. None) (\<lambda>_. None)) (request_parser_init blank_request_parser)
     (host_part [71, 69, 84] (Name [97]) @ COLON # [49, 50, 51, 52, 53] @ SLASH # []) = Inr q \<and>
     rp_state q = request_error"
  by (rule five_digit_port_refused)
    (simp_all add: method_ok_def char_class_defs host_end_def)

end
