(* ===== verification/Headers_Parser.thy ===== *)
theory Headers_Parser
  imports Byte_Parser
begin

text \<open>
  The HTTP header section parser of \<^verbatim>\<open>parsers/headers_parser/headers_parser.c\<close>. It checks the shape
  of the section and counts the fields; it stores neither names nor values, so its memory is the
  state, the counter and the pair \<^verbatim>\<open>i\<close>, \<^verbatim>\<open>n\<close>.
\<close>

datatype headers_state =
    headers_field_name
  | headers_field_value
  | headers_field_value_end
  | headers_may_be_end
  | headers_end
  | headers_done
  | headers_error

record headers_parser =
  hp_state :: headers_state
  hp_count :: u32
  hp_i :: int
  hp_n :: int

definition MAX_HEADER_FIELD_NAME_LENGTH :: int where
  "MAX_HEADER_FIELD_NAME_LENGTH = 128"

definition MAX_HEADER_FIELD_VALUE_LENGTH :: int where
  "MAX_HEADER_FIELD_VALUE_LENGTH = 1024"

definition headers_parser_init :: "headers_parser \<Rightarrow> headers_parser" where
  "headers_parser_init p =
     p\<lparr>hp_state := headers_field_name, hp_count := 0, hp_i := 0,
       hp_n := MAX_HEADER_FIELD_NAME_LENGTH\<rparr>"

definition h_field_name :: "u8 \<Rightarrow> headers_parser \<Rightarrow> headers_parser \<times> headers_state" where
  "h_field_name c p =
     (if hp_i p \<ge> hp_n p then (p, headers_error)
      else if c = COLON
      then (p\<lparr>hp_count := hp_count p + 1, hp_i := 0, hp_n := MAX_HEADER_FIELD_VALUE_LENGTH\<rparr>,
            headers_field_value)
      else if \<not> is_token c then (p, headers_error)
      else (p, headers_field_name))"

definition h_field_value :: "u8 \<Rightarrow> headers_parser \<Rightarrow> headers_parser \<times> headers_state" where
  "h_field_value c p =
     (if hp_i p \<ge> hp_n p then (p, headers_error)
      else if c = CR then (p, headers_field_value_end)
      else if is_vchar c \<or> is_space c then (p, headers_field_value)
      else (p, headers_error))"

definition h_field_value_end :: "u8 \<Rightarrow> headers_parser \<Rightarrow> headers_parser \<times> headers_state" where
  "h_field_value_end c p =
     (if c \<noteq> LF then (p, headers_error) else (p, headers_may_be_end))"

definition h_may_be_end :: "u8 \<Rightarrow> headers_parser \<Rightarrow> headers_parser \<times> headers_state" where
  "h_may_be_end c p =
     (if c = CR then (p, headers_end)
      else if \<not> is_token c then (p, headers_error)
      else (p\<lparr>hp_i := 0, hp_n := MAX_HEADER_FIELD_NAME_LENGTH\<rparr>, headers_field_name))"

definition h_end :: "u8 \<Rightarrow> headers_parser \<Rightarrow> headers_parser \<times> headers_state" where
  "h_end c p = (if c \<noteq> LF then (p, headers_error) else (p, headers_done))"

definition headers_step :: "headers_parser \<Rightarrow> u8 \<Rightarrow> headers_parser \<times> headers_state" where
  "headers_step p c =
     (case hp_state p of
        headers_field_name \<Rightarrow> h_field_name c p
      | headers_field_value \<Rightarrow> h_field_value c p
      | headers_field_value_end \<Rightarrow> h_field_value_end c p
      | headers_may_be_end \<Rightarrow> h_may_be_end c p
      | headers_end \<Rightarrow> h_end c p
      | headers_done \<Rightarrow> (p, headers_done)
      | headers_error \<Rightarrow> (p, headers_error))"

definition headers_parser_feed :: "headers_parser \<Rightarrow> u8 \<Rightarrow> fault + headers_parser" where
  "headers_parser_feed p c = (let (p', next) = headers_step p c in Inr (p'\<lparr>hp_state := next\<rparr>))"

lemmas headers_defs =
  headers_parser_feed_def headers_step_def h_field_name_def h_field_value_def
  h_field_value_end_def h_may_be_end_def h_end_def
  MAX_HEADER_FIELD_NAME_LENGTH_def MAX_HEADER_FIELD_VALUE_LENGTH_def

definition headers_fin :: "headers_parser \<Rightarrow> bool" where
  "headers_fin p \<longleftrightarrow> hp_state p = headers_done \<or> hp_state p = headers_error"

text \<open>No step ever increments \<^verbatim>\<open>i\<close>, so the two length checks always pass.\<close>

definition headers_inv :: "headers_parser \<Rightarrow> bool" where
  "headers_inv p \<longleftrightarrow> hp_i p = 0 \<and> 0 < hp_n p"

lemma headers_inv_init: "headers_inv (headers_parser_init p)"
  by (simp add: headers_inv_def headers_parser_init_def headers_defs)

interpretation hdr: safe_byte_parser headers_parser_feed headers_inv headers_fin
proof unfold_locales
  fix p c p'
  show "headers_inv p \<Longrightarrow> headers_parser_feed p c = Inr p' \<Longrightarrow> headers_inv p'"
    by (cases "hp_state p") (auto simp: headers_defs headers_inv_def split: if_splits)
  show "headers_fin p \<Longrightarrow> headers_parser_feed p c = Inr p"
    by (auto simp: headers_defs headers_fin_def)
  show "headers_inv p \<Longrightarrow> \<exists>p'. headers_parser_feed p c = Inr p'"
    by (auto simp: headers_parser_feed_def split: prod.splits)
qed

section \<open>The accepted language\<close>

text \<open>
  A specification of the header section by its grammar: fields \<open>name ":" value CR LF\<close>, then
  \<open>CR LF\<close>. The first field's name may be empty (the parser does not ask for a character before
  the colon); a later one may not, because \<open>headers_may_be_end\<close> wants a token character.
\<close>

definition name_ok :: "bytes \<Rightarrow> bool" where
  "name_ok nm \<longleftrightarrow> (\<forall>c\<in>set nm. is_token c)"

definition value_ok :: "bytes \<Rightarrow> bool" where
  "value_ok v \<longleftrightarrow> (\<forall>c\<in>set v. is_vchar c \<or> is_space c)"

definition field_bytes :: "bytes \<times> bytes \<Rightarrow> bytes" where
  "field_bytes f = fst f @ [COLON] @ snd f @ [CR, LF]"

definition section_ok :: "(bytes \<times> bytes) list \<Rightarrow> bool" where
  "section_ok fs \<longleftrightarrow> fs \<noteq> [] \<and> (\<forall>f\<in>set fs. name_ok (fst f) \<and> value_ok (snd f)) \<and>
     (\<forall>f\<in>set (tl fs). fst f \<noteq> [])"

definition section_bytes :: "(bytes \<times> bytes) list \<Rightarrow> bytes" where
  "section_bytes fs = concat (map field_bytes fs) @ [CR, LF]"

lemma hp_state_same [simp]: "hp_state p = s \<Longrightarrow> p\<lparr>hp_state := s\<rparr> = p"
  by simp

lemma name_step:
  "headers_inv p \<Longrightarrow> hp_state p = headers_field_name \<Longrightarrow> is_token c \<Longrightarrow>
   headers_parser_feed p c = Inr p"
  by (auto simp: headers_defs headers_inv_def)

lemma value_step:
  assumes "headers_inv p" "hp_state p = headers_field_value" "is_vchar c \<or> is_space c"
  shows "headers_parser_feed p c = Inr p"
proof -
  have "c \<noteq> CR" using assms(3) by (auto simp: char_class_defs)
  then show ?thesis using assms by (auto simp: headers_defs headers_inv_def)
qed

lemma run_field_name:
  "headers_inv p \<Longrightarrow> hp_state p = headers_field_name \<Longrightarrow> name_ok nm \<Longrightarrow>
   run headers_parser_feed p nm = Inr p"
  by (rule run_stay) (simp add: name_step name_ok_def)

lemma run_value:
  "headers_inv p \<Longrightarrow> hp_state p = headers_field_value \<Longrightarrow> value_ok v \<Longrightarrow>
   run headers_parser_feed p v = Inr p"
  by (rule run_stay) (simp add: value_step value_ok_def)

text \<open>After the name of a field, the rest of it leads to \<open>headers_may_be_end\<close>.\<close>

lemma run_after_name:
  assumes "headers_inv p" "hp_state p = headers_field_name" "value_ok v"
  shows "run headers_parser_feed p ([COLON] @ v @ [CR, LF]) =
     Inr (p\<lparr>hp_state := headers_may_be_end, hp_count := hp_count p + 1, hp_n := 1024\<rparr>)"
proof -
  let ?q = "p\<lparr>hp_state := headers_field_value, hp_count := hp_count p + 1, hp_i := 0, hp_n := 1024\<rparr>"
  have 1: "headers_parser_feed p COLON = Inr ?q"
    using assms(1,2) by (simp add: headers_defs headers_inv_def)
  have "headers_inv ?q" by (simp add: headers_inv_def)
  then have 2: "run headers_parser_feed ?q v = Inr ?q" using assms(3) by (intro run_value) auto
  have 3: "run headers_parser_feed ?q [CR, LF] =
      Inr (p\<lparr>hp_state := headers_may_be_end, hp_count := hp_count p + 1, hp_n := 1024\<rparr>)"
    using assms(1) by (simp add: headers_defs headers_inv_def)
  show ?thesis using run_step [where feed = headers_parser_feed, OF 1 run_then [OF 2 3]] by simp
qed

lemma run_field:
  assumes "headers_inv p" "hp_state p = headers_field_name" "name_ok nm" "value_ok v"
  shows "run headers_parser_feed p (field_bytes (nm, v)) =
     Inr (p\<lparr>hp_state := headers_may_be_end, hp_count := hp_count p + 1, hp_n := 1024\<rparr>)"
  using run_then [OF run_field_name run_after_name] assms by (simp add: field_bytes_def)

text \<open>A later field starts in \<open>headers_may_be_end\<close>; its first name character goes back to a name.\<close>

lemma run_later_field:
  assumes "headers_inv p" "hp_state p = headers_may_be_end" "name_ok nm" "nm \<noteq> []" "value_ok v"
  shows "run headers_parser_feed p (field_bytes (nm, v)) =
     Inr (p\<lparr>hp_state := headers_may_be_end, hp_count := hp_count p + 1, hp_n := 1024\<rparr>)"
proof -
  obtain c cs where nm: "nm = c # cs" using assms(4) by (cases nm) auto
  let ?q = "p\<lparr>hp_state := headers_field_name, hp_i := 0, hp_n := 128\<rparr>"
  have tok: "is_token c" and cs: "name_ok cs" using assms(3) nm by (auto simp: name_ok_def)
  then have "c \<noteq> CR" by (auto simp: char_class_defs)
  then have 1: "headers_parser_feed p c = Inr ?q"
    using assms(2) tok by (simp add: headers_defs)
  have "run headers_parser_feed ?q (field_bytes (cs, v)) =
      Inr (?q\<lparr>hp_state := headers_may_be_end, hp_count := hp_count ?q + 1, hp_n := 1024\<rparr>)"
    using cs assms(5) by (intro run_field) (simp_all add: headers_inv_def)
  then show ?thesis
    using 1 assms(1) by (simp add: nm field_bytes_def headers_inv_def)
qed

lemma run_later_fields:
  "headers_inv p \<Longrightarrow> hp_state p = headers_may_be_end \<Longrightarrow>
   \<forall>f\<in>set fs. name_ok (fst f) \<and> value_ok (snd f) \<and> fst f \<noteq> [] \<Longrightarrow>
   \<exists>q. run headers_parser_feed p (section_bytes fs) = Inr q \<and> hp_state q = headers_done \<and>
       hp_count q = hp_count p + of_nat (length fs)"
proof (induction fs arbitrary: p)
  case Nil
  then show ?case by (simp add: section_bytes_def headers_defs)
next
  case (Cons f fs)
  let ?q = "p\<lparr>hp_state := headers_may_be_end, hp_count := hp_count p + 1, hp_n := 1024\<rparr>"
  have "run headers_parser_feed p (field_bytes f) = Inr ?q"
    using Cons.prems run_later_field [of p "fst f" "snd f"] by simp
  moreover have "\<exists>q. run headers_parser_feed ?q (section_bytes fs) = Inr q \<and>
      hp_state q = headers_done \<and> hp_count q = hp_count ?q + of_nat (length fs)"
    using Cons.prems by (intro Cons.IH) (auto simp: headers_inv_def)
  ultimately show ?case by (auto simp: section_bytes_def run_append algebra_simps)
qed

lemma run_section:
  assumes "section_ok fs"
  shows "\<exists>q. run headers_parser_feed (headers_parser_init p) (section_bytes fs) = Inr q \<and>
     hp_state q = headers_done \<and> hp_count q = of_nat (length fs)"
proof -
  obtain f gs where fs: "fs = f # gs" using assms by (cases fs) (auto simp: section_ok_def)
  let ?p = "headers_parser_init p"
  let ?q = "?p\<lparr>hp_state := headers_may_be_end, hp_count := hp_count ?p + 1, hp_n := 1024\<rparr>"
  have 1: "run headers_parser_feed ?p (field_bytes f) = Inr ?q"
    using assms run_field [OF headers_inv_init, of p "fst f" "snd f"]
    by (simp add: fs section_ok_def headers_parser_init_def)
  have "\<exists>q. run headers_parser_feed ?q (section_bytes gs) = Inr q \<and>
      hp_state q = headers_done \<and> hp_count q = hp_count ?q + of_nat (length gs)"
    using assms by (intro run_later_fields)
      (auto simp: fs section_ok_def headers_inv_def headers_parser_init_def)
  with 1 show ?thesis
    by (auto simp: fs section_bytes_def run_append headers_parser_init_def)
qed

section \<open>Soundness\<close>

text \<open>What the parser has read when it is in a state.\<close>

definition fields_ok :: "(bytes \<times> bytes) list \<Rightarrow> bool" where
  "fields_ok fs \<longleftrightarrow> (\<forall>f\<in>set fs. name_ok (fst f) \<and> value_ok (snd f)) \<and>
     (\<forall>f\<in>set (tl fs). fst f \<noteq> [])"

fun reads :: "headers_state \<Rightarrow> bytes \<Rightarrow> bool" where
  "reads headers_field_name bs \<longleftrightarrow>
     (\<exists>fs nm. bs = concat (map field_bytes fs) @ nm \<and> fields_ok fs \<and> name_ok nm \<and>
        (fs \<noteq> [] \<longrightarrow> nm \<noteq> []))"
| "reads headers_field_value bs \<longleftrightarrow>
     (\<exists>fs nm v. bs = concat (map field_bytes fs) @ nm @ [COLON] @ v \<and> fields_ok fs \<and> name_ok nm \<and>
        (fs \<noteq> [] \<longrightarrow> nm \<noteq> []) \<and> value_ok v)"
| "reads headers_field_value_end bs \<longleftrightarrow>
     (\<exists>fs nm v. bs = concat (map field_bytes fs) @ nm @ [COLON] @ v @ [CR] \<and> fields_ok fs \<and>
        name_ok nm \<and> (fs \<noteq> [] \<longrightarrow> nm \<noteq> []) \<and> value_ok v)"
| "reads headers_may_be_end bs \<longleftrightarrow> (\<exists>fs. bs = concat (map field_bytes fs) \<and> section_ok fs)"
| "reads headers_end bs \<longleftrightarrow> (\<exists>fs. bs = concat (map field_bytes fs) @ [CR] \<and> section_ok fs)"
| "reads headers_done bs \<longleftrightarrow> (\<exists>fs rest. bs = section_bytes fs @ rest \<and> section_ok fs)"
| "reads headers_error bs \<longleftrightarrow> True"

lemma fields_ok_section: "section_ok fs \<Longrightarrow> fields_ok fs"
  by (simp add: section_ok_def fields_ok_def)

lemma fields_ok_snoc:
  "fields_ok fs \<Longrightarrow> name_ok nm \<Longrightarrow> value_ok v \<Longrightarrow> (fs \<noteq> [] \<longrightarrow> nm \<noteq> []) \<Longrightarrow>
   section_ok (fs @ [(nm, v)])"
  by (cases fs) (auto simp: fields_ok_def section_ok_def)

lemma reads_step:
  assumes "headers_inv p" "reads (hp_state p) bs" "headers_parser_feed p c = Inr q"
  shows "reads (hp_state q) (bs @ [c])"
proof (cases "hp_state p")
  case headers_field_name
  then obtain fs nm where r: "bs = concat (map field_bytes fs) @ nm" "fields_ok fs" "name_ok nm"
      "fs \<noteq> [] \<longrightarrow> nm \<noteq> []"
    using assms(2) by auto
  have v: "value_ok []" by (simp add: value_ok_def)
  have n: "is_token c \<Longrightarrow> name_ok (nm @ [c])" using r(3) by (auto simp: name_ok_def)
  have "hp_state q = headers_field_value \<and> c = COLON \<or>
      hp_state q = headers_field_name \<and> is_token c \<or> hp_state q = headers_error"
    using assms(3) headers_field_name by (auto simp: headers_defs split: if_splits)
  then show ?thesis
  proof (elim disjE conjE)
    assume q: "hp_state q = headers_field_value" and "c = COLON"
    then have "bs @ [c] = concat (map field_bytes fs) @ nm @ [COLON] @ []" using r(1) by simp
    with q r v show ?thesis by (simp only: reads.simps) blast
  next
    assume q: "hp_state q = headers_field_name" and "is_token c"
    with n have "bs @ [c] = concat (map field_bytes fs) @ (nm @ [c])" "name_ok (nm @ [c])"
      using r(1) by simp_all
    with q r show ?thesis by (simp only: reads.simps) blast
  qed simp
next
  case headers_field_value
  then obtain fs nm v where r: "bs = concat (map field_bytes fs) @ nm @ [COLON] @ v"
      "fields_ok fs" "name_ok nm" "fs \<noteq> [] \<longrightarrow> nm \<noteq> []" "value_ok v"
    using assms(2) by auto
  have n: "is_vchar c \<or> is_space c \<Longrightarrow> value_ok (v @ [c])" using r(5) by (auto simp: value_ok_def)
  have "hp_state q = headers_field_value_end \<and> c = CR \<or>
      hp_state q = headers_field_value \<and> (is_vchar c \<or> is_space c) \<or> hp_state q = headers_error"
    using assms(3) headers_field_value by (auto simp: headers_defs split: if_splits)
  then show ?thesis
  proof (elim disjE conjE)
    assume q: "hp_state q = headers_field_value_end" and "c = CR"
    then have "bs @ [c] = concat (map field_bytes fs) @ nm @ [COLON] @ v @ [CR]" using r(1) by simp
    with q r show ?thesis by (simp only: reads.simps) blast
  next
    assume q: "hp_state q = headers_field_value" and "is_vchar c"
    with n have "bs @ [c] = concat (map field_bytes fs) @ nm @ [COLON] @ (v @ [c])"
      "value_ok (v @ [c])" using r(1) by simp_all
    with q r show ?thesis by (simp only: reads.simps) blast
  next
    assume q: "hp_state q = headers_field_value" and "is_space c"
    with n have "bs @ [c] = concat (map field_bytes fs) @ nm @ [COLON] @ (v @ [c])"
      "value_ok (v @ [c])" using r(1) by simp_all
    with q r show ?thesis by (simp only: reads.simps) blast
  qed simp
next
  case headers_field_value_end
  then obtain fs nm v where r: "bs = concat (map field_bytes fs) @ nm @ [COLON] @ v @ [CR]"
      "fields_ok fs" "name_ok nm" "fs \<noteq> [] \<longrightarrow> nm \<noteq> []" "value_ok v"
    using assms(2) by auto
  have "hp_state q = headers_may_be_end \<and> c = LF \<or> hp_state q = headers_error"
    using assms(3) headers_field_value_end by (auto simp: headers_defs split: if_splits)
  moreover have "bs @ [LF] = concat (map field_bytes (fs @ [(nm, v)]))"
    by (simp add: r(1) field_bytes_def)
  moreover have "section_ok (fs @ [(nm, v)])" using fields_ok_snoc [OF r(2,3,5,4)] .
  ultimately show ?thesis by (metis reads.simps(4,7))
next
  case headers_may_be_end
  then obtain fs where r: "bs = concat (map field_bytes fs)" "section_ok fs"
    using assms(2) by auto
  have "hp_state q = headers_end \<and> c = CR \<or> hp_state q = headers_field_name \<and> is_token c \<or>
      hp_state q = headers_error"
    using assms(3) headers_may_be_end by (auto simp: headers_defs split: if_splits)
  moreover have "is_token c \<Longrightarrow> name_ok [c]" by (simp add: name_ok_def)
  ultimately show ?thesis using r fields_ok_section by fastforce
next
  case headers_end
  then obtain fs where r: "bs = concat (map field_bytes fs) @ [CR]" "section_ok fs"
    using assms(2) by auto
  then have "bs @ [LF] = section_bytes fs @ []" by (simp add: section_bytes_def)
  moreover have "hp_state q = headers_done \<and> c = LF \<or> hp_state q = headers_error"
    using assms(3) headers_end by (auto simp: headers_defs split: if_splits)
  ultimately show ?thesis using r(2) by (metis reads.simps(6,7))
next
  case headers_done
  then show ?thesis using assms by (fastforce simp: headers_defs)
next
  case headers_error
  then show ?thesis using assms by (auto simp: headers_defs)
qed

lemma reads_run:
  "run headers_parser_feed (headers_parser_init p) bs = Inr q \<Longrightarrow> reads (hp_state q) bs"
proof (induction bs arbitrary: q rule: rev_induct)
  case Nil
  then show ?case by (auto simp: headers_parser_init_def fields_ok_def name_ok_def)
next
  case (snoc c bs)
  then obtain q1 where q1: "run headers_parser_feed (headers_parser_init p) bs = Inr q1"
      "headers_parser_feed q1 c = Inr q"
    by (auto simp: run_snoc bindR_eq_Inr)
  then have "headers_inv q1" using hdr.run_inv [OF headers_inv_init] by blast
  with snoc.IH [OF q1(1)] q1(2) show ?case by (intro reads_step)
qed

text \<open>No section is the beginning of another.\<close>

lemma field_unique:
  assumes "name_ok (fst f)" "value_ok (snd f)" "name_ok (fst g)" "value_ok (snd g)"
    "field_bytes f @ xs = field_bytes g @ ys"
  shows "xs = ys"
proof -
  have nt: "\<not> is_token COLON" "\<not> (is_vchar CR \<or> is_space CR)" by (simp_all add: char_class_defs)
  have "fst f @ COLON # (snd f @ CR # LF # xs) = fst g @ COLON # (snd g @ CR # LF # ys)"
    using assms(5) by (simp add: field_bytes_def)
  then have "snd f @ CR # LF # xs = snd g @ CR # LF # ys"
    using split_unique [where P = is_token] nt assms(1,3) unfolding name_ok_def by blast
  then have "LF # xs = LF # ys"
    using split_unique [where P = "\<lambda>c. is_vchar c \<or> is_space c"] nt assms(2,4) unfolding value_ok_def by blast
  then show ?thesis by simp
qed

lemma section_Cons: "section_bytes (f # fs) = field_bytes f @ section_bytes fs"
  by (simp add: section_bytes_def)

lemma fields_unique:
  assumes "\<forall>f\<in>set fs. name_ok (fst f) \<and> value_ok (snd f) \<and> fst f \<noteq> []"
    "\<forall>f\<in>set gs. name_ok (fst f) \<and> value_ok (snd f) \<and> fst f \<noteq> []"
    "section_bytes fs = section_bytes gs @ rest"
  shows "rest = []"
  using assms
proof (induction fs arbitrary: gs)
  case Nil
  show ?case
  proof (cases gs)
    case (Cons g gs')
    then obtain c cs where "fst g = c # cs" "is_token c" using Nil.prems(2) by (cases "fst g") (auto simp: name_ok_def)
    then show ?thesis using Nil.prems(3) Cons by (auto simp: section_bytes_def field_bytes_def char_class_defs)
  qed (use Nil.prems(3) in \<open>simp add: section_bytes_def\<close>)
next
  case (Cons f fs)
  obtain c cs where f: "fst f = c # cs" "is_token c" using Cons.prems(1) by (cases "fst f") (auto simp: name_ok_def)
  show ?case
  proof (cases gs)
    case Nil
    then show ?thesis using Cons.prems(3) f by (auto simp: section_bytes_def field_bytes_def char_class_defs)
  next
    case (Cons g gs')
    have "section_bytes fs = section_bytes gs' @ rest"
      using field_unique [of f g "section_bytes fs" "section_bytes gs' @ rest"] Cons.prems Cons by (simp add: section_Cons)
    then show ?thesis using Cons.IH [of gs'] Cons.prems Cons by simp
  qed
qed


lemma section_bytes_unique:
  assumes "section_ok fs" "section_ok gs" "section_bytes fs = section_bytes gs @ rest"
  shows "rest = []"
proof -
  obtain f fs' g gs' where f: "fs = f # fs'" "gs = g # gs'"
    using assms(1,2) by (cases fs; cases gs) (auto simp: section_ok_def)
  have "section_bytes fs' = section_bytes gs' @ rest"
    using field_unique [of f g "section_bytes fs'" "section_bytes gs' @ rest"] assms f by (simp add: section_Cons section_ok_def)
  then show ?thesis using fields_unique [of fs' gs' rest] assms(1,2) f by (simp add: section_ok_def)
qed


text \<open>
  on a well-formed section the parser stops in \<open>headers_done\<close> and has counted the fields,
  modulo the 32 bits of the counter.
\<close>

theorem headers_counts_fields:
  assumes "section_ok fs"
  shows "\<exists>q. run headers_parser_feed (headers_parser_init p) (section_bytes fs) = Inr q \<and>
     hp_state q = headers_done \<and> hp_count q = of_nat (length fs)"
  using run_section [OF assms] .

definition blank_headers_parser :: headers_parser where
  "blank_headers_parser = \<lparr>hp_state = headers_error, hp_count = 7, hp_i = 3, hp_n = 2\<rparr>"

theorem headers_counts_fields_witness:
  "\<exists>q. run headers_parser_feed (headers_parser_init blank_headers_parser)
        [104, 58, 118, 13, 10, 120, 58, 13, 10, 13, 10] = Inr q \<and>
     hp_state q = headers_done \<and> hp_count q = 2"
proof -
  have "section_ok [([104], [118]), ([120], [])]"
    by (simp add: section_ok_def name_ok_def value_ok_def char_class_defs)
  from headers_counts_fields [OF this, of blank_headers_parser] show ?thesis
    by (simp add: section_bytes_def field_bytes_def)
qed

text \<open>
  the declared limits on header names and values (128 and 1024 bytes) are never enforced:
  a section whose one field has a name of \<open>n\<close> and a value of \<open>m\<close> bytes is accepted for every
  \<open>n\<close> and \<open>m\<close>, with the position counter still at 0.
\<close>

theorem headers_limits_not_enforced:
  "\<exists>q. run headers_parser_feed (headers_parser_init p)
        (section_bytes [(replicate n 97, replicate m 98)]) = Inr q \<and>
     hp_state q = headers_done \<and> hp_i q = 0"
proof -
  have ok: "section_ok [(replicate n 97, replicate m 98)]"
    by (auto simp: section_ok_def name_ok_def value_ok_def char_class_defs)
  obtain q where q: "run headers_parser_feed (headers_parser_init p)
      (section_bytes [(replicate n 97, replicate m 98)]) = Inr q" "hp_state q = headers_done"
    using run_section [OF ok] by blast
  moreover have "hp_i q = 0"
    using hdr.run_inv [OF headers_inv_init q(1)] by (simp add: headers_inv_def)
  ultimately show ?thesis by blast
qed

end
