(* ===== verification/Status_Line_Parser.thy ===== *)
theory Status_Line_Parser
  imports Http_Version
begin

text \<open>
  The HTTP status line parser of \<^verbatim>\<open>parsers/status_line_parser/status_line_parser.c\<close>. The record
  fields \<open>sl_*\<close> of the C structures carry the prefixes \<open>st_\<close> (the line) and \<open>sp_\<close> (the parser),
  since the C functions already use \<^verbatim>\<open>sl_\<close>. A step returns the next state beside the
  parser, or the fault it runs into.
\<close>

datatype status_line_state =
    status_line_version
  | status_line_version_major
  | status_line_version_minor
  | status_line_status_code
  | status_line_reason_phrase
  | status_line_end
  | status_line_done
  | status_line_error
  | status_line_error_unsupported_version

record status_line =
  st_version_major :: u8
  st_version_minor :: u8
  st_status_code :: int
  st_reason_phrase :: bytes

record status_line_parser =
  sp_status_line :: status_line
  sp_state :: status_line_state
  sp_i :: int
  sp_n :: int

definition STATUS_CODE_LENGTH :: int where "STATUS_CODE_LENGTH = 3"
definition MAX_REASON_PHRASE :: int where "MAX_REASON_PHRASE = 50"
definition STATUS_VERSION_LENGTH :: int where "STATUS_VERSION_LENGTH = 8"

definition zero_status_line :: status_line where
  "zero_status_line =
     \<lparr>st_version_major = 0, st_version_minor = 0, st_status_code = 0,
      st_reason_phrase = replicate 50 0\<rparr>"

definition status_line_parser_init :: "status_line_parser \<Rightarrow> status_line_parser" where
  "status_line_parser_init p =
     p\<lparr>sp_state := status_line_version, sp_i := 0, sp_n := STATUS_VERSION_LENGTH,
       sp_status_line := zero_status_line\<rparr>"

definition sl_version ::
  "u8 \<Rightarrow> status_line_parser \<Rightarrow> fault + (status_line_parser \<times> status_line_state)" where
  "sl_version c p =
     (if sp_i p \<ge> sp_n p then Inr (p, status_line_error)
      else bindR (arr_get version_literal (sp_i p)) (\<lambda>v.
        if v \<noteq> c then Inr (p, status_line_error)
        else let p = p\<lparr>sp_i := sp_i p + 1\<rparr>
             in if c = SLASH
                then Inr (p\<lparr>sp_i := 0, sp_n := 2\<rparr>, status_line_version_major)
                else Inr (p, status_line_version)))"

definition sl_version_major ::
  "u8 \<Rightarrow> status_line_parser \<Rightarrow> fault + (status_line_parser \<times> status_line_state)" where
  "sl_version_major c p =
     (if sp_i p \<ge> sp_n p then Inr (p, status_line_error)
      else if c = DOT then Inr (p\<lparr>sp_i := 0, sp_n := 2\<rparr>, status_line_version_minor)
      else if \<not> is_digit c then Inr (p, status_line_error)
      else Inr (p\<lparr>sp_i := sp_i p + 1,
                  sp_status_line := (sp_status_line p)
                    \<lparr>st_version_major :=
                       version_digit (sp_i p) (st_version_major (sp_status_line p)) c\<rparr>\<rparr>,
                status_line_version_major))"

definition sl_version_minor ::
  "u8 \<Rightarrow> status_line_parser \<Rightarrow> fault + (status_line_parser \<times> status_line_state)" where
  "sl_version_minor c p =
     (if sp_i p \<ge> sp_n p then Inr (p, status_line_error)
      else if c = SP
      then Inr (p\<lparr>sp_i := 0, sp_n := STATUS_CODE_LENGTH\<rparr>, status_line_status_code)
      else if \<not> is_digit c then Inr (p, status_line_error)
      else Inr (p\<lparr>sp_i := sp_i p + 1,
                  sp_status_line := (sp_status_line p)
                    \<lparr>st_version_minor :=
                       version_digit (sp_i p) (st_version_minor (sp_status_line p)) c\<rparr>\<rparr>,
                status_line_version_minor))"

definition sl_status_code ::
  "u8 \<Rightarrow> status_line_parser \<Rightarrow> fault + (status_line_parser \<times> status_line_state)" where
  "sl_status_code c p =
     (if sp_i p > sp_n p then Inr (p, status_line_error)
      else if sp_i p = STATUS_CODE_LENGTH \<and> c = SP
      then Inr (p\<lparr>sp_i := 0, sp_n := MAX_REASON_PHRASE\<rparr>, status_line_reason_phrase)
      else if \<not> is_digit c then Inr (p, status_line_error)
      else let num = c - DIG0;
               code = (word_of_int (st_status_code (sp_status_line p)) :: u16);
               code = (if sp_i p = 0 then ucast num else code * 10 + ucast num)
           in Inr (p\<lparr>sp_i := sp_i p + 1,
                     sp_status_line := (sp_status_line p)\<lparr>st_status_code := uint code\<rparr>\<rparr>,
                   status_line_status_code))"

definition sl_reason_phrase ::
  "u8 \<Rightarrow> status_line_parser \<Rightarrow> fault + (status_line_parser \<times> status_line_state)" where
  "sl_reason_phrase c p =
     (if sp_i p \<ge> sp_n p then Inr (p, status_line_error)
      else if c = CR then Inr (p\<lparr>sp_i := 0\<rparr>, status_line_end)
      else if \<not> is_reason_phrase c then Inr (p, status_line_error)
      else bindR (arr_set (st_reason_phrase (sp_status_line p)) (sp_i p) c) (\<lambda>r.
        Inr (p\<lparr>sp_i := sp_i p + 1,
               sp_status_line := (sp_status_line p)\<lparr>st_reason_phrase := r\<rparr>\<rparr>,
             status_line_reason_phrase)))"

definition sl_end ::
  "u8 \<Rightarrow> status_line_parser \<Rightarrow> fault + (status_line_parser \<times> status_line_state)" where
  "sl_end c p =
     (if c \<noteq> LF then Inr (p, status_line_error) else Inr (p, status_line_done))"

definition status_line_step ::
  "status_line_parser \<Rightarrow> u8 \<Rightarrow> fault + (status_line_parser \<times> status_line_state)" where
  "status_line_step p c =
     (case sp_state p of
        status_line_version \<Rightarrow> sl_version c p
      | status_line_version_major \<Rightarrow> sl_version_major c p
      | status_line_version_minor \<Rightarrow> sl_version_minor c p
      | status_line_status_code \<Rightarrow> sl_status_code c p
      | status_line_reason_phrase \<Rightarrow> sl_reason_phrase c p
      | status_line_end \<Rightarrow> sl_end c p
      | status_line_done \<Rightarrow> Inr (p, sp_state p)
      | status_line_error \<Rightarrow> Inr (p, sp_state p)
      | status_line_error_unsupported_version \<Rightarrow> Inr (p, sp_state p))"

definition status_line_parser_feed ::
  "status_line_parser \<Rightarrow> u8 \<Rightarrow> fault + status_line_parser" where
  "status_line_parser_feed p c =
     bindR (status_line_step p c) (\<lambda>(p', next). Inr (p'\<lparr>sp_state := next\<rparr>))"

lemmas status_consts =
  STATUS_CODE_LENGTH_def MAX_REASON_PHRASE_def STATUS_VERSION_LENGTH_def
  zero_status_line_def

lemmas status_defs =
  status_line_parser_feed_def status_line_step_def sl_version_def sl_version_major_def
  sl_version_minor_def sl_status_code_def sl_reason_phrase_def sl_end_def

section \<open>Invariant and memory safety\<close>

definition status_fin :: "status_line_parser \<Rightarrow> bool" where
  "status_fin p \<longleftrightarrow>
     sp_state p \<in> {status_line_done, status_line_error, status_line_error_unsupported_version}"

definition status_inv :: "status_line_parser \<Rightarrow> bool" where
  "status_inv p \<longleftrightarrow>
     length (st_reason_phrase (sp_status_line p)) = 50 \<and> 0 \<le> sp_i p \<and>
     (case sp_state p of
        status_line_version \<Rightarrow> sp_i p \<le> 4 \<and> sp_n p = 8
      | status_line_version_major \<Rightarrow> sp_i p \<le> 2 \<and> sp_n p = 2
      | status_line_version_minor \<Rightarrow> sp_i p \<le> 2 \<and> sp_n p = 2
      | status_line_status_code \<Rightarrow> sp_i p \<le> 4 \<and> sp_n p = 3
      | status_line_reason_phrase \<Rightarrow> sp_i p \<le> 50 \<and> sp_n p = 50
      | _ \<Rightarrow> True)"

lemma status_inv_init: "status_inv (status_line_parser_init p)"
  by (simp add: status_inv_def status_line_parser_init_def status_consts)

interpretation status: safe_byte_parser status_line_parser_feed status_inv status_fin
proof unfold_locales
  fix p c p'
  show "status_inv p \<Longrightarrow> status_line_parser_feed p c = Inr p' \<Longrightarrow> status_inv p'"
    by (cases "sp_state p")
      (auto simp: status_defs status_consts status_inv_def Let_def res_simps version_literal_cases
        split: if_splits)
  show "status_fin p \<Longrightarrow> status_line_parser_feed p c = Inr p"
    by (auto simp: status_defs status_fin_def)
  show "status_inv p \<Longrightarrow> \<exists>p'. status_line_parser_feed p c = Inr p'"
    by (cases "sp_state p")
      (auto simp: status_defs status_inv_def Let_def version_literal_cases)
qed

section \<open>The accepted language\<close>

text \<open>
  A status line as the parser sees it: \<open>HTTP/\<close>, the major and minor version of at most one digit
  each, three digits of status code, a reason phrase of at most 49 letters, digits and blanks.
\<close>

definition status_bytes :: "bytes \<Rightarrow> bytes \<Rightarrow> bytes \<Rightarrow> bytes \<Rightarrow> bytes" where
  "status_bytes ma mi co rs =
     http_slash @ ma @ [DOT] @ mi @ [SP] @ co @ [SP] @ rs @ [CR, LF]"

definition reason_ok :: "bytes \<Rightarrow> bool" where
  "reason_ok rs \<longleftrightarrow> (\<forall>c\<in>set rs. is_reason_phrase c)"

definition status_line_ok :: "bytes \<Rightarrow> bytes \<Rightarrow> bytes \<Rightarrow> bytes \<Rightarrow> bool" where
  "status_line_ok ma mi co rs \<longleftrightarrow>
     digits ma \<and> length ma \<le> 1 \<and> digits mi \<and> length mi \<le> 1 \<and> digits co \<and> length co = 3 \<and>
     reason_ok rs \<and> length rs \<le> 49"

text \<open>What has been read, and what has been stored, in each state.\<close>

definition status_reads :: "status_line_parser \<Rightarrow> bytes \<Rightarrow> bool" where
  "status_reads p bs \<longleftrightarrow>
     (case sp_state p of
        status_line_version \<Rightarrow> bs = take (nat (sp_i p)) http_slash
      | status_line_version_major \<Rightarrow>
          (\<exists>ma. bs = http_slash @ ma \<and> digits ma \<and> int (length ma) = sp_i p)
      | status_line_version_minor \<Rightarrow>
          (\<exists>ma mi. bs = http_slash @ ma @ [DOT] @ mi \<and> digits ma \<and> length ma \<le> 1 \<and> digits mi \<and>
             int (length mi) = sp_i p)
      | status_line_status_code \<Rightarrow>
          (\<exists>ma mi co. bs = http_slash @ ma @ [DOT] @ mi @ [SP] @ co \<and>
             digits ma \<and> length ma \<le> 1 \<and> digits mi \<and> length mi \<le> 1 \<and> digits co \<and>
             int (length co) = sp_i p \<and>
             (co \<noteq> [] \<longrightarrow> st_status_code (sp_status_line p) = int (dec_val 0 co)))
      | status_line_reason_phrase \<Rightarrow>
          (\<exists>ma mi co rs. bs = http_slash @ ma @ [DOT] @ mi @ [SP] @ co @ [SP] @ rs \<and>
             digits ma \<and> length ma \<le> 1 \<and> digits mi \<and> length mi \<le> 1 \<and> digits co \<and> length co = 3 \<and>
             reason_ok rs \<and> int (length rs) = sp_i p \<and>
             st_status_code (sp_status_line p) = int (dec_val 0 co) \<and>
             take (length rs) (st_reason_phrase (sp_status_line p)) = rs)
      | status_line_end \<Rightarrow>
          (\<exists>ma mi co rs. bs = http_slash @ ma @ [DOT] @ mi @ [SP] @ co @ [SP] @ rs @ [CR] \<and>
             status_line_ok ma mi co rs \<and>
             st_status_code (sp_status_line p) = int (dec_val 0 co) \<and>
             take (length rs) (st_reason_phrase (sp_status_line p)) = rs)
      | status_line_done \<Rightarrow>
          (\<exists>ma mi co rs rest. bs = status_bytes ma mi co rs @ rest \<and>
             status_line_ok ma mi co rs \<and>
             st_status_code (sp_status_line p) = int (dec_val 0 co) \<and>
             take (length rs) (st_reason_phrase (sp_status_line p)) = rs)
      | _ \<Rightarrow> True)"

lemma version_outcome:
  assumes "sp_state p = status_line_version" "status_inv p" "status_line_parser_feed p c = Inr q"
  shows "sp_state q = status_line_error \<or> c = version_literal ! nat (sp_i p) \<and>
    (if sp_i p = 4 then q = p\<lparr>sp_i := 0, sp_n := 2, sp_state := status_line_version_major\<rparr>
     else q = p\<lparr>sp_i := sp_i p + 1\<rparr>)"
proof -
  have "version_literal ! 4 = SLASH" by (simp add: version_literal_def)
  then show ?thesis using assms
    by (auto simp: status_defs status_inv_def Let_def version_literal_cases res_simps split: if_splits)
qed

lemma major_outcome:
  assumes "sp_state p = status_line_version_major" "status_inv p"
    "status_line_parser_feed p c = Inr q"
  shows "sp_state q = status_line_error \<or>
    sp_i p \<le> 1 \<and> c = DOT \<and> q = p\<lparr>sp_i := 0, sp_n := 2, sp_state := status_line_version_minor\<rparr> \<or>
    is_digit c \<and> sp_i q = sp_i p + 1 \<and> sp_state q = sp_state p"
  using assms by (auto simp: status_defs status_inv_def split: if_splits)

lemma minor_outcome:
  assumes "sp_state p = status_line_version_minor" "status_inv p"
    "status_line_parser_feed p c = Inr q"
  shows "sp_state q = status_line_error \<or>
    sp_i p \<le> 1 \<and> c = SP \<and> q = p\<lparr>sp_i := 0, sp_n := 3, sp_state := status_line_status_code\<rparr> \<or>
    is_digit c \<and> sp_i q = sp_i p + 1 \<and> sp_state q = sp_state p"
  using assms by (auto simp: status_defs status_consts status_inv_def split: if_splits)

lemma code_outcome:
  assumes "sp_state p = status_line_status_code" "status_inv p"
    "status_line_parser_feed p c = Inr q"
  shows "sp_state q = status_line_error \<or>
    sp_i p = 3 \<and> c = SP \<and> q = p\<lparr>sp_i := 0, sp_n := 50, sp_state := status_line_reason_phrase\<rparr> \<or>
    is_digit c \<and> sp_i p \<le> 3 \<and> sp_i q = sp_i p + 1 \<and> sp_state q = sp_state p \<and>
      st_status_code (sp_status_line q) =
        uint (if sp_i p = 0 then ucast (c - DIG0) else
           word_of_int (st_status_code (sp_status_line p)) * 10 + ucast (c - DIG0) :: u16)"
  using assms by (auto simp: status_defs status_consts status_inv_def Let_def split: if_splits)

lemma reason_outcome:
  assumes "sp_state p = status_line_reason_phrase" "status_inv p"
    "status_line_parser_feed p c = Inr q"
  shows "sp_state q = status_line_error \<or>
    sp_i p \<le> 49 \<and> c = CR \<and> q = p\<lparr>sp_i := 0, sp_state := status_line_end\<rparr> \<or>
    is_reason_phrase c \<and> sp_i p \<le> 49 \<and> sp_i q = sp_i p + 1 \<and> sp_state q = sp_state p \<and>
      sp_status_line q = (sp_status_line p)
        \<lparr>st_reason_phrase := (st_reason_phrase (sp_status_line p))[nat (sp_i p) := c]\<rparr>"
  using assms by (auto simp: status_defs status_consts status_inv_def split: if_splits)

lemma end_outcome:
  assumes "sp_state p = status_line_end" "status_line_parser_feed p c = Inr q"
  shows "sp_state q = status_line_error \<or> c = LF \<and> q = p\<lparr>sp_state := status_line_done\<rparr>"
  using assms by (auto simp: status_defs split: if_splits)

lemma code_digits:
  assumes "is_digit c" "digits co" "length co \<le> 3" "co \<noteq> [] \<longrightarrow> code = int (dec_val 0 co)"
  shows "uint (if co = [] then ucast (c - DIG0) else word_of_int code * 10 + ucast (c - DIG0) :: u16) =
     int (dec_val 0 (co @ [c]))"
proof (cases "co = []")
  case True
  then show ?thesis by (simp add: uint_ucast_8_16)
next
  case False
  have "dec_val 0 co < 10 ^ length co" using dec_val_bound [OF assms(2), of 0] by simp
  also have "\<dots> \<le> (10 :: nat) ^ 3" using assms(3) by (intro power_increasing) auto
  finally have "dec_val 0 co * 10 + unat (c - DIG0) < 65536"
    using is_digit_value [OF assms(1)] by simp
  then show ?thesis using False assms(4) by (simp add: dec_step16 dec_val_append)
qed

lemma status_reads_step:
  assumes inv: "status_inv p" and r: "status_reads p bs"
    and f: "status_line_parser_feed p c = Inr q"
  shows "status_reads q (bs @ [c])"
proof (cases "sp_state q = status_line_error")
  case True
  then show ?thesis by (simp add: status_reads_def)
next
  case ok: False
  show ?thesis
  proof (cases "sp_state p")
    case status_line_version
    then have i: "0 \<le> sp_i p" "sp_i p \<le> 4" using inv by (auto simp: status_inv_def)
    have "bs @ [c] = take (nat (sp_i p + 1)) http_slash"
      using version_outcome [OF status_line_version inv f] ok r status_line_version
        http_slash_nth [OF i] by (auto simp: status_reads_def)
    then show ?thesis
      using version_outcome [OF status_line_version inv f] ok status_line_version
      by (auto simp: status_reads_def http_slash_def split: if_splits)
  next
    case status_line_version_major
    with r obtain ma where ma: "bs = http_slash @ ma" "digits ma" "int (length ma) = sp_i p"
      by (auto simp: status_reads_def)
    from major_outcome [OF status_line_version_major inv f] ok show ?thesis
      using status_line_version_major ma
      by (auto simp: status_reads_def intro: exI [of _ ma] exI [of _ "ma @ [c]"])
  next
    case status_line_version_minor
    with r obtain ma mi where ma: "bs = http_slash @ ma @ [DOT] @ mi" "digits ma" "length ma \<le> 1"
        "digits mi" "int (length mi) = sp_i p"
      by (auto simp: status_reads_def)
    from minor_outcome [OF status_line_version_minor inv f] ok show ?thesis
    proof (elim disjE conjE)
      assume "sp_i p \<le> 1" "c = SP" "q = p\<lparr>sp_i := 0, sp_n := 3, sp_state := status_line_status_code\<rparr>"
      then have "bs @ [c] = http_slash @ ma @ [DOT] @ mi @ [SP] @ []" "length mi \<le> 1"
          "int (length ([] :: bytes)) = sp_i q" "sp_state q = status_line_status_code"
        using ma by auto
      then show ?thesis using ma unfolding status_reads_def
        by (simp only: status_line_state.case) (blast intro: digits_simps(1))
    next
      assume "is_digit c" "sp_i q = sp_i p + 1" "sp_state q = sp_state p"
      then have "bs @ [c] = http_slash @ ma @ [DOT] @ (mi @ [c])" "digits (mi @ [c])"
          "int (length (mi @ [c])) = sp_i q" "sp_state q = status_line_version_minor"
        using ma status_line_version_minor by auto
      then show ?thesis using ma(2,3) unfolding status_reads_def
        by (simp only: status_line_state.case) blast
    qed simp
  next
    case status_line_status_code
    with r obtain ma mi co where ma: "bs = http_slash @ ma @ [DOT] @ mi @ [SP] @ co" "digits ma"
        "length ma \<le> 1" "digits mi" "length mi \<le> 1" "digits co" "int (length co) = sp_i p"
        "co \<noteq> [] \<longrightarrow> st_status_code (sp_status_line p) = int (dec_val 0 co)"
      by (auto simp: status_reads_def)
    from code_outcome [OF status_line_status_code inv f] ok show ?thesis
    proof (elim disjE conjE)
      assume "sp_i p = 3" "c = SP"
        "q = p\<lparr>sp_i := 0, sp_n := 50, sp_state := status_line_reason_phrase\<rparr>"
      then have "bs @ [c] = http_slash @ ma @ [DOT] @ mi @ [SP] @ co @ [SP] @ []" "length co = 3"
          "reason_ok []" "int (length ([] :: bytes)) = sp_i q"
          "st_status_code (sp_status_line q) = int (dec_val 0 co)"
          "take (length ([] :: bytes)) (st_reason_phrase (sp_status_line q)) = []"
          "sp_state q = status_line_reason_phrase"
        using ma by (auto simp: reason_ok_def)
      then show ?thesis using ma(2-6) unfolding status_reads_def
        by (simp only: status_line_state.case) blast
    next
      assume d: "is_digit c" "sp_i p \<le> 3" "sp_i q = sp_i p + 1" "sp_state q = sp_state p"
        and v: "st_status_code (sp_status_line q) =
          uint (if sp_i p = 0 then ucast (c - DIG0) else
            word_of_int (st_status_code (sp_status_line p)) * 10 + ucast (c - DIG0) :: u16)"
      have "sp_i p = 0 \<longleftrightarrow> co = []" "length co \<le> 3" using ma(7) d(2) by auto
      with v code_digits [OF d(1) ma(6) _ ma(8)]
      have "st_status_code (sp_status_line q) = int (dec_val 0 (co @ [c]))" by simp
      moreover have "bs @ [c] = http_slash @ ma @ [DOT] @ mi @ [SP] @ (co @ [c])" "digits (co @ [c])"
          "int (length (co @ [c])) = sp_i q" "sp_state q = status_line_status_code"
        using ma d status_line_status_code by auto
      ultimately show ?thesis using ma(2-5) unfolding status_reads_def
        by (simp only: status_line_state.case) blast
    qed simp
  next
    case status_line_reason_phrase
    with r obtain ma mi co rs where ma: "bs = http_slash @ ma @ [DOT] @ mi @ [SP] @ co @ [SP] @ rs"
        "digits ma" "length ma \<le> 1" "digits mi" "length mi \<le> 1" "digits co" "length co = 3"
        "reason_ok rs" "int (length rs) = sp_i p"
        "st_status_code (sp_status_line p) = int (dec_val 0 co)"
        "take (length rs) (st_reason_phrase (sp_status_line p)) = rs"
      by (auto simp: status_reads_def)
    from reason_outcome [OF status_line_reason_phrase inv f] ok show ?thesis
    proof (elim disjE conjE)
      assume "sp_i p \<le> 49" "c = CR" "q = p\<lparr>sp_i := 0, sp_state := status_line_end\<rparr>"
      then have "bs @ [c] = http_slash @ ma @ [DOT] @ mi @ [SP] @ co @ [SP] @ rs @ [CR]"
          "status_line_ok ma mi co rs" "st_status_code (sp_status_line q) = int (dec_val 0 co)"
          "take (length rs) (st_reason_phrase (sp_status_line q)) = rs" "sp_state q = status_line_end"
        using ma by (auto simp: status_line_ok_def)
      then show ?thesis unfolding status_reads_def
        by (simp only: status_line_state.case) blast
    next
      assume d: "is_reason_phrase c" "sp_i p \<le> 49" "sp_i q = sp_i p + 1" "sp_state q = sp_state p"
        "sp_status_line q = (sp_status_line p)
          \<lparr>st_reason_phrase := (st_reason_phrase (sp_status_line p))[nat (sp_i p) := c]\<rparr>"
      have l: "length rs < length (st_reason_phrase (sp_status_line p))" "nat (sp_i p) = length rs"
        using inv d(2) ma(9) by (auto simp: status_inv_def)
      then have "take (Suc (length rs)) ((st_reason_phrase (sp_status_line p))[length rs := c]) =
          rs @ [c]"
        using ma(11) by (simp add: take_Suc_conv_app_nth)
      moreover have "reason_ok (rs @ [c])" using ma(8) d(1) by (auto simp: reason_ok_def)
      moreover have "bs @ [c] = http_slash @ ma @ [DOT] @ mi @ [SP] @ co @ [SP] @ (rs @ [c])"
          "int (length (rs @ [c])) = sp_i q"
          "st_status_code (sp_status_line q) = int (dec_val 0 co)"
          "take (length (rs @ [c])) (st_reason_phrase (sp_status_line q)) = rs @ [c]"
        using ma d l calculation status_line_reason_phrase by auto
      moreover have st: "sp_state q = status_line_reason_phrase"
        using d status_line_reason_phrase by simp
      ultimately show ?thesis using ma(2-7)
        unfolding status_reads_def st status_line_state.case by (intro exI conjI)
    qed simp
  next
    case status_line_end
    with r obtain ma mi co rs where
        "bs = http_slash @ ma @ [DOT] @ mi @ [SP] @ co @ [SP] @ rs @ [CR]"
        "status_line_ok ma mi co rs" "st_status_code (sp_status_line p) = int (dec_val 0 co)"
        "take (length rs) (st_reason_phrase (sp_status_line p)) = rs"
      by (auto simp: status_reads_def)
    with end_outcome [OF status_line_end f] ok
    have "bs @ [c] = status_bytes ma mi co rs @ []" "status_line_ok ma mi co rs"
        "st_status_code (sp_status_line q) = int (dec_val 0 co)"
        "take (length rs) (st_reason_phrase (sp_status_line q)) = rs" "sp_state q = status_line_done"
      by (auto simp: status_bytes_def)
    then show ?thesis unfolding status_reads_def
      by (simp only: status_line_state.case) blast
  next
    case status_line_done
    then have "q = p" using f by (auto simp: status_defs)
    then show ?thesis using r status_line_done by (fastforce simp: status_reads_def)
  next
    case status_line_error
    then show ?thesis using f ok by (auto simp: status_defs)
  next
    case status_line_error_unsupported_version
    then show ?thesis using f by (auto simp: status_defs status_reads_def)
  qed
qed

lemma status_reads_run:
  "run status_line_parser_feed (status_line_parser_init p) bs = Inr q \<Longrightarrow> status_reads q bs"
proof (induction bs arbitrary: q rule: rev_induct)
  case Nil
  then show ?case by (auto simp: status_line_parser_init_def status_reads_def)
next
  case (snoc c bs)
  then obtain q1 where q1: "run status_line_parser_feed (status_line_parser_init p) bs = Inr q1"
      "status_line_parser_feed q1 c = Inr q"
    by (auto simp: run_snoc bindR_eq_Inr)
  then have "status_inv q1" using status.run_inv [OF status_inv_init] by blast
  then show ?case using snoc.IH [OF q1(1)] q1(2) by (rule status_reads_step)
qed

text \<open>Completeness: the pieces of a well-formed line, one after the other.\<close>

lemma run_http_slash:
  "run status_line_parser_feed (status_line_parser_init p) http_slash =
   Inr ((status_line_parser_init p)\<lparr>sp_i := 0, sp_n := 2, sp_state := status_line_version_major\<rparr>)"
  by (simp add: http_slash_def status_line_parser_init_def status_defs status_consts
      version_literal_def)

lemma run_major:
  assumes "status_inv p" "sp_state p = status_line_version_major" "sp_i p = 0" "digits ma" "length ma \<le> 1"
  shows "\<exists>q. run status_line_parser_feed p (ma @ [DOT]) = Inr q \<and> status_inv q \<and>
     sp_state q = status_line_version_minor \<and> sp_i q = 0"
proof -
  have "ma = [] \<or> (\<exists>d. ma = [d] \<and> is_digit d)" using assms(4,5) by (cases ma) auto
  then show ?thesis using assms(1-3)
    by (auto simp: status_defs status_inv_def Let_def)
qed

lemma run_minor:
  assumes "status_inv p" "sp_state p = status_line_version_minor" "sp_i p = 0" "digits mi" "length mi \<le> 1"
  shows "\<exists>q. run status_line_parser_feed p (mi @ [SP]) = Inr q \<and> status_inv q \<and>
     sp_state q = status_line_status_code \<and> sp_i q = 0"
proof -
  have "mi = [] \<or> (\<exists>d. mi = [d] \<and> is_digit d)" using assms(4,5) by (cases mi) auto
  then show ?thesis using assms(1-3)
    by (auto simp: status_defs status_inv_def Let_def status_consts)
qed

lemma run_code:
  assumes "status_inv p" "sp_state p = status_line_status_code" "sp_i p = 0" "digits co" "length co = 3"
  shows "\<exists>q. run status_line_parser_feed p (co @ [SP]) = Inr q \<and> status_inv q \<and>
     sp_state q = status_line_reason_phrase \<and> sp_i q = 0"
proof -
  obtain a b d where "co = [a, b, d]"
    using assms(5) by (auto simp: numeral_3_eq_3 length_Suc_conv)
  moreover have "a \<noteq> SP" "b \<noteq> SP" "d \<noteq> SP" using assms(4) calculation by auto
  ultimately show ?thesis using assms
    by (simp add: status_defs status_inv_def Let_def status_consts)
qed

lemma run_reason:
  "status_inv p \<Longrightarrow> sp_state p = status_line_reason_phrase \<Longrightarrow> reason_ok rs \<Longrightarrow>
   sp_i p + int (length rs) \<le> 49 \<Longrightarrow>
   \<exists>q. run status_line_parser_feed p (rs @ [CR, LF]) = Inr q \<and> sp_state q = status_line_done"
proof (induction rs arbitrary: p)
  case Nil
  then show ?case by (simp add: status_defs status_inv_def)
next
  case (Cons c rs)
  have c: "is_reason_phrase c" "c \<noteq> CR"
    using Cons.prems(3) by (auto simp: reason_ok_def char_class_defs)
  let ?q = "p\<lparr>sp_i := sp_i p + 1, sp_status_line := (sp_status_line p)
    \<lparr>st_reason_phrase := (st_reason_phrase (sp_status_line p))[nat (sp_i p) := c]\<rparr>,
    sp_state := status_line_reason_phrase\<rparr>"
  have 1: "status_line_parser_feed p c = Inr ?q"
    using Cons.prems c by (simp add: status_defs status_inv_def)
  have "\<exists>q. run status_line_parser_feed ?q (rs @ [CR, LF]) = Inr q \<and> sp_state q = status_line_done"
    using Cons.prems by (intro Cons.IH) (auto simp: status_inv_def reason_ok_def)
  with 1 show ?case by simp
qed

lemma run_status_line:
  assumes "status_line_ok ma mi co rs"
  shows "\<exists>q. run status_line_parser_feed (status_line_parser_init p) (status_bytes ma mi co rs) = Inr q \<and>
     sp_state q = status_line_done"
proof -
  let ?p = "(status_line_parser_init p)\<lparr>sp_i := 0, sp_n := 2, sp_state := status_line_version_major\<rparr>"
  have ok: "digits ma" "length ma \<le> 1" "digits mi" "length mi \<le> 1" "digits co" "length co = 3"
    "reason_ok rs" "length rs \<le> 49" using assms by (auto simp: status_line_ok_def)
  have "status_inv ?p"
    using status_inv_init [of p] by (simp add: status_inv_def)
  then obtain q1 where q1: "run status_line_parser_feed ?p (ma @ [DOT]) = Inr q1" "status_inv q1"
      "sp_state q1 = status_line_version_minor" "sp_i q1 = 0"
    using run_major [of ?p ma] ok by auto
  obtain q2 where q2: "run status_line_parser_feed q1 (mi @ [SP]) = Inr q2" "status_inv q2"
      "sp_state q2 = status_line_status_code" "sp_i q2 = 0"
    using run_minor [OF q1(2-4)] ok by auto
  obtain q3 where q3: "run status_line_parser_feed q2 (co @ [SP]) = Inr q3" "status_inv q3"
      "sp_state q3 = status_line_reason_phrase" "sp_i q3 = 0"
    using run_code [OF q2(2-4)] ok by auto
  obtain q where q: "run status_line_parser_feed q3 (rs @ [CR, LF]) = Inr q"
      "sp_state q = status_line_done"
    using run_reason [OF q3(2,3)] ok q3(4) by auto
  have "status_bytes ma mi co rs = http_slash @ (ma @ [DOT]) @ (mi @ [SP]) @ (co @ [SP]) @ rs @ [CR, LF]"
    by (simp add: status_bytes_def)
  then show ?thesis
    using run_then [OF run_http_slash run_then [OF q1(1) run_then [OF q2(1) run_then [OF q3(1) q(1)]]]]
      q(2) by metis
qed

text \<open>A line determines its pieces.\<close>

lemma status_bytes_unique:
  assumes "status_line_ok ma mi co rs" "status_line_ok ma' mi' co' rs'"
    and "status_bytes ma mi co rs = status_bytes ma' mi' co' rs' @ rest"
  shows "ma = ma' \<and> mi = mi' \<and> co = co' \<and> rs = rs' \<and> rest = []"
proof -
  note d = assms(1,2) [unfolded status_line_ok_def digits_def reason_ok_def]
  have nr: "\<not> is_reason_phrase CR" by (simp add: char_class_defs)
  have 1: "ma @ DOT # mi @ SP # co @ SP # rs @ CR # [LF] =
      ma' @ DOT # mi' @ SP # co' @ SP # rs' @ CR # LF # rest"
    using assms(3) by (simp add: status_bytes_def)
  from split_unique [OF 1, of is_digit] d
  have 2: "ma = ma'" "mi @ SP # co @ SP # rs @ CR # [LF] = mi' @ SP # co' @ SP # rs' @ CR # LF # rest"
    by auto
  from split_unique [OF 2(2), of is_digit] d
  have 3: "mi = mi'" "co @ SP # rs @ CR # [LF] = co' @ SP # rs' @ CR # LF # rest" by auto
  from split_unique [OF 3(2), of is_digit] d
  have 4: "co = co'" "rs @ CR # [LF] = rs' @ CR # LF # rest" by auto
  from split_unique [OF 4(2), of is_reason_phrase] d nr show ?thesis using 2 3 4 by auto
qed

text \<open>
  the status line parser accepts exactly the lines
  \<open>HTTP/D.D SP DDD SP reason CR LF\<close> in which each version number has at most one digit, the code
  has three digits and the reason phrase is at most 49 letters, digits and blanks.
\<close>

theorem status_line_accepts:
  "(\<exists>q. run status_line_parser_feed (status_line_parser_init p) bs = Inr q \<and>
        sp_state q = status_line_done) \<longleftrightarrow>
   (\<exists>ma mi co rs rest. status_line_ok ma mi co rs \<and> bs = status_bytes ma mi co rs @ rest)"
proof
  assume "\<exists>q. run status_line_parser_feed (status_line_parser_init p) bs = Inr q \<and>
    sp_state q = status_line_done"
  then obtain q where "run status_line_parser_feed (status_line_parser_init p) bs = Inr q"
      "sp_state q = status_line_done" by blast
  with status_reads_run [OF this(1)]
  show "\<exists>ma mi co rs rest. status_line_ok ma mi co rs \<and> bs = status_bytes ma mi co rs @ rest"
    unfolding status_reads_def by (simp only: status_line_state.case) blast
next
  assume "\<exists>ma mi co rs rest. status_line_ok ma mi co rs \<and> bs = status_bytes ma mi co rs @ rest"
  then obtain ma mi co rs rest where ok: "status_line_ok ma mi co rs"
      and bs: "bs = status_bytes ma mi co rs @ rest" by blast
  obtain q where "run status_line_parser_feed (status_line_parser_init p) (status_bytes ma mi co rs) = Inr q"
      "sp_state q = status_line_done" using run_status_line [OF ok] by blast
  then show "\<exists>q. run status_line_parser_feed (status_line_parser_init p) bs = Inr q \<and>
      sp_state q = status_line_done"
    using status.run_prefix_fin bs by (metis status_fin_def insertCI)
qed

text \<open>
  on such a line the parser stores the number the three digits denote as the status code and
  the reason phrase at the start of its 50-byte array.
\<close>

theorem status_line_values:
  assumes "status_line_ok ma mi co rs"
  shows "\<exists>q. run status_line_parser_feed (status_line_parser_init p) (status_bytes ma mi co rs) = Inr q \<and>
     sp_state q = status_line_done \<and>
     st_status_code (sp_status_line q) = int (dec_val 0 co) \<and>
     take (length rs) (st_reason_phrase (sp_status_line q)) = rs"
proof -
  obtain q where q: "run status_line_parser_feed (status_line_parser_init p) (status_bytes ma mi co rs) = Inr q"
      "sp_state q = status_line_done" using run_status_line [OF assms] by blast
  from status_reads_run [OF q(1)] q(2) obtain ma' mi' co' rs' rest where
      "status_bytes ma mi co rs = status_bytes ma' mi' co' rs' @ rest" "status_line_ok ma' mi' co' rs'"
      "st_status_code (sp_status_line q) = int (dec_val 0 co')"
      "take (length rs') (st_reason_phrase (sp_status_line q)) = rs'"
    by (auto simp: status_reads_def)
  with status_bytes_unique [OF assms] q show ?thesis by blast
qed

definition blank_status_parser :: status_line_parser where
  "blank_status_parser =
     \<lparr>sp_status_line = zero_status_line, sp_state = status_line_error, sp_i = 5, sp_n = 1\<rparr>"

theorem status_line_values_witness:
  "\<exists>q. run status_line_parser_feed (status_line_parser_init blank_status_parser)
       [72, 84, 84, 80, 47, 49, 46, 49, 32, 50, 48, 52, 32, 79, 75, 13, 10] = Inr q \<and>
     sp_state q = status_line_done \<and> st_status_code (sp_status_line q) = 204 \<and>
     take 2 (st_reason_phrase (sp_status_line q)) = [79, 75]"
proof -
  have "status_line_ok [49] [49] [50, 48, 52] [79, 75]"
    by (simp add: status_line_ok_def reason_ok_def char_class_defs)
  moreover have "int (dec_val 0 [50, 48, 52]) = 204" "length [79 :: u8, 75] = 2" by simp_all
  ultimately show ?thesis
    using status_line_values [of "[49]" "[49]" "[50, 48, 52]" "[79, 75]" blank_status_parser]
    by (simp only: status_bytes_def http_slash_def append.simps)
qed

end
