(* ===== verification/Metrics.thy ===== *)
theory Metrics
  imports Prelude
begin

text \<open>
  The counters of \<^verbatim>\<open>metrics/metrics.c\<close>. The static structure is a record passed explicitly; the
  prefix \<open>mt_\<close> tells its fields from those of other components.
\<close>

record proxy_metrics =
  mt_historical_connections :: u64
  mt_concurrent_connections :: u64
  mt_bytes_received :: u64
  mt_bytes_sent :: u64
  mt_failed_connections :: u64

definition UINT64_MAX :: u64 where "UINT64_MAX = - 1"

definition init_metrics :: proxy_metrics where
  "init_metrics =
     \<lparr>mt_historical_connections = 0, mt_concurrent_connections = 0, mt_bytes_received = 0,
      mt_bytes_sent = 0, mt_failed_connections = 0\<rparr>"

definition increase_bytes_received :: "u64 \<Rightarrow> proxy_metrics \<Rightarrow> proxy_metrics" where
  "increase_bytes_received bytes m =
     (if mt_bytes_received m < UINT64_MAX
      then m\<lparr>mt_bytes_received := mt_bytes_received m + bytes\<rparr> else m)"

definition increase_bytes_sent :: "u64 \<Rightarrow> proxy_metrics \<Rightarrow> proxy_metrics" where
  "increase_bytes_sent bytes m =
     (if mt_bytes_sent m < UINT64_MAX
      then m\<lparr>mt_bytes_sent := mt_bytes_sent m + bytes\<rparr> else m)"

definition increase_failed_connections :: "proxy_metrics \<Rightarrow> proxy_metrics" where
  "increase_failed_connections m =
     (if mt_failed_connections m < UINT64_MAX
      then m\<lparr>mt_failed_connections := mt_failed_connections m + 1\<rparr> else m)"

definition register_new_connection :: "proxy_metrics \<Rightarrow> proxy_metrics" where
  "register_new_connection m =
     (let m = (if mt_historical_connections m < UINT64_MAX
               then m\<lparr>mt_historical_connections := mt_historical_connections m + 1\<rparr> else m)
      in if mt_concurrent_connections m < UINT64_MAX
         then m\<lparr>mt_concurrent_connections := mt_concurrent_connections m + 1\<rparr> else m)"

definition unregister_connection :: "proxy_metrics \<Rightarrow> proxy_metrics" where
  "unregister_connection m =
     (if 0 < mt_concurrent_connections m
      then m\<lparr>mt_concurrent_connections := mt_concurrent_connections m - 1\<rparr> else m)"

definition get_historical_connections :: "proxy_metrics \<Rightarrow> u64" where
  "get_historical_connections m = mt_historical_connections m"

definition get_concurrent_connections :: "proxy_metrics \<Rightarrow> u64" where
  "get_concurrent_connections m = mt_concurrent_connections m"

definition get_failed_connections :: "proxy_metrics \<Rightarrow> u64" where
  "get_failed_connections m = mt_failed_connections m"

definition get_total_bytes_transferred :: "proxy_metrics \<Rightarrow> u64" where
  "get_total_bytes_transferred m = mt_bytes_received m + mt_bytes_sent m"

definition get_total_bytes_sent :: "proxy_metrics \<Rightarrow> u64" where
  "get_total_bytes_sent m = mt_bytes_sent m"

definition get_total_bytes_received :: "proxy_metrics \<Rightarrow> u64" where
  "get_total_bytes_received m = mt_bytes_received m"

lemmas metrics_defs =
  increase_bytes_received_def increase_bytes_sent_def increase_failed_connections_def
  register_new_connection_def unregister_connection_def UINT64_MAX_def Let_def

section \<open>What the counters count\<close>

text \<open>
  The events the other components report. \<open>abs_metrics\<close> replays them on unbounded counters: the
  specification of the component.
\<close>

datatype metrics_event =
    BytesReceived u64
  | BytesSent u64
  | Failed
  | Registered
  | Unregistered

fun metrics_step :: "metrics_event \<Rightarrow> proxy_metrics \<Rightarrow> proxy_metrics" where
  "metrics_step (BytesReceived n) m = increase_bytes_received n m"
| "metrics_step (BytesSent n) m = increase_bytes_sent n m"
| "metrics_step Failed m = increase_failed_connections m"
| "metrics_step Registered m = register_new_connection m"
| "metrics_step Unregistered m = unregister_connection m"

record abs_metrics =
  am_historical :: nat
  am_concurrent :: nat
  am_received :: nat
  am_sent :: nat
  am_failed :: nat

fun abs_step :: "metrics_event \<Rightarrow> abs_metrics \<Rightarrow> abs_metrics" where
  "abs_step (BytesReceived n) a = a\<lparr>am_received := am_received a + unat n\<rparr>"
| "abs_step (BytesSent n) a = a\<lparr>am_sent := am_sent a + unat n\<rparr>"
| "abs_step Failed a = a\<lparr>am_failed := am_failed a + 1\<rparr>"
| "abs_step Registered a =
     a\<lparr>am_historical := am_historical a + 1, am_concurrent := am_concurrent a + 1\<rparr>"
| "abs_step Unregistered a = a\<lparr>am_concurrent := am_concurrent a - 1\<rparr>"

definition metrics_abs :: "proxy_metrics \<Rightarrow> abs_metrics" where
  "metrics_abs m =
     \<lparr>am_historical = unat (mt_historical_connections m),
      am_concurrent = unat (mt_concurrent_connections m),
      am_received = unat (mt_bytes_received m), am_sent = unat (mt_bytes_sent m),
      am_failed = unat (mt_failed_connections m)\<rparr>"

text \<open>No counter of an abstract state has reached the largest value of a 64-bit word.\<close>

definition abs_fits :: "abs_metrics \<Rightarrow> bool" where
  "abs_fits a \<longleftrightarrow>
     am_historical a < 2 ^ 64 \<and> am_concurrent a < 2 ^ 64 \<and> am_received a < 2 ^ 64 \<and>
     am_sent a < 2 ^ 64 \<and> am_failed a < 2 ^ 64"

lemma less_max_iff: "x < UINT64_MAX \<longleftrightarrow> unat x + 1 < 2 ^ 64"
proof -
  have "unat (UINT64_MAX :: u64) = 2 ^ 64 - 1" by (simp add: UINT64_MAX_def unsigned_minus_1_eq_mask mask_eq_exp_minus_1)
  then show ?thesis by (simp add: word_less_nat_alt)
qed

lemma unat_add64: "unat x + unat y < 2 ^ 64 \<Longrightarrow> unat (x + y :: u64) = unat x + unat y"
  by (simp add: unat_word_ariths)

lemma metrics_step_refines:
  assumes "abs_fits (abs_step e (metrics_abs m))"
  shows "metrics_abs (metrics_step e m) = abs_step e (metrics_abs m)"
proof (cases e)
  case (BytesReceived n)
  then have "unat (mt_bytes_received m) + unat n < 2 ^ 64"
    using assms by (simp add: abs_fits_def metrics_abs_def)
  then show ?thesis using BytesReceived unat_add64 [of "mt_bytes_received m" n]
    by (cases "unat n") (auto simp: metrics_abs_def increase_bytes_received_def less_max_iff unat_eq_zero)
next
  case (BytesSent n)
  then have "unat (mt_bytes_sent m) + unat n < 2 ^ 64"
    using assms by (simp add: abs_fits_def metrics_abs_def)
  then show ?thesis using BytesSent unat_add64 [of "mt_bytes_sent m" n]
    by (cases "unat n") (auto simp: metrics_abs_def increase_bytes_sent_def less_max_iff unat_eq_zero)
next
  case Failed
  then show ?thesis using assms unat_add64 [of "mt_failed_connections m" 1]
    by (simp add: metrics_abs_def increase_failed_connections_def less_max_iff abs_fits_def)
next
  case Registered
  then show ?thesis
    using assms unat_add64 [of "mt_historical_connections m" 1] unat_add64 [of "mt_concurrent_connections m" 1]
    by (simp add: metrics_abs_def register_new_connection_def less_max_iff abs_fits_def Let_def)
next
  case Unregistered
  have "0 < x \<Longrightarrow> unat (x - 1) = unat x - 1" for x :: u64
    by (metis unat_minus_one word_neq_0_conv)
  then show ?thesis using Unregistered
    by (auto simp: metrics_abs_def unregister_connection_def unat_eq_zero word_neq_0_conv [symmetric])
qed

section \<open>Properties\<close>

text \<open>
  The metrics count what they are told to count. For every sequence of events along which no
  unbounded counter reaches 2 to the 64, the five counters of the code are the unbounded ones; a
  connection that ends when none is counted leaves the number of concurrent connections at 0.
\<close>

theorem metrics_refine:
  assumes "\<forall>k\<le>length es. abs_fits (fold abs_step (take k es) (metrics_abs m))"
  shows "metrics_abs (fold metrics_step es m) = fold abs_step es (metrics_abs m)"
  using assms
proof (induction es rule: rev_induct)
  case (snoc e es)
  have "metrics_abs (fold metrics_step es m) = fold abs_step es (metrics_abs m)"
  proof (rule snoc.IH, intro allI impI)
    fix k assume "k \<le> length es"
    then show "abs_fits (fold abs_step (take k es) (metrics_abs m))"
      using snoc.prems [rule_format, of k] by simp
  qed
  moreover have "abs_fits (abs_step e (fold abs_step es (metrics_abs m)))"
    using snoc.prems [rule_format, of "Suc (length es)"] by simp
  ultimately show ?case using metrics_step_refines [of e "fold metrics_step es m"] by simp
qed simp

theorem metrics_refine_witness:
  "metrics_abs (fold metrics_step [Registered, BytesSent 5, Unregistered, Unregistered] init_metrics) =
     \<lparr>am_historical = 1, am_concurrent = 0, am_received = 0, am_sent = 5, am_failed = 0\<rparr>"
proof -
  let ?es = "[Registered, BytesSent 5, Unregistered, Unregistered]"
  have m: "metrics_abs init_metrics =
      \<lparr>am_historical = 0, am_concurrent = 0, am_received = 0, am_sent = 0, am_failed = 0\<rparr>"
    by (simp add: metrics_abs_def init_metrics_def)
  have "\<forall>k\<le>length ?es. abs_fits (fold abs_step (take k ?es) (metrics_abs init_metrics))"
    by (auto simp: m abs_fits_def le_Suc_eq)
  from metrics_refine [OF this] show ?thesis by (simp add: m)
qed

lemma mod_wrap: "(a :: nat) < N \<Longrightarrow> b < N \<Longrightarrow> N \<le> a + b \<Longrightarrow> (a + b) mod N = a + b - N"
  by (simp add: mod_if)

lemma len64: "LENGTH(64) = 64"
  by simp

text \<open>
  The guard \<^verbatim>\<open>< UINT64_MAX\<close> does not keep the byte counters from wrapping: when the sum passes
  the largest 64-bit value, the counter ends below both the old value and the bytes added.
\<close>

theorem byte_counters_wrap:
  assumes "mt_bytes_sent m < UINT64_MAX" "2 ^ 64 \<le> unat (mt_bytes_sent m) + unat n"
  shows "get_total_bytes_sent (increase_bytes_sent n m) < get_total_bytes_sent m"
proof -
  have "unat (mt_bytes_sent m + n) = unat (mt_bytes_sent m) + unat n - 2 ^ 64"
    using mod_wrap [OF unsigned_less unsigned_less, of "mt_bytes_sent m" n] assms(2)
    by (simp only: unat_word_ariths(1) len64)
  moreover have "unat n < 2 ^ 64" using unsigned_less [of n] by simp
  ultimately have "unat (mt_bytes_sent m + n) < unat (mt_bytes_sent m)" using assms(2) by linarith
  then show ?thesis using assms(1)
    by (simp add: get_total_bytes_sent_def increase_bytes_sent_def word_less_nat_alt)
qed

theorem byte_counters_wrap_witness:
  "get_total_bytes_sent (increase_bytes_sent 10 (init_metrics\<lparr>mt_bytes_sent := - 2\<rparr>)) <
   get_total_bytes_sent (init_metrics\<lparr>mt_bytes_sent := - 2\<rparr>)"
proof -
  have "unat (- 2 :: u64) = 2 ^ 64 - 2" by simp
  then show ?thesis
    by (intro byte_counters_wrap) (simp_all add: less_max_iff)
qed

end
