(* ===== verification/Management.thy ===== *)
theory Management
  imports Percy Metrics
begin

text \<open>
  The management service of \<^verbatim>\<open>management/management.c\<close>: one UDP datagram in, the replies it causes
  out. \<open>server\<close> holds what the service reads and changes: its own static structure (parser, receive
  buffer, passphrase), the metrics, and the three settings that live in other files (buffer size in
  \<^verbatim>\<open>connections_manager.c\<close>, sniffer flag in \<^verbatim>\<open>httpd.c\<close>, timeout in \<^verbatim>\<open>selector.c\<close>). The sockets are
  outside of the model: a datagram is an argument (\<open>None\<close> when \<^verbatim>\<open>recvfrom\<close> fails) and the datagrams
  handed to \<^verbatim>\<open>sendto\<close> are returned in order.
\<close>

definition MAX_MSG_LEN :: nat where "MAX_MSG_LEN = 128"
definition SUCCESS_STATUS :: u8 where "SUCCESS_STATUS = 0"
definition UNAUTH_STATUS :: u8 where "UNAUTH_STATUS = 1"
definition UNSUCCESFUL_STATUS :: u8 where "UNSUCCESFUL_STATUS = 2"
definition PERCY_RESPONSE_SIZE :: nat where "PERCY_RESPONSE_SIZE = 11"
definition PERCY_VERSION :: u8 where "PERCY_VERSION = 1"
definition PERCY_RESV :: u8 where "PERCY_RESV = 0"
definition RETRIEVAL :: u8 where "RETRIEVAL = 0"
definition MODIFICATION :: u8 where "MODIFICATION = 1"

record management =
  mg_requestParser :: percy_request_parser
  mg_buffer :: bytes
  mg_passphrase :: bytes

record server =
  sv_management :: management
  sv_metrics :: proxy_metrics
  sv_buffers_size :: u64
  sv_disectors_enabled :: bool
  sv_selector_timeout :: int

section \<open>The methods\<close>

definition get_buffer_size :: "server \<Rightarrow> u64" where
  "get_buffer_size s = sv_buffers_size s"

definition set_buffer_size :: "u16 \<Rightarrow> server \<Rightarrow> server" where
  "set_buffer_size v s = s\<lparr>sv_buffers_size := ucast v\<rparr>"

definition get_select_timeout :: "server \<Rightarrow> u64" where
  "get_select_timeout s = word_of_int (sv_selector_timeout s)"

definition set_select_timeout :: "u16 \<Rightarrow> server \<Rightarrow> server" where
  "set_select_timeout v s = s\<lparr>sv_selector_timeout := uint v\<rparr>"

definition set_disector_value :: "u16 \<Rightarrow> server \<Rightarrow> server" where
  "set_disector_value v s = s\<lparr>sv_disectors_enabled := (v \<noteq> 0)\<rparr>"

definition set_sniffer_mode :: "u16 \<Rightarrow> server \<Rightarrow> server" where
  "set_sniffer_mode v s = set_disector_value v s"

definition retrieval_methods :: "(server \<Rightarrow> u64) list" where
  "retrieval_methods =
     [\<lambda>s. get_historical_connections (sv_metrics s),
      \<lambda>s. get_concurrent_connections (sv_metrics s),
      \<lambda>s. get_total_bytes_sent (sv_metrics s),
      \<lambda>s. get_total_bytes_received (sv_metrics s),
      \<lambda>s. get_total_bytes_transferred (sv_metrics s),
      get_buffer_size,
      get_select_timeout,
      \<lambda>s. get_failed_connections (sv_metrics s)]"

record modification_method =
  mm_min :: u16
  mm_max :: u16
  mm_method :: "u16 \<Rightarrow> server \<Rightarrow> server"

definition modification_methods :: "modification_method list" where
  "modification_methods =
     [\<lparr>mm_min = 0, mm_max = 1, mm_method = set_sniffer_mode\<rparr>,
      \<lparr>mm_min = 1024, mm_max = 8192, mm_method = set_buffer_size\<rparr>,
      \<lparr>mm_min = 4, mm_max = 12, mm_method = set_select_timeout\<rparr>]"

definition validate_input_value :: "u8 \<Rightarrow> u16 \<Rightarrow> fault + bool" where
  "validate_input_value method value =
     bindR (arr_get modification_methods (uint method)) (\<lambda>m.
     Inr (value \<le> mm_max m \<and> mm_min m \<le> value))"

section \<open>Replies\<close>

definition serialize :: "u64 \<Rightarrow> bytes" where
  "serialize v =
     [ucast (drop_bit 56 v), ucast (drop_bit 48 v), ucast (drop_bit 40 v), ucast (drop_bit 32 v),
      ucast (drop_bit 24 v), ucast (drop_bit 16 v), ucast (drop_bit 8 v), ucast v]"

definition build_reply :: "u8 \<Rightarrow> u8 \<Rightarrow> u8 \<Rightarrow> u64 \<Rightarrow> bytes" where
  "build_reply ver status resv value = [ver, status, resv] @ serialize value"

definition send_reply :: "u8 \<Rightarrow> u64 \<Rightarrow> bytes list" where
  "send_reply status value = [build_reply PERCY_VERSION status PERCY_RESV value]"

section \<open>The handler\<close>

text \<open>
  \<open>parse_loop buf p i n\<close> is the loop of \<^verbatim>\<open>parse_request\<close> from index \<open>i\<close> with \<open>n\<close> rounds left.
\<close>

fun parse_loop ::
  "bytes \<Rightarrow> percy_request_parser \<Rightarrow> nat \<Rightarrow> nat \<Rightarrow> fault + (percy_request_parser \<times> bool)" where
  "parse_loop buf p i 0 = Inr (p, False)"
| "parse_loop buf p i (Suc n) =
     bindR (arr_get buf (int i)) (\<lambda>c.
     bindR (percy_request_parser_feed p c) (\<lambda>p'.
       if qp_state p' = percy_request_error then Inr (p', False)
       else if qp_state p' = percy_request_done then Inr (p', True)
       else parse_loop buf p' (Suc i) n))"

definition parse_request :: "management \<Rightarrow> fault + (management \<times> bool)" where
  "parse_request m =
     bindR (parse_loop (mg_buffer m) (mg_requestParser m) 0 PERCY_REQUEST_SIZE) (\<lambda>(p, ok).
     Inr (m\<lparr>mg_requestParser := p\<rparr>, ok))"

definition validate_passphrase :: "management \<Rightarrow> bool" where
  "validate_passphrase m \<longleftrightarrow>
     take PASS_PHRASE_LEN (mg_passphrase m) =
     take PASS_PHRASE_LEN (pq_passphrase (qp_request (mg_requestParser m)))"

text \<open>
  The body of the handler once the request has been read. The \<^verbatim>\<open>return\<close> statements inside the
  switch are the branches without the last reply; every other path falls through to it.
\<close>

definition answer_request :: "server \<Rightarrow> fault + (server \<times> bytes list)" where
  "answer_request s =
     (let r = qp_request (mg_requestParser (sv_management s));
          method = pq_method r; value = pq_value r;
          last = send_reply UNSUCCESFUL_STATUS 0
      in if pq_type r = RETRIEVAL
         then if uint method \<le> int (length retrieval_methods) - 1
              then bindR (arr_get retrieval_methods (uint method)) (\<lambda>f.
                   Inr (s, send_reply SUCCESS_STATUS (f s)))
              else Inr (s, last)
         else if pq_type r = MODIFICATION
         then if uint method \<le> int (length modification_methods) - 1
              then bindR (validate_input_value method value) (\<lambda>ok.
                   if ok
                   then bindR (arr_get modification_methods (uint method)) (\<lambda>m.
                        Inr (mm_method m value s, send_reply SUCCESS_STATUS 0))
                   else Inr (s, send_reply UNSUCCESFUL_STATUS 0))
              else Inr (s, last)
         else Inr (s, last))"

definition management_read :: "server \<Rightarrow> bytes option \<Rightarrow> fault + (server \<times> bytes list)" where
  "management_read s datagram =
     (let m = sv_management s;
          received = (case datagram of None \<Rightarrow> [] | Some d \<Rightarrow> take MAX_MSG_LEN d);
          m = m\<lparr>mg_requestParser := percy_request_parser_init (mg_requestParser m),
                mg_buffer := overwrite (mg_buffer m) 0 received\<rparr>
      in bindR (parse_request m) (\<lambda>(m, parsed).
           let s = s\<lparr>sv_management := m\<rparr>; last = send_reply UNSUCCESFUL_STATUS 0
           in if parsed
              then if \<not> validate_passphrase m
                   then Inr (s, send_reply UNAUTH_STATUS 0 @ last)
                   else answer_request s
              else Inr (s, last)))"

text \<open>A sequence of datagrams, and every reply they cause.\<close>

fun serve_all :: "server \<Rightarrow> bytes option list \<Rightarrow> fault + (server \<times> bytes list)" where
  "serve_all s [] = Inr (s, [])"
| "serve_all s (d # ds) =
     bindR (management_read s d) (\<lambda>(s', rs).
     bindR (serve_all s' ds) (\<lambda>(s'', rs'). Inr (s'', rs @ rs')))"

text \<open>\<^verbatim>\<open>init_management\<close> once the sockets are open, with the defaults of \<^verbatim>\<open>main\<close>.\<close>

definition default_passphrase :: bytes where
  "default_passphrase = [49, 50, 51, 52, 53, 54, 0]"

definition init_server :: "percy_request_parser \<Rightarrow> server" where
  "init_server p =
     \<lparr>sv_management = \<lparr>mg_requestParser = p, mg_buffer = replicate 128 0,
                       mg_passphrase = default_passphrase\<rparr>,
      sv_metrics = init_metrics, sv_buffers_size = 8192, sv_disectors_enabled = True,
      sv_selector_timeout = 8\<rparr>"

section \<open>The loop of \<open>parse_request\<close>\<close>

lemma parse_loop_drive:
  "\<not> percy_request_fin p \<Longrightarrow> i + n \<le> length buf \<Longrightarrow>
   parse_loop buf p i n =
     bindR (drive percy_request_parser_feed percy_request_fin p (take n (drop i buf)))
       (\<lambda>(q, _). Inr (q, qp_state q = percy_request_done))"
proof (induction n arbitrary: p i)
  case 0
  then show ?case by (simp add: percy_request_fin_def)
next
  case (Suc n)
  then have t: "take (Suc n) (drop i buf) = buf ! i # take n (drop (Suc i) buf)"
    by (simp add: Cons_nth_drop_Suc [symmetric])
  have "parse_loop buf p i (Suc n) =
      bindR (percy_request_parser_feed p (buf ! i)) (\<lambda>p'.
       if qp_state p' = percy_request_error then Inr (p', False)
       else if qp_state p' = percy_request_done then Inr (p', True)
       else parse_loop buf p' (Suc i) n)" using Suc.prems by simp
  then show ?case using Suc unfolding t
    by (cases "percy_request_parser_feed p (buf ! i)") (auto simp: percy_request_fin_def)
qed

text \<open>The request that the first twelve bytes of the receive buffer encode, if any.\<close>

definition decode_request :: "bytes \<Rightarrow> request_percy option" where
  "decode_request bs =
     (let r = \<lparr>pq_ver = bs ! 0, pq_type = bs ! 7, pq_passphrase = take 6 (drop 1 bs),
               pq_method = bs ! 8, pq_resv = bs ! 9,
               pq_value = push_bit 8 (ucast (bs ! 10)) + ucast (bs ! 11)\<rparr>
      in if percy_ok r then Some r else None)"

lemma length_percy_bytes: "percy_ok r \<Longrightarrow> length (percy_bytes r) = 12"
  by (simp add: percy_ok_def percy_bytes_def)

lemma decode_percy_bytes:
  assumes "percy_ok r"
  shows "decode_request (percy_bytes r @ rest) = Some r"
proof -
  have l: "length (pq_passphrase r) = 6" using assms by (simp add: percy_ok_def)
  then obtain a b c d e f where ps: "pq_passphrase r = [a, b, c, d, e, f]"
    by (auto simp: eval_nat_numeral length_Suc_conv)
  have "r = \<lparr>pq_ver = pq_ver r, pq_type = pq_type r, pq_passphrase = [a, b, c, d, e, f],
      pq_method = pq_method r, pq_resv = pq_resv r, pq_value = pq_value r\<rparr>"
    using ps by simp
  then show ?thesis using assms join_u16 [of "pq_value r"]
    by (simp add: decode_request_def percy_bytes_def percy_ok_def ps Let_def)
qed

lemma percy_bytes_decode:
  assumes "decode_request bs = Some r" "12 \<le> length bs"
  shows "percy_ok r \<and> percy_bytes r = take 12 bs"
proof -
  obtain b0 b1 b2 b3 b4 b5 b6 b7 b8 b9 b10 b11 rest where
    "bs = b0 # b1 # b2 # b3 # b4 # b5 # b6 # b7 # b8 # b9 # b10 # b11 # rest"
    using assms(2) by (auto simp: eval_nat_numeral Suc_le_length_iff)
  then show ?thesis using assms(1) split_u16 [of b10 b11]
    by (auto simp: decode_request_def percy_bytes_def Let_def split: if_splits)
qed

lemma parse_request_value:
  assumes "length (mg_buffer m) = 128"
    "mg_requestParser m = percy_request_parser_init p"
  shows "\<exists>q. parse_request m = Inr (m\<lparr>mg_requestParser := q\<rparr>, decode_request (mg_buffer m) \<noteq> None) \<and>
    (\<forall>r. decode_request (mg_buffer m) = Some r \<longrightarrow> qp_request q = r)"
proof -
  let ?bs = "take 12 (mg_buffer m)"
  obtain q where q: "run percy_request_parser_feed (percy_request_parser_init p) ?bs = Inr q"
    using percy_req.run_safe [OF percy_request_inv_init] by blast
  obtain rest where d: "drive percy_request_parser_feed percy_request_fin (percy_request_parser_init p) ?bs = Inr (q, rest)"
    using percy_req.run_drive [OF q] by blast
  have "\<not> percy_request_fin (percy_request_parser_init p)"
    by (simp add: percy_request_fin_def percy_request_parser_init_def)
  then have l: "parse_request m = Inr (m\<lparr>mg_requestParser := q\<rparr>, qp_state q = percy_request_done)"
    using parse_loop_drive [of "percy_request_parser_init p" 0 12 "mg_buffer m"] d assms
    by (simp add: parse_request_def PERCY_REQUEST_SIZE_def)
  have dec: "decode_request ?bs = decode_request (mg_buffer m)"
    by (simp add: decode_request_def drop_take)
  show ?thesis
  proof (cases "qp_state q = percy_request_done")
    case True
    then obtain rest where r: "percy_ok (qp_request q)" "?bs = percy_bytes (qp_request q) @ rest"
      using percy_sound [OF q] by blast
    have "decode_request (mg_buffer m) = Some (qp_request q)"
      using decode_percy_bytes [OF r(1), of rest] r(2) dec by simp
    then show ?thesis using l True by auto
  next
    case False
    have "decode_request ?bs = None"
    proof (rule ccontr)
      assume "decode_request ?bs \<noteq> None"
      then obtain r where "decode_request ?bs = Some r" by blast
      then have r: "percy_ok r" "?bs = percy_bytes r"
        using percy_bytes_decode [of ?bs r] assms(1) by auto
      then show False using percy_complete [OF r(1), of p "[]"] q False by (auto simp: qst_def)
    qed
    then show ?thesis using l False dec by auto
  qed
qed

section \<open>The service as its protocol describes it\<close>

record config =
  cf_buffer_size :: nat
  cf_sniffer :: bool
  cf_timeout :: nat

definition config_of :: "server \<Rightarrow> config" where
  "config_of s = \<lparr>cf_buffer_size = unat (sv_buffers_size s), cf_sniffer = sv_disectors_enabled s,
                   cf_timeout = nat (sv_selector_timeout s)\<rparr>"

text \<open>The values the protocol allows for the three settings.\<close>

definition config_ok :: "config \<Rightarrow> bool" where
  "config_ok c \<longleftrightarrow>
     1024 \<le> cf_buffer_size c \<and> cf_buffer_size c \<le> 8192 \<and> 4 \<le> cf_timeout c \<and> cf_timeout c \<le> 12"

definition spec_modify :: "nat \<Rightarrow> nat \<Rightarrow> config \<Rightarrow> config option" where
  "spec_modify method v c =
     (if method = 0 then if v \<le> 1 then Some (c\<lparr>cf_sniffer := v = 1\<rparr>) else None
      else if method = 1
      then if 1024 \<le> v \<and> v \<le> 8192 then Some (c\<lparr>cf_buffer_size := v\<rparr>) else None
      else if method = 2 then if 4 \<le> v \<and> v \<le> 12 then Some (c\<lparr>cf_timeout := v\<rparr>) else None
      else None)"

definition spec_retrieve :: "server \<Rightarrow> u64 list" where
  "spec_retrieve s =
     [mt_historical_connections (sv_metrics s), mt_concurrent_connections (sv_metrics s),
      mt_bytes_sent (sv_metrics s), mt_bytes_received (sv_metrics s),
      mt_bytes_received (sv_metrics s) + mt_bytes_sent (sv_metrics s),
      word_of_nat (cf_buffer_size (config_of s)), word_of_nat (cf_timeout (config_of s)),
      mt_failed_connections (sv_metrics s)]"

text \<open>What an authorised request does: the new configuration, and the one reply.\<close>

definition spec_answer :: "request_percy \<Rightarrow> server \<Rightarrow> config \<times> bytes" where
  "spec_answer r s =
     (if pq_type r = 0
      then (config_of s, build_reply 1 0 0 (spec_retrieve s ! unat (pq_method r)))
      else if pq_type r = 1
      then case spec_modify (unat (pq_method r)) (unat (pq_value r)) (config_of s) of
             Some c \<Rightarrow> (c, build_reply 1 0 0 0)
           | None \<Rightarrow> (config_of s, build_reply 1 2 0 0)
      else (config_of s, build_reply 1 2 0 0))"

definition server_inv :: "server \<Rightarrow> bool" where
  "server_inv s \<longleftrightarrow>
     length (mg_buffer (sv_management s)) = 128 \<and>
     mg_passphrase (sv_management s) = default_passphrase \<and> 0 \<le> sv_selector_timeout s"

definition authorised :: "request_percy \<Rightarrow> bool" where
  "authorised r \<longleftrightarrow> pq_passphrase r = [49, 50, 51, 52, 53, 54]"

lemma method_cases:
  assumes "IS_PERCY_METHOD m"
  obtains "m = 0" | "m = 1" | "m = 2" | "m = 3" | "m = 4" | "m = 5" | "m = 6" | "m = 7"
  using assms by (auto simp: IS_PERCY_METHOD_def)

lemmas service_defs =
  SUCCESS_STATUS_def UNAUTH_STATUS_def UNSUCCESFUL_STATUS_def PERCY_VERSION_def PERCY_RESV_def
  send_reply_def

lemma word_of_unat64: "(word_of_nat (unat (x :: u64)) :: u64) = x"
  by simp

lemma retrieval_value:
  assumes "IS_PERCY_METHOD m" "server_inv s"
  shows "arr_get retrieval_methods (uint m) = Inr (retrieval_methods ! unat m)"
    and "(retrieval_methods ! unat m) s = spec_retrieve s ! unat m"
    and "uint m \<le> int (length retrieval_methods) - 1"
  using assms
  by (cases rule: method_cases [OF assms(1)];
      simp add: retrieval_methods_def spec_retrieve_def get_historical_connections_def
        get_concurrent_connections_def get_total_bytes_sent_def get_total_bytes_received_def
        get_total_bytes_transferred_def get_buffer_size_def get_select_timeout_def
        get_failed_connections_def config_of_def server_inv_def)+

lemma unat_ucast_16_64: "unat (ucast (v :: u16) :: u64) = unat v"
proof -
  have "unat v < 2 ^ 16" using unsigned_less [of v] by simp
  then show ?thesis by (simp add: unsigned_ucast_eq take_bit_nat_eq_self)
qed

lemma answer_request_spec:
  assumes "server_inv s" "qp_request (mg_requestParser (sv_management s)) = r" "percy_ok r"
  shows "\<exists>s'. answer_request s = Inr (s', [snd (spec_answer r s)]) \<and>
     config_of s' = fst (spec_answer r s) \<and> sv_metrics s' = sv_metrics s \<and>
     sv_management s' = sv_management s \<and> server_inv s'"
proof -
  have m: "IS_PERCY_METHOD (pq_method r)" and t: "IS_PERCY_TYPE (pq_type r)"
    using assms(3) by (auto simp: percy_ok_def)
  show ?thesis
  proof (cases "pq_type r = 1")
    case False
    then show ?thesis using assms retrieval_value [OF m assms(1)]
      by (auto simp: answer_request_def spec_answer_def service_defs RETRIEVAL_def MODIFICATION_def Let_def)
  next
    case True
    let ?v = "pq_value r"
    have v: "unat ?v \<le> 1 \<longleftrightarrow> ?v \<le> 1" "1024 \<le> unat ?v \<longleftrightarrow> 1024 \<le> ?v" "unat ?v \<le> 8192 \<longleftrightarrow> ?v \<le> 8192"
        "4 \<le> unat ?v \<longleftrightarrow> 4 \<le> ?v" "unat ?v \<le> 12 \<longleftrightarrow> ?v \<le> 12"
      by (simp_all add: word_le_nat_alt)
    consider "pq_method r = 0" | "pq_method r = 1" | "pq_method r = 2" | "2 < unat (pq_method r)"
      using m by (cases rule: method_cases) auto
    then show ?thesis
    proof cases
      case 1
      have nz: "(?v \<noteq> 0) = (unat ?v = 1)" if "?v \<le> 1"
      proof -
        have "unat ?v = 0 \<or> unat ?v = 1" using that v(1) by linarith
        then show ?thesis by (auto simp: unat_eq_zero)
      qed
      show ?thesis
      proof (cases "?v \<le> 1")
        case le: True
        then show ?thesis using assms True 1 v(1) nz
          by (simp add: answer_request_def spec_answer_def service_defs RETRIEVAL_def MODIFICATION_def
              modification_methods_def validate_input_value_def spec_modify_def set_sniffer_mode_def
              set_disector_value_def config_of_def server_inv_def)
      next
        case gt: False
        then show ?thesis using assms True 1 v(1)
          by (simp add: answer_request_def spec_answer_def service_defs RETRIEVAL_def MODIFICATION_def
              modification_methods_def validate_input_value_def spec_modify_def)
      qed
    next
      case 2
      then show ?thesis using assms True v
        by (auto simp: answer_request_def spec_answer_def service_defs RETRIEVAL_def MODIFICATION_def
            Let_def modification_methods_def validate_input_value_def spec_modify_def set_buffer_size_def
            config_of_def server_inv_def unat_ucast_16_64)
    next
      case 3
      then show ?thesis using assms True v
        by (auto simp: answer_request_def spec_answer_def service_defs RETRIEVAL_def MODIFICATION_def
            Let_def modification_methods_def validate_input_value_def spec_modify_def set_select_timeout_def
            config_of_def server_inv_def)
    next
      case 4
      have "\<not> uint (pq_method r) \<le> 2" using 4 unfolding uint_nat by linarith
      moreover have "spec_modify (unat (pq_method r)) n c = None" for n c
        using 4 by (simp add: spec_modify_def)
      ultimately show ?thesis using assms(1,2) True
        by (simp add: answer_request_def spec_answer_def service_defs RETRIEVAL_def MODIFICATION_def
            modification_methods_def)
    qed
  qed
qed

definition receive :: "server \<Rightarrow> bytes option \<Rightarrow> bytes" where
  "receive s d =
     overwrite (mg_buffer (sv_management s)) 0 (case d of None \<Rightarrow> [] | Some x \<Rightarrow> take MAX_MSG_LEN x)"

lemma length_receive: "server_inv s \<Longrightarrow> length (receive s d) = 128"
  by (cases d) (simp_all add: receive_def server_inv_def MAX_MSG_LEN_def)

lemma spec_answer_cong:
  "config_of s' = config_of s \<Longrightarrow> sv_metrics s' = sv_metrics s \<Longrightarrow> spec_answer r s' = spec_answer r s"
  by (auto simp: spec_answer_def spec_retrieve_def split: option.splits)

text \<open>The handler on every datagram, in terms of the request its buffer then holds.\<close>

definition spec_serve :: "server \<Rightarrow> bytes \<Rightarrow> config \<times> bytes list" where
  "spec_serve s buf =
     (case decode_request buf of
        None \<Rightarrow> (config_of s, [build_reply 1 2 0 0])
      | Some r \<Rightarrow>
          if authorised r then (fst (spec_answer r s), [snd (spec_answer r s)])
          else (config_of s, [build_reply 1 1 0 0, build_reply 1 2 0 0]))"

lemma management_read_spec:
  assumes "server_inv s"
  shows "\<exists>s'. management_read s d = Inr (s', snd (spec_serve s (receive s d))) \<and>
     config_of s' = fst (spec_serve s (receive s d)) \<and> server_inv s' \<and>
     sv_metrics s' = sv_metrics s \<and> mg_buffer (sv_management s') = receive s d"
proof -
  let ?m = "sv_management s"
  let ?m1 = "?m\<lparr>mg_requestParser := percy_request_parser_init (mg_requestParser ?m),
      mg_buffer := receive s d\<rparr>"
  have "length (mg_buffer ?m1) = 128" using length_receive [OF assms] by simp
  from parse_request_value [OF this, of "mg_requestParser ?m"] obtain q where
    q: "parse_request ?m1 = Inr (?m1\<lparr>mg_requestParser := q\<rparr>, decode_request (receive s d) \<noteq> None)"
      "\<And>r. decode_request (receive s d) = Some r \<Longrightarrow> qp_request q = r" by auto
  let ?s1 = "s\<lparr>sv_management := ?m1\<lparr>mg_requestParser := q\<rparr>\<rparr>"
  have inv: "server_inv ?s1" using assms length_receive [OF assms, of d] by (simp add: server_inv_def)
  have c: "config_of ?s1 = config_of s" by (simp add: config_of_def)
  have rd: "management_read s d = bindR (parse_request ?m1) (\<lambda>(m, parsed).
      let s' = s\<lparr>sv_management := m\<rparr> in
      if parsed then if \<not> validate_passphrase m
        then Inr (s', send_reply UNAUTH_STATUS 0 @ send_reply UNSUCCESFUL_STATUS 0)
        else answer_request s' else Inr (s', send_reply UNSUCCESFUL_STATUS 0))"
    by (simp add: management_read_def receive_def Let_def)
  show ?thesis
  proof (cases "decode_request (receive s d)")
    case None
    then show ?thesis using rd q inv c by (auto simp: spec_serve_def service_defs)
  next
    case (Some r)
    then have r: "qp_request q = r" using q(2) by simp
    have ok: "percy_ok r"
      using Some percy_bytes_decode [of "receive s d" r] length_receive [OF assms, of d] by simp
    have v: "validate_passphrase (?m1\<lparr>mg_requestParser := q\<rparr>) \<longleftrightarrow> authorised r"
      using assms ok r
      by (auto simp: validate_passphrase_def authorised_def server_inv_def default_passphrase_def
          percy_ok_def PASS_PHRASE_LEN_def)
    show ?thesis
    proof (cases "authorised r")
      case False
      then show ?thesis using rd q(1) Some v inv c by (auto simp: spec_serve_def service_defs)
    next
      case True
      have "qp_request (mg_requestParser (sv_management ?s1)) = r" using r by simp
      from answer_request_spec [OF inv this ok] obtain s' where
        "answer_request ?s1 = Inr (s', [snd (spec_answer r ?s1)])"
        "config_of s' = fst (spec_answer r ?s1)" "sv_metrics s' = sv_metrics ?s1"
        "sv_management s' = sv_management ?s1" "server_inv s'" by blast
      then show ?thesis using rd q(1) Some v True spec_answer_cong [OF c, of r]
        by (auto simp: spec_serve_def)
    qed
  qed
qed

section \<open>Properties\<close>

lemma spec_modify_ok: "config_ok c \<Longrightarrow> spec_modify m v c = Some c' \<Longrightarrow> config_ok c'"
  by (auto simp: spec_modify_def config_ok_def split: if_splits)

lemma spec_serve_config:
  "config_ok (config_of s) \<Longrightarrow> config_ok (fst (spec_serve s buf))"
  by (auto simp: spec_serve_def spec_answer_def split: option.splits dest: spec_modify_ok)

lemma length_build_reply: "length (build_reply v st r x) = 11"
  by (simp add: build_reply_def serialize_def)

lemma spec_serve_replies: "\<forall>x\<in>set (snd (spec_serve s buf)). length x = 11"
  by (auto simp: spec_serve_def spec_answer_def length_build_reply split: option.splits)


definition blank_percy_parser :: percy_request_parser where
  "blank_percy_parser = \<lparr>qp_request = zero_request_percy, qp_state = percy_request_ver, qp_i = 0, qp_n = 0\<rparr>"

definition set_timeout_request :: request_percy where
  "set_timeout_request = \<lparr>pq_ver = 1, pq_type = 1, pq_passphrase = [49, 50, 51, 52, 53, 54],
     pq_method = 2, pq_resv = 0, pq_value = 6\<rparr>"

lemma init_server_inv: "server_inv (init_server p)"
  by (simp add: server_inv_def init_server_def)

lemma decode_set_timeout:
  "decode_request (receive s (Some (percy_bytes set_timeout_request))) = Some set_timeout_request"
proof -
  have ok: "percy_ok set_timeout_request"
    by (simp add: percy_ok_def set_timeout_request_def IS_PERCY_TYPE_def IS_PERCY_METHOD_def)
  show ?thesis using decode_percy_bytes [OF ok] length_percy_bytes [OF ok]
    by (simp add: receive_def overwrite_def MAX_MSG_LEN_def)
qed



lemma serve_all_spec:
  "server_inv s \<Longrightarrow> config_ok (config_of s) \<Longrightarrow>
   \<exists>s' rs. serve_all s ds = Inr (s', rs) \<and> server_inv s' \<and> config_ok (config_of s') \<and>
     (\<forall>x\<in>set rs. length x = 11)"
proof (induction ds arbitrary: s)
  case (Cons d ds)
  obtain s1 where s1: "management_read s d = Inr (s1, snd (spec_serve s (receive s d)))"
      "config_of s1 = fst (spec_serve s (receive s d))" "server_inv s1"
    using management_read_spec [OF Cons.prems(1), of d] by blast
  have "config_ok (config_of s1)" using s1(2) Cons.prems(2) by (simp add: spec_serve_config)
  from Cons.IH [OF s1(3) this] obtain s' rs where "serve_all s1 ds = Inr (s', rs)" "server_inv s'"
      "config_ok (config_of s')" "\<forall>x\<in>set rs. length x = 11" by blast
  then show ?case using s1(1) spec_serve_replies [of s "receive s d"] by auto
qed simp

text \<open>
  C29: Whatever sequence of datagrams arrives, authorised or not, the service never faults, every
  reply has the eleven bytes of the protocol, the buffer size stays between 1024 and 8192 and the
  selector timeout between 4 and 12 seconds.
\<close>

theorem management_settings_in_range:
  assumes "server_inv s" "config_ok (config_of s)"
  shows "\<exists>s' rs. serve_all s ds = Inr (s', rs) \<and> config_ok (config_of s') \<and>
     (\<forall>x\<in>set rs. length x = 11)"
  using serve_all_spec [OF assms] by blast

theorem management_settings_in_range_witness:
  "\<exists>s' rs. serve_all (init_server blank_percy_parser) [None, Some [1, 2, 3], Some (percy_bytes set_timeout_request)]
     = Inr (s', rs) \<and> config_ok (config_of s') \<and> (\<forall>x\<in>set rs. length x = 11)"
  by (rule management_settings_in_range [OF init_server_inv])
    (simp add: config_ok_def config_of_def init_server_def)



text \<open>
  The receive buffer is not cleared and the number of bytes received is not used: after any
  request, an empty datagram (from anyone, with no passphrase) is served as that request again.
\<close>

theorem management_replays_stale_request:
  assumes "server_inv s" "percy_ok r" "management_read s (Some (percy_bytes r @ rest)) = Inr (s1, rs)"
  shows "\<exists>s2. management_read s1 (Some []) = Inr (s2, snd (spec_serve s1 (percy_bytes r))) \<and>
     config_of s2 = fst (spec_serve s1 (percy_bytes r))"
proof -
  have s1: "server_inv s1" "mg_buffer (sv_management s1) = receive s (Some (percy_bytes r @ rest))"
    using management_read_spec [OF assms(1), of "Some (percy_bytes r @ rest)"] assms(3) by auto
  have "receive s1 (Some []) = receive s (Some (percy_bytes r @ rest))"
    using s1(2) by (simp add: receive_def)
  moreover have "\<exists>y. receive s (Some (percy_bytes r @ rest)) = percy_bytes r @ y"
    using length_percy_bytes [OF assms(2)] by (simp add: receive_def overwrite_def MAX_MSG_LEN_def)
  ultimately have "decode_request (receive s1 (Some [])) = decode_request (percy_bytes r)"
    using decode_percy_bytes [OF assms(2)] decode_percy_bytes [OF assms(2), of "[]"] by auto
  then have "spec_serve s1 (receive s1 (Some [])) = spec_serve s1 (percy_bytes r)"
    by (simp add: spec_serve_def)
  then show ?thesis using management_read_spec [OF s1(1), of "Some []"] by auto
qed

theorem management_replays_stale_request_witness:
  "\<exists>s1 s2. management_read s1 (Some []) = Inr (s2, [build_reply 1 0 0 0]) \<and> cf_timeout (config_of s2) = 6"
proof -
  have ok: "percy_ok set_timeout_request"
    by (simp add: percy_ok_def set_timeout_request_def IS_PERCY_TYPE_def IS_PERCY_METHOD_def)
  obtain s1 rs where "management_read (init_server blank_percy_parser)
      (Some (percy_bytes set_timeout_request @ [])) = Inr (s1, rs)"
    using management_read_spec [OF init_server_inv, of blank_percy_parser
        "Some (percy_bytes set_timeout_request @ [])"] by blast
  from management_replays_stale_request [OF init_server_inv ok this] obtain s2 where
    "management_read s1 (Some []) = Inr (s2, snd (spec_serve s1 (percy_bytes set_timeout_request)))"
    "config_of s2 = fst (spec_serve s1 (percy_bytes set_timeout_request))" by blast
  moreover have "spec_serve s1 (percy_bytes set_timeout_request) =
      ((config_of s1)\<lparr>cf_timeout := 6\<rparr>, [build_reply 1 0 0 0])"
    using decode_percy_bytes [OF ok, of "[]"]
    by (simp add: spec_serve_def spec_answer_def set_timeout_request_def authorised_def spec_modify_def)
  ultimately have "management_read s1 (Some []) = Inr (s2, [build_reply 1 0 0 0]) \<and> cf_timeout (config_of s2) = 6"
    by simp
  then show ?thesis by blast
qed

end
