(* ===== verification/Management_Client.thy ===== *)
theory Management_Client
  imports Management
begin

text \<open>
  The interactive client of the management service, \<^verbatim>\<open>management_client/client/httpdctl.c\<close>: what a
  line typed by the user becomes, the twelve bytes sent, and what the answer is read as. The sockets
  and the terminal are outside of the model; \<^verbatim>\<open>int\<close> arithmetic that overflows is a fault.
\<close>

definition MAX_BUFF :: nat where "MAX_BUFF = 1024"
definition INT_MAX :: int where "INT_MAX = 2147483647"

section \<open>Reading a number\<close>

text \<open>
  The loop that \<^verbatim>\<open>process_input\<close> and \<^verbatim>\<open>process_value\<close> share, from index \<open>i\<close> on; \<open>None\<close> is the
  return value -1. The sum is \<^verbatim>\<open>aux * 10 + buff[i] - '0'\<close>, in that order.
\<close>

fun number_loop :: "bytes \<Rightarrow> nat \<Rightarrow> int \<Rightarrow> fault + int option" where
  "number_loop [] i aux = Inr (Some aux)"
| "number_loop (c # cs) i aux =
     (if c = LF then Inr (Some aux)
      else if is_digit c
      then if i = 0 then number_loop cs (Suc i) (uint c - 48)
           else if INT_MAX < aux * 10 + uint c then Inl SignedOverflow
           else number_loop cs (Suc i) (aux * 10 + uint c - 48)
      else Inr None)"

definition process_value :: "bytes \<Rightarrow> fault + int option" where
  "process_value buff = number_loop buff 0 0"

text \<open>\<^verbatim>\<open>get_value\<close>: when \<^verbatim>\<open>read\<close> fails the loop runs over no byte at all.\<close>

definition get_value :: "bytes option \<Rightarrow> fault + int option" where
  "get_value line = process_value (case line of None \<Rightarrow> [] | Some l \<Rightarrow> take MAX_BUFF l)"

text \<open>
  \<open>process_input buff line\<close>: the option and the value, or \<open>None\<close> for -1; \<open>line\<close> is what the second
  read returns, used by the modification methods only.
\<close>

definition process_input :: "bytes \<Rightarrow> bytes option \<Rightarrow> fault + (int \<times> int) option" where
  "process_input buff line =
     bindR (number_loop buff 0 0) (\<lambda>r.
       case r of
         None \<Rightarrow> Inr None
       | Some option \<Rightarrow>
           if 1 \<le> option \<and> option \<le> 8 then Inr (Some (option, 0))
           else if 9 \<le> option \<and> option \<le> 11
           then bindR (get_value line) (\<lambda>v.
                Inr (case v of None \<Rightarrow> None | Some v \<Rightarrow> Some (option, v)))
           else Inr None)"

section \<open>Building the request\<close>

text \<open>\<open>put\<close> is one assignment \<^verbatim>\<open>buffer[i] = v\<close>; \<open>puts\<close> several in order.\<close>

fun puts :: "(nat \<times> u8) list \<Rightarrow> bytes \<Rightarrow> fault + bytes" where
  "puts [] buffer = Inr buffer"
| "puts ((i, v) # ps) buffer = bindR (arr_set buffer (int i) v) (puts ps)"

definition request_head :: "(nat \<times> u8) list" where
  "request_head = [(0, 1), (1, 49), (2, 50), (3, 51), (4, 52), (5, 53), (6, 54), (9, 0)]"

definition request_body :: "int \<Rightarrow> u16 \<Rightarrow> (nat \<times> u8) list" where
  "request_body option value =
     (if option = 1 then [(7, 0), (8, 0), (10, 0), (11, 0)]
      else if option = 2 then [(7, 0), (8, 1), (10, 0), (11, 0)]
      else if option = 3 then [(7, 0), (8, 2), (10, 0), (11, 0)]
      else if option = 4 then [(7, 0), (8, 3), (10, 0), (11, 0)]
      else if option = 5 then [(7, 0), (8, 4), (10, 0), (11, 0)]
      else if option = 6 then [(7, 0), (8, 5), (10, 0), (11, 0)]
      else if option = 7 then [(7, 0), (8, 6), (10, 0), (11, 0)]
      else if option = 8 then [(7, 0), (8, 7), (10, 0), (11, 0)]
      else if option = 9
      then [(7, 1), (8, 0), (10, ucast (drop_bit 8 value)), (11, ucast value)]
      else if option = 10
      then [(7, 1), (8, 1), (10, ucast (drop_bit 8 value)), (11, ucast value)]
      else if option = 11
      then [(7, 1), (8, 2), (10, ucast (drop_bit 8 value)), (11, ucast value)]
      else [])"

text \<open>The buffer after the call; the size is that of \<^verbatim>\<open>struct request_percy\<close>, 12 bytes.\<close>

definition build_request :: "bytes \<Rightarrow> int \<Rightarrow> u16 \<Rightarrow> fault + (bytes \<times> nat)" where
  "build_request buffer option value =
     bindR (puts (request_head @ request_body option value) buffer) (\<lambda>b. Inr (b, 12))"

section \<open>Reading the answer\<close>

definition parse_answer :: "percy_response_parser \<Rightarrow> bytes \<Rightarrow> fault + percy_response_parser" where
  "parse_answer p answer = run percy_response_parser_feed (percy_response_parser_init p) answer"

text \<open>One round of the loop of \<^verbatim>\<open>main\<close> up to \<^verbatim>\<open>sendto\<close>: the datagram sent, or none.\<close>

definition client_request :: "bytes \<Rightarrow> bytes \<Rightarrow> bytes option \<Rightarrow> fault + bytes option" where
  "client_request buff input line =
     (let buff = overwrite buff 0 input
      in bindR (process_input input line) (\<lambda>r.
           case r of
             None \<Rightarrow> Inr None
           | Some (option, value) \<Rightarrow>
               bindR (build_request buff option (word_of_int value)) (\<lambda>(b, len).
               Inr (Some (take len b)))))"

section \<open>Numbers\<close>

lemma digit_uint: "is_digit c \<Longrightarrow> uint c - 48 = int (unat (c - DIG0))"
proof -
  assume "is_digit c"
  then have "DIG0 \<le> c" by (simp add: is_digit_def)
  then have "unat (c - DIG0) = unat c - 48"
    by (simp add: unat_sub)
  moreover have "48 \<le> unat c" using \<open>DIG0 \<le> c\<close> by (simp add: word_le_nat_alt)
  ultimately show ?thesis unfolding uint_nat by linarith
qed

lemma number_loop_digits:
  assumes "digits ds" "dec_val acc ds < 2147483600" "0 < i" "xs = [] \<or> hd xs = LF"
  shows "number_loop (ds @ xs) i (int acc) = Inr (Some (int (dec_val acc ds)))"
  using assms
proof (induction ds arbitrary: i acc)
  case Nil
  then show ?case by (cases xs) auto
next
  case (Cons d ds)
  have d: "is_digit d" "d \<noteq> LF" using Cons.prems(1) by (auto simp: is_digit_def)
  have mono: "a \<le> dec_val a ds" for a
  proof (induction ds arbitrary: a)
    case (Cons x xs)
    from Cons [of "a * 10 + unat (x - DIG0)"] show ?case by simp
  qed simp
  let ?a = "acc * 10 + unat (d - DIG0)"
  have a: "?a < 2147483600" using mono [of ?a] Cons.prems(2) by simp
  have u: "int acc * 10 + uint d = int ?a + 48" using digit_uint [OF d(1)] by simp
  have "int ?a < int 2147483600" using a by (simp only: of_nat_less_iff)
  then have "\<not> INT_MAX < int acc * 10 + uint d" unfolding u INT_MAX_def by simp
  moreover have "int acc * 10 + uint d - 48 = int ?a" using u by simp
  ultimately show ?case
    using Cons.IH [of ?a "Suc i"] Cons.prems d by (simp del: of_nat_add of_nat_mult)
qed

lemma process_value_digits:
  assumes "digits ds" "ds \<noteq> []" "dec_val 0 ds < 2147483600" "xs = [] \<or> hd xs = LF"
  shows "process_value (ds @ xs) = Inr (Some (int (dec_val 0 ds)))"
proof (cases ds)
  case (Cons d es)
  then have "d \<noteq> LF" "is_digit d" using assms(1) by (auto simp: is_digit_def)
  then show ?thesis
    using number_loop_digits [of es "unat (d - DIG0)" 1 xs] assms Cons digit_uint [of d]
    by (simp add: process_value_def)
qed (use assms in simp)

section \<open>The bytes sent\<close>

text \<open>The request each menu option stands for.\<close>

definition option_request :: "int \<Rightarrow> u16 \<Rightarrow> request_percy" where
  "option_request option value =
     \<lparr>pq_ver = 1, pq_type = (if option \<le> 8 then 0 else 1),
      pq_passphrase = [49, 50, 51, 52, 53, 54],
      pq_method = word_of_int (if option \<le> 8 then option - 1 else option - 9), pq_resv = 0,
      pq_value = (if option \<le> 8 then 0 else value)\<rparr>"

lemma option_cases:
  assumes "1 \<le> (n :: int)" "n \<le> 11"
  obtains "n = 1" | "n = 2" | "n = 3" | "n = 4" | "n = 5" | "n = 6" | "n = 7" | "n = 8" | "n = 9"
    | "n = 10" | "n = 11"
proof -
  have "n \<in> {1..11}" using assms by simp
  also have "{1..11} = set [1..11 :: int]" by simp
  finally show thesis using that by (simp add: upto_rec1) blast
qed

lemma option_request_ok:
  assumes "1 \<le> n" "n \<le> 11"
  shows "percy_ok (option_request n v)"
  by (cases rule: option_cases [OF assms])
    (simp_all add: percy_ok_def option_request_def IS_PERCY_TYPE_def IS_PERCY_METHOD_def)

lemma build_request_bytes:
  assumes "1 \<le> n" "n \<le> 11" "12 \<le> length buffer"
  shows "build_request buffer n v = Inr (percy_bytes (option_request n v) @ drop 12 buffer, 12)"
proof -
  obtain b0 b1 b2 b3 b4 b5 b6 b7 b8 b9 b10 b11 rest where
    "buffer = b0 # b1 # b2 # b3 # b4 # b5 # b6 # b7 # b8 # b9 # b10 # b11 # rest"
    using assms(3) by (auto simp: eval_nat_numeral Suc_le_length_iff)
  then show ?thesis
    by (cases rule: option_cases [OF assms(1,2)])
      (simp_all add: build_request_def request_head_def request_body_def percy_bytes_def
        option_request_def)
qed

section \<open>The answer read back\<close>

text \<open>A typed option and a typed value.\<close>

lemma process_input_typed:
  assumes "digits ds" "ds \<noteq> []" "1 \<le> dec_val 0 ds" "dec_val 0 ds \<le> 11"
    and "digits vs" "vs \<noteq> []" "length vs < 1024" "dec_val 0 vs < 2147483600"
  shows "process_input (ds @ [LF]) (Some (vs @ [LF])) =
    Inr (Some (int (dec_val 0 ds), if dec_val 0 ds \<le> 8 then 0 else int (dec_val 0 vs)))"
proof -
  let ?n = "dec_val 0 ds"
  have n: "number_loop (ds @ [LF]) 0 0 = Inr (Some (int ?n))"
    using process_value_digits [of ds "[LF]"] assms(1,2,4) by (simp add: process_value_def)
  have v: "get_value (Some (vs @ [LF])) = Inr (Some (int (dec_val 0 vs)))"
    using process_value_digits [of vs "[LF]"] assms(5-8) by (simp add: get_value_def MAX_BUFF_def)
  show ?thesis using n v assms(3,4) by (simp add: process_input_def)
qed

text \<open>The eight bytes of a 64-bit value, added up again one after the other.\<close>

lemma join_u64:
  fixes v :: u64
  shows "push_bit 56 (ucast (ucast (drop_bit 56 v) :: u8)) + push_bit 48 (ucast (ucast (drop_bit 48 v) :: u8)) +
     push_bit 40 (ucast (ucast (drop_bit 40 v) :: u8)) + push_bit 32 (ucast (ucast (drop_bit 32 v) :: u8)) +
     push_bit 24 (ucast (ucast (drop_bit 24 v) :: u8)) + push_bit 16 (ucast (ucast (drop_bit 16 v) :: u8)) +
     push_bit 8 (ucast (ucast (drop_bit 8 v) :: u8)) + ucast (ucast v :: u8) = v"
proof -
  have step: "push_bit (n + 8) (drop_bit (n + 8) v) + push_bit n (ucast (ucast (drop_bit n v) :: u8)) =
      push_bit n (drop_bit n v)" if "n + 8 \<le> 64" for n
  proof -
    have "push_bit (n + 8) (drop_bit (n + 8) v) AND push_bit n (ucast (ucast (drop_bit n v) :: u8)) = 0"
      by (rule bit_word_eqI) (auto simp: bit_simps)
    moreover have "push_bit (n + 8) (drop_bit (n + 8) v) OR push_bit n (ucast (ucast (drop_bit n v) :: u8)) =
        push_bit n (drop_bit n v)"
    proof (rule bit_word_eqI)
      fix k assume "k < LENGTH(64)"
      then show "bit (push_bit (n + 8) (drop_bit (n + 8) v) OR push_bit n (ucast (ucast (drop_bit n v) :: u8))) k =
          bit (push_bit n (drop_bit n v)) k"
        by (cases "n + 8 \<le> k") (auto simp: bit_simps)
    qed
    ultimately show ?thesis by (simp add: disjunctive_add_eq_or)
  qed
  have top: "push_bit 56 (ucast (ucast (drop_bit 56 v) :: u8)) = push_bit 56 (drop_bit 56 v)"
    by (rule bit_word_eqI) (auto simp: bit_simps)
  show ?thesis
    unfolding top using step [of 48] step [of 40] step [of 32] step [of 24] step [of 16] step [of 8] step [of 0]
    by simp
qed

definition response_state :: "u8 \<Rightarrow> u8 \<Rightarrow> u8 \<Rightarrow> u64 \<Rightarrow> percy_response_parser" where
  "response_state ver st rs v =
     \<lparr>rsp_response = \<lparr>ps_ver = ver, ps_status = st, ps_resv = rs, ps_value = v\<rparr>,
      rsp_state = percy_response_value, rsp_i = 8, rsp_n = 8\<rparr>"

lemma parse_answer_reply:
  "parse_answer p (build_reply ver st rs v) = Inr (response_state ver st rs v)"
  using join_u64 [of v]
  by (cases p)
    (simp add: parse_answer_def build_reply_def serialize_def percy_response_defs Let_def
      percy_response_parser_init_def response_state_def zero_percy_response_def)

section \<open>Properties\<close>

text \<open>
  What the client sends. A typed option \<open>1 .. 11\<close> (followed, for the modification options, by a
  typed value) becomes exactly the twelve bytes of the request that the option stands for: version
  1, the passphrase, the type and method of the menu, and the value modulo 65536 in network order.
\<close>

theorem client_request_exact:
  assumes "length buff = 1024" "digits ds" "ds \<noteq> []" "length ds < 1024"
    and "1 \<le> dec_val 0 ds" "dec_val 0 ds \<le> 11"
    and "digits vs" "vs \<noteq> []" "length vs < 1024" "dec_val 0 vs < 2147483600"
  shows "client_request buff (ds @ [LF]) (Some (vs @ [LF])) =
     Inr (Some (percy_bytes (option_request (int (dec_val 0 ds)) (word_of_nat (dec_val 0 vs)))))"
proof -
  let ?n = "dec_val 0 ds" and ?buff = "overwrite buff 0 (ds @ [LF])"
  note pi = process_input_typed [OF assms(2,3,5-10)]
  have len: "12 \<le> length ?buff" using assms(1,4) by simp
  have ok: "percy_ok (option_request (int ?n) v)" for v
    using assms(5,6) by (intro option_request_ok) auto
  have "client_request buff (ds @ [LF]) (Some (vs @ [LF])) =
      Inr (Some (percy_bytes (option_request (int ?n) (if ?n \<le> 8 then 0 else word_of_nat (dec_val 0 vs)))))"
    using pi build_request_bytes [of "int ?n" ?buff] len assms(5,6) length_percy_bytes [OF ok]
    by (simp add: client_request_def Let_def)
  then show ?thesis by (auto simp: option_request_def)
qed

text \<open>The option \<open>10\<close> with the value \<open>2048\<close>.\<close>

theorem client_request_exact_witness:
  "client_request (replicate 1024 0) ([49, 48] @ [LF]) (Some ([50, 48, 52, 56] @ [LF])) =
   Inr (Some [1, 49, 50, 51, 52, 53, 54, 1, 1, 0, 8, 0])"
proof -
  have "client_request (replicate 1024 0) ([49, 48] @ [LF]) (Some ([50, 48, 52, 56] @ [LF])) =
      Inr (Some (percy_bytes (option_request (int (dec_val 0 [49, 48])) (word_of_nat (dec_val 0 [50, 48, 52, 56])))))"
    by (rule client_request_exact) (simp_all add: is_digit_def)
  then show ?thesis by (simp add: percy_bytes_def option_request_def)
qed

text \<open>
  The client reads back every reply of the server: the version, the status, the reserved byte
  and the 64-bit value are those the server put in. The parser is then still in
  \<^verbatim>\<open>percy_response_value\<close>: \<^verbatim>\<open>percy_response_done\<close> takes a twelfth byte, which no reply has.
\<close>

theorem client_reads_reply:
  "\<exists>q. parse_answer p (build_reply ver st rs v) = Inr q \<and>
     rsp_response q = \<lparr>ps_ver = ver, ps_status = st, ps_resv = rs, ps_value = v\<rparr> \<and>
     rsp_state q \<noteq> percy_response_done"
  by (simp add: parse_answer_reply response_state_def)

text \<open>
  The client refuses anything that is not a decimal number: a byte other than a digit before
  the end of the line makes \<^verbatim>\<open>process_value\<close> return -1, whatever follows it.
\<close>

theorem client_refuses_non_digits:
  assumes "digits ds" "length ds \<le> 8" "\<not> is_digit c" "c \<noteq> LF"
  shows "process_value (ds @ c # rest) = Inr None"
proof -
  have "number_loop (es @ c # rest) i (int acc) = Inr None"
    if "digits es" "acc < 10 ^ (8 - length es)" "length es \<le> 8" for es i acc
    using that
  proof (induction es arbitrary: i acc)
    case Nil
    then show ?case using assms(3,4) by simp
  next
    case (Cons d es)
    have d: "is_digit d" "d \<noteq> LF" using Cons.prems(1) by (auto simp: is_digit_def)
    let ?a = "if i = 0 then unat (d - DIG0) else acc * 10 + unat (d - DIG0)"
    have k: "8 - length es = Suc (8 - length (d # es))" using Cons.prems(3) by simp
    then have "?a < 10 ^ (8 - length es)"
      using Cons.prems(2) is_digit_value [OF d(1)] by auto
    moreover have "(10 :: nat) ^ (8 - length es) \<le> 10 ^ 8" by (intro power_increasing) auto
    ultimately have a: "?a < 10 ^ (8 - length es)" "?a < 10 ^ 8" by linarith+
    have u: "uint d - 48 = int (unat (d - DIG0))" by (rule digit_uint [OF d(1)])
    have "int ?a < int (10 ^ 8)" using a(2) by (simp only: of_nat_less_iff)
    then have "i \<noteq> 0 \<Longrightarrow> \<not> INT_MAX < int acc * 10 + uint d" using u by (simp add: INT_MAX_def)
    moreover have "i \<noteq> 0 \<Longrightarrow> int acc * 10 + uint d - 48 = int ?a" using u by simp
    moreover have "i = 0 \<Longrightarrow> uint d - 48 = int ?a" using u by simp
    moreover have "number_loop (es @ c # rest) (Suc i) (int ?a) = Inr None"
      using Cons.IH [OF _ a(1), of "Suc i"] Cons.prems d by simp
    ultimately show ?case using d
      by (cases "i = 0") (simp_all del: of_nat_add of_nat_mult of_nat_unat)
  qed
  from this [of ds 0 0] show ?thesis using assms(1,2) by (simp add: process_value_def)
qed

theorem client_refuses_non_digits_witness: "process_value ([49, 50] @ 97 # [LF]) = Inr None"
  by (rule client_refuses_non_digits) (simp_all add: is_digit_def)

end
