(* ===== verification/Doh_Parser.thy ===== *)
theory Doh_Parser
  imports Request_Line_Parser
begin

text \<open>
  The DNS-over-HTTPS response parser of \<^verbatim>\<open>parsers/doh_parser/doh_parser.c\<close>: header, one question,
  and as many answers as the header announces. \<^verbatim>\<open>answers\<close> is a pointer to a block that is
  allocated when the count is known: \<open>None\<close> is the null pointer. The success of \<^verbatim>\<open>calloc\<close> and the
  library functions \<^verbatim>\<open>inet_pton\<close> and \<^verbatim>\<open>inet_ntop\<close> are gathered in the argument \<open>env\<close>. Prefixes: \<open>df_\<close>
  (flags), \<open>dh_\<close> (header), \<open>dq_\<close> (question), \<open>an_\<close> (answer), \<open>dr_\<close> (response), \<open>dp_\<close> (parser).
\<close>

section \<open>Data\<close>

record doh_flags =
  df_qr :: u8
  df_opcode :: u8
  df_aa :: u8
  df_tc :: u8
  df_rd :: u8
  df_ra :: u8
  df_z :: u8
  df_rcode :: u8

record doh_header =
  dh_id :: u16
  dh_flags :: doh_flags
  dh_qdcount :: u16
  dh_ancount :: u16
  dh_nscount :: u16
  dh_arcount :: u16

record doh_question =
  dq_qname_size :: u8
  dq_qname :: bytes
  dq_qtype :: u16
  dq_qclass :: u16

text \<open>The union \<^verbatim>\<open>a_name\<close>; the pointer is always the address of the question's name.\<close>

datatype answer_name = AName bytes | APtr

text \<open>The union \<^verbatim>\<open>aip\<close> is its sixteen bytes; the member \<^verbatim>\<open>ipv4\<close> is the first four.\<close>

record answer =
  an_name :: answer_name
  an_name_length :: u8
  an_offset :: u16
  an_type :: u16
  an_class :: u16
  an_ttl :: u32
  an_rd_length :: u16
  an_rdata_length :: u16
  an_data :: bytes
  an_ip :: bytes

record doh_response =
  dr_header :: doh_header
  dr_question :: doh_question
  dr_answers :: "answer list option"
  dr_answer_index :: u16

datatype doh_response_state =
    response_header_id
  | response_header_flags
  | response_header_qdcount
  | response_header_ancount
  | response_header_nscount
  | response_header_arcount
  | response_question_qname_label_length
  | response_question_qname_label
  | response_question_qtype
  | response_question_qclass
  | response_answer_name_label_length
  | response_answer_name_label
  | response_answer_name_pointer
  | response_answer_type
  | response_answer_class
  | response_answer_ttl
  | response_answer_rdlength
  | response_answer_ipv4_rdata
  | response_answer_ipv6_rdata
  | response_answer_cname_label_rdata
  | response_answer_cname_label_length_rdata
  | response_answer_cname_pointer_rdata
  | doh_response_done
  | doh_no_answers
  | response_mem_alloc_error
  | doh_response_error

record doh_response_parser =
  dp_response :: doh_response
  dp_state :: doh_response_state
  dp_i :: int
  dp_n :: int

text \<open>
  The environment: whether \<^verbatim>\<open>calloc\<close> can give that many answers; the four bytes \<^verbatim>\<open>inet_pton\<close> makes
  of a dotted address; the text \<^verbatim>\<open>inet_ntop\<close> makes of sixteen bytes.
\<close>

record doh_env =
  env_calloc :: "nat \<Rightarrow> bool"
  env_pton4 :: "bytes \<Rightarrow> bytes option"
  env_ntop6 :: "bytes \<Rightarrow> bytes"

definition IPV4_TYPE :: u16 where "IPV4_TYPE = 1"
definition IPV6_TYPE :: u16 where "IPV6_TYPE = 28"
definition CNAME_TYPE :: u16 where "CNAME_TYPE = 5"
definition MAX_IPV4 :: int where "MAX_IPV4 = 4"
definition MAX_IPV6 :: int where "MAX_IPV6 = 16"
definition MAX_CNAME_LENGTH :: int where "MAX_CNAME_LENGTH = 255"
definition INET6_ADDRSTRLEN :: nat where "INET6_ADDRSTRLEN = 46"

definition zero_answer :: answer where
  "zero_answer =
     \<lparr>an_name = AName (replicate 255 0), an_name_length = 0, an_offset = 0, an_type = 0,
      an_class = 0, an_ttl = 0, an_rd_length = 0, an_rdata_length = 0,
      an_data = replicate 46 0, an_ip = replicate 16 0\<rparr>"

definition zero_flags :: doh_flags where
  "zero_flags = \<lparr>df_qr = 0, df_opcode = 0, df_aa = 0, df_tc = 0, df_rd = 0, df_ra = 0, df_z = 0,
                 df_rcode = 0\<rparr>"

definition zero_doh_response :: doh_response where
  "zero_doh_response =
     \<lparr>dr_header = \<lparr>dh_id = 0, dh_flags = zero_flags, dh_qdcount = 0, dh_ancount = 0, dh_nscount = 0,
                   dh_arcount = 0\<rparr>,
      dr_question = \<lparr>dq_qname_size = 0, dq_qname = replicate 255 0, dq_qtype = 0, dq_qclass = 0\<rparr>,
      dr_answers = None, dr_answer_index = 0\<rparr>"

definition doh_response_parser_init :: "doh_response_parser \<Rightarrow> doh_response_parser" where
  "doh_response_parser_init p =
     p\<lparr>dp_state := response_header_id, dp_i := 0, dp_n := 2, dp_response := zero_doh_response\<rparr>"

definition doh_response_parser_destroy :: "doh_response_parser \<Rightarrow> doh_response_parser" where
  "doh_response_parser_destroy p =
     (if dr_answers (dp_response p) \<noteq> None
      then p\<lparr>dp_response := (dp_response p)\<lparr>dr_answers := None\<rparr>\<rparr> else p)"

section \<open>Access to the nested structures\<close>

type_synonym doh_result = "fault + (doh_response_parser \<times> doh_response_state)"

definition upd_header :: "(doh_header \<Rightarrow> doh_header) \<Rightarrow> doh_response_parser \<Rightarrow> doh_response_parser"
  where
  "upd_header f p =
     p\<lparr>dp_response := (dp_response p)\<lparr>dr_header := f (dr_header (dp_response p))\<rparr>\<rparr>"

definition upd_question ::
  "(doh_question \<Rightarrow> doh_question) \<Rightarrow> doh_response_parser \<Rightarrow> doh_response_parser" where
  "upd_question f p =
     p\<lparr>dp_response := (dp_response p)\<lparr>dr_question := f (dr_question (dp_response p))\<rparr>\<rparr>"

text \<open>\<^verbatim>\<open>answers[answer_index]\<close>, read and updated.\<close>

definition current_answer :: "doh_response_parser \<Rightarrow> fault + answer" where
  "current_answer p =
     (case dr_answers (dp_response p) of
        None \<Rightarrow> Inl NullDeref
      | Some as \<Rightarrow> arr_get as (uint (dr_answer_index (dp_response p))))"

definition upd_answer ::
  "(answer \<Rightarrow> fault + answer) \<Rightarrow> doh_response_parser \<Rightarrow> fault + doh_response_parser" where
  "upd_answer f p =
     (case dr_answers (dp_response p) of
        None \<Rightarrow> Inl NullDeref
      | Some as \<Rightarrow>
          let k = uint (dr_answer_index (dp_response p))
          in bindR (arr_get as k) (\<lambda>a. bindR (f a) (\<lambda>a'. bindR (arr_set as k a') (\<lambda>as'.
             Inr (p\<lparr>dp_response := (dp_response p)\<lparr>dr_answers := Some as'\<rparr>\<rparr>)))))"

text \<open>The two bytes of a 16-bit field, high byte first.\<close>

definition hi16 :: "u8 \<Rightarrow> u16" where "hi16 c = push_bit 8 (ucast c)"
definition lo16 :: "u8 \<Rightarrow> u16 \<Rightarrow> u16" where "lo16 c v = v + ucast c"

section \<open>Header\<close>

definition r_header_id :: "doh_response_parser \<Rightarrow> u8 \<Rightarrow> doh_result" where
  "r_header_id p c =
     (if dp_i p = 0
      then Inr (upd_header (\<lambda>h. h\<lparr>dh_id := hi16 c\<rparr>) (p\<lparr>dp_i := 1\<rparr>), response_header_id)
      else if dp_i p = 1
      then Inr (upd_header (\<lambda>h. h\<lparr>dh_id := lo16 c (dh_id h)\<rparr>) (p\<lparr>dp_i := 0, dp_n := 2\<rparr>),
                response_header_flags)
      else Inr (p, doh_response_error))"

definition flags_high :: "u8 \<Rightarrow> doh_flags \<Rightarrow> doh_flags" where
  "flags_high c f =
     f\<lparr>df_qr := drop_bit 7 c AND 1, df_opcode := drop_bit 3 c AND 15, df_aa := drop_bit 2 c AND 1,
       df_tc := drop_bit 1 c AND 1, df_rd := c AND 1\<rparr>"

definition flags_low :: "u8 \<Rightarrow> doh_flags \<Rightarrow> doh_flags" where
  "flags_low c f = f\<lparr>df_ra := drop_bit 7 c AND 1, df_z := drop_bit 4 c AND 7, df_rcode := c AND 15\<rparr>"

definition r_header_flags :: "doh_response_parser \<Rightarrow> u8 \<Rightarrow> doh_result" where
  "r_header_flags p c =
     (if dp_i p = 0
      then Inr (upd_header (\<lambda>h. h\<lparr>dh_flags := flags_high c (dh_flags h)\<rparr>) (p\<lparr>dp_i := 1\<rparr>),
                response_header_flags)
      else if dp_i p = 1
      then Inr (upd_header (\<lambda>h. h\<lparr>dh_flags := flags_low c (dh_flags h)\<rparr>) (p\<lparr>dp_i := 0, dp_n := 2\<rparr>),
                response_header_qdcount)
      else Inr (p, doh_response_error))"

definition r_header_qdcount :: "doh_response_parser \<Rightarrow> u8 \<Rightarrow> doh_result" where
  "r_header_qdcount p c =
     (if dp_i p = 0
      then Inr (upd_header (\<lambda>h. h\<lparr>dh_qdcount := hi16 c\<rparr>) (p\<lparr>dp_i := 1\<rparr>), response_header_qdcount)
      else if dp_i p = 1
      then Inr (upd_header (\<lambda>h. h\<lparr>dh_qdcount := lo16 c (dh_qdcount h)\<rparr>) (p\<lparr>dp_i := 0, dp_n := 2\<rparr>),
                response_header_ancount)
      else Inr (p, doh_response_error))"

definition r_header_ancount :: "doh_env \<Rightarrow> doh_response_parser \<Rightarrow> u8 \<Rightarrow> doh_result" where
  "r_header_ancount env p c =
     (if dp_i p = 0
      then Inr (upd_header (\<lambda>h. h\<lparr>dh_ancount := hi16 c\<rparr>) (p\<lparr>dp_i := 1\<rparr>), response_header_ancount)
      else if dp_i p = 1
      then let p = upd_header (\<lambda>h. h\<lparr>dh_ancount := lo16 c (dh_ancount h)\<rparr>) (p\<lparr>dp_i := 0, dp_n := 2\<rparr>);
               n = dh_ancount (dr_header (dp_response p))
           in if n = 0 then Inr (p, doh_no_answers)
              else if env_calloc env (unat n)
              then Inr (p\<lparr>dp_response := (dp_response p)
                            \<lparr>dr_answers := Some (replicate (unat n) zero_answer)\<rparr>\<rparr>,
                        response_header_nscount)
              else Inr (p\<lparr>dp_response := (dp_response p)\<lparr>dr_answers := None\<rparr>\<rparr>,
                        response_mem_alloc_error)
      else Inr (p, doh_response_error))"

definition r_header_nscount :: "doh_response_parser \<Rightarrow> u8 \<Rightarrow> doh_result" where
  "r_header_nscount p c =
     (if dp_i p = 0
      then Inr (upd_header (\<lambda>h. h\<lparr>dh_nscount := hi16 c\<rparr>) (p\<lparr>dp_i := 1\<rparr>), response_header_nscount)
      else if dp_i p = 1
      then Inr (upd_header (\<lambda>h. h\<lparr>dh_nscount := lo16 c (dh_nscount h)\<rparr>) (p\<lparr>dp_i := 0, dp_n := 2\<rparr>),
                response_header_arcount)
      else Inr (p, doh_response_error))"

definition r_header_arcount :: "doh_response_parser \<Rightarrow> u8 \<Rightarrow> doh_result" where
  "r_header_arcount p c =
     (if dp_i p = 0
      then Inr (upd_header (\<lambda>h. h\<lparr>dh_arcount := hi16 c\<rparr>) (p\<lparr>dp_i := 1\<rparr>), response_header_arcount)
      else if dp_i p = 1
      then Inr (upd_header (\<lambda>h. h\<lparr>dh_arcount := lo16 c (dh_arcount h)\<rparr>) p,
                response_question_qname_label_length)
      else Inr (p, doh_response_error))"

section \<open>Question\<close>

definition r_question_qname_label_length :: "doh_response_parser \<Rightarrow> u8 \<Rightarrow> doh_result" where
  "r_question_qname_label_length p c =
     (if c = 0 then Inr (p\<lparr>dp_i := 0, dp_n := 2\<rparr>, response_question_qtype)
      else Inr (p\<lparr>dp_i := 0, dp_n := uint c\<rparr>, response_question_qname_label))"

text \<open>\<^verbatim>\<open>qname[qname_size++] = c\<close>\<close>

definition qname_push :: "u8 \<Rightarrow> doh_response_parser \<Rightarrow> fault + doh_response_parser" where
  "qname_push c p =
     (let q = dr_question (dp_response p)
      in bindR (arr_set (dq_qname q) (uint (dq_qname_size q)) c) (\<lambda>qn.
         Inr (upd_question (\<lambda>q. q\<lparr>dq_qname := qn, dq_qname_size := dq_qname_size q + 1\<rparr>) p)))"

definition r_question_qname_label :: "doh_response_parser \<Rightarrow> u8 \<Rightarrow> doh_result" where
  "r_question_qname_label p c =
     (if dp_i p \<ge> dp_n p then Inr (p, doh_response_error)
      else bindR (qname_push c (p\<lparr>dp_i := dp_i p + 1\<rparr>)) (\<lambda>p.
           if dp_i p = dp_n p
           then bindR (qname_push DOT p) (\<lambda>p. Inr (p, response_question_qname_label_length))
           else Inr (p, response_question_qname_label)))"

definition r_question_qtype :: "doh_response_parser \<Rightarrow> u8 \<Rightarrow> doh_result" where
  "r_question_qtype p c =
     (if dp_i p = 0
      then Inr (upd_question (\<lambda>q. q\<lparr>dq_qtype := hi16 c\<rparr>) (p\<lparr>dp_i := 1\<rparr>), response_question_qtype)
      else if dp_i p = 1
      then Inr (upd_question (\<lambda>q. q\<lparr>dq_qtype := lo16 c (dq_qtype q)\<rparr>) (p\<lparr>dp_i := 0, dp_n := 2\<rparr>),
                response_question_qclass)
      else Inr (p, doh_response_error))"

definition r_question_qclass :: "doh_response_parser \<Rightarrow> u8 \<Rightarrow> doh_result" where
  "r_question_qclass p c =
     (if dp_i p = 0
      then Inr (upd_question (\<lambda>q. q\<lparr>dq_qclass := hi16 c\<rparr>) (p\<lparr>dp_i := 1\<rparr>), response_question_qclass)
      else if dp_i p = 1
      then Inr (upd_question (\<lambda>q. q\<lparr>dq_qclass := lo16 c (dq_qclass q)\<rparr>) (p\<lparr>dp_i := 0\<rparr>),
                response_answer_name_label_length)
      else Inr (p, doh_response_error))"

section \<open>Answers\<close>

text \<open>\<^verbatim>\<open>c >> 6 == 0x03\<close>: a compression pointer.\<close>

definition is_pointer :: "u8 \<Rightarrow> bool" where
  "is_pointer c \<longleftrightarrow> drop_bit 6 c = 3"

definition r_answer_name_label_length :: "doh_response_parser \<Rightarrow> u8 \<Rightarrow> doh_result" where
  "r_answer_name_label_length p c =
     (if c = 0 then Inr (p\<lparr>dp_i := 0, dp_n := 2\<rparr>, response_answer_type)
      else if is_pointer c
      then bindR (upd_answer (\<lambda>a. Inr (a\<lparr>an_offset := push_bit 8 (ucast c AND 63)\<rparr>))
                    (p\<lparr>dp_i := 1, dp_n := 2\<rparr>)) (\<lambda>p.
           Inr (p, response_answer_name_pointer))
      else Inr (p\<lparr>dp_i := 0, dp_n := uint c\<rparr>, response_answer_name_label))"

text \<open>\<^verbatim>\<open>a_name.name[name_length++] = c\<close> on the current answer.\<close>

definition name_push :: "u8 \<Rightarrow> answer \<Rightarrow> fault + answer" where
  "name_push c a =
     (case an_name a of
        APtr \<Rightarrow> Inl UnionMisread
      | AName nm \<Rightarrow> bindR (arr_set nm (uint (an_name_length a)) c) (\<lambda>nm.
          Inr (a\<lparr>an_name := AName nm, an_name_length := an_name_length a + 1\<rparr>)))"

definition r_answer_name_label :: "doh_response_parser \<Rightarrow> u8 \<Rightarrow> doh_result" where
  "r_answer_name_label p c =
     (if dp_i p \<ge> dp_n p then Inr (p, doh_response_error)
      else bindR (upd_answer (name_push c) (p\<lparr>dp_i := dp_i p + 1\<rparr>)) (\<lambda>p.
           if dp_i p = dp_n p
           then bindR (upd_answer (name_push DOT) p) (\<lambda>p.
                Inr (p, response_answer_name_label_length))
           else Inr (p, response_answer_name_label)))"

definition r_answer_name_pointer :: "doh_response_parser \<Rightarrow> u8 \<Rightarrow> doh_result" where
  "r_answer_name_pointer p c =
     (if dp_i p = 1
      then bindR (upd_answer (\<lambda>a. Inr (a\<lparr>an_offset := lo16 c (an_offset a), an_name := APtr\<rparr>))
                    (p\<lparr>dp_i := 0, dp_n := 2\<rparr>)) (\<lambda>p.
           Inr (p, response_answer_type))
      else Inr (p, doh_response_error))"

definition r_answer_type :: "doh_response_parser \<Rightarrow> u8 \<Rightarrow> doh_result" where
  "r_answer_type p c =
     (if dp_i p = 0
      then bindR (upd_answer (\<lambda>a. Inr (a\<lparr>an_type := hi16 c\<rparr>)) (p\<lparr>dp_i := 1\<rparr>)) (\<lambda>p.
           Inr (p, response_answer_type))
      else if dp_i p = 1
      then bindR (upd_answer (\<lambda>a. Inr (a\<lparr>an_type := lo16 c (an_type a)\<rparr>))
                    (p\<lparr>dp_i := 0, dp_n := 2\<rparr>)) (\<lambda>p.
           Inr (p, response_answer_class))
      else Inr (p, doh_response_error))"

definition r_answer_class :: "doh_response_parser \<Rightarrow> u8 \<Rightarrow> doh_result" where
  "r_answer_class p c =
     (if dp_i p = 0
      then bindR (upd_answer (\<lambda>a. Inr (a\<lparr>an_class := hi16 c\<rparr>)) (p\<lparr>dp_i := 1\<rparr>)) (\<lambda>p.
           Inr (p, response_answer_class))
      else if dp_i p = 1
      then bindR (upd_answer (\<lambda>a. Inr (a\<lparr>an_class := lo16 c (an_class a)\<rparr>))
                    (p\<lparr>dp_i := 0, dp_n := 4\<rparr>)) (\<lambda>p.
           Inr (p, response_answer_ttl))
      else Inr (p, doh_response_error))"

definition r_answer_ttl :: "doh_response_parser \<Rightarrow> u8 \<Rightarrow> doh_result" where
  "r_answer_ttl p c =
     (if dp_i p = 0
      then bindR (upd_answer (\<lambda>a. Inr (a\<lparr>an_ttl := push_bit 24 (ucast c)\<rparr>)) (p\<lparr>dp_i := 1\<rparr>)) (\<lambda>p.
           Inr (p, response_answer_ttl))
      else if dp_i p = 1
      then bindR (upd_answer (\<lambda>a. Inr (a\<lparr>an_ttl := an_ttl a + push_bit 16 (ucast c)\<rparr>))
                    (p\<lparr>dp_i := 2\<rparr>)) (\<lambda>p. Inr (p, response_answer_ttl))
      else if dp_i p = 2
      then bindR (upd_answer (\<lambda>a. Inr (a\<lparr>an_ttl := an_ttl a + push_bit 8 (ucast c)\<rparr>))
                    (p\<lparr>dp_i := 3\<rparr>)) (\<lambda>p. Inr (p, response_answer_ttl))
      else if dp_i p = 3
      then bindR (upd_answer (\<lambda>a. Inr (a\<lparr>an_ttl := an_ttl a + ucast c\<rparr>))
                    (p\<lparr>dp_i := 0, dp_n := 2\<rparr>)) (\<lambda>p. Inr (p, response_answer_rdlength))
      else Inr (p, doh_response_error))"

definition r_answer_rdlength :: "doh_response_parser \<Rightarrow> u8 \<Rightarrow> doh_result" where
  "r_answer_rdlength p c =
     (if dp_i p = 0
      then bindR (upd_answer (\<lambda>a. Inr (a\<lparr>an_rd_length := hi16 c\<rparr>)) (p\<lparr>dp_i := 1\<rparr>)) (\<lambda>p.
           Inr (p, response_answer_rdlength))
      else if dp_i p = 1
      then bindR (upd_answer (\<lambda>a. Inr (a\<lparr>an_rd_length := lo16 c (an_rd_length a)\<rparr>))
                    (p\<lparr>dp_i := 0\<rparr>)) (\<lambda>p.
           bindR (current_answer p) (\<lambda>a.
             if an_type a = IPV4_TYPE then Inr (p\<lparr>dp_n := MAX_IPV4\<rparr>, response_answer_ipv4_rdata)
             else if an_type a = IPV6_TYPE
             then Inr (p\<lparr>dp_n := MAX_IPV6\<rparr>, response_answer_ipv6_rdata)
             else if an_type a = CNAME_TYPE
             then Inr (p\<lparr>dp_n := MAX_CNAME_LENGTH\<rparr>, response_answer_cname_label_length_rdata)
             else Inr (p, doh_response_error)))
      else Inr (p, doh_response_error))"

text \<open>\<^verbatim>\<open>++answer_index == ancount\<close>: the state after a whole answer.\<close>

definition next_answer :: "doh_response_parser \<Rightarrow> doh_response_parser \<times> doh_response_state" where
  "next_answer p =
     (let p = p\<lparr>dp_response := (dp_response p)
                  \<lparr>dr_answer_index := dr_answer_index (dp_response p) + 1\<rparr>\<rparr>
      in (p, if dr_answer_index (dp_response p) = dh_ancount (dr_header (dp_response p))
             then doh_response_done else response_answer_name_label_length))"

text \<open>\<^verbatim>\<open>sprintf(dst, "%u", c)\<close>: the decimal digits; \<open>store\<close> writes bytes from an index on.\<close>

fun dec_text :: "nat \<Rightarrow> bytes" where
  "dec_text n = (if n < 10 then [48 + word_of_nat n]
                 else dec_text (n div 10) @ [48 + word_of_nat (n mod 10)])"

declare dec_text.simps [simp del]

definition store :: "bytes \<Rightarrow> nat \<Rightarrow> bytes \<Rightarrow> fault + bytes" where
  "store xs i ys =
     (if i + length ys \<le> length xs then Inr (overwrite xs i ys) else Inl OutOfBounds)"

definition ipv4_digit :: "u8 \<Rightarrow> answer \<Rightarrow> fault + answer" where
  "ipv4_digit c a =
     (let t = dec_text (unat c); k = an_rdata_length a
      in bindR (store (an_data a) (unat k) (t @ [0])) (\<lambda>d.
         let k = k + word_of_nat (length t)
         in bindR (arr_set d (uint k) DOT) (\<lambda>d.
            Inr (a\<lparr>an_data := d, an_rdata_length := k + 1\<rparr>))))"

definition ipv4_finish :: "doh_env \<Rightarrow> answer \<Rightarrow> fault + answer" where
  "ipv4_finish env a =
     (let k = an_rdata_length a - 1
      in bindR (arr_set (an_data a) (uint k) 0) (\<lambda>d.
         bindR (c_string d) (\<lambda>s.
         let a = a\<lparr>an_data := d, an_rdata_length := k\<rparr>
         in case env_pton4 env s of
              None \<Rightarrow> Inr a
            | Some b \<Rightarrow> bindR (store (an_ip a) 0 b) (\<lambda>ip. Inr (a\<lparr>an_ip := ip\<rparr>)))))"

definition r_answer_ipv4_rdata :: "doh_env \<Rightarrow> doh_response_parser \<Rightarrow> u8 \<Rightarrow> doh_result" where
  "r_answer_ipv4_rdata env p c =
     (if dp_i p \<ge> dp_n p then Inr (p, doh_response_error)
      else bindR (upd_answer (ipv4_digit c) p) (\<lambda>p.
           let p = p\<lparr>dp_i := dp_i p + 1\<rparr>
           in if dp_i p = dp_n p
              then bindR (upd_answer (ipv4_finish env) p) (\<lambda>p. Inr (next_answer p))
              else Inr (p, response_answer_ipv4_rdata)))"

text \<open>\<^verbatim>\<open>inet_ntop\<close> writes its text and a NUL when they fit in the size it is given.\<close>

definition ipv6_finish :: "doh_env \<Rightarrow> answer \<Rightarrow> fault + answer" where
  "ipv6_finish env a =
     (let t = env_ntop6 env (an_ip a); size = INET6_ADDRSTRLEN - 1;
          a = a\<lparr>an_rdata_length := word_of_nat size\<rparr>
      in if length t < size
         then bindR (store (an_data a) 0 (t @ [0])) (\<lambda>d. Inr (a\<lparr>an_data := d\<rparr>))
         else Inr a)"

definition r_answer_ipv6_rdata :: "doh_env \<Rightarrow> doh_response_parser \<Rightarrow> u8 \<Rightarrow> doh_result" where
  "r_answer_ipv6_rdata env p c =
     (if dp_i p \<ge> dp_n p then Inr (p, doh_response_error)
      else bindR (upd_answer (\<lambda>a. bindR (arr_set (an_ip a) (dp_i p) c) (\<lambda>ip.
                    Inr (a\<lparr>an_ip := ip\<rparr>))) (p\<lparr>dp_i := dp_i p + 1\<rparr>)) (\<lambda>p.
           if dp_i p = dp_n p
           then bindR (upd_answer (ipv6_finish env) p) (\<lambda>p. Inr (next_answer p))
           else Inr (p, response_answer_ipv6_rdata)))"

definition r_answer_cname_label_length_rdata :: "doh_response_parser \<Rightarrow> u8 \<Rightarrow> doh_result" where
  "r_answer_cname_label_length_rdata p c =
     (if c = 0 then Inr (next_answer p)
      else if is_pointer c
      then Inr (p\<lparr>dp_i := 1, dp_n := 2\<rparr>, response_answer_cname_pointer_rdata)
      else Inr (p\<lparr>dp_i := 0, dp_n := uint c\<rparr>, response_answer_cname_label_rdata))"

definition r_answer_cname_label_rdata :: "doh_response_parser \<Rightarrow> u8 \<Rightarrow> doh_result" where
  "r_answer_cname_label_rdata p c =
     (if dp_i p \<ge> dp_n p then Inr (p, doh_response_error)
      else let p = p\<lparr>dp_i := dp_i p + 1\<rparr>
           in Inr (p, if dp_i p = dp_n p then response_answer_cname_label_length_rdata
                      else response_answer_cname_label_rdata))"

definition r_answer_cname_pointer_rdata :: "doh_response_parser \<Rightarrow> u8 \<Rightarrow> doh_result" where
  "r_answer_cname_pointer_rdata p c =
     (if dp_i p = 1 then Inr (next_answer (p\<lparr>dp_i := 0\<rparr>)) else Inr (p, doh_response_error))"

definition doh_step :: "doh_env \<Rightarrow> doh_response_parser \<Rightarrow> u8 \<Rightarrow> doh_result" where
  "doh_step env p c =
     (case dp_state p of
        response_header_id \<Rightarrow> r_header_id p c
      | response_header_flags \<Rightarrow> r_header_flags p c
      | response_header_qdcount \<Rightarrow> r_header_qdcount p c
      | response_header_ancount \<Rightarrow> r_header_ancount env p c
      | response_header_nscount \<Rightarrow> r_header_nscount p c
      | response_header_arcount \<Rightarrow> r_header_arcount p c
      | response_question_qname_label_length \<Rightarrow> r_question_qname_label_length p c
      | response_question_qname_label \<Rightarrow> r_question_qname_label p c
      | response_question_qtype \<Rightarrow> r_question_qtype p c
      | response_question_qclass \<Rightarrow> r_question_qclass p c
      | response_answer_name_label_length \<Rightarrow> r_answer_name_label_length p c
      | response_answer_name_label \<Rightarrow> r_answer_name_label p c
      | response_answer_name_pointer \<Rightarrow> r_answer_name_pointer p c
      | response_answer_type \<Rightarrow> r_answer_type p c
      | response_answer_class \<Rightarrow> r_answer_class p c
      | response_answer_ttl \<Rightarrow> r_answer_ttl p c
      | response_answer_rdlength \<Rightarrow> r_answer_rdlength p c
      | response_answer_ipv4_rdata \<Rightarrow> r_answer_ipv4_rdata env p c
      | response_answer_ipv6_rdata \<Rightarrow> r_answer_ipv6_rdata env p c
      | response_answer_cname_label_rdata \<Rightarrow> r_answer_cname_label_rdata p c
      | response_answer_cname_label_length_rdata \<Rightarrow> r_answer_cname_label_length_rdata p c
      | response_answer_cname_pointer_rdata \<Rightarrow> r_answer_cname_pointer_rdata p c
      | doh_response_done \<Rightarrow> Inr (p, dp_state p)
      | doh_no_answers \<Rightarrow> Inr (p, dp_state p)
      | response_mem_alloc_error \<Rightarrow> Inr (p, dp_state p)
      | doh_response_error \<Rightarrow> Inr (p, dp_state p))"

definition doh_response_parser_feed ::
  "doh_env \<Rightarrow> doh_response_parser \<Rightarrow> u8 \<Rightarrow> fault + doh_response_parser" where
  "doh_response_parser_feed env p c =
     bindR (doh_step env p c) (\<lambda>(p', next). Inr (p'\<lparr>dp_state := next\<rparr>))"

definition doh_fin :: "doh_response_parser \<Rightarrow> bool" where
  "doh_fin p \<longleftrightarrow>
     dp_state p \<in> {doh_response_done, doh_no_answers, response_mem_alloc_error, doh_response_error}"

interpretation doh: byte_parser "doh_response_parser_feed env" "\<lambda>_. True" doh_fin for env
  by unfold_locales (auto simp: doh_fin_def doh_response_parser_feed_def doh_step_def)

section \<open>Messages\<close>

text \<open>
  What the wire carries: a header, a question with a name in labels, and answers. A name of an
  answer is in labels, or a pointer after some labels; the data is an address or a name.
\<close>

definition label_wire :: "bytes \<Rightarrow> bytes" where
  "label_wire l = word_of_nat (length l) # l"

definition labels_wire :: "bytes list \<Rightarrow> bytes" where
  "labels_wire ls = concat (map label_wire ls)"

text \<open>The labels as the parser stores them: each followed by a dot.\<close>

definition dotted :: "bytes list \<Rightarrow> bytes" where
  "dotted ls = concat (map (\<lambda>l. l @ [DOT]) ls)"

definition label_ok :: "bytes \<Rightarrow> bool" where
  "label_ok l \<longleftrightarrow> l \<noteq> [] \<and> length l \<le> 63"

definition name_ok :: "bytes list \<Rightarrow> bool" where
  "name_ok ls \<longleftrightarrow> (\<forall>l\<in>set ls. label_ok l) \<and> length (dotted ls) \<le> 255"

datatype name_end = Root | Pointer u8 u8

fun end_wire :: "name_end \<Rightarrow> bytes" where
  "end_wire Root = [0]"
| "end_wire (Pointer hi lo) = [hi, lo]"

fun end_ok :: "name_end \<Rightarrow> bool" where
  "end_ok Root \<longleftrightarrow> True"
| "end_ok (Pointer hi lo) \<longleftrightarrow> is_pointer hi"

datatype rdata = A u8 u8 u8 u8 | AAAA bytes | CNAME "bytes list" name_end

fun rdata_type :: "rdata \<Rightarrow> u16" where
  "rdata_type (A _ _ _ _) = 1"
| "rdata_type (AAAA _) = 28"
| "rdata_type (CNAME _ _) = 5"

fun rdata_wire :: "rdata \<Rightarrow> bytes" where
  "rdata_wire (A a b c d) = [a, b, c, d]"
| "rdata_wire (AAAA bs) = bs"
| "rdata_wire (CNAME ls e) = labels_wire ls @ end_wire e"

fun rdata_ok :: "rdata \<Rightarrow> bool" where
  "rdata_ok (A _ _ _ _) \<longleftrightarrow> True"
| "rdata_ok (AAAA bs) \<longleftrightarrow> length bs = 16"
| "rdata_ok (CNAME ls e) \<longleftrightarrow> (\<forall>l\<in>set ls. label_ok l) \<and> end_ok e"

record record_wire =
  rw_labels :: "bytes list"
  rw_end :: name_end
  rw_class :: u16
  rw_ttl :: u32
  rw_rdlength :: u16
  rw_rdata :: rdata

definition record_bytes :: "record_wire \<Rightarrow> bytes" where
  "record_bytes r =
     labels_wire (rw_labels r) @ end_wire (rw_end r) @ be16 (rdata_type (rw_rdata r)) @
     be16 (rw_class r) @ be32 (rw_ttl r) @ be16 (rw_rdlength r) @ rdata_wire (rw_rdata r)"

definition record_ok :: "record_wire \<Rightarrow> bool" where
  "record_ok r \<longleftrightarrow> name_ok (rw_labels r) \<and> end_ok (rw_end r) \<and> rdata_ok (rw_rdata r)"

record message =
  ms_id :: u16
  ms_flags_high :: u8
  ms_flags_low :: u8
  ms_qdcount :: u16
  ms_nscount :: u16
  ms_arcount :: u16
  ms_qname :: "bytes list"
  ms_qtype :: u16
  ms_qclass :: u16
  ms_records :: "record_wire list"

definition message_bytes :: "message \<Rightarrow> bytes" where
  "message_bytes m =
     be16 (ms_id m) @ [ms_flags_high m, ms_flags_low m] @ be16 (ms_qdcount m) @
     be16 (word_of_nat (length (ms_records m))) @ be16 (ms_nscount m) @ be16 (ms_arcount m) @
     labels_wire (ms_qname m) @ [0] @ be16 (ms_qtype m) @ be16 (ms_qclass m) @
     concat (map record_bytes (ms_records m))"

definition message_ok :: "message \<Rightarrow> bool" where
  "message_ok m \<longleftrightarrow>
     name_ok (ms_qname m) \<and> (\<forall>r\<in>set (ms_records m). record_ok r) \<and>
     0 < length (ms_records m) \<and> length (ms_records m) < 65536"

section \<open>The steps of the parser on each field\<close>

lemma hi_lo_16: "lo16 (ucast v) (hi16 (ucast (drop_bit 8 v))) = v"
  by (simp add: lo16_def hi16_def join_u16)

definition dst :: "doh_response \<Rightarrow> doh_response_state \<Rightarrow> int \<Rightarrow> int \<Rightarrow> doh_response_parser" where
  "dst R s i n = \<lparr>dp_response = R, dp_state = s, dp_i = i, dp_n = n\<rparr>"

lemmas doh_feed_defs = doh_response_parser_feed_def doh_step_def dst_def

definition header_value :: "message \<Rightarrow> doh_header" where
  "header_value m =
     \<lparr>dh_id = ms_id m, dh_flags = flags_low (ms_flags_low m) (flags_high (ms_flags_high m) zero_flags),
      dh_qdcount = ms_qdcount m, dh_ancount = word_of_nat (length (ms_records m)),
      dh_nscount = ms_nscount m, dh_arcount = ms_arcount m\<rparr>"

lemma run_header:
  assumes "message_ok m" "env_calloc env (length (ms_records m))"
  shows "run (doh_response_parser_feed env) (doh_response_parser_init p)
     (be16 (ms_id m) @ [ms_flags_high m, ms_flags_low m] @ be16 (ms_qdcount m) @
      be16 (word_of_nat (length (ms_records m))) @ be16 (ms_nscount m) @ be16 (ms_arcount m)) =
   Inr (dst (zero_doh_response\<lparr>dr_header := header_value m,
          dr_answers := Some (replicate (length (ms_records m)) zero_answer)\<rparr>)
        response_question_qname_label_length 1 2)"
proof -
  let ?n = "word_of_nat (length (ms_records m)) :: u16"
  have n: "unat ?n = length (ms_records m)" "?n \<noteq> 0"
    using assms(1) unat_of_nat16 [of "length (ms_records m)"] by (auto simp: message_ok_def)
  have "run (doh_response_parser_feed env) (doh_response_parser_init p)
      (be16 (ms_id m) @ [ms_flags_high m, ms_flags_low m] @ be16 (ms_qdcount m)) =
      Inr (dst (zero_doh_response\<lparr>dr_header := (dr_header zero_doh_response)
         \<lparr>dh_id := ms_id m, dh_flags := flags_low (ms_flags_low m) (flags_high (ms_flags_high m) zero_flags),
          dh_qdcount := ms_qdcount m\<rparr>\<rparr>) response_header_ancount 0 2)"
    by (cases p)
      (simp add: be16_def doh_feed_defs doh_response_parser_init_def r_header_id_def r_header_flags_def
        r_header_qdcount_def upd_header_def hi_lo_16 zero_doh_response_def)
  moreover have "run (doh_response_parser_feed env)
      (dst (zero_doh_response\<lparr>dr_header := (dr_header zero_doh_response)
         \<lparr>dh_id := ms_id m, dh_flags := flags_low (ms_flags_low m) (flags_high (ms_flags_high m) zero_flags),
          dh_qdcount := ms_qdcount m\<rparr>\<rparr>) response_header_ancount 0 2)
      (be16 ?n @ be16 (ms_nscount m) @ be16 (ms_arcount m)) =
      Inr (dst (zero_doh_response\<lparr>dr_header := header_value m,
          dr_answers := Some (replicate (length (ms_records m)) zero_answer)\<rparr>)
        response_question_qname_label_length 1 2)"
    using n assms(2)
    by (simp add: be16_def doh_feed_defs r_header_ancount_def r_header_nscount_def r_header_arcount_def
        upd_header_def hi_lo_16 zero_doh_response_def header_value_def Let_def)
  ultimately show ?thesis using run_then by fastforce
qed

text \<open>The response while the question's name is being read: \<open>pre\<close> is what has been stored.\<close>

definition with_q :: "doh_response \<Rightarrow> bytes \<Rightarrow> u16 \<Rightarrow> u16 \<Rightarrow> doh_response" where
  "with_q R pre t c = R\<lparr>dr_question := \<lparr>dq_qname_size = word_of_nat (length pre), dq_qname = pad 255 pre,
     dq_qtype = t, dq_qclass = c\<rparr>\<rparr>"

lemma qname_push_value:
  assumes "dp_response p = with_q R pre t k" "length pre < 255"
  shows "qname_push c p = Inr (p\<lparr>dp_response := with_q R (pre @ [c]) t k\<rparr>)"
proof -
  have "uint (word_of_nat (length pre) :: u8) = int (length pre)"
    using assms(2) by (intro uint_of_nat8) simp
  then show ?thesis using assms
    by (simp add: qname_push_def with_q_def arr_set_pad upd_question_def pad_snoc del: of_nat_Suc)
      (simp add: algebra_simps)
qed

lemma run_qlabel:
  "l \<noteq> [] \<Longrightarrow> length (pre @ l) < 255 \<Longrightarrow>
   run (doh_response_parser_feed env)
     (dst (with_q R pre 0 0) response_question_qname_label i (i + int (length l))) l =
   Inr (dst (with_q R (pre @ l @ [DOT]) 0 0) response_question_qname_label_length
     (i + int (length l)) (i + int (length l)))"
proof (induction l arbitrary: pre i)
  case Nil
  then show ?case by simp
next
  case (Cons c l)
  show ?case
  proof (cases "l = []")
    case True
    then show ?thesis using Cons.prems
      by (simp add: doh_feed_defs r_question_qname_label_def qname_push_value)
  next
    case False
    then have "doh_response_parser_feed env
        (dst (with_q R pre 0 0) response_question_qname_label i (i + int (length (c # l)))) c =
        Inr (dst (with_q R (pre @ [c]) 0 0) response_question_qname_label (i + 1) (i + 1 + int (length l)))"
      using Cons.prems by (simp add: doh_feed_defs r_question_qname_label_def qname_push_value)
    then show ?thesis using Cons.IH [of "pre @ [c]" "i + 1"] False Cons.prems(2)
      by (simp add: algebra_simps)
  qed
qed

lemma uint_label_length: "label_ok l \<Longrightarrow> uint (word_of_nat (length l) :: u8) = int (length l)"
  by (intro uint_of_nat8) (auto simp: label_ok_def)

lemma label_length_nonzero: "label_ok l \<Longrightarrow> (word_of_nat (length l) :: u8) \<noteq> 0"
  using uint_label_length [of l] by (auto simp: label_ok_def)

lemma run_qlabels:
  "\<forall>l\<in>set ls. label_ok l \<Longrightarrow> length (pre @ dotted ls) \<le> 255 \<Longrightarrow>
   \<exists>i n. run (doh_response_parser_feed env)
     (dst (with_q R pre 0 0) response_question_qname_label_length i0 n0) (labels_wire ls) =
   Inr (dst (with_q R (pre @ dotted ls) 0 0) response_question_qname_label_length i n)"
proof (induction ls arbitrary: pre i0 n0)
  case Nil
  then show ?case by (auto simp: labels_wire_def dotted_def)
next
  case (Cons l ls)
  have l: "label_ok l" "l \<noteq> []" using Cons.prems(1) by (auto simp: label_ok_def)
  have len: "length (pre @ l) < 255" using Cons.prems(2) by (simp add: dotted_def)
  have "run (doh_response_parser_feed env)
      (dst (with_q R pre 0 0) response_question_qname_label_length i0 n0) (label_wire l) =
      Inr (dst (with_q R (pre @ l @ [DOT]) 0 0) response_question_qname_label_length (int (length l)) (int (length l)))"
    using run_qlabel [OF l(2) len, of env R 0] label_length_nonzero [OF l(1)] uint_label_length [OF l(1)]
    by (simp add: label_wire_def doh_feed_defs r_question_qname_label_length_def)
  moreover have "\<forall>l\<in>set ls. label_ok l" "length ((pre @ l @ [DOT]) @ dotted ls) \<le> 255"
    using Cons.prems by (auto simp: dotted_def)
  from Cons.IH [OF this] obtain i n where "run (doh_response_parser_feed env)
      (dst (with_q R (pre @ l @ [DOT]) 0 0) response_question_qname_label_length (int (length l)) (int (length l)))
      (labels_wire ls) =
      Inr (dst (with_q R ((pre @ l @ [DOT]) @ dotted ls) 0 0) response_question_qname_label_length i n)"
    by blast
  ultimately have "run (doh_response_parser_feed env)
      (dst (with_q R pre 0 0) response_question_qname_label_length i0 n0) (label_wire l @ labels_wire ls) =
      Inr (dst (with_q R ((pre @ l @ [DOT]) @ dotted ls) 0 0) response_question_qname_label_length i n)"
    by (rule run_then)
  then show ?case by (auto simp: labels_wire_def dotted_def)
qed

lemma run_question:
  assumes "name_ok ls"
  shows "\<exists>n. run (doh_response_parser_feed env)
     (dst (with_q R [] 0 0) response_question_qname_label_length i0 n0)
     (labels_wire ls @ [0] @ be16 t @ be16 c) =
   Inr (dst (with_q R (dotted ls) t c) response_answer_name_label_length 0 n)"
proof -
  obtain i n where "run (doh_response_parser_feed env)
      (dst (with_q R [] 0 0) response_question_qname_label_length i0 n0) (labels_wire ls) =
      Inr (dst (with_q R (dotted ls) 0 0) response_question_qname_label_length i n)"
    using run_qlabels [of ls "[]" env R i0 n0] assms by (auto simp: name_ok_def)
  moreover have "run (doh_response_parser_feed env)
      (dst (with_q R (dotted ls) 0 0) response_question_qname_label_length i n) ([0] @ be16 t @ be16 c) =
      Inr (dst (with_q R (dotted ls) t c) response_answer_name_label_length 0 2)"
    by (simp add: be16_def doh_feed_defs r_question_qname_label_length_def r_question_qtype_def
        r_question_qclass_def upd_question_def with_q_def hi_lo_16)
  ultimately have "run (doh_response_parser_feed env)
      (dst (with_q R [] 0 0) response_question_qname_label_length i0 n0)
      (labels_wire ls @ ([0] @ be16 t @ be16 c)) =
      Inr (dst (with_q R (dotted ls) t c) response_answer_name_label_length 0 2)"
    by (rule run_then)
  then show ?thesis by auto
qed

section \<open>The current answer\<close>

definition with_a :: "doh_response \<Rightarrow> answer list \<Rightarrow> answer \<Rightarrow> answer list \<Rightarrow> doh_response" where
  "with_a R done cur rest =
     R\<lparr>dr_answers := Some (done @ cur # rest), dr_answer_index := word_of_nat (length done)\<rparr>"

lemma current_answer_value:
  assumes "dp_response p = with_a R done cur rest" "length done < 65536"
  shows "current_answer p = Inr cur"
  using assms uint_of_nat16 [of "length done"] by (simp add: current_answer_def with_a_def)

lemma upd_answer_value:
  assumes "dp_response p = with_a R done cur rest" "length done < 65536"
  shows "upd_answer f p = bindR (f cur) (\<lambda>cur'. Inr (p\<lparr>dp_response := with_a R done cur' rest\<rparr>))"
  using assms uint_of_nat16 [of "length done"]
  by (cases "f cur") (simp_all add: upd_answer_def with_a_def Let_def)

lemma next_answer_value:
  assumes "dp_response p = with_a R done cur rest"
  shows "next_answer p = (p\<lparr>dp_response := (with_a R done cur rest)
      \<lparr>dr_answer_index := word_of_nat (length done + 1)\<rparr>\<rparr>,
     if word_of_nat (length done + 1) = dh_ancount (dr_header R) then doh_response_done
     else response_answer_name_label_length)"
  using assms by (simp add: next_answer_def with_a_def Let_def add.commute)

section \<open>The name of an answer\<close>

definition named :: "bytes \<Rightarrow> answer \<Rightarrow> answer" where
  "named pre a = a\<lparr>an_name := AName (pad 255 pre), an_name_length := word_of_nat (length pre)\<rparr>"

lemma name_push_value:
  assumes "length pre < 255"
  shows "name_push c (named pre a) = Inr (named (pre @ [c]) a)"
proof -
  have "uint (word_of_nat (length pre) :: u8) = int (length pre)"
    using assms by (intro uint_of_nat8) simp
  then show ?thesis using assms
    by (simp add: name_push_def named_def pad_snoc)
qed

lemma run_alabel:
  "l \<noteq> [] \<Longrightarrow> length (pre @ l) < 255 \<Longrightarrow> length done < 65536 \<Longrightarrow>
   run (doh_response_parser_feed env)
     (dst (with_a R done (named pre a) rest) response_answer_name_label i (i + int (length l))) l =
   Inr (dst (with_a R done (named (pre @ l @ [DOT]) a) rest) response_answer_name_label_length
     (i + int (length l)) (i + int (length l)))"
proof (induction l arbitrary: pre i)
  case Nil
  then show ?case by simp
next
  case (Cons c l)
  show ?case
  proof (cases "l = []")
    case True
    then show ?thesis using Cons.prems
      by (simp add: doh_feed_defs r_answer_name_label_def upd_answer_value name_push_value)
  next
    case False
    then have "doh_response_parser_feed env
        (dst (with_a R done (named pre a) rest) response_answer_name_label i (i + int (length (c # l)))) c =
        Inr (dst (with_a R done (named (pre @ [c]) a) rest) response_answer_name_label (i + 1) (i + 1 + int (length l)))"
      using Cons.prems
      by (simp add: doh_feed_defs r_answer_name_label_def upd_answer_value name_push_value)
    then show ?thesis using Cons.IH [of "pre @ [c]" "i + 1"] False Cons.prems(2,3)
      by (simp add: algebra_simps)
  qed
qed

lemma label_not_pointer: "label_ok l \<Longrightarrow> \<not> is_pointer (word_of_nat (length l))"
proof -
  assume l: "label_ok l"
  then have "unat (word_of_nat (length l) :: u8) = length l"
    by (simp add: label_ok_def unat_of_nat)
  then have "unat (drop_bit 6 (word_of_nat (length l) :: u8)) = length l div 64"
    by (simp only: unat_drop_bit_eq) (simp add: drop_bit_eq_div)
  moreover have "length l div 64 = 0" using l by (simp add: label_ok_def)
  ultimately have "unat (drop_bit 6 (word_of_nat (length l) :: u8)) \<noteq> unat (3 :: u8)" by simp
  then show ?thesis by (auto simp: is_pointer_def)
qed

lemma run_alabels:
  "\<forall>l\<in>set ls. label_ok l \<Longrightarrow> length (pre @ dotted ls) \<le> 255 \<Longrightarrow> length done < 65536 \<Longrightarrow>
   \<exists>i n. run (doh_response_parser_feed env)
     (dst (with_a R done (named pre a) rest) response_answer_name_label_length i0 n0) (labels_wire ls) =
   Inr (dst (with_a R done (named (pre @ dotted ls) a) rest) response_answer_name_label_length i n)"
proof (induction ls arbitrary: pre i0 n0)
  case Nil
  then show ?case by (auto simp: labels_wire_def dotted_def)
next
  case (Cons l ls)
  have l: "label_ok l" "l \<noteq> []" using Cons.prems(1) by (auto simp: label_ok_def)
  have len: "length (pre @ l) < 255" using Cons.prems(2) by (simp add: dotted_def)
  have "run (doh_response_parser_feed env)
      (dst (with_a R done (named pre a) rest) response_answer_name_label_length i0 n0) (label_wire l) =
      Inr (dst (with_a R done (named (pre @ l @ [DOT]) a) rest) response_answer_name_label_length
        (int (length l)) (int (length l)))"
    using run_alabel [OF l(2) len Cons.prems(3), of env R a rest 0] label_length_nonzero [OF l(1)]
      uint_label_length [OF l(1)] label_not_pointer [OF l(1)]
    by (simp add: label_wire_def doh_feed_defs r_answer_name_label_length_def)
  moreover have "\<forall>l\<in>set ls. label_ok l" "length ((pre @ l @ [DOT]) @ dotted ls) \<le> 255"
    using Cons.prems by (auto simp: dotted_def)
  from Cons.IH [OF this Cons.prems(3)] obtain i n where "run (doh_response_parser_feed env)
      (dst (with_a R done (named (pre @ l @ [DOT]) a) rest) response_answer_name_label_length
        (int (length l)) (int (length l))) (labels_wire ls) =
      Inr (dst (with_a R done (named ((pre @ l @ [DOT]) @ dotted ls) a) rest)
        response_answer_name_label_length i n)"
    by blast
  ultimately have "run (doh_response_parser_feed env)
      (dst (with_a R done (named pre a) rest) response_answer_name_label_length i0 n0)
      (label_wire l @ labels_wire ls) =
      Inr (dst (with_a R done (named ((pre @ l @ [DOT]) @ dotted ls) a) rest)
        response_answer_name_label_length i n)"
    by (rule run_then)
  then show ?case by (auto simp: labels_wire_def dotted_def)
qed

text \<open>Nothing has been stored yet of the data of an answer.\<close>

definition fresh :: "answer \<Rightarrow> bool" where
  "fresh a \<longleftrightarrow> an_data a = replicate 46 0 \<and> an_ip a = replicate 16 0 \<and> an_rdata_length a = 0"

lemma named_zero: "named [] zero_answer = zero_answer"
  by (simp add: named_def zero_answer_def pad_Nil)

lemma run_answer_name:
  assumes "name_ok ls" "end_ok e" "length done < 65536"
  shows "\<exists>a. fresh a \<and> run (doh_response_parser_feed env)
     (dst (with_a R done zero_answer rest) response_answer_name_label_length i0 n0) (labels_wire ls @ end_wire e) =
   Inr (dst (with_a R done a rest) response_answer_type 0 2)"
proof -
  let ?a = "named (dotted ls) zero_answer"
  obtain i n where 1: "run (doh_response_parser_feed env)
      (dst (with_a R done zero_answer rest) response_answer_name_label_length i0 n0) (labels_wire ls) =
      Inr (dst (with_a R done ?a rest) response_answer_name_label_length i n)"
    using run_alabels [of ls "[]" "done" env R zero_answer rest i0 n0] assms
    by (auto simp: name_ok_def named_zero)
  have fr: "fresh ?a" by (simp add: fresh_def named_def zero_answer_def)
  show ?thesis
  proof (cases e)
    case Root
    then have "run (doh_response_parser_feed env)
        (dst (with_a R done ?a rest) response_answer_name_label_length i n) (end_wire e) =
        Inr (dst (with_a R done ?a rest) response_answer_type 0 2)"
      by (simp add: doh_feed_defs r_answer_name_label_length_def)
    from run_then [OF 1 this] fr show ?thesis by blast
  next
    case (Pointer hi lo)
    let ?b = "?a\<lparr>an_offset := lo16 lo (push_bit 8 (ucast hi AND 63)), an_name := APtr\<rparr>"
    have "hi \<noteq> 0" using assms(2) Pointer by (auto simp: is_pointer_def)
    then have "run (doh_response_parser_feed env)
        (dst (with_a R done ?a rest) response_answer_name_label_length i n) (end_wire e) =
        Inr (dst (with_a R done ?b rest) response_answer_type 0 2)"
      using assms(2,3) Pointer
      by (simp add: doh_feed_defs r_answer_name_label_length_def r_answer_name_pointer_def upd_answer_value)
    moreover have "fresh ?b" using fr by (simp add: fresh_def)
    ultimately show ?thesis using run_then [OF 1] by blast
  qed
qed

section \<open>The fixed fields of an answer\<close>

definition fields_set :: "u16 \<Rightarrow> u16 \<Rightarrow> u32 \<Rightarrow> u16 \<Rightarrow> answer \<Rightarrow> answer" where
  "fields_set t k ttl rdl a = a\<lparr>an_type := t, an_class := k, an_ttl := ttl, an_rd_length := rdl\<rparr>"

lemma ttl_value:
  "push_bit 24 (ucast (ucast (drop_bit 24 v) :: u8)) + push_bit 16 (ucast (ucast (drop_bit 16 v) :: u8)) +
     push_bit 8 (ucast (ucast (drop_bit 8 v) :: u8)) + ucast (ucast v :: u8) = (v :: u32)"
  by (rule join_u32)

definition rdata_state :: "u16 \<Rightarrow> doh_response_state \<times> int" where
  "rdata_state t =
     (if t = 1 then (response_answer_ipv4_rdata, 4)
      else if t = 28 then (response_answer_ipv6_rdata, 16)
      else if t = 5 then (response_answer_cname_label_length_rdata, 255)
      else (doh_response_error, 2))"

lemma run_type_class:
  assumes "length done < 65536"
  shows "run (doh_response_parser_feed env)
     (dst (with_a R done a rest) response_answer_type 0 2) (be16 t @ be16 k) =
   Inr (dst (with_a R done (a\<lparr>an_type := t, an_class := k\<rparr>) rest) response_answer_ttl 0 4)"
  using assms
  by (simp add: be16_def doh_feed_defs r_answer_type_def r_answer_class_def upd_answer_value hi_lo_16)

lemma run_ttl:
  assumes "length done < 65536"
  shows "run (doh_response_parser_feed env)
     (dst (with_a R done a rest) response_answer_ttl 0 4) (be32 ttl) =
   Inr (dst (with_a R done (a\<lparr>an_ttl := ttl\<rparr>) rest) response_answer_rdlength 0 2)"
  using assms ttl_value [of ttl]
  by (simp add: be32_def doh_feed_defs r_answer_ttl_def upd_answer_value)

lemma run_rdlength:
  assumes "length done < 65536"
  shows "run (doh_response_parser_feed env)
     (dst (with_a R done a rest) response_answer_rdlength 0 2) (be16 rdl) =
   Inr (dst (with_a R done (a\<lparr>an_rd_length := rdl\<rparr>) rest)
     (fst (rdata_state (an_type a))) 0 (snd (rdata_state (an_type a))))"
  using assms
  by (auto simp: be16_def doh_feed_defs r_answer_rdlength_def upd_answer_value current_answer_value
      hi_lo_16 rdata_state_def IPV4_TYPE_def IPV6_TYPE_def CNAME_TYPE_def MAX_IPV4_def MAX_IPV6_def
      MAX_CNAME_LENGTH_def)

lemma run_fields:
  assumes "length done < 65536"
  shows "run (doh_response_parser_feed env)
     (dst (with_a R done a rest) response_answer_type 0 2) (be16 t @ be16 k @ be32 ttl @ be16 rdl) =
   Inr (dst (with_a R done (fields_set t k ttl rdl a) rest) (fst (rdata_state t)) 0 (snd (rdata_state t)))"
  using run_then [OF run_type_class [OF assms] run_then [OF run_ttl [OF assms] run_rdlength [OF assms]]]
  by (simp add: fields_set_def)

section \<open>The data of an answer\<close>

text \<open>The response after a whole answer, and the state the parser is then in.\<close>

definition after_answer :: "doh_response \<Rightarrow> answer list \<Rightarrow> answer \<Rightarrow> answer list \<Rightarrow> doh_response" where
  "after_answer R done a rest =
     (with_a R done a rest)\<lparr>dr_answer_index := word_of_nat (length done + 1)\<rparr>"

definition after_state :: "doh_response \<Rightarrow> answer list \<Rightarrow> doh_response_state" where
  "after_state R done =
     (if word_of_nat (length done + 1) = dh_ancount (dr_header R) then doh_response_done
      else response_answer_name_label_length)"

lemma next_answer_after:
  assumes "dp_response p = with_a R done a rest"
  shows "next_answer p = (p\<lparr>dp_response := after_answer R done a rest\<rparr>, after_state R done)"
  using next_answer_value [OF assms] by (simp add: after_answer_def after_state_def)

definition aaaa_of :: "doh_env \<Rightarrow> bytes \<Rightarrow> answer \<Rightarrow> fault + answer" where
  "aaaa_of env bs a = ipv6_finish env (a\<lparr>an_ip := bs\<rparr>)"

lemma ipv6_finish_ok:
  assumes "length (an_data a) = 46"
  shows "\<exists>a'. ipv6_finish env a = Inr a' \<and> an_ip a' = an_ip a \<and> an_type a' = an_type a \<and>
     an_class a' = an_class a \<and> an_ttl a' = an_ttl a"
  using assms by (simp add: ipv6_finish_def INET6_ADDRSTRLEN_def store_def Let_def)

lemma run_ipv6_bytes:
  "length done < 65536 \<Longrightarrow> length bs < 16 \<Longrightarrow>
   run (doh_response_parser_feed env)
     (dst (with_a R done (a\<lparr>an_ip := replicate 16 0\<rparr>) rest) response_answer_ipv6_rdata 0 16) bs =
   Inr (dst (with_a R done (a\<lparr>an_ip := pad 16 bs\<rparr>) rest) response_answer_ipv6_rdata (int (length bs)) 16)"
proof (induction bs rule: rev_induct)
  case Nil
  then show ?case by (simp add: pad_Nil)
next
  case (snoc c bs)
  then show ?case
    by (simp add: run_snoc doh_feed_defs r_answer_ipv6_rdata_def upd_answer_value pad_snoc)
qed

lemma run_ipv6:
  assumes "length done < 65536" "fresh a" "length bs = 16"
  shows "\<exists>a' i n. an_type a' = an_type a \<and> an_class a' = an_class a \<and> an_ttl a' = an_ttl a \<and> an_ip a' = bs \<and>
     run (doh_response_parser_feed env) (dst (with_a R done a rest) response_answer_ipv6_rdata 0 16) bs =
     Inr (dst (after_answer R done a' rest) (after_state R done) i n)"
proof -
  obtain xs c where bs: "bs = xs @ [c]" "length xs = 15"
    using assms(3) by (cases bs rule: rev_cases) auto
  have a: "a\<lparr>an_ip := replicate 16 0\<rparr> = a" using assms(2) by (simp add: fresh_def)
  have p: "(pad 16 xs)[15 := c] = bs" using bs pad_snoc [of xs 16 c] by (simp add: pad_def)
  obtain a' where a': "ipv6_finish env (a\<lparr>an_ip := bs\<rparr>) = Inr a'" "an_ip a' = bs" "an_type a' = an_type a"
      "an_class a' = an_class a" "an_ttl a' = an_ttl a"
    using ipv6_finish_ok [of "a\<lparr>an_ip := bs\<rparr>" env] assms(2) by (auto simp: fresh_def)
  have "doh_response_parser_feed env
      (dst (with_a R done (a\<lparr>an_ip := pad 16 xs\<rparr>) rest) response_answer_ipv6_rdata 15 16) c =
      Inr (dst (after_answer R done a' rest) (after_state R done) 16 16)"
    using assms(1) bs(2) a'(1) p
    by (simp add: doh_feed_defs r_answer_ipv6_rdata_def upd_answer_value next_answer_after)
  then have "run (doh_response_parser_feed env) (dst (with_a R done a rest) response_answer_ipv6_rdata 0 16) bs =
     Inr (dst (after_answer R done a' rest) (after_state R done) 16 16)"
    using run_ipv6_bytes [of "done" xs env R a rest] assms(1) bs a by (simp add: run_snoc)
  then show ?thesis using a'(2-5) by blast
qed

lemma run_clabel:
  "l \<noteq> [] \<Longrightarrow>
   run (doh_response_parser_feed env) (dst R response_answer_cname_label_rdata i (i + int (length l))) l =
   Inr (dst R response_answer_cname_label_length_rdata (i + int (length l)) (i + int (length l)))"
proof (induction l arbitrary: i)
  case (Cons c l)
  show ?case
  proof (cases "l = []")
    case True
    then show ?thesis by (simp add: doh_feed_defs r_answer_cname_label_rdata_def)
  next
    case False
    then have "doh_response_parser_feed env
        (dst R response_answer_cname_label_rdata i (i + int (length (c # l)))) c =
        Inr (dst R response_answer_cname_label_rdata (i + 1) (i + 1 + int (length l)))"
      by (simp add: doh_feed_defs r_answer_cname_label_rdata_def)
    then show ?thesis using Cons.IH [of "i + 1"] False by (simp add: algebra_simps)
  qed
qed simp

lemma run_clabels:
  "\<forall>l\<in>set ls. label_ok l \<Longrightarrow>
   \<exists>i n. run (doh_response_parser_feed env)
     (dst R response_answer_cname_label_length_rdata i0 n0) (labels_wire ls) =
   Inr (dst R response_answer_cname_label_length_rdata i n)"
proof (induction ls arbitrary: i0 n0)
  case Nil
  then show ?case by (auto simp: labels_wire_def)
next
  case (Cons l ls)
  have l: "label_ok l" "l \<noteq> []" using Cons.prems by (auto simp: label_ok_def)
  have "run (doh_response_parser_feed env)
      (dst R response_answer_cname_label_length_rdata i0 n0) (label_wire l) =
      Inr (dst R response_answer_cname_label_length_rdata (int (length l)) (int (length l)))"
    using run_clabel [OF l(2), of env R 0] label_length_nonzero [OF l(1)]
      uint_label_length [OF l(1)] label_not_pointer [OF l(1)]
    by (simp add: label_wire_def doh_feed_defs r_answer_cname_label_length_rdata_def)
  moreover obtain i n where "run (doh_response_parser_feed env)
      (dst R response_answer_cname_label_length_rdata (int (length l)) (int (length l))) (labels_wire ls) =
      Inr (dst R response_answer_cname_label_length_rdata i n)"
    using Cons.IH [of "int (length l)" "int (length l)"] Cons.prems by auto
  ultimately have "run (doh_response_parser_feed env)
      (dst R response_answer_cname_label_length_rdata i0 n0) (label_wire l @ labels_wire ls) =
      Inr (dst R response_answer_cname_label_length_rdata i n)"
    by (rule run_then)
  then show ?case by (auto simp: labels_wire_def)
qed

lemma run_cname:
  assumes "length done < 65536" "\<forall>l\<in>set ls. label_ok l" "end_ok e"
  shows "\<exists>i n. run (doh_response_parser_feed env)
     (dst (with_a R done a rest) response_answer_cname_label_length_rdata 0 255) (labels_wire ls @ end_wire e) =
     Inr (dst (after_answer R done a rest) (after_state R done) i n)"
proof -
  obtain i n where 1: "run (doh_response_parser_feed env)
      (dst (with_a R done a rest) response_answer_cname_label_length_rdata 0 255) (labels_wire ls) =
      Inr (dst (with_a R done a rest) response_answer_cname_label_length_rdata i n)"
    using run_clabels [OF assms(2)] by blast
  have "\<exists>i' n'. run (doh_response_parser_feed env)
      (dst (with_a R done a rest) response_answer_cname_label_length_rdata i n) (end_wire e) =
      Inr (dst (after_answer R done a rest) (after_state R done) i' n')"
  proof (cases e)
    case Root
    then show ?thesis
      by (simp add: doh_feed_defs r_answer_cname_label_length_rdata_def next_answer_after)
  next
    case (Pointer hi lo)
    then have "hi \<noteq> 0" using assms(3) by (auto simp: is_pointer_def)
    then show ?thesis using assms(3) Pointer
      by (simp add: doh_feed_defs r_answer_cname_label_length_rdata_def r_answer_cname_pointer_rdata_def
          next_answer_after)
  qed
  then show ?thesis using run_then [OF 1] by blast
qed

text \<open>The text of an address while it grows: \<open>t\<close> is what \<open>ar_data\<close> holds so far.\<close>

definition texted :: "bytes \<Rightarrow> answer \<Rightarrow> answer \<Rightarrow> bool" where
  "texted t a b \<longleftrightarrow> length (an_data b) = 46 \<and> take (length t) (an_data b) = t \<and> length t \<le> 45 \<and>
     an_rdata_length b = word_of_nat (length t) \<and> an_ip b = an_ip a \<and> an_type b = an_type a \<and>
     an_class b = an_class a \<and> an_ttl b = an_ttl a"

lemma length_dec_text: "n < 256 \<Longrightarrow> length (dec_text n) \<le> 3"
proof -
  assume n: "n < 256"
  then have "n < 10 \<or> 10 \<le> n \<and> n div 10 < 10 \<or> 10 \<le> n \<and> 10 \<le> n div 10 \<and> n div 10 div 10 < 10" by arith
  then show ?thesis
    by (auto simp: dec_text.simps [of n] dec_text.simps [of "n div 10"] dec_text.simps [of "n div 10 div 10"])
qed

lemma zero_notin_dec_text: "0 \<notin> set (dec_text n)"
proof (induction n rule: dec_text.induct)
  case (1 n)
  have "(48 + word_of_nat k :: u8) \<noteq> 0" if "k < 10" for k
  proof -
    have "unat (48 + word_of_nat k :: u8) = 48 + k"
      using that by (simp add: unat_word_ariths unat_of_nat)
    then show ?thesis by auto
  qed
  then show ?case using 1 by (subst dec_text.simps) auto
qed

lemma ipv4_digit_value:
  assumes "texted t a b" "length t \<le> 12"
  shows "\<exists>b'. ipv4_digit c b = Inr b' \<and> texted (t @ dec_text (unat c) @ [DOT]) a b'"
proof -
  let ?d = "dec_text (unat c)"
  have d: "length ?d \<le> 3" using length_dec_text [of "unat c"] unat_u8 [of c] by simp
  have k: "unat (word_of_nat (length t) :: u16) = length t" using assms(2) by (intro unat_of_nat16) simp
  have kd: "uint (word_of_nat (length t) + word_of_nat (length ?d) :: u16) = int (length t + length ?d)"
    using uint_of_nat16 [of "length t + length ?d"] assms(2) d by simp
  let ?x = "overwrite (an_data b) (length t) (?d @ [0])"
  have x: "length ?x = 46" using assms d by (simp add: texted_def)
  have "take (length t + length ?d) ?x = t @ ?d"
    using assms d by (simp add: texted_def overwrite_def)
  then have tk: "take (length t + length ?d + 1) (?x[length t + length ?d := DOT]) = t @ ?d @ [DOT]"
    using x assms(2) d by (simp add: take_Suc_conv_app_nth)
  have "ipv4_digit c b = Inr (b\<lparr>an_data := ?x[length t + length ?d := DOT],
      an_rdata_length := word_of_nat (length t) + word_of_nat (length ?d) + 1\<rparr>)"
    using assms d k kd x
    by (simp add: ipv4_digit_def texted_def store_def Let_def nat_add_distrib)
  moreover have "texted (t @ ?d @ [DOT]) a (b\<lparr>an_data := ?x[length t + length ?d := DOT],
      an_rdata_length := word_of_nat (length t) + word_of_nat (length ?d) + 1\<rparr>)"
    using assms d tk x by (simp add: texted_def algebra_simps)
  ultimately show ?thesis by blast
qed

definition ipv4_text :: "u8 \<Rightarrow> u8 \<Rightarrow> u8 \<Rightarrow> u8 \<Rightarrow> bytes" where
  "ipv4_text a b c d =
     dec_text (unat a) @ [DOT] @ dec_text (unat b) @ [DOT] @ dec_text (unat c) @ [DOT] @ dec_text (unat d)"

text \<open>What the code relies on of \<^verbatim>\<open>inet_pton(AF_INET, ...)\<close>: it reads back a dotted address.\<close>

definition pton4_ok :: "doh_env \<Rightarrow> bool" where
  "pton4_ok env \<longleftrightarrow> (\<forall>a b c d. env_pton4 env (ipv4_text a b c d) = Some [a, b, c, d])"

lemma ipv4_finish_value:
  assumes "texted (ipv4_text a b c d @ [DOT]) x y" "pton4_ok env" "an_ip x = replicate 16 0"
  shows "\<exists>z. ipv4_finish env y = Inr z \<and> an_ip z = [a, b, c, d] @ replicate 12 0 \<and>
     an_type z = an_type x \<and> an_class z = an_class x \<and> an_ttl z = an_ttl x"
proof -
  let ?t = "ipv4_text a b c d"
  have l: "length ?t \<le> 44" using assms(1) by (simp add: texted_def)
  have k: "an_rdata_length y - 1 = word_of_nat (length ?t)"
    using assms(1) by (simp add: texted_def)
  have u: "uint (word_of_nat (length ?t) :: u16) = int (length ?t)"
    using l by (intro uint_of_nat16) simp
  let ?d = "(an_data y)[length ?t := 0]"
  have "take (length ?t) (an_data y) = ?t"
    using assms(1) by (simp add: texted_def) (metis butlast_snoc butlast_take length_append_singleton
      lessI less_imp_le_nat take_take min.absorb1 append_eq_conv_conj append_take_drop_id)
  then have "?d = ?t @ 0 # drop (Suc (length ?t)) (an_data y)"
    using assms(1) l by (simp add: upd_conv_take_nth_drop texted_def)
  moreover have "0 \<notin> set ?t" using zero_notin_dec_text by (auto simp: ipv4_text_def)
  ultimately have s: "c_string ?d = Inr ?t" by (simp add: c_string_def)
  have "env_pton4 env ?t = Some [a, b, c, d]" using assms(2) by (simp add: pton4_ok_def)
  then show ?thesis using assms l k u s
    by (auto simp: ipv4_finish_def Let_def texted_def store_def overwrite_def)
qed

lemma ipv4_step:
  assumes "length done < 65536" "texted t a b" "length t \<le> 12" "i < 3"
  shows "\<exists>b'. doh_response_parser_feed env (dst (with_a R done b rest) response_answer_ipv4_rdata i 4) c =
       Inr (dst (with_a R done b' rest) response_answer_ipv4_rdata (i + 1) 4) \<and>
     texted (t @ dec_text (unat c) @ [DOT]) a b'"
proof -
  obtain b' where "ipv4_digit c b = Inr b'" "texted (t @ dec_text (unat c) @ [DOT]) a b'"
    using ipv4_digit_value [OF assms(2,3)] by blast
  then show ?thesis using assms(1,4)
    by (auto simp: doh_feed_defs r_answer_ipv4_rdata_def upd_answer_value Let_def)
qed

lemma run_ipv4:
  assumes "length done < 65536" "fresh x" "pton4_ok env"
  shows "\<exists>z i n. an_type z = an_type x \<and> an_class z = an_class x \<and> an_ttl z = an_ttl x \<and>
     an_ip z = [a, b, c, d] @ replicate 12 0 \<and>
     run (doh_response_parser_feed env) (dst (with_a R done x rest) response_answer_ipv4_rdata 0 4) [a, b, c, d] =
     Inr (dst (after_answer R done z rest) (after_state R done) i n)"
proof -
  have len: "length (dec_text (unat e)) \<le> 3" for e :: u8
    using length_dec_text [of "unat e"] unat_u8 [of e] by simp
  have x0: "texted [] x x" using assms(2) by (simp add: texted_def fresh_def)
  obtain x1 where x1: "doh_response_parser_feed env (dst (with_a R done x rest) response_answer_ipv4_rdata 0 4) a =
      Inr (dst (with_a R done x1 rest) response_answer_ipv4_rdata 1 4)"
      "texted (dec_text (unat a) @ [DOT]) x x1"
    using ipv4_step [OF assms(1) x0, of 0 env R rest a] by auto
  have "length (dec_text (unat a) @ [DOT]) \<le> 12" using len [of a] by simp
  from ipv4_step [OF assms(1) x1(2) this, of 1 env R rest b] obtain x2 where x2:
      "doh_response_parser_feed env (dst (with_a R done x1 rest) response_answer_ipv4_rdata 1 4) b =
      Inr (dst (with_a R done x2 rest) response_answer_ipv4_rdata 2 4)"
      "texted ((dec_text (unat a) @ [DOT]) @ dec_text (unat b) @ [DOT]) x x2" by auto
  have "length ((dec_text (unat a) @ [DOT]) @ dec_text (unat b) @ [DOT]) \<le> 12"
    using len [of a] len [of b] by simp
  from ipv4_step [OF assms(1) x2(2) this, of 2 env R rest c] obtain x3 where x3:
      "doh_response_parser_feed env (dst (with_a R done x2 rest) response_answer_ipv4_rdata 2 4) c =
      Inr (dst (with_a R done x3 rest) response_answer_ipv4_rdata 3 4)"
      "texted (((dec_text (unat a) @ [DOT]) @ dec_text (unat b) @ [DOT]) @ dec_text (unat c) @ [DOT]) x x3" by auto
  have "length (((dec_text (unat a) @ [DOT]) @ dec_text (unat b) @ [DOT]) @ dec_text (unat c) @ [DOT]) \<le> 12"
    using len [of a] len [of b] len [of c] by simp
  from ipv4_digit_value [OF x3(2) this, of d] obtain x4 where x4: "ipv4_digit d x3 = Inr x4"
      "texted (ipv4_text a b c d @ [DOT]) x x4" by (auto simp: ipv4_text_def)
  have "an_ip x = replicate 16 0" using assms(2) by (simp add: fresh_def)
  from ipv4_finish_value [OF x4(2) assms(3) this] obtain z where z: "ipv4_finish env x4 = Inr z"
      "an_ip z = [a, b, c, d] @ replicate 12 0" "an_type z = an_type x" "an_class z = an_class x"
      "an_ttl z = an_ttl x" by blast
  have "doh_response_parser_feed env (dst (with_a R done x3 rest) response_answer_ipv4_rdata 3 4) d =
      Inr (dst (after_answer R done z rest) (after_state R done) 4 4)"
    using assms(1) x4(1) z(1)
    by (simp add: doh_feed_defs r_answer_ipv4_rdata_def upd_answer_value next_answer_after Let_def)
  then have "run (doh_response_parser_feed env) (dst (with_a R done x rest) response_answer_ipv4_rdata 0 4) [a, b, c, d] =
     Inr (dst (after_answer R done z rest) (after_state R done) 4 4)"
    by (simp add: x1(1) x2(1) x3(1))
  then show ?thesis using z(2-5) by blast
qed

section \<open>Whole messages\<close>

fun data_matches :: "rdata \<Rightarrow> answer \<Rightarrow> bool" where
  "data_matches (A a b c d) x \<longleftrightarrow> take 4 (an_ip x) = [a, b, c, d]"
| "data_matches (AAAA bs) x \<longleftrightarrow> an_ip x = bs"
| "data_matches (CNAME ls e) x \<longleftrightarrow> True"

definition answer_matches :: "record_wire \<Rightarrow> answer \<Rightarrow> bool" where
  "answer_matches r x \<longleftrightarrow>
     an_type x = rdata_type (rw_rdata r) \<and> an_class x = rw_class r \<and> an_ttl x = rw_ttl r \<and>
     data_matches (rw_rdata r) x"

lemma run_rdata:
  assumes "length done < 65536" "fresh x" "pton4_ok env" "rdata_ok rd"
  shows "\<exists>z i n. an_type z = an_type x \<and> an_class z = an_class x \<and> an_ttl z = an_ttl x \<and> data_matches rd z \<and>
     run (doh_response_parser_feed env)
       (dst (with_a R done x rest) (fst (rdata_state (rdata_type rd))) 0 (snd (rdata_state (rdata_type rd))))
       (rdata_wire rd) =
     Inr (dst (after_answer R done z rest) (after_state R done) i n)"
proof (cases rd)
  case (A a b c d)
  obtain z i n where "an_type z = an_type x" "an_class z = an_class x" "an_ttl z = an_ttl x"
      "an_ip z = [a, b, c, d] @ replicate 12 0"
      "run (doh_response_parser_feed env) (dst (with_a R done x rest) response_answer_ipv4_rdata 0 4) [a, b, c, d] =
       Inr (dst (after_answer R done z rest) (after_state R done) i n)"
    using run_ipv4 [OF assms(1-3)] by blast
  then show ?thesis using A
    by (intro exI [of _ z] exI [of _ i] exI [of _ n]) (simp add: rdata_state_def del: run.simps)
next
  case (AAAA bs)
  obtain z i n where "an_type z = an_type x" "an_class z = an_class x" "an_ttl z = an_ttl x" "an_ip z = bs"
      "run (doh_response_parser_feed env) (dst (with_a R done x rest) response_answer_ipv6_rdata 0 16) bs =
       Inr (dst (after_answer R done z rest) (after_state R done) i n)"
    using run_ipv6 [OF assms(1,2)] assms(4) AAAA by (metis rdata_ok.simps(2))
  then show ?thesis using AAAA
    by (intro exI [of _ z] exI [of _ i] exI [of _ n]) (simp add: rdata_state_def)
next
  case (CNAME ls e)
  obtain i n where "run (doh_response_parser_feed env)
      (dst (with_a R done x rest) response_answer_cname_label_length_rdata 0 255) (labels_wire ls @ end_wire e) =
      Inr (dst (after_answer R done x rest) (after_state R done) i n)"
    using run_cname [OF assms(1)] assms(4) CNAME by (metis rdata_ok.simps(3))
  then show ?thesis using CNAME
    by (intro exI [of _ x] exI [of _ i] exI [of _ n]) (simp add: rdata_state_def)
qed

lemma run_record:
  assumes "length done < 65536" "pton4_ok env" "record_ok r"
  shows "\<exists>z i n. answer_matches r z \<and>
     run (doh_response_parser_feed env)
       (dst (with_a R done zero_answer rest) response_answer_name_label_length i0 n0) (record_bytes r) =
     Inr (dst (after_answer R done z rest) (after_state R done) i n)"
proof -
  let ?rd = "rw_rdata r" and ?t = "rdata_type (rw_rdata r)"
  have ok: "name_ok (rw_labels r)" "end_ok (rw_end r)" "rdata_ok ?rd"
    using assms(3) by (auto simp: record_ok_def)
  obtain a where a: "fresh a" "run (doh_response_parser_feed env)
      (dst (with_a R done zero_answer rest) response_answer_name_label_length i0 n0)
      (labels_wire (rw_labels r) @ end_wire (rw_end r)) =
      Inr (dst (with_a R done a rest) response_answer_type 0 2)"
    using run_answer_name [OF ok(1,2) assms(1)] by blast
  let ?x = "fields_set ?t (rw_class r) (rw_ttl r) (rw_rdlength r) a"
  have x: "fresh ?x" "an_type ?x = ?t" "an_class ?x = rw_class r" "an_ttl ?x = rw_ttl r"
    using a(1) by (simp_all add: fresh_def fields_set_def)
  obtain z i n where z: "an_type z = ?t" "an_class z = rw_class r" "an_ttl z = rw_ttl r" "data_matches ?rd z"
      "run (doh_response_parser_feed env)
       (dst (with_a R done ?x rest) (fst (rdata_state ?t)) 0 (snd (rdata_state ?t))) (rdata_wire ?rd) =
       Inr (dst (after_answer R done z rest) (after_state R done) i n)"
    using run_rdata [OF assms(1) x(1) assms(2) ok(3)] x(2-4) by metis
  have "run (doh_response_parser_feed env)
      (dst (with_a R done zero_answer rest) response_answer_name_label_length i0 n0)
      ((labels_wire (rw_labels r) @ end_wire (rw_end r)) @
       (be16 ?t @ be16 (rw_class r) @ be32 (rw_ttl r) @ be16 (rw_rdlength r)) @ rdata_wire ?rd) =
      Inr (dst (after_answer R done z rest) (after_state R done) i n)"
    by (rule run_then [OF a(2) run_then [OF run_fields [OF assms(1)] z(5)]])
  then show ?thesis using z(1-4) by (auto simp: record_bytes_def answer_matches_def)
qed

lemma after_answer_next:
  "after_answer R done a (b # rest) = with_a R (done @ [a]) b rest"
  by (simp add: after_answer_def with_a_def)

lemma after_state_value:
  assumes "dh_ancount (dr_header R) = word_of_nat n" "length done < n" "n < 65536"
  shows "after_state R done =
    (if length done + 1 = n then doh_response_done else response_answer_name_label_length)"
proof -
  have "unat (word_of_nat (length done + 1) :: u16) = length done + 1" "unat (word_of_nat n :: u16) = n"
    by (rule unat_of_nat16, use assms(2,3) in linarith)+
  then have "(word_of_nat (length done + 1) :: u16) = word_of_nat n \<longleftrightarrow> length done + 1 = n"
    by metis
  then show ?thesis using assms(1) by (simp add: after_state_def)
qed

lemma run_records:
  "\<forall>r\<in>set (r # rs). record_ok r \<Longrightarrow> pton4_ok env \<Longrightarrow> length done + length (r # rs) < 65536 \<Longrightarrow>
   dh_ancount (dr_header R) = word_of_nat (length done + length (r # rs)) \<Longrightarrow>
   \<exists>R' as i n. run (doh_response_parser_feed env)
     (dst (with_a R done zero_answer (replicate (length rs) zero_answer)) response_answer_name_label_length i0 n0)
     (concat (map record_bytes (r # rs))) = Inr (dst R' doh_response_done i n) \<and>
   dr_answers R' = Some (done @ as) \<and> list_all2 answer_matches (r # rs) as \<and>
   dr_header R' = dr_header R \<and> dr_question R' = dr_question R"
proof (induction rs arbitrary: r "done" i0 n0)
  case Nil
  obtain z i n where z: "answer_matches r z" "run (doh_response_parser_feed env)
      (dst (with_a R done zero_answer []) response_answer_name_label_length i0 n0) (record_bytes r) =
      Inr (dst (after_answer R done z []) (after_state R done) i n)"
    using run_record [of "done" env r R "[]" i0 n0] Nil.prems by auto
  have "after_state R done = doh_response_done"
    using after_state_value [of R "length done + 1" "done"] Nil.prems by simp
  then show ?case using z
    by (intro exI [of _ "after_answer R done z []"] exI [of _ "[z]"] exI [of _ i] exI [of _ n])
      (simp add: after_answer_def with_a_def)
next
  case (Cons r' rs)
  obtain z i n where z: "answer_matches r z" "run (doh_response_parser_feed env)
      (dst (with_a R done zero_answer (replicate (length (r' # rs)) zero_answer))
        response_answer_name_label_length i0 n0) (record_bytes r) =
      Inr (dst (after_answer R done z (replicate (length (r' # rs)) zero_answer)) (after_state R done) i n)"
    using run_record [of "done" env r R "replicate (length (r' # rs)) zero_answer" i0 n0] Cons.prems by auto
  have s: "after_state R done = response_answer_name_label_length"
    using after_state_value [of R "length done + length (r # r' # rs)" "done"] Cons.prems by simp
  have a: "after_answer R done z (replicate (length (r' # rs)) zero_answer) =
      with_a R (done @ [z]) zero_answer (replicate (length rs) zero_answer)"
    by (simp add: after_answer_next)
  obtain R' as i' n' where R': "run (doh_response_parser_feed env)
      (dst (with_a R (done @ [z]) zero_answer (replicate (length rs) zero_answer))
        response_answer_name_label_length i n) (concat (map record_bytes (r' # rs))) =
      Inr (dst R' doh_response_done i' n')" "dr_answers R' = Some ((done @ [z]) @ as)"
      "list_all2 answer_matches (r' # rs) as" "dr_header R' = dr_header R" "dr_question R' = dr_question R"
    using Cons.IH [of r' "done @ [z]" i n] Cons.prems by auto
  have "run (doh_response_parser_feed env)
      (dst (with_a R done zero_answer (replicate (length (r' # rs)) zero_answer))
        response_answer_name_label_length i0 n0) (record_bytes r @ concat (map record_bytes (r' # rs))) =
      Inr (dst R' doh_response_done i' n')"
    by (rule run_then [OF z(2)]) (simp only: s a R'(1))
  moreover have "list_all2 answer_matches (r # r' # rs) (z # as)" using z(1) R'(3) by simp
  moreover have "dr_answers R' = Some (done @ (z # as))" using R'(2) by simp
  ultimately show ?case using R'(4,5) by (metis concat.simps(2) list.map(2))
qed

lemma run_message:
  assumes "message_ok m" "env_calloc env (length (ms_records m))" "pton4_ok env"
  shows "\<exists>q as. run (doh_response_parser_feed env) (doh_response_parser_init p) (message_bytes m @ rest) = Inr q \<and>
     dp_state q = doh_response_done \<and> dr_header (dp_response q) = header_value m \<and>
     take (length (dotted (ms_qname m))) (dq_qname (dr_question (dp_response q))) = dotted (ms_qname m) \<and>
     dr_answers (dp_response q) = Some as \<and> list_all2 answer_matches (ms_records m) as"
proof -
  obtain r rs where rs: "ms_records m = r # rs"
    using assms(1) by (cases "ms_records m") (auto simp: message_ok_def)
  let ?R = "with_q (zero_doh_response\<lparr>dr_header := header_value m,
      dr_answers := Some (replicate (length (ms_records m)) zero_answer)\<rparr>)"
  have q0: "?R [] 0 0 = zero_doh_response\<lparr>dr_header := header_value m,
      dr_answers := Some (replicate (length (ms_records m)) zero_answer)\<rparr>"
    by (simp add: with_q_def zero_doh_response_def pad_Nil)
  let ?R1 = "?R (dotted (ms_qname m)) (ms_qtype m) (ms_qclass m)"
  have r1: "?R1 = with_a ?R1 [] zero_answer (replicate (length rs) zero_answer)"
    by (simp add: with_a_def with_q_def rs zero_doh_response_def)
  have nm: "name_ok (ms_qname m)" using assms(1) by (simp add: message_ok_def)
  obtain n where n: "run (doh_response_parser_feed env)
      (dst (?R [] 0 0) response_question_qname_label_length 1 2)
      (labels_wire (ms_qname m) @ [0] @ be16 (ms_qtype m) @ be16 (ms_qclass m)) =
      Inr (dst ?R1 response_answer_name_label_length 0 n)"
    using run_question [OF nm] by blast
  have "\<forall>x\<in>set (r # rs). record_ok x" "length ([] :: answer list) + length (r # rs) < 65536"
    using assms(1) rs by (auto simp: message_ok_def)
  moreover have "dh_ancount (dr_header ?R1) = word_of_nat (length ([] :: answer list) + length (r # rs))"
    by (simp add: with_q_def header_value_def rs)
  ultimately obtain R' as i n' where R': "run (doh_response_parser_feed env)
      (dst (with_a ?R1 [] zero_answer (replicate (length rs) zero_answer)) response_answer_name_label_length 0 n)
      (concat (map record_bytes (r # rs))) = Inr (dst R' doh_response_done i n')"
      "dr_answers R' = Some ([] @ as)" "list_all2 answer_matches (r # rs) as"
      "dr_header R' = dr_header ?R1" "dr_question R' = dr_question ?R1"
    using run_records [OF _ assms(3), of r rs "[]" ?R1 0 n] by blast
  have fin: "run (doh_response_parser_feed env) (dst R' doh_response_done i n') rest = Inr (dst R' doh_response_done i n')"
    by (rule doh.run_fin) (simp add: doh_fin_def dst_def)
  have "run (doh_response_parser_feed env) (doh_response_parser_init p) (message_bytes m @ rest) =
      Inr (dst R' doh_response_done i n')"
    using run_then [OF run_header [OF assms(1,2)] run_then [OF n [unfolded q0] run_then [OF R'(1) [folded r1] fin]]]
    by (simp only: message_bytes_def rs append_assoc)
  moreover have "take (length (dotted (ms_qname m))) (dq_qname (dr_question ?R1)) = dotted (ms_qname m)"
    by (simp add: with_q_def pad_def)
  ultimately show ?thesis using R'(2-5) rs
    by (intro exI [of _ "dst R' doh_response_done i n'"] exI [of _ as])
      (simp add: dst_def with_q_def)
qed

text \<open>
  C27: The DNS response parser reads back every well-formed message: for each message (any header,
  a question name and at least one record, whose names have at most 255 bytes with a dot after
  each label, the names in labels or ending in a pointer, the data an IPv4 address, an IPv6 address
  or a canonical name) the parser ends in \<^verbatim>\<open>doh_response_done\<close> after exactly its bytes, and holds the
  header, the question, and one answer per record with the type, class, time to live and address
  of that record. It assumes that the allocation succeeds and that \<^verbatim>\<open>inet_pton\<close> reads back the
  dotted text of an address.
\<close>

theorem doh_parses_message:
  assumes "message_ok m" "env_calloc env (length (ms_records m))" "pton4_ok env"
  shows "\<exists>q as. run (doh_response_parser_feed env) (doh_response_parser_init p) (message_bytes m @ rest) = Inr q \<and>
     dp_state q = doh_response_done \<and> dr_header (dp_response q) = header_value m \<and>
     take (length (dotted (ms_qname m))) (dq_qname (dr_question (dp_response q))) = dotted (ms_qname m) \<and>
     dr_answers (dp_response q) = Some as \<and> list_all2 answer_matches (ms_records m) as"
  by (rule run_message [OF assms])

section \<open>An implementation of the address parser, for the witness\<close>

fun split_dots :: "bytes \<Rightarrow> bytes \<Rightarrow> bytes list" where
  "split_dots acc [] = [acc]"
| "split_dots acc (c # cs) =
     (if c = DOT then acc # split_dots [] cs else split_dots (acc @ [c]) cs)"

definition dotted_pton4 :: "bytes \<Rightarrow> bytes option" where
  "dotted_pton4 s =
     (let ps = split_dots [] s
      in if length ps = 4 then Some (map (\<lambda>ds. word_of_nat (dec_val 0 ds)) ps) else None)"

lemma digit_word:
  assumes "k < 10"
  shows "unat ((48 + word_of_nat k :: u8) - DIG0) = k" and "(48 + word_of_nat k :: u8) \<noteq> DOT"
proof -
  show "unat ((48 + word_of_nat k :: u8) - DIG0) = k" using assms by (simp add: unat_of_nat)
  have "unat (48 + word_of_nat k :: u8) = 48 + k"
    using assms by (simp add: unat_word_ariths unat_of_nat)
  then have "unat (48 + word_of_nat k :: u8) \<noteq> unat DOT" by simp
  then show "(48 + word_of_nat k :: u8) \<noteq> DOT" by (rule contrapos_nn) (rule arg_cong)
qed

lemma dec_val_dec_text: "dec_val 0 (dec_text n) = n"
proof (induction n rule: dec_text.induct)
  case (1 n)
  then show ?case using digit_word(1)
    by (subst dec_text.simps) (simp add: dec_val_append)
qed

lemma dot_notin_dec_text: "DOT \<notin> set (dec_text n)"
proof (induction n rule: dec_text.induct)
  case (1 n)
  then show ?case using digit_word(2)
    by (subst dec_text.simps) (auto dest: sym)
qed

lemma split_dots_piece: "DOT \<notin> set xs \<Longrightarrow> split_dots acc (xs @ DOT # ys) = (acc @ xs) # split_dots [] ys"
  by (induction xs arbitrary: acc) auto

lemma split_dots_last: "DOT \<notin> set xs \<Longrightarrow> split_dots acc xs = [acc @ xs]"
  by (induction xs arbitrary: acc) auto

lemma dotted_pton4_ok: "dotted_pton4 (ipv4_text a b c d) = Some [a, b, c, d]"
proof -
  have "split_dots [] (ipv4_text a b c d) =
      [dec_text (unat a), dec_text (unat b), dec_text (unat c), dec_text (unat d)]"
    by (simp add: ipv4_text_def split_dots_piece split_dots_last dot_notin_dec_text)
  then show ?thesis by (simp add: dotted_pton4_def dec_val_dec_text)
qed

definition sample_env :: doh_env where
  "sample_env = \<lparr>env_calloc = \<lambda>n. n \<le> 16, env_pton4 = dotted_pton4, env_ntop6 = \<lambda>_. [COLON, COLON]\<rparr>"

text \<open>The answer to \<open>a.b\<close>: a canonical name and then the address \<open>10.0.0.255\<close>.\<close>

definition sample_message :: message where
  "sample_message =
     \<lparr>ms_id = 7, ms_flags_high = 129, ms_flags_low = 128, ms_qdcount = 1, ms_nscount = 0, ms_arcount = 0,
      ms_qname = [[97], [98]], ms_qtype = 1, ms_qclass = 1,
      ms_records =
        [\<lparr>rw_labels = [], rw_end = Pointer 192 12, rw_class = 1, rw_ttl = 60, rw_rdlength = 5,
          rw_rdata = CNAME [[99, 99]] Root\<rparr>,
         \<lparr>rw_labels = [[99, 99]], rw_end = Root, rw_class = 1, rw_ttl = 60, rw_rdlength = 4,
          rw_rdata = A 10 0 0 255\<rparr>]\<rparr>"

definition blank_doh_parser :: doh_response_parser where
  "blank_doh_parser = \<lparr>dp_response = zero_doh_response, dp_state = response_header_id, dp_i = 0, dp_n = 0\<rparr>"

theorem doh_parses_message_witness:
  "\<exists>q as. run (doh_response_parser_feed sample_env) (doh_response_parser_init blank_doh_parser)
       (message_bytes sample_message @ []) = Inr q \<and>
     dp_state q = doh_response_done \<and> dr_header (dp_response q) = header_value sample_message \<and>
     take (length (dotted (ms_qname sample_message))) (dq_qname (dr_question (dp_response q))) =
       dotted (ms_qname sample_message) \<and>
     dr_answers (dp_response q) = Some as \<and> list_all2 answer_matches (ms_records sample_message) as"
proof (rule doh_parses_message)
  show "message_ok sample_message"
    by (simp add: message_ok_def sample_message_def name_ok_def label_ok_def dotted_def record_ok_def
        is_pointer_def)
  show "env_calloc sample_env (length (ms_records sample_message))"
    by (simp add: sample_env_def sample_message_def)
  show "pton4_ok sample_env" by (simp add: pton4_ok_def sample_env_def dotted_pton4_ok)
qed

section \<open>Memory safety\<close>

definition answer_shape :: "answer \<Rightarrow> bool" where
  "answer_shape a \<longleftrightarrow>
     length (an_data a) = 46 \<and> length (an_ip a) = 16 \<and> (\<forall>nm. an_name a = AName nm \<longrightarrow> length nm = 255)"

definition unnamed :: "answer \<Rightarrow> bool" where
  "unnamed a \<longleftrightarrow> an_name a \<noteq> APtr"

text \<open>What holds of the current answer in each state, with the indices \<open>i\<close> and \<open>n\<close> of the parser.\<close>

definition cur_ok :: "doh_response_state \<Rightarrow> int \<Rightarrow> int \<Rightarrow> answer \<Rightarrow> bool" where
  "cur_ok s i n a \<longleftrightarrow>
     answer_shape a \<and>
     (case s of
        response_answer_ipv4_rdata \<Rightarrow> 0 \<le> i \<and> i \<le> 4 \<and> n = 4 \<and> int (unat (an_rdata_length a)) \<le> 4 * i \<and>
          (0 < i \<longrightarrow> 0 < unat (an_rdata_length a))
      | response_answer_ipv6_rdata \<Rightarrow> 0 \<le> i \<and> n = 16
      | response_answer_cname_label_rdata \<Rightarrow> True
      | response_answer_cname_label_length_rdata \<Rightarrow> True
      | response_answer_cname_pointer_rdata \<Rightarrow> True
      | response_answer_name_pointer \<Rightarrow> an_rdata_length a = 0
      | response_answer_type \<Rightarrow> an_rdata_length a = 0
      | response_answer_class \<Rightarrow> an_rdata_length a = 0
      | response_answer_ttl \<Rightarrow> an_rdata_length a = 0
      | response_answer_rdlength \<Rightarrow> an_rdata_length a = 0
      | response_header_id \<Rightarrow> False
      | response_header_flags \<Rightarrow> False
      | response_header_qdcount \<Rightarrow> False
      | response_header_ancount \<Rightarrow> False
      | _ \<Rightarrow> an_rdata_length a = 0 \<and> unnamed a)"

definition in_answers :: "doh_response_parser \<Rightarrow> bool" where
  "in_answers p \<longleftrightarrow>
     (\<exists>R ds cur rest. dp_response p = with_a R ds cur rest \<and> length ds < 65536 \<and>
        length ds + 1 + length rest = unat (dh_ancount (dr_header R)) \<and>
        set rest \<subseteq> {zero_answer} \<and> cur_ok (dp_state p) (dp_i p) (dp_n p) cur)"

definition doh_inv :: "doh_response_parser \<Rightarrow> bool" where
  "doh_inv p \<longleftrightarrow>
     length (dq_qname (dr_question (dp_response p))) = 255 \<and>
     (case dp_state p of
        response_header_id \<Rightarrow> dr_answer_index (dp_response p) = 0
      | response_header_flags \<Rightarrow> dr_answer_index (dp_response p) = 0
      | response_header_qdcount \<Rightarrow> dr_answer_index (dp_response p) = 0
      | response_header_ancount \<Rightarrow> dr_answer_index (dp_response p) = 0
      | doh_response_done \<Rightarrow> True
      | doh_no_answers \<Rightarrow> True
      | response_mem_alloc_error \<Rightarrow> True
      | doh_response_error \<Rightarrow> True
      | _ \<Rightarrow> in_answers p)"

definition doh_env_ok :: "doh_env \<Rightarrow> bool" where
  "doh_env_ok env \<longleftrightarrow> (\<forall>s b. env_pton4 env s = Some b \<longrightarrow> length b = 4)"

lemma zero_answer_ok: "answer_shape zero_answer" "unnamed zero_answer" "an_rdata_length zero_answer = 0"
  by (simp_all add: answer_shape_def zero_answer_def unnamed_def)

lemma in_answersE:
  assumes "in_answers p"
  obtains R ds cur rest where "dp_response p = with_a R ds cur rest" "length ds < 65536"
    "length ds + 1 + length rest = unat (dh_ancount (dr_header R))" "set rest \<subseteq> {zero_answer}"
    "cur_ok (dp_state p) (dp_i p) (dp_n p) cur"
  using assms by (auto simp: in_answers_def)

lemma in_answersI:
  assumes "dp_response p = with_a R ds cur rest" "length ds < 65536"
    "length ds + 1 + length rest = unat (dh_ancount (dr_header R))" "set rest \<subseteq> {zero_answer}"
    "cur_ok (dp_state p) (dp_i p) (dp_n p) cur"
  shows "in_answers p"
  using assms unfolding in_answers_def by blast

text \<open>After a whole answer the parser is done or at the start of the next, still zeroed, answer.\<close>

lemma next_answer_inv:
  assumes "dp_response p = with_a R ds a rest" "length ds < 65536"
    "length ds + 1 + length rest = unat (dh_ancount (dr_header R))" "set rest \<subseteq> {zero_answer}"
    "next_answer p = (p', s)"
  shows "s = doh_response_done \<or> s = response_answer_name_label_length \<and> in_answers (p'\<lparr>dp_state := s\<rparr>)"
proof (cases "rest")
  case Nil
  then have "length ds + 1 = unat (dh_ancount (dr_header R))" using assms(3) by simp
  then have "(word_of_nat (length ds + 1) :: u16) = dh_ancount (dr_header R)"
    by (simp only:) simp
  then show ?thesis using assms(5) next_answer_after [OF assms(1)] by (simp add: after_state_def)
next
  case (Cons b bs)
  have b: "b = zero_answer" using assms(4) Cons by simp
  have "length ds + 1 < 65536"
    using assms(3) Cons unsigned_less [of "dh_ancount (dr_header R)", where ?'a = nat] by simp
  then have "in_answers (p'\<lparr>dp_state := s\<rparr>)" if "s = response_answer_name_label_length"
    using assms(3-5) Cons next_answer_after [OF assms(1)] b zero_answer_ok that
    by (intro in_answersI [where R = R and ds = "ds @ [a]" and cur = b and rest = bs])
      (auto simp: after_answer_next cur_ok_def)
  then show ?thesis using assms(5) next_answer_after [OF assms(1)]
    by (auto simp: after_state_def split: if_splits)
qed

definition answers_next :: "doh_response_parser \<Rightarrow> doh_response_parser \<Rightarrow> bool" where
  "answers_next p q \<longleftrightarrow>
     dr_question (dp_response q) = dr_question (dp_response p) \<and> (doh_fin q \<or> in_answers q)"

lemma with_a_current [simp]: "the (dr_answers (with_a R ds a rest)) ! length ds = a"
  by (simp add: with_a_def)

text \<open>The new current answer is read off the new response, so that nothing has to be guessed.\<close>

lemma answers_nextI:
  assumes "dp_response p = with_a R ds cur rest" "length ds < 65536"
    "length ds + 1 + length rest = unat (dh_ancount (dr_header R))" "set rest \<subseteq> {zero_answer}"
    "dp_response q = with_a R ds (the (dr_answers (dp_response q)) ! length ds) rest"
    "doh_fin q \<or> cur_ok (dp_state q) (dp_i q) (dp_n q) (the (dr_answers (dp_response q)) ! length ds)"
  shows "answers_next p q"
proof -
  have "dr_question (dp_response q) = dr_question (dp_response p)"
    by (subst assms(5)) (simp add: assms(1) with_a_def)
  then show ?thesis using assms(6) in_answersI [OF assms(5,2,3,4)] by (auto simp: answers_next_def)
qed

lemma next_answer_next:
  assumes "dp_response p = with_a R ds cur rest" "length ds < 65536"
    "length ds + 1 + length rest = unat (dh_ancount (dr_header R))" "set rest \<subseteq> {zero_answer}"
    "dp_response p1 = with_a R ds a rest" "next_answer p1 = (p2, s)"
  shows "answers_next p (p2\<lparr>dp_state := s\<rparr>)"
proof -
  have "dr_question (dp_response p2) = dr_question (dp_response p)"
    using next_answer_after [OF assms(5)] assms(1,6) by (auto simp: after_answer_def with_a_def)
  then show ?thesis using next_answer_inv [OF assms(5,2,3,4,6)]
    by (auto simp: answers_next_def doh_fin_def)
qed

lemma step_simple_field:
  assumes "in_answers p"
    "dp_state p \<in> {response_answer_type, response_answer_class, response_answer_ttl, response_answer_name_pointer}"
  shows "\<exists>q. doh_response_parser_feed env p c = Inr q \<and> answers_next p q"
proof -
  obtain R ds cur rest where p: "dp_response p = with_a R ds cur rest" "length ds < 65536"
      "length ds + 1 + length rest = unat (dh_ancount (dr_header R))" "set rest \<subseteq> {zero_answer}"
      "cur_ok (dp_state p) (dp_i p) (dp_n p) cur"
    by (rule in_answersE [OF assms(1)])
  have u: "upd_answer f (p\<lparr>dp_i := i\<rparr>) =
       bindR (f cur) (\<lambda>cur'. Inr (p\<lparr>dp_i := i, dp_response := with_a R ds cur' rest\<rparr>))"
      "upd_answer f (p\<lparr>dp_i := i, dp_n := n\<rparr>) =
       bindR (f cur) (\<lambda>cur'. Inr (p\<lparr>dp_i := i, dp_n := n, dp_response := with_a R ds cur' rest\<rparr>))" for f i n
    using p(1,2) by (simp_all add: upd_answer_value)
  show ?thesis using assms(2) p(5)
    by (auto simp: doh_response_parser_feed_def doh_step_def r_answer_type_def r_answer_class_def
        r_answer_ttl_def r_answer_name_pointer_def u cur_ok_def answer_shape_def doh_fin_def p(1)
        intro!: answers_nextI [OF p(1-4)])
qed

lemma step_rdlength:
  assumes "in_answers p" "dp_state p = response_answer_rdlength"
  shows "\<exists>q. doh_response_parser_feed env p c = Inr q \<and> answers_next p q"
proof -
  obtain R ds cur rest where p: "dp_response p = with_a R ds cur rest" "length ds < 65536"
      "length ds + 1 + length rest = unat (dh_ancount (dr_header R))" "set rest \<subseteq> {zero_answer}"
      "cur_ok (dp_state p) (dp_i p) (dp_n p) cur"
    by (rule in_answersE [OF assms(1)])
  have u: "upd_answer f (p\<lparr>dp_i := i\<rparr>) =
       bindR (f cur) (\<lambda>cur'. Inr (p\<lparr>dp_i := i, dp_response := with_a R ds cur' rest\<rparr>))" for f i
    using p(1,2) by (simp_all add: upd_answer_value)
  show ?thesis using assms(2) p(2,5)
    by (auto simp: doh_response_parser_feed_def doh_step_def r_answer_rdlength_def u current_answer_value
        cur_ok_def answer_shape_def doh_fin_def MAX_IPV4_def MAX_IPV6_def p(1)
        intro!: answers_nextI [OF p(1-4)])
qed

lemma step_cname:
  assumes "in_answers p"
    "dp_state p \<in> {response_answer_cname_label_length_rdata, response_answer_cname_label_rdata,
       response_answer_cname_pointer_rdata}"
  shows "\<exists>q. doh_response_parser_feed env p c = Inr q \<and> answers_next p q"
proof -
  obtain R ds cur rest where p: "dp_response p = with_a R ds cur rest" "length ds < 65536"
      "length ds + 1 + length rest = unat (dh_ancount (dr_header R))" "set rest \<subseteq> {zero_answer}"
      "cur_ok (dp_state p) (dp_i p) (dp_n p) cur"
    by (rule in_answersE [OF assms(1)])
  obtain p2 s p3 s' where n: "next_answer p = (p2, s)" "next_answer (p\<lparr>dp_i := 0\<rparr>) = (p3, s')"
    by (metis surj_pair)
  have "answers_next p (p2\<lparr>dp_state := s\<rparr>)" "answers_next p (p3\<lparr>dp_state := s'\<rparr>)"
    using next_answer_next [OF p(1-4) _ n(1)] next_answer_next [OF p(1-4) _ n(2)] p(1) by auto
  then show ?thesis using assms(2) p(5)
    by (auto simp: doh_response_parser_feed_def doh_step_def r_answer_cname_label_length_rdata_def
        r_answer_cname_label_rdata_def r_answer_cname_pointer_rdata_def n cur_ok_def doh_fin_def p(1)
        Let_def intro!: answers_nextI [OF p(1-4)])
qed

lemma ipv6_finish_shape:
  assumes "answer_shape a"
  shows "\<exists>a'. ipv6_finish env a = Inr a'"
  using assms by (simp add: ipv6_finish_def INET6_ADDRSTRLEN_def store_def answer_shape_def Let_def)

lemma step_ipv6:
  assumes "in_answers p" "dp_state p = response_answer_ipv6_rdata"
  shows "\<exists>q. doh_response_parser_feed env p c = Inr q \<and> answers_next p q"
proof -
  obtain R ds cur rest where p: "dp_response p = with_a R ds cur rest" "length ds < 65536"
      "length ds + 1 + length rest = unat (dh_ancount (dr_header R))" "set rest \<subseteq> {zero_answer}"
      "cur_ok (dp_state p) (dp_i p) (dp_n p) cur"
    by (rule in_answersE [OF assms(1)])
  have i: "0 \<le> dp_i p" "dp_n p = 16" "answer_shape cur" using p(5) assms(2) by (auto simp: cur_ok_def)
  show ?thesis
  proof (cases "dp_i p < 16")
    case False
    have "answers_next p (p\<lparr>dp_state := doh_response_error\<rparr>)"
      by (rule answers_nextI [OF p(1-4)]) (simp_all add: p(1) doh_fin_def)
    then show ?thesis using assms(2) i False
      by (simp add: doh_response_parser_feed_def doh_step_def r_answer_ipv6_rdata_def)
  next
    case True
    let ?cur = "cur\<lparr>an_ip := (an_ip cur)[nat (dp_i p) := c]\<rparr>"
    have sh: "answer_shape ?cur" using i(3) by (simp add: answer_shape_def)
    let ?p1 = "p\<lparr>dp_i := dp_i p + 1, dp_response := with_a R ds ?cur rest\<rparr>"
    obtain p1 where p1: "p1 = p\<lparr>dp_i := dp_i p + 1, dp_response := with_a R ds ?cur rest\<rparr>" by simp
    have f: "dp_i p1 = dp_i p + 1" "dp_n p1 = 16" "dp_response p1 = with_a R ds ?cur rest"
      using i by (simp_all add: p1)
    have u: "upd_answer (\<lambda>a. bindR (arr_set (an_ip a) (dp_i p) c) (\<lambda>ip. Inr (a\<lparr>an_ip := ip\<rparr>)))
        (p\<lparr>dp_i := dp_i p + 1\<rparr>) = Inr p1"
      using p(1,2) i True by (simp add: upd_answer_value answer_shape_def p1)
    obtain z where z: "ipv6_finish env ?cur = Inr z" using ipv6_finish_shape [OF sh] by blast
    obtain p2 where p2: "p2 = p1\<lparr>dp_response := with_a R ds z rest\<rparr>" by simp
    have u2: "upd_answer (ipv6_finish env) p1 = Inr p2"
      using p(2) z f(3) by (simp add: upd_answer_value p2)
    obtain p3 s where n: "next_answer p2 = (p3, s)" by (metis surj_pair)
    have a3: "answers_next p (p3\<lparr>dp_state := s\<rparr>)"
      by (rule next_answer_next [OF p(1-4) _ n]) (simp add: p2)
    have a1: "answers_next p (p1\<lparr>dp_state := response_answer_ipv6_rdata\<rparr>)"
      by (rule answers_nextI [OF p(1-4)]) (use i sh in \<open>simp_all add: cur_ok_def f\<close>)
    have "doh_response_parser_feed env p c = (if dp_i p = 15 then Inr (p3\<lparr>dp_state := s\<rparr>)
        else Inr (p1\<lparr>dp_state := response_answer_ipv6_rdata\<rparr>))"
      using assms(2) i(2) True u u2 n f
      by (simp add: doh_response_parser_feed_def doh_step_def r_answer_ipv6_rdata_def)
    then show ?thesis using a1 a3 by auto
  qed
qed

lemma ipv4_digit_shape:
  assumes "answer_shape a" "unat (an_rdata_length a) \<le> 12"
  shows "\<exists>a'. ipv4_digit c a = Inr a' \<and> answer_shape a' \<and>
     unat (an_rdata_length a') \<le> unat (an_rdata_length a) + 4 \<and> 0 < unat (an_rdata_length a')"
proof -
  let ?k = "unat (an_rdata_length a)" and ?l = "length (dec_text (unat c))"
  have l: "?l \<le> 3" using length_dec_text [of "unat c"] unat_u8 [of c] by simp
  have w: "an_rdata_length a + word_of_nat ?l = word_of_nat (?k + ?l)" by simp
  have u: "uint (an_rdata_length a + word_of_nat ?l) = int (?k + ?l)"
    unfolding w using assms(2) l by (intro uint_of_nat16) simp
  have v: "an_rdata_length a + word_of_nat ?l + 1 = word_of_nat (?k + ?l + 1)" by simp
  have n: "unat (an_rdata_length a + word_of_nat ?l + 1) = ?k + ?l + 1"
    unfolding v using assms(2) l by (intro unat_of_nat16) simp
  have b: "0 \<le> int (?k + ?l)" "int (?k + ?l) < 46" "nat (int (?k + ?l)) = ?k + ?l"
    using assms(2) l by (simp_all only: of_nat_0_le_iff nat_int)
  show ?thesis using assms(1) assms(2) l n b
    unfolding ipv4_digit_def store_def answer_shape_def Let_def u arr_set_def by auto
qed

lemma ipv4_finish_shape:
  assumes "answer_shape a" "unat (an_rdata_length a) \<le> 16" "0 < unat (an_rdata_length a)" "doh_env_ok env"
  shows "\<exists>a'. ipv4_finish env a = Inr a'"
proof -
  let ?k = "unat (an_rdata_length a)"
  have "uint (an_rdata_length a - 1) = int (?k - 1)"
  proof -
    have "an_rdata_length a - 1 = word_of_nat (?k - 1)"
      using assms(3) by (simp add: of_nat_diff)
    then show ?thesis using assms(2) uint_of_nat16 [of "?k - 1"] by simp
  qed
  then have u: "0 \<le> uint (an_rdata_length a - 1)" "uint (an_rdata_length a - 1) < int (length (an_data a))"
    using assms(1,2) by (auto simp: answer_shape_def)
  obtain k where k: "uint (an_rdata_length a - 1) = k" by simp
  let ?d = "(an_data a)[nat k := 0]"
  have "0 \<in> set ?d" using u unfolding k by (intro set_update_memI) auto
  then have "c_string ?d = Inr (cstr ?d)" by (simp add: c_string_def)
  then show ?thesis using assms(1,4) u unfolding ipv4_finish_def store_def answer_shape_def doh_env_ok_def Let_def k
    by (auto split: option.splits)
qed

lemma step_ipv4:
  assumes "in_answers p" "dp_state p = response_answer_ipv4_rdata" "doh_env_ok env"
  shows "\<exists>q. doh_response_parser_feed env p c = Inr q \<and> answers_next p q"
proof -
  obtain R ds cur rest where p: "dp_response p = with_a R ds cur rest" "length ds < 65536"
      "length ds + 1 + length rest = unat (dh_ancount (dr_header R))" "set rest \<subseteq> {zero_answer}"
      "cur_ok (dp_state p) (dp_i p) (dp_n p) cur"
    by (rule in_answersE [OF assms(1)])
  have i: "0 \<le> dp_i p" "dp_i p \<le> 4" "dp_n p = 4" "answer_shape cur"
      "int (unat (an_rdata_length cur)) \<le> 4 * dp_i p"
    using p(5) assms(2) by (auto simp: cur_ok_def)
  show ?thesis
  proof (cases "dp_i p < 4")
    case False
    have "answers_next p (p\<lparr>dp_state := doh_response_error\<rparr>)"
      by (rule answers_nextI [OF p(1-4)]) (simp_all add: p(1) doh_fin_def)
    then show ?thesis using assms(2) i False
      by (simp add: doh_response_parser_feed_def doh_step_def r_answer_ipv4_rdata_def)
  next
    case True
    have "unat (an_rdata_length cur) \<le> 12" using i(5) True by linarith
    then obtain y where y: "ipv4_digit c cur = Inr y" "answer_shape y"
        "unat (an_rdata_length y) \<le> unat (an_rdata_length cur) + 4" "0 < unat (an_rdata_length y)"
      using ipv4_digit_shape [OF i(4)] by blast
    obtain p0 where p0: "p0 = p\<lparr>dp_response := with_a R ds y rest\<rparr>" by simp
    obtain p1 where p1: "p1 = p0\<lparr>dp_i := dp_i p + 1\<rparr>" by simp
    have f: "dp_i p0 = dp_i p" "dp_n p1 = 4" "dp_i p1 = dp_i p + 1" "dp_response p1 = with_a R ds y rest"
      using i by (simp_all add: p1 p0)
    have u: "upd_answer (ipv4_digit c) p = Inr p0" using p(1,2) y(1) by (simp add: upd_answer_value p0)
    have "m \<le> k + 4 \<Longrightarrow> int k \<le> 4 * x \<Longrightarrow> int m \<le> 4 * (x + 1)" for m k :: nat and x by simp
    from this [OF y(3) i(5)] have yl: "int (unat (an_rdata_length y)) \<le> 4 * (dp_i p + 1)" .
    have "int m \<le> 4 * (x + 1) \<Longrightarrow> x < 4 \<Longrightarrow> m \<le> 16" for m :: nat and x by simp
    from this [OF yl True] have "unat (an_rdata_length y) \<le> 16" .
    then obtain z where z: "ipv4_finish env y = Inr z" using ipv4_finish_shape [OF y(2) _ y(4) assms(3)] by blast
    obtain p2 where p2: "p2 = p1\<lparr>dp_response := with_a R ds z rest\<rparr>" by simp
    have u2: "upd_answer (ipv4_finish env) p1 = Inr p2"
      using p(2) z f(4) by (simp add: upd_answer_value p2)
    obtain p3 s where n: "next_answer p2 = (p3, s)" by (metis surj_pair)
    have a3: "answers_next p (p3\<lparr>dp_state := s\<rparr>)"
      by (rule next_answer_next [OF p(1-4) _ n]) (simp add: p2)
    have ip: "0 \<le> dp_i p + 1" using i(1) by linarith
    have ck: "cur_ok response_answer_ipv4_rdata (dp_i p1) (dp_n p1) y"
      using ip i(2,3) True y(2,4) yl by (simp add: cur_ok_def f)
    have a1: "answers_next p (p1\<lparr>dp_state := response_answer_ipv4_rdata\<rparr>)"
      by (rule answers_nextI [OF p(1-4)]) (use ck in \<open>simp_all add: f\<close>)
    have feed: "doh_response_parser_feed env p c =
        bindR (let p = p1 in if dp_i p = dp_n p
               then bindR (upd_answer (ipv4_finish env) p) (\<lambda>p. Inr (next_answer p))
               else Inr (p, response_answer_ipv4_rdata)) (\<lambda>(p', next). Inr (p'\<lparr>dp_state := next\<rparr>))"
      using assms(2) i(3) True u f(1)
      by (simp add: doh_response_parser_feed_def doh_step_def r_answer_ipv4_rdata_def p1)
    have "doh_response_parser_feed env p c = (if dp_i p = 3 then Inr (p3\<lparr>dp_state := s\<rparr>)
        else Inr (p1\<lparr>dp_state := response_answer_ipv4_rdata\<rparr>))"
      unfolding feed using u2 n f by simp
    then show ?thesis using a1 a3 by auto
  qed
qed


lemma step_name_length:
  assumes "in_answers p" "dp_state p = response_answer_name_label_length"
  shows "\<exists>q. doh_response_parser_feed env p c = Inr q \<and> answers_next p q"
proof -
  obtain R ds cur rest where p: "dp_response p = with_a R ds cur rest" "length ds < 65536"
      "length ds + 1 + length rest = unat (dh_ancount (dr_header R))" "set rest \<subseteq> {zero_answer}"
      "cur_ok (dp_state p) (dp_i p) (dp_n p) cur"
    by (rule in_answersE [OF assms(1)])
  have u: "upd_answer f (p\<lparr>dp_i := i, dp_n := n\<rparr>) =
       bindR (f cur) (\<lambda>cur'. Inr (p\<lparr>dp_i := i, dp_n := n, dp_response := with_a R ds cur' rest\<rparr>))" for f i n
    using p(1,2) by (simp_all add: upd_answer_value)
  show ?thesis using assms(2) p(5)
    by (auto simp: doh_response_parser_feed_def doh_step_def r_answer_name_label_length_def u cur_ok_def
        answer_shape_def unnamed_def doh_fin_def p(1) intro!: answers_nextI [OF p(1-4)])
qed

text \<open>A byte of a name is stored, or the 255 bytes of the name are used up.\<close>

lemma name_push_shape:
  assumes "answer_shape a" "unnamed a" "uint (an_name_length a) < 255"
  shows "\<exists>a'. name_push c a = Inr a' \<and> answer_shape a' \<and> unnamed a' \<and>
     an_rdata_length a' = an_rdata_length a \<and> uint (an_name_length a') = uint (an_name_length a) + 1"
proof -
  obtain nm where nm: "an_name a = AName nm" "length nm = 255"
    using assms(1,2) by (cases "an_name a") (auto simp: answer_shape_def unnamed_def)
  have "uint (an_name_length a + 1) = uint (an_name_length a) + 1"
    using assms(3) by (simp add: uint_word_ariths)
  then show ?thesis using nm assms
    by (simp add: name_push_def answer_shape_def unnamed_def)
qed

lemma step_name_label:
  assumes "in_answers p" "dp_state p = response_answer_name_label"
    "\<And>a. current_answer p = Inr a \<Longrightarrow> uint (an_name_length a) < 254"
  shows "\<exists>q. doh_response_parser_feed env p c = Inr q \<and> answers_next p q"
proof -
  obtain R ds cur rest where p: "dp_response p = with_a R ds cur rest" "length ds < 65536"
      "length ds + 1 + length rest = unat (dh_ancount (dr_header R))" "set rest \<subseteq> {zero_answer}"
      "cur_ok (dp_state p) (dp_i p) (dp_n p) cur"
    by (rule in_answersE [OF assms(1)])
  have cur: "answer_shape cur" "unnamed cur" "an_rdata_length cur = 0"
    using p(5) assms(2) by (simp_all add: cur_ok_def)
  have l: "uint (an_name_length cur) < 254"
    using assms(3) current_answer_value [OF p(1,2)] by simp
  show ?thesis
  proof (cases "dp_i p < dp_n p")
    case False
    have "answers_next p (p\<lparr>dp_state := doh_response_error\<rparr>)"
      by (rule answers_nextI [OF p(1-4)]) (simp_all add: p(1) doh_fin_def)
    then show ?thesis using assms(2) False
      by (simp add: doh_response_parser_feed_def doh_step_def r_answer_name_label_def)
  next
    case True
    obtain y where y: "name_push c cur = Inr y" "answer_shape y" "unnamed y" "an_rdata_length y = 0"
        "uint (an_name_length y) < 255"
      using name_push_shape [OF cur(1,2)] l cur(3) by fastforce
    obtain z where z: "name_push DOT y = Inr z" "answer_shape z" "unnamed z" "an_rdata_length z = 0"
      using name_push_shape [OF y(2,3,5)] y(4) by metis
    obtain p1 where p1: "p1 = p\<lparr>dp_i := dp_i p + 1, dp_response := with_a R ds y rest\<rparr>" by simp
    have f: "dp_i p1 = dp_i p + 1" "dp_n p1 = dp_n p" "dp_response p1 = with_a R ds y rest"
      by (simp_all add: p1)
    have u: "upd_answer (name_push c) (p\<lparr>dp_i := dp_i p + 1\<rparr>) = Inr p1"
      using p(1,2) y(1) by (simp add: upd_answer_value p1)
    obtain p2 where p2: "p2 = p1\<lparr>dp_response := with_a R ds z rest\<rparr>" by simp
    have u2: "upd_answer (name_push DOT) p1 = Inr p2"
      using p(2) z(1) f(3) by (simp add: upd_answer_value p2)
    have a2: "answers_next p (p2\<lparr>dp_state := response_answer_name_label_length\<rparr>)"
      by (rule answers_nextI [OF p(1-4)]) (simp_all add: p2 z cur_ok_def)
    have a1: "answers_next p (p1\<lparr>dp_state := response_answer_name_label\<rparr>)"
      by (rule answers_nextI [OF p(1-4)]) (simp_all add: f y cur_ok_def)
    have "doh_response_parser_feed env p c = (if dp_i p + 1 = dp_n p
        then Inr (p2\<lparr>dp_state := response_answer_name_label_length\<rparr>)
        else Inr (p1\<lparr>dp_state := response_answer_name_label\<rparr>))"
      using assms(2) True u u2 f
      by (simp add: doh_response_parser_feed_def doh_step_def r_answer_name_label_def)
    then show ?thesis using a1 a2 by auto
  qed
qed

text \<open>The states before the first answer that own the block of answers.\<close>

definition preamble :: "doh_response_state set" where
  "preamble = {response_header_nscount, response_header_arcount, response_question_qname_label_length,
     response_question_qname_label, response_question_qtype, response_question_qclass,
     response_answer_name_label_length}"

lemma in_answers_keep:
  assumes "in_answers p" "dp_state p \<in> preamble" "dp_state q \<in> preamble"
    "dr_answers (dp_response q) = dr_answers (dp_response p)"
    "dr_answer_index (dp_response q) = dr_answer_index (dp_response p)"
    "dh_ancount (dr_header (dp_response q)) = dh_ancount (dr_header (dp_response p))"
  shows "in_answers q"
proof -
  obtain R ds cur rest where p: "dp_response p = with_a R ds cur rest" "length ds < 65536"
      "length ds + 1 + length rest = unat (dh_ancount (dr_header R))" "set rest \<subseteq> {zero_answer}"
      "cur_ok (dp_state p) (dp_i p) (dp_n p) cur"
    by (rule in_answersE [OF assms(1)])
  show ?thesis
  proof (rule in_answersI [OF _ p(2) _ p(4)])
    show "dp_response q = with_a (dp_response q) ds cur rest"
      using assms(4,5) p(1) by (simp add: with_a_def)
    show "length ds + 1 + length rest = unat (dh_ancount (dr_header (dp_response q)))"
      using assms(6) p(1,3) by (simp add: with_a_def)
    show "cur_ok (dp_state q) (dp_i q) (dp_n q) cur"
      using assms(2,3) p(5) by (auto simp: preamble_def cur_ok_def)
  qed
qed

lemma step_header_start:
  assumes "doh_inv p" "dp_state p \<in> {response_header_id, response_header_flags, response_header_qdcount}"
  shows "\<exists>q. doh_response_parser_feed env p c = Inr q \<and> doh_inv q"
  using assms
  by (auto simp: doh_response_parser_feed_def doh_step_def r_header_id_def r_header_flags_def
      r_header_qdcount_def upd_header_def doh_inv_def)

lemma step_ancount:
  assumes "doh_inv p" "dp_state p = response_header_ancount"
  shows "\<exists>q. doh_response_parser_feed env p c = Inr q \<and> doh_inv q"
proof -
  let ?h = "\<lambda>h. h\<lparr>dh_ancount := lo16 c (dh_ancount h)\<rparr>"
  obtain p1 where p1: "p1 = upd_header ?h (p\<lparr>dp_i := 0, dp_n := 2\<rparr>)" by simp
  obtain n where n: "dh_ancount (dr_header (dp_response p1)) = n" by simp
  have q: "length (dq_qname (dr_question (dp_response p1))) = 255" "dr_answer_index (dp_response p1) = 0"
    using assms by (auto simp: p1 upd_header_def doh_inv_def)
  have feed: "doh_response_parser_feed env p c =
      (if dp_i p = 0
       then Inr (upd_header (\<lambda>h. h\<lparr>dh_ancount := hi16 c\<rparr>) (p\<lparr>dp_i := 1\<rparr>)\<lparr>dp_state := response_header_ancount\<rparr>)
       else if dp_i p = 1
       then if n = 0 then Inr (p1\<lparr>dp_state := doh_no_answers\<rparr>)
            else if env_calloc env (unat n)
            then Inr (p1\<lparr>dp_response := (dp_response p1)\<lparr>dr_answers := Some (replicate (unat n) zero_answer)\<rparr>,
                        dp_state := response_header_nscount\<rparr>)
            else Inr (p1\<lparr>dp_response := (dp_response p1)\<lparr>dr_answers := None\<rparr>,
                        dp_state := response_mem_alloc_error\<rparr>)
       else Inr (p\<lparr>dp_state := doh_response_error\<rparr>))"
    using assms(2) n by (simp add: doh_response_parser_feed_def doh_step_def r_header_ancount_def p1 Let_def)
  have a: "in_answers (p1\<lparr>dp_response := (dp_response p1)\<lparr>dr_answers := Some (replicate (unat n) zero_answer)\<rparr>,
                        dp_state := response_header_nscount\<rparr>)" if "n \<noteq> 0"
  proof (rule in_answersI [where ds = "[]" and cur = zero_answer and rest = "replicate (unat n - 1) zero_answer"])
    have "0 < unat n" using that by (simp add: unat_gt_0)
    then have "replicate (unat n) zero_answer = zero_answer # replicate (unat n - 1) zero_answer"
      by (cases "unat n") auto
    then show "dp_response (p1\<lparr>dp_response := (dp_response p1)\<lparr>dr_answers := Some (replicate (unat n) zero_answer)\<rparr>,
        dp_state := response_header_nscount\<rparr>) =
        with_a (dp_response p1) [] zero_answer (replicate (unat n - 1) zero_answer)"
      using q(2) by (simp add: with_a_def)
    show "length [] + 1 + length (replicate (unat n - 1) zero_answer) = unat (dh_ancount (dr_header (dp_response p1)))"
      using \<open>0 < unat n\<close> n by simp
  qed (auto simp: cur_ok_def zero_answer_ok)
  show ?thesis using assms a q unfolding feed
    by (auto simp: doh_inv_def upd_header_def)
qed

lemma step_counts:
  assumes "doh_inv p" "dp_state p \<in> {response_header_nscount, response_header_arcount}"
  shows "\<exists>q. doh_response_parser_feed env p c = Inr q \<and> doh_inv q"
proof -
  have p: "in_answers p" "length (dq_qname (dr_question (dp_response p))) = 255" "dp_state p \<in> preamble"
    using assms by (auto simp: doh_inv_def preamble_def)
  show ?thesis using assms(2) p(2)
    by (auto simp: doh_response_parser_feed_def doh_step_def r_header_nscount_def r_header_arcount_def
        upd_header_def doh_inv_def preamble_def intro!: in_answers_keep [OF p(1,3)])
qed

lemma step_question_fields:
  assumes "doh_inv p"
    "dp_state p \<in> {response_question_qname_label_length, response_question_qtype, response_question_qclass}"
  shows "\<exists>q. doh_response_parser_feed env p c = Inr q \<and> doh_inv q"
proof -
  have p: "in_answers p" "length (dq_qname (dr_question (dp_response p))) = 255" "dp_state p \<in> preamble"
    using assms by (auto simp: doh_inv_def preamble_def)
  show ?thesis using assms(2) p(2)
    by (auto simp: doh_response_parser_feed_def doh_step_def r_question_qname_label_length_def
        r_question_qtype_def r_question_qclass_def
        upd_question_def doh_inv_def preamble_def intro!: in_answers_keep [OF p(1,3)])
qed

text \<open>A byte of the question's name is stored, or its 255 bytes are used up.\<close>

lemma qname_push_shape:
  assumes "length (dq_qname (dr_question (dp_response p))) = 255"
    "uint (dq_qname_size (dr_question (dp_response p))) < 255"
  shows "\<exists>q. qname_push c p = Inr q \<and> length (dq_qname (dr_question (dp_response q))) = 255 \<and>
     uint (dq_qname_size (dr_question (dp_response q))) = uint (dq_qname_size (dr_question (dp_response p))) + 1 \<and>
     dr_answers (dp_response q) = dr_answers (dp_response p) \<and>
     dr_answer_index (dp_response q) = dr_answer_index (dp_response p) \<and>
     dr_header (dp_response q) = dr_header (dp_response p) \<and> dp_i q = dp_i p \<and> dp_n q = dp_n p"
proof -
  have "uint (dq_qname_size (dr_question (dp_response p)) + 1) =
      uint (dq_qname_size (dr_question (dp_response p))) + 1"
    using assms(2) by (simp add: uint_word_ariths)
  then show ?thesis using assms by (simp add: qname_push_def upd_question_def Let_def)
qed

lemma step_question_label:
  assumes "doh_inv p" "dp_state p = response_question_qname_label"
    "uint (dq_qname_size (dr_question (dp_response p))) < 254"
  shows "\<exists>q. doh_response_parser_feed env p c = Inr q \<and> doh_inv q"
proof -
  have p: "in_answers p" "length (dq_qname (dr_question (dp_response p))) = 255" "dp_state p \<in> preamble"
    using assms by (auto simp: doh_inv_def preamble_def)
  let ?p = "p\<lparr>dp_i := dp_i p + 1\<rparr>"
  obtain p1 where p1: "qname_push c ?p = Inr p1" "length (dq_qname (dr_question (dp_response p1))) = 255"
      "uint (dq_qname_size (dr_question (dp_response p1))) < 255"
      "dr_answers (dp_response p1) = dr_answers (dp_response p)"
      "dr_answer_index (dp_response p1) = dr_answer_index (dp_response p)"
      "dr_header (dp_response p1) = dr_header (dp_response p)"
    using qname_push_shape [of ?p c] p(2) assms(3) by auto
  obtain p2 where p2: "qname_push DOT p1 = Inr p2" "length (dq_qname (dr_question (dp_response p2))) = 255"
      "dr_answers (dp_response p2) = dr_answers (dp_response p1)"
      "dr_answer_index (dp_response p2) = dr_answer_index (dp_response p1)"
      "dr_header (dp_response p2) = dr_header (dp_response p1)"
    using qname_push_shape [OF p1(2,3), of DOT] by auto
  have "in_answers (p1\<lparr>dp_state := response_question_qname_label\<rparr>)"
      "in_answers (p2\<lparr>dp_state := response_question_qname_label_length\<rparr>)"
    by (rule in_answers_keep [OF p(1,3)]; use p1 p2 in \<open>simp add: preamble_def\<close>)+
  then show ?thesis using assms(2) p(2) p1(1,2) p2(1,2)
    by (auto simp: doh_response_parser_feed_def doh_step_def r_question_qname_label_def doh_inv_def)
qed

text \<open>The states in which a byte may fall outside of an array: a name has used up its bytes.\<close>

definition name_overflow :: "doh_response_parser \<Rightarrow> bool" where
  "name_overflow p \<longleftrightarrow>
     (dp_state p = response_question_qname_label \<and> 254 \<le> uint (dq_qname_size (dr_question (dp_response p)))) \<or>
     (dp_state p = response_answer_name_label \<and>
        (case current_answer p of Inl _ \<Rightarrow> False | Inr a \<Rightarrow> 254 \<le> uint (an_name_length a)))"

lemma in_answers_inv:
  assumes "in_answers q" "length (dq_qname (dr_question (dp_response q))) = 255"
  shows "doh_inv q"
proof -
  have "\<exists>cur. cur_ok (dp_state q) (dp_i q) (dp_n q) cur" using assms(1) by (auto simp: in_answers_def)
  then have "dp_state q \<notin> {response_header_id, response_header_flags, response_header_qdcount, response_header_ancount}"
    by (auto simp: cur_ok_def)
  then show ?thesis using assms by (cases "dp_state q") (simp_all add: doh_inv_def)
qed

lemma answers_next_inv:
  assumes "answers_next p q" "doh_inv p"
  shows "doh_inv q"
proof (cases "doh_fin q")
  case True
  then show ?thesis using assms by (auto simp: answers_next_def doh_inv_def doh_fin_def)
next
  case False
  then show ?thesis using assms in_answers_inv by (simp add: answers_next_def doh_inv_def)
qed

lemma doh_step_safe:
  assumes "doh_inv p" "doh_env_ok env" "\<not> name_overflow p"
  shows "\<exists>q. doh_response_parser_feed env p c = Inr q \<and> doh_inv q"
proof -
  have n: "\<exists>q. doh_response_parser_feed env p c = Inr q \<and> answers_next p q \<Longrightarrow> ?thesis"
    using answers_next_inv [OF _ assms(1)] by blast
  show ?thesis
  proof (cases "dp_state p \<in> {response_header_id, response_header_flags, response_header_qdcount,
      response_header_ancount, response_header_nscount, response_header_arcount,
      response_question_qname_label_length, response_question_qname_label, response_question_qtype,
      response_question_qclass} \<or> doh_fin p")
    case True
    then show ?thesis using assms
      by (elim disjE insertE)
        (simp_all add: step_header_start step_ancount step_counts step_question_fields
          step_question_label name_overflow_def doh.fin_stays)
  next
    case False
    then have a: "in_answers p" using assms(1)
      by (auto simp: doh_inv_def doh_fin_def split: doh_response_state.splits)
    have l: "dp_state p = response_answer_name_label \<Longrightarrow> current_answer p = Inr x \<Longrightarrow> uint (an_name_length x) < 254" for x
      using assms(3) by (simp add: name_overflow_def)
    show ?thesis
    proof (rule n)
      show "\<exists>q. doh_response_parser_feed env p c = Inr q \<and> answers_next p q"
        using False step_name_length [OF a] step_name_label [OF a _ l] step_simple_field [OF a]
          step_rdlength [OF a] step_ipv4 [OF a _ assms(2)] step_ipv6 [OF a] step_cname [OF a]
        by (cases "dp_state p") (auto simp: doh_fin_def)
    qed
  qed
qed

lemma doh_run_fault:
  "run (doh_response_parser_feed env) p bs = Inl e \<Longrightarrow> doh_inv p \<Longrightarrow> doh_env_ok env \<Longrightarrow>
   \<exists>xs c ys q. bs = xs @ c # ys \<and> run (doh_response_parser_feed env) p xs = Inr q \<and> name_overflow q"
proof (induction bs arbitrary: p)
  case Nil
  then show ?case by simp
next
  case (Cons c bs)
  show ?case
  proof (cases "name_overflow p")
    case True
    then show ?thesis by (intro exI [of _ "[]"] exI) auto
  next
    case False
    then obtain q where q: "doh_response_parser_feed env p c = Inr q" "doh_inv q"
      using doh_step_safe Cons.prems by blast
    then obtain xs d ys r where "bs = xs @ d # ys" "run (doh_response_parser_feed env) q xs = Inr r"
        "name_overflow r"
      using Cons.IH [OF _ q(2) Cons.prems(3)] Cons.prems(1) by auto
    then show ?thesis using q(1) by (intro exI [of _ "c # xs"] exI) auto
  qed
qed

lemma doh_inv_init: "doh_inv (doh_response_parser_init p)"
  by (simp add: doh_inv_def doh_response_parser_init_def zero_doh_response_def)

text \<open>
  C32: The parser touches memory it does not own only for one reason. Whatever the server sends,
  and whether or not the answers can be allocated, a byte on which the parser leaves an array (or
  follows a null pointer, or misreads a union) is preceded by bytes after which at least 254 bytes
  of a name, of the question or of the current answer, have been stored. \<^verbatim>\<open>inet_pton\<close> writes four bytes.
\<close>

theorem doh_faults_only_in_names:
  assumes "doh_env_ok env" "run (doh_response_parser_feed env) (doh_response_parser_init p) bs = Inl e"
  shows "\<exists>xs c ys q. bs = xs @ c # ys \<and>
    run (doh_response_parser_feed env) (doh_response_parser_init p) xs = Inr q \<and> name_overflow q"
  using doh_run_fault [OF assms(2) doh_inv_init assms(1)] .

lemma qname_push_full:
  assumes "dp_response p = with_q R pre t k" "length pre = 255"
  shows "qname_push c p = Inl OutOfBounds"
  using assms by (simp add: qname_push_def with_q_def arr_set_def length_pad)

lemma run_qlabel_long:
  "l \<noteq> [] \<Longrightarrow> length pre \<le> 255 \<Longrightarrow> 255 < length (pre @ l @ [DOT]) \<Longrightarrow>
   run (doh_response_parser_feed env)
     (dst (with_q R pre 0 0) response_question_qname_label i (i + int (length l))) l = Inl OutOfBounds"
proof (induction l arbitrary: pre i)
  case Nil
  then show ?case by simp
next
  case (Cons c l)
  consider "length pre = 255" | "length pre < 255" "l = []" | "length pre < 255" "l \<noteq> []"
    using Cons.prems by linarith
  then show ?case
  proof cases
    case 1
    then show ?thesis by (simp add: doh_feed_defs r_question_qname_label_def qname_push_full)
  next
    case 2
    then show ?thesis using Cons.prems
      by (simp add: doh_feed_defs r_question_qname_label_def qname_push_value qname_push_full [where pre = "pre @ [c]"])
  next
    case 3
    then have "doh_response_parser_feed env
        (dst (with_q R pre 0 0) response_question_qname_label i (i + int (length (c # l)))) c =
        Inr (dst (with_q R (pre @ [c]) 0 0) response_question_qname_label (i + 1) (i + 1 + int (length l)))"
      by (simp add: doh_feed_defs r_question_qname_label_def qname_push_value)
    then show ?thesis using Cons.IH [of "pre @ [c]" "i + 1"] 3 Cons.prems(3)
      by (simp add: algebra_simps)
  qed
qed

text \<open>The twelve bytes of the header of a message.\<close>

definition header_bytes :: "message \<Rightarrow> bytes" where
  "header_bytes m =
     be16 (ms_id m) @ [ms_flags_high m, ms_flags_low m] @ be16 (ms_qdcount m) @
     be16 (word_of_nat (length (ms_records m))) @ be16 (ms_nscount m) @ be16 (ms_arcount m)"

lemma run_long_name:
  assumes "message_ok m" "env_calloc env (length (ms_records m))" "\<forall>x\<in>set ls. label_ok x" "label_ok l"
    "length (dotted ls) \<le> 255" "255 < length (dotted (ls @ [l]))"
  shows "run (doh_response_parser_feed env) (doh_response_parser_init p)
    (header_bytes m @ labels_wire ls @ label_wire l @ rest) = Inl OutOfBounds"
proof -
  define R where "R = zero_doh_response\<lparr>dr_header := header_value m,
      dr_answers := Some (replicate (length (ms_records m)) zero_answer)\<rparr>"
  have R: "R = with_q R [] 0 0"
    by (simp add: R_def with_q_def zero_doh_response_def pad_def)
  have h: "run (doh_response_parser_feed env) (doh_response_parser_init p) (header_bytes m) =
      Inr (dst (with_q R [] 0 0) response_question_qname_label_length 1 2)"
    using run_header [OF assms(1,2)] R by (simp add: header_bytes_def R_def)
  obtain i n where q: "run (doh_response_parser_feed env)
      (dst (with_q R [] 0 0) response_question_qname_label_length 1 2) (labels_wire ls) =
      Inr (dst (with_q R (dotted ls) 0 0) response_question_qname_label_length i n)"
    using run_qlabels [of ls "[]" env R 1 2] assms(3,5) by auto
  have l: "l \<noteq> []" "255 < length (dotted ls @ l @ [DOT])"
    using assms(4,6) by (auto simp: label_ok_def dotted_def)
  have "run (doh_response_parser_feed env)
      (dst (with_q R (dotted ls) 0 0) response_question_qname_label_length i n) (label_wire l) = Inl OutOfBounds"
    using run_qlabel_long [OF l(1) assms(5) l(2), of env R 0] label_length_nonzero [OF assms(4)]
      uint_label_length [OF assms(4)]
    by (simp add: label_wire_def doh_feed_defs r_question_qname_label_length_def)
  then have "run (doh_response_parser_feed env)
      (dst (with_q R (dotted ls) 0 0) response_question_qname_label_length i n) (label_wire l @ rest) = Inl OutOfBounds"
    by (simp add: run_append)
  then show ?thesis using run_then [OF h run_then [OF q]] by simp
qed

text \<open>
  The arrays for names are too small for what the protocol allows, and nothing checks it: the
  header of any well-formed message, followed by labels of which the last no longer fits in 255
  bytes with the dots the parser adds, makes the parser write out of bounds, whatever follows.
\<close>

theorem doh_long_name_faults:
  assumes "message_ok m" "env_calloc env (length (ms_records m))" "\<forall>x\<in>set ls. label_ok x" "label_ok l"
    "length (dotted ls) \<le> 255" "255 < length (dotted (ls @ [l]))"
  shows "run (doh_response_parser_feed env) (doh_response_parser_init p)
    (header_bytes m @ labels_wire ls @ label_wire l @ rest) = Inl OutOfBounds"
  by (rule run_long_name [OF assms])

definition long_labels :: "bytes list" where
  "long_labels = replicate 4 (replicate 62 97)"

lemma sample_message_ok: "message_ok sample_message" "env_calloc sample_env (length (ms_records sample_message))"
  by (simp_all add: message_ok_def sample_message_def name_ok_def label_ok_def dotted_def record_ok_def
      is_pointer_def sample_env_def)

lemma long_labels_ok:
  "\<forall>x\<in>set long_labels. label_ok x" "label_ok [97, 97, 97]" "length (dotted long_labels) \<le> 255"
  "255 < length (dotted (long_labels @ [[97, 97, 97]]))"
  by (simp_all add: long_labels_def label_ok_def dotted_def eval_nat_numeral)

theorem doh_long_name_faults_witness:
  "run (doh_response_parser_feed sample_env) (doh_response_parser_init blank_doh_parser)
    (header_bytes sample_message @ labels_wire long_labels @ label_wire [97, 97, 97] @ []) = Inl OutOfBounds"
  by (rule doh_long_name_faults [OF sample_message_ok long_labels_ok])

lemma sample_env_ok: "doh_env_ok sample_env"
  by (auto simp: doh_env_ok_def sample_env_def dotted_pton4_def Let_def split: if_splits)

theorem doh_faults_only_in_names_witness:
  "\<exists>xs c ys q. header_bytes sample_message @ labels_wire long_labels @ label_wire [97, 97, 97] @ [] = xs @ c # ys \<and>
    run (doh_response_parser_feed sample_env) (doh_response_parser_init blank_doh_parser) xs = Inr q \<and>
    name_overflow q"
  by (rule doh_faults_only_in_names [OF sample_env_ok run_long_name [OF sample_message_ok long_labels_ok]])

end
