(* ===== verification/Doh_Query.thy ===== *)
theory Doh_Query
  imports Doh_Parser
begin

text \<open>
  The DNS-over-HTTPS request of \<^verbatim>\<open>build_doh_request\<close> in \<^verbatim>\<open>utils/doh/doh_utils.c\<close>: the HTTP head, a DNS
  header, the domain name as labels, type and class. \<open>doh_utils\<close> keeps the two texts of the static
  structure that the request uses. The array \<^verbatim>\<open>query\<close> is not initialised by the code: what it holds
  before is the argument \<open>stack\<close>.
\<close>

section \<open>The request\<close>

text \<open>The bytes of a text of the source.\<close>

definition ascii :: "string \<Rightarrow> bytes" where
  "ascii s = map of_char s"

record doh_utils =
  du_path :: bytes
  du_host :: bytes

definition MAX_QUERY_LENGTH :: nat where "MAX_QUERY_LENGTH = 300"

definition dns_header :: bytes where
  "dns_header = [0, 0, 1, 0, 0, 1, 0, 0, 0, 0, 0, 0]"

text \<open>
  The loop over the domain: \<open>i\<close> and \<open>j\<close> are the indices into the domain and the query, \<open>label\<close> is the
  index of the length byte of the label being copied, \<open>count\<close> its 8-bit counter. The list is what is
  left of the array \<^verbatim>\<open>domain\<close>; running off its end is out of bounds.
\<close>

fun label_loop ::
  "bytes \<Rightarrow> int \<Rightarrow> bytes \<Rightarrow> int \<Rightarrow> u8 \<Rightarrow> int \<Rightarrow> fault + (bytes \<times> int \<times> u8 \<times> int \<times> int)" where
  "label_loop [] i query label count j = Inl OutOfBounds"
| "label_loop (c # cs) i query label count j =
     (if c = 0 then Inr (query, label, count, i, j)
      else if c \<noteq> DOT
      then bindR (arr_set query j c) (\<lambda>query. label_loop cs (i + 1) query label (count + 1) (j + 1))
      else bindR (arr_set query label count) (\<lambda>query. label_loop cs (i + 1) query j 0 (j + 1)))"

definition build_query :: "bytes \<Rightarrow> bytes \<Rightarrow> fault + (bytes \<times> int)" where
  "build_query stack name =
     bindR (label_loop name 0 stack 0 0 1) (\<lambda>(query, label, count, i, j).
     bindR (arr_get name (i - 1)) (\<lambda>c.
     bindR (if c \<noteq> DOT then bindR (arr_set query j 0) (\<lambda>query. Inr (query, j + 1)) else Inr (query, j))
       (\<lambda>(query, j).
     bindR (arr_set query label count) (\<lambda>query.
     bindR (arr_set query j 0) (\<lambda>query. Inr (query, j))))))"

definition http_head :: "doh_utils \<Rightarrow> u8 \<Rightarrow> bytes" where
  "http_head u content_length =
     ascii ''POST '' @ du_path u @ ascii '' HTTP/1.0'' @ [CR, LF] @
     ascii ''Host: '' @ du_host u @ [CR, LF] @
     ascii ''accept: application/dns-message'' @ [CR, LF] @
     ascii ''content-type: application/dns-message'' @ [CR, LF] @
     ascii ''content-length: '' @ dec_text (unat content_length) @ [CR, LF, CR, LF]"

definition build_doh_request ::
  "doh_utils \<Rightarrow> bytes \<Rightarrow> bytes \<Rightarrow> bytes \<Rightarrow> u8 \<Rightarrow> fault + (bytes \<times> nat)" where
  "build_doh_request u stack out name query_type =
     bindR (build_query stack name) (\<lambda>(query, j).
     let qtype = [0, query_type]; qclass = [0, 1];
         content_length = word_of_nat (length dns_header + nat j + 4) :: u8;
         head = http_head u content_length; size = length head
     in bindR (store out 0 (head @ [0])) (\<lambda>out.
        bindR (store out size dns_header) (\<lambda>out.
        let size = size + length dns_header
        in bindR (store out size (take (nat j) query)) (\<lambda>out.
        let size = size + nat j
        in bindR (store out size qtype) (\<lambda>out.
        let size = size + length qtype
        in bindR (store out size qclass) (\<lambda>out.
        Inr (out, size + length qclass)))))))"

section \<open>The labels\<close>

definition domain_label :: "bytes \<Rightarrow> bool" where
  "domain_label l \<longleftrightarrow> 0 \<notin> set l \<and> DOT \<notin> set l \<and> length l < 256"

text \<open>
  While a label is copied, the query is \<open>P\<close> (the finished labels), a length byte that is still to
  be written, \<open>B\<close> (the label so far), and the rest of the array.
\<close>

lemma loop_label:
  "0 \<notin> set l \<Longrightarrow> DOT \<notin> set l \<Longrightarrow> length l \<le> length T \<Longrightarrow>
   label_loop (l @ rest) i (P @ [x] @ B @ T) (int (length P)) (word_of_nat (length B))
     (int (length P + 1 + length B)) =
   label_loop rest (i + int (length l)) (P @ [x] @ (B @ l) @ drop (length l) T) (int (length P))
     (word_of_nat (length (B @ l))) (int (length P + 1 + length (B @ l)))"
proof (induction l arbitrary: B T i)
  case Nil
  then show ?case by simp
next
  case (Cons c l)
  obtain t T' where T: "T = t # T'" using Cons.prems(3) by (cases T) auto
  have "label_loop ((c # l) @ rest) i (P @ [x] @ B @ T) (int (length P)) (word_of_nat (length B))
      (int (length P + 1 + length B)) =
      label_loop (l @ rest) (i + 1) (P @ [x] @ (B @ [c]) @ T') (int (length P))
      (word_of_nat (length (B @ [c]))) (int (length P + 1 + length (B @ [c])))"
    using Cons.prems by (simp add: T nat_add_distrib list_update_append add.commute) 
  also have "\<dots> = label_loop rest (i + 1 + int (length l)) (P @ [x] @ ((B @ [c]) @ l) @ drop (length l) T')
      (int (length P)) (word_of_nat (length ((B @ [c]) @ l))) (int (length P + 1 + length ((B @ [c]) @ l)))"
    using Cons.prems by (intro Cons.IH) (auto simp: T)
  finally show ?case by (simp add: T algebra_simps)
qed

lemma dot_nonzero: "DOT \<noteq> 0"
  by simp

lemma loop_dot:
  "label_loop (DOT # rest) i (P @ [x] @ B @ [y] @ T) (int (length P)) n (int (length P + 1 + length B)) =
   label_loop rest (i + 1) ((P @ n # B) @ [y] @ [] @ T) (int (length (P @ n # B))) 0
     (int (length (P @ n # B) + 1 + length []))"
  unfolding label_loop.simps using dot_nonzero
  by (simp add: list_update_append add.commute add.left_commute del: label_loop.simps)

lemma dotted_Cons: "dotted (l # ls) = l @ DOT # dotted ls"
  by (simp add: dotted_def)

lemma labels_wire_Cons: "labels_wire (l # ls) = label_wire l @ labels_wire ls"
  by (simp add: labels_wire_def)

lemma loop_labels:
  "\<forall>l\<in>set ls. domain_label l \<Longrightarrow> length (dotted ls) \<le> length T \<Longrightarrow>
   \<exists>x'. label_loop (dotted ls @ rest) i (P @ x # T) (int (length P)) 0 (1 + int (length P)) =
     label_loop rest (i + int (length (dotted ls)))
       (P @ labels_wire ls @ x' # drop (length (dotted ls)) T) (int (length P + length (labels_wire ls))) 0
       (1 + int (length P + length (labels_wire ls)))"
proof (induction ls arbitrary: P x T i)
  case Nil
  then show ?case by (auto simp: dotted_def labels_wire_def)
next
  case (Cons l ls)
  have l: "0 \<notin> set l" "DOT \<notin> set l" "length l < 256" using Cons.prems(1) by (auto simp: domain_label_def)
  have len: "length l + 1 + length (dotted ls) \<le> length T" using Cons.prems(2) by (simp add: dotted_Cons)
  then obtain y T' where T: "drop (length l) T = y # T'" "length (dotted ls) \<le> length T'"
    by (cases "drop (length l) T") (auto dest: arg_cong [where f = length])
  have dr: "drop (length (dotted (l # ls))) T = drop (length (dotted ls)) T'"
  proof -
    have "drop (length (dotted (l # ls))) T = drop (Suc (length (dotted ls))) (drop (length l) T)"
      by (simp add: dotted_Cons add.commute)
    then show ?thesis using T(1) by simp
  qed
  have "label_loop (l @ DOT # dotted ls @ rest) i (P @ x # T) (int (length P)) 0 (1 + int (length P)) =
      label_loop (DOT # dotted ls @ rest) (i + int (length l)) (P @ [x] @ l @ [y] @ T') (int (length P))
      (word_of_nat (length l)) (int (length P + 1 + length l))"
    using loop_label [OF l(1,2), of T "DOT # dotted ls @ rest" i P x "[]"] len T(1) by simp
  also have "\<dots> = label_loop (dotted ls @ rest) (i + int (length l) + 1)
      ((P @ label_wire l) @ y # T') (int (length (P @ label_wire l))) 0 (1 + int (length (P @ label_wire l)))"
    using loop_dot [of "dotted ls @ rest" "i + int (length l)" P x l y T' "word_of_nat (length l)"]
    by (simp add: label_wire_def add.commute del: label_loop.simps)
  finally have step: "label_loop (dotted (l # ls) @ rest) i (P @ x # T) (int (length P)) 0 (1 + int (length P)) =
      label_loop (dotted ls @ rest) (i + int (length l) + 1)
      ((P @ label_wire l) @ y # T') (int (length (P @ label_wire l))) 0 (1 + int (length (P @ label_wire l)))"
    by (simp add: dotted_Cons)
  have "\<forall>l\<in>set ls. domain_label l" using Cons.prems(1) by simp
  then obtain x' where "label_loop (dotted ls @ rest) (i + int (length l) + 1)
      ((P @ label_wire l) @ y # T') (int (length (P @ label_wire l))) 0 (1 + int (length (P @ label_wire l))) =
      label_loop rest (i + int (length l) + 1 + int (length (dotted ls)))
       ((P @ label_wire l) @ labels_wire ls @ x' # drop (length (dotted ls)) T')
       (int (length (P @ label_wire l) + length (labels_wire ls))) 0
       (1 + int (length (P @ label_wire l) + length (labels_wire ls)))"
    using Cons.IH [OF _ T(2), of "i + int (length l) + 1" "P @ label_wire l" y] by blast
  moreover have "i + int (length l) + 1 + int (length (dotted ls)) = i + int (length (dotted (l # ls)))"
    by (simp add: dotted_Cons)
  moreover have "length (P @ label_wire l) + length (labels_wire ls) = length P + length (labels_wire (l # ls))"
    by (simp add: labels_wire_Cons)
  moreover have "(P @ label_wire l) @ labels_wire ls @ x' # drop (length (dotted ls)) T' =
      P @ labels_wire (l # ls) @ x' # drop (length (dotted (l # ls))) T"
    by (simp add: labels_wire_Cons dr)
  ultimately show ?case using step by (intro exI [of _ x']) (simp only:)
qed

text \<open>The whole query: the labels, and the empty label at the end.\<close>

definition query_labels :: "bytes list \<Rightarrow> bytes \<Rightarrow> bytes list" where
  "query_labels ls l = (if l = [] then ls else ls @ [l])"

lemma build_query_value:
  assumes "\<forall>l\<in>set ls. domain_label l" "domain_label l" "ls \<noteq> [] \<or> l \<noteq> []"
    "length (dotted ls @ l) + 2 < MAX_QUERY_LENGTH" "length stack = MAX_QUERY_LENGTH"
  shows "\<exists>q. build_query stack (dotted ls @ l @ 0 # junk) = Inr (q, int (length (labels_wire (query_labels ls l)) + 1)) \<and>
    take (length (labels_wire (query_labels ls l)) + 1) q = labels_wire (query_labels ls l) @ [0] \<and>
    length q = MAX_QUERY_LENGTH"
proof -
  obtain x T where st: "stack = x # T" "length T = 299"
    using assms(5) by (cases stack) (auto simp: MAX_QUERY_LENGTH_def)
  have d: "length (dotted ls) \<le> length T" using assms(4) st(2) by (simp add: MAX_QUERY_LENGTH_def)
  obtain T' where T': "T' = drop (length (dotted ls)) T" by simp
  obtain x' where "label_loop (dotted ls @ l @ 0 # junk) 0 stack 0 0 1 =
      label_loop (l @ 0 # junk) (int (length (dotted ls)))
       (labels_wire ls @ x' # T') (int (length (labels_wire ls))) 0
       (1 + int (length (labels_wire ls)))"
    using loop_labels [OF assms(1) d, of "l @ 0 # junk" 0 "[]" x] st(1) T' by auto
  moreover have "label_loop (l @ 0 # junk) (int (length (dotted ls))) (labels_wire ls @ x' # T')
      (int (length (labels_wire ls))) 0 (1 + int (length (labels_wire ls))) =
      label_loop (0 # junk) (int (length (dotted ls)) + int (length l))
       (labels_wire ls @ [x'] @ l @ drop (length l) T') (int (length (labels_wire ls)))
       (word_of_nat (length l)) (int (length (labels_wire ls) + 1 + length l))"
    using loop_label [of l T' "0 # junk" "int (length (dotted ls))" "labels_wire ls" x' "[]"]
      assms(2,4) st(2) T' by (simp add: domain_label_def MAX_QUERY_LENGTH_def)
  ultimately have loop: "label_loop (dotted ls @ l @ 0 # junk) 0 stack 0 0 1 =
      Inr (labels_wire ls @ [x'] @ l @ drop (length l) T', int (length (labels_wire ls)),
        word_of_nat (length l), int (length (dotted ls)) + int (length l),
        int (length (labels_wire ls) + 1 + length l))"
    by simp
  have lw: "length (labels_wire ls) = length (dotted ls)"
    by (induction ls) (auto simp: labels_wire_def dotted_def label_wire_def)
  obtain y z U where U: "drop (length l) T' = y # z # U"
    "length (labels_wire ls @ [x'] @ l @ y # z # U) = MAX_QUERY_LENGTH"
  proof -
    have "2 \<le> length (drop (length l) T')"
      "length (labels_wire ls @ [x'] @ l @ drop (length l) T') = MAX_QUERY_LENGTH"
      using assms(4) st(2) T' lw by (auto simp: MAX_QUERY_LENGTH_def)
    then show ?thesis using that by (cases "drop (length l) T'"; cases "tl (drop (length l) T')") auto
  qed
  have ne: "0 < length (dotted ls @ l)" using assms(3) by (cases ls) (auto simp: dotted_Cons)
  have idx: "int (length (dotted ls)) + int (length l) - 1 = int (length (dotted ls @ l) - 1)"
  proof -
    have "int (k - 1) = int k - 1" if "0 < k" for k using that by linarith
    from this [OF ne] show ?thesis by simp
  qed
  have get: "arr_get (dotted ls @ l @ 0 # junk) (int (length (dotted ls)) + int (length l) - 1) = Inr (last (dotted ls @ l))"
    unfolding idx using ne last_conv_nth [of "dotted ls @ l"] nth_append_left [of "length (dotted ls @ l) - 1" "dotted ls @ l" "0 # junk"]
    by (simp only: append_assoc [symmetric]) (simp add: arr_get_def)
  show ?thesis
  proof (cases "l = []")
    case True
    have "last (dotted ls @ l) = DOT" using assms(3) True
      by (cases ls rule: rev_cases) (simp_all add: dotted_def)
    then show ?thesis unfolding build_query_def loop U(1) using True U(2) get
      by (simp add: nat_add_distrib list_update_append query_labels_def)
  next
    case False
    then have "last (dotted ls @ l) \<noteq> DOT" using assms(2) last_in_set [OF False]
      unfolding domain_label_def by (metis False last_appendR)
    then show ?thesis unfolding build_query_def loop U(1) using False U(2) get
      by (simp add: nat_add_distrib list_update_append query_labels_def labels_wire_def label_wire_def)
  qed
qed


section \<open>The whole request\<close>

text \<open>The question about a name, as a message in the encoding the response parser reads.\<close>

definition query_message :: "bytes list \<Rightarrow> u8 \<Rightarrow> message" where
  "query_message ls t =
     \<lparr>ms_id = 0, ms_flags_high = 1, ms_flags_low = 0, ms_qdcount = 1, ms_nscount = 0, ms_arcount = 0,
      ms_qname = ls, ms_qtype = ucast t, ms_qclass = 1, ms_records = []\<rparr>"

definition doh_body :: "bytes list \<Rightarrow> bytes \<Rightarrow> u8 \<Rightarrow> bytes" where
  "doh_body ls l t = message_bytes (query_message (query_labels ls l) t)"

definition doh_request_text :: "doh_utils \<Rightarrow> bytes list \<Rightarrow> bytes \<Rightarrow> u8 \<Rightarrow> bytes" where
  "doh_request_text u ls l t = http_head u (word_of_nat (length (doh_body ls l t))) @ doh_body ls l t"

lemma be16_ucast: "be16 (ucast (t :: u8)) = [0, t]"
proof -
  have "(ucast (drop_bit 8 (ucast t :: u16)) :: u8) = 0"
    by (rule bit_word_eqI) (auto simp: bit_simps dest: bit_imp_le_length)
  moreover have "(ucast (ucast t :: u16) :: u8) = t"
    by (rule bit_word_eqI) (auto simp: bit_simps)
  ultimately show ?thesis by (simp add: be16_def)
qed

lemma doh_body_value:
  "doh_body ls l t = dns_header @ (labels_wire (query_labels ls l) @ [0]) @ [0, t] @ [0, 1]"
proof -
  have "be16 1 = [0, 1]" "be16 0 = [0, 0]" by (simp_all add: be16_def)
  then show ?thesis
    by (simp add: doh_body_def query_message_def message_bytes_def dns_header_def be16_ucast)
qed

lemma store_next:
  assumes "length xs + length ys \<le> length d"
  shows "store (overwrite d 0 xs) (length xs) ys = Inr (overwrite d 0 (xs @ ys))"
  using assms by (simp add: store_def overwrite_def add.commute)

lemma store_over_nul:
  assumes "length xs + length (y # ys) \<le> length d"
  shows "store (overwrite d 0 (xs @ [0])) (length xs) (y # ys) = Inr (overwrite d 0 (xs @ y # ys))"
  using assms by (auto simp: store_def overwrite_def add.commute)

lemma build_doh_request_value:
  assumes "\<forall>l\<in>set ls. domain_label l" "domain_label l" "ls \<noteq> [] \<or> l \<noteq> []"
    "length (dotted ls @ l) + 2 < MAX_QUERY_LENGTH" "length stack = MAX_QUERY_LENGTH"
    "length (doh_request_text u ls l t) \<le> length out"
  shows "build_doh_request u stack out (dotted ls @ l @ 0 # junk) t =
     Inr (overwrite out 0 (doh_request_text u ls l t), length (doh_request_text u ls l t))"
proof -
  obtain w where w: "w = labels_wire (query_labels ls l) @ [0]" by simp
  obtain q where q: "build_query stack (dotted ls @ l @ 0 # junk) = Inr (q, int (length w))"
      "take (length w) q = w"
    using build_query_value [OF assms(1-5)] by (auto simp: w)
  obtain h where h: "h = http_head u (word_of_nat (length (doh_body ls l t)))" by simp
  have cl: "word_of_nat (length dns_header + length w + 4) = (word_of_nat (length (doh_body ls l t)) :: u8)"
    by (simp add: doh_body_value w)
  have len: "length h + length dns_header + length w + 4 \<le> length out"
    using assms(6) by (simp add: doh_request_text_def doh_body_value w h)
  have dns: "dns_header = 0 # tl dns_header" by (simp add: dns_header_def)
  have s0: "store out 0 (h @ [0]) = Inr (overwrite out 0 (h @ [0]))"
    using len dns by (simp add: store_def dns_header_def)
  have s1: "store (overwrite out 0 (h @ [0])) (length h) dns_header = Inr (overwrite out 0 (h @ dns_header))"
    using store_over_nul [of h 0 "tl dns_header" out] len dns by simp
  have s2: "store (overwrite out 0 (h @ dns_header)) (length h + length dns_header) w =
      Inr (overwrite out 0 ((h @ dns_header) @ w))"
    using store_next [of "h @ dns_header" w out] len by (simp add: add.assoc)
  have s3: "store (overwrite out 0 ((h @ dns_header) @ w)) (length h + length dns_header + length w) [0, t] =
      Inr (overwrite out 0 (((h @ dns_header) @ w) @ [0, t]))"
    using store_next [of "(h @ dns_header) @ w" "[0, t]" out] len by (simp add: add.assoc)
  have s4: "store (overwrite out 0 (((h @ dns_header) @ w) @ [0, t])) (length h + length dns_header + length w + length [0, t]) [0, 1] =
      Inr (overwrite out 0 ((((h @ dns_header) @ w) @ [0, t]) @ [0, 1]))"
    using store_next [of "((h @ dns_header) @ w) @ [0, t]" "[0, 1]" out] len by (simp add: add.assoc)
  have "doh_request_text u ls l t = (((h @ dns_header) @ w) @ [0, t]) @ [0, 1]"
    by (simp add: doh_request_text_def doh_body_value w h)
  then show ?thesis
    by (simp only: build_doh_request_def q(1) bindR.simps prod.case Let_def cl nat_int q(2) h [symmetric] s0 s1 s2 s3 s4)
      (simp add: add.assoc)
qed

section \<open>Properties\<close>

text \<open>
  The request for a domain made of the labels \<open>ls\<close> and, unless the domain ends in a dot, a
  last label \<open>l\<close>, is written to the start of the write area and nowhere else: the HTTP head, then the
  DNS message that asks for exactly these labels, in the encoding the response parser reads, with
  the query type and class IN. The length returned is the length of what was written. The labels
  have no NUL and no dot; the request fits in the area; what the stack array held does not matter.
\<close>

theorem doh_request_encodes_domain:
  assumes "\<forall>l\<in>set ls. domain_label l" "domain_label l" "ls \<noteq> [] \<or> l \<noteq> []"
    "length (dotted ls @ l) + 2 < MAX_QUERY_LENGTH" "length stack = MAX_QUERY_LENGTH"
    "length (doh_request_text u ls l t) \<le> length out"
  shows "build_doh_request u stack out (dotted ls @ l @ 0 # junk) t =
     Inr (overwrite out 0 (http_head u (word_of_nat (length (doh_body ls l t))) @
            message_bytes (query_message (query_labels ls l) t)),
          length (doh_request_text u ls l t))"
  using build_doh_request_value [OF assms] by (simp add: doh_request_text_def doh_body_def)

definition sample_doh :: doh_utils where
  "sample_doh = \<lparr>du_path = ascii ''/dns-query'', du_host = ascii ''localhost''\<rparr>"

lemma length_http_head:
  "length (http_head u n) = 116 + length (du_path u) + length (du_host u) + length (dec_text (unat n))"
  by (simp add: http_head_def ascii_def)

lemma sample_text_fits: "length (doh_body ls l t) \<le> 300 \<Longrightarrow> length (doh_request_text sample_doh ls l t) \<le> 8192"
  using length_dec_text [of "unat (word_of_nat (length (doh_body ls l t)) :: u8)"] unat_u8
  by (simp add: doh_request_text_def length_http_head sample_doh_def ascii_def)

theorem doh_request_encodes_domain_witness:
  "build_doh_request sample_doh (replicate 300 0) (replicate 8192 0) (dotted [[97]] @ [98, 99] @ 0 # []) 1 =
     Inr (overwrite (replicate 8192 0) 0 (http_head sample_doh (word_of_nat (length (doh_body [[97]] [98, 99] 1))) @
            message_bytes (query_message (query_labels [[97]] [98, 99]) 1)),
          length (doh_request_text sample_doh [[97]] [98, 99] 1))"
proof (rule doh_request_encodes_domain)
  show "length (doh_request_text sample_doh [[97]] [98, 99] 1) \<le> length (replicate 8192 0)"
    using sample_text_fits [of "[[97]]" "[98, 99]" 1]
    by (simp add: doh_body_value query_labels_def labels_wire_def label_wire_def dns_header_def)
qed (simp_all add: domain_label_def dotted_def MAX_QUERY_LENGTH_def)

text \<open>
  The content length is computed in eight bits. Whenever the DNS message is 256 bytes or
  longer, which a domain the request line parser accepts can make it, the number in the head of the
  request is smaller than the number of bytes that follow the head.
\<close>

theorem doh_content_length_wraps:
  assumes "\<forall>l\<in>set ls. domain_label l" "domain_label l" "ls \<noteq> [] \<or> l \<noteq> []"
    "length (dotted ls @ l) + 2 < MAX_QUERY_LENGTH" "length stack = MAX_QUERY_LENGTH"
    "length (doh_request_text u ls l t) \<le> length out" "256 \<le> length (doh_body ls l t)"
  shows "\<exists>n body. build_doh_request u stack out (dotted ls @ l @ 0 # junk) t =
       Inr (overwrite out 0 (http_head u n @ body), length (http_head u n @ body)) \<and>
     unat n < length body"
proof -
  let ?n = "word_of_nat (length (doh_body ls l t)) :: u8"
  have "unat ?n < length (doh_body ls l t)" using unat_u8 [of ?n] assms(7) by linarith
  then show ?thesis using build_doh_request_value [OF assms(1-6)]
    by (intro exI [of _ ?n] exI [of _ "doh_body ls l t"]) (simp add: doh_request_text_def)
qed

theorem doh_content_length_wraps_witness:
  "\<exists>n body. build_doh_request sample_doh (replicate 300 0) (replicate 8192 0)
       (dotted (replicate 4 (replicate 60 97)) @ [99, 111, 109] @ 0 # []) 1 =
       Inr (overwrite (replicate 8192 0) 0 (http_head sample_doh n @ body), length (http_head sample_doh n @ body)) \<and>
     unat n < length body"
proof (rule doh_content_length_wraps)
  have b: "length (doh_body (replicate 4 (replicate 60 97)) [99, 111, 109] 1) = 265"
    by (simp add: doh_body_value query_labels_def labels_wire_def label_wire_def dns_header_def eval_nat_numeral)
  show "length (doh_request_text sample_doh (replicate 4 (replicate 60 97)) [99, 111, 109] 1) \<le> length (replicate 8192 0)"
    using sample_text_fits [of "replicate 4 (replicate 60 97)" "[99, 111, 109]" 1] b by simp
  show "length (dotted (replicate 4 (replicate 60 97)) @ [99, 111, 109]) + 2 < MAX_QUERY_LENGTH"
    by (simp add: dotted_def MAX_QUERY_LENGTH_def eval_nat_numeral)
  show "256 \<le> length (doh_body (replicate 4 (replicate 60 97)) [99, 111, 109] 1)" using b by simp
qed (simp_all add: domain_label_def dotted_def MAX_QUERY_LENGTH_def)

text \<open>
  For the empty domain the loop ends at once and the test for a final dot reads the byte
  before the array.
\<close>

theorem doh_empty_domain_faults: "build_doh_request u stack out (0 # junk) t = Inl OutOfBounds"
  by (simp add: build_doh_request_def build_query_def arr_get_def)

end
