(* ===== verification/Base64.thy ===== *)
theory Base64
  imports Prelude
begin

text \<open>
  \<^verbatim>\<open>utils/base64/base64.c\<close>. The result is \<open>None\<close> where the code returns NULL; \<open>malloc\<close> says
  whether an allocation of that many bytes succeeds. The output is the list of bytes written so far;
  a write past the allocated block is the fault \<open>OutOfBounds\<close>. A \<^verbatim>\<open>size_t\<close> has 64 bits.
\<close>

section \<open>Encoding\<close>

definition base64_table :: bytes where
  "base64_table =
     [65, 66, 67, 68, 69, 70, 71, 72, 73, 74, 75, 76, 77, 78, 79, 80, 81, 82, 83, 84, 85, 86, 87, 88,
      89, 90, 97, 98, 99, 100, 101, 102, 103, 104, 105, 106, 107, 108, 109, 110, 111, 112, 113, 114,
      115, 116, 117, 118, 119, 120, 121, 122, 48, 49, 50, 51, 52, 53, 54, 55, 56, 57, 43, 47, 0]"

definition b64 :: "u8 \<Rightarrow> u8" where
  "b64 v = base64_table ! unat v"

text \<open>The main loop from \<open>line_len\<close> on: what it writes, the input it leaves, the final \<open>line_len\<close>.\<close>

fun encode_loop :: "bytes \<Rightarrow> nat \<Rightarrow> bytes \<times> bytes \<times> nat" where
  "encode_loop (a # b # c # rest) line_len =
     (let quad = [b64 (drop_bit 2 a),
                  b64 (push_bit 4 (a AND 3) OR drop_bit 4 b),
                  b64 (push_bit 2 (b AND 15) OR drop_bit 6 c),
                  b64 (c AND 63)];
          n = line_len + 4;
          (out, left, m) = encode_loop rest (if n \<ge> 72 then 0 else n)
      in ((if n \<ge> 72 then quad @ [LF] else quad) @ out, left, m))"
| "encode_loop rest line_len = ([], rest, line_len)"

text \<open>The last one or two bytes.\<close>

definition encode_tail :: "bytes \<Rightarrow> bytes" where
  "encode_tail left =
     (case left of
        [] \<Rightarrow> []
      | [a] \<Rightarrow> [b64 (drop_bit 2 a), b64 (push_bit 4 (a AND 3)), EQSIGN, EQSIGN]
      | a # b # _ \<Rightarrow>
          [b64 (drop_bit 2 a), b64 (push_bit 4 (a AND 3) OR drop_bit 4 b), b64 (push_bit 2 (b AND 15)),
           EQSIGN])"

definition encoded_size :: "nat \<Rightarrow> u64" where
  "encoded_size len =
     (let olen = word_of_nat len * 4 div 3 + 4; olen = olen + olen div 72 in olen + 1)"

definition base64_encode :: "(nat \<Rightarrow> bool) \<Rightarrow> bytes \<Rightarrow> fault + bytes option" where
  "base64_encode malloc src =
     (let olen = encoded_size (length src)
      in if olen < word_of_nat (length src) \<or> \<not> malloc (unat olen) then Inr None
         else let (out, left, line_len) = encode_loop src 0;
                  out = out @ encode_tail left;
                  line_len = (if left = [] then line_len else line_len + 4);
                  out = (if line_len \<noteq> 0 then out @ [LF] else out)
              in if length out + 1 \<le> unat olen then Inr (Some out) else Inl OutOfBounds)"

section \<open>Decoding\<close>

definition dtable :: bytes where
  "dtable =
     (fold (\<lambda>i d. d[unat (base64_table ! i) := word_of_nat i]) [0..<64] (replicate 256 128))[61 := 0]"

definition dval :: "u8 \<Rightarrow> u8" where
  "dval c = dtable ! unat c"

text \<open>\<open>block\<close> is the part of the block of four that has been filled.\<close>

fun decode_loop :: "nat \<Rightarrow> bytes \<Rightarrow> bytes \<Rightarrow> nat \<Rightarrow> bytes \<Rightarrow> fault + bytes option" where
  "decode_loop olen [] block pads out = Inr (Some out)"
| "decode_loop olen (c # cs) block pads out =
     (let tmp = dval c
      in if tmp = 128 then decode_loop olen cs block pads out
         else let pads = (if c = EQSIGN then pads + 1 else pads); block = block @ [tmp]
              in if length block = 4
                 then if length out + 3 \<le> olen
                      then let out = out @ [push_bit 2 (block ! 0) OR drop_bit 4 (block ! 1),
                                            push_bit 4 (block ! 1) OR drop_bit 2 (block ! 2),
                                            push_bit 6 (block ! 2) OR block ! 3]
                           in if pads = 0 then decode_loop olen cs [] pads out
                              else if pads = 1 then Inr (Some (take (length out - 1) out))
                              else if pads = 2 then Inr (Some (take (length out - 2) out))
                              else Inr None
                      else Inl OutOfBounds
                 else decode_loop olen cs block pads out)"

definition base64_decode :: "(nat \<Rightarrow> bool) \<Rightarrow> bytes \<Rightarrow> fault + bytes option" where
  "base64_decode malloc src =
     (let count = length (filter (\<lambda>c. dval c \<noteq> 128) src); olen = count div 4 * 3
      in if count = 0 \<or> count mod 4 \<noteq> 0 then Inr None
         else if \<not> malloc olen then Inr None
         else decode_loop olen src [] 0 [])"

section \<open>The two tables\<close>

lemma dtable_value: "\<forall>i\<in>set [0..<64]. dtable ! unat (base64_table ! i) = word_of_nat i \<and> base64_table ! i \<noteq> EQSIGN"
  by code_simp

lemma dval_b64: "v < 64 \<Longrightarrow> dval (b64 v) = v \<and> b64 v \<noteq> EQSIGN"
  using dtable_value by (force simp: dval_def b64_def word_less_nat_alt)

lemma dval_special: "dval EQSIGN = 0" "dval LF = 128"
  unfolding dval_def by code_simp+

lemma masks: "(a :: u8) AND 3 = take_bit 2 a" "a AND 15 = take_bit 4 a" "a AND 63 = take_bit 6 a"
  by (simp_all add: take_bit_eq_mask mask_eq_exp_minus_1)

lemma less_64: "(\<And>n. 6 \<le> n \<Longrightarrow> \<not> bit (v :: u8) n) \<Longrightarrow> v < 64"
proof -
  assume "\<And>n. 6 \<le> n \<Longrightarrow> \<not> bit v n"
  then have "v = take_bit 6 v" by (intro bit_word_eqI) (auto simp: bit_simps, metis not_less)
  then have "uint v = take_bit 6 (uint v)" by (metis unsigned_take_bit_eq)
  then have "uint v < 2 ^ 6" by (metis take_bit_int_less_exp)
  then show "v < 64" by (simp add: word_less_alt)
qed

lemma quad_less:
  fixes a b c :: u8
  shows "drop_bit 2 a < 64" "push_bit 4 (a AND 3) OR drop_bit 4 b < 64"
    "push_bit 2 (b AND 15) OR drop_bit 6 c < 64" "c AND 63 < 64" "push_bit 4 (a AND 3) < 64"
    "push_bit 2 (b AND 15) < 64"
  unfolding masks by (rule less_64; auto simp: bit_simps dest: bit_imp_le_length)+

lemma u8_eqI:
  assumes "\<And>n. n \<in> {0, 1, 2, 3, 4, 5, 6, 7} \<Longrightarrow> bit x n = bit y n"
  shows "x = (y :: u8)"
proof (rule bit_word_eqI)
  fix n assume "n < LENGTH(8)"
  then have "n \<in> {0, 1, 2, 3, 4, 5, 6, 7}" by auto
  then show "bit x n = bit y n" by (rule assms)
qed

lemma quad_join:
  fixes a b c :: u8
  shows "push_bit 2 (drop_bit 2 a) OR drop_bit 4 (push_bit 4 (a AND 3) OR drop_bit 4 b) = a"
    "push_bit 4 (push_bit 4 (a AND 3) OR drop_bit 4 b) OR drop_bit 2 (push_bit 2 (b AND 15) OR drop_bit 6 c) = b"
    "push_bit 6 (push_bit 2 (b AND 15) OR drop_bit 6 c) OR (c AND 63) = c"
    "push_bit 2 (drop_bit 2 a) OR drop_bit 4 (push_bit 4 (a AND 3)) = a"
    "push_bit 4 (push_bit 4 (a AND 3) OR drop_bit 4 b) OR drop_bit 2 (push_bit 2 (b AND 15)) = b"
  unfolding masks by (rule u8_eqI; auto simp: bit_simps numeral_2_eq_2 [symmetric])+


section \<open>The decoder on what the encoder writes\<close>

definition valid_count :: "bytes \<Rightarrow> nat" where
  "valid_count cs = length (filter (\<lambda>c. dval c \<noteq> 128) cs)"

lemma valid_count_simps [simp]:
  "valid_count [] = 0" "valid_count (c # cs) = (if dval c = 128 then valid_count cs else Suc (valid_count cs))"
  "valid_count (xs @ ys) = valid_count xs + valid_count ys"
  by (simp_all add: valid_count_def)

lemma not_128: "v < 64 \<Longrightarrow> v \<noteq> (128 :: u8)"
  by auto

lemma decode_quad:
  assumes "v0 < 64" "v1 < 64" "v2 < 64" "v3 < 64" "length out + 3 \<le> olen"
  shows "decode_loop olen (b64 v0 # b64 v1 # b64 v2 # b64 v3 # cs) [] 0 out =
     decode_loop olen cs [] 0 (out @ [push_bit 2 v0 OR drop_bit 4 v1, push_bit 4 v1 OR drop_bit 2 v2,
       push_bit 6 v2 OR v3])"
  using assms dval_b64 not_128 by (simp add: Let_def)

lemma decode_triple:
  assumes "length out + 3 \<le> olen"
  shows "decode_loop olen (b64 (drop_bit 2 a) # b64 (push_bit 4 (a AND 3) OR drop_bit 4 b) #
       b64 (push_bit 2 (b AND 15) OR drop_bit 6 c) # b64 (c AND 63) # cs) [] 0 out =
     decode_loop olen cs [] 0 (out @ [a, b, c])"
  unfolding decode_quad [OF quad_less(1-4) assms] quad_join ..

lemma decode_lf: "decode_loop olen (LF # cs) [] 0 out = decode_loop olen cs [] 0 out"
  by (simp add: dval_special)

lemma decode_pad2:
  assumes "v0 < 64" "v1 < 64" "length out + 3 \<le> olen"
  shows "decode_loop olen (b64 v0 # b64 v1 # EQSIGN # EQSIGN # cs) [] 0 out =
     Inr (Some (out @ [push_bit 2 v0 OR drop_bit 4 v1]))"
  using assms dval_b64 not_128 by (simp add: Let_def dval_special)

lemma decode_pad1:
  assumes "v0 < 64" "v1 < 64" "v2 < 64" "length out + 3 \<le> olen"
  shows "decode_loop olen (b64 v0 # b64 v1 # b64 v2 # EQSIGN # cs) [] 0 out =
     Inr (Some (out @ [push_bit 2 v0 OR drop_bit 4 v1, push_bit 4 v1 OR drop_bit 2 v2]))"
  using assms dval_b64 not_128 by (simp add: Let_def dval_special)

lemma decode_tail:
  assumes "length left < 3" "left \<noteq> [] \<Longrightarrow> length out + 3 \<le> olen" "lf = [] \<or> lf = [LF]"
  shows "decode_loop olen (encode_tail left @ lf) [] 0 out = Inr (Some (out @ left))"
proof -
  consider "left = []" | a where "left = [a]" | a b where "left = [a, b]"
    using assms(1) by (cases left; cases "tl left"; cases "tl (tl left)") auto
  then show ?thesis
  proof cases
    case 1
    then show ?thesis using assms(3) by (auto simp: encode_tail_def dval_special)
  next
    case 2
    then have o: "length out + 3 \<le> olen" using assms(2) by simp
    show ?thesis
      unfolding 2 encode_tail_def list.case append_Cons decode_pad2 [OF quad_less(1,5) o] quad_join(4) ..
  next
    case 3
    then have o: "length out + 3 \<le> olen" using assms(2) by simp
    show ?thesis
      unfolding 3 encode_tail_def list.case append_Cons decode_pad1 [OF quad_less(1,2,6) o] quad_join(1,5) ..
  qed
qed

lemma valid_quad:
  "v0 < 64 \<Longrightarrow> v1 < 64 \<Longrightarrow> v2 < 64 \<Longrightarrow> v3 < 64 \<Longrightarrow> valid_count ([b64 v0, b64 v1, b64 v2, b64 v3] @ xs) = 4 + valid_count xs"
  using dval_b64 not_128 by simp

lemma valid_tail: "length left < 3 \<Longrightarrow> valid_count (encode_tail left) = (if left = [] then 0 else 4)"
  using dval_b64 [OF quad_less(1)] dval_b64 [OF quad_less(2)] dval_b64 [OF quad_less(5)] dval_b64 [OF quad_less(6)]
    not_128 [OF quad_less(1)] not_128 [OF quad_less(2)] not_128 [OF quad_less(5)] not_128 [OF quad_less(6)]
  by (auto simp: encode_tail_def dval_special split: list.splits)

text \<open>
  The main loop has consumed \<open>k\<close> blocks of three bytes and written \<open>4 k\<close> characters and one line
  feed for every 72 of them; the decoder turns them back into the bytes consumed.
\<close>

lemma encode_loop_decodes:
  "encode_loop src ll = (enc, left, n) \<Longrightarrow> ll < 72 \<Longrightarrow> 4 dvd ll \<Longrightarrow>
   \<exists>k eaten. src = eaten @ left \<and> length left < 3 \<and> length eaten = 3 * k \<and> valid_count enc = 4 * k \<and>
     length enc = 4 * k + (ll + 4 * k) div 72 \<and> n = (ll + 4 * k) mod 72 \<and>
     (\<forall>olen out rest. length out + 3 * k \<le> olen \<longrightarrow>
        decode_loop olen (enc @ rest) [] 0 out = decode_loop olen rest [] 0 (out @ eaten))"
proof (induction src ll arbitrary: enc left n rule: encode_loop.induct)
  case (1 a b c rest ll)
  let ?q = "[b64 (drop_bit 2 a), b64 (push_bit 4 (a AND 3) OR drop_bit 4 b),
      b64 (push_bit 2 (b AND 15) OR drop_bit 6 c), b64 (c AND 63)]"
  define ll' where "ll' = (if ll + 4 \<ge> 72 then 0 else ll + 4)"
  define lf where "lf = (if ll + 4 \<ge> 72 then [LF] else [])"
  obtain enc' where e: "encode_loop rest ll' = (enc', left, n)" "enc = ?q @ lf @ enc'"
    using "1.prems"(1) by (auto simp: ll'_def lf_def Let_def split: prod.splits if_splits)
  have l: "ll' < 72" "4 dvd ll'" using "1.prems" by (auto simp: ll'_def)
  obtain k eaten where IH: "rest = eaten @ left" "length left < 3" "length eaten = 3 * k" "valid_count enc' = 4 * k"
      "length enc' = 4 * k + (ll' + 4 * k) div 72" "n = (ll' + 4 * k) mod 72"
      "\<And>olen out rest. length out + 3 * k \<le> olen \<Longrightarrow>
        decode_loop olen (enc' @ rest) [] 0 out = decode_loop olen rest [] 0 (out @ eaten)"
    using "1.IH" [OF refl refl, of enc' left n] e(1) l unfolding ll'_def by blast
  have r: "length enc = 4 * Suc k + (ll + 4 * Suc k) div 72" "n = (ll + 4 * Suc k) mod 72"
  proof -
    consider "ll + 4 < 72" | "ll + 4 = 72"
      using "1.prems"(2,3) by (auto elim!: dvdE) linarith
    then have "length lf + (ll' + 4 * k) div 72 = (ll + 4 * Suc k) div 72 \<and>
        (ll' + 4 * k) mod 72 = (ll + 4 * Suc k) mod 72"
    proof cases
      case 1
      then have "ll' + 4 * k = ll + 4 * Suc k" "lf = []" by (auto simp: ll'_def lf_def)
      then show ?thesis by (simp add: add.assoc)
    next
      case 2
      then have "ll + 4 * Suc k = 72 + 4 * k" "ll' = 0" "length lf = 1" by (auto simp: ll'_def lf_def)
      then show ?thesis by (simp only:) simp
    qed
    then show "length enc = 4 * Suc k + (ll + 4 * Suc k) div 72" "n = (ll + 4 * Suc k) mod 72"
      using IH(5,6) by (simp_all add: e(2))
  qed
  have v: "valid_count enc = 4 * Suc k"
    unfolding e(2) valid_quad [OF quad_less(1-4)] using IH(4) by (simp add: lf_def dval_special)
  have d: "decode_loop olen (enc @ z) [] 0 out = decode_loop olen z [] 0 (out @ a # b # c # eaten)"
    if "length out + 3 * Suc k \<le> olen" for olen out z
  proof -
    have "decode_loop olen (enc @ z) [] 0 out = decode_loop olen (lf @ enc' @ z) [] 0 (out @ [a, b, c])"
      unfolding e(2) using decode_triple [of out olen a b c "lf @ enc' @ z"] that by simp
    also have "\<dots> = decode_loop olen (enc' @ z) [] 0 (out @ [a, b, c])"
      unfolding lf_def using decode_lf by simp
    also have "\<dots> = decode_loop olen z [] 0 ((out @ [a, b, c]) @ eaten)"
      using that by (intro IH(7)) simp
    finally show ?thesis by simp
  qed
  show ?case using IH(1-3) r v d
    by (intro exI [of _ "Suc k"] exI [of _ "a # b # c # eaten"]) auto
qed auto


section \<open>Sizes\<close>

lemma encoded_size_value:
  assumes "n < 2 ^ 60"
  shows "unat (encoded_size n) = n * 4 div 3 + 4 + (n * 4 div 3 + 4) div 72 + 1"
proof -
  obtain w :: u64 where w: "w = word_of_nat n * 4" by simp
  have n4: "unat w = n * 4"
    using assms by (simp add: w unat_word_ariths unat_of_nat)
  obtain x where x: "x = w div 3 + 4" by simp
  have ux: "unat x = n * 4 div 3 + 4"
    using assms by (simp add: x unat_word_ariths unat_div n4)
  have "n * 4 div 3 + 4 + (n * 4 div 3 + 4) div 72 + 1 < 2 ^ 64"
  proof -
    have "n * 4 div 3 \<le> n * 4" "(n * 4 div 3 + 4) div 72 \<le> n * 4 div 3 + 4" by simp_all
    then show ?thesis using assms by simp
  qed
  then have "unat (x + x div 72 + 1) = n * 4 div 3 + 4 + (n * 4 div 3 + 4) div 72 + 1"
    by (simp add: unat_word_ariths unat_div ux)
  then show ?thesis by (simp only: encoded_size_def Let_def w [symmetric] x [symmetric])
qed

text \<open>What is written for \<open>3 k + r\<close> bytes, with its NUL, fits in the block.\<close>

lemma encoded_fits:
  fixes k r :: nat
  assumes "r < 3"
  shows "4 * k + 4 * k div 72 + (if r = 0 then 0 else 4) + 2 \<le>
     (3 * k + r) * 4 div 3 + 4 + ((3 * k + r) * 4 div 3 + 4) div 72 + 1"
proof -
  have "(3 * k + r) * 4 div 3 = 4 * k + r * 4 div 3" by simp
  moreover have "4 * k div 72 \<le> (4 * k + r * 4 div 3 + 4) div 72" by (intro div_le_mono) simp
  moreover have "r = 0 \<or> r = 1 \<or> r = 2" using assms by auto
  ultimately show ?thesis by (elim disjE) (simp_all only:, simp_all)
qed

lemma base64_encode_value:
  assumes "length src < 2 ^ 60" "malloc (unat (encoded_size (length src)))"
    "encode_loop src 0 = (enc, left, n)"
  shows "\<exists>lf. base64_encode malloc src = Inr (Some (enc @ encode_tail left @ lf)) \<and> (lf = [] \<or> lf = [LF])"
proof -
  obtain k eaten where l: "src = eaten @ left" "length left < 3" "length eaten = 3 * k"
      "length enc = 4 * k + 4 * k div 72"
    using encode_loop_decodes [OF assms(3)] by auto
  have len: "length src = 3 * k + length left" using l(1,3) by simp
  have tail: "length (encode_tail left) = (if length left = 0 then 0 else 4)"
    using l(2) by (auto simp: encode_tail_def split: list.splits)
  have "\<not> encoded_size (length src) < word_of_nat (length src)"
    using assms(1) by (simp add: word_less_nat_alt encoded_size_value unat_of_nat)
  moreover have "length enc + length (encode_tail left) + 2 \<le> unat (encoded_size (length src))"
    unfolding encoded_size_value [OF assms(1)] l(4) tail unfolding len by (rule encoded_fits [OF l(2)])
  ultimately show ?thesis using assms(2,3)
    by (cases "left = [] \<and> n = 0") (auto simp: base64_encode_def Let_def)
qed

section \<open>Decoding what was encoded\<close>

lemma decode_encode:
  assumes "src \<noteq> []" "length src < 2 ^ 60" "\<And>n. malloc n"
  shows "\<exists>s. base64_encode malloc src = Inr (Some s) \<and> base64_decode malloc s = Inr (Some src)"
proof -
  obtain enc left n where e: "encode_loop src 0 = (enc, left, n)" by (metis surj_pair)
  obtain k eaten where l: "src = eaten @ left" "length left < 3" "length eaten = 3 * k" "valid_count enc = 4 * k"
      "\<And>olen out rest. length out + 3 * k \<le> olen \<Longrightarrow>
        decode_loop olen (enc @ rest) [] 0 out = decode_loop olen rest [] 0 (out @ eaten)"
    using encode_loop_decodes [OF e] by auto
  obtain lf where lf: "base64_encode malloc src = Inr (Some (enc @ encode_tail left @ lf))" "lf = [] \<or> lf = [LF]"
    using base64_encode_value [OF assms(2) _ e, of malloc] assms(3) by blast
  let ?olen = "3 * k + (if left = [] then 0 else 3)"
  have v: "valid_count (enc @ encode_tail left @ lf) = 4 * (k + (if left = [] then 0 else 1))"
    using l(2,4) lf(2) by (auto simp: valid_tail dval_special)
  have "0 < k + (if left = [] then 0 else 1)" using assms(1) l(1,3) by (cases k) auto
  moreover have "decode_loop ?olen (enc @ encode_tail left @ lf) [] 0 [] = Inr (Some src)"
    using l(5) [of "[]" ?olen] decode_tail [OF l(2) _ lf(2), of eaten ?olen] l(1,3) by simp
  ultimately have "base64_decode malloc (enc @ encode_tail left @ lf) = Inr (Some src)"
    using v assms(3) by (auto simp: base64_decode_def valid_count_def [symmetric] mult.commute split: if_splits)
  then show ?thesis using lf(1) by blast
qed

text \<open>The alphabet of the encoder, and line feeds in the input of the decoder.\<close>

lemma b64_char: "v < 64 \<Longrightarrow> is_base_64 (b64 v)"
proof -
  assume v: "v < 64"
  have "\<forall>i\<in>set [0..<64]. is_base_64 (base64_table ! i)" by code_simp
  then show ?thesis using v by (auto simp: b64_def word_less_nat_alt)
qed

lemma encode_loop_chars:
  "encode_loop src ll = (enc, left, n) \<Longrightarrow> (\<forall>c\<in>set enc. is_base_64 c \<or> c = LF) \<and> length left < 3"
proof (induction src ll arbitrary: enc left n rule: encode_loop.induct)
  case (1 a b c rest ll)
  then show ?case using b64_char [OF quad_less(1)] b64_char [OF quad_less(2)] b64_char [OF quad_less(3)]
      b64_char [OF quad_less(4)] by (fastforce simp: Let_def split: prod.splits if_splits)
qed auto

lemma encode_tail_chars: "\<forall>c\<in>set (encode_tail left). is_base_64 c"
  using b64_char [OF quad_less(1)] b64_char [OF quad_less(2)] b64_char [OF quad_less(5)] b64_char [OF quad_less(6)]
    by (cases left; cases "tl left") (auto simp: encode_tail_def is_base_64_def [of EQSIGN])

lemma encode_chars: "base64_encode malloc src = Inr (Some s) \<Longrightarrow> \<forall>c\<in>set s. is_base_64 c \<or> c = LF"
  using encode_loop_chars [of src 0] encode_tail_chars
  by (fastforce simp: base64_encode_def Let_def split: prod.splits if_splits)

lemma decode_loop_lf:
  "decode_loop olen (filter (\<lambda>c. c \<noteq> LF) cs) block pads out = decode_loop olen cs block pads out"
  by (induction cs arbitrary: block pads out) (auto simp: dval_special Let_def)

lemma decode_lf_free: "base64_decode malloc (filter (\<lambda>c. c \<noteq> LF) s) = base64_decode malloc s"
proof -
  have "valid_count (filter (\<lambda>c. c \<noteq> LF) s) = valid_count s"
    by (induction s) (auto simp: dval_special)
  then show ?thesis
    unfolding base64_decode_def valid_count_def [symmetric] decode_loop_lf by simp
qed

section \<open>Properties\<close>

text \<open>
  C33: Decoding undoes encoding, line feeds and padding included, for every input but the empty
  one, whose encoding the decoder refuses. The input is shorter than \<open>2 ^ 60\<close> bytes and memory is
  not exhausted. In particular the encoder stays inside the block it allocates.
\<close>

theorem base64_roundtrip:
  assumes "src \<noteq> []" "length src < 2 ^ 60" "\<And>n. malloc n"
  shows "\<exists>s. base64_encode malloc src = Inr (Some s) \<and> base64_decode malloc s = Inr (Some src)"
  by (rule decode_encode [OF assms])

theorem base64_roundtrip_witness:
  "\<exists>s. base64_encode (\<lambda>n. True) [117, 58, 112, 255] = Inr (Some s) \<and>
     base64_decode (\<lambda>n. True) s = Inr (Some [117, 58, 112, 255])"
  by (rule base64_roundtrip) simp_all

lemma decode_loop_safe:
  "length block < 4 \<Longrightarrow> length out = 3 * g \<Longrightarrow> 4 * g + length block + valid_count cs = 4 * m \<Longrightarrow>
   case decode_loop (3 * m) cs block pads out of Inl _ \<Rightarrow> False | Inr None \<Rightarrow> True | Inr (Some r) \<Rightarrow> length r \<le> 3 * m"
proof (induction cs arbitrary: block pads out g)
  case Nil
  then show ?case by simp
next
  case (Cons c cs)
  show ?case
  proof (cases "dval c = 128")
    case True
    then show ?thesis using Cons.IH [OF Cons.prems(1,2)] Cons.prems(3) by simp
  next
    case False
    let ?pads = "if c = EQSIGN then pads + 1 else pads"
    show ?thesis
    proof (cases "length block = 3")
      case full: True
      have m: "3 * g + 3 \<le> 3 * m" using Cons.prems(3) False full by simp
      show ?thesis
        using False full m Cons.prems Cons.IH [of "[]" _ "Suc g" ?pads]
        by (auto simp: Let_def)
    next
      case more: False
      then show ?thesis using False Cons.prems Cons.IH [of "block @ [dval c]" out g ?pads]
        by (simp add: Let_def)
    qed
  qed
qed

lemma base64_decode_bound:
  "case base64_decode malloc src of
     Inl _ \<Rightarrow> False
   | Inr None \<Rightarrow> True
   | Inr (Some out) \<Rightarrow> length out * 4 \<le> length src * 3"
proof (cases "valid_count src = 0 \<or> valid_count src mod 4 \<noteq> 0 \<or> \<not> malloc (valid_count src div 4 * 3)")
  case True
  then show ?thesis by (auto simp: base64_decode_def valid_count_def [symmetric] Let_def)
next
  case False
  then obtain m where m: "valid_count src = 4 * m" by (metis mod_0_imp_dvd dvdE)
  have "m * 4 \<le> length src" using m length_filter_le [of "\<lambda>c. dval c \<noteq> 128" src] by (simp add: valid_count_def)
  moreover have "base64_decode malloc src = decode_loop (3 * m) src [] 0 []"
    using False m by (simp add: base64_decode_def valid_count_def [symmetric] mult.commute)
  ultimately show ?thesis using decode_loop_safe [of "[]" "[]" 0 src m 0] m
    by (auto split: sum.splits option.splits)
qed

text \<open>
  The decoder stays inside the block it allocates on every input, terminated or not, padded or
  not: it returns NULL or at most three bytes for every four characters of the input.
\<close>

theorem base64_decode_safe:
  "case base64_decode malloc src of
     Inl _ \<Rightarrow> False
   | Inr None \<Rightarrow> True
   | Inr (Some out) \<Rightarrow> length out * 4 \<le> length src * 3"
  by (rule base64_decode_bound)

end
