(* ===== verification/Str_Parser.thy ===== *)
theory Str_Parser
  imports Prelude
begin

text \<open>
  The table-driven parser of \<^verbatim>\<open>utils/parser/parser.c\<close> and the table \<^verbatim>\<open>utils/parser/parser_utils.c\<close>
  builds for comparing a string without regard to case. Actions are the functions the table points
  to; \<open>None\<close> is a null pointer. \<^verbatim>\<open>e1.next\<close> is null or the address of \<open>e2\<close>, so a flag tells it. Prefixes:
  \<open>ev_\<close> (event), \<open>tr_\<close> (transition), \<open>pd_\<close> (definition), \<open>sp_\<close> (parser).
\<close>

section \<open>The engine\<close>

definition MAX_STATES :: nat where "MAX_STATES = 64"
definition STATE_TRANSITIONS :: nat where "STATE_TRANSITIONS = 3"
definition ANY :: int where "ANY = 512"

record parser_event =
  ev_type :: nat
  ev_data :: bytes
  ev_n :: u8
  ev_next :: bool

type_synonym action = "parser_event \<Rightarrow> u8 \<Rightarrow> fault + parser_event"

record parser_state_transition =
  tr_when :: int
  tr_dest :: nat
  tr_act1 :: "action option"
  tr_act2 :: "action option"

record parser_definition =
  pd_states_count :: nat
  pd_states :: "parser_state_transition list list"
  pd_states_n :: "nat list"
  pd_start_state :: nat

record str_parser =
  sp_classes :: "u32 list"
  sp_def :: parser_definition
  sp_state :: nat
  sp_e1 :: parser_event
  sp_e2 :: parser_event

definition zero_event :: parser_event where
  "zero_event = \<lparr>ev_type = 0, ev_data = [0, 0, 0], ev_n = 0, ev_next = False\<rparr>"

text \<open>\<open>None\<close> when \<^verbatim>\<open>malloc\<close> fails.\<close>

definition parser_init :: "bool \<Rightarrow> u32 list \<Rightarrow> parser_definition \<Rightarrow> str_parser option" where
  "parser_init alloc cls def =
     (if alloc then Some \<lparr>sp_classes = cls, sp_def = def, sp_state = pd_start_state def,
                          sp_e1 = zero_event, sp_e2 = zero_event\<rparr>
      else None)"

definition parser_reset :: "str_parser \<Rightarrow> str_parser" where
  "parser_reset p = p\<lparr>sp_state := pd_start_state (sp_def p)\<rparr>"

definition parser_no_classes :: "u32 list" where
  "parser_no_classes = replicate 256 0"

definition call_action :: "action option \<Rightarrow> action" where
  "call_action act e c = (case act of None \<Rightarrow> Inl NullDeref | Some f \<Rightarrow> f e c)"

definition when_matches :: "int \<Rightarrow> u32 \<Rightarrow> u8 \<Rightarrow> bool" where
  "when_matches w type c \<longleftrightarrow>
     (if w \<le> 255 then uint c = w else if w = ANY then True else type AND word_of_int w \<noteq> 0)"

text \<open>The loop over the transitions of the state, from index \<open>i\<close> with \<open>k\<close> rounds left.\<close>

fun transition_loop ::
  "parser_state_transition list \<Rightarrow> u32 \<Rightarrow> u8 \<Rightarrow> nat \<Rightarrow> nat \<Rightarrow> str_parser \<Rightarrow> fault + str_parser" where
  "transition_loop row type c i 0 p = Inr p"
| "transition_loop row type c i (Suc k) p =
     bindR (arr_get row (int i)) (\<lambda>t.
       if when_matches (tr_when t) type c
       then bindR (call_action (tr_act1 t) (sp_e1 p) c) (\<lambda>e.
            bindR (if tr_act2 t \<noteq> None
                   then bindR (call_action (tr_act2 t) (sp_e2 p) c) (\<lambda>e2.
                        Inr (p\<lparr>sp_e1 := e\<lparr>ev_next := True\<rparr>, sp_e2 := e2\<rparr>))
                   else Inr (p\<lparr>sp_e1 := e\<rparr>)) (\<lambda>p.
            Inr (p\<lparr>sp_state := tr_dest t\<rparr>)))
       else transition_loop row type c (Suc i) k p)"

text \<open>The parser after a byte; the event returned is its \<^verbatim>\<open>e1\<close>.\<close>

definition parser_feed :: "str_parser \<Rightarrow> u8 \<Rightarrow> fault + str_parser" where
  "parser_feed p c =
     bindR (arr_get (sp_classes p) (uint c)) (\<lambda>type.
     let p = p\<lparr>sp_e1 := (sp_e1 p)\<lparr>ev_next := False\<rparr>, sp_e2 := (sp_e2 p)\<lparr>ev_next := False\<rparr>\<rparr>
     in bindR (arr_get (pd_states (sp_def p)) (int (sp_state p))) (\<lambda>row.
        bindR (arr_get (pd_states_n (sp_def p)) (int (sp_state p))) (\<lambda>n.
        transition_loop row type c 0 n p)))"

section \<open>Comparison of strings\<close>

definition STRING_CMP_MAYEQ :: nat where "STRING_CMP_MAYEQ = 0"
definition STRING_CMP_EQ :: nat where "STRING_CMP_EQ = 1"
definition STRING_CMP_NEQ :: nat where "STRING_CMP_NEQ = 2"

definition parser_utils_strcmpi_event :: "nat \<Rightarrow> string option" where
  "parser_utils_strcmpi_event type =
     (if type = STRING_CMP_MAYEQ then Some ''wait(c)''
      else if type = STRING_CMP_EQ then Some ''eq(c)''
      else if type = STRING_CMP_NEQ then Some ''neq(c)''
      else None)"

text \<open>The three actions differ in the type they store.\<close>

definition store_event :: "nat \<Rightarrow> action" where
  "store_event type e c =
     bindR (arr_set (ev_data e) 0 c) (\<lambda>d. Inr (e\<lparr>ev_type := type, ev_n := 1, ev_data := d\<rparr>))"

definition may_eq :: action where "may_eq = store_event STRING_CMP_MAYEQ"
definition eq :: action where "eq = store_event STRING_CMP_EQ"
definition neq :: action where "neq = store_event STRING_CMP_NEQ"

text \<open>\<^verbatim>\<open>tolower\<close> and \<^verbatim>\<open>toupper\<close> of the C locale.\<close>

definition tolower :: "u8 \<Rightarrow> u8" where
  "tolower c = (if 65 \<le> c \<and> c \<le> 90 then c + 32 else c)"

definition toupper :: "u8 \<Rightarrow> u8" where
  "toupper c = (if 97 \<le> c \<and> c \<le> 122 then c - 32 else c)"

definition zero_transition :: parser_state_transition where
  "zero_transition = \<lparr>tr_when = 0, tr_dest = 0, tr_act1 = None, tr_act2 = None\<rparr>"

definition arrow :: "int \<Rightarrow> nat \<Rightarrow> action \<Rightarrow> parser_state_transition" where
  "arrow w d f = zero_transition\<lparr>tr_when := w, tr_dest := d, tr_act1 := Some f\<rparr>"

definition state_row :: "bytes \<Rightarrow> nat \<Rightarrow> parser_state_transition list" where
  "state_row s i =
     (let n = length s; last = (i + 1 = n); dest = (if last then n else i + 1); act = (if last then eq else may_eq)
      in [arrow (uint (tolower (s ! i))) dest act, arrow (uint (toupper (s ! i))) dest act,
          arrow ANY (n + 1) neq])"

definition sink_row :: "nat \<Rightarrow> parser_state_transition list" where
  "sink_row n = [arrow ANY (n + 1) neq, zero_transition, zero_transition]"

text \<open>The rows written, in order, into arrays that hold \<^verbatim>\<open>MAX_STATES\<close> of them.\<close>

fun fill :: "'a list \<Rightarrow> nat \<Rightarrow> 'a list \<Rightarrow> fault + 'a list" where
  "fill xs i [] = Inr xs"
| "fill xs i (r # rs) = bindR (arr_set xs (int i) r) (\<lambda>xs. fill xs (Suc i) rs)"

definition parser_utils_strcmpi :: "bytes \<Rightarrow> fault + parser_definition" where
  "parser_utils_strcmpi s =
     (let n = length s
      in bindR (fill (replicate MAX_STATES (replicate STATE_TRANSITIONS zero_transition)) 0
                  (map (state_row s) [0..<n] @ [sink_row n, sink_row n])) (\<lambda>states.
         bindR (fill (replicate MAX_STATES 0) 0 (replicate n 3 @ [1, 1])) (\<lambda>nstates.
         Inr \<lparr>pd_states_count = n + 2, pd_states = states, pd_states_n = nstates, pd_start_state = 0\<rparr>)))"

section \<open>The engine on the comparison table\<close>

lemma fill_value:
  "i + length rs \<le> length xs \<Longrightarrow> fill xs i rs = Inr (overwrite xs i rs)"
  by (induction rs arbitrary: xs i) (simp_all add: overwrite_Cons)

lemma fill_long: "length xs < i + length rs \<Longrightarrow> i \<le> length xs \<Longrightarrow> fill xs i rs = Inl OutOfBounds"
  by (induction rs arbitrary: xs i) (auto simp: arr_set_def)

definition cmp_rows :: "bytes \<Rightarrow> parser_state_transition list list" where
  "cmp_rows s = map (state_row s) [0..<length s] @ [sink_row (length s), sink_row (length s)]"

lemma strcmpi_value:
  assumes "length s + 2 \<le> MAX_STATES"
  shows "\<exists>def. parser_utils_strcmpi s = Inr def \<and> pd_start_state def = 0 \<and>
     (\<forall>k < length s + 2. arr_get (pd_states def) (int k) = Inr (cmp_rows s ! k) \<and>
        arr_get (pd_states_n def) (int k) = Inr (if k < length s then 3 else 1))"
  using assms
  by (auto simp: parser_utils_strcmpi_def fill_value Let_def cmp_rows_def overwrite_def nth_append
      MAX_STATES_def less_Suc_eq)

text \<open>\<open>cmp_at s k p\<close>: the parser compares with \<open>s\<close> and is in state \<open>k\<close>.\<close>

definition cmp_at :: "bytes \<Rightarrow> nat \<Rightarrow> str_parser \<Rightarrow> bool" where
  "cmp_at s k p \<longleftrightarrow>
     parser_utils_strcmpi s = Inr (sp_def p) \<and> sp_state p = k \<and> sp_classes p = parser_no_classes \<and>
     length (ev_data (sp_e1 p)) = 3"

definition cmp_next :: "bytes \<Rightarrow> nat \<Rightarrow> u8 \<Rightarrow> nat" where
  "cmp_next s k c =
     (if k < length s \<and> tolower c = tolower (s ! k) then Suc k else Suc (length s))"

definition cmp_event :: "bytes \<Rightarrow> nat \<Rightarrow> nat" where
  "cmp_event s k = (if k = length s then STRING_CMP_EQ else if k < length s then STRING_CMP_MAYEQ
                    else STRING_CMP_NEQ)"


lemma case_fold: "tolower c = tolower x \<longleftrightarrow> c = tolower x \<or> c = toupper x"
proof -
  have n: "unat (tolower b) = (if 65 \<le> unat b \<and> unat b \<le> 90 then unat b + 32 else unat b)" for b
    using unat_u8 [of b] by (simp add: tolower_def word_le_nat_alt unat_word_ariths)
  have m: "unat (toupper b) = (if 97 \<le> unat b \<and> unat b \<le> 122 then unat b - 32 else unat b)" for b
    using unat_u8 [of b] by (simp add: toupper_def word_le_nat_alt unat_sub)
  show ?thesis unfolding word_unat_eq_iff n m by auto
qed

lemma arrow_simps [simp]:
  "tr_when (arrow w d f) = w" "tr_dest (arrow w d f) = d" "tr_act1 (arrow w d f) = Some f"
  "tr_act2 (arrow w d f) = None"
  by (simp_all add: arrow_def zero_transition_def)

lemma when_byte [simp]: "when_matches (uint (x :: u8)) type c \<longleftrightarrow> c = x"
  using unsigned_less [of x, where ?'a = int] by (simp add: when_matches_def word_uint_eq_iff)

lemma when_any [simp]: "when_matches ANY type c"
  by (simp add: when_matches_def ANY_def)

definition went :: "nat \<Rightarrow> nat \<Rightarrow> u8 \<Rightarrow> str_parser \<Rightarrow> str_parser" where
  "went k type c p =
     p\<lparr>sp_state := k, sp_e1 := (sp_e1 p)\<lparr>ev_type := type, ev_n := 1, ev_data := (ev_data (sp_e1 p))[0 := c]\<rparr>\<rparr>"

lemma store_event_value:
  "length (ev_data e) = 3 \<Longrightarrow>
   store_event t e c = Inr (e\<lparr>ev_type := t, ev_n := 1, ev_data := (ev_data e)[0 := c]\<rparr>)"
  by (simp add: store_event_def)

lemma loop_state_row:
  assumes "k < length s" "length (ev_data (sp_e1 p)) = 3"
  shows "transition_loop (state_row s k) type c 0 3 p =
     Inr (went (cmp_next s k c) (cmp_event s (cmp_next s k c)) c p)"
  using assms case_fold [of c "s ! k"]
  by (auto simp: state_row_def eval_nat_numeral arr_get_def call_action_def may_eq_def eq_def neq_def
      store_event_value went_def cmp_next_def cmp_event_def Let_def)

lemma loop_sink_row:
  assumes "length s \<le> k" "length (ev_data (sp_e1 p)) = 3"
  shows "transition_loop (sink_row (length s)) type c 0 1 p =
     Inr (went (cmp_next s k c) (cmp_event s (cmp_next s k c)) c p)"
  using assms
  by (auto simp: sink_row_def arr_get_def call_action_def neq_def
      store_event_value went_def cmp_next_def cmp_event_def)

lemma cmp_feed:
  assumes "cmp_at s k p" "k < length s + 2" "length s + 2 \<le> MAX_STATES"
  shows "\<exists>p'. parser_feed p c = Inr p' \<and> cmp_at s (cmp_next s k c) p' \<and>
     ev_type (sp_e1 p') = cmp_event s (cmp_next s k c)"
proof -
  let ?p = "p\<lparr>sp_e1 := (sp_e1 p)\<lparr>ev_next := False\<rparr>, sp_e2 := (sp_e2 p)\<lparr>ev_next := False\<rparr>\<rparr>"
  have p: "parser_utils_strcmpi s = Inr (sp_def p)" "sp_state p = k" "sp_classes p = parser_no_classes"
      "length (ev_data (sp_e1 ?p)) = 3"
    using assms(1) by (auto simp: cmp_at_def)
  have d: "arr_get (pd_states (sp_def p)) (int k) = Inr (cmp_rows s ! k)"
      "arr_get (pd_states_n (sp_def p)) (int k) = Inr (if k < length s then 3 else 1)"
    using strcmpi_value [OF assms(3)] p(1) assms(2) by auto
  have "transition_loop (cmp_rows s ! k) 0 c 0 (if k < length s then 3 else 1) ?p =
      Inr (went (cmp_next s k c) (cmp_event s (cmp_next s k c)) c ?p)"
  proof (cases "k < length s")
    case True
    then have "cmp_rows s ! k = state_row s k" by (simp add: cmp_rows_def nth_append)
    then show ?thesis using loop_state_row [OF True p(4)] True by simp
  next
    case False
    then have "cmp_rows s ! k = sink_row (length s)" using assms(2)
      by (auto simp: cmp_rows_def nth_append less_Suc_eq)
    then show ?thesis using loop_sink_row [OF _ p(4), of s k] False by simp
  qed
  moreover have "arr_get (sp_classes p) (uint c) = Inr 0"
    using p(3) unat_u8 [of c] unsigned_less [of c, where ?'a = int] by (simp add: parser_no_classes_def nat_less_iff)
  ultimately have "parser_feed p c = Inr (went (cmp_next s k c) (cmp_event s (cmp_next s k c)) c ?p)"
    using d p(2) by (simp add: parser_feed_def Let_def)
  then show ?thesis using p by (simp add: cmp_at_def went_def)
qed

lemma cmp_next_bound: "k < length s + 2 \<Longrightarrow> cmp_next s k c < length s + 2"
  by (simp add: cmp_next_def)

lemma cmp_at_init:
  assumes "parser_utils_strcmpi s = Inr def" "parser_init alloc parser_no_classes def = Some p" "length s + 2 \<le> MAX_STATES"
  shows "cmp_at s 0 p"
  using assms strcmpi_value [OF assms(3)]
  by (auto simp: parser_init_def cmp_at_def zero_event_def split: if_splits)

lemma cmp_at_reset: "cmp_at s k p \<Longrightarrow> length s + 2 \<le> MAX_STATES \<Longrightarrow> cmp_at s 0 (parser_reset p)"
  using strcmpi_value [of s] by (auto simp: parser_reset_def cmp_at_def)


section \<open>What the comparison recognises\<close>

text \<open>A fresh comparison with \<open>s\<close>, if memory is not exhausted and the table has room for \<open>s\<close>.\<close>

definition new_cmp :: "bytes \<Rightarrow> fault + str_parser option" where
  "new_cmp s = bindR (parser_utils_strcmpi s) (\<lambda>def. Inr (parser_init True parser_no_classes def))"

fun feed_all :: "str_parser \<Rightarrow> bytes \<Rightarrow> fault + str_parser" where
  "feed_all p [] = Inr p"
| "feed_all p (c # cs) = bindR (parser_feed p c) (\<lambda>p. feed_all p cs)"

lemma cmp_feed_all:
  "cmp_at s k p \<Longrightarrow> k < length s + 2 \<Longrightarrow> length s + 2 \<le> MAX_STATES \<Longrightarrow> cs \<noteq> [] \<Longrightarrow>
   \<exists>p'. feed_all p cs = Inr p' \<and> cmp_at s (fold (\<lambda>c k. cmp_next s k c) cs k) p' \<and>
     ev_type (sp_e1 p') = cmp_event s (fold (\<lambda>c k. cmp_next s k c) cs k)"
proof (induction cs arbitrary: k p)
  case Nil
  then show ?case by simp
next
  case (Cons c cs)
  obtain p' where p': "parser_feed p c = Inr p'" "cmp_at s (cmp_next s k c) p'"
      "ev_type (sp_e1 p') = cmp_event s (cmp_next s k c)"
    using cmp_feed [OF Cons.prems(1-3)] by blast
  show ?case
    using p' Cons.IH [OF p'(2) cmp_next_bound [OF Cons.prems(2)] Cons.prems(3)]
    by (cases "cs = []") auto
qed

lemma cmp_stuck: "length s < k \<Longrightarrow> length s < fold (\<lambda>c k. cmp_next s k c) cs k"
  by (induction cs arbitrary: k) (auto simp: cmp_next_def)

lemma cmp_fold:
  "k \<le> length s \<Longrightarrow>
   fold (\<lambda>c k. cmp_next s k c) cs k =
     (if k + length cs \<le> length s \<and> map tolower cs = map tolower (take (length cs) (drop k s))
      then k + length cs else Suc (length s))"
proof (induction cs arbitrary: k)
  case Nil
  then show ?case by simp
next
  case (Cons c cs)
  have stuck: "fold (\<lambda>c k. cmp_next s k c) cs (Suc (length s)) = Suc (length s)"
    by (induction cs) (simp_all add: cmp_next_def)
  show ?case
  proof (cases "k < length s \<and> tolower c = tolower (s ! k)")
    case True
    then have "drop k s = s ! k # drop (Suc k) s" by (simp add: Cons_nth_drop_Suc)
    then show ?thesis using True Cons.IH [of "Suc k"] by (auto simp: cmp_next_def)
  next
    case False
    have "\<not> (k + length (c # cs) \<le> length s \<and> map tolower (c # cs) = map tolower (take (length (c # cs)) (drop k s)))"
    proof
      assume a: "k + length (c # cs) \<le> length s \<and> map tolower (c # cs) = map tolower (take (length (c # cs)) (drop k s))"
      then have "drop k s = s ! k # drop (Suc k) s" by (simp add: Cons_nth_drop_Suc)
      then show False using a False by simp
    qed
    then show ?thesis using False stuck by (auto simp: cmp_next_def)
  qed
qed

lemma new_cmp_at: "length s + 2 \<le> MAX_STATES \<Longrightarrow> \<exists>p. new_cmp s = Inr (Some p) \<and> cmp_at s 0 p"
  using strcmpi_value [of s] by (auto simp: new_cmp_def parser_init_def cmp_at_def zero_event_def)

text \<open>
  The automaton compares without regard to case. After any non-empty sequence of bytes the event
  returned is "equal" exactly when the bytes are the string up to case, "maybe equal" exactly when
  they are a proper prefix of it up to case, and "not equal" otherwise; nothing is read or written out
  of bounds. The string has at most 62 bytes, the room of the table.
\<close>

theorem strcmpi_exact:
  assumes "length s + 2 \<le> MAX_STATES" "cs \<noteq> []"
  shows "\<exists>p q. new_cmp s = Inr (Some p) \<and> feed_all p cs = Inr q \<and>
    ev_type (sp_e1 q) =
      (if map tolower cs = map tolower s then STRING_CMP_EQ
       else if length cs < length s \<and> map tolower cs = take (length cs) (map tolower s) then STRING_CMP_MAYEQ
       else STRING_CMP_NEQ)"
proof -
  obtain p where p: "new_cmp s = Inr (Some p)" "cmp_at s 0 p" using new_cmp_at [OF assms(1)] by blast
  obtain q where "feed_all p cs = Inr q" "ev_type (sp_e1 q) = cmp_event s (fold (\<lambda>c k. cmp_next s k c) cs 0)"
    using cmp_feed_all [OF p(2) _ assms(1,2)] by auto
  moreover have "cmp_event s (fold (\<lambda>c k. cmp_next s k c) cs 0) =
      (if map tolower cs = map tolower s then STRING_CMP_EQ
       else if length cs < length s \<and> map tolower cs = take (length cs) (map tolower s) then STRING_CMP_MAYEQ
       else STRING_CMP_NEQ)"
  proof -
    have e: "map tolower cs = map tolower s \<longleftrightarrow>
        length cs = length s \<and> map tolower cs = take (length cs) (map tolower s)"
      by (metis length_map order_refl take_all)
    have f: "fold (\<lambda>c k. cmp_next s k c) cs 0 =
        (if length cs \<le> length s \<and> map tolower cs = take (length cs) (map tolower s)
         then length cs else Suc (length s))"
      using cmp_fold [of 0 s cs] by (simp add: take_map)
    show ?thesis unfolding e f by (simp add: cmp_event_def)
  qed
  ultimately show ?thesis using p(1) by auto
qed

theorem strcmpi_exact_witness:
  "\<exists>p q. new_cmp [72, 84] = Inr (Some p) \<and> feed_all p [104] = Inr q \<and>
    ev_type (sp_e1 q) =
      (if map tolower [104] = map tolower [72, 84] then STRING_CMP_EQ
       else if length [104 :: u8] < length [72 :: u8, 84] \<and>
         map tolower [104] = take (length [104 :: u8]) (map tolower [72, 84]) then STRING_CMP_MAYEQ
       else STRING_CMP_NEQ)"
  by (rule strcmpi_exact) (simp_all add: MAX_STATES_def)

text \<open>
  A string of 63 bytes or more does not fit in the table: building it writes out of bounds.
\<close>

theorem strcmpi_too_long:
  assumes "MAX_STATES < length s + 2"
  shows "parser_utils_strcmpi s = Inl OutOfBounds"
  using assms by (simp add: parser_utils_strcmpi_def Let_def fill_long)

theorem strcmpi_too_long_witness: "parser_utils_strcmpi (replicate 63 65) = Inl OutOfBounds"
  by (rule strcmpi_too_long) (simp add: MAX_STATES_def)

end
