(* ===== verification/Sniffer.thy ===== *)
theory Sniffer
  imports Str_Parser Base64
begin

text \<open>
  The credentials sniffer of \<^verbatim>\<open>parsers/sniffer_parser/sniffer_parser.c\<close>: it reads the bytes of both
  directions of a connection and looks for a POP3 login or an HTTP basic authorization. Field prefix
  \<open>sf_\<close>. \<open>sf_string_parser\<close> is a pointer: \<open>None\<close> is null. The environment says whether the
  allocations succeed.
\<close>

section \<open>Data\<close>

definition MAX_AUTH_VALUE_LENGTH :: int where "MAX_AUTH_VALUE_LENGTH = 1024"
definition MAX_USER_LENGTH :: int where "MAX_USER_LENGTH = 40"
definition MAX_PASSWORD_LENGTH :: int where "MAX_PASSWORD_LENGTH = 40"
definition CLIENT_OWNED :: int where "CLIENT_OWNED = 0"
definition ORIGIN_OWNED :: int where "ORIGIN_OWNED = 1"

datatype sniffer_state =
    sniff_start
  | sniff_http_version
  | sniff_http_authorization
  | sniff_http_authorization_basic
  | sniff_http_authorization_value
  | sniff_pop3_origin_ack
  | sniff_pop3_user_username
  | sniff_pop3_user_username_value
  | sniff_pop3_origin_user_ack
  | sniff_pop3_user_pass
  | sniff_pop3_user_pass_value
  | sniff_pop3_origin_pass_ack
  | sniff_done
  | sniff_error

datatype protocol = POP3 | HTTP

record sniffer_parser =
  sf_state :: sniffer_state
  sf_user :: bytes
  sf_password :: bytes
  sf_auth_value :: bytes
  sf_protocol :: protocol
  sf_string_parser :: "str_parser option"
  sf_parser_is_set :: bool
  sf_i :: int

record sniff_env =
  se_alloc :: bool
  se_malloc :: "nat \<Rightarrow> bool"

type_synonym sniff_result = "fault + (sniffer_parser \<times> sniffer_state)"

text \<open>The strings searched for.\<close>

definition PLUS_OK :: bytes where "PLUS_OK = [43, 79, 75]"
definition HTTP_1 :: bytes where "HTTP_1 = [72, 84, 84, 80, 47, 49]"
definition AUTHORIZATION :: bytes where
  "AUTHORIZATION = [65, 85, 84, 72, 79, 82, 73, 90, 65, 84, 73, 79, 78, 58]"
definition BASIC :: bytes where "BASIC = [66, 65, 83, 73, 67]"
definition USER :: bytes where "USER = [85, 83, 69, 82]"
definition PASS :: bytes where "PASS = [80, 65, 83, 83]"

section \<open>Operations\<close>

definition sniffer_parser_init :: "sniffer_parser \<Rightarrow> sniffer_parser" where
  "sniffer_parser_init p =
     p\<lparr>sf_parser_is_set := False, sf_state := sniff_start, sf_auth_value := replicate 1025 0,
       sf_user := replicate 41 0, sf_password := replicate 41 0, sf_i := 0\<rparr>"

definition set_string_parser :: "sniff_env \<Rightarrow> bytes \<Rightarrow> sniffer_parser \<Rightarrow> fault + sniffer_parser" where
  "set_string_parser env s p =
     bindR (parser_utils_strcmpi s) (\<lambda>def.
     Inr (p\<lparr>sf_parser_is_set := True,
            sf_string_parser := parser_init (se_alloc env) parser_no_classes def\<rparr>))"

definition modify_sniffer_state ::
  "sniff_env \<Rightarrow> sniffer_parser \<Rightarrow> sniffer_state \<Rightarrow> fault + sniffer_parser" where
  "modify_sniffer_state env p new_state =
     set_string_parser env AUTHORIZATION (p\<lparr>sf_state := new_state\<rparr>)"

text \<open>\<^verbatim>\<open>parser_feed(p->string_parser, c)->type\<close> and \<^verbatim>\<open>parser_reset(p->string_parser)\<close>.\<close>

definition string_feed :: "sniffer_parser \<Rightarrow> u8 \<Rightarrow> fault + (sniffer_parser \<times> nat)" where
  "string_feed p c =
     (case sf_string_parser p of
        None \<Rightarrow> Inl NullDeref
      | Some sp \<Rightarrow> bindR (parser_feed sp c) (\<lambda>sp.
          Inr (p\<lparr>sf_string_parser := Some sp\<rparr>, ev_type (sp_e1 sp))))"

definition string_reset :: "sniffer_parser \<Rightarrow> fault + sniffer_parser" where
  "string_reset p =
     (case sf_string_parser p of
        None \<Rightarrow> Inl NullDeref
      | Some sp \<Rightarrow> Inr (p\<lparr>sf_string_parser := Some (parser_reset sp)\<rparr>))"

text \<open>The end of every search: restart after a mismatch and stay.\<close>

definition search_on :: "sniffer_state \<Rightarrow> sniffer_parser \<Rightarrow> nat \<Rightarrow> sniff_result" where
  "search_on here p type =
     bindR (if type = STRING_CMP_NEQ then string_reset p else Inr p) (\<lambda>p. Inr (p, here))"

definition s_http_version :: "sniff_env \<Rightarrow> u8 \<Rightarrow> sniffer_parser \<Rightarrow> int \<Rightarrow> sniff_result" where
  "s_http_version env c p owner =
     (if owner = ORIGIN_OWNED then Inr (p, sniff_error)
      else if c = CR then Inr (p, sniff_error)
      else bindR (string_feed p c) (\<lambda>(p, type).
           if type = STRING_CMP_EQ
           then bindR (set_string_parser env AUTHORIZATION p) (\<lambda>p. Inr (p, sniff_http_authorization))
           else search_on sniff_http_version p type))"

definition s_http_authorization :: "sniff_env \<Rightarrow> u8 \<Rightarrow> sniffer_parser \<Rightarrow> int \<Rightarrow> sniff_result" where
  "s_http_authorization env c p owner =
     (if owner = ORIGIN_OWNED then Inr (p, sniff_error)
      else bindR (string_feed p c) (\<lambda>(p, type).
           if type = STRING_CMP_EQ
           then bindR (set_string_parser env BASIC p) (\<lambda>p. Inr (p, sniff_http_authorization_basic))
           else search_on sniff_http_authorization p type))"

definition s_http_authorization_basic :: "u8 \<Rightarrow> sniffer_parser \<Rightarrow> int \<Rightarrow> sniff_result" where
  "s_http_authorization_basic c p owner =
     (if owner = ORIGIN_OWNED then Inr (p, sniff_error)
      else if c = CR then Inr (p, sniff_error)
      else bindR (string_feed p c) (\<lambda>(p, type).
           if type = STRING_CMP_EQ then Inr (p\<lparr>sf_i := 0\<rparr>, sniff_http_authorization_value)
           else search_on sniff_http_authorization_basic p type))"

text \<open>
  \<^verbatim>\<open>memcpy(dst, src + i, size)\<close> and the NUL after it. The block of the decoder may end one or two
  bytes after the bytes it returns; no copy ends there.
\<close>

definition copy_field :: "bytes \<Rightarrow> bytes \<Rightarrow> nat \<Rightarrow> nat \<Rightarrow> fault + bytes" where
  "copy_field dst src i sz =
     (if i + sz \<le> length src \<and> sz \<le> length dst
      then arr_set (overwrite dst 0 (take sz (drop i src))) (int sz) 0
      else Inl OutOfBounds)"

text \<open>\<^verbatim>\<open>len - i\<close> is computed in a \<^verbatim>\<open>size_t\<close>.\<close>

definition parse_user_and_password :: "bytes \<Rightarrow> sniffer_parser \<Rightarrow> fault + sniffer_parser" where
  "parse_user_and_password authorization p =
     (let len = length authorization;
          i = length (takeWhile (\<lambda>c. c \<noteq> COLON) authorization);
          sz = (if int i > MAX_USER_LENGTH then nat MAX_USER_LENGTH else i)
      in bindR (if i < len
                then bindR (copy_field (sf_user p) authorization 0 sz) (\<lambda>u. Inr (p\<lparr>sf_user := u\<rparr>))
                else Inr p) (\<lambda>p.
         let i = i + 1; rest = unat (word_of_nat len - word_of_nat i :: u64);
             sz = (if int rest > MAX_PASSWORD_LENGTH then nat MAX_PASSWORD_LENGTH else rest)
         in bindR (copy_field (sf_password p) authorization i sz) (\<lambda>w. Inr (p\<lparr>sf_password := w\<rparr>))))"

definition decode_and_parse_auth :: "sniff_env \<Rightarrow> sniffer_parser \<Rightarrow> sniff_result" where
  "decode_and_parse_auth env p =
     bindR (base64_decode (se_malloc env) (take (nat (sf_i p)) (sf_auth_value p))) (\<lambda>r.
       case r of
         None \<Rightarrow> Inr (p, sniff_error)
       | Some authorization \<Rightarrow>
           bindR (parse_user_and_password authorization p) (\<lambda>p.
           Inr (p\<lparr>sf_protocol := HTTP\<rparr>, sniff_done)))"

definition s_http_authorization_value :: "sniff_env \<Rightarrow> u8 \<Rightarrow> sniffer_parser \<Rightarrow> int \<Rightarrow> sniff_result" where
  "s_http_authorization_value env c p owner =
     (if owner = ORIGIN_OWNED then Inr (p, sniff_error)
      else if sf_i p \<ge> MAX_AUTH_VALUE_LENGTH then Inr (p, sniff_error)
      else if is_space c then Inr (p, sniff_http_authorization_value)
      else if c = CR
      then bindR (arr_set (sf_auth_value p) (sf_i p) 0) (\<lambda>v.
           decode_and_parse_auth env (p\<lparr>sf_auth_value := v\<rparr>))
      else if is_base_64 c
      then bindR (arr_set (sf_auth_value p) (sf_i p) c) (\<lambda>v.
           Inr (p\<lparr>sf_auth_value := v, sf_i := sf_i p + 1\<rparr>, sniff_http_authorization_value))
      else Inr (p, sniff_error))"

definition s_pop3_origin_ack :: "sniff_env \<Rightarrow> u8 \<Rightarrow> sniffer_parser \<Rightarrow> int \<Rightarrow> sniff_result" where
  "s_pop3_origin_ack env c p owner =
     (if owner = CLIENT_OWNED then Inr (p, sniff_error)
      else bindR (string_feed p c) (\<lambda>(p, type).
           if type = STRING_CMP_EQ
           then bindR (set_string_parser env USER p) (\<lambda>p. Inr (p, sniff_pop3_user_username))
           else search_on sniff_pop3_origin_ack p type))"

definition s_pop3_user_username :: "u8 \<Rightarrow> sniffer_parser \<Rightarrow> int \<Rightarrow> sniff_result" where
  "s_pop3_user_username c p owner =
     (if owner = ORIGIN_OWNED then Inr (p, sniff_pop3_user_username)
      else bindR (string_feed p c) (\<lambda>(p, type).
           if type = STRING_CMP_EQ then Inr (p\<lparr>sf_i := 0\<rparr>, sniff_pop3_user_username_value)
           else search_on sniff_pop3_user_username p type))"

definition s_pop3_user_username_value :: "sniff_env \<Rightarrow> u8 \<Rightarrow> sniffer_parser \<Rightarrow> int \<Rightarrow> sniff_result" where
  "s_pop3_user_username_value env c p owner =
     (if owner = ORIGIN_OWNED then Inr (p, sniff_pop3_user_username_value)
      else if sf_i p \<ge> MAX_USER_LENGTH then Inr (p, sniff_error)
      else if is_space c \<or> c = CR then Inr (p, sniff_pop3_user_username_value)
      else if c = LF
      then bindR (arr_set (sf_user p) (sf_i p) 0) (\<lambda>u.
           bindR (set_string_parser env PLUS_OK (p\<lparr>sf_user := u\<rparr>)) (\<lambda>p.
           Inr (p, sniff_pop3_origin_user_ack)))
      else if is_vchar c
      then bindR (arr_set (sf_user p) (sf_i p) c) (\<lambda>u.
           Inr (p\<lparr>sf_user := u, sf_i := sf_i p + 1\<rparr>, sniff_pop3_user_username_value))
      else Inr (p, sniff_error))"

definition s_pop3_origin_user_ack :: "sniff_env \<Rightarrow> u8 \<Rightarrow> sniffer_parser \<Rightarrow> int \<Rightarrow> sniff_result" where
  "s_pop3_origin_user_ack env c p owner =
     (if owner = CLIENT_OWNED then Inr (p, sniff_pop3_origin_user_ack)
      else bindR (string_feed p c) (\<lambda>(p, type).
           if c = DASH then Inr (p, sniff_error)
           else if type = STRING_CMP_EQ
           then bindR (set_string_parser env PASS (p\<lparr>sf_i := 0\<rparr>)) (\<lambda>p. Inr (p, sniff_pop3_user_pass))
           else search_on sniff_pop3_origin_user_ack p type))"

definition s_pop3_user_pass :: "u8 \<Rightarrow> sniffer_parser \<Rightarrow> int \<Rightarrow> sniff_result" where
  "s_pop3_user_pass c p owner =
     (if owner = ORIGIN_OWNED then Inr (p, sniff_pop3_user_pass)
      else bindR (string_feed p c) (\<lambda>(p, type).
           if type = STRING_CMP_EQ then Inr (p\<lparr>sf_i := 0\<rparr>, sniff_pop3_user_pass_value)
           else search_on sniff_pop3_user_pass p type))"

definition s_pop3_user_pass_value :: "sniff_env \<Rightarrow> u8 \<Rightarrow> sniffer_parser \<Rightarrow> int \<Rightarrow> sniff_result" where
  "s_pop3_user_pass_value env c p owner =
     (if owner = ORIGIN_OWNED then Inr (p, sniff_error)
      else if sf_i p \<ge> MAX_PASSWORD_LENGTH then Inr (p, sniff_error)
      else if is_space c \<or> c = CR then Inr (p, sniff_pop3_user_pass_value)
      else if c = LF
      then bindR (arr_set (sf_password p) (sf_i p) 0) (\<lambda>w.
           bindR (set_string_parser env PLUS_OK (p\<lparr>sf_password := w\<rparr>)) (\<lambda>p.
           Inr (p, sniff_pop3_origin_pass_ack)))
      else if is_vchar c
      then bindR (arr_set (sf_password p) (sf_i p) c) (\<lambda>w.
           Inr (p\<lparr>sf_password := w, sf_i := sf_i p + 1\<rparr>, sniff_pop3_user_pass_value))
      else Inr (p, sniff_error))"

definition s_pop3_origin_pass_ack :: "u8 \<Rightarrow> sniffer_parser \<Rightarrow> int \<Rightarrow> sniff_result" where
  "s_pop3_origin_pass_ack c p owner =
     (if owner = CLIENT_OWNED then Inr (p, sniff_pop3_origin_pass_ack)
      else bindR (string_feed p c) (\<lambda>(p, type).
           if c = DASH then Inr (p, sniff_error)
           else if type = STRING_CMP_EQ then Inr (p\<lparr>sf_i := 0, sf_protocol := POP3\<rparr>, sniff_done)
           else search_on sniff_pop3_origin_pass_ack p type))"

definition s_start :: "sniff_env \<Rightarrow> u8 \<Rightarrow> sniffer_parser \<Rightarrow> int \<Rightarrow> u16 \<Rightarrow> sniff_result" where
  "s_start env c p owner port =
     (if port = 110
      then bindR (set_string_parser env PLUS_OK p) (\<lambda>p. s_pop3_origin_ack env c p owner)
      else if port = 80
      then bindR (set_string_parser env HTTP_1 p) (\<lambda>p. s_http_version env c p owner)
      else Inr (p, sniff_start))"

definition sniffer_step :: "sniff_env \<Rightarrow> u8 \<Rightarrow> sniffer_parser \<Rightarrow> int \<Rightarrow> u16 \<Rightarrow> sniff_result" where
  "sniffer_step env c p owner port =
     (case sf_state p of
        sniff_start \<Rightarrow> s_start env c p owner port
      | sniff_http_version \<Rightarrow> s_http_version env c p owner
      | sniff_http_authorization \<Rightarrow> s_http_authorization env c p owner
      | sniff_http_authorization_basic \<Rightarrow> s_http_authorization_basic c p owner
      | sniff_http_authorization_value \<Rightarrow> s_http_authorization_value env c p owner
      | sniff_pop3_origin_ack \<Rightarrow> s_pop3_origin_ack env c p owner
      | sniff_pop3_user_username \<Rightarrow> s_pop3_user_username c p owner
      | sniff_pop3_user_username_value \<Rightarrow> s_pop3_user_username_value env c p owner
      | sniff_pop3_origin_user_ack \<Rightarrow> s_pop3_origin_user_ack env c p owner
      | sniff_pop3_user_pass \<Rightarrow> s_pop3_user_pass c p owner
      | sniff_pop3_user_pass_value \<Rightarrow> s_pop3_user_pass_value env c p owner
      | sniff_pop3_origin_pass_ack \<Rightarrow> s_pop3_origin_pass_ack c p owner
      | sniff_done \<Rightarrow> Inr (p, sf_state p)
      | sniff_error \<Rightarrow> Inr (p, sf_state p))"

definition sniffer_parser_feed ::
  "sniff_env \<Rightarrow> u8 \<Rightarrow> sniffer_parser \<Rightarrow> int \<Rightarrow> u16 \<Rightarrow> fault + sniffer_parser" where
  "sniffer_parser_feed env c p owner port =
     bindR (sniffer_step env c p owner port) (\<lambda>(p, next). Inr (p\<lparr>sf_state := next\<rparr>))"

text \<open>The bytes of a connection in the order they arrive, each with its sender.\<close>

fun sniff_all :: "sniff_env \<Rightarrow> u16 \<Rightarrow> sniffer_parser \<Rightarrow> (int \<times> u8) list \<Rightarrow> fault + sniffer_parser" where
  "sniff_all env port p [] = Inr p"
| "sniff_all env port p ((owner, c) # es) =
     bindR (sniffer_parser_feed env c p owner port) (\<lambda>p. sniff_all env port p es)"

section \<open>Searching\<close>

text \<open>The state of the comparison after a byte of a search: a mismatch starts again from nothing.\<close>

definition search_next :: "bytes \<Rightarrow> nat \<Rightarrow> u8 \<Rightarrow> nat" where
  "search_next s k c = (if cmp_next s k c = Suc (length s) then 0 else cmp_next s k c)"

definition with_sp :: "sniffer_parser \<Rightarrow> str_parser \<Rightarrow> sniffer_parser" where
  "with_sp p sp = p\<lparr>sf_string_parser := Some sp\<rparr>"

lemma with_sp_simps [simp]:
  "sf_state (with_sp p sp) = sf_state p" "sf_user (with_sp p sp) = sf_user p"
  "sf_password (with_sp p sp) = sf_password p" "sf_auth_value (with_sp p sp) = sf_auth_value p"
  "sf_i (with_sp p sp) = sf_i p" "sf_string_parser (with_sp p sp) = Some sp"
  "sf_protocol (with_sp p sp) = sf_protocol p" "with_sp (with_sp p sp') sp = with_sp p sp"
  by (simp_all add: with_sp_def)

lemma search_next_bound: "k < length s \<Longrightarrow> search_next s k c \<le> length s"
  by (simp add: search_next_def cmp_next_def)

lemma string_search:
  assumes "sf_string_parser p = Some sp" "cmp_at s k sp" "k < length s" "length s + 2 \<le> MAX_STATES"
  shows "\<exists>type sp1 sp2. string_feed p c = Inr (with_sp p sp1, type) \<and>
    (type = STRING_CMP_EQ \<longleftrightarrow> search_next s k c = length s) \<and>
    (\<forall>here. type \<noteq> STRING_CMP_EQ \<longrightarrow> search_on here (with_sp p sp1) type = Inr (with_sp p sp2, here)) \<and>
    (search_next s k c < length s \<longrightarrow> cmp_at s (search_next s k c) sp2)"
proof -
  obtain sp1 where sp1: "parser_feed sp c = Inr sp1" "cmp_at s (cmp_next s k c) sp1"
      "ev_type (sp_e1 sp1) = cmp_event s (cmp_next s k c)"
    using cmp_feed [OF assms(2) _ assms(4), of c] assms(3) by auto
  have f: "string_feed p c = Inr (with_sp p sp1, cmp_event s (cmp_next s k c))"
    using assms(1) sp1 by (simp add: string_feed_def with_sp_def)
  show ?thesis
  proof (cases "cmp_next s k c = Suc (length s)")
    case True
    then show ?thesis using assms(3) cmp_at_reset [OF sp1(2) assms(4)]
      by (intro exI [of _ STRING_CMP_NEQ] exI [of _ sp1] exI [of _ "parser_reset sp1"])
        (auto simp: f cmp_event_def search_on_def string_reset_def search_next_def STRING_CMP_EQ_def
          STRING_CMP_NEQ_def STRING_CMP_MAYEQ_def with_sp_def)
  next
    case False
    then have "cmp_next s k c \<le> length s" using cmp_next_bound [of k s c] assms(3) by simp
    then show ?thesis using sp1(2) False
      by (intro exI [of _ "cmp_event s (cmp_next s k c)"] exI [of _ sp1])
        (auto simp: f cmp_event_def search_on_def search_next_def STRING_CMP_EQ_def
          STRING_CMP_NEQ_def STRING_CMP_MAYEQ_def)
  qed
qed

lemma set_string_parser_value:
  assumes "se_alloc env" "length s + 2 \<le> MAX_STATES"
  obtains sp where "set_string_parser env s p = Inr (with_sp (p\<lparr>sf_parser_is_set := True\<rparr>) sp)" "cmp_at s 0 sp"
proof -
  obtain def where d: "parser_utils_strcmpi s = Inr def" using strcmpi_value [OF assms(2)] by blast
  obtain sp where sp: "parser_init True parser_no_classes def = Some sp" by (simp add: parser_init_def)
  show thesis using that [of sp] cmp_at_init [OF d sp assms(2)] d sp assms(1)
    by (simp add: set_string_parser_def with_sp_def)
qed

lemma string_lengths [simp]:
  "length PLUS_OK = 3" "length HTTP_1 = 6" "length AUTHORIZATION = 14" "length BASIC = 5" "length USER = 4"
  "length PASS = 4"
  by (simp_all add: PLUS_OK_def HTTP_1_def AUTHORIZATION_def BASIC_def USER_def PASS_def)

lemma string_room:
  "length PLUS_OK + 2 \<le> MAX_STATES" "length HTTP_1 + 2 \<le> MAX_STATES" "length AUTHORIZATION + 2 \<le> MAX_STATES"
  "length BASIC + 2 \<le> MAX_STATES" "length USER + 2 \<le> MAX_STATES" "length PASS + 2 \<le> MAX_STATES"
  by (simp_all add: MAX_STATES_def)

section \<open>Memory safety\<close>

text \<open>The string a state searches for.\<close>

fun target :: "sniffer_state \<Rightarrow> bytes" where
  "target sniff_http_version = HTTP_1"
| "target sniff_http_authorization = AUTHORIZATION"
| "target sniff_http_authorization_basic = BASIC"
| "target sniff_pop3_origin_ack = PLUS_OK"
| "target sniff_pop3_user_username = USER"
| "target sniff_pop3_origin_user_ack = PLUS_OK"
| "target sniff_pop3_user_pass = PASS"
| "target sniff_pop3_origin_pass_ack = PLUS_OK"
| "target _ = []"

definition watching :: "bytes \<Rightarrow> sniffer_parser \<Rightarrow> bool" where
  "watching s p \<longleftrightarrow>
     s = [] \<or> (\<exists>sp k. sf_string_parser p = Some sp \<and> cmp_at s k sp \<and> k < length s)"

definition arrays_ok :: "sniffer_parser \<Rightarrow> bool" where
  "arrays_ok p \<longleftrightarrow>
     length (sf_user p) = 41 \<and> length (sf_password p) = 41 \<and> length (sf_auth_value p) = 1025"

definition index_ok :: "sniffer_state \<Rightarrow> int \<Rightarrow> bool" where
  "index_ok s i \<longleftrightarrow>
     (case s of
        sniff_http_authorization_value \<Rightarrow> 0 \<le> i \<and> i \<le> 1024
      | sniff_pop3_user_username_value \<Rightarrow> 0 \<le> i \<and> i \<le> 40
      | sniff_pop3_user_pass_value \<Rightarrow> 0 \<le> i \<and> i \<le> 40
      | _ \<Rightarrow> True)"

definition sniff_inv :: "sniffer_parser \<Rightarrow> bool" where
  "sniff_inv p \<longleftrightarrow> arrays_ok p \<and> watching (target (sf_state p)) p \<and> index_ok (sf_state p) (sf_i p)"

text \<open>What a handler must deliver.\<close>

definition good :: "sniff_result \<Rightarrow> bool" where
  "good r \<longleftrightarrow> (\<exists>p s. r = Inr (p, s) \<and> sniff_inv (p\<lparr>sf_state := s\<rparr>))"

lemma good_Inr [simp]: "good (Inr (p, s)) \<longleftrightarrow> sniff_inv (p\<lparr>sf_state := s\<rparr>)"
  by (simp add: good_def)

lemma sniff_inv_state:
  "sniff_inv (p\<lparr>sf_state := s\<rparr>) \<longleftrightarrow> arrays_ok p \<and> watching (target s) p \<and> index_ok s (sf_i p)"
  by (simp add: sniff_inv_def arrays_ok_def watching_def)

lemma good_end: "arrays_ok p \<Longrightarrow> good (Inr (p, sniff_error))" "arrays_ok p \<Longrightarrow> good (Inr (p, sniff_done))"
  by (simp_all add: sniff_inv_state watching_def index_ok_def)

lemma arrays_with_sp [simp]: "arrays_ok (with_sp p sp) = arrays_ok p"
  by (simp add: arrays_ok_def)

lemma watching_new: "cmp_at s 0 sp \<Longrightarrow> watching s (with_sp p sp)"
  unfolding watching_def by (cases s) auto

lemma good_search:
  assumes "arrays_ok p" "watching (target here) p" "target here \<noteq> []" "index_ok here (sf_i p)"
    "\<And>sp. good (F (with_sp p sp))"
  shows "good (bindR (string_feed p c) (\<lambda>(p, type).
    if type = STRING_CMP_EQ then F p else search_on here p type))"
proof -
  obtain sp k where sp: "sf_string_parser p = Some sp" "cmp_at (target here) k sp" "k < length (target here)"
    using assms(2,3) by (auto simp: watching_def)
  have room: "length (target here) + 2 \<le> MAX_STATES"
    using assms(3) by (cases here) (simp_all add: MAX_STATES_def)
  obtain type sp1 sp2 where f: "string_feed p c = Inr (with_sp p sp1, type)"
      "type = STRING_CMP_EQ \<longleftrightarrow> search_next (target here) k c = length (target here)"
      "\<And>h. type \<noteq> STRING_CMP_EQ \<Longrightarrow> search_on h (with_sp p sp1) type = Inr (with_sp p sp2, h)"
      "search_next (target here) k c < length (target here) \<Longrightarrow> cmp_at (target here) (search_next (target here) k c) sp2"
    using string_search [OF sp room, of c] by blast
  have "search_next (target here) k c \<noteq> length (target here) \<Longrightarrow> good (Inr (with_sp p sp2, here))"
    using f(4) search_next_bound [OF sp(3), of c] assms(1,4)
    by (auto simp: sniff_inv_state watching_def)
  then show ?thesis using f(1-3) assms(5) by (cases "type = STRING_CMP_EQ") simp_all
qed

lemma good_set:
  assumes "se_alloc env" "length s + 2 \<le> MAX_STATES"
    "\<And>sp. cmp_at s 0 sp \<Longrightarrow> good (F (with_sp (p\<lparr>sf_parser_is_set := True\<rparr>) sp))"
  shows "good (bindR (set_string_parser env s p) F)"
  using set_string_parser_value [OF assms(1,2), of p] assms(3) by fastforce

lemmas handler_defs =
  s_http_version_def s_http_authorization_def s_http_authorization_basic_def s_pop3_origin_ack_def
  s_pop3_user_username_def s_pop3_origin_user_ack_def s_pop3_user_pass_def s_pop3_origin_pass_ack_def
  s_http_authorization_value_def s_pop3_user_username_value_def s_pop3_user_pass_value_def


lemma targets [simp]:
  "PLUS_OK \<noteq> []" "HTTP_1 \<noteq> []" "AUTHORIZATION \<noteq> []" "BASIC \<noteq> []" "USER \<noteq> []" "PASS \<noteq> []"
  by (simp_all add: PLUS_OK_def HTTP_1_def AUTHORIZATION_def BASIC_def USER_def PASS_def)

lemma index_free:
  "target s \<noteq> [] \<Longrightarrow> index_ok s i"
  by (cases s) (simp_all add: index_ok_def)

lemma good_http_version:
  assumes "arrays_ok p" "watching HTTP_1 p" "se_alloc env"
  shows "good (s_http_version env c p owner)"
proof -
  have "good (bindR (string_feed p c) (\<lambda>(p, type).
      if type = STRING_CMP_EQ
      then bindR (set_string_parser env AUTHORIZATION p) (\<lambda>p. Inr (p, sniff_http_authorization))
      else search_on sniff_http_version p type))"
    using assms
    by (intro good_search good_set string_room)
      (auto simp: sniff_inv_state arrays_ok_def watching_new index_free)
  then show ?thesis using good_end [OF assms(1)] by (simp add: s_http_version_def)
qed

lemma good_http_authorization:
  assumes "arrays_ok p" "watching AUTHORIZATION p" "se_alloc env"
  shows "good (s_http_authorization env c p owner)"
proof -
  have "good (bindR (string_feed p c) (\<lambda>(p, type).
      if type = STRING_CMP_EQ
      then bindR (set_string_parser env BASIC p) (\<lambda>p. Inr (p, sniff_http_authorization_basic))
      else search_on sniff_http_authorization p type))"
    using assms
    by (intro good_search good_set string_room)
      (auto simp: sniff_inv_state arrays_ok_def watching_new index_free)
  then show ?thesis using good_end [OF assms(1)] by (simp add: s_http_authorization_def)
qed

lemma good_http_authorization_basic:
  assumes "arrays_ok p" "watching BASIC p"
  shows "good (s_http_authorization_basic c p owner)"
proof -
  have "good (bindR (string_feed p c) (\<lambda>(p, type).
      if type = STRING_CMP_EQ then Inr (p\<lparr>sf_i := 0\<rparr>, sniff_http_authorization_value)
      else search_on sniff_http_authorization_basic p type))"
    using assms
    by (intro good_search) (auto simp: sniff_inv_state arrays_ok_def watching_def index_ok_def)
  then show ?thesis using good_end [OF assms(1)] by (simp add: s_http_authorization_basic_def)
qed

lemma good_pop3_origin_ack:
  assumes "arrays_ok p" "watching PLUS_OK p" "se_alloc env"
  shows "good (s_pop3_origin_ack env c p owner)"
proof -
  have "good (bindR (string_feed p c) (\<lambda>(p, type).
      if type = STRING_CMP_EQ
      then bindR (set_string_parser env USER p) (\<lambda>p. Inr (p, sniff_pop3_user_username))
      else search_on sniff_pop3_origin_ack p type))"
    using assms
    by (intro good_search good_set string_room)
      (auto simp: sniff_inv_state arrays_ok_def watching_new index_free)
  then show ?thesis using good_end [OF assms(1)] by (simp add: s_pop3_origin_ack_def)
qed

lemma good_pop3_user_username:
  assumes "arrays_ok p" "watching USER p"
  shows "good (s_pop3_user_username c p owner)"
proof -
  have "good (bindR (string_feed p c) (\<lambda>(p, type).
      if type = STRING_CMP_EQ then Inr (p\<lparr>sf_i := 0\<rparr>, sniff_pop3_user_username_value)
      else search_on sniff_pop3_user_username p type))"
    using assms
    by (intro good_search) (auto simp: sniff_inv_state arrays_ok_def watching_def index_ok_def)
  then show ?thesis using assms by (simp add: s_pop3_user_username_def sniff_inv_state index_free)
qed

lemma good_pop3_user_pass:
  assumes "arrays_ok p" "watching PASS p"
  shows "good (s_pop3_user_pass c p owner)"
proof -
  have "good (bindR (string_feed p c) (\<lambda>(p, type).
      if type = STRING_CMP_EQ then Inr (p\<lparr>sf_i := 0\<rparr>, sniff_pop3_user_pass_value)
      else search_on sniff_pop3_user_pass p type))"
    using assms
    by (intro good_search) (auto simp: sniff_inv_state arrays_ok_def watching_def index_ok_def)
  then show ?thesis using assms by (simp add: s_pop3_user_pass_def sniff_inv_state index_free)
qed

lemma good_dash:
  assumes "arrays_ok p" "watching s p" "s \<noteq> []" "length s + 2 \<le> MAX_STATES"
    "good (bindR (string_feed p c) (\<lambda>(p, type). if type = STRING_CMP_EQ then F p else search_on here p type))"
  shows "good (bindR (string_feed p c) (\<lambda>(p, type).
    if c = DASH then Inr (p, sniff_error) else if type = STRING_CMP_EQ then F p else search_on here p type))"
proof (cases "c = DASH")
  case True
  obtain sp k where sp: "sf_string_parser p = Some sp" "cmp_at s k sp" "k < length s"
    using assms(2,3) by (auto simp: watching_def)
  obtain type sp1 sp2 where "string_feed p c = Inr (with_sp p sp1, type)"
    using string_search [OF sp assms(4), of c] by blast
  then show ?thesis using True good_end(1) [of "with_sp p sp1"] assms(1) by simp
qed (use assms(5) in simp)

lemma good_pop3_origin_user_ack:
  assumes "arrays_ok p" "watching PLUS_OK p" "se_alloc env"
  shows "good (s_pop3_origin_user_ack env c p owner)"
proof -
  have "good (bindR (string_feed p c) (\<lambda>(p, type).
      if type = STRING_CMP_EQ
      then bindR (set_string_parser env PASS (p\<lparr>sf_i := 0\<rparr>)) (\<lambda>p. Inr (p, sniff_pop3_user_pass))
      else search_on sniff_pop3_origin_user_ack p type))"
    using assms
    by (intro good_search good_set string_room)
      (auto simp: sniff_inv_state arrays_ok_def watching_new index_free)
  from good_dash [OF assms(1,2) _ _ this] show ?thesis using assms
    by (simp add: s_pop3_origin_user_ack_def sniff_inv_state index_free MAX_STATES_def)
qed

lemma good_pop3_origin_pass_ack:
  assumes "arrays_ok p" "watching PLUS_OK p"
  shows "good (s_pop3_origin_pass_ack c p owner)"
proof -
  have "good (bindR (string_feed p c) (\<lambda>(p, type).
      if type = STRING_CMP_EQ then Inr (p\<lparr>sf_i := 0, sf_protocol := POP3\<rparr>, sniff_done)
      else search_on sniff_pop3_origin_pass_ack p type))"
    using assms
    by (intro good_search) (auto simp: sniff_inv_state arrays_ok_def watching_def index_ok_def)
  from good_dash [OF assms(1,2) _ _ this] show ?thesis using assms
    by (simp add: s_pop3_origin_pass_ack_def sniff_inv_state index_free MAX_STATES_def)
qed

lemma good_pop3_user_username_value:
  assumes "arrays_ok p" "0 \<le> sf_i p" "sf_i p \<le> 40" "se_alloc env"
  shows "good (s_pop3_user_username_value env c p owner)"
proof -
  have "good (bindR (set_string_parser env PLUS_OK (p\<lparr>sf_user := (sf_user p)[nat (sf_i p) := 0]\<rparr>)) (\<lambda>p.
      Inr (p, sniff_pop3_origin_user_ack)))"
    using assms by (intro good_set string_room)
      (auto simp: sniff_inv_state arrays_ok_def watching_new index_free)
  then show ?thesis using assms good_end [OF assms(1)]
    by (auto simp: s_pop3_user_username_value_def sniff_inv_state index_ok_def watching_def
        MAX_USER_LENGTH_def arrays_ok_def)
qed

lemma good_pop3_user_pass_value:
  assumes "arrays_ok p" "0 \<le> sf_i p" "sf_i p \<le> 40" "se_alloc env"
  shows "good (s_pop3_user_pass_value env c p owner)"
proof -
  have "good (bindR (set_string_parser env PLUS_OK (p\<lparr>sf_password := (sf_password p)[nat (sf_i p) := 0]\<rparr>)) (\<lambda>p.
      Inr (p, sniff_pop3_origin_pass_ack)))"
    using assms by (intro good_set string_room)
      (auto simp: sniff_inv_state arrays_ok_def watching_new index_free)
  then show ?thesis using assms good_end [OF assms(1)]
    by (auto simp: s_pop3_user_pass_value_def sniff_inv_state index_ok_def watching_def
        MAX_PASSWORD_LENGTH_def arrays_ok_def)
qed

section \<open>Decoded credentials\<close>

text \<open>A C string of at most 40 bytes stored at the start of an array of 41.\<close>

definition field :: "bytes \<Rightarrow> bytes \<Rightarrow> bytes" where
  "field dst s = (overwrite dst 0 (take 40 s))[length (take 40 s) := 0]"

lemma length_field [simp]: "length dst = 41 \<Longrightarrow> length (field dst s) = 41"
  by (simp add: field_def)

lemma cstr_field: "length dst = 41 \<Longrightarrow> 0 \<notin> set s \<Longrightarrow> cstr (field dst s) = take 40 s"
proof -
  assume a: "length dst = 41" "0 \<notin> set s"
  have "field dst s = take 40 s @ 0 # drop (Suc (length (take 40 s))) dst"
    using a(1) by (simp add: field_def overwrite_def list_update_append Cons_nth_drop_Suc [symmetric])
  moreover have "0 \<notin> set (take 40 s)" using a(2) by (meson in_set_takeD)
  ultimately show ?thesis by simp
qed

lemma copy_field_value:
  assumes "length dst = 41" "n = min 40 (length src - i)" "i \<le> length src"
  shows "copy_field dst src i n = Inr (field dst (drop i src))"
  using assms by (auto simp: copy_field_def field_def min_def)

lemma parse_user_value:
  assumes "arrays_ok p" "length (u @ COLON # w) < 2 ^ 60" "COLON \<notin> set u"
  shows "parse_user_and_password (u @ COLON # w) p =
     Inr (p\<lparr>sf_user := field (sf_user p) u, sf_password := field (sf_password p) w\<rparr>)"
proof -
  have i: "length (takeWhile (\<lambda>c. c \<noteq> COLON) (u @ COLON # w)) = length u"
    using assms(3) by (subst takeWhile_append2) auto
  have a: "length (sf_user p) = 41" "length (sf_password p) = 41" using assms(1) by (auto simp: arrays_ok_def)
  have r: "unat (word_of_nat (length (u @ COLON # w)) - word_of_nat (length u + 1) :: u64) = length w"
    using assms(2) by (simp add: unat_of_nat)
  have t: "take (if 40 < length u then 40 else length u) (u @ COLON # w) = take 40 u" by auto
  have "copy_field (sf_user p) (u @ COLON # w) 0 (if int (length u) > MAX_USER_LENGTH then nat MAX_USER_LENGTH else length u) =
      Inr (field (sf_user p) u)"
    using a(1) by (auto simp: copy_field_def field_def MAX_USER_LENGTH_def min_def)
  moreover have "copy_field (sf_password p) (u @ COLON # w) (length u + 1)
      (if int (length w) > MAX_PASSWORD_LENGTH then nat MAX_PASSWORD_LENGTH else length w) =
      Inr (field (sf_password p) w)"
    using a(2) by (subst copy_field_value) (auto simp: MAX_PASSWORD_LENGTH_def)
  ultimately show ?thesis unfolding parse_user_and_password_def Let_def i r by simp
qed

lemma parse_user_no_colon:
  assumes "COLON \<notin> set a" "length a < 2 ^ 60"
  shows "parse_user_and_password a p = Inl OutOfBounds"
proof -
  have i: "length (takeWhile (\<lambda>c. c \<noteq> COLON) a) = length a"
    using assms(1) by (subst takeWhile_eq_all_conv [THEN iffD2]) auto
  have "(word_of_nat (length a) - word_of_nat (length a + 1) :: u64) = - 1" by simp
  then have "unat (word_of_nat (length a) - word_of_nat (length a + 1) :: u64) = 2 ^ 64 - 1"
    by (simp only:) (simp add: unsigned_minus_1_eq_mask mask_eq_exp_minus_1)
  then show ?thesis unfolding parse_user_and_password_def Let_def i
    by (simp add: copy_field_def MAX_PASSWORD_LENGTH_def)
qed

text \<open>The header value collected so far decodes to something without a colon.\<close>

definition no_colon :: "sniff_env \<Rightarrow> sniffer_parser \<Rightarrow> bool" where
  "no_colon env p \<longleftrightarrow>
     sf_state p = sniff_http_authorization_value \<and>
     (case base64_decode (se_malloc env) (take (nat (sf_i p)) (sf_auth_value p)) of
        Inr (Some a) \<Rightarrow> COLON \<notin> set a
      | _ \<Rightarrow> False)"

lemma decode_short:
  "case base64_decode malloc src of Inl _ \<Rightarrow> False | Inr None \<Rightarrow> True | Inr (Some out) \<Rightarrow> length out \<le> length src"
  using base64_decode_bound [where malloc = malloc and src = src] by (auto split: sum.splits option.splits)

lemma good_auth_value:
  assumes "sniff_inv p" "sf_state p = sniff_http_authorization_value" "\<not> no_colon env p"
  shows "good (s_http_authorization_value env c p owner)"
proof -
  have p: "arrays_ok p" "0 \<le> sf_i p" "sf_i p \<le> 1024"
    using assms(1,2) by (auto simp: sniff_inv_def index_ok_def)
  have "good (decode_and_parse_auth env (p\<lparr>sf_auth_value := (sf_auth_value p)[nat (sf_i p) := 0]\<rparr>))"
  proof -
    let ?p = "p\<lparr>sf_auth_value := (sf_auth_value p)[nat (sf_i p) := 0]\<rparr>"
    let ?src = "take (nat (sf_i p)) (sf_auth_value p)"
    have s: "take (nat (sf_i ?p)) (sf_auth_value ?p) = ?src" by simp
    have ok: "arrays_ok ?p" using p(1) by (simp add: arrays_ok_def)
    consider "base64_decode (se_malloc env) ?src = Inr None"
      | a where "base64_decode (se_malloc env) ?src = Inr (Some a)" "length a \<le> length ?src"
      using decode_short [where malloc = "se_malloc env" and src = ?src] by (auto split: sum.splits option.splits)
    then show ?thesis
    proof cases
      case 1
      then show ?thesis using good_end [OF ok] by (simp add: decode_and_parse_auth_def)
    next
      case 2
      then have "COLON \<in> set a" using assms(2,3) by (simp add: no_colon_def)
      then obtain u w where a: "a = u @ COLON # w" "COLON \<notin> set u" by (meson split_list_first)
      have "length a < 2 ^ 60" using 2(2) p by (auto simp: arrays_ok_def)
      then show ?thesis
        using 2(1) parse_user_value [OF ok _ a(2), of w] ok
        by (simp add: decode_and_parse_auth_def a(1) sniff_inv_state arrays_ok_def watching_def index_ok_def)
    qed
  qed
  then show ?thesis using p good_end [OF p(1)]
    by (auto simp: s_http_authorization_value_def sniff_inv_state index_ok_def watching_def
        MAX_AUTH_VALUE_LENGTH_def arrays_ok_def)
qed

lemma good_start:
  assumes "arrays_ok p" "sf_state p = sniff_start" "se_alloc env"
  shows "good (s_start env c p owner port)"
proof -
  have a: "arrays_ok (with_sp (p\<lparr>sf_parser_is_set := True\<rparr>) sp)" for sp using assms(1) by (simp add: arrays_ok_def)
  have "good (bindR (set_string_parser env PLUS_OK p) (\<lambda>p. s_pop3_origin_ack env c p owner))"
    "good (bindR (set_string_parser env HTTP_1 p) (\<lambda>p. s_http_version env c p owner))"
    using assms(3) a watching_new
    by (auto intro!: good_set string_room good_pop3_origin_ack good_http_version)
  then show ?thesis using assms(1) by (simp add: s_start_def sniff_inv_state watching_def index_ok_def)
qed

lemma sniffer_step_good:
  assumes "sniff_inv p" "se_alloc env" "\<not> no_colon env p"
  shows "good (sniffer_step env c p owner port)"
proof -
  have i: "arrays_ok p" "watching (target (sf_state p)) p" "index_ok (sf_state p) (sf_i p)"
    using assms(1) by (auto simp: sniff_inv_def)
  show ?thesis
    using i assms good_start [OF i(1) _ assms(2)] good_http_version [OF i(1) _ assms(2)]
      good_http_authorization [OF i(1) _ assms(2)] good_http_authorization_basic [OF i(1)]
      good_auth_value [OF assms(1) _ assms(3)] good_pop3_origin_ack [OF i(1) _ assms(2)]
      good_pop3_user_username [OF i(1)] good_pop3_user_username_value [OF i(1) _ _ assms(2)]
      good_pop3_origin_user_ack [OF i(1) _ assms(2)] good_pop3_user_pass [OF i(1)]
      good_pop3_user_pass_value [OF i(1) _ _ assms(2)] good_pop3_origin_pass_ack [OF i(1)]
    by (cases "sf_state p") (simp_all add: sniffer_step_def index_ok_def sniff_inv_state watching_def)
qed

section \<open>Whole searches\<close>

text \<open>What a search state does when its string is complete, and the bytes it compares at all.\<close>

fun found :: "sniff_env \<Rightarrow> sniffer_state \<Rightarrow> sniffer_parser \<Rightarrow> sniff_result" where
  "found env sniff_http_version p =
     bindR (set_string_parser env AUTHORIZATION p) (\<lambda>p. Inr (p, sniff_http_authorization))"
| "found env sniff_http_authorization p =
     bindR (set_string_parser env BASIC p) (\<lambda>p. Inr (p, sniff_http_authorization_basic))"
| "found env sniff_http_authorization_basic p = Inr (p\<lparr>sf_i := 0\<rparr>, sniff_http_authorization_value)"
| "found env sniff_pop3_origin_ack p =
     bindR (set_string_parser env USER p) (\<lambda>p. Inr (p, sniff_pop3_user_username))"
| "found env sniff_pop3_user_username p = Inr (p\<lparr>sf_i := 0\<rparr>, sniff_pop3_user_username_value)"
| "found env sniff_pop3_origin_user_ack p =
     bindR (set_string_parser env PASS (p\<lparr>sf_i := 0\<rparr>)) (\<lambda>p. Inr (p, sniff_pop3_user_pass))"
| "found env sniff_pop3_user_pass p = Inr (p\<lparr>sf_i := 0\<rparr>, sniff_pop3_user_pass_value)"
| "found env sniff_pop3_origin_pass_ack p = Inr (p\<lparr>sf_i := 0, sf_protocol := POP3\<rparr>, sniff_done)"
| "found env s p = Inr (p, s)"

fun speaks :: "sniffer_state \<Rightarrow> int \<Rightarrow> u8 \<Rightarrow> bool" where
  "speaks sniff_http_version owner c \<longleftrightarrow> owner \<noteq> ORIGIN_OWNED \<and> c \<noteq> CR"
| "speaks sniff_http_authorization owner c \<longleftrightarrow> owner \<noteq> ORIGIN_OWNED"
| "speaks sniff_http_authorization_basic owner c \<longleftrightarrow> owner \<noteq> ORIGIN_OWNED \<and> c \<noteq> CR"
| "speaks sniff_pop3_origin_ack owner c \<longleftrightarrow> owner \<noteq> CLIENT_OWNED"
| "speaks sniff_pop3_user_username owner c \<longleftrightarrow> owner \<noteq> ORIGIN_OWNED"
| "speaks sniff_pop3_origin_user_ack owner c \<longleftrightarrow> owner \<noteq> CLIENT_OWNED \<and> c \<noteq> DASH"
| "speaks sniff_pop3_user_pass owner c \<longleftrightarrow> owner \<noteq> ORIGIN_OWNED"
| "speaks sniff_pop3_origin_pass_ack owner c \<longleftrightarrow> owner \<noteq> CLIENT_OWNED \<and> c \<noteq> DASH"
| "speaks _ owner c \<longleftrightarrow> False"

lemma handler_search:
  "speaks here owner c \<Longrightarrow> sf_state p = here \<Longrightarrow>
   sniffer_step env c p owner port =
     bindR (string_feed p c) (\<lambda>(q, type).
       if type = STRING_CMP_EQ then found env here q else search_on here q type)"
  by (induction here; cases "string_feed p c") (auto simp add: sniffer_step_def handler_defs)

definition comparing :: "bytes \<Rightarrow> nat \<Rightarrow> sniffer_parser \<Rightarrow> bool" where
  "comparing s k p \<longleftrightarrow> (\<exists>sp. sf_string_parser p = Some sp \<and> cmp_at s k sp)"

lemma target_room: "length (target s) + 2 \<le> MAX_STATES"
  by (cases s) (simp_all add: MAX_STATES_def)

text \<open>The state after the last byte of the string.\<close>

definition arrive :: "sniff_env \<Rightarrow> sniffer_state \<Rightarrow> sniffer_parser \<Rightarrow> fault + sniffer_parser" where
  "arrive env here p = bindR (found env here p) (\<lambda>(p, next). Inr (p\<lparr>sf_state := next\<rparr>))"

lemma search_byte:
  assumes "speaks here owner c" "sf_state p = here" "comparing (target here) k p" "k < length (target here)"
  shows "\<exists>sp. sniffer_parser_feed env c p owner port =
      (if search_next (target here) k c = length (target here) then arrive env here (with_sp p sp)
       else Inr (with_sp p sp)) \<and>
     (search_next (target here) k c \<noteq> length (target here) \<longrightarrow>
        comparing (target here) (search_next (target here) k c) (with_sp p sp))"
proof -
  obtain sp where sp: "sf_string_parser p = Some sp" "cmp_at (target here) k sp"
    using assms(3) by (auto simp: comparing_def)
  obtain type sp1 sp2 where f: "string_feed p c = Inr (with_sp p sp1, type)"
      "type = STRING_CMP_EQ \<longleftrightarrow> search_next (target here) k c = length (target here)"
      "\<And>h. type \<noteq> STRING_CMP_EQ \<Longrightarrow> search_on h (with_sp p sp1) type = Inr (with_sp p sp2, h)"
      "search_next (target here) k c < length (target here) \<longrightarrow>
         cmp_at (target here) (search_next (target here) k c) sp2"
    using string_search [OF sp assms(4) target_room, of c] by blast
  have id: "with_sp p sp2\<lparr>sf_state := here\<rparr> = with_sp p sp2" using assms(2) by (simp add: with_sp_def)
  show ?thesis
  proof (cases "type = STRING_CMP_EQ")
    case True
    then show ?thesis using f(1,2) handler_search [OF assms(1,2), of env port]
      by (intro exI [of _ sp1]) (simp add: sniffer_parser_feed_def arrive_def)
  next
    case False
    then show ?thesis using f handler_search [OF assms(1,2), of env port] id search_next_bound [OF assms(4), of c]
      by (intro exI [of _ sp2]) (simp add: sniffer_parser_feed_def comparing_def)
  qed
qed

lemma search_hit:
  "\<forall>c\<in>set cs. speaks here owner c \<Longrightarrow> sf_state p = here \<Longrightarrow> comparing (target here) k p \<Longrightarrow>
   k < length (target here) \<Longrightarrow> map tolower cs = map tolower (drop k (target here)) \<Longrightarrow>
   \<exists>sp. sniff_all env port p (map (Pair owner) cs) = arrive env here (with_sp p sp)"
proof (induction cs arbitrary: p k)
  case Nil
  then show ?case by simp
next
  case (Cons c cs)
  let ?s = "target here"
  have d: "drop k ?s = ?s ! k # drop (Suc k) ?s" using Cons.prems(4) by (simp add: Cons_nth_drop_Suc)
  then have n: "search_next ?s k c = Suc k" using Cons.prems(4,5) by (simp add: search_next_def cmp_next_def)
  obtain sp where sp: "sniffer_parser_feed env c p owner port =
      (if search_next ?s k c = length ?s then arrive env here (with_sp p sp) else Inr (with_sp p sp))"
     "search_next ?s k c \<noteq> length ?s \<longrightarrow> comparing ?s (search_next ?s k c) (with_sp p sp)"
    using search_byte [of here owner c p k env port] Cons.prems(1-4) by auto
  show ?case
  proof (cases "Suc k = length ?s")
    case True
    then have "cs = []" using Cons.prems(5) d by simp
    then show ?thesis using sp(1) n True by (intro exI [of _ sp]) simp
  next
    case False
    then show ?thesis
      using Cons.IH [of "with_sp p sp" "Suc k"] Cons.prems sp n d by simp
  qed
qed

lemma sniff_all_append:
  "sniff_all env port p (xs @ ys) = bindR (sniff_all env port p xs) (\<lambda>p. sniff_all env port p ys)"
  by (induction xs arbitrary: p) (auto simp: bindR_assoc)

lemma sniff_inv_new: "sniff_inv (sniffer_parser_init raw)"
  by (simp add: sniffer_parser_init_def sniff_inv_def arrays_ok_def watching_def index_ok_def)

lemma sniff_inv_http:
  assumes "se_alloc env"
  obtains sp where "modify_sniffer_state env (sniffer_parser_init raw) sniff_http_authorization =
      Inr (with_sp (sniffer_parser_init raw\<lparr>sf_state := sniff_http_authorization, sf_parser_is_set := True\<rparr>) sp)"
    "cmp_at AUTHORIZATION 0 sp"
    "sniff_inv (with_sp (sniffer_parser_init raw\<lparr>sf_state := sniff_http_authorization, sf_parser_is_set := True\<rparr>) sp)"
proof -
  obtain sp where sp: "set_string_parser env AUTHORIZATION (sniffer_parser_init raw\<lparr>sf_state := sniff_http_authorization\<rparr>) =
      Inr (with_sp (sniffer_parser_init raw\<lparr>sf_state := sniff_http_authorization, sf_parser_is_set := True\<rparr>) sp)"
      "cmp_at AUTHORIZATION 0 sp"
    using set_string_parser_value [OF assms string_room(3),
        of "sniffer_parser_init raw\<lparr>sf_state := sniff_http_authorization\<rparr>"] by auto
  show thesis
    using that [of sp] sp sniff_inv_new [of raw] watching_new [OF sp(2)]
    by (simp add: modify_sniffer_state_def sniff_inv_def arrays_ok_def index_ok_def)
qed

lemma auth_value_fault_at_CR:
  assumes "sniff_inv p" "sf_state p = sniff_http_authorization_value" "c \<noteq> CR"
  shows "good (s_http_authorization_value env c p owner)"
proof -
  have p: "arrays_ok p" "0 \<le> sf_i p" "sf_i p \<le> 1024"
    using assms(1,2) by (auto simp: sniff_inv_def index_ok_def)
  then show ?thesis using assms(3) good_end [OF p(1)]
    by (auto simp: s_http_authorization_value_def sniff_inv_state index_ok_def watching_def
        MAX_AUTH_VALUE_LENGTH_def arrays_ok_def)
qed

lemma feed_good:
  assumes "sniff_inv p" "se_alloc env" "\<not> (no_colon env p \<and> c = CR)"
  shows "\<exists>q. sniffer_parser_feed env c p owner port = Inr q \<and> sniff_inv q"
proof -
  have "good (sniffer_step env c p owner port)"
    using sniffer_step_good [OF assms(1,2)] auth_value_fault_at_CR [OF assms(1)] assms(3)
    by (cases "no_colon env p") (auto simp: no_colon_def sniffer_step_def)
  then show ?thesis by (auto simp: good_def sniffer_parser_feed_def)
qed

lemma no_colon_end:
  assumes "sniff_inv p" "no_colon env p" "sniffer_parser_feed env CR p owner port = Inr q"
  shows "sniff_inv q"
proof -
  have p: "arrays_ok p" "0 \<le> sf_i p" "sf_i p \<le> 1024" "sf_state p = sniff_http_authorization_value"
    using assms(1,2) by (auto simp: sniff_inv_def index_ok_def no_colon_def)
  let ?src = "take (nat (sf_i p)) (sf_auth_value p)"
  obtain a where a: "base64_decode (se_malloc env) ?src = Inr (Some a)" "COLON \<notin> set a"
    using assms(2) by (auto simp: no_colon_def split: sum.splits option.splits)
  have "length a < 2 ^ 60" using decode_short [where malloc = "se_malloc env" and src = ?src] a(1) p by (auto simp: arrays_ok_def)
  then have "s_http_authorization_value env CR p owner = Inr (p, sniff_error) \<or>
      s_http_authorization_value env CR p owner = Inl OutOfBounds"
    using p a parse_user_no_colon [OF a(2)]
    by (auto simp: s_http_authorization_value_def decode_and_parse_auth_def is_space_def arrays_ok_def
        MAX_AUTH_VALUE_LENGTH_def)
  then show ?thesis using assms(3) good_end(1) [OF p(1)] p(4)
    by (auto simp: sniffer_parser_feed_def sniffer_step_def)
qed

lemma sniff_all_good:
  assumes "sniff_inv p" "se_alloc env"
  shows "case sniff_all env port p es of
     Inr q \<Rightarrow> sniff_inv q
   | Inl e \<Rightarrow> \<exists>n q. n < length es \<and> sniff_all env port p (take n es) = Inr q \<and> no_colon env q \<and> snd (es ! n) = CR"
  using assms(1)
proof (induction es arbitrary: p)
  case Nil
  then show ?case by simp
next
  case (Cons oc es)
  obtain ow c where oc: "oc = (ow, c)" by fastforce
  show ?case
  proof (cases "sniffer_parser_feed env c p ow port")
    case (Inl f)
    then have "no_colon env p \<and> c = CR" using feed_good [OF Cons.prems assms(2), of c ow port] by auto
    then show ?thesis using Inl by (auto simp: oc intro!: exI [of _ "0::nat"])
  next
    case (Inr q)
    then have q: "sniff_inv q"
      using feed_good [OF Cons.prems assms(2), of c ow port] no_colon_end [OF Cons.prems] by fastforce
    show ?thesis
    proof (cases "sniff_all env port q es")
      case (Inr r)
      then show ?thesis using Cons.IH [OF q] \<open>sniffer_parser_feed env c p ow port = Inr q\<close> by (simp add: oc)
    next
      case (Inl e)
      then obtain n r where "n < length es" "sniff_all env port q (take n es) = Inr r" "no_colon env r" "snd (es ! n) = CR"
        using Cons.IH [OF q] by auto
      then show ?thesis using Inl \<open>sniffer_parser_feed env c p ow port = Inr q\<close>
        by (auto simp: oc intro!: exI [of _ "Suc n"])
    qed
  qed
qed

text \<open>The position of a search after some bytes, and searches that do not end.\<close>

definition searching :: "bytes \<Rightarrow> bytes \<Rightarrow> nat" where
  "searching s cs = fold (\<lambda>c k. search_next s k c) cs 0"

definition unmatched :: "bytes \<Rightarrow> bytes \<Rightarrow> bool" where
  "unmatched s cs \<longleftrightarrow> (\<forall>n\<in>set [0..<Suc (length cs)]. searching s (take n cs) \<noteq> length s)"

lemma searching_snoc: "searching s (cs @ [c]) = search_next s (searching s cs) c"
  by (simp add: searching_def)

lemma unmatched_snoc:
  "unmatched s (cs @ [c]) \<longleftrightarrow> unmatched s cs \<and> searching s (cs @ [c]) \<noteq> length s"
  by (auto simp: unmatched_def less_Suc_eq)

lemma unmatched_bound: "s \<noteq> [] \<Longrightarrow> unmatched s cs \<Longrightarrow> searching s cs < length s"
proof (induction cs rule: rev_induct)
  case Nil
  then show ?case by (simp add: searching_def)
next
  case (snoc c cs)
  then show ?case using search_next_bound [of "searching s cs" s c]
    by (auto simp: unmatched_snoc searching_snoc)
qed

lemma unmatched_delimited:
  assumes "d \<notin> set (map tolower s)" "tolower d = d" "cs = [] \<or> last cs = d" "s \<noteq> []" "unmatched s cs"
  shows "searching s cs = 0"
proof (cases cs rule: rev_cases)
  case Nil
  then show ?thesis by (simp add: searching_def)
next
  case (snoc cs' c)
  then have "searching s cs' < length s" using assms(4,5) unmatched_bound by (auto simp: unmatched_snoc)
  then have "tolower (s ! searching s cs') \<noteq> tolower c"
    using assms(1-3) snoc by (metis in_set_conv_nth last_snoc length_map nth_map snoc_eq_iff_butlast)
  then show ?thesis using snoc by (simp add: searching_snoc search_next_def cmp_next_def)
qed

lemma search_stays:
  assumes "\<forall>c\<in>set cs. speaks here owner c" "sf_state p = here" "sf_string_parser p = Some sp0"
    "cmp_at (target here) 0 sp0" "target here \<noteq> []" "unmatched (target here) cs"
  shows "\<exists>sp. sniff_all env port p (map (Pair owner) cs) = Inr (with_sp p sp) \<and>
     cmp_at (target here) (searching (target here) cs) sp"
  using assms(1,6)
proof (induction cs rule: rev_induct)
  case Nil
  then show ?case using assms(3,4) by (intro exI [of _ sp0]) (simp add: searching_def with_sp_def)
next
  case (snoc c cs)
  let ?s = "target here"
  obtain sp where sp: "sniff_all env port p (map (Pair owner) cs) = Inr (with_sp p sp)"
      "cmp_at ?s (searching ?s cs) sp"
    using snoc by (auto simp: unmatched_snoc)
  have "searching ?s cs < length ?s" using unmatched_bound [OF assms(5)] snoc.prems by (simp add: unmatched_snoc)
  moreover have "search_next ?s (searching ?s cs) c \<noteq> length ?s"
    using snoc.prems by (simp add: unmatched_snoc searching_snoc)
  ultimately obtain sp' where "sniffer_parser_feed env c (with_sp p sp) owner port = Inr (with_sp p sp')"
      "comparing ?s (search_next ?s (searching ?s cs) c) (with_sp p sp')"
    using search_byte [of here owner c "with_sp p sp" "searching ?s cs" env port] snoc.prems assms(2) sp(2)
    by (auto simp: comparing_def)
  then show ?case using sp(1) by (intro exI [of _ sp']) (simp add: sniff_all_append searching_snoc comparing_def)
qed

text \<open>A search that passes over some bytes and then meets its string.\<close>

lemma search_passes:
  assumes "\<forall>c\<in>set (cs @ name). speaks here owner c" "sf_state p = here" "sf_string_parser p = Some sp0"
    "cmp_at (target here) 0 sp0" "target here \<noteq> []" "unmatched (target here) cs"
    "searching (target here) cs = 0" "map tolower name = map tolower (target here)"
  shows "\<exists>sp. sniff_all env port p (map (Pair owner) (cs @ name)) = arrive env here (with_sp p sp)"
proof -
  obtain sp where sp: "sniff_all env port p (map (Pair owner) cs) = Inr (with_sp p sp)" "cmp_at (target here) 0 sp"
    using search_stays [OF _ assms(2-6), of owner env port] assms(1,7) by auto
  obtain sp' where "sniff_all env port (with_sp p sp) (map (Pair owner) name) = arrive env here (with_sp (with_sp p sp) sp')"
    using search_hit [of name here owner "with_sp p sp" 0 env port] assms(1,2,5,8) sp(2) by (auto simp: comparing_def)
  then show ?thesis using sp(1) by (auto simp: sniff_all_append)
qed

section \<open>A basic authorization in a request\<close>

lemma auth_char:
  assumes "sf_state p = sniff_http_authorization_value" "sf_i p = int i" "i < 1024"
    "length (sf_auth_value p) = 1025" "is_space c \<or> is_base_64 c"
  shows "sniffer_parser_feed env c p CLIENT_OWNED port =
    Inr (if is_space c then p else p\<lparr>sf_auth_value := (sf_auth_value p)[i := c], sf_i := int (Suc i)\<rparr>)"
proof -
  have "c \<noteq> CR" using assms(5) by (auto simp: is_space_def is_base_64_def is_digit_def is_alpha_def)
  then show ?thesis using assms
    by (auto simp: sniffer_parser_feed_def sniffer_step_def s_http_authorization_value_def
        CLIENT_OWNED_def ORIGIN_OWNED_def MAX_AUTH_VALUE_LENGTH_def)
qed

lemma auth_chars:
  assumes "\<forall>c\<in>set cs. is_space c \<or> is_base_64 c"
  shows "sf_state p = sniff_http_authorization_value \<Longrightarrow> sf_i p = int i \<Longrightarrow>
   i + length (filter (\<lambda>c. \<not> is_space c) cs) < 1024 \<Longrightarrow> length (sf_auth_value p) = 1025 \<Longrightarrow>
   sniff_all env port p (map (Pair CLIENT_OWNED) cs) =
     Inr (p\<lparr>sf_auth_value := overwrite (sf_auth_value p) i (filter (\<lambda>c. \<not> is_space c) cs),
            sf_i := int (i + length (filter (\<lambda>c. \<not> is_space c) cs))\<rparr>)"
  using assms
proof (induction cs arbitrary: p i)
  case Nil
  then show ?case by (cases p) simp
next
  case (Cons c cs)
  show ?case
  proof (cases "is_space c")
    case True
    then show ?thesis using Cons auth_char [of p i c env port] by simp
  next
    case False
    let ?p = "p\<lparr>sf_auth_value := (sf_auth_value p)[i := c], sf_i := int (Suc i)\<rparr>"
    have "sniff_all env port ?p (map (Pair CLIENT_OWNED) cs) =
        Inr (?p\<lparr>sf_auth_value := overwrite (sf_auth_value ?p) (Suc i) (filter (\<lambda>c. \<not> is_space c) cs),
                sf_i := int (Suc i + length (filter (\<lambda>c. \<not> is_space c) cs))\<rparr>)"
      using Cons.prems False by (intro Cons.IH) simp_all
    then show ?thesis
      using Cons.prems False auth_char [of p i c env port] overwrite_Cons [of i "sf_auth_value p" c]
      by (simp add: ac_simps)
  qed
qed

lemma auth_end:
  assumes "sf_state p = sniff_http_authorization_value" "sf_i p = int (length v)" "length v < 1024"
    "length (sf_auth_value p) = 1025" "take (length v) (sf_auth_value p) = v"
    "base64_decode (se_malloc env) v = Inr (Some a)"
  shows "sniffer_parser_feed env CR p CLIENT_OWNED port =
    bindR (parse_user_and_password a (p\<lparr>sf_auth_value := (sf_auth_value p)[length v := 0]\<rparr>)) (\<lambda>p.
      Inr (p\<lparr>sf_protocol := HTTP, sf_state := sniff_done\<rparr>))"
  using assms
  by (simp add: sniffer_parser_feed_def sniffer_step_def s_http_authorization_value_def is_space_def
      CLIENT_OWNED_def ORIGIN_OWNED_def MAX_AUTH_VALUE_LENGTH_def decode_and_parse_auth_def bindR_assoc)

text \<open>Bytes that do not occur in a string do not advance its search.\<close>

lemma foreign_searching: "s \<noteq> [] \<Longrightarrow> \<forall>c\<in>set cs. tolower c \<notin> set (map tolower s) \<Longrightarrow> searching s cs = 0"
proof (induction cs rule: rev_induct)
  case Nil
  then show ?case by (simp add: searching_def)
next
  case (snoc c cs)
  then have "tolower c \<notin> set (map tolower s)" by simp
  then have "tolower (s ! 0) \<noteq> tolower c"
    using snoc.prems(1) by (metis length_greater_0_conv length_map nth_map nth_mem)
  then show ?case using snoc by (simp add: searching_snoc search_next_def cmp_next_def)
qed

lemma foreign_unmatched: "s \<noteq> [] \<Longrightarrow> \<forall>c\<in>set cs. tolower c \<notin> set (map tolower s) \<Longrightarrow> unmatched s cs"
proof (induction cs rule: rev_induct)
  case Nil
  then show ?case by (simp add: unmatched_def searching_def)
next
  case (snoc c cs)
  then show ?case using foreign_searching [OF snoc.prems] by (simp add: unmatched_snoc)
qed

text \<open>
  A header field as the sniffer reads it: bytes without the name, then the name, spaces, the scheme,
  spaces, the credentials in base64, and a carriage return.
\<close>

definition basic_request :: "bytes \<Rightarrow> bytes \<Rightarrow> bytes \<Rightarrow> bytes \<Rightarrow> bytes \<Rightarrow> bytes \<Rightarrow> (int \<times> u8) list" where
  "basic_request before name sp1 scheme sp2 value =
     map (Pair CLIENT_OWNED) (before @ name @ sp1 @ scheme @ sp2 @ filter (\<lambda>c. c \<noteq> LF) value @ [CR])"

definition basic_header :: "bytes \<Rightarrow> bytes \<Rightarrow> bytes \<Rightarrow> bytes \<Rightarrow> bytes \<Rightarrow> bool" where
  "basic_header before name sp1 scheme sp2 \<longleftrightarrow>
     unmatched AUTHORIZATION before \<and> (before = [] \<or> last before = LF) \<and>
     map tolower name = map tolower AUTHORIZATION \<and> map tolower scheme = map tolower BASIC \<and>
     (\<forall>c\<in>set (sp1 @ sp2). is_space c)"

lemma tolower_CR [simp]: "tolower c = CR \<longleftrightarrow> c = CR"
  by (auto simp: tolower_def word_le_nat_alt unat_arith_simps split: if_splits)

lemma scheme_search:
  assumes "map tolower scheme = map tolower BASIC" "\<forall>c\<in>set sp1. is_space c"
  shows "\<forall>c\<in>set (sp1 @ scheme). c \<noteq> CR" "\<forall>c\<in>set sp1. tolower c \<notin> set (map tolower BASIC)"
proof -
  have "CR \<notin> set (map tolower BASIC)" by (simp add: BASIC_def tolower_def)
  then have "CR \<notin> set scheme" using assms(1) tolower_CR by (metis image_eqI list.set_map)
  then show "\<forall>c\<in>set (sp1 @ scheme). c \<noteq> CR" using assms(2) by (auto simp: is_space_def)
  show "\<forall>c\<in>set sp1. tolower c \<notin> set (map tolower BASIC)"
    using assms(2) by (auto simp: is_space_def BASIC_def tolower_def)
qed

lemma arrive_set:
  assumes "se_alloc env" "length s + 2 \<le> MAX_STATES"
  shows "\<exists>sp. bindR (bindR (set_string_parser env s p) (\<lambda>p. Inr (p, next))) (\<lambda>(p, next). Inr (p\<lparr>sf_state := next\<rparr>)) =
     Inr (with_sp (p\<lparr>sf_parser_is_set := True, sf_state := next\<rparr>) sp) \<and> cmp_at s 0 sp"
proof -
  obtain sp where "set_string_parser env s p = Inr (with_sp (p\<lparr>sf_parser_is_set := True\<rparr>) sp)" "cmp_at s 0 sp"
    using set_string_parser_value [OF assms] by blast
  then show ?thesis by (intro exI [of _ sp]) (simp add: with_sp_def)
qed

text \<open>The run up to the carriage return that ends the credentials.\<close>

lemma basic_run:
  assumes "se_alloc env" "\<And>n. se_malloc env n" "basic_header before name sp1 scheme sp2"
    "base64_encode (se_malloc env) a = Inr (Some s)" "a \<noteq> []" "length (filter (\<lambda>c. c \<noteq> LF) s) < 1024"
    "length a < 2 ^ 60"
    "modify_sniffer_state env (sniffer_parser_init raw) sniff_http_authorization = Inr p"
  shows "\<exists>q. arrays_ok q \<and> sniff_all env port p (basic_request before name sp1 scheme sp2 s) =
    bindR (parse_user_and_password a q) (\<lambda>q. Inr (q\<lparr>sf_protocol := HTTP, sf_state := sniff_done\<rparr>))"
proof -
  let ?v = "filter (\<lambda>c. c \<noteq> LF) s"
  have h: "unmatched AUTHORIZATION before" "before = [] \<or> last before = LF"
      "map tolower name = map tolower AUTHORIZATION" "map tolower scheme = map tolower BASIC"
      "\<forall>c\<in>set sp1. is_space c" "\<forall>c\<in>set sp2. is_space c"
    using assms(3) by (auto simp: basic_header_def)
  obtain sp0 where sp0: "p = with_sp (sniffer_parser_init raw\<lparr>sf_state := sniff_http_authorization, sf_parser_is_set := True\<rparr>) sp0"
      "cmp_at AUTHORIZATION 0 sp0" "sniff_inv p"
    using assms(8) by (metis (no_types) sniff_inv_http [OF assms(1), of raw] sum.inject(2))
  then have p: "sf_state p = sniff_http_authorization" "arrays_ok p"
      "sf_string_parser p = Some sp0" "cmp_at AUTHORIZATION 0 sp0"
    by (simp_all add: sniff_inv_def)
  have lf: "LF \<notin> set (map tolower AUTHORIZATION)" "tolower LF = LF"
    by (simp_all add: AUTHORIZATION_def tolower_def)
  have "searching AUTHORIZATION before = 0"
    using unmatched_delimited [OF lf] h(1,2) by simp
  then obtain sp where "sniff_all env port p (map (Pair CLIENT_OWNED) (before @ name)) =
      arrive env sniff_http_authorization (with_sp p sp)"
    using search_passes [of before name sniff_http_authorization CLIENT_OWNED p sp0 env port] p h(1,3)
    by (auto simp: CLIENT_OWNED_def ORIGIN_OWNED_def)
  then obtain p1 sp1' where p1: "sniff_all env port p (map (Pair CLIENT_OWNED) (before @ name)) = Inr p1"
      "sf_state p1 = sniff_http_authorization_basic" "arrays_ok p1" "sf_string_parser p1 = Some sp1'"
      "cmp_at BASIC 0 sp1'"
    using arrive_set [OF assms(1) string_room(4), of "with_sp p sp" sniff_http_authorization_basic] p(2)
    by (auto simp: arrive_def arrays_ok_def)
  have "searching BASIC sp1 = 0" "unmatched BASIC sp1"
    using scheme_search(2) [OF h(4,5)] foreign_searching foreign_unmatched by auto
  then obtain sp where "sniff_all env port p1 (map (Pair CLIENT_OWNED) (sp1 @ scheme)) =
      arrive env sniff_http_authorization_basic (with_sp p1 sp)"
    using search_passes [of sp1 scheme sniff_http_authorization_basic CLIENT_OWNED p1 sp1' env port]
      p1 scheme_search(1) [OF h(4,5)] h(4)
    by (auto simp: CLIENT_OWNED_def ORIGIN_OWNED_def)
  then obtain p2 where p2: "sniff_all env port p1 (map (Pair CLIENT_OWNED) (sp1 @ scheme)) = Inr p2"
      "sf_state p2 = sniff_http_authorization_value" "arrays_ok p2" "sf_i p2 = 0"
    using p1(3) by (auto simp: arrive_def arrays_ok_def)
  have b: "\<forall>c\<in>set ?v. is_base_64 c" using encode_chars [OF assms(4)] by auto
  then have v: "filter (\<lambda>c. \<not> is_space c) ?v = ?v"
    by (intro filter_True) (auto simp: is_space_def is_base_64_def is_digit_def is_alpha_def)
  have "filter (\<lambda>c. \<not> is_space c) (sp2 @ ?v) = ?v"
    unfolding filter_append v using h(6) by simp
  then obtain q where q: "sniff_all env port p2 (map (Pair CLIENT_OWNED) (sp2 @ ?v)) = Inr q"
      "q = p2\<lparr>sf_auth_value := overwrite (sf_auth_value p2) 0 ?v, sf_i := int (length ?v)\<rparr>"
    using auth_chars [of "sp2 @ ?v" p2 0 env port] p2(2-4) h(6) b assms(6) by (auto simp: arrays_ok_def)
  have "base64_decode (se_malloc env) s = Inr (Some a)"
    using decode_encode [where malloc = "se_malloc env", OF assms(5,7)] assms(2,4) by auto
  then have d: "base64_decode (se_malloc env) ?v = Inr (Some a)" by (simp only: decode_lf_free)
  have a: "length (sf_auth_value p2) = 1025" using p2(3) by (simp add: arrays_ok_def)
  let ?q = "q\<lparr>sf_auth_value := (sf_auth_value q)[length ?v := 0]\<rparr>"
  have "sniffer_parser_feed env CR q CLIENT_OWNED port =
      bindR (parse_user_and_password a ?q) (\<lambda>p. Inr (p\<lparr>sf_protocol := HTTP, sf_state := sniff_done\<rparr>))"
    using q(2) p2(2) a assms(6) take_overwrite [of 0 ?v "sf_auth_value p2"] by (intro auth_end d) simp_all
  moreover have "arrays_ok ?q" using q(2) p2(3) assms(6) by (simp add: arrays_ok_def)
  moreover have "basic_request before name sp1 scheme sp2 s =
      map (Pair CLIENT_OWNED) (before @ name) @ map (Pair CLIENT_OWNED) (sp1 @ scheme) @
      map (Pair CLIENT_OWNED) (sp2 @ ?v) @ [(CLIENT_OWNED, CR)]"
    by (simp add: basic_request_def)
  then have "sniff_all env port p (basic_request before name sp1 scheme sp2 s) =
      sniffer_parser_feed env CR q CLIENT_OWNED port"
    by (simp only: sniff_all_append p1(1) p2(1) q(1) bindR.simps sniff_all.simps bindR_Inr_right)
  ultimately show ?thesis by auto
qed

section \<open>A POP3 login\<close>

text \<open>The side of the connection that a state ignores.\<close>

lemma ignored:
  assumes "sf_state p = sniff_pop3_user_username \<or> sf_state p = sniff_pop3_user_pass \<or>
     sf_state p = sniff_pop3_user_username_value"
  shows "sniff_all env port p (map (Pair ORIGIN_OWNED) cs) = Inr p"
proof -
  have "sniffer_parser_feed env c p ORIGIN_OWNED port = Inr p" for c
    using assms by (cases p) (auto simp: sniffer_parser_feed_def sniffer_step_def s_pop3_user_username_def
        s_pop3_user_pass_def s_pop3_user_username_value_def)
  then show ?thesis by (induction cs) auto
qed

lemma user_chars:
  assumes "sf_state p = sniff_pop3_user_username_value" "\<forall>c\<in>set cs. is_space c \<or> c = CR \<or> is_vchar c"
  shows "sf_i p = int i \<Longrightarrow> length (sf_user p) = 41 \<Longrightarrow> i + length (filter is_vchar cs) < 40 \<Longrightarrow>
   sniff_all env port p (map (Pair CLIENT_OWNED) cs) =
     Inr (p\<lparr>sf_user := overwrite (sf_user p) i (filter is_vchar cs), sf_i := int (i + length (filter is_vchar cs))\<rparr>)"
  using assms
proof (induction cs arbitrary: p i)
  case Nil
  then show ?case by (cases p) simp
next
  case (Cons c cs)
  have v: "is_vchar c \<longleftrightarrow> \<not> (is_space c \<or> c = CR)" "c \<noteq> LF"
    using Cons.prems(5) by (auto simp: is_vchar_def is_space_def)
  let ?p = "if is_vchar c then p\<lparr>sf_user := (sf_user p)[i := c], sf_i := int (Suc i)\<rparr> else p"
  have f: "sniffer_parser_feed env c p CLIENT_OWNED port = Inr ?p"
    using Cons.prems v
    by (auto simp: sniffer_parser_feed_def sniffer_step_def s_pop3_user_username_value_def CLIENT_OWNED_def
        ORIGIN_OWNED_def MAX_USER_LENGTH_def split: if_splits)
  have "sniff_all env port ?p (map (Pair CLIENT_OWNED) cs) =
     Inr (?p\<lparr>sf_user := overwrite (sf_user ?p) (if is_vchar c then Suc i else i) (filter is_vchar cs),
        sf_i := int ((if is_vchar c then Suc i else i) + length (filter is_vchar cs))\<rparr>)"
    using Cons.prems by (intro Cons.IH) auto
  then show ?case
    using Cons.prems f overwrite_Cons [of i "sf_user p" c] by (auto simp: ac_simps split: if_splits)
qed

lemma pass_chars:
  assumes "sf_state p = sniff_pop3_user_pass_value" "\<forall>c\<in>set cs. is_space c \<or> c = CR \<or> is_vchar c"
  shows "sf_i p = int i \<Longrightarrow> length (sf_password p) = 41 \<Longrightarrow> i + length (filter is_vchar cs) < 40 \<Longrightarrow>
   sniff_all env port p (map (Pair CLIENT_OWNED) cs) =
     Inr (p\<lparr>sf_password := overwrite (sf_password p) i (filter is_vchar cs), sf_i := int (i + length (filter is_vchar cs))\<rparr>)"
  using assms
proof (induction cs arbitrary: p i)
  case Nil
  then show ?case by (cases p) simp
next
  case (Cons c cs)
  have v: "is_vchar c \<longleftrightarrow> \<not> (is_space c \<or> c = CR)" "c \<noteq> LF"
    using Cons.prems(5) by (auto simp: is_vchar_def is_space_def)
  let ?p = "if is_vchar c then p\<lparr>sf_password := (sf_password p)[i := c], sf_i := int (Suc i)\<rparr> else p"
  have f: "sniffer_parser_feed env c p CLIENT_OWNED port = Inr ?p"
    using Cons.prems v
    by (auto simp: sniffer_parser_feed_def sniffer_step_def s_pop3_user_pass_value_def CLIENT_OWNED_def
        ORIGIN_OWNED_def MAX_PASSWORD_LENGTH_def split: if_splits)
  have "sniff_all env port ?p (map (Pair CLIENT_OWNED) cs) =
     Inr (?p\<lparr>sf_password := overwrite (sf_password ?p) (if is_vchar c then Suc i else i) (filter is_vchar cs),
        sf_i := int ((if is_vchar c then Suc i else i) + length (filter is_vchar cs))\<rparr>)"
    using Cons.prems by (intro Cons.IH) auto
  then show ?case
    using Cons.prems f overwrite_Cons [of i "sf_password p" c] by (auto simp: ac_simps split: if_splits)
qed

lemma user_end:
  assumes "se_alloc env" "sf_state p = sniff_pop3_user_username_value" "sf_i p = int i" "i < 40"
    "length (sf_user p) = 41"
  shows "\<exists>sp. sniffer_parser_feed env LF p CLIENT_OWNED port =
     Inr (with_sp (p\<lparr>sf_user := (sf_user p)[i := 0], sf_parser_is_set := True, sf_state := sniff_pop3_origin_user_ack\<rparr>) sp) \<and>
     cmp_at PLUS_OK 0 sp"
  using assms arrive_set [OF assms(1) string_room(1), of "p\<lparr>sf_user := (sf_user p)[i := 0]\<rparr>" sniff_pop3_origin_user_ack]
  by (simp add: sniffer_parser_feed_def sniffer_step_def s_pop3_user_username_value_def CLIENT_OWNED_def
      ORIGIN_OWNED_def MAX_USER_LENGTH_def is_space_def)

lemma pass_end:
  assumes "se_alloc env" "sf_state p = sniff_pop3_user_pass_value" "sf_i p = int i" "i < 40"
    "length (sf_password p) = 41"
  shows "\<exists>sp. sniffer_parser_feed env LF p CLIENT_OWNED port =
     Inr (with_sp (p\<lparr>sf_password := (sf_password p)[i := 0], sf_parser_is_set := True, sf_state := sniff_pop3_origin_pass_ack\<rparr>) sp) \<and>
     cmp_at PLUS_OK 0 sp"
  using assms arrive_set [OF assms(1) string_room(1), of "p\<lparr>sf_password := (sf_password p)[i := 0]\<rparr>" sniff_pop3_origin_pass_ack]
  by (simp add: sniffer_parser_feed_def sniffer_step_def s_pop3_user_pass_value_def CLIENT_OWNED_def
      ORIGIN_OWNED_def MAX_PASSWORD_LENGTH_def is_space_def)

text \<open>The first byte of a connection on port 110.\<close>

lemma pop3_first:
  assumes "se_alloc env" "sf_state p = sniff_start"
  shows "\<exists>sp q. cmp_at PLUS_OK 0 sp \<and>
     q = with_sp (p\<lparr>sf_parser_is_set := True, sf_state := sniff_pop3_origin_ack\<rparr>) sp \<and>
     sniffer_parser_feed env c p owner 110 = sniffer_parser_feed env c q owner 110"
proof -
  obtain sp where sp: "set_string_parser env PLUS_OK p = Inr (with_sp (p\<lparr>sf_parser_is_set := True\<rparr>) sp)" "cmp_at PLUS_OK 0 sp"
    using set_string_parser_value [OF assms(1) string_room(1)] by blast
  let ?p = "with_sp (p\<lparr>sf_parser_is_set := True\<rparr>) sp"
  let ?q = "with_sp (p\<lparr>sf_parser_is_set := True, sf_state := sniff_pop3_origin_ack\<rparr>) sp"
  have q: "?q = ?p\<lparr>sf_state := sniff_pop3_origin_ack\<rparr>" by (simp add: with_sp_def)
  have st: "set_string_parser env s (r\<lparr>sf_state := x\<rparr>) =
      bindR (set_string_parser env s r) (\<lambda>r. Inr (r\<lparr>sf_state := x\<rparr>))" for s r x
    by (cases "parser_utils_strcmpi s") (simp_all add: set_string_parser_def)
  have re: "string_reset (r\<lparr>sf_state := x\<rparr>) = bindR (string_reset r) (\<lambda>r. Inr (r\<lparr>sf_state := x\<rparr>))" for r x
    by (cases "sf_string_parser r") (simp_all add: string_reset_def)
  have fe: "string_feed (r\<lparr>sf_state := x\<rparr>) c = bindR (string_feed r c) (\<lambda>(r, t). Inr (r\<lparr>sf_state := x\<rparr>, t))" for r x
    by (cases "sf_string_parser r"; cases "parser_feed (the (sf_string_parser r)) c") (auto simp: string_feed_def)
  have "bindR (s_pop3_origin_ack env c (r\<lparr>sf_state := x\<rparr>) owner) (\<lambda>(p, next). Inr (p\<lparr>sf_state := next\<rparr>)) =
      bindR (s_pop3_origin_ack env c r owner) (\<lambda>(p, next). Inr (p\<lparr>sf_state := next\<rparr>))" for r x
  proof (cases "string_feed r c")
    case (Inl e)
    then show ?thesis by (simp add: s_pop3_origin_ack_def fe)
  next
    case (Inr rt)
    then show ?thesis
      by (cases rt) (auto simp: s_pop3_origin_ack_def fe st re search_on_def bindR_assoc)
  qed
  then show ?thesis using sp assms(2) q
    by (intro exI [of _ sp] exI [of _ ?q])
      (simp add: sniffer_parser_feed_def sniffer_step_def s_start_def)
qed

text \<open>A login: the lines of the client and the answers of the server.\<close>

definition pop3_login :: "bytes \<Rightarrow> bytes \<Rightarrow> bytes \<Rightarrow> bytes \<Rightarrow> bytes \<Rightarrow> bytes \<Rightarrow> (int \<times> u8) list" where
  "pop3_login greeting user user_line answer pass pass_line =
     map (Pair ORIGIN_OWNED) (PLUS_OK @ greeting) @ map (Pair CLIENT_OWNED) (user @ user_line @ [LF]) @
     map (Pair ORIGIN_OWNED) (PLUS_OK @ answer) @ map (Pair CLIENT_OWNED) (pass @ pass_line @ [LF]) @
     map (Pair ORIGIN_OWNED) PLUS_OK"

lemma search_whole:
  assumes "\<forall>c\<in>set name. speaks here owner c" "sf_state p = here" "sf_string_parser p = Some sp0"
    "cmp_at (target here) 0 sp0" "target here \<noteq> []" "map tolower name = map tolower (target here)"
  shows "\<exists>sp. sniff_all env port p (map (Pair owner) name) = arrive env here (with_sp p sp)"
  using search_hit [of name here owner p 0 env port] assms by (auto simp: comparing_def)

lemma owners [simp]: "CLIENT_OWNED \<noteq> ORIGIN_OWNED" "ORIGIN_OWNED \<noteq> CLIENT_OWNED"
  by (simp_all add: CLIENT_OWNED_def ORIGIN_OWNED_def)

lemma vchar_nonzero: "0 \<notin> set (filter is_vchar cs)"
  by (auto simp: is_vchar_def)

lemma cstr_line:
  assumes "length dst = 41" "length (filter is_vchar cs) < 40"
  shows "cstr ((overwrite dst 0 (filter is_vchar cs))[length (filter is_vchar cs) := 0]) = filter is_vchar cs"
  using cstr_field [OF assms(1) vchar_nonzero [of cs]] assms(2) by (simp add: field_def)

lemma pop3_run:
  assumes "se_alloc env"
    "map tolower user = map tolower USER" "map tolower pass = map tolower PASS"
    "\<forall>c\<in>set (user_line @ pass_line). is_space c \<or> c = CR \<or> is_vchar c"
    "length (filter is_vchar user_line) < 40" "length (filter is_vchar pass_line) < 40"
  shows "\<exists>q. sniff_all env 110 (sniffer_parser_init raw) (pop3_login greeting user user_line answer pass pass_line) = Inr q \<and>
     sf_state q = sniff_done \<and> sf_protocol q = POP3 \<and>
     cstr (sf_user q) = filter is_vchar user_line \<and> cstr (sf_password q) = filter is_vchar pass_line"
proof -
  let ?u = "filter is_vchar user_line" and ?w = "filter is_vchar pass_line"
  obtain p0 where p0: "p0 = sniffer_parser_init raw" by simp
  have i: "sf_state p0 = sniff_start" "length (sf_user p0) = 41" "length (sf_password p0) = 41"
    by (simp_all add: p0 sniffer_parser_init_def)
  obtain sp q0 where q0: "cmp_at PLUS_OK 0 sp" "q0 = with_sp (p0\<lparr>sf_parser_is_set := True, sf_state := sniff_pop3_origin_ack\<rparr>) sp"
      "sniffer_parser_feed env (hd PLUS_OK) p0 ORIGIN_OWNED 110 = sniffer_parser_feed env (hd PLUS_OK) q0 ORIGIN_OWNED 110"
    using pop3_first [OF assms(1) i(1)] by blast
  have f: "sniff_all env 110 p0 (map (Pair ORIGIN_OWNED) PLUS_OK) = sniff_all env 110 q0 (map (Pair ORIGIN_OWNED) PLUS_OK)"
    using q0(3) by (simp add: PLUS_OK_def)
  obtain sp1 where "sniff_all env 110 q0 (map (Pair ORIGIN_OWNED) PLUS_OK) = arrive env sniff_pop3_origin_ack (with_sp q0 sp1)"
    using search_whole [of PLUS_OK sniff_pop3_origin_ack ORIGIN_OWNED q0 sp env 110] q0(1,2) by auto
  then obtain q1 sp1 where q1: "sniff_all env 110 q0 (map (Pair ORIGIN_OWNED) PLUS_OK) = Inr q1"
      "sf_state q1 = sniff_pop3_user_username" "sf_string_parser q1 = Some sp1" "cmp_at USER 0 sp1"
      "length (sf_user q1) = 41" "length (sf_password q1) = 41"
    using arrive_set [OF assms(1) string_room(5), of "with_sp q0 sp1" sniff_pop3_user_username] i q0(2)
    by (auto simp: arrive_def)
  have g: "sniff_all env 110 q1 (map (Pair ORIGIN_OWNED) greeting) = Inr q1" using ignored q1(2) by blast
  obtain sp2 where "sniff_all env 110 q1 (map (Pair CLIENT_OWNED) user) = arrive env sniff_pop3_user_username (with_sp q1 sp2)"
    using search_whole [of user sniff_pop3_user_username CLIENT_OWNED q1 sp1 env 110] q1 assms(2) by auto
  then obtain q2 where q2: "sniff_all env 110 q1 (map (Pair CLIENT_OWNED) user) = Inr q2"
      "sf_state q2 = sniff_pop3_user_username_value" "sf_i q2 = 0" "length (sf_user q2) = 41" "length (sf_password q2) = 41"
    using q1 by (auto simp: arrive_def)
  obtain q3 where q3: "sniff_all env 110 q2 (map (Pair CLIENT_OWNED) user_line) = Inr q3"
      "q3 = q2\<lparr>sf_user := overwrite (sf_user q2) 0 ?u, sf_i := int (length ?u)\<rparr>"
    using user_chars [OF q2(2), of user_line 0 env 110] q2 assms(4,5) by auto
  obtain q4 sp4 where q4: "sniffer_parser_feed env LF q3 CLIENT_OWNED 110 = Inr q4"
      "q4 = with_sp (q3\<lparr>sf_user := (sf_user q3)[length ?u := 0], sf_parser_is_set := True, sf_state := sniff_pop3_origin_user_ack\<rparr>) sp4"
      "cmp_at PLUS_OK 0 sp4"
    using user_end [OF assms(1), of q3 "length ?u" 110] q3(2) q2 assms(5) by auto
  have u: "cstr (sf_user q4) = ?u" "length (sf_password q4) = 41"
    using q4(2) q3(2) q2 cstr_line [OF q2(4) assms(5)] by simp_all
  have dash: "\<forall>c\<in>set PLUS_OK. c \<noteq> DASH" by (simp add: PLUS_OK_def)
  obtain sp5 where "sniff_all env 110 q4 (map (Pair ORIGIN_OWNED) PLUS_OK) = arrive env sniff_pop3_origin_user_ack (with_sp q4 sp5)"
    using search_whole [of PLUS_OK sniff_pop3_origin_user_ack ORIGIN_OWNED q4 sp4 env 110] q4(2,3) dash by auto
  then obtain q5 sp5 where q5: "sniff_all env 110 q4 (map (Pair ORIGIN_OWNED) PLUS_OK) = Inr q5"
      "sf_state q5 = sniff_pop3_user_pass" "sf_string_parser q5 = Some sp5" "cmp_at PASS 0 sp5"
      "cstr (sf_user q5) = ?u" "length (sf_password q5) = 41"
    using arrive_set [OF assms(1) string_room(6), of "with_sp q4 sp5\<lparr>sf_i := 0\<rparr>" sniff_pop3_user_pass] u
    by (auto simp: arrive_def)
  have g': "sniff_all env 110 q5 (map (Pair ORIGIN_OWNED) answer) = Inr q5" using ignored q5(2) by blast
  obtain sp6 where "sniff_all env 110 q5 (map (Pair CLIENT_OWNED) pass) = arrive env sniff_pop3_user_pass (with_sp q5 sp6)"
    using search_whole [of pass sniff_pop3_user_pass CLIENT_OWNED q5 sp5 env 110] q5 assms(3) by auto
  then obtain q6 where q6: "sniff_all env 110 q5 (map (Pair CLIENT_OWNED) pass) = Inr q6"
      "sf_state q6 = sniff_pop3_user_pass_value" "sf_i q6 = 0" "cstr (sf_user q6) = ?u" "length (sf_password q6) = 41"
    using q5 by (auto simp: arrive_def)
  obtain q7 where q7: "sniff_all env 110 q6 (map (Pair CLIENT_OWNED) pass_line) = Inr q7"
      "q7 = q6\<lparr>sf_password := overwrite (sf_password q6) 0 ?w, sf_i := int (length ?w)\<rparr>"
    using pass_chars [OF q6(2), of pass_line 0 env 110] q6 assms(4,6) by auto
  obtain q8 sp8 where q8: "sniffer_parser_feed env LF q7 CLIENT_OWNED 110 = Inr q8"
      "q8 = with_sp (q7\<lparr>sf_password := (sf_password q7)[length ?w := 0], sf_parser_is_set := True, sf_state := sniff_pop3_origin_pass_ack\<rparr>) sp8"
      "cmp_at PLUS_OK 0 sp8"
    using pass_end [OF assms(1), of q7 "length ?w" 110] q7(2) q6 assms(6) by auto
  have w: "cstr (sf_user q8) = ?u" "cstr (sf_password q8) = ?w"
    using q8(2) q7(2) q6 cstr_line [OF q6(5) assms(6)] by simp_all
  obtain sp9 where "sniff_all env 110 q8 (map (Pair ORIGIN_OWNED) PLUS_OK) = arrive env sniff_pop3_origin_pass_ack (with_sp q8 sp9)"
    using search_whole [of PLUS_OK sniff_pop3_origin_pass_ack ORIGIN_OWNED q8 sp8 env 110] q8(2,3) dash by auto
  then show ?thesis
    using w by (simp add: pop3_login_def p0 [symmetric] sniff_all_append f q1(1) g q2(1) q3(1) q4(1) q5(1) g' q6(1) q7(1)
        q8(1) arrive_def)
qed

section \<open>Properties\<close>

text \<open>
  C35: The sniffer never leaves its memory, whatever the two sides of a connection send, except at one
  point: at the carriage return after an authorization value that decodes to bytes without a colon.
  The parser starts as initialised, or initialised and set to look for an authorization, as the proxy
  sets it after it has read a request. Allocations of the string parsers are assumed to succeed.
\<close>

theorem sniffer_safe:
  assumes "se_alloc env"
    "p = sniffer_parser_init raw \<or>
     modify_sniffer_state env (sniffer_parser_init raw) sniff_http_authorization = Inr p"
  shows "case sniff_all env port p es of
     Inr q \<Rightarrow> sniff_inv q
   | Inl e \<Rightarrow> \<exists>n q. n < length es \<and> sniff_all env port p (take n es) = Inr q \<and> no_colon env q \<and> snd (es ! n) = CR"
proof (rule sniff_all_good [OF _ assms(1)])
  show "sniff_inv p"
    using assms(2) sniff_inv_new [of raw] sniff_inv_http [OF assms(1), of raw] by (metis sum.inject(2))
qed

definition all_ok :: sniff_env where "all_ok = \<lparr>se_alloc = True, se_malloc = (\<lambda>n. True)\<rparr>"

definition some_sniffer :: sniffer_parser where
  "some_sniffer = \<lparr>sf_state = sniff_error, sf_user = [], sf_password = [], sf_auth_value = [], sf_protocol = POP3,
     sf_string_parser = None, sf_parser_is_set = False, sf_i = 0\<rparr>"

lemma basic_header_small: "basic_header [72, 10] AUTHORIZATION [32] BASIC [32]"
  by (simp add: basic_header_def is_space_def) code_simp

theorem sniffer_safe_witness:
  "case sniff_all all_ok 80 (sniffer_parser_init some_sniffer) [(0, 71), (1, 10)] of
     Inr q \<Rightarrow> sniff_inv q
   | Inl e \<Rightarrow> \<exists>n q. n < length [(0 :: int, 71 :: u8), (1, 10)] \<and>
       sniff_all all_ok 80 (sniffer_parser_init some_sniffer) (take n [(0, 71), (1, 10)]) = Inr q \<and>
       no_colon all_ok q \<and> snd ([(0 :: int, 71 :: u8), (1, 10)] ! n) = CR"
  by (rule sniffer_safe [of _ _ some_sniffer]) (simp_all add: all_ok_def)

text \<open>
  C34: The user and the password of a basic authorization are found: after any bytes that do not hold
  the header name (for the search the code runs) and end a line, the name in any case, spaces, the
  scheme in any case, spaces, and the base64 of \<^verbatim>\<open>user:password\<close> without line feeds, the carriage
  return ends the search with both parts stored, each cut after 40 bytes. The encoded value is shorter
  than the 1024 bytes of its array.
\<close>

theorem sniffer_reads_basic:
  assumes "se_alloc env" "\<And>n. se_malloc env n" "basic_header before name sp1 scheme sp2"
    "base64_encode (se_malloc env) (u @ COLON # w) = Inr (Some s)" "length (filter (\<lambda>c. c \<noteq> LF) s) < 1024"
    "length (u @ COLON # w) < 2 ^ 60" "COLON \<notin> set u" "0 \<notin> set u" "0 \<notin> set w"
    "modify_sniffer_state env (sniffer_parser_init raw) sniff_http_authorization = Inr p"
  shows "\<exists>q. sniff_all env port p (basic_request before name sp1 scheme sp2 s) = Inr q \<and>
     sf_state q = sniff_done \<and> sf_protocol q = HTTP \<and>
     cstr (sf_user q) = take 40 u \<and> cstr (sf_password q) = take 40 w"
proof -
  obtain q where q: "arrays_ok q" "sniff_all env port p (basic_request before name sp1 scheme sp2 s) =
      bindR (parse_user_and_password (u @ COLON # w) q) (\<lambda>q. Inr (q\<lparr>sf_protocol := HTTP, sf_state := sniff_done\<rparr>))"
    using basic_run [OF assms(1,2,3,4) _ assms(5,6,10), of port] by auto
  then show ?thesis
    using parse_user_value [OF q(1) assms(6,7)] assms(8,9)
    by (simp add: cstr_field arrays_ok_def)
qed

theorem sniffer_reads_basic_witness:
  "\<exists>p q. modify_sniffer_state all_ok (sniffer_parser_init some_sniffer) sniff_http_authorization = Inr p \<and>
     sniff_all all_ok 80 p (basic_request [72, 10] AUTHORIZATION [32] BASIC [32] [89, 84, 112, 105, 10]) = Inr q \<and>
     sf_state q = sniff_done \<and> sf_protocol q = HTTP \<and>
     cstr (sf_user q) = take 40 [97] \<and> cstr (sf_password q) = take 40 [98]"
proof -
  obtain p where p: "modify_sniffer_state all_ok (sniffer_parser_init some_sniffer) sniff_http_authorization = Inr p"
    using sniff_inv_http [of all_ok some_sniffer] by (auto simp: all_ok_def)
  have "base64_encode (se_malloc all_ok) ([97] @ COLON # [98]) = Inr (Some [89, 84, 112, 105, 10])" by code_simp
  moreover have "basic_header [72, 10] AUTHORIZATION [32] BASIC [32]" by (simp add: basic_header_small)
  ultimately show ?thesis
    using sniffer_reads_basic [OF _ _ _ _ _ _ _ _ _ p, of "[72, 10]" AUTHORIZATION "[32]" BASIC "[32]" "[97]" "[98]"] p
    by (auto simp: all_ok_def)
qed

text \<open>
  Credentials without a colon crash the sniffer: the length of the password wraps around and the
  copy reads behind the decoded bytes.
\<close>

theorem sniffer_faults_without_colon:
  assumes "se_alloc env" "\<And>n. se_malloc env n" "basic_header before name sp1 scheme sp2"
    "base64_encode (se_malloc env) a = Inr (Some s)" "a \<noteq> []" "length (filter (\<lambda>c. c \<noteq> LF) s) < 1024"
    "length a < 2 ^ 60" "COLON \<notin> set a"
    "modify_sniffer_state env (sniffer_parser_init raw) sniff_http_authorization = Inr p"
  shows "sniff_all env port p (basic_request before name sp1 scheme sp2 s) = Inl OutOfBounds"
  using basic_run [OF assms(1-7,9), of port] parse_user_no_colon [OF assms(8,7)] by auto

theorem sniffer_faults_without_colon_witness:
  "\<exists>p. modify_sniffer_state all_ok (sniffer_parser_init some_sniffer) sniff_http_authorization = Inr p \<and>
     sniff_all all_ok 80 p (basic_request [72, 10] AUTHORIZATION [32] BASIC [32] [89, 87, 74, 106, 10]) = Inl OutOfBounds"
proof -
  obtain p where p: "modify_sniffer_state all_ok (sniffer_parser_init some_sniffer) sniff_http_authorization = Inr p"
    using sniff_inv_http [of all_ok some_sniffer] by (auto simp: all_ok_def)
  have "base64_encode (se_malloc all_ok) [97, 98, 99] = Inr (Some [89, 87, 74, 106, 10])" by code_simp
  moreover have "basic_header [72, 10] AUTHORIZATION [32] BASIC [32]" by (simp add: basic_header_small)
  ultimately show ?thesis
    using sniffer_faults_without_colon [OF _ _ _ _ _ _ _ _ p, of "[72, 10]" AUTHORIZATION "[32]" BASIC "[32]" "[97, 98, 99]"] p
    by (auto simp: all_ok_def)
qed

text \<open>
  A POP3 login is found: when the server greets and confirms both commands, the sniffer ends with
  the visible characters of the user line and of the password line. The commands may be in any case,
  the lines may hold spaces, which are skipped, and fewer than 40 visible characters; after each
  confirmation the server may send any bytes.
\<close>

theorem sniffer_reads_pop3:
  assumes "se_alloc env"
    "map tolower user = map tolower USER" "map tolower pass = map tolower PASS"
    "\<forall>c\<in>set (user_line @ pass_line). is_space c \<or> c = CR \<or> is_vchar c"
    "length (filter is_vchar user_line) < 40" "length (filter is_vchar pass_line) < 40"
  shows "\<exists>q. sniff_all env 110 (sniffer_parser_init raw) (pop3_login greeting user user_line answer pass pass_line) = Inr q \<and>
     sf_state q = sniff_done \<and> sf_protocol q = POP3 \<and>
     cstr (sf_user q) = filter is_vchar user_line \<and> cstr (sf_password q) = filter is_vchar pass_line"
  by (rule pop3_run [OF assms])

theorem sniffer_reads_pop3_witness:
  "\<exists>q. sniff_all all_ok 110 (sniffer_parser_init some_sniffer)
        (pop3_login [32, 104, 105, 13, 10] [117, 115, 101, 114] [32, 109, 101, 13] [13, 10] [80, 65, 83, 83] [32, 120, 13]) = Inr q \<and>
     sf_state q = sniff_done \<and> sf_protocol q = POP3 \<and>
     cstr (sf_user q) = filter is_vchar [32, 109, 101, 13] \<and> cstr (sf_password q) = filter is_vchar [32, 120, 13]"
  by (rule sniffer_reads_pop3)
    (simp_all add: all_ok_def tolower_def USER_def PASS_def is_space_def is_vchar_def)

end
