(* ===== verification/Stm.thy ===== *)
theory Stm
  imports Prelude
begin

text \<open>
  The engine of \<^verbatim>\<open>state_machine/stm.c\<close>. The table of states is a list of records of functions on the
  state \<open>'s\<close> of the program; the machine itself lives in that state (it is part of a connection), and
  the engine reaches it through a \<open>stm_cell\<close>: how to read and how to write it, either of which can
  fault when the connection has been freed. \<^verbatim>\<open>current\<close>, a pointer into the table, is an index.
\<close>

section \<open>The engine\<close>

record 's state_definition =
  sd_state :: nat
  sd_on_arrival :: "(nat \<Rightarrow> 's \<Rightarrow> fault + 's) option"
  sd_on_departure :: "(nat \<Rightarrow> 's \<Rightarrow> fault + 's) option"
  sd_on_read_ready :: "('s \<Rightarrow> fault + (nat \<times> 's)) option"
  sd_on_write_ready :: "('s \<Rightarrow> fault + (nat \<times> 's)) option"
  sd_on_block_ready :: "('s \<Rightarrow> fault + (nat \<times> 's)) option"

record state_machine =
  sm_initial :: nat
  sm_max_state :: nat
  sm_current :: "nat option"

record 's stm_cell =
  stm_get :: "'s \<Rightarrow> fault + state_machine"
  stm_put :: "state_machine \<Rightarrow> 's \<Rightarrow> fault + 's"

definition state_at :: "'s state_definition list \<Rightarrow> nat \<Rightarrow> fault + 's state_definition" where
  "state_at states i = arr_get states (int i)"

text \<open>The check that the table is in order, from index \<open>i\<close> with \<open>k\<close> rounds left.\<close>

fun check_states :: "'s state_definition list \<Rightarrow> nat \<Rightarrow> nat \<Rightarrow> fault + unit" where
  "check_states states i 0 = Inr ()"
| "check_states states i (Suc k) =
     bindR (state_at states i) (\<lambda>d. if i \<noteq> sd_state d then Inl Aborted else check_states states (Suc i) k)"

definition stm_init :: "nat \<Rightarrow> nat \<Rightarrow> 's state_definition list \<Rightarrow> fault + state_machine" where
  "stm_init initial_state last_state states =
     bindR (check_states states 0 (Suc last_state)) (\<lambda>_.
     if initial_state < last_state
     then Inr \<lparr>sm_initial = initial_state, sm_max_state = last_state, sm_current = None\<rparr>
     else Inl Aborted)"

definition arrive_at :: "'s state_definition \<Rightarrow> 's \<Rightarrow> fault + 's" where
  "arrive_at d s = (case sd_on_arrival d of None \<Rightarrow> Inr s | Some f \<Rightarrow> f (sd_state d) s)"

definition depart_from :: "'s state_definition \<Rightarrow> 's \<Rightarrow> fault + 's" where
  "depart_from d s = (case sd_on_departure d of None \<Rightarrow> Inr s | Some f \<Rightarrow> f (sd_state d) s)"

text \<open>Setting \<^verbatim>\<open>current\<close> and running \<^verbatim>\<open>on_arrival\<close>.\<close>

definition enter ::
  "'s stm_cell \<Rightarrow> 's state_definition list \<Rightarrow> nat \<Rightarrow> 's \<Rightarrow> fault + 's" where
  "enter cell states next s =
     bindR (stm_get cell s) (\<lambda>m.
     bindR (stm_put cell (m\<lparr>sm_current := Some next\<rparr>) s) (\<lambda>s.
     bindR (state_at states next) (\<lambda>d. arrive_at d s)))"

definition handle_first :: "'s stm_cell \<Rightarrow> 's state_definition list \<Rightarrow> 's \<Rightarrow> fault + 's" where
  "handle_first cell states s =
     bindR (stm_get cell s) (\<lambda>m.
     case sm_current m of None \<Rightarrow> enter cell states (sm_initial m) s | Some _ \<Rightarrow> Inr s)"

definition jump :: "'s stm_cell \<Rightarrow> 's state_definition list \<Rightarrow> nat \<Rightarrow> 's \<Rightarrow> fault + 's" where
  "jump cell states next s =
     bindR (stm_get cell s) (\<lambda>m.
     if next > sm_max_state m then Inl Aborted
     else if sm_current m \<noteq> Some next
     then bindR (case sm_current m of
                   None \<Rightarrow> Inr s
                 | Some c \<Rightarrow> bindR (state_at states c) (\<lambda>d. depart_from d s)) (\<lambda>s.
          enter cell states next s)
     else Inr s)"

text \<open>The three handlers differ in the function of the state they call.\<close>

definition stm_handler ::
  "('s state_definition \<Rightarrow> ('s \<Rightarrow> fault + (nat \<times> 's)) option) \<Rightarrow>
   's stm_cell \<Rightarrow> 's state_definition list \<Rightarrow> 's \<Rightarrow> fault + (nat \<times> 's)" where
  "stm_handler event cell states s =
     bindR (handle_first cell states s) (\<lambda>s.
     bindR (stm_get cell s) (\<lambda>m.
     case sm_current m of
       None \<Rightarrow> Inl NullDeref
     | Some c \<Rightarrow>
         bindR (state_at states c) (\<lambda>d.
         case event d of
           None \<Rightarrow> Inl Aborted
         | Some f \<Rightarrow>
             bindR (f s) (\<lambda>(ret, s).
             bindR (jump cell states ret s) (\<lambda>s. Inr (ret, s))))))"

definition stm_handler_read ::
  "'s stm_cell \<Rightarrow> 's state_definition list \<Rightarrow> 's \<Rightarrow> fault + (nat \<times> 's)" where
  "stm_handler_read = stm_handler sd_on_read_ready"

definition stm_handler_write ::
  "'s stm_cell \<Rightarrow> 's state_definition list \<Rightarrow> 's \<Rightarrow> fault + (nat \<times> 's)" where
  "stm_handler_write = stm_handler sd_on_write_ready"

definition stm_handler_block ::
  "'s stm_cell \<Rightarrow> 's state_definition list \<Rightarrow> 's \<Rightarrow> fault + (nat \<times> 's)" where
  "stm_handler_block = stm_handler sd_on_block_ready"

definition stm_handler_close :: "'s stm_cell \<Rightarrow> 's state_definition list \<Rightarrow> 's \<Rightarrow> fault + 's" where
  "stm_handler_close cell states s =
     bindR (stm_get cell s) (\<lambda>m.
     case sm_current m of
       None \<Rightarrow> Inr s
     | Some c \<Rightarrow> bindR (state_at states c) (\<lambda>d. depart_from d s))"

text \<open>
  \<^verbatim>\<open>stm_state\<close> reads nothing of the table but the field \<^verbatim>\<open>state\<close>: \<open>numbers\<close> is that column.
\<close>

definition stm_state :: "'s stm_cell \<Rightarrow> nat list \<Rightarrow> 's \<Rightarrow> fault + nat" where
  "stm_state cell numbers s =
     bindR (stm_get cell s) (\<lambda>m.
     case sm_current m of
       None \<Rightarrow> Inr (sm_initial m)
     | Some c \<Rightarrow> arr_get numbers (int c))"

section \<open>Tables in order\<close>

definition ordered_states :: "'s state_definition list \<Rightarrow> bool" where
  "ordered_states states \<longleftrightarrow> (\<forall>i\<in>set [0..<length states]. sd_state (states ! i) = i)"

lemma state_at_ok: "i < length states \<Longrightarrow> state_at states i = Inr (states ! i)"
  by (simp add: state_at_def)

lemma check_states_ordered:
  "i + k \<le> length states \<Longrightarrow>
   check_states states i k = Inr () \<longleftrightarrow> (\<forall>j. i \<le> j \<and> j < i + k \<longrightarrow> sd_state (states ! j) = j)"
proof (induction k arbitrary: i)
  case 0
  then show ?case by simp
next
  case (Suc k)
  have "(\<forall>j. i \<le> j \<and> j < i + Suc k \<longrightarrow> sd_state (states ! j) = j) \<longleftrightarrow>
      sd_state (states ! i) = i \<and> (\<forall>j. Suc i \<le> j \<and> j < Suc i + k \<longrightarrow> sd_state (states ! j) = j)"
    by (auto simp: Suc_le_eq) (metis le_neq_implies_less)
  then show ?case using Suc by (auto simp: state_at_ok)
qed

text \<open>The machine is in the table.\<close>

definition machine_ok :: "'s state_definition list \<Rightarrow> state_machine \<Rightarrow> bool" where
  "machine_ok states m \<longleftrightarrow>
     ordered_states states \<and> Suc (sm_max_state m) = length states \<and> sm_initial m < sm_max_state m \<and>
     (case sm_current m of None \<Rightarrow> True | Some c \<Rightarrow> c \<le> sm_max_state m)"

lemma stm_init_ok:
  assumes "ordered_states states" "Suc last_state = length states" "initial_state < last_state"
  shows "stm_init initial_state last_state states =
     Inr \<lparr>sm_initial = initial_state, sm_max_state = last_state, sm_current = None\<rparr>"
  using assms check_states_ordered [of 0 "Suc last_state" states]
  by (simp add: stm_init_def ordered_states_def del: check_states.simps)

section \<open>The interface to the state of the program\<close>

text \<open>
  What a cell promises: a machine that can be read can be written, and reads back as written. The
  engine then does what its header file says.
\<close>

locale stm_memory =
  fixes cell :: "'s stm_cell"
  assumes put_ok: "stm_get cell s = Inr m \<Longrightarrow> \<exists>s'. stm_put cell m' s = Inr s'"
    and get_put: "stm_get cell s = Inr m \<Longrightarrow> stm_put cell m' s = Inr s' \<Longrightarrow> stm_get cell s' = Inr m'"
begin

text \<open>The current state by its number.\<close>

lemma state_value:
  assumes "stm_get cell s = Inr m" "machine_ok states m"
  shows "stm_state cell (map sd_state states) s = Inr (case sm_current m of None \<Rightarrow> sm_initial m | Some c \<Rightarrow> c)"
  using assms by (auto simp: stm_state_def machine_ok_def ordered_states_def split: option.splits)

lemma enter_value:
  assumes "stm_get cell s = Inr m" "next < length states" "stm_put cell (m\<lparr>sm_current := Some next\<rparr>) s = Inr s'"
  shows "enter cell states next s = arrive_at (states ! next) s'"
  using assms by (simp add: enter_def state_at_ok)

text \<open>After the first event the machine is in a state.\<close>

lemma handle_first_started:
  assumes "stm_get cell s = Inr m" "sm_current m = Some c"
  shows "handle_first cell states s = Inr s"
  using assms by (simp add: handle_first_def)

text \<open>A handler that stays runs nothing else; one that leaves runs departure and arrival, once.\<close>

lemma jump_stays:
  assumes "stm_get cell s = Inr m" "sm_current m = Some c" "c \<le> sm_max_state m"
  shows "jump cell states c s = Inr s"
  using assms by (simp add: jump_def)

lemma jump_moves:
  assumes "stm_get cell s = Inr m" "machine_ok states m" "sm_current m = Some c" "next \<noteq> c"
    "next \<le> sm_max_state m" "sd_on_departure (states ! c) = None"
  obtains s' where "stm_put cell (m\<lparr>sm_current := Some next\<rparr>) s = Inr s'"
    "jump cell states next s = arrive_at (states ! next) s'"
proof -
  obtain s' where "stm_put cell (m\<lparr>sm_current := Some next\<rparr>) s = Inr s'" using put_ok [OF assms(1)] by blast
  moreover from this have "jump cell states next s = arrive_at (states ! next) s'"
    using assms enter_value [OF assms(1), of "next" states s']
    by (auto simp: jump_def machine_ok_def state_at_ok depart_from_def)
  ultimately show thesis using that by blast
qed

lemma jump_aborts:
  assumes "stm_get cell s = Inr m" "sm_max_state m < next"
  shows "jump cell states next s = Inl Aborted"
  using assms by (simp add: jump_def)

lemma handler_started:
  assumes "stm_get cell s = Inr m" "machine_ok states m" "sm_current m = Some c"
  shows "stm_handler event cell states s =
     (case event (states ! c) of
        None \<Rightarrow> Inl Aborted
      | Some f \<Rightarrow> bindR (f s) (\<lambda>(ret, s). bindR (jump cell states ret s) (\<lambda>s. Inr (ret, s))))"
  using assms by (simp add: stm_handler_def handle_first_started machine_ok_def state_at_ok)

end

end
