(* ===== verification/Selector.thy ===== *)
theory Selector
  imports Prelude
begin

text \<open>
  The multiplexer of \<^verbatim>\<open>utils/selector/selector.c\<close>. A function pointer is a name of type \<open>'h\<close>; what it
  does is the argument \<open>call\<close> of the operations that call it, on the selector and the rest \<open>'w\<close> of
  the program. Attached data is of type \<open>'d\<close>; \<open>None\<close> is null. The array \<^verbatim>\<open>fds\<close> is a list, empty while the
  pointer is null, and \<open>fs_block\<close> counts its reallocations: a pointer into an older block dangles.
  What the system provides is the record \<open>sel_env\<close>.
\<close>

section \<open>Data\<close>

datatype selector_status =
    SELECTOR_SUCCESS
  | SELECTOR_ENOMEM
  | SELECTOR_MAXFD
  | SELECTOR_IARGS
  | SELECTOR_FDINUSE
  | SELECTOR_IO

definition ERROR_DEFAULT_MSG :: string where "ERROR_DEFAULT_MSG = ''something failed''"

fun selector_error :: "selector_status \<Rightarrow> string" where
  "selector_error SELECTOR_SUCCESS = ''Success''"
| "selector_error SELECTOR_ENOMEM = ''Not enough memory''"
| "selector_error SELECTOR_MAXFD = ''Can't handle any more file descriptors''"
| "selector_error SELECTOR_IARGS = ''Illegal argument''"
| "selector_error SELECTOR_IO = ''I/O error''"
| "selector_error _ = ERROR_DEFAULT_MSG"

text \<open>
  \<^verbatim>\<open>selector_init\<close>: whether \<^verbatim>\<open>sigprocmask\<close> and \<^verbatim>\<open>sigaction\<close> succeed is an argument; the timeout it keeps is an argument of
  \<open>selector_new\<close>.
\<close>

record signal_setup =
  sig_mask_ok :: bool
  sig_action_ok :: bool

definition selector_init :: "signal_setup \<Rightarrow> selector_status" where
  "selector_init c =
     (if \<not> sig_mask_ok c then SELECTOR_IO
      else if \<not> sig_action_ok c then SELECTOR_IO
      else SELECTOR_SUCCESS)"

definition signals_set :: signal_setup where "signals_set = \<lparr>sig_mask_ok = True, sig_action_ok = True\<rparr>"

lemma selector_init_iff [simp]: "selector_init c = SELECTOR_SUCCESS \<longleftrightarrow> c = signals_set"
  by (cases c) (simp add: selector_init_def signals_set_def)

definition selector_close :: selector_status where "selector_close = SELECTOR_SUCCESS"

type_synonym fd_interest = u32

definition OP_NOOP :: fd_interest where "OP_NOOP = 0"
definition OP_READ :: fd_interest where "OP_READ = 1"
definition OP_WRITE :: fd_interest where "OP_WRITE = 4"

record 'h fd_handler =
  fh_read :: "'h option"
  fh_write :: "'h option"
  fh_block :: "'h option"
  fh_close :: "'h option"

definition FD_UNUSED :: int where "FD_UNUSED = - 1"
definition ITEMS_MAX_SIZE :: nat where "ITEMS_MAX_SIZE = 1024"

record ('h, 'd) item =
  it_fd :: int
  it_interest :: fd_interest
  it_handler :: "'h fd_handler option"
  it_data :: "'d option"

definition item_used :: "('h, 'd) item \<Rightarrow> bool" where
  "item_used item \<longleftrightarrow> FD_UNUSED \<noteq> it_fd item"

record timespec =
  tv_sec :: int
  tv_nsec :: int

record 'h garbage_collector =
  gc_collect :: "'h option"
  gc_interval :: int
  gc_last_collection :: int

type_synonym fd_set = "bool list"

record ('h, 'd) fdselector =
  fs_fds :: "('h, 'd) item list"
  fs_block :: nat
  fs_fd_size :: nat
  fs_max_fd :: int
  fs_master_r :: fd_set
  fs_master_w :: fd_set
  fs_slave_r :: fd_set
  fs_slave_w :: fd_set
  fs_master_t :: timespec
  fs_slave_t :: timespec
  fs_resolution_jobs :: "int list"
  fs_gc :: "'h garbage_collector"

record 'd selector_key =
  key_fd :: int
  key_data :: "'d option"

record ('h, 'd) sel_env =
  sl_calloc :: "nat \<Rightarrow> bool"
  sl_realloc :: "nat \<Rightarrow> bool"
  sl_junk :: "nat \<Rightarrow> ('h, 'd) item"

text \<open>The selector within the program.\<close>

type_synonym ('h, 'd, 'w) sys = "('h, 'd) fdselector \<times> 'w"
type_synonym ('h, 'd, 'w) caller = "'h \<Rightarrow> 'd selector_key \<Rightarrow> ('h, 'd, 'w) sys \<Rightarrow> fault + ('h, 'd, 'w) sys"

section \<open>Capacity\<close>

text \<open>The number of shifts until nothing is left.\<close>

fun bit_count :: "nat \<Rightarrow> nat" where
  "bit_count n = (if n = 0 then 0 else Suc (bit_count (n div 2)))"

declare bit_count.simps [simp del]

definition next_capacity :: "nat \<Rightarrow> fault + nat" where
  "next_capacity n =
     (let tmp = unat (push_bit (bit_count n) 1 :: u64)
      in if tmp \<ge> n
         then Inr ((if tmp > ITEMS_MAX_SIZE then ITEMS_MAX_SIZE else tmp) + 1)
         else Inl AssertFail)"

definition zero_item :: "('h, 'd) item" where
  "zero_item = \<lparr>it_fd = 0, it_interest = 0, it_handler = None, it_data = None\<rparr>"

definition item_init :: "('h, 'd) item \<Rightarrow> ('h, 'd) item" where
  "item_init item = item\<lparr>it_fd := FD_UNUSED\<rparr>"

definition items_init :: "nat \<Rightarrow> ('h, 'd) fdselector \<Rightarrow> fault + ('h, 'd) fdselector" where
  "items_init old s =
     (if old \<le> fs_fd_size s
      then if fs_fd_size s \<le> length (fs_fds s)
           then Inr (s\<lparr>fs_fds := overwrite (fs_fds s) old
                  (map item_init (take (fs_fd_size s - old) (drop old (fs_fds s))))\<rparr>)
           else Inl OutOfBounds
      else Inl AssertFail)"

definition SIZE_MAX :: nat where "SIZE_MAX = 2 ^ 64 - 1"
definition ITEM_BYTES :: nat where "ITEM_BYTES = 24"

definition ensure_capacity ::
  "('h, 'd) sel_env \<Rightarrow> ('h, 'd) fdselector \<Rightarrow> nat \<Rightarrow> fault + (selector_status \<times> ('h, 'd) fdselector)" where
  "ensure_capacity env s n =
     (if n < fs_fd_size s then Inr (SELECTOR_SUCCESS, s)
      else if n > ITEMS_MAX_SIZE then Inr (SELECTOR_MAXFD, s)
      else if fs_fds s = []
      then bindR (next_capacity n) (\<lambda>new_size.
           if \<not> sl_calloc env (new_size * ITEM_BYTES) then Inr (SELECTOR_ENOMEM, s)
           else bindR (items_init 0 (s\<lparr>fs_fds := replicate new_size zero_item, fs_fd_size := new_size\<rparr>)) (\<lambda>s.
                Inr (SELECTOR_SUCCESS, s)))
      else bindR (next_capacity n) (\<lambda>new_size.
           if new_size > SIZE_MAX div ITEM_BYTES then Inr (SELECTOR_ENOMEM, s)
           else if \<not> sl_realloc env (new_size * ITEM_BYTES) then Inr (SELECTOR_ENOMEM, s)
           else bindR (items_init (fs_fd_size s)
                   (s\<lparr>fs_fds := take new_size (fs_fds s) @ map (sl_junk env) [length (fs_fds s)..<new_size],
                      fs_block := Suc (fs_block s), fs_fd_size := new_size\<rparr>)) (\<lambda>s.
                Inr (SELECTOR_SUCCESS, s))))"

section \<open>Sets of descriptors\<close>

definition items_max_fd :: "('h, 'd) fdselector \<Rightarrow> fault + int" where
  "items_max_fd s =
     (if fs_max_fd s < int (length (fs_fds s))
      then Inr (fold (\<lambda>item m. if item_used item \<and> it_fd item > m then it_fd item else m)
                  (take (nat (fs_max_fd s + 1)) (fs_fds s)) 0)
      else Inl OutOfBounds)"

definition items_update_fdset_for_fd ::
  "('h, 'd) item \<Rightarrow> ('h, 'd) fdselector \<Rightarrow> fault + ('h, 'd) fdselector" where
  "items_update_fdset_for_fd item s =
     bindR (arr_set (fs_master_r s) (it_fd item) False) (\<lambda>r.
     bindR (arr_set (fs_master_w s) (it_fd item) False) (\<lambda>w.
     if item_used item
     then bindR (if it_interest item AND OP_READ \<noteq> 0 then arr_set r (it_fd item) True else Inr r) (\<lambda>r.
          bindR (if it_interest item AND OP_WRITE \<noteq> 0 then arr_set w (it_fd item) True else Inr w) (\<lambda>w.
          Inr (s\<lparr>fs_master_r := r, fs_master_w := w\<rparr>)))
     else Inr (s\<lparr>fs_master_r := r, fs_master_w := w\<rparr>)))"

section \<open>Operations\<close>

definition set_selector_timeout :: "int \<Rightarrow> ('h, 'd) fdselector \<Rightarrow> ('h, 'd) fdselector" where
  "set_selector_timeout timeout s = s\<lparr>fs_master_t := (fs_master_t s)\<lparr>tv_sec := timeout\<rparr>\<rparr>"

definition get_selector_timeout :: "('h, 'd) fdselector \<Rightarrow> int" where
  "get_selector_timeout s = tv_sec (fs_master_t s)"

definition zero_selector :: "('h, 'd) fdselector" where
  "zero_selector =
     \<lparr>fs_fds = [], fs_block = 0, fs_fd_size = 0, fs_max_fd = 0,
      fs_master_r = replicate ITEMS_MAX_SIZE False, fs_master_w = replicate ITEMS_MAX_SIZE False,
      fs_slave_r = replicate ITEMS_MAX_SIZE False, fs_slave_w = replicate ITEMS_MAX_SIZE False,
      fs_master_t = \<lparr>tv_sec = 0, tv_nsec = 0\<rparr>, fs_slave_t = \<lparr>tv_sec = 0, tv_nsec = 0\<rparr>,
      fs_resolution_jobs = [], fs_gc = \<lparr>gc_collect = None, gc_interval = 0, gc_last_collection = 0\<rparr>\<rparr>"

text \<open>\<open>select_timeout\<close> is that of \<^verbatim>\<open>conf\<close>, \<open>mem\<close> whether \<^verbatim>\<open>malloc\<close> succeeds; \<open>None\<close> is the null pointer.\<close>

definition selector_new ::
  "('h, 'd) sel_env \<Rightarrow> bool \<Rightarrow> timespec \<Rightarrow> nat \<Rightarrow> fault + ('h, 'd) fdselector option" where
  "selector_new env mem select_timeout initial_elements =
     (if \<not> mem then Inr None
      else bindR (ensure_capacity env (zero_selector\<lparr>fs_master_t := select_timeout\<rparr>) initial_elements)
        (\<lambda>(ret, s). Inr (if ret = SELECTOR_SUCCESS then Some s else None)))"

definition selector_set_garbage_collector ::
  "'h option \<Rightarrow> int \<Rightarrow> int \<Rightarrow> ('h, 'd) fdselector \<Rightarrow> int \<times> ('h, 'd) fdselector" where
  "selector_set_garbage_collector collect interval now s =
     (if interval < 0 then (- 1, s)
      else (1, s\<lparr>fs_gc := \<lparr>gc_collect = collect, gc_interval = interval, gc_last_collection = now\<rparr>\<rparr>))"

definition invalid_fd :: "int \<Rightarrow> bool" where
  "invalid_fd fd \<longleftrightarrow> fd < 0 \<or> fd \<ge> int ITEMS_MAX_SIZE"

definition item_at :: "('h, 'd) fdselector \<Rightarrow> int \<Rightarrow> fault + ('h, 'd) item" where
  "item_at s i = arr_get (fs_fds s) i"

definition item_put :: "int \<Rightarrow> ('h, 'd) item \<Rightarrow> ('h, 'd) fdselector \<Rightarrow> fault + ('h, 'd) fdselector" where
  "item_put i item s = bindR (arr_set (fs_fds s) i item) (\<lambda>fds. Inr (s\<lparr>fs_fds := fds\<rparr>))"

definition selector_register ::
  "('h, 'd) sel_env \<Rightarrow> int \<Rightarrow> 'h fd_handler option \<Rightarrow> fd_interest \<Rightarrow> 'd option \<Rightarrow> ('h, 'd) fdselector \<Rightarrow>
   fault + (selector_status \<times> ('h, 'd) fdselector)" where
  "selector_register env fd handler interest data s =
     (if invalid_fd fd \<or> handler = None then Inr (SELECTOR_IARGS, s)
      else bindR (if nat fd > fs_fd_size s then ensure_capacity env s (nat fd) else Inr (SELECTOR_SUCCESS, s))
        (\<lambda>(ret, s).
         if ret \<noteq> SELECTOR_SUCCESS then Inr (ret, s)
         else bindR (item_at s fd) (\<lambda>item.
              if item_used item then Inr (SELECTOR_FDINUSE, s)
              else let item = item\<lparr>it_fd := fd, it_handler := handler, it_interest := interest, it_data := data\<rparr>
                   in bindR (item_put fd item s) (\<lambda>s.
                      bindR (items_update_fdset_for_fd item
                              (s\<lparr>fs_max_fd := if fd > fs_max_fd s then fd else fs_max_fd s\<rparr>)) (\<lambda>s.
                      Inr (SELECTOR_SUCCESS, s))))))"

text \<open>
  After \<^verbatim>\<open>handle_close\<close> the code goes on with the pointer \<^verbatim>\<open>item\<close>, so the block must be the same.
\<close>

definition selector_unregister_fd ::
  "('h, 'd, 'w) caller \<Rightarrow> int \<Rightarrow> ('h, 'd, 'w) sys \<Rightarrow> fault + (selector_status \<times> ('h, 'd, 'w) sys)" where
  "selector_unregister_fd call fd sw =
     (if invalid_fd fd then Inr (SELECTOR_IARGS, sw)
      else bindR (item_at (fst sw) fd) (\<lambda>item.
        if \<not> item_used item then Inr (SELECTOR_IARGS, sw)
        else case it_handler item of
          None \<Rightarrow> Inl NullDeref
        | Some h \<Rightarrow>
            bindR (case fh_close h of
                     None \<Rightarrow> Inr sw
                   | Some f \<Rightarrow> call f \<lparr>key_fd = it_fd item, key_data = it_data item\<rparr> sw) (\<lambda>(s, w).
            if fs_block s \<noteq> fs_block (fst sw) then Inl UseAfterFree
            else bindR (item_at s fd) (\<lambda>item.
                 bindR (items_update_fdset_for_fd (item\<lparr>it_interest := OP_NOOP\<rparr>) s) (\<lambda>s.
                 bindR (item_put fd (item_init zero_item) s) (\<lambda>s.
                 bindR (items_max_fd s) (\<lambda>m.
                 Inr (SELECTOR_SUCCESS, (s\<lparr>fs_max_fd := m\<rparr>, w)))))))))"

definition selector_set_interest ::
  "int \<Rightarrow> fd_interest \<Rightarrow> ('h, 'd) fdselector \<Rightarrow> fault + (selector_status \<times> ('h, 'd) fdselector)" where
  "selector_set_interest fd i s =
     (if invalid_fd fd then Inr (SELECTOR_IARGS, s)
      else bindR (item_at s fd) (\<lambda>item.
        if \<not> item_used item then Inr (SELECTOR_IARGS, s)
        else bindR (item_put fd (item\<lparr>it_interest := i\<rparr>) s) (\<lambda>s.
             bindR (items_update_fdset_for_fd (item\<lparr>it_interest := i\<rparr>) s) (\<lambda>s.
             Inr (SELECTOR_SUCCESS, s)))))"

definition selector_set_interest_key ::
  "'d selector_key option \<Rightarrow> fd_interest \<Rightarrow> ('h, 'd) fdselector \<Rightarrow> fault + (selector_status \<times> ('h, 'd) fdselector)" where
  "selector_set_interest_key key i s =
     (case key of
        None \<Rightarrow> Inr (SELECTOR_IARGS, s)
      | Some k \<Rightarrow> if invalid_fd (key_fd k) then Inr (SELECTOR_IARGS, s)
                  else selector_set_interest (key_fd k) i s)"

text \<open>The loop of \<^verbatim>\<open>selector_destroy\<close> over all items. The memory is freed after it.\<close>

fun destroy_loop ::
  "('h, 'd, 'w) caller \<Rightarrow> nat list \<Rightarrow> ('h, 'd, 'w) sys \<Rightarrow> fault + ('h, 'd, 'w) sys" where
  "destroy_loop call [] sw = Inr sw"
| "destroy_loop call (i # is) sw =
     bindR (item_at (fst sw) (int i)) (\<lambda>item.
     bindR (if item_used item
            then bindR (selector_unregister_fd call (int i) sw) (\<lambda>(_, sw). Inr sw)
            else Inr sw) (\<lambda>sw.
     destroy_loop call is sw))"

definition selector_destroy ::
  "('h, 'd, 'w) caller \<Rightarrow> ('h, 'd) fdselector option \<times> 'w \<Rightarrow> fault + 'w" where
  "selector_destroy call sw =
     (case fst sw of
        None \<Rightarrow> Inr (snd sw)
      | Some s \<Rightarrow>
          if fs_fds s = [] then Inr (snd sw)
          else bindR (destroy_loop call [0..<fs_fd_size s] (s, snd sw)) (\<lambda>(_, w). Inr w))"

section \<open>Dispatch\<close>

text \<open>
  One side of an item: the descriptor is in the ready set and the item is interested. \<^verbatim>\<open>key.fd\<close> and
  \<^verbatim>\<open>key.data\<close> are set before.
\<close>

definition dispatch ::
  "('h, 'd, 'w) caller \<Rightarrow> ('h fd_handler \<Rightarrow> 'h option) \<Rightarrow> fd_interest \<Rightarrow> fd_set \<Rightarrow> int \<Rightarrow> ('h, 'd) item \<Rightarrow>
   'd selector_key \<Rightarrow> ('h, 'd, 'w) sys \<Rightarrow> fault + ('h, 'd, 'w) sys" where
  "dispatch call side flag ready fd item key sw =
     bindR (arr_get ready fd) (\<lambda>set.
     if set \<and> flag AND it_interest item \<noteq> 0
     then case it_handler item of
            None \<Rightarrow> Inl NullDeref
          | Some h \<Rightarrow> (case side h of None \<Rightarrow> Inl AssertFail | Some f \<Rightarrow> call f key sw)
     else Inr sw)"

fun iteration_loop ::
  "('h, 'd, 'w) caller \<Rightarrow> nat list \<Rightarrow> ('h, 'd, 'w) sys \<Rightarrow> fault + ('h, 'd, 'w) sys" where
  "iteration_loop call [] sw = Inr sw"
| "iteration_loop call (i # is) sw =
     bindR (item_at (fst sw) (int i)) (\<lambda>item.
     bindR (if item_used item
            then let key = \<lparr>key_fd = it_fd item, key_data = it_data item\<rparr>
                 in bindR (dispatch call fh_read OP_READ (fs_slave_r (fst sw)) (it_fd item) item key sw) (\<lambda>sw'.
                    if fs_block (fst sw') \<noteq> fs_block (fst sw) then Inl UseAfterFree
                    else bindR (item_at (fst sw') (int i)) (\<lambda>item.
                         dispatch call fh_write OP_WRITE (fs_slave_w (fst sw')) (int i) item key sw'))
            else Inr sw) (\<lambda>sw.
     iteration_loop call is sw))"

definition handle_iteration :: "('h, 'd, 'w) caller \<Rightarrow> ('h, 'd, 'w) sys \<Rightarrow> fault + ('h, 'd, 'w) sys" where
  "handle_iteration call sw = iteration_loop call [0..<nat (fs_max_fd (fst sw) + 1)] sw"

fun notification_loop ::
  "('h, 'd, 'w) caller \<Rightarrow> int list \<Rightarrow> ('h, 'd, 'w) sys \<Rightarrow> fault + ('h, 'd, 'w) sys" where
  "notification_loop call [] sw = Inr sw"
| "notification_loop call (fd # js) sw =
     bindR (item_at (fst sw) fd) (\<lambda>item.
     bindR (if item_used item
            then case it_handler item of
                   None \<Rightarrow> Inl NullDeref
                 | Some h \<Rightarrow>
                     (case fh_block h of
                        None \<Rightarrow> Inl NullDeref
                      | Some f \<Rightarrow> call f \<lparr>key_fd = it_fd item, key_data = it_data item\<rparr> sw)
            else Inr sw) (\<lambda>sw.
     notification_loop call js sw))"

definition handle_block_notifications ::
  "('h, 'd, 'w) caller \<Rightarrow> ('h, 'd, 'w) sys \<Rightarrow> fault + ('h, 'd, 'w) sys" where
  "handle_block_notifications call sw =
     bindR (notification_loop call (fs_resolution_jobs (fst sw)) sw) (\<lambda>(s, w).
     Inr (s\<lparr>fs_resolution_jobs := []\<rparr>, w))"

definition selector_notify_block :: "bool \<Rightarrow> int \<Rightarrow> ('h, 'd) fdselector \<Rightarrow> selector_status \<times> ('h, 'd) fdselector" where
  "selector_notify_block mem fd s =
     (if mem then (SELECTOR_SUCCESS, s\<lparr>fs_resolution_jobs := fd # fs_resolution_jobs s\<rparr>)
      else (SELECTOR_ENOMEM, s))"

fun collect_loop ::
  "('h, 'd, 'w) caller \<Rightarrow> nat list \<Rightarrow> ('h, 'd, 'w) sys \<Rightarrow> fault + ('h, 'd, 'w) sys" where
  "collect_loop call [] sw = Inr sw"
| "collect_loop call (i # is) sw =
     bindR (item_at (fst sw) (int i)) (\<lambda>item.
     bindR (if item_used item
            then case gc_collect (fs_gc (fst sw)) of
                   None \<Rightarrow> Inl NullDeref
                 | Some f \<Rightarrow> call f \<lparr>key_fd = it_fd item, key_data = it_data item\<rparr> sw
            else Inr sw) (\<lambda>sw.
     collect_loop call is sw))"

definition run_garbage_collector :: "('h, 'd, 'w) caller \<Rightarrow> ('h, 'd, 'w) sys \<Rightarrow> fault + ('h, 'd, 'w) sys" where
  "run_garbage_collector call sw = collect_loop call [0..<nat (fs_max_fd (fst sw) + 1)] sw"

text \<open>What \<^verbatim>\<open>pselect\<close> delivers: the ready sets, or \<^verbatim>\<open>errno\<close>.\<close>

datatype select_errno = EAGAIN | EINTR | EBADF | OTHER_ERRNO
datatype pselect_result = Ready fd_set fd_set | Failed select_errno

text \<open>\<open>now\<close> and \<open>now'\<close> are the two calls of \<^verbatim>\<open>time\<close>.\<close>

definition selector_select ::
  "('h, 'd, 'w) caller \<Rightarrow> (('h, 'd, 'w) sys \<Rightarrow> pselect_result) \<Rightarrow> int \<Rightarrow> int \<Rightarrow> ('h, 'd, 'w) sys \<Rightarrow>
   fault + (selector_status \<times> ('h, 'd, 'w) sys)" where
  "selector_select call pselect now now' sw =
     (let s = (fst sw)\<lparr>fs_slave_r := fs_master_r (fst sw), fs_slave_w := fs_master_w (fst sw),
                        fs_slave_t := fs_master_t (fst sw)\<rparr>
      in bindR (case pselect (s, snd sw) of
                  Failed EAGAIN \<Rightarrow> Inr (SELECTOR_SUCCESS, (s, snd sw))
                | Failed EINTR \<Rightarrow> Inr (SELECTOR_SUCCESS, (s, snd sw))
                | Failed _ \<Rightarrow> Inr (SELECTOR_IO, (s, snd sw))
                | Ready r w \<Rightarrow>
                    bindR (handle_iteration call (s\<lparr>fs_slave_r := r, fs_slave_w := w\<rparr>, snd sw)) (\<lambda>sw.
                    Inr (SELECTOR_SUCCESS, sw))) (\<lambda>(ret, sw).
         if ret \<noteq> SELECTOR_SUCCESS then Inr (ret, sw)
         else bindR (handle_block_notifications call sw) (\<lambda>(s, w).
              if gc_collect (fs_gc s) \<noteq> None \<and> now - gc_last_collection (fs_gc s) \<ge> gc_interval (fs_gc s)
              then bindR (run_garbage_collector call
                     (s\<lparr>fs_gc := (fs_gc s)\<lparr>gc_last_collection := now'\<rparr>\<rparr>, w)) (\<lambda>sw.
                   Inr (SELECTOR_SUCCESS, sw))
              else Inr (SELECTOR_SUCCESS, (s, w)))))"

section \<open>Capacity\<close>

lemma bit_count_gt: "n < 2 ^ bit_count n"
proof (induction n rule: bit_count.induct)
  case (1 n)
  then show ?case by (subst bit_count.simps) (auto simp: mult.commute)
qed

lemma bit_count_le: "0 < n \<Longrightarrow> 2 ^ bit_count n \<le> 2 * n"
proof (induction n rule: bit_count.induct)
  case (1 n)
  show ?case
  proof (cases "n div 2 = 0")
    case True
    then have "n = 1" using "1.prems" by simp
    then show ?thesis by (simp add: bit_count.simps)
  next
    case False
    then have "2 ^ bit_count (n div 2) \<le> 2 * (n div 2)" using "1.IH" "1.prems" by simp
    then have "2 ^ bit_count (n div 2) \<le> n" by linarith
    then show ?thesis using "1.prems" by (subst bit_count.simps) simp
  qed
qed

lemma next_capacity_value:
  assumes "n < 2 ^ 63"
  shows "next_capacity n = Inr (min (2 ^ bit_count n) ITEMS_MAX_SIZE + 1)"
proof -
  have "2 ^ bit_count n < (2 :: nat) ^ 64"
  proof (cases "n = 0")
    case False
    then have "2 ^ bit_count n \<le> 2 * n" by (intro bit_count_le) simp
    then show ?thesis using assms by simp
  qed (simp add: bit_count.simps)
  then have "unat (push_bit (bit_count n) 1 :: u64) = 2 ^ bit_count n"
    by (simp add: push_bit_eq_mult unat_of_nat [where 'a = 64, of "2 ^ bit_count n", simplified])
  then show ?thesis using bit_count_gt [of n] by (auto simp: next_capacity_def Let_def min_def)
qed

lemma next_capacity_bounds:
  assumes "n \<le> ITEMS_MAX_SIZE"
  shows "\<exists>m. next_capacity n = Inr m \<and> n < m \<and> m \<le> ITEMS_MAX_SIZE + 1"
  using next_capacity_value [of n] bit_count_gt [of n] assms
  by (auto simp: ITEMS_MAX_SIZE_def min_def)

section \<open>Invariant and abstraction\<close>

text \<open>What is registered under a descriptor.\<close>

definition sel_entry ::
  "('h, 'd) fdselector \<Rightarrow> nat \<Rightarrow> ('h fd_handler \<times> fd_interest \<times> 'd option) option" where
  "sel_entry s i =
     (if i < length (fs_fds s) \<and> item_used (fs_fds s ! i)
      then Some (the (it_handler (fs_fds s ! i)), it_interest (fs_fds s ! i), it_data (fs_fds s ! i))
      else None)"

definition wants :: "fd_interest \<Rightarrow> ('h, 'd) fdselector \<Rightarrow> nat \<Rightarrow> bool" where
  "wants flag s i = (case sel_entry s i of None \<Rightarrow> False | Some (h, interest, d) \<Rightarrow> interest AND flag \<noteq> 0)"

definition slots_ok :: "('h, 'd) fdselector \<Rightarrow> bool" where
  "slots_ok s \<longleftrightarrow>
     (\<forall>i < length (fs_fds s).
        if item_used (fs_fds s ! i)
        then it_fd (fs_fds s ! i) = int i \<and> i < ITEMS_MAX_SIZE \<and> int i \<le> fs_max_fd s \<and> it_handler (fs_fds s ! i) \<noteq> None
        else it_interest (fs_fds s ! i) = 0)"

definition sets_ok :: "('h, 'd) fdselector \<Rightarrow> bool" where
  "sets_ok s \<longleftrightarrow>
     length (fs_master_r s) = ITEMS_MAX_SIZE \<and> length (fs_master_w s) = ITEMS_MAX_SIZE \<and>
     (\<forall>i < ITEMS_MAX_SIZE. (fs_master_r s ! i \<longleftrightarrow> wants OP_READ s i) \<and> (fs_master_w s ! i \<longleftrightarrow> wants OP_WRITE s i))"

definition sel_ok :: "('h, 'd) fdselector \<Rightarrow> bool" where
  "sel_ok s \<longleftrightarrow>
     0 < fs_fd_size s \<and> length (fs_fds s) = fs_fd_size s \<and> 0 \<le> fs_max_fd s \<and> fs_max_fd s < int (fs_fd_size s) \<and>
     slots_ok s \<and> sets_ok s"

text \<open>The fields the registrations do not touch.\<close>

definition same_rest :: "('h, 'd) fdselector \<Rightarrow> ('h, 'd) fdselector \<Rightarrow> bool" where
  "same_rest s s' \<longleftrightarrow>
     fs_block s' = fs_block s \<and> fs_fd_size s' = fs_fd_size s \<and> fs_slave_r s' = fs_slave_r s \<and>
     fs_slave_w s' = fs_slave_w s \<and> fs_master_t s' = fs_master_t s \<and> fs_slave_t s' = fs_slave_t s \<and>
     fs_resolution_jobs s' = fs_resolution_jobs s \<and> fs_gc s' = fs_gc s"

lemma sel_entry_iff:
  "sel_entry s i = None \<longleftrightarrow> \<not> (i < length (fs_fds s) \<and> item_used (fs_fds s ! i))"
  by (simp add: sel_entry_def)

lemma update_set_value:
  assumes "length (fs_master_r s) = ITEMS_MAX_SIZE" "length (fs_master_w s) = ITEMS_MAX_SIZE"
    "it_fd item = int i" "i < ITEMS_MAX_SIZE"
  shows "items_update_fdset_for_fd item s =
     Inr (s\<lparr>fs_master_r := (fs_master_r s)[i := it_interest item AND OP_READ \<noteq> 0],
            fs_master_w := (fs_master_w s)[i := it_interest item AND OP_WRITE \<noteq> 0]\<rparr>)"
proof -
  have "item_used item" using assms(3) by (simp add: item_used_def FD_UNUSED_def)
  then show ?thesis using assms
    by (simp add: items_update_fdset_for_fd_def)
qed

text \<open>Storing a used item in its slot and updating the sets keeps the invariant.\<close>

lemma sets_ok_update:
  assumes "sets_ok s" "i < ITEMS_MAX_SIZE" "sel_entry s' = (sel_entry s)(i := e)"
    "fs_master_r s' = (fs_master_r s)[i := case e of None \<Rightarrow> False | Some (h, n, d) \<Rightarrow> n AND OP_READ \<noteq> 0]"
    "fs_master_w s' = (fs_master_w s)[i := case e of None \<Rightarrow> False | Some (h, n, d) \<Rightarrow> n AND OP_WRITE \<noteq> 0]"
  shows "sets_ok s'"
  using assms by (auto simp: sets_ok_def wants_def nth_list_update split: option.splits)

lemma sel_entry_update:
  assumes "i < length (fs_fds s)" "fs_fds s' = (fs_fds s)[i := item]"
  shows "sel_entry s' = (sel_entry s)(i := if item_used item
     then Some (the (it_handler item), it_interest item, it_data item) else None)"
  using assms by (auto simp: sel_entry_def fun_eq_iff nth_list_update)

lemma put_item:
  assumes "sel_ok s" "i < fs_fd_size s" "i < ITEMS_MAX_SIZE" "it_fd item = int i" "it_handler item = Some h"
    "int i \<le> m" "fs_max_fd s \<le> m" "m < int (fs_fd_size s)"
  shows "\<exists>s'. bindR (item_put (int i) item s) (\<lambda>s. items_update_fdset_for_fd item (s\<lparr>fs_max_fd := m\<rparr>)) = Inr s' \<and>
     sel_ok s' \<and> fs_max_fd s' = m \<and> sel_entry s' = (sel_entry s)(i \<mapsto> (h, it_interest item, it_data item)) \<and> same_rest s s'"
proof -
  have s: "length (fs_fds s) = fs_fd_size s" "slots_ok s" "sets_ok s" using assms(1) by (auto simp: sel_ok_def)
  have len: "length (fs_master_r s) = ITEMS_MAX_SIZE" "length (fs_master_w s) = ITEMS_MAX_SIZE"
    using s(3) by (auto simp: sets_ok_def)
  have used: "item_used item" using assms(4) by (simp add: item_used_def FD_UNUSED_def)
  let ?s = "s\<lparr>fs_fds := (fs_fds s)[i := item], fs_max_fd := m,
      fs_master_r := (fs_master_r s)[i := it_interest item AND OP_READ \<noteq> 0],
      fs_master_w := (fs_master_w s)[i := it_interest item AND OP_WRITE \<noteq> 0]\<rparr>"
  have v: "bindR (item_put (int i) item s) (\<lambda>s. items_update_fdset_for_fd item (s\<lparr>fs_max_fd := m\<rparr>)) = Inr ?s"
    using assms(2,3,4) s(1) len
    by (simp add: item_put_def update_set_value [where i = i])
  have e: "sel_entry ?s = (sel_entry s)(i \<mapsto> (h, it_interest item, it_data item))"
    using sel_entry_update [of i s ?s item] assms(2,5) s(1) used by simp
  have "slots_ok ?s"
    using s(1,2) assms used by (auto simp: slots_ok_def nth_list_update split: if_splits)
  moreover have "sets_ok ?s" using sets_ok_update [OF s(3) assms(3) e] by simp
  ultimately have "sel_ok ?s" using assms(1,6,7,8) s(1) by (auto simp: sel_ok_def)
  then show ?thesis using v e by (intro exI [of _ ?s]) (simp add: same_rest_def)
qed

lemma sel_ok_fd: "sel_ok s \<Longrightarrow> i < fs_fd_size s \<Longrightarrow> sel_entry s i = Some e \<Longrightarrow> i < ITEMS_MAX_SIZE"
  by (auto simp: sel_ok_def slots_ok_def sel_entry_def split: if_splits)

lemma register_bound: "fd \<ge> 0 \<Longrightarrow> \<not> invalid_fd fd \<longleftrightarrow> nat fd < ITEMS_MAX_SIZE"
  by (auto simp: invalid_fd_def)

lemma register_free:
  assumes "sel_ok s" "i < fs_fd_size s" "i < ITEMS_MAX_SIZE" "sel_entry s i = None"
  shows "\<exists>s'. selector_register env (int i) (Some h) interest data s = Inr (SELECTOR_SUCCESS, s') \<and>
     sel_ok s' \<and> sel_entry s' = (sel_entry s)(i \<mapsto> (h, interest, data)) \<and> same_rest s s'"
proof -
  have s: "length (fs_fds s) = fs_fd_size s" using assms(1) by (auto simp: sel_ok_def)
  let ?item = "(fs_fds s ! i)\<lparr>it_fd := int i, it_handler := Some h, it_interest := interest, it_data := data\<rparr>"
  let ?m = "if int i > fs_max_fd s then int i else fs_max_fd s"
  have m: "int i \<le> ?m" "fs_max_fd s \<le> ?m" "?m < int (fs_fd_size s)" using assms(1,2) by (auto simp: sel_ok_def)
  obtain s' where s': "bindR (item_put (int i) ?item s) (\<lambda>s. items_update_fdset_for_fd ?item (s\<lparr>fs_max_fd := ?m\<rparr>)) = Inr s'"
      "sel_ok s'" "sel_entry s' = (sel_entry s)(i \<mapsto> (h, interest, data))" "same_rest s s'"
    using put_item [OF assms(1-3) _ _ m, of ?item h] by auto
  have "\<not> item_used (fs_fds s ! i)" using assms(2,4) s by (auto simp: sel_entry_iff)
  moreover have "\<not> invalid_fd (int i)" using assms(3) by (simp add: invalid_fd_def)
  moreover have "(item_put (int i) ?item s) = Inr (s\<lparr>fs_fds := (fs_fds s)[i := ?item]\<rparr>)"
    using assms(2) s by (simp add: item_put_def)
  ultimately show ?thesis using s' assms(2) s
    by (intro exI [of _ s']) (auto simp: selector_register_def item_at_def Let_def)
qed

lemma register_used:
  assumes "sel_ok s" "i < fs_fd_size s" "sel_entry s i = Some e"
  shows "selector_register env (int i) (Some h) interest data s = Inr (SELECTOR_FDINUSE, s)"
proof -
  have "length (fs_fds s) = fs_fd_size s" "item_used (fs_fds s ! i)" "\<not> invalid_fd (int i)"
    using assms sel_ok_fd [OF assms] by (auto simp: sel_ok_def sel_entry_def invalid_fd_def split: if_splits)
  then show ?thesis using assms(2) by (simp add: selector_register_def item_at_def)
qed

lemma set_interest_ok:
  assumes "sel_ok s" "i < fs_fd_size s" "sel_entry s i = Some (h, n, d)"
  shows "\<exists>s'. selector_set_interest (int i) interest s = Inr (SELECTOR_SUCCESS, s') \<and>
     sel_ok s' \<and> sel_entry s' = (sel_entry s)(i \<mapsto> (h, interest, d)) \<and> same_rest s s'"
proof -
  have s: "length (fs_fds s) = fs_fd_size s" "slots_ok s" using assms(1) by (auto simp: sel_ok_def)
  have i: "i < ITEMS_MAX_SIZE" "\<not> invalid_fd (int i)"
    using sel_ok_fd [OF assms] by (auto simp: invalid_fd_def)
  have it: "item_used (fs_fds s ! i)" "it_handler (fs_fds s ! i) = Some h" "it_data (fs_fds s ! i) = d"
      "it_fd (fs_fds s ! i) = int i" "int i \<le> fs_max_fd s"
    using assms(2,3) s by (auto simp: sel_entry_def slots_ok_def split: if_splits)
  have m: "fs_max_fd s < int (fs_fd_size s)" using assms(1) by (simp add: sel_ok_def)
  let ?item = "(fs_fds s ! i)\<lparr>it_interest := interest\<rparr>"
  obtain s' where s': "bindR (item_put (int i) ?item s) (\<lambda>t. items_update_fdset_for_fd ?item (t\<lparr>fs_max_fd := fs_max_fd s\<rparr>)) = Inr s'"
      "sel_ok s'" "sel_entry s' = (sel_entry s)(i \<mapsto> (h, interest, d))" "same_rest s s'"
    using put_item [OF assms(1,2) i(1) _ _ it(5) order_refl m, of ?item h] it by auto
  have "item_put (int i) ?item s = Inr (s\<lparr>fs_fds := (fs_fds s)[i := ?item]\<rparr>)"
    using assms(2) s by (simp add: item_put_def)
  then show ?thesis using s' it i assms(2) s
    by (intro exI [of _ s']) (auto simp: selector_set_interest_def item_at_def)
qed

lemma set_interest_absent:
  assumes "sel_ok s" "i < fs_fd_size s" "sel_entry s i = None"
  shows "selector_set_interest (int i) interest s = Inr (SELECTOR_IARGS, s)"
  using assms by (auto simp: selector_set_interest_def item_at_def sel_entry_iff sel_ok_def)

section \<open>Unregistering\<close>

lemma fold_max_fd:
  fixes a :: int and xs :: "('h, 'd) item list"
  defines "m \<equiv> fold (\<lambda>item m. if item_used item \<and> it_fd item > m then it_fd item else m) xs a"
  shows "a \<le> m \<and> (\<forall>x\<in>set xs. item_used x \<longrightarrow> it_fd x \<le> m) \<and> (m = a \<or> (\<exists>x\<in>set xs. item_used x \<and> m = it_fd x))"
  unfolding m_def
proof (induction xs arbitrary: a)
  case Nil
  then show ?case by simp
next
  case (Cons x xs)
  show ?case using Cons.IH [of "if item_used x \<and> it_fd x > a then it_fd x else a"]
    by (auto split: if_splits)
qed

lemma item_init_simps [simp]: "\<not> item_used (item_init x)" "it_interest (item_init x) = it_interest x"
  "it_interest zero_item = 0"
  by (simp_all add: item_used_def item_init_def FD_UNUSED_def zero_item_def)

text \<open>The call of \<^verbatim>\<open>handle_close\<close>.\<close>

definition close_item ::
  "('h, 'd, 'w) caller \<Rightarrow> 'h fd_handler \<Rightarrow> 'd selector_key \<Rightarrow> ('h, 'd, 'w) sys \<Rightarrow> fault + ('h, 'd, 'w) sys" where
  "close_item call h key sw = (case fh_close h of None \<Rightarrow> Inr sw | Some f \<Rightarrow> call f key sw)"

lemma unregister_absent:
  assumes "sel_ok s" "i < fs_fd_size s" "sel_entry s i = None"
  shows "selector_unregister_fd call (int i) (s, w) = Inr (SELECTOR_IARGS, (s, w))"
  using assms by (auto simp: selector_unregister_fd_def item_at_def sel_entry_iff sel_ok_def)

lemma unregister_ok:
  assumes "sel_ok s" "i < fs_fd_size s" "sel_entry s i = Some (h, n, d)"
    "close_item call h \<lparr>key_fd = int i, key_data = d\<rparr> (s, w) = Inr (s, w')"
  shows "\<exists>s'. selector_unregister_fd call (int i) (s, w) = Inr (SELECTOR_SUCCESS, (s', w')) \<and>
     sel_ok s' \<and> sel_entry s' = (sel_entry s)(i := None) \<and> same_rest s s'"
proof -
  have s: "length (fs_fds s) = fs_fd_size s" "slots_ok s" "sets_ok s" "0 \<le> fs_max_fd s" "fs_max_fd s < int (fs_fd_size s)"
      "0 < fs_fd_size s"
    using assms(1) by (auto simp: sel_ok_def)
  have i: "i < ITEMS_MAX_SIZE" "\<not> invalid_fd (int i)"
    using sel_ok_fd [OF assms(1-3)] by (auto simp: invalid_fd_def)
  have it: "item_used (fs_fds s ! i)" "it_handler (fs_fds s ! i) = Some h" "it_data (fs_fds s ! i) = d"
      "it_fd (fs_fds s ! i) = int i" "int i \<le> fs_max_fd s"
    using assms(2,3) s by (auto simp: sel_entry_def slots_ok_def split: if_splits)
  have len: "length (fs_master_r s) = ITEMS_MAX_SIZE" "length (fs_master_w s) = ITEMS_MAX_SIZE"
    using s(3) by (auto simp: sets_ok_def)
  let ?item = "(fs_fds s ! i)\<lparr>it_interest := OP_NOOP\<rparr>"
  let ?fds = "(fs_fds s)[i := item_init zero_item]"
  define m where "m = fold (\<lambda>item m. if item_used item \<and> it_fd item > m then it_fd item else m)
      (take (nat (fs_max_fd s + 1)) ?fds) 0"
  let ?s = "s\<lparr>fs_fds := ?fds, fs_master_r := (fs_master_r s)[i := False], fs_master_w := (fs_master_w s)[i := False],
      fs_max_fd := m\<rparr>"
  have v: "selector_unregister_fd call (int i) (s, w) = Inr (SELECTOR_SUCCESS, (?s, w'))"
    using i(2) it assms(2,4) s(1,4,5) i(1) len
    by (simp add: selector_unregister_fd_def item_at_def close_item_def [symmetric] item_put_def
        update_set_value [where i = i] items_max_fd_def m_def OP_NOOP_def)
  have M: "0 \<le> m" "\<forall>x\<in>set (take (nat (fs_max_fd s + 1)) ?fds). item_used x \<longrightarrow> it_fd x \<le> m"
      "m = 0 \<or> (\<exists>x\<in>set (take (nat (fs_max_fd s + 1)) ?fds). item_used x \<and> m = it_fd x)"
    using fold_max_fd [of 0 "take (nat (fs_max_fd s + 1)) ?fds"] by (auto simp: m_def)
  have slot: "it_fd (?fds ! j) = int j \<and> j < ITEMS_MAX_SIZE \<and> int j \<le> fs_max_fd s \<and> it_handler (?fds ! j) \<noteq> None"
    if "j < length ?fds" "item_used (?fds ! j)" for j
    using that s(1,2) by (cases "j = i") (auto simp: slots_ok_def)
  have "slots_ok ?s"
  proof -
    have "int j \<le> m" if j: "j < length ?fds" "item_used (?fds ! j)" for j
    proof -
      have "?fds ! j \<in> set (take (nat (fs_max_fd s + 1)) ?fds)"
        using slot [OF j] j(1) s(4) by (auto simp: in_set_conv_nth intro!: exI [of _ j])
      then show ?thesis using M(2) slot [OF j] j(2) by auto
    qed
    moreover have "it_interest (?fds ! j) = 0" if "j < length ?fds" "\<not> item_used (?fds ! j)" for j
      using that s(2) by (cases "j = i") (auto simp: slots_ok_def split: if_splits)
    ultimately show ?thesis using slot by (auto simp: slots_ok_def)
  qed
  moreover have "m < int (fs_fd_size s)"
    using M(3)
  proof
    assume "\<exists>x\<in>set (take (nat (fs_max_fd s + 1)) ?fds). item_used x \<and> m = it_fd x"
    then obtain j where "j < length ?fds" "item_used (?fds ! j)" "m = it_fd (?fds ! j)"
      by (auto simp: in_set_conv_nth)
    then show ?thesis using slot [of j] s(5) by auto
  qed (use s(6) in simp)
  moreover have e: "sel_entry ?s = (sel_entry s)(i := None)"
    using sel_entry_update [of i s ?s "item_init zero_item"] assms(2) s(1) by simp
  moreover have "sets_ok ?s" using sets_ok_update [OF s(3) i(1) e] by simp
  ultimately have "sel_ok ?s" using s M(1) by (auto simp: sel_ok_def)
  then show ?thesis using v e by (intro exI [of _ ?s]) (simp add: same_rest_def)
qed

section \<open>Growing\<close>

lemma new_ok:
  fixes env :: "('h, 'd) sel_env"
  assumes "n \<le> ITEMS_MAX_SIZE" "\<And>k. sl_calloc env k"
  shows "\<exists>s. selector_new env True t n = Inr (Some s) \<and> sel_ok s \<and> sel_entry s = Map.empty \<and>
     n < fs_fd_size s \<and> fs_fd_size s \<le> ITEMS_MAX_SIZE + 1 \<and> fs_block s = 0"
proof -
  obtain m where m: "next_capacity n = Inr m" "n < m" "m \<le> ITEMS_MAX_SIZE + 1"
    using next_capacity_bounds [OF assms(1)] by blast
  let ?s = "zero_selector\<lparr>fs_master_t := t, fs_fds := map item_init (replicate m zero_item), fs_fd_size := m\<rparr>
    :: ('h, 'd) fdselector"
  have "selector_new env True t n = Inr (Some ?s)"
    using m assms by (simp add: selector_new_def ensure_capacity_def zero_selector_def items_init_def overwrite_def)
  moreover have e: "sel_entry ?s = Map.empty" by (auto simp: sel_entry_def fun_eq_iff)
  moreover have "sel_ok ?s"
  proof -
    have "\<not> wants f ?s i" for f i unfolding wants_def e by simp
    then have "sets_ok ?s" unfolding sets_ok_def by (simp add: zero_selector_def)
    then show ?thesis using m(2) by (simp add: sel_ok_def slots_ok_def zero_selector_def)
  qed
  ultimately show ?thesis using m by (intro exI [of _ ?s]) (simp add: zero_selector_def)
qed

lemma ensure_capacity_ok:
  assumes "sel_ok s" "fs_fd_size s \<le> n" "n \<le> ITEMS_MAX_SIZE" "\<And>k. sl_realloc env k"
    "\<And>j. it_interest (sl_junk env j) = 0"
  shows "\<exists>s'. ensure_capacity env s n = Inr (SELECTOR_SUCCESS, s') \<and> sel_ok s' \<and> sel_entry s' = sel_entry s \<and>
     n < fs_fd_size s' \<and> fs_fd_size s' \<le> ITEMS_MAX_SIZE + 1 \<and> fs_block s' = Suc (fs_block s)"
proof -
  obtain m where m: "next_capacity n = Inr m" "n < m" "m \<le> ITEMS_MAX_SIZE + 1"
    using next_capacity_bounds [OF assms(3)] by blast
  have s: "length (fs_fds s) = fs_fd_size s" "slots_ok s" "sets_ok s" "0 \<le> fs_max_fd s" "fs_max_fd s < int (fs_fd_size s)"
      "0 < fs_fd_size s"
    using assms(1) by (auto simp: sel_ok_def)
  have le: "fs_fd_size s \<le> m" using assms(2) m(2) by simp
  have ne: "fs_fds s \<noteq> []" using s(1,6) by auto
  let ?fds = "fs_fds s @ map (\<lambda>j. item_init (sl_junk env j)) [fs_fd_size s..<m]"
  let ?s = "s\<lparr>fs_fds := ?fds, fs_block := Suc (fs_block s), fs_fd_size := m\<rparr>"
  have "\<not> m > SIZE_MAX div ITEM_BYTES" using m(3) by (simp add: SIZE_MAX_def ITEM_BYTES_def ITEMS_MAX_SIZE_def)
  then have v: "ensure_capacity env s n = Inr (SELECTOR_SUCCESS, ?s)"
    using assms(2-4) m(1) ne s(1) le
    by (simp add: ensure_capacity_def items_init_def overwrite_def comp_def)
  have used: "item_used (?fds ! j) \<longleftrightarrow> j < fs_fd_size s \<and> item_used (fs_fds s ! j)" if "j < length ?fds" for j
    using that s(1) by (auto simp: nth_append)
  have e: "sel_entry ?s = sel_entry s"
    using s(1) by (auto simp: sel_entry_def fun_eq_iff nth_append)
  have "slots_ok ?s" using s(1,2) assms(5) by (auto simp: slots_ok_def nth_append)
  moreover have "sets_ok ?s" using s(3) e by (simp add: sets_ok_def wants_def)
  ultimately have "sel_ok ?s" using s le by (auto simp: sel_ok_def)
  then show ?thesis using v e m by (intro exI [of _ ?s]) simp
qed

section \<open>A map from descriptors\<close>

text \<open>The registrations as a client sees them, on the selector and on a map.\<close>

datatype ('h, 'd) sel_op =
    Register int "'h fd_handler option" fd_interest "'d option"
  | Unregister int
  | Set_Interest int fd_interest

fun sel_step ::
  "('h, 'd) sel_env \<Rightarrow> ('h, 'd, 'w) caller \<Rightarrow> ('h, 'd) sel_op \<Rightarrow> ('h, 'd, 'w) sys \<Rightarrow>
   fault + (selector_status \<times> ('h, 'd, 'w) sys)" where
  "sel_step env call (Register fd h n d) (s, w) =
     bindR (selector_register env fd h n d s) (\<lambda>(ret, s). Inr (ret, (s, w)))"
| "sel_step env call (Unregister fd) (s, w) = selector_unregister_fd call fd (s, w)"
| "sel_step env call (Set_Interest fd n) (s, w) =
     bindR (selector_set_interest fd n s) (\<lambda>(ret, s). Inr (ret, (s, w)))"

type_synonym ('h, 'd) registrations = "nat \<Rightarrow> ('h fd_handler \<times> fd_interest \<times> 'd option) option"

fun map_step ::
  "('h, 'd) sel_op \<Rightarrow> ('h, 'd) registrations \<Rightarrow> selector_status \<times> ('h, 'd) registrations" where
  "map_step (Register fd h n d) m =
     (if invalid_fd fd then (SELECTOR_IARGS, m)
      else case h of
        None \<Rightarrow> (SELECTOR_IARGS, m)
      | Some h \<Rightarrow> if m (nat fd) = None then (SELECTOR_SUCCESS, m(nat fd \<mapsto> (h, n, d))) else (SELECTOR_FDINUSE, m))"
| "map_step (Unregister fd) m =
     (if invalid_fd fd \<or> m (nat fd) = None then (SELECTOR_IARGS, m) else (SELECTOR_SUCCESS, m(nat fd := None)))"
| "map_step (Set_Interest fd n) m =
     (if invalid_fd fd then (SELECTOR_IARGS, m)
      else case m (nat fd) of
        None \<Rightarrow> (SELECTOR_IARGS, m)
      | Some (h, _, d) \<Rightarrow> (SELECTOR_SUCCESS, m(nat fd \<mapsto> (h, n, d))))"

fun sel_run ::
  "('h, 'd) sel_env \<Rightarrow> ('h, 'd, 'w) caller \<Rightarrow> ('h, 'd) sel_op list \<Rightarrow> ('h, 'd, 'w) sys \<Rightarrow>
   fault + (selector_status list \<times> ('h, 'd, 'w) sys)" where
  "sel_run env call [] sw = Inr ([], sw)"
| "sel_run env call (x # xs) sw =
     bindR (sel_step env call x sw) (\<lambda>(ret, sw).
     bindR (sel_run env call xs sw) (\<lambda>(rets, sw). Inr (ret # rets, sw)))"

fun map_run ::
  "('h, 'd) sel_op list \<Rightarrow> ('h, 'd) registrations \<Rightarrow> selector_status list \<times> ('h, 'd) registrations" where
  "map_run [] m = ([], m)"
| "map_run (x # xs) m = (let (ret, m) = map_step x m; (rets, m) = map_run xs m in (ret # rets, m))"

lemma valid_fd: "\<not> invalid_fd fd \<Longrightarrow> fd = int (nat fd) \<and> nat fd < ITEMS_MAX_SIZE"
  by (auto simp: invalid_fd_def)

lemma same_restD: "same_rest s s' \<Longrightarrow> fs_fd_size s' = fs_fd_size s"
  by (simp add: same_rest_def)

text \<open>With room for every descriptor, and handlers that leave the selector alone when they close.\<close>

lemma step_refines:
  assumes "sel_ok s" "fs_fd_size s = Suc ITEMS_MAX_SIZE"
    "\<And>f key s w. \<exists>w'. call f key (s, w) = Inr (s, w')"
  shows "\<exists>s' w'. sel_step env call x (s, w) = Inr (fst (map_step x (sel_entry s)), (s', w')) \<and> sel_ok s' \<and>
     sel_entry s' = snd (map_step x (sel_entry s)) \<and> fs_fd_size s' = Suc ITEMS_MAX_SIZE"
proof (cases x)
  case (Register fd h n d)
  show ?thesis
  proof (cases "invalid_fd fd \<or> h = None")
    case True
    then show ?thesis using assms(1,2) by (auto simp: Register selector_register_def split: option.splits)
  next
    case False
    then obtain h' where h: "h = Some h'" "\<not> invalid_fd fd" by auto
    obtain i where i: "fd = int i" "i < ITEMS_MAX_SIZE" "i < fs_fd_size s"
      using valid_fd [OF h(2)] assms(2) by (metis less_Suc_eq)
    show ?thesis
    proof (cases "sel_entry s i")
      case None
      obtain s' where "selector_register env (int i) (Some h') n d s = Inr (SELECTOR_SUCCESS, s')" "sel_ok s'"
          "sel_entry s' = (sel_entry s)(i \<mapsto> (h', n, d))" "same_rest s s'"
        using register_free [OF assms(1) i(3,2) None] by blast
      then show ?thesis using h i None assms(2) by (auto simp: Register dest: same_restD)
    next
      case (Some e)
      then show ?thesis using register_used [OF assms(1) i(3) Some] h i assms by (auto simp: Register)
    qed
  qed
next
  case (Unregister fd)
  show ?thesis
  proof (cases "invalid_fd fd")
    case True
    then show ?thesis using assms(1,2) by (auto simp: Unregister selector_unregister_fd_def)
  next
    case False
    obtain i where i: "fd = int i" "i < ITEMS_MAX_SIZE" "i < fs_fd_size s"
      using valid_fd [OF False] assms(2) by (metis less_Suc_eq)
    show ?thesis
    proof (cases "sel_entry s i")
      case None
      then show ?thesis using unregister_absent [OF assms(1) i(3) None, of call w] i assms by (auto simp: Unregister)
    next
      case (Some e)
      then obtain h n d where e: "sel_entry s i = Some (h, n, d)" by (cases e) auto
      obtain w' where "close_item call h \<lparr>key_fd = int i, key_data = d\<rparr> (s, w) = Inr (s, w')"
        using assms(3) [of "the (fh_close h)" "\<lparr>key_fd = int i, key_data = d\<rparr>" s w]
        by (cases "fh_close h") (auto simp: close_item_def)
      from unregister_ok [OF assms(1) i(3) e this] obtain s' where
        "selector_unregister_fd call (int i) (s, w) = Inr (SELECTOR_SUCCESS, (s', w'))" "sel_ok s'"
        "sel_entry s' = (sel_entry s)(i := None)" "same_rest s s'" by blast
      then show ?thesis using False i e assms(2) by (auto simp: Unregister dest: same_restD)
    qed
  qed
next
  case (Set_Interest fd n)
  show ?thesis
  proof (cases "invalid_fd fd")
    case True
    then show ?thesis using assms(1,2) by (auto simp: Set_Interest selector_set_interest_def)
  next
    case False
    obtain i where i: "fd = int i" "i < ITEMS_MAX_SIZE" "i < fs_fd_size s"
      using valid_fd [OF False] assms(2) by (metis less_Suc_eq)
    show ?thesis
    proof (cases "sel_entry s i")
      case None
      then show ?thesis using set_interest_absent [OF assms(1) i(3) None, of n] False i assms by (auto simp: Set_Interest)
    next
      case (Some e)
      then obtain h m d where e: "sel_entry s i = Some (h, m, d)" by (cases e) auto
      obtain s' where "selector_set_interest (int i) n s = Inr (SELECTOR_SUCCESS, s')" "sel_ok s'"
          "sel_entry s' = (sel_entry s)(i \<mapsto> (h, n, d))" "same_rest s s'"
        using set_interest_ok [OF assms(1) i(3) e] by blast
      then show ?thesis using False i e assms(2) by (auto simp: Set_Interest dest: same_restD)
    qed
  qed
qed

lemma run_refines:
  assumes "\<And>f key s w. \<exists>w'. call f key (s, w) = Inr (s, w')"
  shows "sel_ok s \<Longrightarrow> fs_fd_size s = Suc ITEMS_MAX_SIZE \<Longrightarrow>
    \<exists>s' w'. sel_run env call xs (s, w) = Inr (fst (map_run xs (sel_entry s)), (s', w')) \<and> sel_ok s' \<and>
     sel_entry s' = snd (map_run xs (sel_entry s))"
proof (induction xs arbitrary: s w)
  case Nil
  then show ?case by simp
next
  case (Cons x xs)
  obtain s1 w1 where 1: "sel_step env call x (s, w) = Inr (fst (map_step x (sel_entry s)), (s1, w1))" "sel_ok s1"
      "sel_entry s1 = snd (map_step x (sel_entry s))" "fs_fd_size s1 = Suc ITEMS_MAX_SIZE"
    using step_refines [where call = call and env = env and x = x and w = w, OF Cons.prems assms] by blast
  obtain s2 w2 where "sel_run env call xs (s1, w1) = Inr (fst (map_run xs (sel_entry s1)), (s2, w2))" "sel_ok s2"
      "sel_entry s2 = snd (map_run xs (sel_entry s1))"
    using Cons.IH [OF 1(2,4)] by blast
  then show ?case using 1 by (auto simp: Let_def split: prod.splits)
qed

section \<open>Dispatch\<close>

text \<open>The state of the selector between two iterations of the main loop of the proxy.\<close>

definition sel_inv :: "('h, 'd) fdselector \<Rightarrow> bool" where
  "sel_inv s \<longleftrightarrow>
     sel_ok s \<and> fs_fd_size s = Suc ITEMS_MAX_SIZE \<and> fs_block s = 0 \<and> fs_resolution_jobs s = [] \<and>
     length (fs_slave_r s) = ITEMS_MAX_SIZE \<and> length (fs_slave_w s) = ITEMS_MAX_SIZE \<and> gc_collect (fs_gc s) \<noteq> None"

text \<open>An item waits for an event that its handler has no function for.\<close>

definition unhandled :: "('h, 'd) fdselector \<Rightarrow> bool" where
  "unhandled s \<longleftrightarrow>
     (\<exists>i h n d. sel_entry s i = Some (h, n, d) \<and>
        (OP_READ AND n \<noteq> 0 \<and> fh_read h = None \<or> OP_WRITE AND n \<noteq> 0 \<and> fh_write h = None))"

lemma sel_inv_item:
  assumes "sel_inv s" "i \<le> ITEMS_MAX_SIZE"
  shows "item_at s (int i) = Inr (fs_fds s ! i)"
    "item_used (fs_fds s ! i) \<Longrightarrow> it_fd (fs_fds s ! i) = int i \<and> i < ITEMS_MAX_SIZE \<and>
       (\<exists>h. it_handler (fs_fds s ! i) = Some h \<and>
          sel_entry s i = Some (h, it_interest (fs_fds s ! i), it_data (fs_fds s ! i)))"
  using assms by (auto simp: sel_inv_def sel_ok_def slots_ok_def item_at_def sel_entry_def)

text \<open>
  The states the calls of the selector can run in: \<open>sw0\<close>, the states the functions leave, and the same
  items with other ready sets or another time of the collection.
\<close>

inductive reached :: "('h, 'd, 'w) caller \<Rightarrow> ('h, 'd, 'w) sys \<Rightarrow> ('h, 'd, 'w) sys \<Rightarrow> bool"
  for call sw0 where
  start: "reached call sw0 sw0"
| called: "reached call sw0 sw \<Longrightarrow> call f key sw = Inr sw' \<Longrightarrow> reached call sw0 sw'"
| other: "reached call sw0 (s, w) \<Longrightarrow> fs_fds s' = fs_fds s \<Longrightarrow> reached call sw0 (s', w)"

text \<open>
  The interface between the selector and the functions it calls: they may do what they like to the
  program, as long as they leave the selector in order. Then the selector itself never faults.
\<close>

locale sel_client =
  fixes call :: "('h, 'd, 'w) caller"
  assumes call_inv: "sel_inv (fst sw) \<Longrightarrow> call f key sw = Inr sw' \<Longrightarrow> sel_inv (fst sw')"
begin

text \<open>A state in order that can be reached, and the ways a run can end.\<close>

definition fine :: "('h, 'd, 'w) sys \<Rightarrow> ('h, 'd, 'w) sys \<Rightarrow> bool" where
  "fine sw0 sw \<longleftrightarrow> sel_inv (fst sw) \<and> reached call sw0 sw"

definition outcome :: "('h, 'd, 'w) sys \<Rightarrow> fault + 'a \<Rightarrow> ('a \<Rightarrow> ('h, 'd, 'w) sys) \<Rightarrow> bool" where
  "outcome sw0 r sys_of \<longleftrightarrow>
     (case r of
        Inr x \<Rightarrow> fine sw0 (sys_of x)
      | Inl e \<Rightarrow> (\<exists>f key sw. fine sw0 sw \<and> call f key sw = Inl e) \<or>
                 e = AssertFail \<and> (\<exists>sw. fine sw0 sw \<and> unhandled (fst sw)))"

lemma outcome_Inr [simp]: "outcome sw0 (Inr x) sys_of \<longleftrightarrow> fine sw0 (sys_of x)"
  by (simp add: outcome_def)

lemma outcome_bind:
  assumes "outcome sw0 m sys_of" "\<And>x. fine sw0 (sys_of x) \<Longrightarrow> outcome sw0 (f x) sys_of'"
  shows "outcome sw0 (bindR m f) sys_of'"
  using assms by (cases m) (auto simp: outcome_def)

lemma fine_inv: "fine sw0 (s, w) \<Longrightarrow> sel_inv s"
  by (simp add: fine_def)

lemma outcome_call: "fine sw0 sw \<Longrightarrow> outcome sw0 (call f key sw) (\<lambda>sw. sw)"
proof (cases "call f key sw")
  case (Inl e)
  moreover assume "fine sw0 sw"
  ultimately have "\<exists>f key sw. fine sw0 sw \<and> call f key sw = Inl e" by blast
  then show ?thesis using Inl by (simp add: outcome_def)
next
  case (Inr sw')
  moreover assume "fine sw0 sw"
  ultimately have "sel_inv (fst sw')" "reached call sw0 sw'"
    by (auto simp: fine_def dest: call_inv reached.called simp del: split_paired_All)
  then show ?thesis using Inr by (simp add: fine_def)
qed

lemma outcome_unhandled:
  "fine sw0 (s, w) \<Longrightarrow> unhandled s \<Longrightarrow> outcome sw0 (Inl AssertFail :: fault + 'a) sys_of"
  unfolding outcome_def by force

lemma dispatch_read:
  assumes "fine sw0 (s, w)" "i \<le> ITEMS_MAX_SIZE" "item_used (fs_fds s ! i)" "length ready = ITEMS_MAX_SIZE"
  shows "outcome sw0 (dispatch call fh_read OP_READ ready (it_fd (fs_fds s ! i)) (fs_fds s ! i) key (s, w)) (\<lambda>sw. sw)"
proof -
  obtain h where h: "it_fd (fs_fds s ! i) = int i" "i < ITEMS_MAX_SIZE" "it_handler (fs_fds s ! i) = Some h"
      "sel_entry s i = Some (h, it_interest (fs_fds s ! i), it_data (fs_fds s ! i))"
    using sel_inv_item(2) [OF fine_inv [OF assms(1)] assms(2,3)] by blast
  have "fh_read h = None \<Longrightarrow> OP_READ AND it_interest (fs_fds s ! i) \<noteq> 0 \<Longrightarrow>
      outcome sw0 (Inl AssertFail :: fault + ('h, 'd, 'w) sys) (\<lambda>sw. sw)"
    using h(4) by (intro outcome_unhandled [OF assms(1)]) (auto simp: unhandled_def)
  then show ?thesis
    using h outcome_call [OF assms(1)] assms(1,4)
    by (cases "fh_read h") (simp_all add: dispatch_def)
qed

lemma dispatch_write:
  assumes "fine sw0 (s, w)" "i < ITEMS_MAX_SIZE" "length ready = ITEMS_MAX_SIZE"
  shows "outcome sw0 (dispatch call fh_write OP_WRITE ready (int i) (fs_fds s ! i) key (s, w)) (\<lambda>sw. sw)"
proof (cases "item_used (fs_fds s ! i)")
  case True
  obtain h where h: "it_handler (fs_fds s ! i) = Some h"
      "sel_entry s i = Some (h, it_interest (fs_fds s ! i), it_data (fs_fds s ! i))"
    using sel_inv_item(2) [OF fine_inv [OF assms(1)] _ True] assms(2) by auto
  have "fh_write h = None \<Longrightarrow> OP_WRITE AND it_interest (fs_fds s ! i) \<noteq> 0 \<Longrightarrow>
      outcome sw0 (Inl AssertFail :: fault + ('h, 'd, 'w) sys) (\<lambda>sw. sw)"
    using h(2) by (intro outcome_unhandled [OF assms(1)]) (auto simp: unhandled_def)
  then show ?thesis
    using h outcome_call [OF assms(1)] assms
    by (cases "fh_write h") (simp_all add: dispatch_def)
next
  case False
  then have "it_interest (fs_fds s ! i) = 0"
    using fine_inv [OF assms(1)] assms(2) by (auto simp: sel_inv_def sel_ok_def slots_ok_def)
  then show ?thesis using assms by (simp add: dispatch_def)
qed

lemma iteration_outcome:
  "fine sw0 sw \<Longrightarrow> \<forall>i\<in>set is. i \<le> ITEMS_MAX_SIZE \<Longrightarrow> outcome sw0 (iteration_loop call is sw) (\<lambda>sw. sw)"
proof (induction "is" arbitrary: sw)
  case Nil
  then show ?case by simp
next
  case (Cons i "is")
  obtain s w where sw: "sw = (s, w)" by fastforce
  have f: "fine sw0 (s, w)" using Cons.prems by (simp add: sw)
  have s: "sel_inv s" "i \<le> ITEMS_MAX_SIZE" using fine_inv [OF f] Cons.prems by auto
  note at = sel_inv_item(1) [OF s]
  have len: "length (fs_slave_r s) = ITEMS_MAX_SIZE" using s(1) by (simp add: sel_inv_def)
  show ?case
  proof (cases "item_used (fs_fds s ! i)")
    case False
    then show ?thesis using Cons s by (simp add: sw at)
  next
    case True
    have i: "i < ITEMS_MAX_SIZE" using sel_inv_item(2) [OF s True] by blast
    have "outcome sw0 (bindR (dispatch call fh_read OP_READ (fs_slave_r s) (it_fd (fs_fds s ! i)) (fs_fds s ! i) key (s, w)) (\<lambda>sw'.
          if fs_block (fst sw') \<noteq> fs_block s then Inl UseAfterFree
          else bindR (item_at (fst sw') (int i)) (\<lambda>item.
            dispatch call fh_write OP_WRITE (fs_slave_w (fst sw')) (int i) item key sw'))) (\<lambda>sw. sw)" for key
    proof (rule outcome_bind [OF dispatch_read [OF f s(2) True len]])
      fix sw' :: "('h, 'd, 'w) sys" assume a: "fine sw0 sw'"
      obtain s' w' where sw': "sw' = (s', w')" by fastforce
      have "sel_inv s'" "fs_block s' = fs_block s" "length (fs_slave_w s') = ITEMS_MAX_SIZE"
        using a s(1) by (auto simp: sel_inv_def fine_def sw')
      then show "outcome sw0 (if fs_block (fst sw') \<noteq> fs_block s then Inl UseAfterFree
          else bindR (item_at (fst sw') (int i)) (\<lambda>item.
            dispatch call fh_write OP_WRITE (fs_slave_w (fst sw')) (int i) item key sw')) (\<lambda>sw. sw)"
        using a dispatch_write [of sw0 s' w' i] i sel_inv_item(1) [of s' i] by (simp add: sw')
    qed
    then show ?thesis
      using True Cons.IH Cons.prems(2) by (simp add: sw at Let_def) (rule outcome_bind, auto)
  qed
qed

lemma collect_outcome:
  "fine sw0 sw \<Longrightarrow> \<forall>i\<in>set is. i \<le> ITEMS_MAX_SIZE \<Longrightarrow> outcome sw0 (collect_loop call is sw) (\<lambda>sw. sw)"
proof (induction "is" arbitrary: sw)
  case Nil
  then show ?case by simp
next
  case (Cons i "is")
  obtain s w where sw: "sw = (s, w)" by fastforce
  have s: "sel_inv s" "i \<le> ITEMS_MAX_SIZE" using Cons.prems by (auto simp: sw fine_def)
  obtain f where f: "gc_collect (fs_gc s) = Some f" using s(1) by (auto simp: sel_inv_def)
  have "outcome sw0 (call f key (s, w)) (\<lambda>sw. sw)" for key using outcome_call Cons.prems(1) by (simp add: sw)
  then show ?case
    using Cons.IH Cons.prems s(1) by (auto simp: sw sel_inv_item(1) [OF s] f intro!: outcome_bind)
qed

lemma loop_range: "fine sw0 sw \<Longrightarrow> \<forall>i\<in>set [0..<nat (fs_max_fd (fst sw) + 1)]. i \<le> ITEMS_MAX_SIZE"
  by (auto simp: fine_def sel_inv_def sel_ok_def)

lemma handle_iteration_outcome: "fine sw0 sw \<Longrightarrow> outcome sw0 (handle_iteration call sw) (\<lambda>sw. sw)"
  using loop_range unfolding handle_iteration_def by (intro iteration_outcome)

lemma run_gc_outcome: "fine sw0 sw \<Longrightarrow> outcome sw0 (run_garbage_collector call sw) (\<lambda>sw. sw)"
  using loop_range unfolding run_garbage_collector_def by (intro collect_outcome)

lemma outcome_return:
  "outcome sw0 m (\<lambda>sw. sw) \<Longrightarrow> outcome sw0 (bindR m (\<lambda>sw. Inr (x, sw))) snd"
  by (erule outcome_bind) simp

lemma fine_other:
  "fine sw0 (s, w) \<Longrightarrow> fs_fds s' = fs_fds s \<Longrightarrow> sel_inv s' \<Longrightarrow> fine sw0 (s', w)"
  by (auto simp: fine_def intro: reached.other)

lemma select_outcome:
  assumes "sel_inv (fst sw)"
    "\<And>x. case pselect x of Ready r w \<Rightarrow> length r = ITEMS_MAX_SIZE \<and> length w = ITEMS_MAX_SIZE | Failed e \<Rightarrow> True"
  shows "outcome sw (selector_select call pselect now now' sw) snd"
proof -
  obtain s w where sw: "sw = (s, w)" by fastforce
  have s: "sel_inv s" using assms(1) by (simp add: sw)
  have f: "fine sw (s, w)" using s reached.start by (simp add: fine_def sw)
  let ?s = "s\<lparr>fs_slave_r := fs_master_r s, fs_slave_w := fs_master_w s, fs_slave_t := fs_master_t s\<rparr>"
  have frame: "fine sw (s\<lparr>fs_slave_r := r, fs_slave_w := v, fs_slave_t := t\<rparr>, w)"
      "fine sw (s\<lparr>fs_slave_t := t, fs_slave_r := r, fs_slave_w := v\<rparr>, w)"
    if "length r = ITEMS_MAX_SIZE" "length v = ITEMS_MAX_SIZE" for r v t
    using s that
    by (auto intro!: fine_other [OF f] simp: sel_inv_def sel_ok_def slots_ok_def sets_ok_def wants_def sel_entry_def)
  have m: "length (fs_master_r s) = ITEMS_MAX_SIZE" "length (fs_master_w s) = ITEMS_MAX_SIZE"
    using s by (simp_all add: sel_inv_def sel_ok_def sets_ok_def)
  have 1: "outcome sw (case pselect (?s, w) of
                  Failed EAGAIN \<Rightarrow> Inr (SELECTOR_SUCCESS, (?s, w))
                | Failed EINTR \<Rightarrow> Inr (SELECTOR_SUCCESS, (?s, w))
                | Failed _ \<Rightarrow> Inr (SELECTOR_IO, (?s, w))
                | Ready r v \<Rightarrow>
                    bindR (handle_iteration call (?s\<lparr>fs_slave_r := r, fs_slave_w := v\<rparr>, w)) (\<lambda>sw.
                    Inr (SELECTOR_SUCCESS, sw))) snd"
  proof (cases "pselect (?s, w)")
    case (Ready r v)
    then have "length r = ITEMS_MAX_SIZE" "length v = ITEMS_MAX_SIZE" using assms(2) [of "(?s, w)"] by auto
    then have "fine sw (?s\<lparr>fs_slave_r := r, fs_slave_w := v\<rparr>, w)" using frame(2) [of r v "fs_master_t s"] by simp
    then show ?thesis using Ready by (simp add: outcome_return handle_iteration_outcome)
  next
    case (Failed e)
    then show ?thesis using frame(1) [OF m] by (cases e) auto
  qed
  show ?thesis
    unfolding selector_select_def Let_def sw fst_conv snd_conv
  proof (rule outcome_bind [OF 1 [unfolded sw]], clarsimp split del: if_split)
    fix ret t v assume t: "fine (s, w) (t :: ('h, 'd) fdselector, v)"
    have "handle_block_notifications call (t, v) = Inr (t, v)"
      using fine_inv [OF t] by (simp add: handle_block_notifications_def sel_inv_def)
    moreover have "fine (s, w) (t\<lparr>fs_gc := fs_gc t\<lparr>gc_last_collection := now'\<rparr>\<rparr>, v)"
      using fine_inv [OF t]
      by (auto intro!: fine_other [OF t] simp: sel_inv_def sel_ok_def slots_ok_def sets_ok_def wants_def sel_entry_def)
    ultimately show "outcome (s, w) (if ret \<noteq> SELECTOR_SUCCESS then Inr (ret, t, v)
        else bindR (handle_block_notifications call (t, v)) (\<lambda>(s, w).
          if gc_collect (fs_gc s) \<noteq> None \<and> now - gc_last_collection (fs_gc s) \<ge> gc_interval (fs_gc s)
          then bindR (run_garbage_collector call (s\<lparr>fs_gc := (fs_gc s)\<lparr>gc_last_collection := now'\<rparr>\<rparr>, w)) (\<lambda>sw.
            Inr (SELECTOR_SUCCESS, sw))
          else Inr (SELECTOR_SUCCESS, (s, w)))) snd"
      using t by (simp add: outcome_return run_gc_outcome)
  qed
qed

end

section \<open>The operations under the invariant\<close>

lemma sel_inv_same: "sel_inv s \<Longrightarrow> sel_ok s' \<Longrightarrow> same_rest s s' \<Longrightarrow> sel_inv s'"
  by (simp add: sel_inv_def same_rest_def)

lemma sel_inv_room: "sel_inv s \<Longrightarrow> i < ITEMS_MAX_SIZE \<Longrightarrow> i < fs_fd_size s" "sel_inv s \<Longrightarrow> sel_ok s"
  by (simp_all add: sel_inv_def)

lemma set_interest_inv:
  assumes "sel_inv s"
  shows "\<exists>s'. selector_set_interest fd n s = Inr (fst (map_step (Set_Interest fd n) (sel_entry s)), s') \<and>
     sel_inv s' \<and> sel_entry s' = snd (map_step (Set_Interest fd n) (sel_entry s)) \<and> same_rest s s'"
proof (cases "invalid_fd fd")
  case True
  then show ?thesis using assms by (auto simp: selector_set_interest_def same_rest_def)
next
  case False
  obtain i where i: "fd = int i" "i < ITEMS_MAX_SIZE" "i < fs_fd_size s"
    using valid_fd [OF False] sel_inv_room(1) [OF assms] by blast
  note ok = sel_inv_room(2) [OF assms]
  show ?thesis
  proof (cases "sel_entry s i")
    case None
    then show ?thesis using set_interest_absent [OF ok i(3) None, of n] False i assms by (auto simp: same_rest_def)
  next
    case (Some e)
    then obtain h m d where e: "sel_entry s i = Some (h, m, d)" by (cases e) auto
    show ?thesis using set_interest_ok [OF ok i(3) e, of n] False i e sel_inv_same [OF assms] by auto
  qed
qed

lemma register_inv:
  assumes "sel_inv s"
  shows "\<exists>s'. selector_register env fd h n d s = Inr (fst (map_step (Register fd h n d) (sel_entry s)), s') \<and>
     sel_inv s' \<and> sel_entry s' = snd (map_step (Register fd h n d) (sel_entry s)) \<and> same_rest s s'"
proof (cases "invalid_fd fd \<or> h = None")
  case True
  then show ?thesis using assms by (auto simp: selector_register_def same_rest_def split: option.splits)
next
  case False
  then obtain h' where h: "h = Some h'" "\<not> invalid_fd fd" by auto
  obtain i where i: "fd = int i" "i < ITEMS_MAX_SIZE" "i < fs_fd_size s"
    using valid_fd [OF h(2)] sel_inv_room(1) [OF assms] by blast
  note ok = sel_inv_room(2) [OF assms]
  show ?thesis
  proof (cases "sel_entry s i")
    case None
    show ?thesis using register_free [OF ok i(3,2) None, of env h' n d] h i None sel_inv_same [OF assms] by auto
  next
    case (Some e)
    then show ?thesis using register_used [OF ok i(3) Some] h i assms by (auto simp: same_rest_def)
  qed
qed

lemma unregister_absent_inv:
  assumes "sel_inv s" "invalid_fd fd \<or> sel_entry s (nat fd) = None"
  shows "selector_unregister_fd call fd (s, w) = Inr (SELECTOR_IARGS, (s, w))"
proof (cases "invalid_fd fd")
  case False
  then show ?thesis
    using assms valid_fd [OF False] unregister_absent [OF sel_inv_room(2) [OF assms(1)], of "nat fd" call w]
      sel_inv_room(1) [OF assms(1)] by auto
qed (simp add: selector_unregister_fd_def)

lemma unregister_inv:
  assumes "sel_inv s" "\<not> invalid_fd fd" "sel_entry s (nat fd) = Some (h, n, d)"
    "close_item call h \<lparr>key_fd = fd, key_data = d\<rparr> (s, w) = Inr (s, w')"
  shows "\<exists>s'. selector_unregister_fd call fd (s, w) = Inr (SELECTOR_SUCCESS, (s', w')) \<and>
     sel_inv s' \<and> sel_entry s' = (sel_entry s)(nat fd := None) \<and> same_rest s s'"
  using unregister_ok [OF sel_inv_room(2) [OF assms(1)], of "nat fd" h n d call w w'] valid_fd [OF assms(2)]
    sel_inv_room(1) [OF assms(1)] sel_inv_same [OF assms(1)] assms(3,4) by auto

lemma unregister_close_fault:
  assumes "sel_inv s" "\<not> invalid_fd fd" "sel_entry s (nat fd) = Some (h, n, d)"
    "close_item call h \<lparr>key_fd = fd, key_data = d\<rparr> (s, w) = Inl e"
  shows "selector_unregister_fd call fd (s, w) = Inl e"
proof -
  have i: "nat fd \<le> ITEMS_MAX_SIZE" "fd = int (nat fd)" using valid_fd [OF assms(2)] by auto
  have u: "item_used (fs_fds s ! nat fd)" "it_handler (fs_fds s ! nat fd) = Some h" "it_data (fs_fds s ! nat fd) = d"
      "it_fd (fs_fds s ! nat fd) = fd"
    using assms(3) sel_inv_item(2) [OF assms(1) i(1)] i(2) by (auto simp: sel_entry_def split: if_splits)
  have "item_at s fd = Inr (fs_fds s ! nat fd)" using sel_inv_item(1) [OF assms(1) i(1)] i(2) by simp
  then show ?thesis using assms(2,4) u
    by (simp add: selector_unregister_fd_def close_item_def [symmetric])
qed

section \<open>Properties\<close>

text \<open>
  C36: The selector is a map from descriptors to registrations. Created with room for all the
  descriptors \<^verbatim>\<open>select\<close> can handle, as the proxy creates it, it answers every sequence of calls of
  \<^verbatim>\<open>selector_register\<close>, \<^verbatim>\<open>selector_unregister_fd\<close> and \<^verbatim>\<open>selector_set_interest\<close>, with any arguments,
  with the status the map gives; it never faults, and at the end it holds exactly the
  entries of the map, with \<^verbatim>\<open>max_fd\<close> and the two descriptor sets to match (\<open>sel_ok\<close>). Memory is not
  exhausted, and the functions that handlers run when they close leave the selector alone.
\<close>

theorem selector_refines_map:
  assumes "\<And>k. sl_calloc env k" "\<And>f key s w. \<exists>w'. call f key (s, w) = Inr (s, w')"
  shows "\<exists>s0. selector_new env True t ITEMS_MAX_SIZE = Inr (Some s0) \<and>
     (\<exists>s w'. sel_run env call xs (s0, w) = Inr (fst (map_run xs Map.empty), (s, w')) \<and> sel_ok s \<and>
        sel_entry s = snd (map_run xs Map.empty))"
proof -
  obtain s0 where s0: "selector_new env True t ITEMS_MAX_SIZE = Inr (Some s0)" "sel_ok s0" "sel_entry s0 = Map.empty"
      "ITEMS_MAX_SIZE < fs_fd_size s0" "fs_fd_size s0 \<le> ITEMS_MAX_SIZE + 1"
    using new_ok [OF order_refl assms(1)] by blast
  then have "fs_fd_size s0 = Suc ITEMS_MAX_SIZE" by simp
  from run_refines [where call = call and env = env and xs = xs and w = w, OF assms(2) s0(2) this] s0(1,3)
  show ?thesis by auto
qed

definition sel_env_ok :: "('h, 'd) sel_env" where
  "sel_env_ok = \<lparr>sl_calloc = (\<lambda>n. True), sl_realloc = (\<lambda>n. True), sl_junk = (\<lambda>i. zero_item)\<rparr>"

definition some_handler :: "nat fd_handler" where
  "some_handler = \<lparr>fh_read = Some 0, fh_write = None, fh_block = None, fh_close = Some 1\<rparr>"

theorem selector_refines_map_witness:
  "\<exists>s0. selector_new (sel_env_ok :: (nat, nat) sel_env) True \<lparr>tv_sec = 8, tv_nsec = 0\<rparr> ITEMS_MAX_SIZE = Inr (Some s0) \<and>
     (\<exists>s w'. sel_run sel_env_ok (\<lambda>f key (s, w). Inr (s, w + 1))
          [Register 3 (Some some_handler) OP_READ (Some (7 :: nat)), Unregister 3] (s0, 0 :: nat) =
        Inr (fst (map_run [Register 3 (Some some_handler) OP_READ (Some (7 :: nat)), Unregister 3] Map.empty), (s, w')) \<and> sel_ok s \<and>
        sel_entry s = snd (map_run [Register 3 (Some some_handler) OP_READ (Some (7 :: nat)), Unregister 3] Map.empty))"
  by (rule selector_refines_map) (simp_all add: sel_env_ok_def)

text \<open>
  The bounds check of \<^verbatim>\<open>selector_register\<close> is off by one: a descriptor equal to the capacity is
  accepted without growing the array, and its item is accessed behind the end. The capacity of the
  proxy, one more than the largest descriptor, hides it.
\<close>

theorem selector_register_at_capacity:
  assumes "sel_ok s" "fs_fd_size s < ITEMS_MAX_SIZE"
  shows "selector_register env (int (fs_fd_size s)) (Some h) n d s = Inl OutOfBounds"
  using assms by (simp add: selector_register_def invalid_fd_def item_at_def arr_get_def sel_ok_def)

theorem selector_register_at_capacity_witness:
  "\<exists>s. selector_new (sel_env_ok :: (nat, nat) sel_env) True \<lparr>tv_sec = 8, tv_nsec = 0\<rparr> 1 = Inr (Some s) \<and>
     selector_register sel_env_ok (int (fs_fd_size s)) (Some some_handler) OP_READ None s = Inl OutOfBounds"
proof -
  obtain s where s: "selector_new (sel_env_ok :: (nat, nat) sel_env) True \<lparr>tv_sec = 8, tv_nsec = 0\<rparr> 1 = Inr (Some s)" "sel_ok s"
    using new_ok [of 1 sel_env_ok] by (auto simp: sel_env_ok_def ITEMS_MAX_SIZE_def)
  have "next_capacity 1 = Inr 3"
    by (simp add: next_capacity_value bit_count.simps ITEMS_MAX_SIZE_def)
  then have "fs_fd_size s = 3" using s(1)
    by (auto simp: selector_new_def ensure_capacity_def zero_selector_def sel_env_ok_def items_init_def ITEMS_MAX_SIZE_def)
  then show ?thesis using s selector_register_at_capacity [OF s(2)] by (auto simp: ITEMS_MAX_SIZE_def)
qed

end
