(* ===== verification/Proxy_State.thy ===== *)
theory Proxy_State
  imports Selector Stm Buffer Management Sniffer Doh_Query Headers_Parser Status_Line_Parser
begin

text \<open>
  The state of the proxy: the structures of \<^verbatim>\<open>connections_manager/connections_def.h\<close>, a heap of
  connections, the static variables of the modules, and what the operating system provides. Programs
  on this state are functions \<^verbatim>\<open>state \<Rightarrow> fault + (value, state)\<close>, composed with \<open>bindS\<close>. A pointer to a
  connection is a number; a freed connection is absent from the heap, and using it is a fault.
\<close>

section \<open>Programs\<close>

definition bindS :: "('s \<Rightarrow> fault + ('a \<times> 's)) \<Rightarrow> ('a \<Rightarrow> 's \<Rightarrow> fault + ('b \<times> 's)) \<Rightarrow> 's \<Rightarrow> fault + ('b \<times> 's)" where
  "bindS m f s = bindR (m s) (\<lambda>(x, s'). f x s')"

definition thenS :: "('s \<Rightarrow> fault + ('a \<times> 's)) \<Rightarrow> ('s \<Rightarrow> fault + ('b \<times> 's)) \<Rightarrow> 's \<Rightarrow> fault + ('b \<times> 's)" where
  "thenS m k = bindS m (\<lambda>_. k)"

definition returnS :: "'a \<Rightarrow> 's \<Rightarrow> fault + ('a \<times> 's)" where
  "returnS x s = Inr (x, s)"

definition failS :: "fault \<Rightarrow> 's \<Rightarrow> fault + ('a \<times> 's)" where
  "failS e s = Inl e"

definition liftS :: "fault + 'a \<Rightarrow> 's \<Rightarrow> fault + ('a \<times> 's)" where
  "liftS r s = bindR r (\<lambda>x. Inr (x, s))"

definition whenS :: "bool \<Rightarrow> ('s \<Rightarrow> fault + (unit \<times> 's)) \<Rightarrow> 's \<Rightarrow> fault + (unit \<times> 's)" where
  "whenS b m = (if b then m else returnS ())"

section \<open>Connections\<close>

datatype connection_status = INACTIVE_STATUS | ACTIVE_STATUS | CLOSING_STATUS | CLOSED_STATUS

definition PARSING_REQUEST_LINE :: nat where "PARSING_REQUEST_LINE = 0"
definition TRY_CONNECTION_IP :: nat where "TRY_CONNECTION_IP = 1"
definition SEND_DOH_REQUEST :: nat where "SEND_DOH_REQUEST = 2"
definition AWAIT_DOH_RESPONSE :: nat where "AWAIT_DOH_RESPONSE = 3"
definition SEND_REQUEST_LINE :: nat where "SEND_REQUEST_LINE = 4"
definition CONNECTED :: nat where "CONNECTED = 5"
definition CLOSING :: nat where "CLOSING = 6"
definition EMPTY_BUFFERS :: nat where "EMPTY_BUFFERS = 7"
definition DONE :: nat where "DONE = 8"
definition ERROR :: nat where "ERROR = 9"

definition connection_state :: "nat list" where
  "connection_state =
     [PARSING_REQUEST_LINE, TRY_CONNECTION_IP, SEND_DOH_REQUEST, AWAIT_DOH_RESPONSE, SEND_REQUEST_LINE,
      CONNECTED, CLOSING, EMPTY_BUFFERS, DONE, ERROR]"

definition BAD_REQUEST :: int where "BAD_REQUEST = 400"
definition UNAUTHORIZED :: int where "UNAUTHORIZED = 401"
definition FORBIDDEN :: int where "FORBIDDEN = 403"
definition NOT_FOUND :: int where "NOT_FOUND = 404"
definition METHOD_NOT_ALLOWED :: int where "METHOD_NOT_ALLOWED = 405"
definition PROXY_AUTHENTICATION_REQUIRED :: int where "PROXY_AUTHENTICATION_REQUIRED = 407"
definition URI_TOO_LONG :: int where "URI_TOO_LONG = 414"
definition INTERNAL_SERVER_ERROR :: int where "INTERNAL_SERVER_ERROR = 500"
definition NOT_IMPLEMENTED :: int where "NOT_IMPLEMENTED = 501"
definition BAD_GATEWAY :: int where "BAD_GATEWAY = 502"
definition HTTP_VERSION_NOT_SUPPORTED :: int where "HTTP_VERSION_NOT_SUPPORTED = 505"

datatype try_type = ipv4_try | ipv6_try

text \<open>The parsers point to the line and the response they fill, which are fields of the same structure.\<close>

record doh_connection =
  dc_is_active :: bool
  dc_current_try :: u8
  dc_current_type :: try_type
  dc_status_line_parser :: status_line_parser
  dc_headers_parser :: headers_parser
  dc_doh_parser :: doh_response_parser

text \<open>The union: which member was written last. The flag is \<^verbatim>\<open>status_line.done\<close>.\<close>

datatype client_state = Unset_State | Request_Line request_parser | Status_Line status_line_parser bool

text \<open>The arrays hold C strings; \<open>sprintf_array\<close> checks the room.\<close>

record connection_request =
  cr_request_line :: bytes
  cr_method :: bytes
  cr_target :: bytes
  cr_status_code :: u16
  cr_connect :: bool
  cr_host_type :: host_type
  cr_host :: host
  cr_port :: u16

definition request_line_room :: nat where
  "request_line_room = nat (MAX_METHOD_LENGTH + SCHEME_LENGTH + MAX_FQDN_LENGTH + MAX_PORT_LENGTH + MAX_ORIGIN_FORM +
     VERSION_LENGTH + 16)"

definition method_room :: nat where "method_room = nat MAX_METHOD_LENGTH"

definition target_room :: nat where
  "target_room = nat (SCHEME_LENGTH + MAX_FQDN_LENGTH + MAX_PORT_LENGTH + MAX_ORIGIN_FORM + 16)"

definition sprintf_array :: "nat \<Rightarrow> bytes \<Rightarrow> fault + bytes" where
  "sprintf_array room text = (if length text < room then Inr text else Inl OutOfBounds)"

record sniffer_st =
  sn_parser :: sniffer_parser
  sn_enabled :: bool
  sn_is_done :: bool

record proxy_connection =
  pc_error :: int
  pc_last_action_time :: int
  pc_client_addr :: bytes
  pc_client_fd :: int
  pc_client_status :: connection_status
  pc_doh :: "doh_connection option"
  pc_origin_fd :: int
  pc_origin_status :: connection_status
  pc_stm :: state_machine
  pc_bytes_to_analize :: int
  pc_parsers :: client_state
  pc_sniffer :: sniffer_st
  pc_request :: connection_request
  pc_origin_buffer :: buffer
  pc_client_buffer :: buffer

section \<open>The environment\<close>

text \<open>
  The calls of the operating system on its state \<open>'o\<close>. \<^verbatim>\<open>read\<close> delivers the bytes or \<open>None\<close> for -1;
  \<^verbatim>\<open>recvfrom\<close> adds the address of the sender; sockets are of TCP or of UDP, and \<^verbatim>\<open>setsockopt\<close> sets
  \<^verbatim>\<open>SO_REUSEADDR\<close> or \<^verbatim>\<open>IPV6_V6ONLY\<close>;
  \<^verbatim>\<open>write\<close> and \<^verbatim>\<open>connect\<close> come with whether \<^verbatim>\<open>errno\<close> is \<^verbatim>\<open>EAGAIN\<close> or \<^verbatim>\<open>EINPROGRESS\<close>; \<^verbatim>\<open>getsockopt\<close> delivers the
  pending error of the socket.
\<close>

datatype address = Addr4 sockaddr_in | Addr6 sockaddr_in6

record 'o os =
  os_read :: "int \<Rightarrow> nat \<Rightarrow> 'o \<Rightarrow> bytes option \<times> 'o"
  os_send :: "int \<Rightarrow> bytes \<Rightarrow> 'o \<Rightarrow> int \<times> 'o"
  os_write :: "int \<Rightarrow> bytes \<Rightarrow> 'o \<Rightarrow> (int \<times> bool) \<times> 'o"
  os_shutdown :: "int \<Rightarrow> 'o \<Rightarrow> 'o"
  os_close :: "int \<Rightarrow> 'o \<Rightarrow> 'o"
  os_accept :: "int \<Rightarrow> 'o \<Rightarrow> (int \<times> bytes) \<times> 'o"
  os_getfd :: "int \<Rightarrow> 'o \<Rightarrow> int \<times> 'o"
  os_setfl :: "int \<Rightarrow> int \<Rightarrow> 'o \<Rightarrow> int \<times> 'o"
  os_socket :: "u16 \<Rightarrow> 'o \<Rightarrow> int \<times> 'o"
  os_setsockopt :: "int \<Rightarrow> 'o \<Rightarrow> int \<times> 'o"
  os_connect :: "int \<Rightarrow> address \<Rightarrow> 'o \<Rightarrow> (int \<times> bool) \<times> 'o"
  os_getsockopt :: "int \<Rightarrow> 'o \<Rightarrow> int option \<times> 'o"
  os_time :: "'o \<Rightarrow> int \<times> 'o"
  os_time_text :: "'o \<Rightarrow> bytes \<times> 'o"
  os_malloc :: "nat \<Rightarrow> 'o \<Rightarrow> bytes option \<times> 'o"
  os_calloc :: "'o \<Rightarrow> bool \<times> 'o"
  os_recvfrom :: "int \<Rightarrow> nat \<Rightarrow> 'o \<Rightarrow> (bytes option \<times> bytes) \<times> 'o"
  os_sendto :: "int \<Rightarrow> bytes \<Rightarrow> bytes \<Rightarrow> 'o \<Rightarrow> int \<times> 'o"
  os_socket_udp :: "u16 \<Rightarrow> 'o \<Rightarrow> int \<times> 'o"
  os_v6only :: "int \<Rightarrow> 'o \<Rightarrow> int \<times> 'o"
  os_bind :: "int \<Rightarrow> address \<Rightarrow> 'o \<Rightarrow> int \<times> 'o"
  os_listen :: "int \<Rightarrow> 'o \<Rightarrow> int \<times> 'o"

text \<open>
  Function pointers and attached data.
\<close>

datatype callback =
    Proxy_Client_Read
  | Proxy_Client_Write
  | Proxy_Client_Close
  | Proxy_Origin_Read
  | Proxy_Origin_Write
  | Proxy_Origin_Close
  | Accept_New_Connection
  | Connection_Garbage_Collect
  | Logger_On_Write_Ready
  | Management_Read
  | Management_Close

datatype attachment = Connection nat | Stdout_Buffer | Stderr_Buffer

record doh_server = doh_utils +
  ds_isipv4 :: bool
  ds_ipv4addr :: u32
  ds_ipv6addr :: bytes
  ds_port :: u16

text \<open>The static variables of the modules, the heap and the operating system.\<close>

record 'o world =
  w_conns :: "nat \<Rightarrow> proxy_connection option"
  w_next :: nat
  w_metrics :: proxy_metrics
  w_buffers_size :: u64
  w_inactive_threshold :: int
  w_disectors_enabled :: bool
  w_doh_server :: doh_server
  w_management :: management
  w_stdout_buffer :: buffer
  w_stderr_buffer :: buffer
  w_os :: 'o

type_synonym 'o psys = "(callback, attachment, 'o world) sys"
type_synonym ('o, 'a) prog = "'o psys \<Rightarrow> fault + ('a \<times> 'o psys)"
type_synonym pkey = "attachment selector_key"

text \<open>
  The rest of the environment: library functions, allocations of the modules with no effect on the
  rest, the contents of arrays the code does not initialise, and the fuel of the loop over the
  addresses of a name.
\<close>

record 'o penv =
  pe_os :: "'o os"
  pe_sel :: "(callback, attachment) sel_env"
  pe_sniff :: sniff_env
  pe_doh :: doh_env
  pe_pton4 :: pton4
  pe_pton6 :: pton6
  pe_ntop :: "u16 \<Rightarrow> bytes \<Rightarrow> bytes"
  pe_client_text :: "bytes \<Rightarrow> bytes"
  pe_stack :: bytes
  pe_fuel :: nat

section \<open>Access\<close>

definition getW :: "('o world \<Rightarrow> 'a) \<Rightarrow> ('o, 'a) prog" where
  "getW f sw = Inr (f (snd sw), sw)"

definition modifyW :: "('o world \<Rightarrow> 'o world) \<Rightarrow> ('o, unit) prog" where
  "modifyW f sw = Inr ((), (fst sw, f (snd sw)))"

text \<open>A call of the operating system.\<close>

definition sys_call :: "('o \<Rightarrow> 'a \<times> 'o) \<Rightarrow> ('o, 'a) prog" where
  "sys_call f sw = (let (x, o') = f (w_os (snd sw)) in Inr (x, (fst sw, (snd sw)\<lparr>w_os := o'\<rparr>)))"

definition sys_do :: "('o \<Rightarrow> 'o) \<Rightarrow> ('o, unit) prog" where
  "sys_do f = sys_call (\<lambda>st. ((), f st))"

text \<open>\<^verbatim>\<open>ATTACHMENT(key)\<close>, and access through the pointer.\<close>

definition ATTACHMENT :: "pkey \<Rightarrow> ('o, nat) prog" where
  "ATTACHMENT key =
     (case key_data key of
        None \<Rightarrow> failS NullDeref
      | Some (Connection c) \<Rightarrow> returnS c
      | Some _ \<Rightarrow> failS UnionMisread)"

definition conn_get :: "nat \<Rightarrow> ('o, proxy_connection) prog" where
  "conn_get c sw = (case w_conns (snd sw) c of None \<Rightarrow> Inl UseAfterFree | Some p \<Rightarrow> Inr (p, sw))"

definition conn_put :: "nat \<Rightarrow> proxy_connection \<Rightarrow> ('o, unit) prog" where
  "conn_put c p sw =
     (case w_conns (snd sw) c of
        None \<Rightarrow> Inl UseAfterFree
      | Some _ \<Rightarrow> Inr ((), (fst sw, (snd sw)\<lparr>w_conns := (w_conns (snd sw))(c \<mapsto> p)\<rparr>)))"

definition conn_upd :: "nat \<Rightarrow> (proxy_connection \<Rightarrow> proxy_connection) \<Rightarrow> ('o, unit) prog" where
  "conn_upd c f = bindS (conn_get c) (\<lambda>p. conn_put c (f p))"

definition conn_field :: "nat \<Rightarrow> (proxy_connection \<Rightarrow> 'a) \<Rightarrow> ('o, 'a) prog" where
  "conn_field c f = bindS (conn_get c) (\<lambda>p. returnS (f p))"

text \<open>Operations on the two buffers, with their result.\<close>

definition on_origin_buffer :: "nat \<Rightarrow> (buffer \<Rightarrow> fault + buffer) \<Rightarrow> ('o, unit) prog" where
  "on_origin_buffer c f =
     bindS (conn_field c pc_origin_buffer) (\<lambda>b.
     bindS (liftS (f b)) (\<lambda>b. conn_upd c (\<lambda>p. p\<lparr>pc_origin_buffer := b\<rparr>)))"

definition on_client_buffer :: "nat \<Rightarrow> (buffer \<Rightarrow> fault + buffer) \<Rightarrow> ('o, unit) prog" where
  "on_client_buffer c f =
     bindS (conn_field c pc_client_buffer) (\<lambda>b.
     bindS (liftS (f b)) (\<lambda>b. conn_upd c (\<lambda>p. p\<lparr>pc_client_buffer := b\<rparr>)))"

text \<open>The machine of a connection.\<close>

definition conn_cell :: "nat \<Rightarrow> 'o psys stm_cell" where
  "conn_cell c =
     \<lparr>stm_get = (\<lambda>sw. bindR (conn_get c sw) (\<lambda>(p, _). Inr (pc_stm p))),
      stm_put = (\<lambda>m sw. bindR (conn_upd c (\<lambda>p. p\<lparr>pc_stm := m\<rparr>) sw) (\<lambda>(_, sw). Inr sw))\<rparr>"

definition conn_state :: "nat \<Rightarrow> ('o, nat) prog" where
  "conn_state c sw = bindR (stm_state (conn_cell c) connection_state sw) (\<lambda>n. Inr (n, sw))"

text \<open>The selector.\<close>

definition set_interest :: "int \<Rightarrow> fd_interest \<Rightarrow> ('o, selector_status) prog" where
  "set_interest fd n sw = bindR (selector_set_interest fd n (fst sw)) (\<lambda>(ret, s). Inr (ret, (s, snd sw)))"

definition register_fd ::
  "'o penv \<Rightarrow> int \<Rightarrow> callback fd_handler \<Rightarrow> fd_interest \<Rightarrow> attachment option \<Rightarrow> ('o, selector_status) prog" where
  "register_fd env fd h n d sw =
     bindR (selector_register (pe_sel env) fd (Some h) n d (fst sw)) (\<lambda>(ret, s). Inr (ret, (s, snd sw)))"

end
