(* ===== verification/Logger.thy ===== *)
theory Logger
  imports Proxy_State
begin

text \<open>
  The log of \<^verbatim>\<open>logger/logger.c\<close> and \<^verbatim>\<open>logger/logger_utils.c\<close>: lines go to standard output or standard
  error; when a descriptor would block they wait in a buffer of 1024 bytes. The time text of \<^verbatim>\<open>strftime\<close>
  and the text of the client's address and port are parameters.
\<close>

section \<open>Levels\<close>

datatype log_level = LEVEL_TRACE | LEVEL_DEBUG | LEVEL_INFO | LEVEL_WARN | LEVEL_ERROR | LEVEL_FATAL

definition STDOUT_FILENO :: int where "STDOUT_FILENO = 1"
definition STDERR_FILENO :: int where "STDERR_FILENO = 2"
definition LOGGER_BUFFER_SIZE :: nat where "LOGGER_BUFFER_SIZE = 1024"

fun is_stdout_level :: "log_level \<Rightarrow> bool" where
  "is_stdout_level LEVEL_ERROR = False"
| "is_stdout_level LEVEL_FATAL = False"
| "is_stdout_level _ = True"

fun is_stderr_level :: "log_level \<Rightarrow> bool" where
  "is_stderr_level LEVEL_ERROR = True"
| "is_stderr_level LEVEL_FATAL = True"
| "is_stderr_level _ = False"

fun level_text :: "log_level \<Rightarrow> bytes" where
  "level_text LEVEL_TRACE = ascii ''TRACE''"
| "level_text LEVEL_DEBUG = ascii ''DEBUG''"
| "level_text LEVEL_INFO = ascii ''INFO''"
| "level_text LEVEL_WARN = ascii ''WARN''"
| "level_text LEVEL_ERROR = ascii ''ERROR''"
| "level_text LEVEL_FATAL = ascii ''FATAL''"

section \<open>The log\<close>

definition logger_handler :: "callback fd_handler" where
  "logger_handler = \<lparr>fh_read = None, fh_write = Some Logger_On_Write_Ready, fh_block = None, fh_close = None\<rparr>"

definition selector_fd_set_nio :: "'o penv \<Rightarrow> int \<Rightarrow> ('o, int) prog" where
  "selector_fd_set_nio env fd =
     bindS (sys_call (os_getfd (pe_os env) fd)) (\<lambda>flags.
     if flags = - 1 then returnS (- 1)
     else bindS (sys_call (os_setfl (pe_os env) fd (flags OR 2048))) (\<lambda>r.
          returnS (if r = - 1 then - 1 else 0)))"

definition init_logger :: "'o penv \<Rightarrow> ('o, int) prog" where
  "init_logger env =
     bindS (sys_call (os_malloc (pe_os env) LOGGER_BUFFER_SIZE)) (\<lambda>block.
     case block of
       None \<Rightarrow> returnS (- 1)
     | Some block \<Rightarrow>
         thenS (modifyW (\<lambda>w. w\<lparr>w_stdout_buffer := buffer_init LOGGER_BUFFER_SIZE block\<rparr>))
         (bindS (sys_call (os_malloc (pe_os env) LOGGER_BUFFER_SIZE)) (\<lambda>block.
          case block of
            None \<Rightarrow> returnS (- 1)
          | Some block \<Rightarrow>
              thenS (modifyW (\<lambda>w. w\<lparr>w_stderr_buffer := buffer_init LOGGER_BUFFER_SIZE block\<rparr>))
              (thenS (selector_fd_set_nio env STDOUT_FILENO)
              (thenS (selector_fd_set_nio env STDERR_FILENO)
              (thenS (register_fd env STDOUT_FILENO logger_handler OP_NOOP (Some Stdout_Buffer))
              (thenS (register_fd env STDERR_FILENO logger_handler OP_NOOP (Some Stderr_Buffer))
              (returnS 1))))))))"

text \<open>The buffer of a descriptor.\<close>

definition log_buffer :: "bool \<Rightarrow> ('o, buffer) prog" where
  "log_buffer out = getW (\<lambda>w. if out then w_stdout_buffer w else w_stderr_buffer w)"

definition set_log_buffer :: "bool \<Rightarrow> buffer \<Rightarrow> ('o, unit) prog" where
  "set_log_buffer out b = modifyW (\<lambda>w. if out then w\<lparr>w_stdout_buffer := b\<rparr> else w\<lparr>w_stderr_buffer := b\<rparr>)"

text \<open>
  \<^verbatim>\<open>write\<close> delivers the number of bytes written, or -1 with whether \<^verbatim>\<open>errno\<close> says that it would block.
\<close>

definition logger_log :: "'o penv \<Rightarrow> bytes \<Rightarrow> log_level \<Rightarrow> ('o, unit) prog" where
  "logger_log env line level =
     (if is_stdout_level level \<or> is_stderr_level level
      then let out = is_stdout_level level; fd = (if out then STDOUT_FILENO else STDERR_FILENO)
           in bindS (sys_call (os_write (pe_os env) fd line)) (\<lambda>(written, would_block).
              let line = (if written > 0 then drop (nat written) line else line)
              in if written = - 1 \<and> would_block
                 then bindS (log_buffer out) (\<lambda>b.
                      bindS (liftS (buffer_write_ptr b)) (\<lambda>(_, max_bytes).
                      if max_bytes < length line then returnS ()
                      else bindS (liftS (buffer_store b line)) (\<lambda>b.
                           bindS (liftS (buffer_write_adv b (int (length line)))) (\<lambda>b.
                           thenS (set_log_buffer out b)
                           (thenS (set_interest fd OP_WRITE) (returnS ()))))))
                 else returnS ())
      else returnS ())"

definition logger_on_write_ready :: "'o penv \<Rightarrow> pkey \<Rightarrow> ('o, unit) prog" where
  "logger_on_write_ready env key =
     (case key_data key of
        None \<Rightarrow> failS NullDeref
      | Some (Connection c) \<Rightarrow> failS UnionMisread
      | Some att \<Rightarrow>
          let out = (att = Stdout_Buffer)
          in bindS (log_buffer out) (\<lambda>b.
             bindS (liftS (buffer_read_ptr b)) (\<lambda>(at, max_bytes).
             bindS (sys_call (os_write (pe_os env) (key_fd key) (take max_bytes (drop at (b_data b))))) (\<lambda>(total_bytes, _).
             if total_bytes < 0 then thenS (set_interest (key_fd key) OP_NOOP) (returnS ())
             else bindS (liftS (buffer_read_adv b total_bytes)) (\<lambda>b.
                  thenS (set_log_buffer out b)
                  (if \<not> buffer_can_read b then thenS (set_interest (key_fd key) OP_NOOP) (returnS ())
                   else returnS ()))))))"

section \<open>The lines\<close>

definition MAX_BUFFER :: nat where "MAX_BUFFER = 2048"

text \<open>\<^verbatim>\<open>sprintf\<close> at the end of the line built so far.\<close>

definition line_add :: "bytes \<Rightarrow> bytes \<Rightarrow> ('o, bytes) prog" where
  "line_add line text = (if length line + length text < MAX_BUFFER then returnS (line @ text) else failS OutOfBounds)"

definition get_time :: "'o penv \<Rightarrow> ('o, bytes) prog" where
  "get_time env = sys_call (os_time_text (pe_os env))"

definition write_client_addr_n_port :: "'o penv \<Rightarrow> proxy_connection \<Rightarrow> bytes \<Rightarrow> ('o, bytes) prog" where
  "write_client_addr_n_port env p line = line_add line (pe_client_text env (pc_client_addr p))"

abbreviation TAB :: u8 where "TAB \<equiv> 9"

definition log_new_connection :: "'o penv \<Rightarrow> pkey \<Rightarrow> ('o, unit) prog" where
  "log_new_connection env key =
     bindS (ATTACHMENT key) (\<lambda>c.
     bindS (conn_get c) (\<lambda>p.
     bindS (get_time env) (\<lambda>line.
     bindS (line_add line [65, TAB]) (\<lambda>line.
     bindS (write_client_addr_n_port env p line) (\<lambda>line.
     bindS (line_add line (cr_method (pc_request p) @ [TAB] @ cr_target (pc_request p) @ [TAB] @
              dec_text (unat (cr_status_code (pc_request p))) @ [TAB, LF])) (\<lambda>line.
     logger_log env line LEVEL_INFO))))))"

definition log_user_and_password :: "'o penv \<Rightarrow> pkey \<Rightarrow> ('o, unit) prog" where
  "log_user_and_password env key =
     bindS (ATTACHMENT key) (\<lambda>c.
     bindS (conn_get c) (\<lambda>p.
     bindS (get_time env) (\<lambda>line.
     bindS (line_add line ([80, TAB] @ (if sf_protocol (sn_parser (pc_sniffer p)) = HTTP then ascii ''HTTP'' else ascii ''POP3'') @ [TAB])) (\<lambda>line.
     bindS (line_add line (cr_target (pc_request p) @ [TAB])) (\<lambda>line.
     bindS (line_add line (dec_text (unat (cr_port (pc_request p))) @ [TAB])) (\<lambda>line.
     bindS (liftS (c_string (sf_user (sn_parser (pc_sniffer p))))) (\<lambda>user.
     bindS (liftS (c_string (sf_password (sn_parser (pc_sniffer p))))) (\<lambda>password.
     bindS (line_add line (user @ [TAB] @ password @ [TAB, LF])) (\<lambda>line.
     logger_log env line LEVEL_INFO)))))))))"

definition log_connection_closed :: "'o penv \<Rightarrow> pkey \<Rightarrow> ('o, unit) prog" where
  "log_connection_closed env key =
     bindS (ATTACHMENT key) (\<lambda>c.
     bindS (conn_get c) (\<lambda>p.
     bindS (get_time env) (\<lambda>line.
     bindS (write_client_addr_n_port env p line) (\<lambda>line.
     bindS (line_add line (cr_target (pc_request p) @ [TAB] @ ascii ''CONNECTION CLOSED'' @ [TAB, LF])) (\<lambda>line.
     logger_log env line LEVEL_INFO)))))"

definition log_connection_failed :: "'o penv \<Rightarrow> pkey \<Rightarrow> bytes \<Rightarrow> ('o, unit) prog" where
  "log_connection_failed env key reason_phrase =
     bindS (ATTACHMENT key) (\<lambda>c.
     bindS (conn_get c) (\<lambda>p.
     bindS (get_time env) (\<lambda>line.
     bindS (line_add line [65, TAB]) (\<lambda>line.
     bindS (write_client_addr_n_port env p line) (\<lambda>line.
     bindS (line_add line (cr_method (pc_request p) @ [TAB] @ cr_target (pc_request p) @ [TAB] @ ascii ''Status: '' @
              dec_text (nat (pc_error p)) @ [SP] @ reason_phrase @ [TAB, LF])) (\<lambda>line.
     logger_log env line LEVEL_INFO))))))"

definition log_level_msg :: "'o penv \<Rightarrow> bytes \<Rightarrow> log_level \<Rightarrow> ('o, unit) prog" where
  "log_level_msg env msg level =
     bindS (get_time env) (\<lambda>line.
     if line = [] then returnS ()
     else let text = level_text level @ [TAB] @ msg @ [LF]
          in if int (length text) \<ge> int MAX_BUFFER - int (length line) then returnS ()
             else logger_log env (line @ text) level)"

end
