(* ===== verification/Management_Service.thy ===== *)
theory Management_Service
  imports Logger
begin

text \<open>
  The management service within the proxy: the handlers of \<^verbatim>\<open>management/management.c\<close> as functions of the
  selector. The service reads and changes the state it shares with the rest, so \<open>server_of\<close> collects the
  record of Management.thy from the static variables and the selector, and \<open>put_server\<close> writes it back.
\<close>

definition server_of :: "'o psys \<Rightarrow> server" where
  "server_of sw =
     \<lparr>sv_management = w_management (snd sw), sv_metrics = w_metrics (snd sw), sv_buffers_size = w_buffers_size (snd sw),
      sv_disectors_enabled = w_disectors_enabled (snd sw), sv_selector_timeout = get_selector_timeout (fst sw)\<rparr>"

definition put_server :: "server \<Rightarrow> 'o psys \<Rightarrow> 'o psys" where
  "put_server s sw =
     (set_selector_timeout (sv_selector_timeout s) (fst sw),
      (snd sw)\<lparr>w_management := sv_management s, w_metrics := sv_metrics s, w_buffers_size := sv_buffers_size s,
               w_disectors_enabled := sv_disectors_enabled s\<rparr>)"

text \<open>The line that is logged about an authorised request.\<close>

definition request_log :: "server \<Rightarrow> bytes option \<Rightarrow> fault + bytes option" where
  "request_log s datagram =
     (let m = sv_management s;
          m = m\<lparr>mg_requestParser := percy_request_parser_init (mg_requestParser m),
                mg_buffer := overwrite (mg_buffer m) 0 (case datagram of None \<Rightarrow> [] | Some d \<Rightarrow> take MAX_MSG_LEN d)\<rparr>
      in bindR (parse_request m) (\<lambda>(m, parsed).
         let r = qp_request (mg_requestParser m)
         in Inr (if parsed \<and> validate_passphrase m
                 then if pq_type r = RETRIEVAL
                      then Some (ascii ''Retrieval method: '' @ dec_text (unat (pq_method r)))
                      else if pq_type r = MODIFICATION
                      then Some (ascii ''Modification method: '' @ dec_text (unat (pq_method r)) @
                             ascii '' with entry: '' @ dec_text (unat (pq_value r)))
                      else None
                 else None)))"

fun send_replies :: "'o penv \<Rightarrow> int \<Rightarrow> bytes \<Rightarrow> bytes list \<Rightarrow> ('o, unit) prog" where
  "send_replies env fd addr [] = returnS ()"
| "send_replies env fd addr (reply # replies) =
     bindS (sys_call (os_sendto (pe_os env) fd reply addr)) (\<lambda>bytes_sent.
     thenS (if bytes_sent < 0 then log_level_msg env (ascii ''Something went wrong(management)'') LEVEL_ERROR
            else returnS ())
     (send_replies env fd addr replies))"

text \<open>The handler \<^verbatim>\<open>management_read\<close> with its effects.\<close>

definition management_handler :: "'o penv \<Rightarrow> pkey \<Rightarrow> ('o, unit) prog" where
  "management_handler env key =
     bindS (sys_call (os_recvfrom (pe_os env) (key_fd key) MAX_MSG_LEN)) (\<lambda>(datagram, addr).
     thenS (if datagram = None then log_level_msg env (ascii ''Something went wrong(management)'') LEVEL_DEBUG
            else returnS ())
     (bindS (\<lambda>sw. bindR (request_log (server_of sw) datagram) (\<lambda>line. Inr (line, sw))) (\<lambda>line.
      thenS (case line of None \<Rightarrow> returnS () | Some line \<Rightarrow> log_level_msg env line LEVEL_DEBUG)
      (bindS (\<lambda>sw. bindR (management_read (server_of sw) datagram) (\<lambda>(s, replies). Inr (replies, put_server s sw))) (\<lambda>replies.
       send_replies env (key_fd key) addr replies)))))"

definition management_close :: "'o penv \<Rightarrow> pkey \<Rightarrow> ('o, unit) prog" where
  "management_close env key = sys_do (os_close (pe_os env) (key_fd key))"

end
