(* ===== verification/Origin.thy ===== *)
theory Origin
  imports Management_Service
begin

text \<open>
  Sockets to the origin server: \<^verbatim>\<open>utils/net/net_utils.c\<close>, the connection part of
  \<^verbatim>\<open>utils/doh/doh_utils.c\<close>, and the parts of \<^verbatim>\<open>connections_manager/connections_manager.c\<close> that open and
  close them: the two handlers, \<^verbatim>\<open>register_origin_socket\<close> and the release of a connection.
\<close>

section \<open>Handlers and release\<close>

definition client_handler :: "callback fd_handler" where
  "client_handler = \<lparr>fh_read = Some Proxy_Client_Read, fh_write = Some Proxy_Client_Write, fh_block = None,
                     fh_close = Some Proxy_Client_Close\<rparr>"

definition origin_handler :: "callback fd_handler" where
  "origin_handler = \<lparr>fh_read = Some Proxy_Origin_Read, fh_write = Some Proxy_Origin_Write, fh_block = None,
                     fh_close = Some Proxy_Origin_Close\<rparr>"

text \<open>
  \<^verbatim>\<open>free_connection_data\<close> with \<^verbatim>\<open>free_doh_connection\<close>: all the memory of the connection is given back.
\<close>

definition free_connection_data :: "nat \<Rightarrow> ('o, unit) prog" where
  "free_connection_data c =
     thenS (conn_get c) (modifyW (\<lambda>w. w\<lparr>w_conns := (w_conns w)(c := None)\<rparr>))"

definition proxy_client_close :: "'o penv \<Rightarrow> pkey \<Rightarrow> ('o, unit) prog" where
  "proxy_client_close env key =
     bindS (ATTACHMENT key) (\<lambda>c.
     bindS (conn_field c pc_client_fd) (\<lambda>fd.
     thenS (sys_do (os_close (pe_os env) fd)) (free_connection_data c)))"

definition proxy_origin_close :: "'o penv \<Rightarrow> pkey \<Rightarrow> ('o, unit) prog" where
  "proxy_origin_close env key = sys_do (os_close (pe_os env) (key_fd key))"

text \<open>The functions found in \<^verbatim>\<open>handle_close\<close>.\<close>

definition call_close :: "'o penv \<Rightarrow> (callback, attachment, 'o world) caller" where
  "call_close env f key sw =
     (case f of
        Proxy_Client_Close \<Rightarrow> bindR (proxy_client_close env key sw) (\<lambda>(_, sw). Inr sw)
      | Proxy_Origin_Close \<Rightarrow> bindR (proxy_origin_close env key sw) (\<lambda>(_, sw). Inr sw)
      | Management_Close \<Rightarrow> bindR (management_close env key sw) (\<lambda>(_, sw). Inr sw)
      | _ \<Rightarrow> Inl Aborted)"

definition unregister_fd :: "'o penv \<Rightarrow> int \<Rightarrow> ('o, selector_status) prog" where
  "unregister_fd env fd = selector_unregister_fd (call_close env) fd"

definition register_origin_socket :: "'o penv \<Rightarrow> pkey \<Rightarrow> ('o, selector_status) prog" where
  "register_origin_socket env key =
     bindS (ATTACHMENT key) (\<lambda>c.
     thenS (conn_upd c (\<lambda>p. p\<lparr>pc_origin_status := ACTIVE_STATUS\<rparr>))
     (bindS (conn_field c pc_origin_fd) (\<lambda>fd.
      register_fd env fd origin_handler OP_WRITE (Some (Connection c)))))"

section \<open>Opening a socket\<close>

definition establish_origin_connection :: "'o penv \<Rightarrow> address \<Rightarrow> u16 \<Rightarrow> ('o, int) prog" where
  "establish_origin_connection env addr protocol =
     bindS (sys_call (os_socket (pe_os env) protocol)) (\<lambda>sock.
     if sock < 0 then returnS (- 1)
     else bindS (selector_fd_set_nio env sock) (\<lambda>r.
       if r < 0 then thenS (sys_do (os_close (pe_os env) sock)) (returnS (- 1))
       else bindS (sys_call (os_setsockopt (pe_os env) sock)) (\<lambda>r.
         if r < 0 then thenS (sys_do (os_close (pe_os env) sock)) (returnS (- 1))
         else bindS (sys_call (os_connect (pe_os env) sock addr)) (\<lambda>(r, in_progress).
           if r < 0 \<and> \<not> in_progress then thenS (sys_do (os_close (pe_os env) sock)) (returnS (- 1))
           else returnS sock))))"

section \<open>The name server\<close>

text \<open>\<open>ip\<close>, \<open>port\<close>, \<open>path\<close> and \<open>host\<close> are the fields of \<^verbatim>\<open>args.doh\<close>.\<close>

definition init_doh :: "'o penv \<Rightarrow> bytes \<Rightarrow> u16 \<Rightarrow> bytes \<Rightarrow> bytes \<Rightarrow> ('o, unit) prog" where
  "init_doh env ip port path host =
     modifyW (\<lambda>w. w\<lparr>w_doh_server :=
       (let d = (w_doh_server w)\<lparr>du_path := path, du_host := host, ds_port := htons port\<rparr>
        in case pe_pton4 env ip of
             Some a \<Rightarrow> d\<lparr>ds_ipv4addr := a, ds_isipv4 := True\<rparr>
           | None \<Rightarrow> (case pe_pton6 env ip of
               Some a \<Rightarrow> d\<lparr>ds_ipv6addr := a, ds_isipv4 := False\<rparr>
             | None \<Rightarrow> d))\<rparr>)"

definition set_error :: "nat \<Rightarrow> int \<Rightarrow> ('o, nat) prog" where
  "set_error c code = thenS (conn_upd c (\<lambda>p. p\<lparr>pc_error := code\<rparr>)) (returnS ERROR)"

text \<open>The end of every attempt: the new socket is registered.\<close>

definition try_registered :: "'o penv \<Rightarrow> pkey \<Rightarrow> nat \<Rightarrow> ('o, nat) prog" where
  "try_registered env key c =
     bindS (register_origin_socket env key) (\<lambda>status.
     if status \<noteq> SELECTOR_SUCCESS then set_error c INTERNAL_SERVER_ERROR else returnS TRY_CONNECTION_IP)"

definition handle_origin_doh_connection :: "'o penv \<Rightarrow> pkey \<Rightarrow> ('o, nat) prog" where
  "handle_origin_doh_connection env key =
     bindS (ATTACHMENT key) (\<lambda>c.
     bindS (getW w_doh_server) (\<lambda>d.
     bindS (if ds_isipv4 d
            then establish_origin_connection env
                   (Addr4 \<lparr>sin_family = AF_INET, sin_port = ds_port d, sin_addr = ds_ipv4addr d\<rparr>) AF_INET
            else establish_origin_connection env
                   (Addr6 \<lparr>sin6_family = AF_INET6, sin6_port = ds_port d, sin6_addr = ds_ipv6addr d\<rparr>) AF_INET6) (\<lambda>fd.
     thenS (conn_upd c (\<lambda>p. p\<lparr>pc_origin_fd := fd\<rparr>))
     (if fd < 0 then set_error c INTERNAL_SERVER_ERROR else try_registered env key c))))"

text \<open>Through the pointer \<^verbatim>\<open>doh_connection\<close>.\<close>

definition doh_get :: "nat \<Rightarrow> ('o, doh_connection) prog" where
  "doh_get c =
     bindS (conn_field c pc_doh) (\<lambda>d. case d of None \<Rightarrow> failS NullDeref | Some d \<Rightarrow> returnS d)"

definition doh_upd :: "nat \<Rightarrow> (doh_connection \<Rightarrow> doh_connection) \<Rightarrow> ('o, unit) prog" where
  "doh_upd c f = bindS (doh_get c) (\<lambda>d. conn_upd c (\<lambda>p. p\<lparr>pc_doh := Some (f d)\<rparr>))"

definition doh_response_of :: "doh_connection \<Rightarrow> doh_response" where
  "doh_response_of d = dp_response (dc_doh_parser d)"

text \<open>The port of the request line, while the union still holds it.\<close>

definition request_port :: "nat \<Rightarrow> ('o, u16) prog" where
  "request_port c =
     bindS (conn_field c pc_parsers) (\<lambda>st.
     case st of Request_Line r \<Rightarrow> returnS (rt_port (rp_target r)) | _ \<Rightarrow> failS UnionMisread)"

text \<open>Four bytes of memory as an \<^verbatim>\<open>in_addr\<close> of a little-endian machine.\<close>

definition in_addr_of :: "bytes \<Rightarrow> u32" where
  "in_addr_of bs =
     ucast (bs ! 0) + push_bit 8 (ucast (bs ! 1)) + push_bit 16 (ucast (bs ! 2)) + push_bit 24 (ucast (bs ! 3))"

text \<open>\<^verbatim>\<open>answers[current_try++]\<close>.\<close>

definition answer_entry :: "nat \<Rightarrow> ('o, answer) prog" where
  "answer_entry c =
     bindS (doh_get c) (\<lambda>d.
     bindS (case dr_answers (doh_response_of d) of
              None \<Rightarrow> failS NullDeref
            | Some as \<Rightarrow> liftS (arr_get as (uint (dc_current_try d)))) (\<lambda>a.
     thenS (doh_upd c (\<lambda>d. d\<lparr>dc_current_try := dc_current_try d + 1\<rparr>)) (returnS a)))"

definition more_answers :: "nat \<Rightarrow> ('o, bool) prog" where
  "more_answers c =
     bindS (doh_get c) (\<lambda>d. returnS (ucast (dc_current_try d) < dh_ancount (dr_header (doh_response_of d))))"

text \<open>
  Leaving the addresses of one family: the answers are freed and the server is asked for the other.
\<close>

definition switch_to_ipv6 :: "'o penv \<Rightarrow> pkey \<Rightarrow> nat \<Rightarrow> ('o, nat) prog" where
  "switch_to_ipv6 env key c =
     thenS (doh_upd c (\<lambda>d. d\<lparr>dc_doh_parser := doh_response_parser_destroy (dc_doh_parser d)\<rparr>))
     (thenS (doh_upd c (\<lambda>d. d\<lparr>dc_is_active := False\<rparr>))
     (thenS (doh_upd c (\<lambda>d. d\<lparr>dc_current_type := ipv6_try\<rparr>))
     (handle_origin_doh_connection env key)))"

fun try_next_ipv4_connection :: "nat \<Rightarrow> 'o penv \<Rightarrow> pkey \<Rightarrow> nat \<Rightarrow> ('o, nat) prog" where
  "try_next_ipv4_connection 0 env key c = failS Hang"
| "try_next_ipv4_connection (Suc fuel) env key c =
     bindS (more_answers c) (\<lambda>more.
     if \<not> more then switch_to_ipv6 env key c
     else bindS (answer_entry c) (\<lambda>a.
       if an_type a \<noteq> IPV4_TYPE then try_next_ipv4_connection fuel env key c
       else bindS (request_port c) (\<lambda>port.
         bindS (establish_origin_connection env
           (Addr4 \<lparr>sin_family = AF_INET, sin_port = port, sin_addr = in_addr_of (an_ip a)\<rparr>) AF_INET) (\<lambda>fd.
         thenS (conn_upd c (\<lambda>p. p\<lparr>pc_origin_fd := fd\<rparr>))
         (if fd = - 1 then try_next_ipv4_connection fuel env key c else try_registered env key c)))))"

fun try_next_ipv6_connection :: "nat \<Rightarrow> 'o penv \<Rightarrow> pkey \<Rightarrow> nat \<Rightarrow> ('o, nat) prog" where
  "try_next_ipv6_connection 0 env key c = failS Hang"
| "try_next_ipv6_connection (Suc fuel) env key c =
     bindS (more_answers c) (\<lambda>more.
     if \<not> more then set_error c INTERNAL_SERVER_ERROR
     else bindS (answer_entry c) (\<lambda>a.
       if an_type a \<noteq> IPV6_TYPE then try_next_ipv6_connection fuel env key c
       else bindS (request_port c) (\<lambda>port.
         bindS (establish_origin_connection env
           (Addr6 \<lparr>sin6_family = AF_INET6, sin6_port = port, sin6_addr = an_ip a\<rparr>) AF_INET6) (\<lambda>fd.
         thenS (conn_upd c (\<lambda>p. p\<lparr>pc_origin_fd := fd\<rparr>))
         (if fd = - 1 then try_next_ipv6_connection fuel env key c else try_registered env key c)))))"

definition try_next_dns_connection :: "'o penv \<Rightarrow> pkey \<Rightarrow> ('o, nat) prog" where
  "try_next_dns_connection env key =
     bindS (ATTACHMENT key) (\<lambda>c.
     bindS (conn_field c pc_origin_fd) (\<lambda>fd.
     bindS (unregister_fd env fd) (\<lambda>status.
     if status \<noteq> SELECTOR_SUCCESS then set_error c INTERNAL_SERVER_ERROR
     else bindS (doh_get c) (\<lambda>d.
       let response_error = (df_rcode (dh_flags (dr_header (doh_response_of d))) \<noteq> 0)
       in if dc_current_type d = ipv4_try
          then if \<not> response_error then try_next_ipv4_connection (pe_fuel env) env key c
               else switch_to_ipv6 env key c
          else if response_error then set_error c INTERNAL_SERVER_ERROR
          else try_next_ipv6_connection (pe_fuel env) env key c))))"

end
