(* ===== verification/Connection_States.thy ===== *)
theory Connection_States
  imports Origin
begin

text \<open>
  The states of a connection: \<^verbatim>\<open>states/*\<close>, \<^verbatim>\<open>utils/sniffer/sniffer_utils.c\<close> and the table of
  \<^verbatim>\<open>state_machine/stm_initializer.c\<close>. Every function of the table is a program over the state of the proxy,
  with the name it has in C.
\<close>

section \<open>What the states share\<close>

text \<open>\<^verbatim>\<open>sprintf\<close> at the write pointer stores a terminator too.\<close>

definition buffer_sprintf :: "bytes \<Rightarrow> buffer \<Rightarrow> fault + buffer" where
  "buffer_sprintf text b =
     bindR (buffer_write_ptr b) (\<lambda>_.
     bindR (buffer_store b (text @ [0])) (\<lambda>b'. buffer_write_adv b' (int (length text))))"

text \<open>\<^verbatim>\<open>buffer_read\<close> on the buffer of the client and of the origin.\<close>

definition client_buffer_read :: "nat \<Rightarrow> ('o, u8) prog" where
  "client_buffer_read c =
     bindS (conn_field c pc_client_buffer) (\<lambda>b.
     bindS (liftS (buffer_read b)) (\<lambda>(x, b').
     thenS (conn_upd c (\<lambda>p. p\<lparr>pc_client_buffer := b'\<rparr>)) (returnS x)))"

definition origin_buffer_read :: "nat \<Rightarrow> ('o, u8) prog" where
  "origin_buffer_read c =
     bindS (conn_field c pc_origin_buffer) (\<lambda>b.
     bindS (liftS (buffer_read b)) (\<lambda>(x, b').
     thenS (conn_upd c (\<lambda>p. p\<lparr>pc_origin_buffer := b'\<rparr>)) (returnS x)))"

definition set_interests :: "nat \<Rightarrow> fd_interest \<Rightarrow> fd_interest \<Rightarrow> ('o, unit) prog" where
  "set_interests c client_interest origin_interest =
     bindS (conn_get c) (\<lambda>p.
     thenS (set_interest (pc_client_fd p) client_interest)
     (thenS (set_interest (pc_origin_fd p) origin_interest) (returnS ())))"

definition count_metric :: "(proxy_metrics \<Rightarrow> proxy_metrics) \<Rightarrow> ('o, unit) prog" where
  "count_metric f = modifyW (\<lambda>w. w\<lparr>w_metrics := f (w_metrics w)\<rparr>)"

section \<open>Sniffing\<close>

text \<open>\<open>k\<close> rounds left from index \<open>i\<close>; \<open>at\<close> is the read pointer.\<close>

fun sniff_loop :: "nat \<Rightarrow> 'o penv \<Rightarrow> pkey \<Rightarrow> nat \<Rightarrow> int \<Rightarrow> bytes \<Rightarrow> nat \<Rightarrow> ('o, unit) prog" where
  "sniff_loop 0 env key c owner block at = returnS ()"
| "sniff_loop (Suc k) env key c owner block at =
     bindS (liftS (arr_get block (int at))) (\<lambda>x.
     bindS (conn_get c) (\<lambda>p.
     bindS (liftS (sniffer_parser_feed (pe_sniff env) x (sn_parser (pc_sniffer p)) owner (cr_port (pc_request p)))) (\<lambda>sf.
     thenS (conn_upd c (\<lambda>p. p\<lparr>pc_sniffer := (pc_sniffer p)\<lparr>sn_parser := sf\<rparr>\<rparr>))
     (if sf_state sf = sniff_done
      then thenS (conn_upd c (\<lambda>p. p\<lparr>pc_sniffer := (pc_sniffer p)\<lparr>sn_is_done := True\<rparr>\<rparr>))
           (log_user_and_password env key)
      else if sf_state sf = sniff_error
      then conn_upd c (\<lambda>p. p\<lparr>pc_sniffer := (pc_sniffer p)\<lparr>sn_is_done := True\<rparr>\<rparr>)
      else sniff_loop k env key c owner block (Suc at)))))"

definition sniff_data :: "'o penv \<Rightarrow> pkey \<Rightarrow> ('o, unit) prog" where
  "sniff_data env key =
     bindS (ATTACHMENT key) (\<lambda>c.
     bindS (conn_get c) (\<lambda>p.
     let (owner, b) = (if key_fd key = pc_client_fd p then (CLIENT_OWNED, pc_client_buffer p)
                       else (ORIGIN_OWNED, pc_origin_buffer p))
     in bindS (liftS (buffer_read_ptr b)) (\<lambda>(at, max_bytes).
        let n = (if pc_bytes_to_analize p > int max_bytes then int max_bytes else pc_bytes_to_analize p)
        in thenS (conn_upd c (\<lambda>p. p\<lparr>pc_bytes_to_analize := n\<rparr>))
           (thenS (sniff_loop (nat n) env key c owner (b_data b) at)
           (conn_upd c (\<lambda>p. p\<lparr>pc_bytes_to_analize := 0\<rparr>))))))"

section \<open>Parsing the request line\<close>

definition zero_request_parser :: request_parser where
  "zero_request_parser = \<lparr>rp_request = zero_request_line, rp_state = request_method, rp_i = 0, rp_n = 0\<rparr>"

definition parsing_host_on_arrival :: "pkey \<Rightarrow> ('o, unit) prog" where
  "parsing_host_on_arrival key =
     bindS (ATTACHMENT key) (\<lambda>c.
     thenS (conn_upd c (\<lambda>p. p\<lparr>pc_parsers := Request_Line (request_parser_init zero_request_parser)\<rparr>))
     (bindS (getW w_disectors_enabled) (\<lambda>enabled.
      conn_upd c (\<lambda>p. p\<lparr>pc_sniffer := \<lparr>sn_parser = sniffer_parser_init (sn_parser (pc_sniffer p)),
                                       sn_enabled = enabled, sn_is_done = False\<rparr>\<rparr>))))"

definition request_of :: "nat \<Rightarrow> ('o, request_parser) prog" where
  "request_of c =
     bindS (conn_field c pc_parsers) (\<lambda>st. case st of Request_Line r \<Rightarrow> returnS r | _ \<Rightarrow> failS UnionMisread)"

definition request_line_error :: "request_state \<Rightarrow> int option" where
  "request_line_error st =
     (case st of
        request_error_unsupported_method \<Rightarrow> Some NOT_IMPLEMENTED
      | request_error_unsupported_version \<Rightarrow> Some HTTP_VERSION_NOT_SUPPORTED
      | request_error \<Rightarrow> Some BAD_REQUEST
      | _ \<Rightarrow> None)"

definition check_request_line_error :: "nat \<Rightarrow> request_state \<Rightarrow> ('o, bool) prog" where
  "check_request_line_error c st =
     (case request_line_error st of
        Some code \<Rightarrow> thenS (conn_upd c (\<lambda>p. p\<lparr>pc_error := code\<rparr>)) (returnS True)
      | None \<Rightarrow> returnS False)"

definition handle_origin_ip_connection :: "'o penv \<Rightarrow> pkey \<Rightarrow> ('o, nat) prog" where
  "handle_origin_ip_connection env key =
     bindS (ATTACHMENT key) (\<lambda>c.
     bindS (request_of c) (\<lambda>r.
     bindS (if rt_host_type (rp_target r) = ipv4
            then (case rt_host (rp_target r) of
                    HIpv4 a \<Rightarrow> establish_origin_connection env (Addr4 a) AF_INET
                  | _ \<Rightarrow> failS UnionMisread)
            else (case rt_host (rp_target r) of
                    HIpv6 a \<Rightarrow> establish_origin_connection env (Addr6 a) AF_INET6
                  | _ \<Rightarrow> failS UnionMisread)) (\<lambda>fd.
     thenS (conn_upd c (\<lambda>p. p\<lparr>pc_origin_fd := fd\<rparr>))
     (if fd = - 1 then set_error c INTERNAL_SERVER_ERROR else try_registered env key c))))"

text \<open>
  \<^verbatim>\<open>inet_ntop\<close> is given the address of the whole structure: it reads its first bytes, on a
  little-endian machine these.
\<close>

definition le16 :: "u16 \<Rightarrow> bytes" where
  "le16 v = [ucast v, ucast (drop_bit 8 v)]"

definition origin_text :: "'o penv \<Rightarrow> host_type \<Rightarrow> host \<Rightarrow> fault + bytes" where
  "origin_text env type h =
     (case type of
        ipv4 \<Rightarrow> (case h of HIpv4 a \<Rightarrow> Inr (pe_ntop env AF_INET (le16 (sin_family a) @ le16 (sin_port a)))
                 | _ \<Rightarrow> Inl UnionMisread)
      | ipv6 \<Rightarrow> (case h of
            HIpv6 a \<Rightarrow> Inr (pe_ntop env AF_INET6 (le16 (sin6_family a) @ le16 (sin6_port a) @ [0, 0, 0, 0] @ take 8 (sin6_addr a)))
          | _ \<Rightarrow> Inl UnionMisread)
      | domain \<Rightarrow> (case h of HDomain d \<Rightarrow> c_string d | _ \<Rightarrow> Inl UnionMisread))"

definition request_of_line :: "'o penv \<Rightarrow> request_line \<Rightarrow> connection_request \<Rightarrow> fault + connection_request" where
  "request_of_line env line cr =
     bindR (c_string (rl_method line)) (\<lambda>method.
     bindR (arr_get (rt_origin_form (rl_request_target line)) 0) (\<lambda>first.
     bindR (if method = OPTIONS_method \<and> first = 0
            then bindR (sprintf_array request_line_room (method @ ascii '' * HTTP/1.0'' @ [CR, LF])) (\<lambda>text.
                 Inr (cr\<lparr>cr_request_line := text\<rparr>))
            else bindR (c_string (rt_origin_form (rl_request_target line))) (\<lambda>form.
                 bindR (sprintf_array request_line_room (method @ [SP] @ form @ ascii '' HTTP/1.0'' @ [CR, LF])) (\<lambda>text.
                 Inr (cr\<lparr>cr_connect := cr_connect cr \<or> method = CONNECT_method, cr_request_line := text\<rparr>)))) (\<lambda>cr.
     let t = rl_request_target line;
         cr = cr\<lparr>cr_host_type := rt_host_type t, cr_port := ntohs (rt_port t), cr_host := rt_host t\<rparr>
     in bindR (origin_text env (rt_host_type t) (rt_host t)) (\<lambda>origin_host.
        bindR (if cr_connect cr then Inr [] else c_string (rt_origin_form t)) (\<lambda>form.
        bindR (sprintf_array target_room
                 ((if rt_type t = absolute_form then ascii ''http://'' else []) @ origin_host @ [COLON] @
                  dec_text (unat (cr_port cr)) @ form)) (\<lambda>target.
        bindR (sprintf_array method_room method) (\<lambda>method.
        Inr (cr\<lparr>cr_target := target, cr_method := method\<rparr>))))))))"

definition build_connection_request :: "'o penv \<Rightarrow> pkey \<Rightarrow> ('o, unit) prog" where
  "build_connection_request env key =
     bindS (ATTACHMENT key) (\<lambda>c.
     bindS (request_of c) (\<lambda>r.
     bindS (conn_field c pc_request) (\<lambda>cr.
     bindS (liftS (request_of_line env (rp_request r) cr)) (\<lambda>cr.
     conn_upd c (\<lambda>p. p\<lparr>pc_request := cr\<rparr>)))))"

text \<open>The part of the loop body after the parser is done.\<close>

definition request_line_done :: "'o penv \<Rightarrow> pkey \<Rightarrow> nat \<Rightarrow> request_parser \<Rightarrow> ('o, nat) prog" where
  "request_line_done env key c r =
     bindS (if rt_host_type (rp_target r) = domain then handle_origin_doh_connection env key
            else handle_origin_ip_connection env key) (\<lambda>next_state.
     if next_state = ERROR then returnS next_state
     else thenS (build_connection_request env key)
          (bindS (conn_get c) (\<lambda>p.
           if cr_connect (pc_request p)
           then thenS (conn_upd c (\<lambda>p. p\<lparr>pc_client_buffer := buffer_reset (pc_client_buffer p)\<rparr>))
                (returnS next_state)
           else bindS (liftS (modify_sniffer_state (pe_sniff env) (sn_parser (pc_sniffer p)) sniff_http_authorization)) (\<lambda>sf.
                thenS (conn_upd c (\<lambda>p. p\<lparr>pc_sniffer := (pc_sniffer p)\<lparr>sn_parser := sf\<rparr>\<rparr>))
                (thenS (if sn_enabled (pc_sniffer p) \<and> pc_bytes_to_analize p > 0 \<and> \<not> sn_is_done (pc_sniffer p)
                        then sniff_data env key else returnS ())
                (returnS next_state))))))"

text \<open>Every round takes one byte out of the buffer: \<open>fuel\<close> above their number is enough.\<close>

fun parsing_loop :: "nat \<Rightarrow> 'o penv \<Rightarrow> pkey \<Rightarrow> nat \<Rightarrow> ('o, nat) prog" where
  "parsing_loop 0 env key c = failS Hang"
| "parsing_loop (Suc fuel) env key c =
     bindS (conn_field c pc_client_buffer) (\<lambda>b.
     if \<not> buffer_can_read b then conn_state c
     else bindS (request_of c) (\<lambda>r.
          bindS (client_buffer_read c) (\<lambda>x.
          bindS (liftS (request_parser_feed (pe_pton4 env) (pe_pton6 env) r x)) (\<lambda>r.
          thenS (conn_upd c (\<lambda>p. p\<lparr>pc_parsers := Request_Line r, pc_bytes_to_analize := pc_bytes_to_analize p - 1\<rparr>))
          (bindS (check_request_line_error c (rp_state r)) (\<lambda>bad.
           if bad then returnS ERROR
           else if rp_state r = request_done then request_line_done env key c r
           else parsing_loop fuel env key c))))))"

definition parsing_host_on_read_ready :: "'o penv \<Rightarrow> pkey \<Rightarrow> ('o, nat) prog" where
  "parsing_host_on_read_ready env key =
     bindS (ATTACHMENT key) (\<lambda>c.
     bindS (conn_field c pc_client_buffer) (\<lambda>b.
     parsing_loop (Suc (b_write b - b_read b)) env key c))"

section \<open>Connecting\<close>

definition try_connection_ip_on_arrival :: "pkey \<Rightarrow> ('o, unit) prog" where
  "try_connection_ip_on_arrival key = bindS (ATTACHMENT key) (\<lambda>c. set_interests c OP_NOOP OP_WRITE)"

definition check_origin_connection :: "'o penv \<Rightarrow> int \<Rightarrow> ('o, bool) prog" where
  "check_origin_connection env fd =
     bindS (sys_call (os_getsockopt (pe_os env) fd)) (\<lambda>r.
     case r of
       None \<Rightarrow> thenS (log_level_msg env (ascii ''Error getsockopt.'') LEVEL_ERROR) (returnS False)
     | Some opt \<Rightarrow>
         if opt \<noteq> 0
         then thenS (log_level_msg env (ascii ''Connection could not be established, closing sockets.'') LEVEL_ERROR)
              (returnS False)
         else returnS True)"

definition connect_reply :: "u16 \<Rightarrow> bytes" where
  "connect_reply code = ascii ''HTTP/1.0 '' @ dec_text (unat code) @ ascii '' OK'' @ [CR, LF, CR, LF]"

definition try_connection_ip_on_write_ready :: "'o penv \<Rightarrow> pkey \<Rightarrow> ('o, nat) prog" where
  "try_connection_ip_on_write_ready env key =
     bindS (ATTACHMENT key) (\<lambda>c.
     bindS (conn_field c pc_origin_fd) (\<lambda>fd.
     bindS (check_origin_connection env fd) (\<lambda>connected.
     bindS (conn_get c) (\<lambda>p.
     if connected
     then if cr_host_type (pc_request p) = domain \<and>
             (case pc_doh p of None \<Rightarrow> True | Some d \<Rightarrow> \<not> dc_is_active d)
          then returnS SEND_DOH_REQUEST
          else thenS (count_metric register_new_connection)
               (if cr_connect (pc_request p)
                then thenS (conn_upd c (\<lambda>p. p\<lparr>pc_request := (pc_request p)\<lparr>cr_status_code := 200\<rparr>\<rparr>))
                     (thenS (log_new_connection env key)
                     (thenS (conn_upd c (\<lambda>p. p\<lparr>pc_origin_buffer := buffer_reset (pc_origin_buffer p)\<rparr>))
                     (thenS (on_origin_buffer c (buffer_sprintf (connect_reply 200)))
                     (returnS CONNECTED))))
                else returnS SEND_REQUEST_LINE)
     else thenS (count_metric increase_failed_connections)
          (if cr_host_type (pc_request p) = domain \<and> pc_doh p \<noteq> None
           then try_next_dns_connection env key
           else set_error c INTERNAL_SERVER_ERROR)))))"

section \<open>The request to the name server\<close>

definition write_doh_request :: "'o penv \<Rightarrow> pkey \<Rightarrow> ('o, unit) prog" where
  "write_doh_request env key =
     bindS (ATTACHMENT key) (\<lambda>c.
     bindS (conn_get c) (\<lambda>p.
     bindS (getW w_doh_server) (\<lambda>server.
     bindS (case cr_host (pc_request p) of HDomain d \<Rightarrow> returnS d | _ \<Rightarrow> failS UnionMisread) (\<lambda>name.
     on_origin_buffer c (\<lambda>b.
       bindR (buffer_write_ptr b) (\<lambda>(at, _).
       let query_type = (case pc_doh p of None \<Rightarrow> IPV4_TYPE
                         | Some d \<Rightarrow> if dc_current_type d = ipv4_try then IPV4_TYPE else IPV6_TYPE)
       in bindR (build_doh_request (doh_utils.truncate server) (pe_stack env) (drop at (b_data b)) name (ucast query_type)) (\<lambda>(out, sz).
          buffer_write_adv (b\<lparr>b_data := take at (b_data b) @ out\<rparr>) (int sz))))))))"

definition send_doh_request_on_arrival :: "'o penv \<Rightarrow> pkey \<Rightarrow> ('o, unit) prog" where
  "send_doh_request_on_arrival env key =
     bindS (ATTACHMENT key) (\<lambda>c.
     thenS (write_doh_request env key) (set_interests c OP_NOOP OP_WRITE))"

definition send_doh_request_on_write_ready :: "pkey \<Rightarrow> ('o, nat) prog" where
  "send_doh_request_on_write_ready key =
     bindS (ATTACHMENT key) (\<lambda>c.
     bindS (conn_field c pc_origin_buffer) (\<lambda>b.
     if \<not> buffer_can_read b then returnS AWAIT_DOH_RESPONSE else conn_state c))"

section \<open>The answer of the name server\<close>

definition zero_doh_connection :: doh_connection where
  "zero_doh_connection =
     \<lparr>dc_is_active = False, dc_current_try = 0, dc_current_type = ipv4_try,
      dc_status_line_parser = \<lparr>sp_status_line = zero_status_line, sp_state = status_line_version, sp_i = 0, sp_n = 0\<rparr>,
      dc_headers_parser = \<lparr>hp_state = headers_field_name, hp_count = 0, hp_i = 0, hp_n = 0\<rparr>,
      dc_doh_parser = \<lparr>dp_response = zero_doh_response, dp_state = response_header_id, dp_i = 0, dp_n = 0\<rparr>\<rparr>"

definition doh_started :: "doh_connection \<Rightarrow> doh_connection" where
  "doh_started d =
     d\<lparr>dc_is_active := True, dc_current_try := 0,
       dc_headers_parser := headers_parser_init (dc_headers_parser d),
       dc_status_line_parser := status_line_parser_init (dc_status_line_parser d),
       dc_doh_parser := doh_response_parser_init (dc_doh_parser d)\<rparr>"

definition init_doh_state :: "'o penv \<Rightarrow> pkey \<Rightarrow> ('o, unit) prog" where
  "init_doh_state env key =
     bindS (ATTACHMENT key) (\<lambda>c.
     bindS (conn_field c pc_doh) (\<lambda>d.
     case d of
       Some d \<Rightarrow> conn_upd c (\<lambda>p. p\<lparr>pc_doh := Some (doh_started d)\<rparr>)
     | None \<Rightarrow>
         bindS (sys_call (os_calloc (pe_os env))) (\<lambda>ok.
         if ok then conn_upd c (\<lambda>p. p\<lparr>pc_doh := Some (doh_started zero_doh_connection)\<rparr>)
         else conn_upd c (\<lambda>p. p\<lparr>pc_error := INTERNAL_SERVER_ERROR\<rparr>))))"

definition await_doh_response_on_arrival :: "'o penv \<Rightarrow> pkey \<Rightarrow> ('o, unit) prog" where
  "await_doh_response_on_arrival env key =
     bindS (ATTACHMENT key) (\<lambda>c.
     thenS (init_doh_state env key) (set_interests c OP_NOOP OP_READ))"

definition reset_origin_buffer :: "nat \<Rightarrow> ('o, unit) prog" where
  "reset_origin_buffer c = conn_upd c (\<lambda>p. p\<lparr>pc_origin_buffer := buffer_reset (pc_origin_buffer p)\<rparr>)"

text \<open>What follows the loop.\<close>

definition await_doh_end :: "'o penv \<Rightarrow> pkey \<Rightarrow> nat \<Rightarrow> ('o, nat) prog" where
  "await_doh_end env key c =
     bindS (conn_get c) (\<lambda>p.
     if pc_origin_status p = CLOSING_STATUS
     then thenS (sys_do (os_shutdown (pe_os env) (pc_origin_fd p))) (try_next_dns_connection env key)
     else conn_state c)"

text \<open>A byte of the DNS message: \<open>None\<close> goes on with the loop.\<close>

definition await_doh_byte :: "'o penv \<Rightarrow> pkey \<Rightarrow> nat \<Rightarrow> doh_response_state \<Rightarrow> ('o, nat option) prog" where
  "await_doh_byte env key c st =
     (if st = doh_response_error then bindS (set_error c BAD_GATEWAY) (\<lambda>n. returnS (Some n))
      else if st = response_mem_alloc_error then bindS (set_error c INTERNAL_SERVER_ERROR) (\<lambda>n. returnS (Some n))
      else if st = doh_no_answers
      then bindS (doh_get c) (\<lambda>d.
           if dc_current_type d = ipv6_try
           then bindS (set_error c INTERNAL_SERVER_ERROR) (\<lambda>n. returnS (Some n))
           else thenS (reset_origin_buffer c)
                (bindS (conn_field c pc_origin_fd) (\<lambda>fd.
                 thenS (unregister_fd env fd)
                 (bindS (switch_to_ipv6 env key c) (\<lambda>n. returnS (Some n))))))
      else if st = doh_response_done
      then thenS (reset_origin_buffer c) (bindS (await_doh_end env key c) (\<lambda>n. returnS (Some n)))
      else returnS None)"

text \<open>
  Every round but that of three finished parsers takes one byte out of the buffer; that round changes
  nothing and comes back for ever. \<open>fuel\<close> above the number of bytes runs out in that case only.
\<close>

fun await_doh_loop :: "nat \<Rightarrow> 'o penv \<Rightarrow> pkey \<Rightarrow> nat \<Rightarrow> ('o, nat) prog" where
  "await_doh_loop 0 env key c = failS Hang"
| "await_doh_loop (Suc fuel) env key c =
     bindS (conn_field c pc_origin_buffer) (\<lambda>b.
     if \<not> buffer_can_read b then await_doh_end env key c
     else bindS (doh_get c) (\<lambda>d.
       if status_line_parser.sp_state (dc_status_line_parser d) \<noteq> status_line_done
       then bindS (origin_buffer_read c) (\<lambda>x.
            bindS (liftS (status_line_parser_feed (dc_status_line_parser d) x)) (\<lambda>sp.
            thenS (doh_upd c (\<lambda>d. d\<lparr>dc_status_line_parser := sp\<rparr>))
            (if status_line_parser.sp_state sp = status_line_error then set_error c BAD_GATEWAY
             else await_doh_loop fuel env key c)))
       else if hp_state (dc_headers_parser d) \<noteq> headers_done
       then bindS (origin_buffer_read c) (\<lambda>x.
            bindS (liftS (headers_parser_feed (dc_headers_parser d) x)) (\<lambda>hp.
            thenS (doh_upd c (\<lambda>d. d\<lparr>dc_headers_parser := hp\<rparr>))
            (if hp_state hp = headers_error then set_error c BAD_GATEWAY
             else await_doh_loop fuel env key c)))
       else if dp_state (dc_doh_parser d) \<noteq> doh_response_done
       then bindS (origin_buffer_read c) (\<lambda>x.
            bindS (liftS (doh_response_parser_feed (pe_doh env) (dc_doh_parser d) x)) (\<lambda>dp.
            thenS (doh_upd c (\<lambda>d. d\<lparr>dc_doh_parser := dp\<rparr>))
            (bindS (await_doh_byte env key c (dp_state dp)) (\<lambda>r.
             case r of Some n \<Rightarrow> returnS n | None \<Rightarrow> await_doh_loop fuel env key c))))
       else await_doh_loop fuel env key c))"

definition await_doh_response_on_read_ready :: "'o penv \<Rightarrow> pkey \<Rightarrow> ('o, nat) prog" where
  "await_doh_response_on_read_ready env key =
     bindS (ATTACHMENT key) (\<lambda>c.
     bindS (conn_get c) (\<lambda>p.
     if pc_error p = INTERNAL_SERVER_ERROR then returnS ERROR
     else await_doh_loop (Suc (b_write (pc_origin_buffer p) - b_read (pc_origin_buffer p))) env key c))"

section \<open>Sending the request line\<close>

definition write_request_line :: "pkey \<Rightarrow> ('o, unit) prog" where
  "write_request_line key =
     bindS (ATTACHMENT key) (\<lambda>c.
     bindS (conn_field c pc_request) (\<lambda>cr. on_origin_buffer c (\<lambda>b. buffer_put b (cr_request_line cr))))"

definition send_request_line_on_arrival :: "pkey \<Rightarrow> ('o, unit) prog" where
  "send_request_line_on_arrival key =
     bindS (ATTACHMENT key) (\<lambda>c.
     thenS (write_request_line key) (set_interests c OP_NOOP OP_WRITE))"

definition send_request_line_on_write_ready :: "pkey \<Rightarrow> ('o, nat) prog" where
  "send_request_line_on_write_ready key =
     bindS (ATTACHMENT key) (\<lambda>c.
     bindS (conn_field c pc_origin_buffer) (\<lambda>b.
     if \<not> buffer_can_read b then returnS CONNECTED else conn_state c))"

section \<open>Connected\<close>

definition init_http_response :: "nat \<Rightarrow> ('o, unit) prog" where
  "init_http_response c =
     conn_upd c (\<lambda>p. p\<lparr>pc_parsers :=
       Status_Line (status_line_parser_init (dc_status_line_parser zero_doh_connection)) False\<rparr>)"

text \<open>The interests of the two descriptors, from the two buffers.\<close>

definition connected_interests :: "buffer \<Rightarrow> buffer \<Rightarrow> fd_interest \<times> fd_interest" where
  "connected_interests origin_buffer client_buffer =
     (let client_interest = OP_NOOP; origin_interest = OP_NOOP;
          client_interest = (if buffer_can_read origin_buffer then client_interest OR OP_WRITE else client_interest);
          client_interest = (if buffer_can_write client_buffer then client_interest OR OP_READ else client_interest);
          origin_interest = (if buffer_can_read client_buffer then origin_interest OR OP_WRITE else origin_interest);
          origin_interest = (if buffer_can_write origin_buffer then origin_interest OR OP_READ else origin_interest)
      in (client_interest, origin_interest))"

definition set_connection_interests :: "nat \<Rightarrow> ('o, unit) prog" where
  "set_connection_interests c =
     bindS (conn_get c) (\<lambda>p.
     let (client_interest, origin_interest) = connected_interests (pc_origin_buffer p) (pc_client_buffer p)
     in set_interests c client_interest origin_interest)"

definition connected_on_arrival :: "pkey \<Rightarrow> ('o, unit) prog" where
  "connected_on_arrival key =
     bindS (ATTACHMENT key) (\<lambda>c.
     bindS (conn_field c pc_request) (\<lambda>cr.
     thenS (if \<not> cr_connect cr then init_http_response c else returnS ())
     (set_connection_interests c)))"

text \<open>The response line, \<open>k\<close> rounds left from index \<open>i\<close>.\<close>

fun response_loop :: "nat \<Rightarrow> 'o penv \<Rightarrow> pkey \<Rightarrow> nat \<Rightarrow> status_line_parser \<Rightarrow> bytes \<Rightarrow> nat \<Rightarrow> ('o, unit) prog" where
  "response_loop 0 env key c sp block i = returnS ()"
| "response_loop (Suc k) env key c sp block i =
     bindS (liftS (arr_get block (int i))) (\<lambda>x.
     bindS (liftS (status_line_parser_feed sp x)) (\<lambda>sp.
     if status_line_parser.sp_state sp = status_line_done
     then thenS (conn_upd c (\<lambda>p. p\<lparr>pc_request := (pc_request p)
                   \<lparr>cr_status_code := word_of_int (st_status_code (sp_status_line sp))\<rparr>,
                 pc_parsers := Status_Line sp True\<rparr>))
          (log_new_connection env key)
     else if status_line_parser.sp_state sp = status_line_error
     then conn_upd c (\<lambda>p. p\<lparr>pc_parsers := Status_Line sp True\<rparr>)
     else thenS (conn_upd c (\<lambda>p. p\<lparr>pc_parsers := Status_Line sp False\<rparr>))
          (response_loop k env key c sp block (Suc i))))"

definition connected_on_read_ready :: "'o penv \<Rightarrow> pkey \<Rightarrow> ('o, nat) prog" where
  "connected_on_read_ready env key =
     bindS (ATTACHMENT key) (\<lambda>c.
     bindS (conn_get c) (\<lambda>p.
     thenS (if \<not> cr_connect (pc_request p) \<and> key_fd key = pc_origin_fd p
            then case pc_parsers p of
                   Status_Line sp is_done \<Rightarrow>
                     if is_done then returnS ()
                     else bindS (liftS (buffer_read_ptr (pc_origin_buffer p))) (\<lambda>(at, _).
                          response_loop (nat (pc_bytes_to_analize p)) env key c sp (b_data (pc_origin_buffer p)) at)
                 | _ \<Rightarrow> failS UnionMisread
            else returnS ())
     (thenS (if sn_enabled (pc_sniffer p) \<and> \<not> sn_is_done (pc_sniffer p) then sniff_data env key else returnS ())
     (bindS (conn_get c) (\<lambda>p.
      if pc_client_status p = CLOSING_STATUS \<or> pc_origin_status p = CLOSING_STATUS then returnS CLOSING
      else thenS (set_connection_interests c) (conn_state c))))))"

definition connected_on_write_ready :: "pkey \<Rightarrow> ('o, nat) prog" where
  "connected_on_write_ready key =
     bindS (ATTACHMENT key) (\<lambda>c. thenS (set_connection_interests c) (conn_state c))"

section \<open>Closing\<close>

text \<open>
  The closing states compute from the two statuses and the two buffers: the interests, the new
  statuses, and which descriptors are shut down, in this order: the client's, then the origin's.
\<close>

record closing_step =
  cl_client_interest :: fd_interest
  cl_origin_interest :: fd_interest
  cl_client_status :: connection_status
  cl_origin_status :: connection_status
  cl_shut_client :: bool
  cl_shut_origin :: bool

definition origin_closing_step :: "buffer \<Rightarrow> buffer \<Rightarrow> closing_step \<Rightarrow> closing_step" where
  "origin_closing_step origin_buffer client_buffer s =
     (if cl_origin_status s = CLOSING_STATUS \<or> cl_origin_status s = CLOSED_STATUS
      then let s = (if buffer_can_read client_buffer
                    then s\<lparr>cl_origin_interest := cl_origin_interest s OR OP_WRITE\<rparr> else s);
               s = (if buffer_can_write client_buffer
                    then s\<lparr>cl_client_interest := cl_client_interest s OR OP_READ\<rparr> else s)
           in if buffer_can_read origin_buffer
              then s\<lparr>cl_client_interest := cl_client_interest s OR OP_WRITE\<rparr>
              else if cl_origin_status s = CLOSING_STATUS
              then s\<lparr>cl_shut_client := True, cl_origin_status := CLOSED_STATUS\<rparr>
              else s
      else s)"

definition client_closing_step :: "buffer \<Rightarrow> buffer \<Rightarrow> closing_step \<Rightarrow> closing_step" where
  "client_closing_step origin_buffer client_buffer s =
     (if cl_client_status s = CLOSING_STATUS \<or> cl_client_status s = CLOSED_STATUS
      then let s = (if buffer_can_read origin_buffer
                    then s\<lparr>cl_client_interest := cl_client_interest s OR OP_WRITE\<rparr> else s);
               s = (if buffer_can_write origin_buffer
                    then s\<lparr>cl_origin_interest := cl_origin_interest s OR OP_READ\<rparr> else s)
           in if buffer_can_read client_buffer
              then s\<lparr>cl_origin_interest := cl_origin_interest s OR OP_WRITE\<rparr>
              else if cl_client_status s = CLOSING_STATUS
              then s\<lparr>cl_shut_origin := True, cl_client_status := CLOSED_STATUS\<rparr>
              else s
      else s)"

definition closing_start :: "proxy_connection \<Rightarrow> closing_step" where
  "closing_start p =
     \<lparr>cl_client_interest = OP_NOOP, cl_origin_interest = OP_NOOP, cl_client_status = pc_client_status p,
      cl_origin_status = pc_origin_status p, cl_shut_client = False, cl_shut_origin = False\<rparr>"

definition apply_closing :: "'o penv \<Rightarrow> nat \<Rightarrow> proxy_connection \<Rightarrow> closing_step \<Rightarrow> ('o, unit) prog" where
  "apply_closing env c p s =
     thenS (if cl_shut_client s then sys_do (os_shutdown (pe_os env) (pc_client_fd p)) else returnS ())
     (thenS (if cl_shut_origin s then sys_do (os_shutdown (pe_os env) (pc_origin_fd p)) else returnS ())
     (thenS (conn_upd c (\<lambda>p. p\<lparr>pc_client_status := cl_client_status s, pc_origin_status := cl_origin_status s\<rparr>))
     (set_interests c (cl_client_interest s) (cl_origin_interest s))))"

definition set_closing_connection_interests :: "'o penv \<Rightarrow> nat \<Rightarrow> ('o, unit) prog" where
  "set_closing_connection_interests env c =
     bindS (conn_get c) (\<lambda>p.
     apply_closing env c p
       (client_closing_step (pc_origin_buffer p) (pc_client_buffer p)
         (origin_closing_step (pc_origin_buffer p) (pc_client_buffer p) (closing_start p))))"

definition closing_on_arrival :: "'o penv \<Rightarrow> pkey \<Rightarrow> ('o, unit) prog" where
  "closing_on_arrival env key = bindS (ATTACHMENT key) (set_closing_connection_interests env)"

definition closing_on_read_ready :: "'o penv \<Rightarrow> pkey \<Rightarrow> ('o, nat) prog" where
  "closing_on_read_ready env key =
     bindS (ATTACHMENT key) (\<lambda>c.
     bindS (conn_get c) (\<lambda>p.
     let (already_closed_fd, maybe_close) =
           (if key_fd key = pc_client_fd p then (pc_origin_fd p, pc_client_status p)
            else (pc_client_fd p, pc_origin_status p))
     in if maybe_close = CLOSING_STATUS
        then if \<not> buffer_can_read (pc_client_buffer p) \<and> \<not> buffer_can_read (pc_origin_buffer p)
             then thenS (sys_do (os_shutdown (pe_os env) already_closed_fd))
                  (thenS (count_metric unregister_connection) (returnS DONE))
             else returnS EMPTY_BUFFERS
        else thenS (set_closing_connection_interests env c) (conn_state c)))"

definition closing_on_write_ready :: "'o penv \<Rightarrow> pkey \<Rightarrow> ('o, nat) prog" where
  "closing_on_write_ready env key =
     bindS (ATTACHMENT key) (\<lambda>c. thenS (set_closing_connection_interests env c) (conn_state c))"

section \<open>Emptying the buffers\<close>

text \<open>Here the origin is shut down first.\<close>

definition empty_buffers_step :: "buffer \<Rightarrow> buffer \<Rightarrow> closing_step \<Rightarrow> closing_step" where
  "empty_buffers_step origin_buffer client_buffer s =
     (let s = (if buffer_can_read client_buffer
               then s\<lparr>cl_origin_interest := cl_origin_interest s OR OP_WRITE\<rparr>
               else if cl_client_status s = CLOSING_STATUS
               then s\<lparr>cl_shut_origin := True, cl_client_status := CLOSED_STATUS\<rparr> else s)
      in if buffer_can_read origin_buffer
         then s\<lparr>cl_client_interest := cl_client_interest s OR OP_WRITE\<rparr>
         else if cl_origin_status s = CLOSING_STATUS
         then s\<lparr>cl_shut_client := True, cl_origin_status := CLOSED_STATUS\<rparr> else s)"

definition set_empty_buffers_interests :: "'o penv \<Rightarrow> nat \<Rightarrow> ('o, unit) prog" where
  "set_empty_buffers_interests env c =
     bindS (conn_get c) (\<lambda>p.
     let s = empty_buffers_step (pc_origin_buffer p) (pc_client_buffer p) (closing_start p)
     in thenS (if cl_shut_origin s then sys_do (os_shutdown (pe_os env) (pc_origin_fd p)) else returnS ())
        (apply_closing env c p (s\<lparr>cl_shut_origin := False\<rparr>)))"

definition empty_buffers_on_arrival :: "'o penv \<Rightarrow> pkey \<Rightarrow> ('o, unit) prog" where
  "empty_buffers_on_arrival env key = bindS (ATTACHMENT key) (set_empty_buffers_interests env)"

definition empty_buffers_on_write_ready :: "'o penv \<Rightarrow> pkey \<Rightarrow> ('o, nat) prog" where
  "empty_buffers_on_write_ready env key =
     bindS (ATTACHMENT key) (\<lambda>c.
     thenS (set_empty_buffers_interests env c)
     (bindS (conn_get c) (\<lambda>p.
      if pc_client_status p = CLOSED_STATUS \<and> pc_origin_status p = CLOSED_STATUS
      then thenS (count_metric unregister_connection) (returnS DONE)
      else conn_state c)))"

section \<open>The end\<close>

definition done_on_arrival :: "'o penv \<Rightarrow> pkey \<Rightarrow> ('o, unit) prog" where
  "done_on_arrival env key =
     bindS (ATTACHMENT key) (\<lambda>c.
     bindS (conn_get c) (\<lambda>p.
     thenS (if pc_origin_status p \<noteq> INACTIVE_STATUS
            then thenS (unregister_fd env (pc_origin_fd p)) (returnS ()) else returnS ())
     (bindS (conn_field c pc_client_fd) (\<lambda>fd.
      thenS (unregister_fd env fd) (returnS ())))))"

section \<open>Errors\<close>

definition reason_of :: "int \<Rightarrow> bytes" where
  "reason_of code =
     (if code = BAD_REQUEST then ascii ''BAD REQUEST''
      else if code = UNAUTHORIZED then ascii ''UNAUTHORIZED''
      else if code = FORBIDDEN then ascii ''FORBIDDEN''
      else if code = NOT_FOUND then ascii ''NOT_FOUND''
      else if code = METHOD_NOT_ALLOWED then ascii ''METHOD_NOT_ALLOWED''
      else if code = PROXY_AUTHENTICATION_REQUIRED then ascii ''PROXY AUTHENTICATION REQUIRED''
      else if code = URI_TOO_LONG then ascii ''URI TOO LONG''
      else if code = INTERNAL_SERVER_ERROR then ascii ''INTERNAL SERVER ERROR''
      else if code = NOT_IMPLEMENTED then ascii ''NOT IMPLEMENTED''
      else if code = HTTP_VERSION_NOT_SUPPORTED then ascii ''HTTP VERSION NOT SUPPORTED''
      else if code = BAD_GATEWAY then ascii ''BAD GATEWAY''
      else ascii ''INTERNAL SERVER ERROR'')"

definition error_text :: "int \<Rightarrow> bytes \<Rightarrow> bytes" where
  "error_text error_code reason_phrase =
     ascii ''HTTP/1.0 '' @ dec_text (nat error_code) @ [SP] @ reason_phrase @ [CR, LF, CR, LF]"

definition write_error :: "pkey \<Rightarrow> int \<Rightarrow> bytes \<Rightarrow> ('o, unit) prog" where
  "write_error key error_code reason_phrase =
     bindS (ATTACHMENT key) (\<lambda>c.
     thenS (reset_origin_buffer c)
     (on_origin_buffer c (buffer_sprintf (error_text error_code reason_phrase))))"

definition error_on_arrival :: "pkey \<Rightarrow> ('o, unit) prog" where
  "error_on_arrival key =
     bindS (ATTACHMENT key) (\<lambda>c.
     bindS (conn_field c pc_error) (\<lambda>code.
     thenS (write_error key code (reason_of code))
     (bindS (conn_get c) (\<lambda>p.
      thenS (set_interest (pc_client_fd p) OP_WRITE)
      (if pc_origin_status p \<noteq> INACTIVE_STATUS
       then thenS (set_interest (pc_origin_fd p) OP_NOOP) (returnS ()) else returnS ())))))"

definition error_on_write_ready :: "pkey \<Rightarrow> ('o, nat) prog" where
  "error_on_write_ready key =
     bindS (ATTACHMENT key) (\<lambda>c.
     bindS (conn_field c pc_origin_buffer) (\<lambda>b.
     if \<not> buffer_can_read b then returnS DONE else conn_state c))"

section \<open>The table\<close>

text \<open>An \<open>on_arrival\<close> of the table: it is told the number of the state, which none of them uses.\<close>

definition arrival :: "('o, unit) prog \<Rightarrow> (nat \<Rightarrow> 'o psys \<Rightarrow> fault + 'o psys) option" where
  "arrival m = Some (\<lambda>state s. bindR (m s) (\<lambda>(_, s). Inr s))"

definition conn_row :: 
  "nat \<Rightarrow> ('o, unit) prog \<Rightarrow> ('o, nat) prog option \<Rightarrow> ('o, nat) prog option \<Rightarrow> 'o psys state_definition" where
  "conn_row n on_arrival on_read_ready on_write_ready =
     \<lparr>sd_state = n, sd_on_arrival = arrival on_arrival, sd_on_departure = None, sd_on_read_ready = on_read_ready,
      sd_on_write_ready = on_write_ready, sd_on_block_ready = None\<rparr>"

definition connection_states :: "'o penv \<Rightarrow> pkey \<Rightarrow> 'o psys state_definition list" where
  "connection_states env key =
     [conn_row PARSING_REQUEST_LINE (parsing_host_on_arrival key) (Some (parsing_host_on_read_ready env key)) None,
      conn_row TRY_CONNECTION_IP (try_connection_ip_on_arrival key) None
        (Some (try_connection_ip_on_write_ready env key)),
      conn_row SEND_DOH_REQUEST (send_doh_request_on_arrival env key) None (Some (send_doh_request_on_write_ready key)),
      conn_row AWAIT_DOH_RESPONSE (await_doh_response_on_arrival env key)
        (Some (await_doh_response_on_read_ready env key)) None,
      conn_row SEND_REQUEST_LINE (send_request_line_on_arrival key) None (Some (send_request_line_on_write_ready key)),
      conn_row CONNECTED (connected_on_arrival key) (Some (connected_on_read_ready env key))
        (Some (connected_on_write_ready key)),
      conn_row CLOSING (closing_on_arrival env key) (Some (closing_on_read_ready env key))
        (Some (closing_on_write_ready env key)),
      conn_row EMPTY_BUFFERS (empty_buffers_on_arrival env key) None (Some (empty_buffers_on_write_ready env key)),
      conn_row DONE (done_on_arrival env key) None None,
      conn_row ERROR (error_on_arrival key) None (Some (error_on_write_ready key))]"

lemmas state_numbers =
  PARSING_REQUEST_LINE_def TRY_CONNECTION_IP_def SEND_DOH_REQUEST_def AWAIT_DOH_RESPONSE_def SEND_REQUEST_LINE_def
  CONNECTED_def CLOSING_def EMPTY_BUFFERS_def DONE_def ERROR_def

lemma table_column: "map sd_state (connection_states env key) = connection_state"
  by (simp add: connection_states_def connection_state_def conn_row_def)

lemma table_ordered: "ordered_states (connection_states env key)"
  by (simp add: ordered_states_def connection_states_def conn_row_def state_numbers less_Suc_eq numeral_eq_Suc)

lemma table_length [simp]: "length (connection_states env key) = 10"
  by (simp add: connection_states_def)

definition init_connection_stm :: "'o penv \<Rightarrow> pkey \<Rightarrow> fault + state_machine" where
  "init_connection_stm env key = stm_init PARSING_REQUEST_LINE ERROR (connection_states env key)"

lemma init_connection_stm_ok:
  "init_connection_stm env key = Inr \<lparr>sm_initial = 0, sm_max_state = 9, sm_current = None\<rparr>"
  unfolding init_connection_stm_def
  by (subst stm_init_ok) (simp_all add: table_ordered, simp_all add: state_numbers)

end
