(* ===== verification/Conn_Manager.thy ===== *)
theory Conn_Manager
  imports Connection_States
begin

text \<open>
  The connection manager of \<^verbatim>\<open>connections_manager/connections_manager.c\<close>: the handlers of the client's and
  the origin's descriptors, accepting, closing and collecting connections, and \<open>call\<close>, the functions
  the selector finds in its items.
\<close>

section \<open>New connections\<close>

definition BUFFER_SIZE :: nat where "BUFFER_SIZE = 8192"

definition init_connections_manager :: "int \<Rightarrow> ('o, unit) prog" where
  "init_connections_manager threshold = modifyW (\<lambda>w. w\<lparr>w_inactive_threshold := threshold\<rparr>)"

text \<open>The connection \<^verbatim>\<open>calloc\<close> delivers, all zero but for the two buffers.\<close>

definition zero_sniffer_parser :: sniffer_parser where
  "zero_sniffer_parser =
     \<lparr>sf_state = sniff_start, sf_user = replicate 41 0, sf_password = replicate 41 0, sf_auth_value = replicate 1025 0,
      sf_protocol = POP3, sf_string_parser = None, sf_parser_is_set = False, sf_i = 0\<rparr>"

definition zero_connection_request :: connection_request where
  "zero_connection_request =
     \<lparr>cr_request_line = [], cr_method = [], cr_target = [], cr_status_code = 0, cr_connect = False,
      cr_host_type = domain, cr_host = HDomain (replicate 256 0), cr_port = 0\<rparr>"

definition new_proxy_connection :: "state_machine \<Rightarrow> int \<Rightarrow> int \<Rightarrow> bytes \<Rightarrow> bytes \<Rightarrow> proxy_connection" where
  "new_proxy_connection stm now fd read_buffer write_buffer =
     \<lparr>pc_error = 0, pc_last_action_time = now, pc_client_addr = [], pc_client_fd = fd,
      pc_client_status = ACTIVE_STATUS, pc_doh = None, pc_origin_fd = 0, pc_origin_status = INACTIVE_STATUS,
      pc_stm = stm, pc_bytes_to_analize = 0, pc_parsers = Unset_State,
      pc_sniffer = \<lparr>sn_parser = zero_sniffer_parser, sn_enabled = False, sn_is_done = False\<rparr>,
      pc_request = zero_connection_request, pc_origin_buffer = buffer_init BUFFER_SIZE read_buffer,
      pc_client_buffer = buffer_init BUFFER_SIZE write_buffer\<rparr>"

text \<open>\<open>None\<close> is the null pointer.\<close>

definition create_new_connection :: "'o penv \<Rightarrow> pkey \<Rightarrow> int \<Rightarrow> ('o, nat option) prog" where
  "create_new_connection env key client_fd =
     bindS (sys_call (os_calloc (pe_os env))) (\<lambda>ok.
     if \<not> ok then returnS None
     else bindS (getW w_buffers_size) (\<lambda>n.
       bindS (sys_call (os_malloc (pe_os env) (unat n))) (\<lambda>read_buffer. case read_buffer of
         None \<Rightarrow> returnS None
       | Some read_buffer \<Rightarrow>
           bindS (sys_call (os_malloc (pe_os env) (unat n))) (\<lambda>write_buffer. case write_buffer of
             None \<Rightarrow> returnS None
           | Some write_buffer \<Rightarrow>
               bindS (liftS (init_connection_stm env key)) (\<lambda>stm.
               bindS (sys_call (os_time (pe_os env))) (\<lambda>now.
               bindS (getW w_next) (\<lambda>c.
               thenS (modifyW (\<lambda>w. w\<lparr>w_next := Suc c, w_conns := (w_conns w)
                        (c \<mapsto> new_proxy_connection stm now client_fd read_buffer write_buffer)\<rparr>))
               (returnS (Some c)))))))))"

definition accept_new_connection :: "'o penv \<Rightarrow> pkey \<Rightarrow> ('o, unit) prog" where
  "accept_new_connection env key =
     bindS (sys_call (os_accept (pe_os env) (key_fd key))) (\<lambda>(client_socket, addr).
     if client_socket < 0 then log_level_msg env (ascii ''Error accept'') LEVEL_ERROR
     else bindS (selector_fd_set_nio env client_socket) (\<lambda>r.
       if r < 0
       then thenS (log_level_msg env (ascii ''Error setting new connection as NON-BLOCKIN'') LEVEL_ERROR)
            (sys_do (os_close (pe_os env) client_socket))
       else bindS (create_new_connection env key client_socket) (\<lambda>c. case c of
         None \<Rightarrow> thenS (log_level_msg env (ascii ''Error creating new connection'') LEVEL_ERROR)
                 (sys_do (os_close (pe_os env) client_socket))
       | Some c \<Rightarrow>
           thenS (conn_upd c (\<lambda>p. p\<lparr>pc_client_addr := addr\<rparr>))
           (bindS (register_fd env client_socket client_handler OP_READ (Some (Connection c))) (\<lambda>status.
            if status \<noteq> SELECTOR_SUCCESS
            then thenS (log_level_msg env (ascii ''Error registering new fd'') LEVEL_ERROR)
                 (thenS (sys_do (os_close (pe_os env) client_socket)) (free_connection_data c))
            else returnS ())))))"

section \<open>Closing\<close>

definition close_proxy_connection :: "'o penv \<Rightarrow> pkey \<Rightarrow> ('o, unit) prog" where
  "close_proxy_connection env key =
     bindS (ATTACHMENT key) (\<lambda>c.
     bindS (conn_state c) (\<lambda>st.
     thenS (if st \<ge> SEND_REQUEST_LINE then count_metric unregister_connection else returnS ())
     (bindS (conn_get c) (\<lambda>p.
     thenS (if pc_origin_status p \<noteq> INACTIVE_STATUS
            then thenS (unregister_fd env (pc_origin_fd p)) (returnS ()) else returnS ())
     (bindS (conn_field c pc_client_fd) (\<lambda>fd.
      thenS (unregister_fd env fd) (returnS ())))))))"

section \<open>Reading and writing\<close>

definition event_read :: "'o penv \<Rightarrow> pkey \<Rightarrow> nat \<Rightarrow> ('o, unit) prog" where
  "event_read env key c sw = bindR (stm_handler_read (conn_cell c) (connection_states env key) sw) (\<lambda>(_, sw). Inr ((), sw))"

definition event_write :: "'o penv \<Rightarrow> pkey \<Rightarrow> nat \<Rightarrow> ('o, unit) prog" where
  "event_write env key c sw = bindR (stm_handler_write (conn_cell c) (connection_states env key) sw) (\<lambda>(_, sw). Inr ((), sw))"

text \<open>The time of the last action.\<close>

definition touch :: "'o penv \<Rightarrow> nat \<Rightarrow> ('o, unit) prog" where
  "touch env c =
     bindS (sys_call (os_time (pe_os env))) (\<lambda>now. conn_upd c (\<lambda>p. p\<lparr>pc_last_action_time := now\<rparr>))"

text \<open>How many bytes the parsers will look at.\<close>

definition note_bytes :: "nat \<Rightarrow> int \<Rightarrow> ('o, unit) prog" where
  "note_bytes c total_bytes =
     bindS (conn_state c) (\<lambda>st.
     if st = PARSING_REQUEST_LINE \<or> st = CONNECTED
     then conn_upd c (\<lambda>p. p\<lparr>pc_bytes_to_analize := total_bytes\<rparr>) else returnS ())"

definition proxy_client_read :: "'o penv \<Rightarrow> pkey \<Rightarrow> ('o, unit) prog" where
  "proxy_client_read env key =
     bindS (ATTACHMENT key) (\<lambda>c.
     thenS (touch env c)
     (bindS (conn_field c pc_client_buffer) (\<lambda>b.
      bindS (liftS (buffer_write_ptr b)) (\<lambda>(_, max_bytes).
      bindS (sys_call (os_read (pe_os env) (key_fd key) max_bytes)) (\<lambda>data. case data of
        None \<Rightarrow> close_proxy_connection env key
      | Some data \<Rightarrow>
          if data = []
          then bindS (conn_state c) (\<lambda>st.
               if st < CONNECTED then close_proxy_connection env key
               else thenS (conn_upd c (\<lambda>p. p\<lparr>pc_client_status := CLOSING_STATUS\<rparr>)) (event_read env key c))
          else thenS (on_client_buffer c (\<lambda>b. buffer_store b data))
               (thenS (note_bytes c (int (length data)))
               (thenS (on_client_buffer c (\<lambda>b. buffer_write_adv b (int (length data))))
               (event_read env key c))))))))"

text \<open>\<^verbatim>\<open>send\<close> of what a buffer holds, then the advance.\<close>

definition proxy_client_write :: "'o penv \<Rightarrow> pkey \<Rightarrow> ('o, unit) prog" where
  "proxy_client_write env key =
     bindS (ATTACHMENT key) (\<lambda>c.
     thenS (touch env c)
     (bindS (conn_field c pc_origin_buffer) (\<lambda>b.
      bindS (liftS (buffer_read_ptr b)) (\<lambda>(at, max_bytes).
      bindS (sys_call (os_send (pe_os env) (key_fd key) (take max_bytes (drop at (b_data b))))) (\<lambda>total_bytes.
      if total_bytes > 0
      then thenS (count_metric (increase_bytes_received (word_of_int total_bytes)))
           (thenS (on_origin_buffer c (\<lambda>b. buffer_read_adv b total_bytes))
           (event_write env key c))
      else close_proxy_connection env key)))))"

definition proxy_origin_read :: "'o penv \<Rightarrow> pkey \<Rightarrow> ('o, unit) prog" where
  "proxy_origin_read env key =
     bindS (ATTACHMENT key) (\<lambda>c.
     thenS (touch env c)
     (bindS (conn_field c pc_origin_buffer) (\<lambda>b.
      bindS (liftS (buffer_write_ptr b)) (\<lambda>(_, max_bytes).
      bindS (sys_call (os_read (pe_os env) (key_fd key) max_bytes)) (\<lambda>data. case data of
        None \<Rightarrow> close_proxy_connection env key
      | Some data \<Rightarrow>
          thenS (if data = [] then conn_upd c (\<lambda>p. p\<lparr>pc_origin_status := CLOSING_STATUS\<rparr>)
                 else thenS (on_origin_buffer c (\<lambda>b. buffer_store b data))
                      (thenS (note_bytes c (int (length data)))
                      (on_origin_buffer c (\<lambda>b. buffer_write_adv b (int (length data))))))
          (event_read env key c))))))"

text \<open>The two halves of \<^verbatim>\<open>proxy_origin_write\<close> differ in the buffer they send.\<close>

definition send_origin_buffer :: "'o penv \<Rightarrow> pkey \<Rightarrow> nat \<Rightarrow> ('o, unit) prog" where
  "send_origin_buffer env key c =
     bindS (conn_field c pc_origin_buffer) (\<lambda>b.
     bindS (liftS (buffer_read_ptr b)) (\<lambda>(at, max_bytes).
     bindS (sys_call (os_send (pe_os env) (key_fd key) (take max_bytes (drop at (b_data b))))) (\<lambda>total_bytes.
     if total_bytes > 0
     then thenS (count_metric (increase_bytes_sent (word_of_int total_bytes)))
          (thenS (on_origin_buffer c (\<lambda>b. buffer_read_adv b total_bytes))
          (event_write env key c))
     else close_proxy_connection env key)))"

definition send_client_buffer :: "'o penv \<Rightarrow> pkey \<Rightarrow> nat \<Rightarrow> ('o, unit) prog" where
  "send_client_buffer env key c =
     bindS (conn_field c pc_client_buffer) (\<lambda>b.
     bindS (liftS (buffer_read_ptr b)) (\<lambda>(at, max_bytes).
     bindS (sys_call (os_send (pe_os env) (key_fd key) (take max_bytes (drop at (b_data b))))) (\<lambda>total_bytes.
     if total_bytes > 0
     then thenS (count_metric (increase_bytes_sent (word_of_int total_bytes)))
          (thenS (on_client_buffer c (\<lambda>b. buffer_read_adv b total_bytes))
          (event_write env key c))
     else close_proxy_connection env key)))"

definition proxy_origin_write :: "'o penv \<Rightarrow> pkey \<Rightarrow> ('o, unit) prog" where
  "proxy_origin_write env key =
     bindS (ATTACHMENT key) (\<lambda>c.
     thenS (touch env c)
     (bindS (conn_state c) (\<lambda>st.
      if st = TRY_CONNECTION_IP then event_write env key c
      else if st = SEND_REQUEST_LINE \<or> st = SEND_DOH_REQUEST then send_origin_buffer env key c
      else send_client_buffer env key c)))"

section \<open>The garbage collector\<close>

definition connection_garbage_collect :: "'o penv \<Rightarrow> pkey \<Rightarrow> ('o, unit) prog" where
  "connection_garbage_collect env key =
     (if key_data key = None \<or> key_fd key = STDERR_FILENO \<or> key_fd key = STDOUT_FILENO then returnS ()
      else bindS (ATTACHMENT key) (\<lambda>c.
        bindS (conn_get c) (\<lambda>p.
        if pc_client_fd p \<noteq> key_fd key then returnS ()
        else bindS (sys_call (os_time (pe_os env))) (\<lambda>now.
          bindS (getW w_inactive_threshold) (\<lambda>threshold.
          if now - pc_last_action_time p < threshold then returnS ()
          else bindS (conn_state c) (\<lambda>st.
            thenS (if st \<ge> SEND_REQUEST_LINE then count_metric unregister_connection else returnS ())
            (close_proxy_connection env key)))))))"

section \<open>The functions of the selector\<close>

definition handler_of :: "'o penv \<Rightarrow> callback \<Rightarrow> pkey \<Rightarrow> ('o, unit) prog" where
  "handler_of env f key =
     (case f of
        Proxy_Client_Read \<Rightarrow> proxy_client_read env key
      | Proxy_Client_Write \<Rightarrow> proxy_client_write env key
      | Proxy_Client_Close \<Rightarrow> proxy_client_close env key
      | Proxy_Origin_Read \<Rightarrow> proxy_origin_read env key
      | Proxy_Origin_Write \<Rightarrow> proxy_origin_write env key
      | Proxy_Origin_Close \<Rightarrow> proxy_origin_close env key
      | Accept_New_Connection \<Rightarrow> accept_new_connection env key
      | Connection_Garbage_Collect \<Rightarrow> connection_garbage_collect env key
      | Logger_On_Write_Ready \<Rightarrow> logger_on_write_ready env key
      | Management_Read \<Rightarrow> management_handler env key
      | Management_Close \<Rightarrow> management_close env key)"

definition call :: "'o penv \<Rightarrow> (callback, attachment, 'o world) caller" where
  "call env f key sw = bindR (handler_of env f key sw) (\<lambda>(_, sw). Inr sw)"

end
