(* ===== verification/Proxy_Safety.thy ===== *)
theory Proxy_Safety
  imports Conn_Manager
begin

text \<open>
  What every program of the proxy keeps. \<open>keeps I m\<close> says that \<open>m\<close>, when it returns, leaves the invariant
  \<open>I\<close> true; the rules of the collection \<open>keeps_intros\<close> follow the structure of programs. The invariant of
  the selector is kept by all of them, so the proxy is a client of the selector.
\<close>

section \<open>Rules for programs\<close>

definition keeps :: "('s \<Rightarrow> bool) \<Rightarrow> ('s \<Rightarrow> fault + ('a \<times> 's)) \<Rightarrow> bool" where
  "keeps I m \<longleftrightarrow> (\<forall>s x s'. I s \<longrightarrow> m s = Inr (x, s') \<longrightarrow> I s')"

named_theorems keeps_intros "rules for programs that keep an invariant"

lemma keepsD: "keeps I m \<Longrightarrow> I s \<Longrightarrow> m s = Inr (x, s') \<Longrightarrow> I s'"
  by (simp add: keeps_def)

lemma keeps_bind [keeps_intros]: "keeps I m \<Longrightarrow> (\<And>x. keeps I (f x)) \<Longrightarrow> keeps I (bindS m f)"
  unfolding keeps_def bindS_def
proof (intro allI impI)
  fix s x s' assume a: "\<forall>s x s'. I s \<longrightarrow> m s = Inr (x, s') \<longrightarrow> I s'"
    "\<And>x. \<forall>s y s'. I s \<longrightarrow> f x s = Inr (y, s') \<longrightarrow> I s'" "I s" "bindR (m s) (\<lambda>(x, s'). f x s') = Inr (x, s')"
  obtain y t where "m s = Inr (y, t)" "f y t = Inr (x, s')" using a(4) by (auto simp: res_simps)
  then show "I s'" using a(1-3) by blast
qed

lemma keeps_then [keeps_intros]: "keeps I m \<Longrightarrow> keeps I k \<Longrightarrow> keeps I (thenS m k)"
  by (simp add: thenS_def keeps_bind)

lemma keeps_return [keeps_intros]: "keeps I (returnS x)"
  by (simp add: keeps_def returnS_def)

lemma keeps_fail [keeps_intros]: "keeps I (failS e)"
  by (simp add: keeps_def failS_def)

lemma keeps_lift [keeps_intros]: "keeps I (liftS r)"
  by (auto simp: keeps_def liftS_def res_simps)

lemma keeps_if [keeps_intros]: "(b \<Longrightarrow> keeps I m) \<Longrightarrow> (\<not> b \<Longrightarrow> keeps I k) \<Longrightarrow> keeps I (if b then m else k)"
  by simp

lemma keeps_option [keeps_intros]:
  "(x = None \<Longrightarrow> keeps I m) \<Longrightarrow> (\<And>y. x = Some y \<Longrightarrow> keeps I (f y)) \<Longrightarrow> keeps I (case x of None \<Rightarrow> m | Some y \<Rightarrow> f y)"
  by (cases x) auto

lemma keeps_prod [keeps_intros]: "(\<And>a b. keeps I (f a b)) \<Longrightarrow> keeps I (case x of (a, b) \<Rightarrow> f a b)"
  by (cases x) auto

lemma keeps_Let [keeps_intros]: "(\<And>y. keeps I (f y)) \<Longrightarrow> keeps I (let y = x in f y)"
  by simp

lemma keeps_drop:
  assumes "keeps I m"
  shows "keeps I (\<lambda>s. bindR (m s) (\<lambda>(_, s). Inr ((), s)))"
  unfolding keeps_def
proof (intro allI impI)
  fix s x s' assume "I s" "bindR (m s) (\<lambda>(_, s). Inr ((), s)) = Inr (x, s')"
  then obtain y where "m s = Inr (y, s')" by (auto simp: res_simps)
  then show "I s'" using keepsD [OF assms] \<open>I s\<close> by blast
qed

lemma keeps_getW [keeps_intros]: "keeps I (getW f)"
  by (simp add: keeps_def getW_def)

lemma keeps_conn_get [keeps_intros]: "keeps I (conn_get c)"
  by (auto simp: keeps_def conn_get_def split: option.splits)

lemma keeps_conn_state [keeps_intros]: "keeps I (conn_state c)"
  by (auto simp: keeps_def conn_state_def res_simps)

lemma keeps_field [keeps_intros]: "keeps I (conn_field c f)"
  unfolding conn_field_def by (intro keeps_intros)

lemma keeps_attachment [keeps_intros]: "keeps I (ATTACHMENT key)"
  by (auto simp: ATTACHMENT_def intro!: keeps_intros split: attachment.split)

section \<open>The invariant of the selector\<close>

abbreviation sel_good :: "'o psys \<Rightarrow> bool" where
  "sel_good sw \<equiv> sel_inv (fst sw)"

abbreviation safe :: "('o, 'a) prog \<Rightarrow> bool" where
  "safe m \<equiv> keeps sel_good m"

lemma safe_modifyW [keeps_intros]: "safe (modifyW f)"
  by (simp add: keeps_def modifyW_def)

lemma safe_sys_call [keeps_intros]: "safe (sys_call f)"
  by (auto simp: keeps_def sys_call_def split: prod.splits)

lemma safe_sys_do [keeps_intros]: "safe (sys_do f)"
  by (simp add: sys_do_def safe_sys_call)

lemma safe_conn_put [keeps_intros]: "safe (conn_put c p)"
  by (auto simp: keeps_def conn_put_def split: option.splits)

lemma safe_conn_upd [keeps_intros]: "safe (conn_upd c f)"
  unfolding conn_upd_def by (intro keeps_intros)

lemma safe_set_interest [keeps_intros]: "safe (set_interest fd n)"
  unfolding keeps_def set_interest_def using set_interest_inv [of _ fd n] by (fastforce simp: res_simps)

lemma safe_register_fd [keeps_intros]: "safe (register_fd env fd h n d)"
  unfolding keeps_def register_fd_def using register_inv [of _ "pe_sel env" fd "Some h" n d] by (fastforce simp: res_simps)

text \<open>The functions that run when an item is closed do not touch the selector.\<close>

lemma close_leaves_selector:
  assumes "call_close env f key (s, w) = Inr (s', w')"
  shows "s' = s"
  using assms
  by (cases f) (auto simp: call_close_def proxy_client_close_def proxy_origin_close_def management_close_def res_simps bindS_def thenS_def
    ATTACHMENT_def failS_def returnS_def conn_field_def conn_get_def sys_do_def sys_call_def free_connection_data_def modifyW_def
    split: option.splits attachment.splits prod.splits)

lemma close_item_leaves_selector:
  "close_item (call_close env) h key (s, w) = Inr (s', w') \<Longrightarrow> s' = s"
  by (auto simp: close_item_def close_leaves_selector split: option.splits)

text \<open>What \<^verbatim>\<open>selector_unregister_fd\<close> does in the proxy.\<close>

lemma unregister_cases:
  assumes "sel_inv s" "unregister_fd env fd (s, w) = Inr (ret, (s', w'))"
  obtains (absent) "ret = SELECTOR_IARGS" "s' = s" "w' = w" "invalid_fd fd \<or> sel_entry s (nat fd) = None"
  | (present) h n d where "ret = SELECTOR_SUCCESS" "\<not> invalid_fd fd" "sel_entry s (nat fd) = Some (h, n, d)"
      "close_item (call_close env) h \<lparr>key_fd = fd, key_data = d\<rparr> (s, w) = Inr (s, w')"
      "sel_inv s'" "sel_entry s' = (sel_entry s)(nat fd := None)" "same_rest s s'"
proof (cases "invalid_fd fd \<or> sel_entry s (nat fd) = None")
  case True
  then show ?thesis using absent assms(2) unregister_absent_inv [OF assms(1) True, of "call_close env" w]
    by (simp add: unregister_fd_def)
next
  case False
  then obtain h n d where e: "\<not> invalid_fd fd" "sel_entry s (nat fd) = Some (h, n, d)"
    by (cases "sel_entry s (nat fd)") auto
  show ?thesis
  proof (cases "close_item (call_close env) h \<lparr>key_fd = fd, key_data = d\<rparr> (s, w)")
    case (Inl f)
    then show ?thesis using unregister_close_fault [OF assms(1) e Inl] assms(2) by (simp add: unregister_fd_def)
  next
    case (Inr sw)
    then obtain w1 where w1: "close_item (call_close env) h \<lparr>key_fd = fd, key_data = d\<rparr> (s, w) = Inr (s, w1)"
      using close_item_leaves_selector by (cases sw) blast
    show ?thesis using unregister_inv [OF assms(1) e w1] assms(2) present [OF _ e] w1
      by (auto simp: unregister_fd_def)
  qed
qed

lemma safe_unregister_fd [keeps_intros]: "safe (unregister_fd env fd)"
  unfolding keeps_def by (auto elim: unregister_cases)

lemma safe_on_origin_buffer [keeps_intros]: "safe (on_origin_buffer c f)"
  unfolding on_origin_buffer_def by (intro keeps_intros)

lemma safe_on_client_buffer [keeps_intros]: "safe (on_client_buffer c f)"
  unfolding on_client_buffer_def by (intro keeps_intros)

section \<open>The programs of the proxy\<close>

lemma safe_conn_get_upd [keeps_intros]: "safe (free_connection_data c)"
  unfolding free_connection_data_def by (intro keeps_intros)

lemma safe_log_buffer [keeps_intros]: "safe (log_buffer out)"
  unfolding log_buffer_def by (intro keeps_intros)

lemma safe_set_log_buffer [keeps_intros]: "safe (set_log_buffer out b)"
  unfolding set_log_buffer_def by (intro keeps_intros)

lemma safe_logger_log [keeps_intros]: "safe (logger_log env line level)"
  unfolding logger_log_def by (intro keeps_intros)

lemma safe_logger_on_write_ready [keeps_intros]: "safe (logger_on_write_ready env key)"
  unfolding logger_on_write_ready_def by (auto intro!: keeps_intros split: attachment.splits)

lemma safe_line_add [keeps_intros]: "safe (line_add line text)"
  unfolding line_add_def by (intro keeps_intros)

lemma safe_log_lines [keeps_intros]:
  "safe (get_time env)" "safe (write_client_addr_n_port env p line)" "safe (log_new_connection env key)"
  "safe (log_user_and_password env key)" "safe (log_level_msg env msg level)"
  unfolding get_time_def write_client_addr_n_port_def log_new_connection_def log_user_and_password_def log_level_msg_def
  by (intro keeps_intros)+

lemma safe_nio [keeps_intros]: "safe (selector_fd_set_nio env fd)"
  unfolding selector_fd_set_nio_def by (intro keeps_intros)

lemma safe_closers [keeps_intros]:
  "safe (proxy_client_close env key)" "safe (proxy_origin_close env key)" "safe (management_close env key)"
  unfolding proxy_client_close_def proxy_origin_close_def management_close_def by (intro keeps_intros)+

lemma safe_origin [keeps_intros]:
  "safe (register_origin_socket env key)" "safe (establish_origin_connection env addr protocol)"
  "safe (set_error c code)"
  unfolding register_origin_socket_def establish_origin_connection_def set_error_def by (intro keeps_intros)+

lemma safe_try_registered [keeps_intros]: "safe (try_registered env key c)"
  unfolding try_registered_def by (intro keeps_intros)

lemma safe_doh_connection [keeps_intros]: "safe (handle_origin_doh_connection env key)"
  unfolding handle_origin_doh_connection_def by (intro keeps_intros)

lemma safe_doh_access [keeps_intros]:
  "safe (doh_get c)" "safe (doh_upd c f)" "safe (request_port c)" "safe (answer_entry c)" "safe (more_answers c)"
  unfolding doh_get_def doh_upd_def request_port_def answer_entry_def more_answers_def
  by (auto intro!: keeps_intros split: client_state.split)

lemma safe_switch_to_ipv6 [keeps_intros]: "safe (switch_to_ipv6 env key c)"
  unfolding switch_to_ipv6_def by (intro keeps_intros)

lemma safe_try_ipv4 [keeps_intros]: "safe (try_next_ipv4_connection fuel env key c)"
  by (induction fuel) (auto intro!: keeps_intros)

lemma safe_try_ipv6 [keeps_intros]: "safe (try_next_ipv6_connection fuel env key c)"
  by (induction fuel) (auto intro!: keeps_intros)

lemma safe_try_next [keeps_intros]: "safe (try_next_dns_connection env key)"
  unfolding try_next_dns_connection_def by (intro keeps_intros)

lemma safe_shared [keeps_intros]:
  "safe (client_buffer_read c)" "safe (origin_buffer_read c)" "safe (set_interests c n m)" "safe (count_metric f)"
  "safe (request_of c)" "safe (reset_origin_buffer c)" "safe (check_request_line_error c st)"
  unfolding client_buffer_read_def origin_buffer_read_def set_interests_def count_metric_def request_of_def
    reset_origin_buffer_def check_request_line_error_def
  by (auto intro!: keeps_intros split: client_state.split)

lemma safe_sniff_loop [keeps_intros]: "safe (sniff_loop k env key c owner block at)"
  by (induction k arbitrary: at) (auto intro!: keeps_intros)

lemma safe_sniff_data [keeps_intros]: "safe (sniff_data env key)"
  unfolding sniff_data_def by (intro keeps_intros)

lemma safe_parsing [keeps_intros]:
  "safe (parsing_host_on_arrival key)" "safe (handle_origin_ip_connection env key)" "safe (build_connection_request env key)"
  unfolding parsing_host_on_arrival_def handle_origin_ip_connection_def build_connection_request_def
  by (auto intro!: keeps_intros split: host.split)

lemma safe_request_line_done [keeps_intros]: "safe (request_line_done env key c r)"
  unfolding request_line_done_def by (intro keeps_intros)

lemma safe_parsing_loop [keeps_intros]: "safe (parsing_loop fuel env key c)"
  by (induction fuel) (auto intro!: keeps_intros)

lemma safe_parsing_read [keeps_intros]: "safe (parsing_host_on_read_ready env key)"
  unfolding parsing_host_on_read_ready_def by (intro keeps_intros)

lemma safe_try_connection [keeps_intros]:
  "safe (try_connection_ip_on_arrival key)" "safe (check_origin_connection env fd)"
  unfolding try_connection_ip_on_arrival_def check_origin_connection_def by (intro keeps_intros)+

lemma safe_try_connection_write [keeps_intros]: "safe (try_connection_ip_on_write_ready env key)"
  unfolding try_connection_ip_on_write_ready_def by (intro keeps_intros)

lemma safe_write_doh_request [keeps_intros]: "safe (write_doh_request env key)"
  unfolding write_doh_request_def by (auto intro!: keeps_intros split: host.split)

lemma safe_send_doh [keeps_intros]:
  "safe (send_doh_request_on_arrival env key)" "safe (send_doh_request_on_write_ready key)"
  unfolding send_doh_request_on_arrival_def send_doh_request_on_write_ready_def by (intro keeps_intros)+

lemma safe_await [keeps_intros]:
  "safe (init_doh_state env key)" "safe (await_doh_end env key c)" "safe (await_doh_byte env key c st)"
  unfolding init_doh_state_def await_doh_end_def await_doh_byte_def by (intro keeps_intros)+

lemma safe_await_loop [keeps_intros]: "safe (await_doh_loop fuel env key c)"
  by (induction fuel) (auto intro!: keeps_intros)

lemma safe_await_handlers [keeps_intros]:
  "safe (await_doh_response_on_arrival env key)" "safe (await_doh_response_on_read_ready env key)"
  unfolding await_doh_response_on_arrival_def await_doh_response_on_read_ready_def by (intro keeps_intros)+

lemma safe_write_request_line [keeps_intros]: "safe (write_request_line key)"
  unfolding write_request_line_def by (intro keeps_intros)

lemma safe_send_request_line [keeps_intros]:
  "safe (send_request_line_on_arrival key)" "safe (send_request_line_on_write_ready key)"
  unfolding send_request_line_on_arrival_def send_request_line_on_write_ready_def by (intro keeps_intros)+

lemma safe_connected_shared [keeps_intros]: "safe (init_http_response c)" "safe (set_connection_interests c)"
  unfolding init_http_response_def set_connection_interests_def by (intro keeps_intros)+

lemma safe_response_loop [keeps_intros]: "safe (response_loop k env key c sp block i)"
  by (induction k arbitrary: sp i) (auto intro!: keeps_intros)

lemma safe_connected [keeps_intros]:
  "safe (connected_on_arrival key)" "safe (connected_on_read_ready env key)" "safe (connected_on_write_ready key)"
  unfolding connected_on_arrival_def connected_on_read_ready_def connected_on_write_ready_def
  by (auto intro!: keeps_intros split: client_state.split)

lemma safe_closing_shared [keeps_intros]:
  "safe (apply_closing env c p s)" "safe (done_on_arrival env key)" "safe (write_error key code reason)"
  unfolding apply_closing_def done_on_arrival_def write_error_def by (intro keeps_intros)+

lemma safe_closing_interests [keeps_intros]:
  "safe (set_closing_connection_interests env c)" "safe (set_empty_buffers_interests env c)"
  unfolding set_closing_connection_interests_def set_empty_buffers_interests_def by (intro keeps_intros)+

lemma safe_closing [keeps_intros]:
  "safe (closing_on_arrival env key)" "safe (closing_on_read_ready env key)" "safe (closing_on_write_ready env key)"
  "safe (empty_buffers_on_arrival env key)" "safe (empty_buffers_on_write_ready env key)"
  "safe (error_on_arrival key)" "safe (error_on_write_ready key)"
  unfolding closing_on_arrival_def closing_on_read_ready_def closing_on_write_ready_def empty_buffers_on_arrival_def
    empty_buffers_on_write_ready_def error_on_arrival_def error_on_write_ready_def
  by (intro keeps_intros)+

section \<open>The engine\<close>

text \<open>A table whose functions keep an invariant, and a cell that keeps it when written.\<close>

definition row_keeps :: "('s \<Rightarrow> bool) \<Rightarrow> 's state_definition \<Rightarrow> bool" where
  "row_keeps I d \<longleftrightarrow>
     (\<forall>f n s s'. sd_on_arrival d = Some f \<longrightarrow> I s \<longrightarrow> f n s = Inr s' \<longrightarrow> I s') \<and>
     (\<forall>f n s s'. sd_on_departure d = Some f \<longrightarrow> I s \<longrightarrow> f n s = Inr s' \<longrightarrow> I s') \<and>
     (\<forall>f. sd_on_read_ready d = Some f \<longrightarrow> keeps I f) \<and>
     (\<forall>f. sd_on_write_ready d = Some f \<longrightarrow> keeps I f) \<and>
     (\<forall>f. sd_on_block_ready d = Some f \<longrightarrow> keeps I f)"

lemma state_at_Inr: "state_at states i = Inr d \<Longrightarrow> d \<in> set states"
  by (auto simp: state_at_def arr_get_def split: if_splits)

lemma engine_keeps:
  assumes rows: "\<forall>d\<in>set states. row_keeps I d"
    and cell: "\<forall>m s s'. I s \<longrightarrow> stm_put cell m s = Inr s' \<longrightarrow> I s'"
  shows "I s \<Longrightarrow> enter cell states n s = Inr s' \<Longrightarrow> I s'"
    and "I s \<Longrightarrow> handle_first cell states s = Inr s' \<Longrightarrow> I s'"
    and "I s \<Longrightarrow> jump cell states n s = Inr s' \<Longrightarrow> I s'"
proof -
  have arr: "I s \<Longrightarrow> state_at states i = Inr d \<Longrightarrow> arrive_at d s = Inr s' \<Longrightarrow> I s'" for d i s s'
    using rows state_at_Inr [of states i d] by (fastforce simp: arrive_at_def row_keeps_def split: option.splits)
  have dep: "I s \<Longrightarrow> state_at states i = Inr d \<Longrightarrow> depart_from d s = Inr s' \<Longrightarrow> I s'" for d i s s'
    using rows state_at_Inr [of states i d] by (fastforce simp: depart_from_def row_keeps_def split: option.splits)
  have ent: "I s \<Longrightarrow> enter cell states n s = Inr s' \<Longrightarrow> I s'" for n s s'
    by (auto simp: enter_def res_simps split: prod.splits) (use cell arr in blast)
  then show "I s \<Longrightarrow> enter cell states n s = Inr s' \<Longrightarrow> I s'" .
  show "I s \<Longrightarrow> handle_first cell states s = Inr s' \<Longrightarrow> I s'"
    by (auto simp: handle_first_def res_simps split: option.splits) (blast intro: ent)
  show "I s \<Longrightarrow> jump cell states n s = Inr s' \<Longrightarrow> I s'"
    by (auto simp: jump_def res_simps split: option.splits if_splits) (blast intro: ent dep)+
qed

lemma stm_handler_keeps:
  assumes "\<forall>d\<in>set states. row_keeps I d"
    and "\<forall>m s s'. I s \<longrightarrow> stm_put cell m s = Inr s' \<longrightarrow> I s'"
    and event: "\<And>d f. row_keeps I d \<Longrightarrow> event d = Some f \<Longrightarrow> keeps I f"
  shows "keeps I (stm_handler event cell states)"
  unfolding keeps_def
proof (intro allI impI)
  fix s n s' assume I: "I s" and r: "stm_handler event cell states s = Inr (n, s')"
  obtain t where t: "handle_first cell states s = Inr t" using r by (auto simp: stm_handler_def res_simps)
  have It: "I t" by (rule engine_keeps(2) [OF assms(1,2) I t])
  obtain c d f u where "state_at states c = Inr d" and f: "event d = Some f" and u: "f t = Inr (n, u)" "jump cell states n u = Inr s'"
    using r t by (auto simp: stm_handler_def res_simps split: option.splits)
  then have "keeps I f" using event assms(1) state_at_Inr by blast
  then have "I u" using It u(1) by (rule keepsD)
  then show "I s'" by (rule engine_keeps(3) [OF assms(1,2) _ u(2)])
qed

lemma conn_get_eq: "conn_get c (s, w) = (case w_conns w c of None \<Rightarrow> Inl UseAfterFree | Some p \<Rightarrow> Inr (p, (s, w)))"
  by (simp add: conn_get_def)

lemma conn_upd_eq:
  "conn_upd c f (s, w) =
     (case w_conns w c of
        None \<Rightarrow> Inl UseAfterFree
      | Some p \<Rightarrow> Inr ((), (s, w\<lparr>w_conns := (w_conns w)(c \<mapsto> f p)\<rparr>)))"
  by (simp add: conn_upd_def bindS_def conn_get_def conn_put_def split: option.splits)

lemma conn_cell_get:
  "stm_get (conn_cell c) (s, w) = (case w_conns w c of None \<Rightarrow> Inl UseAfterFree | Some p \<Rightarrow> Inr (pc_stm p))"
  by (simp add: conn_cell_def conn_get_eq split: option.splits)

lemma conn_cell_put:
  "stm_put (conn_cell c) m (s, w) =
     (case w_conns w c of
        None \<Rightarrow> Inl UseAfterFree
      | Some p \<Rightarrow> Inr (s, w\<lparr>w_conns := (w_conns w)(c \<mapsto> p\<lparr>pc_stm := m\<rparr>)\<rparr>))"
  by (simp add: conn_cell_def conn_upd_eq split: option.splits)

lemma conn_cell_safe: "\<forall>m sw sw'. sel_good sw \<longrightarrow> stm_put (conn_cell c) m sw = Inr sw' \<longrightarrow> sel_good sw'"
  by (auto simp: conn_cell_put split: option.splits)

lemma conn_row_safe:
  "safe m \<Longrightarrow> (case r of None \<Rightarrow> True | Some f \<Rightarrow> safe f) \<Longrightarrow> (case w of None \<Rightarrow> True | Some f \<Rightarrow> safe f) \<Longrightarrow>
   row_keeps sel_good (conn_row n m r w)"
proof -
  assume m: "safe m" and r: "case r of None \<Rightarrow> True | Some f \<Rightarrow> safe f" and w: "case w of None \<Rightarrow> True | Some f \<Rightarrow> safe f"
  have "sel_good sw \<Longrightarrow> bindR (m sw) (\<lambda>(_, sw). Inr sw) = Inr sw' \<Longrightarrow> sel_good sw'" for sw sw'
    using keepsD [OF m, of sw] by (cases "m sw") (auto split: prod.splits)
  moreover have "\<And>f. r = Some f \<Longrightarrow> safe f" "\<And>f. w = Some f \<Longrightarrow> safe f" using r w by simp_all
  ultimately show ?thesis unfolding row_keeps_def
    by (auto simp: conn_row_def arrival_def simp del: split_paired_All)
qed

lemmas state_functions_safe =
  safe_parsing safe_parsing_read safe_try_connection safe_try_connection_write safe_send_doh safe_await_handlers
  safe_send_request_line safe_connected safe_closing safe_closing_shared

lemma table_safe: "\<forall>d\<in>set (connection_states env key). row_keeps sel_good d"
  unfolding connection_states_def by (simp add: conn_row_safe state_functions_safe)

lemma safe_events [keeps_intros]: "safe (event_read env key c)" "safe (event_write env key c)"
proof -
  have "safe (stm_handler_read (conn_cell c) (connection_states env key))"
    unfolding stm_handler_read_def
    by (rule stm_handler_keeps [OF table_safe conn_cell_safe]) (auto simp: row_keeps_def)
  moreover have "safe (stm_handler_write (conn_cell c) (connection_states env key))"
    unfolding stm_handler_write_def
    by (rule stm_handler_keeps [OF table_safe conn_cell_safe]) (auto simp: row_keeps_def)
  ultimately show "safe (event_read env key c)" "safe (event_write env key c)"
    unfolding event_read_def event_write_def by (simp_all only: keeps_drop)
qed

section \<open>The functions of the selector\<close>

lemma safe_manager [keeps_intros]:
  "safe (close_proxy_connection env key)" "safe (touch env c)" "safe (note_bytes c n)" "safe (create_new_connection env key fd)"
  unfolding close_proxy_connection_def touch_def note_bytes_def create_new_connection_def by (intro keeps_intros)+

lemma safe_handlers [keeps_intros]:
  "safe (accept_new_connection env key)" "safe (proxy_client_read env key)" "safe (proxy_client_write env key)"
  "safe (proxy_origin_read env key)" "safe (connection_garbage_collect env key)"
  unfolding accept_new_connection_def proxy_client_read_def proxy_client_write_def proxy_origin_read_def
    connection_garbage_collect_def
  by (intro keeps_intros)+

lemma safe_origin_write [keeps_intros]: "safe (proxy_origin_write env key)"
  unfolding proxy_origin_write_def send_origin_buffer_def send_client_buffer_def by (intro keeps_intros)

lemma safe_replies [keeps_intros]: "safe (send_replies env fd addr replies)"
  by (induction replies) (auto intro!: keeps_intros)

lemma sel_inv_timeout: "sel_inv s \<Longrightarrow> sel_inv (set_selector_timeout t s)"
  by (simp add: sel_inv_def sel_ok_def slots_ok_def sets_ok_def wants_def sel_entry_def set_selector_timeout_def)

lemma safe_management [keeps_intros]: "safe (management_handler env key)"
proof -
  have "safe (\<lambda>sw. bindR (request_log (server_of sw) d) (\<lambda>line. Inr (line, sw)))" for d
    by (auto simp: keeps_def res_simps)
  moreover have "safe (\<lambda>sw. bindR (management_read (server_of sw) d) (\<lambda>(s, replies). Inr (replies, put_server s sw)))" for d
    by (auto simp: keeps_def res_simps put_server_def sel_inv_timeout)
  ultimately show ?thesis unfolding management_handler_def by (intro keeps_intros)
qed

lemma safe_handler_of: "safe (handler_of env f key)"
  unfolding handler_of_def
  by (cases f) (simp_all add: safe_handlers safe_origin_write safe_closers safe_logger_on_write_ready safe_management)

lemma call_keeps: "sel_inv (fst sw) \<Longrightarrow> call env f key sw = Inr sw' \<Longrightarrow> sel_inv (fst sw')"
  using keepsD [OF safe_handler_of, of sw env f key] by (auto simp: call_def res_simps)

text \<open>The proxy as a client of the selector, and a connection as a cell of the engine.\<close>

interpretation proxy: sel_client "call env" for env :: "'o penv"
  by unfold_locales (rule call_keeps)

interpretation conn: stm_memory "conn_cell c :: 'o psys stm_cell" for c
proof unfold_locales
  fix sw :: "'o psys" and m m' sw' assume "stm_get (conn_cell c) sw = Inr m"
  then show "\<exists>sw'. stm_put (conn_cell c) m' sw = Inr sw'"
    by (cases sw) (auto simp: conn_cell_get conn_cell_put split: option.splits)
  assume "stm_put (conn_cell c) m' sw = Inr sw'"
  then show "stm_get (conn_cell c) sw' = Inr m'"
    by (cases sw) (auto simp: conn_cell_get conn_cell_put split: option.splits)
qed

end
