(* ===== verification/Proxy_Run.thy ===== *)
theory Proxy_Run
  imports Proxy_Safety
begin

text \<open>
  Running programs: the equations of the collection \<open>run_simps\<close> compute what a program of the proxy does
  on a state that is written as a pair of the selector and the world.
\<close>

named_theorems run_simps "what programs do on a state"

lemma run_bind [run_simps]: "m sw = Inr (x, sw') \<Longrightarrow> bindS m f sw = f x sw'"
  by (simp add: bindS_def)

lemma run_bind_fault [run_simps]: "m sw = Inl e \<Longrightarrow> bindS m f sw = Inl e"
  by (simp add: bindS_def)

lemma run_thenS [run_simps]: "m sw = Inr (x, sw') \<Longrightarrow> thenS m k sw = k sw'"
  by (simp add: thenS_def bindS_def)

lemma run_then_fault [run_simps]: "m sw = Inl e \<Longrightarrow> thenS m k sw = Inl e"
  by (simp add: thenS_def bindS_def)

lemma run_return [run_simps]: "returnS x sw = Inr (x, sw)"
  by (simp add: returnS_def)

lemma run_fail [run_simps]: "failS e sw = Inl e"
  by (simp add: failS_def)

lemma run_lift [run_simps]: "liftS (Inr x) sw = Inr (x, sw)" "liftS (Inl e) sw = Inl e"
  by (simp_all add: liftS_def)

lemma run_getW [run_simps]: "getW f (s, w) = Inr (f w, (s, w))"
  by (simp add: getW_def)

lemma run_modifyW [run_simps]: "modifyW f (s, w) = Inr ((), (s, f w))"
  by (simp add: modifyW_def)

lemma run_sys_call [run_simps]:
  "sys_call f (s, w) = Inr (fst (f (w_os w)), (s, w\<lparr>w_os := snd (f (w_os w))\<rparr>))"
  by (simp add: sys_call_def split: prod.splits)

lemma run_sys_do [run_simps]: "sys_do f (s, w) = Inr ((), (s, w\<lparr>w_os := f (w_os w)\<rparr>))"
  by (simp add: sys_do_def run_sys_call)

lemma run_attachment [run_simps]: "ATTACHMENT \<lparr>key_fd = fd, key_data = Some (Connection c)\<rparr> sw = Inr (c, sw)"
  by (simp add: ATTACHMENT_def returnS_def)

lemma run_conn_get [run_simps]: "w_conns w c = Some p \<Longrightarrow> conn_get c (s, w) = Inr (p, (s, w))"
  by (simp add: conn_get_eq)

lemma run_conn_get_freed [run_simps]: "w_conns w c = None \<Longrightarrow> conn_get c (s, w) = Inl UseAfterFree"
  by (simp add: conn_get_eq)

lemma run_conn_upd [run_simps]:
  "w_conns w c = Some p \<Longrightarrow> conn_upd c f (s, w) = Inr ((), (s, w\<lparr>w_conns := (w_conns w)(c \<mapsto> f p)\<rparr>))"
  by (simp add: conn_upd_eq)

lemma run_conn_field [run_simps]: "w_conns w c = Some p \<Longrightarrow> conn_field c f (s, w) = Inr (f p, (s, w))"
  by (simp add: conn_field_def run_simps)

lemma run_conn_field_freed [run_simps]: "w_conns w c = None \<Longrightarrow> conn_field c f (s, w) = Inl UseAfterFree"
  by (simp add: conn_field_def run_simps)

lemma run_origin_buffer [run_simps]:
  "w_conns w c = Some p \<Longrightarrow> f (pc_origin_buffer p) = Inr b \<Longrightarrow>
   on_origin_buffer c f (s, w) = Inr ((), (s, w\<lparr>w_conns := (w_conns w)(c \<mapsto> p\<lparr>pc_origin_buffer := b\<rparr>)\<rparr>))"
  by (simp add: on_origin_buffer_def run_simps)

lemma run_client_buffer [run_simps]:
  "w_conns w c = Some p \<Longrightarrow> f (pc_client_buffer p) = Inr b \<Longrightarrow>
   on_client_buffer c f (s, w) = Inr ((), (s, w\<lparr>w_conns := (w_conns w)(c \<mapsto> p\<lparr>pc_client_buffer := b\<rparr>)\<rparr>))"
  by (simp add: on_client_buffer_def run_simps)

lemma run_origin_buffer_fault [run_simps]:
  "w_conns w c = Some p \<Longrightarrow> f (pc_origin_buffer p) = Inl e \<Longrightarrow> on_origin_buffer c f (s, w) = Inl e"
  by (simp add: on_origin_buffer_def run_simps)

lemma run_client_buffer_fault [run_simps]:
  "w_conns w c = Some p \<Longrightarrow> f (pc_client_buffer p) = Inl e \<Longrightarrow> on_client_buffer c f (s, w) = Inl e"
  by (simp add: on_client_buffer_def run_simps)

section \<open>States\<close>

text \<open>The machine of a connection that is in the state \<open>n\<close>.\<close>

definition in_state :: "nat \<Rightarrow> proxy_connection \<Rightarrow> bool" where
  "in_state n p \<longleftrightarrow> n < 10 \<and> pc_stm p = \<lparr>sm_initial = 0, sm_max_state = 9, sm_current = Some n\<rparr>"

text \<open>The machine before the first event.\<close>

definition unstarted :: "proxy_connection \<Rightarrow> bool" where
  "unstarted p \<longleftrightarrow> pc_stm p = \<lparr>sm_initial = 0, sm_max_state = 9, sm_current = None\<rparr>"

lemma machine_ok_table:
  "m = \<lparr>sm_initial = 0, sm_max_state = 9, sm_current = Some n\<rparr> \<Longrightarrow> n < 10 \<Longrightarrow> machine_ok (connection_states env key) m"
  by (simp add: machine_ok_def table_ordered)

lemma connection_state_nth: "n < 10 \<Longrightarrow> connection_state ! n = n"
  using table_ordered table_column by (metis (no_types, lifting) atLeastLessThan_iff atLeast_upt nth_map ordered_states_def table_length le0 lessThan_iff)

lemma length_connection_state [simp]: "length connection_state = 10"
  using table_column table_length by (metis length_map)

lemma run_conn_state [run_simps]:
  "w_conns w c = Some p \<Longrightarrow> pc_stm p = \<lparr>sm_initial = 0, sm_max_state = 9, sm_current = Some n\<rparr> \<Longrightarrow> n < 10 \<Longrightarrow>
   conn_state c (s, w) = Inr (n, (s, w))"
  by (simp add: conn_state_def stm_state_def conn_cell_get connection_state_nth)

lemma run_conn_state_unstarted [run_simps]:
  "w_conns w c = Some p \<Longrightarrow> pc_stm p = \<lparr>sm_initial = 0, sm_max_state = 9, sm_current = None\<rparr> \<Longrightarrow>
   conn_state c (s, w) = Inr (0, (s, w))"
  by (simp add: conn_state_def stm_state_def conn_cell_get)

text \<open>An event in a state whose function stays there.\<close>

lemma event_stays:
  assumes p: "w_conns w c = Some p" "in_state n p" and f: "event (connection_states env key ! n) = Some f"
    and r: "f (s, w) = Inr (n, (s', w'))" and p': "w_conns w' c = Some p'" "in_state n p'"
  shows "stm_handler event (conn_cell c) (connection_states env key) (s, w) = Inr (n, (s', w'))"
proof -
  let ?m = "\<lparr>sm_initial = 0, sm_max_state = 9, sm_current = Some n\<rparr>"
  have n: "n < 10" using p(2) by (simp add: in_state_def)
  have m: "stm_get (conn_cell c) (s, w) = Inr ?m" "stm_get (conn_cell c) (s', w') = Inr ?m"
    using p p' by (simp_all add: conn_cell_get in_state_def)
  have "jump (conn_cell c) (connection_states env key) n (s', w') = Inr (s', w')"
    using conn.jump_stays [OF m(2)] n by simp
  then show ?thesis
    using conn.handler_started [OF m(1) machine_ok_table [OF refl n], where event = event] f r by simp
qed

text \<open>An event in a state whose function leaves for another.\<close>

lemma event_leaves:
  assumes p: "w_conns w c = Some p" "in_state n p" and f: "event (connection_states env key ! n) = Some f"
    and r: "f (s, w) = Inr (n', (s', w'))" and p': "w_conns w' c = Some p'" "in_state n p'"
    and n': "n' \<noteq> n" "n' < 10"
  shows "stm_handler event (conn_cell c) (connection_states env key) (s, w) =
    bindR (arrive_at (connection_states env key ! n') (s', w'\<lparr>w_conns := (w_conns w')
      (c \<mapsto> p'\<lparr>pc_stm := \<lparr>sm_initial = 0, sm_max_state = 9, sm_current = Some n'\<rparr>\<rparr>)\<rparr>)) (\<lambda>sw. Inr (n', sw))"
proof -
  let ?m = "\<lparr>sm_initial = 0, sm_max_state = 9, sm_current = Some n\<rparr>"
  have n: "n < 10" using p(2) by (simp add: in_state_def)
  have m: "stm_get (conn_cell c) (s, w) = Inr ?m" "stm_get (conn_cell c) (s', w') = Inr ?m"
    using p p' by (simp_all add: conn_cell_get in_state_def)
  have d: "sd_on_departure (connection_states env key ! n) = None"
    using n by (auto simp: connection_states_def conn_row_def less_Suc_eq numeral_eq_Suc)
  obtain sw where sw: "stm_put (conn_cell c) (?m\<lparr>sm_current := Some n'\<rparr>) (s', w') = Inr sw"
      "jump (conn_cell c) (connection_states env key) n' (s', w') = arrive_at (connection_states env key ! n') sw"
    by (rule conn.jump_moves [OF m(2) machine_ok_table [OF refl n, of env key], of n n']) (use n' d in simp_all)
  have "sw = (s', w'\<lparr>w_conns := (w_conns w') (c \<mapsto> p'\<lparr>pc_stm := ?m\<lparr>sm_current := Some n'\<rparr>\<rparr>)\<rparr>)"
    using sw(1) p' by (simp add: conn_cell_put)
  then show ?thesis
    using conn.handler_started [OF m(1) machine_ok_table [OF refl n], where event = event] f r sw(2) by simp
qed

lemma table_at:
  "connection_states env key ! PARSING_REQUEST_LINE =
     conn_row PARSING_REQUEST_LINE (parsing_host_on_arrival key) (Some (parsing_host_on_read_ready env key)) None"
  "connection_states env key ! TRY_CONNECTION_IP =
     conn_row TRY_CONNECTION_IP (try_connection_ip_on_arrival key) None (Some (try_connection_ip_on_write_ready env key))"
  "connection_states env key ! SEND_DOH_REQUEST =
     conn_row SEND_DOH_REQUEST (send_doh_request_on_arrival env key) None (Some (send_doh_request_on_write_ready key))"
  "connection_states env key ! AWAIT_DOH_RESPONSE =
     conn_row AWAIT_DOH_RESPONSE (await_doh_response_on_arrival env key) (Some (await_doh_response_on_read_ready env key)) None"
  "connection_states env key ! SEND_REQUEST_LINE =
     conn_row SEND_REQUEST_LINE (send_request_line_on_arrival key) None (Some (send_request_line_on_write_ready key))"
  "connection_states env key ! CONNECTED =
     conn_row CONNECTED (connected_on_arrival key) (Some (connected_on_read_ready env key)) (Some (connected_on_write_ready key))"
  "connection_states env key ! CLOSING =
     conn_row CLOSING (closing_on_arrival env key) (Some (closing_on_read_ready env key)) (Some (closing_on_write_ready env key))"
  "connection_states env key ! EMPTY_BUFFERS =
     conn_row EMPTY_BUFFERS (empty_buffers_on_arrival env key) None (Some (empty_buffers_on_write_ready env key))"
  "connection_states env key ! DONE = conn_row DONE (done_on_arrival env key) None None"
  "connection_states env key ! ERROR = conn_row ERROR (error_on_arrival key) None (Some (error_on_write_ready key))"
  by (simp_all add: connection_states_def state_numbers)

lemma arrive_row: "arrive_at (conn_row n m r w) sw = bindR (m sw) (\<lambda>(_, sw). Inr sw)"
  by (simp add: arrive_at_def conn_row_def arrival_def)

section \<open>A small system\<close>

text \<open>
  A selector in order with nothing registered, an operating system whose state is the bytes sent so far,
  and a connection, to try the definitions on.
\<close>

definition empty_selector :: "(callback, attachment) fdselector" where
  "empty_selector =
     zero_selector\<lparr>fs_fds := map item_init (replicate (Suc ITEMS_MAX_SIZE) zero_item), fs_fd_size := Suc ITEMS_MAX_SIZE,
       fs_gc := \<lparr>gc_collect = Some Connection_Garbage_Collect, gc_interval = 8, gc_last_collection = 0\<rparr>\<rparr>"

lemma empty_selector_inv: "sel_inv empty_selector" "sel_entry empty_selector = Map.empty"
proof -
  show e: "sel_entry empty_selector = Map.empty"
    by (auto simp: empty_selector_def sel_entry_def fun_eq_iff simp del: replicate_Suc)
  have "\<not> wants f empty_selector i" for f i unfolding wants_def e by simp
  then have "sets_ok empty_selector" unfolding sets_ok_def by (simp add: empty_selector_def zero_selector_def)
  then show "sel_inv empty_selector"
    by (simp add: sel_inv_def sel_ok_def slots_ok_def empty_selector_def zero_selector_def del: replicate_Suc)
qed

definition some_os :: "bytes os" where
  "some_os =
     \<lparr>os_read = (\<lambda>fd n st. (Some (take n [72, 105]), st)),
      os_send = (\<lambda>fd bs st. (int (length bs), st @ bs)),
      os_write = (\<lambda>fd bs st. ((int (length bs), False), st)),
      os_shutdown = (\<lambda>fd st. st), os_close = (\<lambda>fd st. st), os_accept = (\<lambda>fd st. ((5, []), st)),
      os_getfd = (\<lambda>fd st. (0, st)), os_setfl = (\<lambda>fd n st. (0, st)), os_socket = (\<lambda>n st. (7, st)),
      os_setsockopt = (\<lambda>fd st. (0, st)), os_connect = (\<lambda>fd a st. ((- 1, True), st)),
      os_getsockopt = (\<lambda>fd st. (Some 0, st)), os_time = (\<lambda>st. (100, st)), os_time_text = (\<lambda>st. ([84], st)),
      os_malloc = (\<lambda>n st. (Some (replicate n 0), st)), os_calloc = (\<lambda>st. (True, st)),
      os_recvfrom = (\<lambda>fd n st. ((None, []), st)), os_sendto = (\<lambda>fd bs a st. (int (length bs), st)),
      os_socket_udp = (\<lambda>n st. (9, st)), os_v6only = (\<lambda>fd st. (0, st)), os_bind = (\<lambda>fd a st. (0, st)),
      os_listen = (\<lambda>fd st. (0, st))\<rparr>"

definition some_env :: "bytes penv" where
  "some_env =
     \<lparr>pe_os = some_os, pe_sel = sel_env_ok, pe_sniff = all_ok,
      pe_doh = \<lparr>env_calloc = (\<lambda>n. True), env_pton4 = (\<lambda>s. None), env_ntop6 = (\<lambda>s. [])\<rparr>,
      pe_pton4 = (\<lambda>s. None), pe_pton6 = (\<lambda>s. None), pe_ntop = (\<lambda>n bs. []), pe_client_text = (\<lambda>a. []),
      pe_stack = replicate 300 0, pe_fuel = 256\<rparr>"

definition some_machine :: "nat option \<Rightarrow> state_machine" where
  "some_machine n = \<lparr>sm_initial = 0, sm_max_state = 9, sm_current = n\<rparr>"

text \<open>A connection with descriptors 5 and 7 and buffers of the size of the code.\<close>

definition some_connection :: "nat option \<Rightarrow> proxy_connection" where
  "some_connection n =
     (new_proxy_connection (some_machine n) 100 5 (replicate 8192 0) (replicate 8192 0))
       \<lparr>pc_origin_fd := 7, pc_origin_status := ACTIVE_STATUS\<rparr>"

definition some_world :: "proxy_connection \<Rightarrow> bytes world" where
  "some_world p =
     \<lparr>w_conns = [0 \<mapsto> p], w_next = 1, w_metrics = init_metrics, w_buffers_size = 8192, w_inactive_threshold = 12,
      w_disectors_enabled = False,
      w_doh_server = \<lparr>du_path = [47], du_host = [104], ds_isipv4 = True, ds_ipv4addr = 0, ds_ipv6addr = [], ds_port = 0\<rparr>,
      w_management = \<lparr>mg_requestParser = blank_percy_parser, mg_buffer = replicate 128 0, mg_passphrase = default_passphrase\<rparr>,
      w_stdout_buffer = buffer_init 1024 (replicate 1024 0), w_stderr_buffer = buffer_init 1024 (replicate 1024 0),
      w_os = []\<rparr>"

lemma some_world_simps [simp]:
  "w_conns (some_world p) = [0 \<mapsto> p]" "w_os (some_world p) = []" "w_next (some_world p) = 1"
  "w_metrics (some_world p) = init_metrics" "w_buffers_size (some_world p) = 8192"
  "w_disectors_enabled (some_world p) = False" "w_inactive_threshold (some_world p) = 12"
  by (simp_all add: some_world_def)

lemma some_env_simps [simp]: "pe_os some_env = some_os" "pe_fuel some_env = 256"
  by (simp_all add: some_env_def)

lemma some_connection_simps [simp]:
  "pc_client_fd (some_connection n) = 5" "pc_origin_fd (some_connection n) = 7"
  "pc_client_status (some_connection n) = ACTIVE_STATUS" "pc_origin_status (some_connection n) = ACTIVE_STATUS"
  "pc_stm (some_connection n) = some_machine n" "pc_doh (some_connection n) = None"
  "pc_sniffer (some_connection n) = \<lparr>sn_parser = zero_sniffer_parser, sn_enabled = False, sn_is_done = False\<rparr>"
  "pc_request (some_connection n) = zero_connection_request" "pc_last_action_time (some_connection n) = 100"
  "pc_client_buffer (some_connection n) = buffer_init 8192 (replicate 8192 0)"
  "pc_origin_buffer (some_connection n) = buffer_init 8192 (replicate 8192 0)" "pc_error (some_connection n) = 0"
  by (simp_all add: some_connection_def new_proxy_connection_def BUFFER_SIZE_def)

end
