(* ===== verification/Relay.thy ===== *)
theory Relay
  imports Proxy_Run
begin

text \<open>
  A connection that relays: it is in the state \<open>CONNECTED\<close>, no side has closed, and no bytes are sniffed; the
  line of the response may still be read. What the client sends goes to the origin and what the origin sends goes
  to the client, byte for byte, and the interests registered in the selector are always those the buffers call for.
\<close>

section \<open>The state of a relay\<close>

definition client_key :: "nat \<Rightarrow> proxy_connection \<Rightarrow> pkey" where
  "client_key c p = \<lparr>key_fd = pc_client_fd p, key_data = Some (Connection c)\<rparr>"

definition origin_key :: "nat \<Rightarrow> proxy_connection \<Rightarrow> pkey" where
  "origin_key c p = \<lparr>key_fd = pc_origin_fd p, key_data = Some (Connection c)\<rparr>"

text \<open>The two descriptors are registered for this connection, with these interests.\<close>

definition linked :: "(callback, attachment) fdselector \<Rightarrow> nat \<Rightarrow> proxy_connection \<Rightarrow> fd_interest \<times> fd_interest \<Rightarrow> bool" where
  "linked s c p n \<longleftrightarrow>
     \<not> invalid_fd (pc_client_fd p) \<and> \<not> invalid_fd (pc_origin_fd p) \<and> pc_client_fd p \<noteq> pc_origin_fd p \<and>
     sel_entry s (nat (pc_client_fd p)) = Some (client_handler, fst n, Some (Connection c)) \<and>
     sel_entry s (nat (pc_origin_fd p)) = Some (origin_handler, snd n, Some (Connection c))"

text \<open>
  No bytes are sniffed; the line of the response is not expected, or being read, or known. The texts the log
  shows fit their arrays.
\<close>

definition reading :: "proxy_connection \<Rightarrow> bool" where
  "reading p \<longleftrightarrow>
     (\<not> sn_enabled (pc_sniffer p) \<or> sn_is_done (pc_sniffer p)) \<and>
     (cr_connect (pc_request p) \<or> (\<exists>sp known. pc_parsers p = Status_Line sp known \<and> status_inv sp)) \<and>
     length (cr_method (pc_request p)) < method_room \<and> length (cr_target (pc_request p)) < target_room"

text \<open>No parser reads the bytes.\<close>

definition quiet :: "proxy_connection \<Rightarrow> bool" where
  "quiet p \<longleftrightarrow>
     (\<not> sn_enabled (pc_sniffer p) \<or> sn_is_done (pc_sniffer p)) \<and>
     (cr_connect (pc_request p) \<or> (\<exists>sp. pc_parsers p = Status_Line sp True))"

definition buffers_ok :: "proxy_connection \<Rightarrow> bool" where
  "buffers_ok p \<longleftrightarrow> buffer_inv (pc_client_buffer p) \<and> buffer_inv (pc_origin_buffer p)"

definition relaying :: "proxy_connection \<Rightarrow> bool" where
  "relaying p \<longleftrightarrow>
     in_state CONNECTED p \<and> pc_client_status p = ACTIVE_STATUS \<and> pc_origin_status p = ACTIVE_STATUS \<and>
     reading p \<and> buffers_ok p"

definition relay_ok :: "'o psys \<Rightarrow> nat \<Rightarrow> proxy_connection \<Rightarrow> bool" where
  "relay_ok sw c p \<longleftrightarrow>
     sel_inv (fst sw) \<and> w_conns (snd sw) c = Some p \<and> relaying p \<and>
     linked (fst sw) c p (connected_interests (pc_origin_buffer p) (pc_client_buffer p))"

text \<open>
  \<^verbatim>\<open>read\<close> delivers at most what it is asked for, \<^verbatim>\<open>send\<close> takes at most what it is given. \<^verbatim>\<open>strftime\<close> is given 80
  bytes, and the text of an address and its port is at most that of an IPv6 address and five digits. The
  terminal that takes the log does not block.
\<close>

definition os_ok :: "'o penv \<Rightarrow> bool" where
  "os_ok env \<longleftrightarrow>
     (\<forall>fd n st d. fst (os_read (pe_os env) fd n st) = Some d \<longrightarrow> length d \<le> n) \<and>
     (\<forall>fd bs st. fst (os_send (pe_os env) fd bs st) \<le> int (length bs)) \<and>
     (\<forall>st. length (fst (os_time_text (pe_os env) st)) < 80) \<and> (\<forall>a. length (pe_client_text env a) \<le> 52) \<and>
     (\<forall>fd bs st. \<not> snd (fst (os_write (pe_os env) fd bs st)))"

section \<open>Interests\<close>

lemma set_interest_linked:
  assumes "sel_inv s" "linked s c p n"
  shows "\<exists>s'. set_interest (pc_client_fd p) m (s, w) = Inr (SELECTOR_SUCCESS, (s', w)) \<and> sel_inv s' \<and> linked s' c p (m, snd n)"
    and "\<exists>s'. set_interest (pc_origin_fd p) m (s, w) = Inr (SELECTOR_SUCCESS, (s', w)) \<and> sel_inv s' \<and> linked s' c p (fst n, m)"
proof -
  have fd: "\<not> invalid_fd (pc_client_fd p)" "\<not> invalid_fd (pc_origin_fd p)" "nat (pc_client_fd p) \<noteq> nat (pc_origin_fd p)"
    using assms(2) by (auto simp: linked_def invalid_fd_def)
  show "\<exists>s'. set_interest (pc_client_fd p) m (s, w) = Inr (SELECTOR_SUCCESS, (s', w)) \<and> sel_inv s' \<and> linked s' c p (m, snd n)"
    using set_interest_inv [OF assms(1), of "pc_client_fd p" m] assms(2) fd by (auto simp: set_interest_def linked_def)
  show "\<exists>s'. set_interest (pc_origin_fd p) m (s, w) = Inr (SELECTOR_SUCCESS, (s', w)) \<and> sel_inv s' \<and> linked s' c p (fst n, m)"
    using set_interest_inv [OF assms(1), of "pc_origin_fd p" m] assms(2) fd by (auto simp: set_interest_def linked_def)
qed

lemma set_interests_linked:
  assumes "sel_inv s" "linked s c p n" "w_conns w c = Some p"
  shows "\<exists>s'. set_interests c ci oi (s, w) = Inr ((), (s', w)) \<and> sel_inv s' \<and> linked s' c p (ci, oi)"
proof -
  obtain s1 where 1: "set_interest (pc_client_fd p) ci (s, w) = Inr (SELECTOR_SUCCESS, (s1, w))" "sel_inv s1"
      "linked s1 c p (ci, snd n)"
    using set_interest_linked(1) [OF assms(1,2)] by blast
  obtain s2 where 2: "set_interest (pc_origin_fd p) oi (s1, w) = Inr (SELECTOR_SUCCESS, (s2, w))" "sel_inv s2"
      "linked s2 c p (ci, oi)"
    using set_interest_linked(2) [OF 1(2,3)] by fastforce
  show ?thesis using 1 2 assms(3) by (auto simp: set_interests_def run_simps)
qed

lemma interests_set:
  assumes "sel_inv s" "linked s c p n" "w_conns w c = Some p"
  shows "\<exists>s'. set_connection_interests c (s, w) = Inr ((), (s', w)) \<and> sel_inv s' \<and>
     linked s' c p (connected_interests (pc_origin_buffer p) (pc_client_buffer p))"
  using set_interests_linked [OF assms, of "fst (connected_interests (pc_origin_buffer p) (pc_client_buffer p))"
      "snd (connected_interests (pc_origin_buffer p) (pc_client_buffer p))"] assms(3)
  by (auto simp: set_connection_interests_def run_simps split: prod.splits)

text \<open>The connection \<open>p\<close> of number \<open>c\<close> is replaced in the world.\<close>

definition with_conn :: "nat \<Rightarrow> proxy_connection \<Rightarrow> 'o world \<Rightarrow> 'o world" where
  "with_conn c p w = w\<lparr>w_conns := (w_conns w)(c \<mapsto> p)\<rparr>"

lemma with_conn_simps [simp]:
  "w_conns (with_conn c p w) = (w_conns w)(c \<mapsto> p)" "w_os (with_conn c p w) = w_os w" "w_metrics (with_conn c p w) = w_metrics w"
  "w_disectors_enabled (with_conn c p w) = w_disectors_enabled w" "with_conn c p (with_conn c p' w) = with_conn c p w"
  by (simp_all add: with_conn_def)

lemma with_conn_os [simp]: "(with_conn c p w)\<lparr>w_os := st\<rparr> = with_conn c p (w\<lparr>w_os := st\<rparr>)"
  by (simp add: with_conn_def)

section \<open>The log\<close>

lemma dec_text_word: "length (dec_text (unat (x :: u16))) \<le> 5"
proof -
  have "unat x < 100000" using unsigned_less [of x, where 'a = nat] by simp
  then show ?thesis by (simp add: dec_text.simps)
qed

lemma logger_log_open:
  assumes "os_ok env"
  shows "\<exists>st. logger_log env line LEVEL_INFO (s, w) = Inr ((), (s, w\<lparr>w_os := st\<rparr>))"
proof -
  obtain n nb st where wr: "os_write (pe_os env) STDOUT_FILENO line (w_os w) = ((n, nb), st)" by (metis prod.collapse)
  have "\<not> nb" using assms wr unfolding os_ok_def by (metis fst_conv snd_conv)
  then show ?thesis using wr by (intro exI [of _ st]) (simp add: logger_log_def run_simps)
qed

lemma line_add_room: "length line + length s < 2048 \<Longrightarrow> line_add line s = returnS (line @ s)"
  by (simp add: line_add_def MAX_BUFFER_def)

text \<open>A line about a connection fits its array.\<close>

lemma log_new_connection_spec:
  fixes env :: "'o penv"
  assumes "os_ok env" "w_conns w c = Some p" "key_data key = Some (Connection c)"
    "length (cr_method (pc_request p)) < method_room" "length (cr_target (pc_request p)) < target_room"
  shows "\<exists>st. log_new_connection env key (s, w) = Inr ((), (s, w\<lparr>w_os := st\<rparr>))"
proof -
  obtain fd where key: "key = \<lparr>key_fd = fd, key_data = Some (Connection c)\<rparr>" using assms(3) by (cases key) simp
  obtain stamp st where t: "os_time_text (pe_os env) (w_os w) = (stamp, st)" by fastforce
  let ?c = "pe_client_text env (pc_client_addr p)"
  let ?l = "cr_method (pc_request p) @ [TAB] @ cr_target (pc_request p) @ [TAB] @ dec_text (unat (cr_status_code (pc_request p))) @ [TAB, LF]"
  define l1 where "l1 = stamp @ [65, TAB]"
  define l2 where "l2 = l1 @ ?c"
  have "length stamp < 80" "length ?c \<le> 52" using assms(1) t unfolding os_ok_def by (metis fst_conv)+
  moreover have "length ?l \<le> 24 + 1307 + 9" using assms(4,5) dec_text_word [of "cr_status_code (pc_request p)"]
    by (simp add: method_room_def target_room_def request_consts)
  ultimately have r: "line_add stamp [65, TAB] = (returnS l1 :: ('o, bytes) prog)"
      "line_add l1 ?c = (returnS l2 :: ('o, bytes) prog)" "line_add l2 ?l = (returnS (l2 @ ?l) :: ('o, bytes) prog)"
    by (simp_all only: line_add_room l1_def l2_def length_append list.size)
  obtain st' where "logger_log env (l2 @ ?l) LEVEL_INFO (s, w\<lparr>w_os := st\<rparr>) = Inr ((), (s, (w\<lparr>w_os := st\<rparr>)\<lparr>w_os := st'\<rparr>))"
    using logger_log_open [OF assms(1)] by blast
  then have "log_new_connection env key (s, w) = Inr ((), (s, w\<lparr>w_os := st'\<rparr>))"
    unfolding log_new_connection_def write_client_addr_n_port_def get_time_def
    using assms(2) t r by (simp add: key run_simps)
  then show ?thesis by blast
qed

section \<open>The line of the response\<close>

definition response_read :: "proxy_connection \<Rightarrow> proxy_connection \<Rightarrow> bool" where
  "response_read p p' \<longleftrightarrow>
     (\<exists>sp known code. p' = p\<lparr>pc_parsers := Status_Line sp known, pc_request := (pc_request p)\<lparr>cr_status_code := code\<rparr>\<rparr> \<and> status_inv sp)"

lemma response_readD:
  assumes "response_read p p'"
  shows "pc_stm p' = pc_stm p" "pc_client_buffer p' = pc_client_buffer p" "pc_origin_buffer p' = pc_origin_buffer p"
    "pc_client_fd p' = pc_client_fd p" "pc_origin_fd p' = pc_origin_fd p" "pc_client_status p' = pc_client_status p"
    "pc_origin_status p' = pc_origin_status p" "pc_sniffer p' = pc_sniffer p" "cr_connect (pc_request p') = cr_connect (pc_request p)"
    "cr_method (pc_request p') = cr_method (pc_request p)" "cr_target (pc_request p') = cr_target (pc_request p)"
    "\<exists>sp known. pc_parsers p' = Status_Line sp known \<and> status_inv sp"
  using assms by (auto simp: response_read_def)

lemma response_loop_spec:
  assumes "os_ok env" "status_inv sp" "i + k \<le> length block" "w_conns w c = Some p" "pc_parsers p = Status_Line sp False"
    "length (cr_method (pc_request p)) < method_room" "length (cr_target (pc_request p)) < target_room"
    "key_data key = Some (Connection c)"
  shows "\<exists>p' st. response_loop k env key c sp block i (s, w) = Inr ((), (s, with_conn c p' (w\<lparr>w_os := st\<rparr>))) \<and> response_read p p'"
  using assms
proof (induction k arbitrary: sp i w p)
  case 0
  have "with_conn c p (w\<lparr>w_os := w_os w\<rparr>) = w" using 0(4) by (simp add: with_conn_def fun_upd_idem)
  moreover have "response_read p p"
    unfolding response_read_def using 0(2,5)
    by (intro exI [of _ sp] exI [of _ False] exI [of _ "cr_status_code (pc_request p)"]) simp
  ultimately show ?case by (intro exI [of _ p] exI [of _ "w_os w"]) (simp add: run_simps)
next
  case (Suc k)
  obtain x where x: "arr_get block (int i) = Inr x" using Suc.prems(3) by simp
  obtain sp1 where sp1: "status_line_parser_feed sp x = Inr sp1" "status_inv sp1"
    using status.feed_safe [OF Suc.prems(2), of x] status.feed_inv [OF Suc.prems(2), of x] by blast
  let ?known = "\<lambda>p. p\<lparr>pc_request := (pc_request p)\<lparr>cr_status_code := word_of_int (st_status_code (sp_status_line sp1))\<rparr>,
    pc_parsers := Status_Line sp1 True\<rparr>"
  let ?q = "?known p"
  consider "status_line_parser.sp_state sp1 = status_line_done" | "status_line_parser.sp_state sp1 = status_line_error"
    | "status_line_parser.sp_state sp1 \<noteq> status_line_done" "status_line_parser.sp_state sp1 \<noteq> status_line_error" by blast
  then show ?case
  proof cases
    case 1
    have r: "response_read p ?q"
      unfolding response_read_def using sp1(2)
      by (intro exI [of _ sp1] exI [of _ True] exI [of _ "word_of_int (st_status_code (sp_status_line sp1))"]) simp
    obtain st where "log_new_connection env key (s, with_conn c ?q w) = Inr ((), (s, (with_conn c ?q w)\<lparr>w_os := st\<rparr>))"
      using log_new_connection_spec [OF Suc.prems(1) _ Suc.prems(8), of "with_conn c ?q w" ?q s] Suc.prems(6,7) by auto
    then have "response_loop (Suc k) env key c sp block i (s, w) = Inr ((), (s, with_conn c ?q (w\<lparr>w_os := st\<rparr>)))"
      using x sp1(1) 1 Suc.prems(4) by (simp add: run_simps flip: with_conn_def)
    then show ?thesis using r by blast
  next
    case 2
    let ?p = "p\<lparr>pc_parsers := Status_Line sp1 True\<rparr>"
    have r: "response_read p ?p"
      unfolding response_read_def using sp1(2)
      by (intro exI [of _ sp1] exI [of _ True] exI [of _ "cr_status_code (pc_request p)"]) simp
    have "response_loop (Suc k) env key c sp block i (s, w) = Inr ((), (s, with_conn c ?p (w\<lparr>w_os := w_os w\<rparr>)))"
      using x sp1(1) 2 Suc.prems(4) by (simp add: run_simps flip: with_conn_def)
    then show ?thesis using r by blast
  next
    case 3
    let ?p = "p\<lparr>pc_parsers := Status_Line sp1 False\<rparr>"
    obtain p' st where p': "response_loop k env key c sp1 block (Suc i) (s, with_conn c ?p w) =
        Inr ((), (s, with_conn c p' ((with_conn c ?p w)\<lparr>w_os := st\<rparr>)))" "response_read ?p p'"
      using Suc.IH [OF Suc.prems(1) sp1(2), of "Suc i" "with_conn c ?p w" ?p] Suc.prems(3,6-8) by auto
    have "response_read p p'" using p'(2) by (auto simp: response_read_def)
    moreover have "response_loop (Suc k) env key c sp block i (s, w) = Inr ((), (s, with_conn c p' (w\<lparr>w_os := st\<rparr>)))"
      using x sp1(1) 3 Suc.prems(4) p'(1) by (simp add: run_simps flip: with_conn_def)
    ultimately show ?thesis by blast
  qed
qed

section \<open>The handlers of the state\<close>

lemma linked_frame:
  "linked s c p n \<Longrightarrow> pc_client_fd p' = pc_client_fd p \<Longrightarrow> pc_origin_fd p' = pc_origin_fd p \<Longrightarrow> linked s c p' n"
  by (simp add: linked_def)

text \<open>The two functions of the state on a relay whose buffers have changed.\<close>

lemma connected_write:
  assumes "sel_inv s" "linked s c p n" "w_conns w c = Some p" "relaying p" "key_data key = Some (Connection c)"
  shows "\<exists>s'. event_write env key c (s, w) = Inr ((), (s', w)) \<and> relay_ok (s', w) c p"
proof -
  obtain fd where key: "key = \<lparr>key_fd = fd, key_data = Some (Connection c)\<rparr>" using assms(5) by (cases key) simp
  obtain s' where s': "set_connection_interests c (s, w) = Inr ((), (s', w))" "sel_inv s'"
      "linked s' c p (connected_interests (pc_origin_buffer p) (pc_client_buffer p))"
    using interests_set [OF assms(1-3)] by blast
  have st: "in_state CONNECTED p" using assms(4) by (simp add: relaying_def)
  have "connected_on_write_ready key (s, w) = Inr (CONNECTED, (s', w))"
    using assms(3) s'(1) st by (auto simp: connected_on_write_ready_def key in_state_def run_simps)
  then have "stm_handler_write (conn_cell c) (connection_states env key) (s, w) = Inr (CONNECTED, (s', w))"
    unfolding stm_handler_write_def
    by (intro event_stays [OF assms(3) st _ _ assms(3) st, where f = "connected_on_write_ready key"])
      (simp_all add: table_at conn_row_def)
  then show ?thesis using s' assms by (simp add: event_write_def relay_ok_def)
qed

text \<open>After the line of the response has been looked at.\<close>

lemma connected_read_known:
  assumes "sel_inv s" "linked s c p n" "w_conns w c = Some p" "relaying p"
  shows "\<exists>s'. bindS (conn_get c) (\<lambda>p.
      if pc_client_status p = CLOSING_STATUS \<or> pc_origin_status p = CLOSING_STATUS then returnS CLOSING
      else thenS (set_connection_interests c) (conn_state c)) (s, w) = Inr (CONNECTED, (s', w)) \<and> relay_ok (s', w) c p"
proof -
  obtain s' where "set_connection_interests c (s, w) = Inr ((), (s', w))" "sel_inv s'"
      "linked s' c p (connected_interests (pc_origin_buffer p) (pc_client_buffer p))"
    using interests_set [OF assms(1-3)] by blast
  then show ?thesis using assms by (auto simp: relay_ok_def relaying_def in_state_def run_simps)
qed

lemma response_relaying: "response_read p p' \<Longrightarrow> relaying p \<Longrightarrow> relaying p'"
  using response_readD [of p p'] by (auto simp: relaying_def in_state_def reading_def buffers_ok_def)

lemma connected_read:
  assumes "sel_inv s" "linked s c p n" "w_conns w c = Some p" "relaying p" "os_ok env" "key_data key = Some (Connection c)"
    "key_fd key = pc_origin_fd p \<Longrightarrow> nat (pc_bytes_to_analize p) \<le> length (contents (pc_origin_buffer p))"
  shows "\<exists>s' p' st. event_read env key c (s, w) = Inr ((), (s', with_conn c p' (w\<lparr>w_os := st\<rparr>))) \<and>
    relay_ok (s', with_conn c p' (w\<lparr>w_os := st\<rparr>)) c p' \<and>
    pc_client_buffer p' = pc_client_buffer p \<and> pc_origin_buffer p' = pc_origin_buffer p"
proof -
  obtain fd where key: "key = \<lparr>key_fd = fd, key_data = Some (Connection c)\<rparr>" using assms(6) by (cases key) simp
  let ?b = "pc_origin_buffer p"
  let ?parse = "\<not> cr_connect (pc_request p) \<and> fd = pc_origin_fd p \<and> (\<exists>sp. pc_parsers p = Status_Line sp False)"
  have r: "in_state CONNECTED p" "reading p" "buffer_inv ?b" using assms(4) by (simp_all add: relaying_def buffers_ok_def)
  have "\<exists>s' p' st. connected_on_read_ready env key (s, w) = Inr (CONNECTED, (s', with_conn c p' (w\<lparr>w_os := st\<rparr>))) \<and>
    relay_ok (s', with_conn c p' (w\<lparr>w_os := st\<rparr>)) c p' \<and> (p' = p \<or> response_read p p')"
  proof (cases ?parse)
    case True
    then obtain sp where sp: "pc_parsers p = Status_Line sp False" "status_inv sp" using r(2) by (auto simp: reading_def)
    have "nat (pc_bytes_to_analize p) \<le> length (contents ?b)" using assms(7) True by (simp add: key)
    then have len: "b_read ?b + nat (pc_bytes_to_analize p) \<le> length (b_data ?b)"
      using r(3) by (auto simp: length_contents buffer_inv_def)
    obtain p' st where p': "response_loop (nat (pc_bytes_to_analize p)) env key c sp (b_data ?b) (b_read ?b) (s, w) =
          Inr ((), (s, with_conn c p' (w\<lparr>w_os := st\<rparr>)))" "response_read p p'"
      using response_loop_spec [OF assms(5) sp(2) len assms(3) sp(1), of key s] r(2) by (auto simp: reading_def key)
    let ?w = "with_conn c p' (w\<lparr>w_os := st\<rparr>)"
    note q = response_readD [OF p'(2)]
    obtain s' where s': "bindS (conn_get c) (\<lambda>p.
        if pc_client_status p = CLOSING_STATUS \<or> pc_origin_status p = CLOSING_STATUS then returnS CLOSING
        else thenS (set_connection_interests c) (conn_state c)) (s, ?w) = Inr (CONNECTED, (s', ?w))" "relay_ok (s', ?w) c p'"
      using connected_read_known [OF assms(1) linked_frame [OF assms(2) q(4,5)] _ response_relaying [OF p'(2) assms(4)], of ?w] by auto
    have "connected_on_read_ready env key (s, w) = Inr (CONNECTED, (s', ?w))"
      using True sp(1) assms(3) p'(1) s'(1) q(8) r(2,3)
      by (auto simp: connected_on_read_ready_def key run_simps reading_def read_ptr_length)
    then show ?thesis using s'(2) p'(2) by blast
  next
    case False
    obtain s' where s': "bindS (conn_get c) (\<lambda>p.
        if pc_client_status p = CLOSING_STATUS \<or> pc_origin_status p = CLOSING_STATUS then returnS CLOSING
        else thenS (set_connection_interests c) (conn_state c)) (s, w) = Inr (CONNECTED, (s', w))" "relay_ok (s', w) c p"
      using connected_read_known [OF assms(1-4)] by auto
    have "connected_on_read_ready env key (s, w) = Inr (CONNECTED, (s', w))"
      using False assms(3) s'(1) r(2)
      by (auto simp: connected_on_read_ready_def key run_simps reading_def)
    moreover have "with_conn c p (w\<lparr>w_os := w_os w\<rparr>) = w" using assms(3) by (simp add: with_conn_def fun_upd_idem)
    ultimately show ?thesis using s'(2) by (intro exI [of _ s'] exI [of _ p] exI [of _ "w_os w"]) simp
  qed
  then obtain s' p' st where p': "connected_on_read_ready env key (s, w) = Inr (CONNECTED, (s', with_conn c p' (w\<lparr>w_os := st\<rparr>)))"
      "relay_ok (s', with_conn c p' (w\<lparr>w_os := st\<rparr>)) c p'" "p' = p \<or> response_read p p'" by blast
  have "in_state CONNECTED p'" using p'(2) by (simp add: relay_ok_def relaying_def)
  then have "stm_handler_read (conn_cell c) (connection_states env key) (s, w) = Inr (CONNECTED, (s', with_conn c p' (w\<lparr>w_os := st\<rparr>)))"
    unfolding stm_handler_read_def
    by (intro event_stays [OF assms(3) r(1), where f = "connected_on_read_ready env key" and p' = p'])
      (use p'(1) in \<open>simp_all add: table_at conn_row_def\<close>)
  then show ?thesis using p'(2,3) response_readD(2,3) [of p p'] by (auto simp: event_read_def)
qed

section \<open>The four events\<close>

datatype relay_event = Client_Readable | Client_Writable | Origin_Readable | Origin_Writable

fun relay_call :: "'o penv \<Rightarrow> nat \<Rightarrow> proxy_connection \<Rightarrow> relay_event \<Rightarrow> 'o psys \<Rightarrow> fault + 'o psys" where
  "relay_call env c p Client_Readable = call env Proxy_Client_Read (client_key c p)"
| "relay_call env c p Client_Writable = call env Proxy_Client_Write (client_key c p)"
| "relay_call env c p Origin_Readable = call env Proxy_Origin_Read (origin_key c p)"
| "relay_call env c p Origin_Writable = call env Proxy_Origin_Write (origin_key c p)"

text \<open>The state of the operating system when the handler makes its call: it has asked for the time.\<close>

definition os_then :: "'o penv \<Rightarrow> 'o world \<Rightarrow> 'o" where
  "os_then env w = snd (os_time (pe_os env) (w_os w))"

text \<open>The bytes an event moves: those \<^verbatim>\<open>read\<close> delivers, or those \<^verbatim>\<open>send\<close> takes.\<close>

fun moved :: "'o penv \<Rightarrow> proxy_connection \<Rightarrow> relay_event \<Rightarrow> 'o \<Rightarrow> bytes" where
  "moved env p Client_Readable st =
     (case fst (os_read (pe_os env) (pc_client_fd p) (buffer_room (pc_client_buffer p)) st) of None \<Rightarrow> [] | Some d \<Rightarrow> d)"
| "moved env p Origin_Readable st =
     (case fst (os_read (pe_os env) (pc_origin_fd p) (buffer_room (pc_origin_buffer p)) st) of None \<Rightarrow> [] | Some d \<Rightarrow> d)"
| "moved env p Client_Writable st =
     take (nat (fst (os_send (pe_os env) (pc_client_fd p) (contents (pc_origin_buffer p)) st))) (contents (pc_origin_buffer p))"
| "moved env p Origin_Writable st =
     take (nat (fst (os_send (pe_os env) (pc_origin_fd p) (contents (pc_client_buffer p)) st))) (contents (pc_client_buffer p))"

text \<open>What an event makes of the two queues of bytes: to the origin, and to the client.\<close>

fun queues_step :: "relay_event \<Rightarrow> bytes \<Rightarrow> bytes \<times> bytes \<Rightarrow> bytes \<times> bytes" where
  "queues_step Client_Readable bs (to_origin, to_client) = (to_origin @ bs, to_client)"
| "queues_step Origin_Readable bs (to_origin, to_client) = (to_origin, to_client @ bs)"
| "queues_step Client_Writable bs (to_origin, to_client) = (to_origin, drop (length bs) to_client)"
| "queues_step Origin_Writable bs (to_origin, to_client) = (drop (length bs) to_origin, to_client)"

text \<open>What it counts, and that it leaves the other connections alone.\<close>

fun relay_metrics :: "relay_event \<Rightarrow> bytes \<Rightarrow> proxy_metrics \<Rightarrow> proxy_metrics" where
  "relay_metrics Client_Writable bs m = increase_bytes_received (word_of_nat (length bs)) m"
| "relay_metrics Origin_Writable bs m = increase_bytes_sent (word_of_nat (length bs)) m"
| "relay_metrics _ bs m = m"

definition others_same :: "nat \<Rightarrow> 'o world \<Rightarrow> 'o world \<Rightarrow> bool" where
  "others_same c w w' \<longleftrightarrow> (\<forall>c'. c' \<noteq> c \<longrightarrow> w_conns w' c' = w_conns w c')"

definition relay_effect ::
  "nat \<Rightarrow> relay_event \<Rightarrow> bytes \<Rightarrow> 'o psys \<Rightarrow> proxy_connection \<Rightarrow> 'o psys \<Rightarrow> proxy_connection \<Rightarrow> bool" where
  "relay_effect c ev bs sw p sw' p' \<longleftrightarrow>
     relay_ok sw' c p' \<and>
     (contents (pc_client_buffer p'), contents (pc_origin_buffer p')) =
       queues_step ev bs (contents (pc_client_buffer p), contents (pc_origin_buffer p)) \<and>
     w_metrics (snd sw') = relay_metrics ev bs (w_metrics (snd sw)) \<and> others_same c (snd sw) (snd sw')"

lemma put_parts:
  assumes "buffer_inv b" "length bs \<le> buffer_room b"
  shows "\<exists>b1 b2. buffer_store b bs = Inr b1 \<and> buffer_write_adv b1 (int (length bs)) = Inr b2 \<and> buffer_inv b2 \<and>
    contents b2 = contents b @ bs"
  using put_spec [OF assms] by (auto simp: buffer_put_def write_ptr_room [OF assms(1)] res_simps)

lemma relay_okD:
  assumes "relay_ok (s, w) c p"
  shows "w_conns w c = Some p" "sel_inv s" "linked s c p (connected_interests (pc_origin_buffer p) (pc_client_buffer p))"
    "relaying p" "buffer_inv (pc_client_buffer p)" "buffer_inv (pc_origin_buffer p)"
    "pc_stm p = \<lparr>sm_initial = 0, sm_max_state = 9, sm_current = Some 5\<rparr>"
  using assms by (auto simp: relay_ok_def relaying_def buffers_ok_def in_state_def state_numbers)

text \<open>The world after the call of an event, and the function of the state that is then called.\<close>

fun moved_os :: "'o penv \<Rightarrow> proxy_connection \<Rightarrow> relay_event \<Rightarrow> 'o \<Rightarrow> 'o" where
  "moved_os env p Client_Readable st = snd (os_read (pe_os env) (pc_client_fd p) (buffer_room (pc_client_buffer p)) st)"
| "moved_os env p Origin_Readable st = snd (os_read (pe_os env) (pc_origin_fd p) (buffer_room (pc_origin_buffer p)) st)"
| "moved_os env p Client_Writable st = snd (os_send (pe_os env) (pc_client_fd p) (contents (pc_origin_buffer p)) st)"
| "moved_os env p Origin_Writable st = snd (os_send (pe_os env) (pc_origin_fd p) (contents (pc_client_buffer p)) st)"

definition after_move :: "'o penv \<Rightarrow> proxy_connection \<Rightarrow> relay_event \<Rightarrow> bytes \<Rightarrow> 'o world \<Rightarrow> 'o world" where
  "after_move env p ev bs w =
     (let v = w\<lparr>w_os := moved_os env p ev (os_then env w)\<rparr>
      in if ev = Client_Writable \<or> ev = Origin_Writable then v\<lparr>w_metrics := relay_metrics ev bs (w_metrics w)\<rparr> else v)"

lemma after_move_simps [simp]:
  "w_conns (after_move env p ev bs w) = w_conns w" "w_os (after_move env p ev bs w) = moved_os env p ev (os_then env w)"
  "w_metrics (after_move env p ev bs w) = relay_metrics ev bs (w_metrics w)"
  by (cases ev; simp add: after_move_def Let_def)+

fun event_key :: "nat \<Rightarrow> proxy_connection \<Rightarrow> relay_event \<Rightarrow> pkey" where
  "event_key c p Client_Readable = client_key c p"
| "event_key c p Client_Writable = client_key c p"
| "event_key c p Origin_Readable = origin_key c p"
| "event_key c p Origin_Writable = origin_key c p"

fun state_event :: "'o penv \<Rightarrow> nat \<Rightarrow> proxy_connection \<Rightarrow> relay_event \<Rightarrow> ('o, unit) prog" where
  "state_event env c p Client_Readable = event_read env (client_key c p) c"
| "state_event env c p Client_Writable = event_write env (client_key c p) c"
| "state_event env c p Origin_Readable = event_read env (origin_key c p) c"
| "state_event env c p Origin_Writable = event_write env (origin_key c p) c"

text \<open>The fields that moving bytes leaves alone.\<close>

definition same_but_buffers :: "proxy_connection \<Rightarrow> proxy_connection \<Rightarrow> bool" where
  "same_but_buffers p p' \<longleftrightarrow>
     pc_client_fd p' = pc_client_fd p \<and> pc_origin_fd p' = pc_origin_fd p \<and> pc_client_status p' = pc_client_status p \<and>
     pc_origin_status p' = pc_origin_status p \<and> pc_doh p' = pc_doh p \<and> pc_request p' = pc_request p \<and>
     pc_stm p' = pc_stm p \<and> pc_parsers p' = pc_parsers p \<and> pc_sniffer p' = pc_sniffer p \<and> pc_error p' = pc_error p"

definition bytes_moved :: "relay_event \<Rightarrow> bytes \<Rightarrow> proxy_connection \<Rightarrow> proxy_connection \<Rightarrow> bool" where
  "bytes_moved ev bs p p' \<longleftrightarrow>
     same_but_buffers p p' \<and> buffers_ok p' \<and>
     (contents (pc_client_buffer p'), contents (pc_origin_buffer p')) =
       queues_step ev bs (contents (pc_client_buffer p), contents (pc_origin_buffer p))"

definition continues :: "'o penv \<Rightarrow> nat \<Rightarrow> proxy_connection \<Rightarrow> relay_event \<Rightarrow> bytes \<Rightarrow> 'o psys \<Rightarrow> bool" where
  "continues env c p ev bs sw \<longleftrightarrow>
     (\<exists>p'. bytes_moved ev bs p p' \<and>
        (in_state CONNECTED p \<and> ev = Origin_Readable \<longrightarrow> pc_bytes_to_analize p' = int (length bs)) \<and>
        relay_call env c p ev sw =
          bindR (state_event env c p ev (fst sw, with_conn c p' (after_move env p ev bs (snd sw)))) (\<lambda>(_, sw). Inr sw))"

lemma time_then: "os_time (pe_os env) (w_os w) = (fst (os_time (pe_os env) (w_os w)), os_then env w)"
  by (simp add: os_then_def)

text \<open>The states in which bytes go to the side they are meant for.\<close>

definition moving :: "'o penv \<Rightarrow> nat \<Rightarrow> proxy_connection \<Rightarrow> 'o world \<Rightarrow> bool" where
  "moving env c p w \<longleftrightarrow>
     os_ok env \<and> w_conns w c = Some p \<and> buffers_ok p \<and>
     (\<exists>n. pc_stm p = \<lparr>sm_initial = 0, sm_max_state = 9, sm_current = Some n\<rparr> \<and> CONNECTED \<le> n \<and> n < 10)"

lemma movingE:
  assumes "moving env c p w"
  obtains n now where "os_ok env" "w_conns w c = Some p" "buffer_inv (pc_client_buffer p)" "buffer_inv (pc_origin_buffer p)"
    "pc_stm p = \<lparr>sm_initial = 0, sm_max_state = 9, sm_current = Some n\<rparr>" "5 \<le> n" "n < 10"
    "os_time (pe_os env) (w_os w) = (now, os_then env w)"
  using assms time_then [of env w] by (auto simp: moving_def buffers_ok_def state_numbers)

lemma client_read_moves:
  assumes "moving env c p w" "moved env p Client_Readable (os_then env w) = d" "d \<noteq> []"
  shows "continues env c p Client_Readable d (s, w)"
proof -
  let ?key = "client_key c p" and ?st = "os_then env w" and ?b = "pc_client_buffer p"
  obtain n now where p: "os_ok env" "w_conns w c = Some p" "buffer_inv ?b" "buffer_inv (pc_origin_buffer p)"
    "pc_stm p = \<lparr>sm_initial = 0, sm_max_state = 9, sm_current = Some n\<rparr>" "5 \<le> n" "n < 10"
    "os_time (pe_os env) (w_os w) = (now, ?st)" by (rule movingE [OF assms(1)])
  obtain st' where d: "os_read (pe_os env) (pc_client_fd p) (buffer_room ?b) ?st = (Some d, st')"
    using assms(2,3) by (cases "os_read (pe_os env) (pc_client_fd p) (buffer_room ?b) ?st") (auto split: option.splits)
  have "length d \<le> buffer_room ?b" using p(1) d by (auto simp: os_ok_def dest: spec [of _ "pc_client_fd p"]) (metis fst_conv)
  then obtain b1 b2 where b: "buffer_store ?b d = Inr b1" "buffer_write_adv b1 (int (length d)) = Inr b2"
      "buffer_inv b2" "contents b2 = contents ?b @ d"
    using put_parts [OF p(3)] by blast
  let ?p = "p\<lparr>pc_last_action_time := now, pc_bytes_to_analize := if n = 5 then int (length d) else pc_bytes_to_analize p,
    pc_client_buffer := b2\<rparr>"
  let ?w = "w\<lparr>w_os := st', w_conns := (w_conns w)(c \<mapsto> ?p)\<rparr>"
  have w: "with_conn c ?p (after_move env p Client_Readable d w) = ?w" by (simp add: with_conn_def after_move_def d)
  have "proxy_client_read env ?key (s, w) = event_read env ?key c (s, ?w)"
    using assms(3) p(6)
    by (simp add: proxy_client_read_def touch_def note_bytes_def client_key_def run_simps p(2,5,7,8) d
        write_ptr_room [OF p(3)] b(1,2) state_numbers)
  then have "relay_call env c p Client_Readable (s, w) = bindR (event_read env ?key c (s, ?w)) (\<lambda>(_, sw). Inr sw)"
    by (simp add: call_def handler_of_def)
  moreover have "bytes_moved Client_Readable d p ?p"
    using b(3,4) p(4) by (simp add: bytes_moved_def same_but_buffers_def buffers_ok_def)
  ultimately show ?thesis unfolding continues_def
    by (intro exI [of _ ?p]) (simp only: state_event.simps fst_conv snd_conv w relay_event.distinct simp_thms)
qed

lemma origin_read_moves:
  assumes "moving env c p w" "moved env p Origin_Readable (os_then env w) = d" "d \<noteq> []"
  shows "continues env c p Origin_Readable d (s, w)"
proof -
  let ?key = "origin_key c p" and ?st = "os_then env w" and ?b = "pc_origin_buffer p"
  obtain n now where p: "os_ok env" "w_conns w c = Some p" "buffer_inv (pc_client_buffer p)" "buffer_inv ?b"
    "pc_stm p = \<lparr>sm_initial = 0, sm_max_state = 9, sm_current = Some n\<rparr>" "5 \<le> n" "n < 10"
    "os_time (pe_os env) (w_os w) = (now, ?st)" by (rule movingE [OF assms(1)])
  obtain st' where d: "os_read (pe_os env) (pc_origin_fd p) (buffer_room ?b) ?st = (Some d, st')"
    using assms(2,3) by (cases "os_read (pe_os env) (pc_origin_fd p) (buffer_room ?b) ?st") (auto split: option.splits)
  have "length d \<le> buffer_room ?b" using p(1) d by (auto simp: os_ok_def dest: spec [of _ "pc_origin_fd p"]) (metis fst_conv)
  then obtain b1 b2 where b: "buffer_store ?b d = Inr b1" "buffer_write_adv b1 (int (length d)) = Inr b2"
      "buffer_inv b2" "contents b2 = contents ?b @ d"
    using put_parts [OF p(4)] by blast
  let ?p = "p\<lparr>pc_last_action_time := now, pc_bytes_to_analize := if n = 5 then int (length d) else pc_bytes_to_analize p,
    pc_origin_buffer := b2\<rparr>"
  let ?w = "w\<lparr>w_os := st', w_conns := (w_conns w)(c \<mapsto> ?p)\<rparr>"
  have w: "with_conn c ?p (after_move env p Origin_Readable d w) = ?w" by (simp add: with_conn_def after_move_def d)
  have "proxy_origin_read env ?key (s, w) = event_read env ?key c (s, ?w)"
    using assms(3) p(6)
    by (simp add: proxy_origin_read_def touch_def note_bytes_def origin_key_def run_simps p(2,5,7,8) d
        write_ptr_room [OF p(4)] b(1,2) state_numbers)
  then have "relay_call env c p Origin_Readable (s, w) = bindR (event_read env ?key c (s, ?w)) (\<lambda>(_, sw). Inr sw)"
    by (simp add: call_def handler_of_def)
  moreover have "bytes_moved Origin_Readable d p ?p"
    using b(3,4) p(3) by (simp add: bytes_moved_def same_but_buffers_def buffers_ok_def)
  moreover have "in_state CONNECTED p \<longrightarrow> pc_bytes_to_analize ?p = int (length d)" using p(5) by (simp add: in_state_def state_numbers)
  ultimately show ?thesis unfolding continues_def
    by (intro exI [of _ ?p]) (simp only: state_event.simps fst_conv snd_conv w simp_thms)
qed

text \<open>What \<^verbatim>\<open>send\<close> is given are the contents of the buffer.\<close>

lemma sent_bytes: "buffer_inv b \<Longrightarrow> take (length (contents b)) (drop (b_read b) (b_data b)) = contents b"
  by (simp add: length_contents) (simp add: contents_def)

lemma sent_count:
  assumes "os_ok env" "take (nat (fst (os_send (pe_os env) fd bs st))) bs \<noteq> []"
  obtains n st' where "os_send (pe_os env) fd bs st = (int n, st')" "0 < n" "n \<le> length bs"
proof -
  obtain k st' where k: "os_send (pe_os env) fd bs st = (k, st')" by fastforce
  then have "k \<le> int (length bs)" using assms(1) by (auto simp: os_ok_def dest: spec [of _ fd]) (metis fst_conv)
  moreover have "0 < k" using assms(2) k by (cases "0 < k") auto
  ultimately show thesis using that [of "nat k" st'] k by simp
qed

lemma client_write_moves:
  assumes "moving env c p w" "moved env p Client_Writable (os_then env w) = d" "d \<noteq> []"
  shows "continues env c p Client_Writable d (s, w)"
proof -
  let ?key = "client_key c p" and ?st = "os_then env w" and ?b = "pc_origin_buffer p"
  obtain m now where p: "os_ok env" "w_conns w c = Some p" "buffer_inv (pc_client_buffer p)" "buffer_inv ?b"
    "pc_stm p = \<lparr>sm_initial = 0, sm_max_state = 9, sm_current = Some m\<rparr>" "5 \<le> m" "m < 10"
    "os_time (pe_os env) (w_os w) = (now, ?st)" by (rule movingE [OF assms(1)])
  obtain n st' where n: "os_send (pe_os env) (pc_client_fd p) (contents ?b) ?st = (int n, st')" "0 < n" "n \<le> length (contents ?b)"
    using sent_count [OF p(1)] assms(2,3) by (metis moved.simps(3))
  have d: "d = take n (contents ?b)" "length d = n" using assms(2) n by auto
  obtain b2 where b: "buffer_read_adv ?b (int n) = Inr b2" "buffer_inv b2" "contents b2 = drop n (contents ?b)"
    using read_adv_spec [OF p(4) n(3)] by blast
  let ?p = "p\<lparr>pc_last_action_time := now, pc_origin_buffer := b2\<rparr>"
  let ?w = "w\<lparr>w_os := st', w_metrics := increase_bytes_received (word_of_int (int n)) (w_metrics w),
    w_conns := (w_conns w)(c \<mapsto> ?p)\<rparr>"
  have w: "with_conn c ?p (after_move env p Client_Writable d w) = ?w" by (simp add: with_conn_def after_move_def n(1) d(2))
  have "proxy_client_write env ?key (s, w) = event_write env ?key c (s, ?w)"
    using n(2)
    by (simp add: proxy_client_write_def touch_def count_metric_def client_key_def run_simps p(2,8) n(1)
        read_ptr_length [OF p(4)] sent_bytes [OF p(4)] b(1))
  then have "relay_call env c p Client_Writable (s, w) = bindR (event_write env ?key c (s, ?w)) (\<lambda>(_, sw). Inr sw)"
    by (simp add: call_def handler_of_def)
  moreover have "bytes_moved Client_Writable d p ?p"
    using b(2,3) p(3) d(2) by (simp add: bytes_moved_def same_but_buffers_def buffers_ok_def)
  ultimately show ?thesis unfolding continues_def
    by (intro exI [of _ ?p]) (simp only: state_event.simps fst_conv snd_conv w relay_event.distinct simp_thms)
qed

lemma origin_write_moves:
  assumes "moving env c p w" "moved env p Origin_Writable (os_then env w) = d" "d \<noteq> []"
  shows "continues env c p Origin_Writable d (s, w)"
proof -
  let ?key = "origin_key c p" and ?st = "os_then env w" and ?b = "pc_client_buffer p"
  obtain m now where p: "os_ok env" "w_conns w c = Some p" "buffer_inv ?b" "buffer_inv (pc_origin_buffer p)"
    "pc_stm p = \<lparr>sm_initial = 0, sm_max_state = 9, sm_current = Some m\<rparr>" "5 \<le> m" "m < 10"
    "os_time (pe_os env) (w_os w) = (now, ?st)" by (rule movingE [OF assms(1)])
  obtain n st' where n: "os_send (pe_os env) (pc_origin_fd p) (contents ?b) ?st = (int n, st')" "0 < n" "n \<le> length (contents ?b)"
    using sent_count [OF p(1)] assms(2,3) by (metis moved.simps(4))
  have d: "d = take n (contents ?b)" "length d = n" using assms(2) n by auto
  obtain b2 where b: "buffer_read_adv ?b (int n) = Inr b2" "buffer_inv b2" "contents b2 = drop n (contents ?b)"
    using read_adv_spec [OF p(3) n(3)] by blast
  let ?p = "p\<lparr>pc_last_action_time := now, pc_client_buffer := b2\<rparr>"
  let ?w = "w\<lparr>w_os := st', w_metrics := increase_bytes_sent (word_of_int (int n)) (w_metrics w),
    w_conns := (w_conns w)(c \<mapsto> ?p)\<rparr>"
  have w: "with_conn c ?p (after_move env p Origin_Writable d w) = ?w" by (simp add: with_conn_def after_move_def n(1) d(2))
  have "proxy_origin_write env ?key (s, w) = event_write env ?key c (s, ?w)"
    using n(2) p(6)
    by (simp add: proxy_origin_write_def send_client_buffer_def touch_def count_metric_def origin_key_def run_simps p(2,5,7,8) n(1)
        read_ptr_length [OF p(3)] sent_bytes [OF p(3)] b(1) state_numbers)
  then have "relay_call env c p Origin_Writable (s, w) = bindR (event_write env ?key c (s, ?w)) (\<lambda>(_, sw). Inr sw)"
    by (simp add: call_def handler_of_def)
  moreover have "bytes_moved Origin_Writable d p ?p"
    using b(2,3) p(4) d(2) by (simp add: bytes_moved_def same_but_buffers_def buffers_ok_def)
  ultimately show ?thesis unfolding continues_def
    by (intro exI [of _ ?p]) (simp only: state_event.simps fst_conv snd_conv w relay_event.distinct simp_thms)
qed

lemma event_moves:
  assumes "moving env c p w" "moved env p ev (os_then env w) = d" "d \<noteq> []"
  shows "continues env c p ev d (s, w)"
  using client_read_moves [OF assms(1) _ assms(3)] origin_read_moves [OF assms(1) _ assms(3)]
    client_write_moves [OF assms(1) _ assms(3)] origin_write_moves [OF assms(1) _ assms(3)] assms(2)
  by (cases ev) blast+

text \<open>The state \<open>CONNECTED\<close> goes on relaying.\<close>

lemma relay_event_ok:
  assumes "relay_ok (s, w) c p" "os_ok env" "moved env p ev (os_then env w) \<noteq> []"
  shows "\<exists>sw' p'. relay_call env c p ev (s, w) = Inr sw' \<and>
    relay_effect c ev (moved env p ev (os_then env w)) (s, w) p sw' p'"
proof -
  let ?bs = "moved env p ev (os_then env w)"
  note p = relay_okD [OF assms(1)]
  have "moving env c p w" using assms(2) p by (auto simp: moving_def buffers_ok_def state_numbers)
  then obtain p' where p': "bytes_moved ev ?bs p p'" "in_state CONNECTED p \<and> ev = Origin_Readable \<longrightarrow> pc_bytes_to_analize p' = int (length ?bs)"
      "relay_call env c p ev (s, w) = bindR (state_event env c p ev (s, with_conn c p' (after_move env p ev ?bs w))) (\<lambda>(_, sw). Inr sw)"
    using event_moves [OF _ refl assms(3)] unfolding continues_def fst_conv snd_conv by blast
  have r: "relaying p'" using p(4) p'(1) by (simp add: relaying_def in_state_def reading_def bytes_moved_def same_but_buffers_def)
  have l: "linked s c p' (connected_interests (pc_origin_buffer p) (pc_client_buffer p))"
    by (rule linked_frame [OF p(3)]) (use p'(1) in \<open>simp_all add: bytes_moved_def same_but_buffers_def\<close>)
  let ?w = "with_conn c p' (after_move env p ev ?bs w)"
  have c: "w_conns ?w c = Some p'" by simp
  have k: "key_data (client_key c p) = Some (Connection c)" "key_data (origin_key c p) = Some (Connection c)"
    by (simp_all add: client_key_def origin_key_def)
  have fd: "key_fd (client_key c p) \<noteq> pc_origin_fd p'" "pc_origin_fd p' = pc_origin_fd p"
    using p(3) p'(1) by (auto simp: client_key_def linked_def bytes_moved_def same_but_buffers_def)
  obtain s' q v where s': "state_event env c p ev (s, ?w) = Inr ((), (s', v))" "relay_ok (s', v) c q"
      "pc_client_buffer q = pc_client_buffer p'" "pc_origin_buffer q = pc_origin_buffer p'"
      "w_metrics v = w_metrics ?w" "others_same c ?w v"
  proof (cases ev)
    case Client_Readable
    then show thesis using connected_read [OF p(2) l c r assms(2) k(1)] fd(1) that
      by (fastforce simp: others_same_def simp del: moved.simps)
  next
    case Origin_Readable
    have "nat (pc_bytes_to_analize p') \<le> length (contents (pc_origin_buffer p'))"
      using p'(1,2) p(4) Origin_Readable by (simp add: relaying_def bytes_moved_def del: moved.simps)
    then show thesis using connected_read [OF p(2) l c r assms(2) k(2)] Origin_Readable that
      by (fastforce simp: others_same_def simp del: moved.simps)
  next
    case Client_Writable
    then show thesis using connected_write [OF p(2) l c r k(1)] that by (fastforce simp: others_same_def simp del: moved.simps)
  next
    case Origin_Writable
    then show thesis using connected_write [OF p(2) l c r k(2)] that by (fastforce simp: others_same_def simp del: moved.simps)
  qed
  then show ?thesis using p'(1,3)
    by (intro exI [of _ "(s', v)"] exI [of _ q]) (simp add: relay_effect_def bytes_moved_def others_same_def del: moved.simps)
qed

section \<open>Runs\<close>

text \<open>
  A run of events that each move bytes, in any order, with the bytes moved; time may pass and the operating
  system may change between them only through the calls of the handlers.
\<close>

inductive relay_run :: "'o penv \<Rightarrow> nat \<Rightarrow> 'o psys \<Rightarrow> (relay_event \<times> bytes) list \<Rightarrow> 'o psys \<Rightarrow> bool" for env c where
  relay_stop: "relay_run env c sw [] sw"
| relay_step: "w_conns (snd sw) c = Some p \<Longrightarrow> bs = moved env p ev (os_then env (snd sw)) \<Longrightarrow> bs \<noteq> [] \<Longrightarrow>
    relay_call env c p ev sw = Inr sw' \<Longrightarrow> relay_run env c sw' es sw'' \<Longrightarrow> relay_run env c sw ((ev, bs) # es) sw''"

inductive_cases relay_runE: "relay_run env c sw es sw'"

text \<open>All the bytes moved by events of one kind.\<close>

definition bytes_of :: "relay_event \<Rightarrow> (relay_event \<times> bytes) list \<Rightarrow> bytes" where
  "bytes_of ev es = concat (map snd (filter (\<lambda>e. fst e = ev) es))"

lemma bytes_of_simps [simp]:
  "bytes_of ev [] = []" "bytes_of ev ((ev', bs) # es) = (if ev' = ev then bs else []) @ bytes_of ev es"
  by (simp_all add: bytes_of_def)

definition fifo_between :: "proxy_connection \<Rightarrow> (relay_event \<times> bytes) list \<Rightarrow> proxy_connection \<Rightarrow> bool" where
  "fifo_between p es p' \<longleftrightarrow>
     bytes_of Origin_Writable es @ contents (pc_client_buffer p') = contents (pc_client_buffer p) @ bytes_of Client_Readable es \<and>
     bytes_of Client_Writable es @ contents (pc_origin_buffer p') = contents (pc_origin_buffer p) @ bytes_of Origin_Readable es"

lemma moved_prefix:
  "bs = moved env p ev st \<Longrightarrow> ev = Client_Writable \<Longrightarrow> bs @ drop (length bs) (contents (pc_origin_buffer p)) = contents (pc_origin_buffer p)"
  "bs = moved env p ev st \<Longrightarrow> ev = Origin_Writable \<Longrightarrow> bs @ drop (length bs) (contents (pc_client_buffer p)) = contents (pc_client_buffer p)"
  by (simp_all add: min_def)

lemma fifo_step:
  assumes q: "(contents (pc_client_buffer p'), contents (pc_origin_buffer p')) =
      queues_step ev bs (contents (pc_client_buffer p), contents (pc_origin_buffer p))"
    and "bs = moved env p ev st" "fifo_between p' es p''"
  shows "fifo_between p ((ev, bs) # es) p''"
proof -
  have f: "bytes_of Origin_Writable es @ contents (pc_client_buffer p'') = contents (pc_client_buffer p') @ bytes_of Client_Readable es"
      "bytes_of Client_Writable es @ contents (pc_origin_buffer p'') = contents (pc_origin_buffer p') @ bytes_of Origin_Readable es"
    using assms(3) by (simp_all add: fifo_between_def)
  show ?thesis
  proof (cases ev)
    case Client_Writable
    then show ?thesis using q f moved_prefix(1) [OF assms(2)] by (simp add: fifo_between_def)
  next
    case Origin_Writable
    then show ?thesis using q f moved_prefix(2) [OF assms(2)] by (simp add: fifo_between_def)
  next
    case Client_Readable
    then show ?thesis using q f by (simp add: fifo_between_def)
  next
    case Origin_Readable
    then show ?thesis using q f by (simp add: fifo_between_def)
  qed
qed

lemma relay_run_ok:
  assumes "relay_run env c sw es sw'" "os_ok env"
  shows "relay_ok sw c p \<Longrightarrow> \<exists>p'. relay_ok sw' c p' \<and> fifo_between p es p' \<and> others_same c (snd sw) (snd sw') \<and>
    w_metrics (snd sw') = fold (\<lambda>(ev, bs). relay_metrics ev bs) es (w_metrics (snd sw))"
  using assms(1)
proof (induction arbitrary: p rule: relay_run.induct)
  case (relay_stop sw)
  then show ?case by (auto simp: fifo_between_def others_same_def)
next
  case (relay_step sw q bs ev sw' es sw'')
  obtain s w where sw: "sw = (s, w)" by fastforce
  have q: "q = p" using relay_step.hyps(1) relay_step.prems by (simp add: relay_ok_def)
  obtain sw1 p1 where 1: "relay_call env c p ev sw = Inr sw1" "relay_effect c ev bs sw p sw1 p1"
    using relay_event_ok [OF relay_step.prems [unfolded sw] assms(2), of ev] relay_step.hyps(2,3) unfolding sw q snd_conv by blast
  have sw1: "sw1 = sw'" using 1(1) relay_step.hyps(4) by (simp add: q)
  obtain p' where p': "relay_ok sw'' c p'" "fifo_between p1 es p'" "others_same c (snd sw') (snd sw'')"
      "w_metrics (snd sw'') = fold (\<lambda>(ev, bs). relay_metrics ev bs) es (w_metrics (snd sw'))"
    using relay_step.IH [of p1] 1(2) by (auto simp: relay_effect_def sw1)
  have "fifo_between p ((ev, bs) # es) p'"
    using fifo_step [OF _ relay_step.hyps(2) [unfolded q] p'(2)] 1(2) by (simp add: relay_effect_def)
  then show ?case using p' 1(2) by (auto simp: relay_effect_def others_same_def sw1)
qed

section \<open>A relay\<close>

definition some_relay :: proxy_connection where
  "some_relay = (some_connection (Some CONNECTED))\<lparr>pc_request := zero_connection_request\<lparr>cr_connect := True\<rparr>\<rparr>"

lemma some_relaying: "relaying some_relay"
  by (auto simp: relaying_def some_relay_def in_state_def some_machine_def reading_def buffers_ok_def state_numbers
      buffer_inv_def buffer_init_def buffer_reset_def zero_connection_request_def method_room_def target_room_def request_consts)

lemma linked_exists:
  assumes "\<not> invalid_fd (pc_client_fd p)" "\<not> invalid_fd (pc_origin_fd p)" "pc_client_fd p \<noteq> pc_origin_fd p"
  shows "\<exists>s. sel_inv s \<and> linked s c p n"
proof -
  have ne: "nat (pc_client_fd p) \<noteq> nat (pc_origin_fd p)" using assms by (auto simp: invalid_fd_def)
  obtain s1 where 1: "sel_inv s1" "sel_entry s1 = [nat (pc_client_fd p) \<mapsto> (client_handler, fst n, Some (Connection c))]"
    using register_inv [OF empty_selector_inv(1), of sel_env_ok "pc_client_fd p" "Some client_handler" "fst n" "Some (Connection c)"]
      assms(1) empty_selector_inv(2) by auto
  obtain s2 where "sel_inv s2" "linked s2 c p n"
    using register_inv [OF 1(1), of sel_env_ok "pc_origin_fd p" "Some origin_handler" "snd n" "Some (Connection c)"]
      assms 1(2) ne by (auto simp: linked_def)
  then show ?thesis by blast
qed

lemma some_relay_ok: "\<exists>s. relay_ok (s, some_world some_relay) 0 some_relay"
proof -
  have "\<not> invalid_fd (pc_client_fd some_relay)" "\<not> invalid_fd (pc_origin_fd some_relay)" "pc_client_fd some_relay \<noteq> pc_origin_fd some_relay"
    by (simp_all add: some_relay_def invalid_fd_def ITEMS_MAX_SIZE_def)
  from linked_exists [OF this, of 0 "connected_interests (pc_origin_buffer some_relay) (pc_client_buffer some_relay)"]
  show ?thesis using some_relaying by (auto simp: relay_ok_def)
qed

lemma some_os_ok: "os_ok some_env"
  by (auto simp: os_ok_def some_os_def some_env_def)

section \<open>Properties\<close>

text \<open>
  C5: The proxy relays the bytes of a connection in order and unchanged. For every run of events of a
  relaying connection, in which each handler is called by the selector and each moves some bytes, the bytes
  sent to the origin followed by those still in the client's buffer are the bytes that were there at
  the start followed by all the bytes read from the client; the same holds from the origin to the
  client. The connection is still relaying, with the interests its buffers call for, no other connection
  has changed, and the byte counters have counted exactly the bytes sent to each side.
\<close>

theorem relay_fifo:
  assumes "os_ok env" "relay_ok sw c p" "relay_run env c sw es sw'"
  shows "\<exists>p'. relay_ok sw' c p' \<and>
     bytes_of Origin_Writable es @ contents (pc_client_buffer p') = contents (pc_client_buffer p) @ bytes_of Client_Readable es \<and>
     bytes_of Client_Writable es @ contents (pc_origin_buffer p') = contents (pc_origin_buffer p) @ bytes_of Origin_Readable es \<and>
     (\<forall>c'. c' \<noteq> c \<longrightarrow> w_conns (snd sw') c' = w_conns (snd sw) c') \<and>
     w_metrics (snd sw') = fold (\<lambda>(ev, bs). relay_metrics ev bs) es (w_metrics (snd sw))"
  using relay_run_ok [OF assms(3,1,2)] unfolding fifo_between_def others_same_def by blast

text \<open>
  C12: No relaying connection is stuck and none of its handlers faults. The selector watches the client for
  reading exactly while there is room for its bytes and the origin for writing exactly while there are bytes
  to send to it, and the same the other way round; so as long as a buffer has bytes, its receiver is watched. And
  whenever the operating system then delivers or takes bytes, the handler returns, in a state that is again
  that of a relay.
\<close>

theorem relay_watches:
  assumes "os_ok env" "relay_ok (s, w) c p"
  shows "(wants OP_READ s (nat (pc_client_fd p)) \<longleftrightarrow> 0 < buffer_room (pc_client_buffer p)) \<and>
     (wants OP_WRITE s (nat (pc_origin_fd p)) \<longleftrightarrow> contents (pc_client_buffer p) \<noteq> []) \<and>
     (wants OP_READ s (nat (pc_origin_fd p)) \<longleftrightarrow> 0 < buffer_room (pc_origin_buffer p)) \<and>
     (wants OP_WRITE s (nat (pc_client_fd p)) \<longleftrightarrow> contents (pc_origin_buffer p) \<noteq> []) \<and>
     (\<forall>ev. moved env p ev (os_then env w) \<noteq> [] \<longrightarrow>
        (\<exists>sw' p'. relay_call env c p ev (s, w) = Inr sw' \<and> relay_ok sw' c p'))"
proof -
  note p = relay_okD [OF assms(2)]
  have "sel_entry s (nat (pc_client_fd p)) =
      Some (client_handler, fst (connected_interests (pc_origin_buffer p) (pc_client_buffer p)), Some (Connection c))"
    "sel_entry s (nat (pc_origin_fd p)) =
      Some (origin_handler, snd (connected_interests (pc_origin_buffer p) (pc_client_buffer p)), Some (Connection c))"
    using p(3) by (auto simp: linked_def)
  then have "(wants OP_READ s (nat (pc_client_fd p)) \<longleftrightarrow> 0 < buffer_room (pc_client_buffer p)) \<and>
     (wants OP_WRITE s (nat (pc_origin_fd p)) \<longleftrightarrow> contents (pc_client_buffer p) \<noteq> []) \<and>
     (wants OP_READ s (nat (pc_origin_fd p)) \<longleftrightarrow> 0 < buffer_room (pc_origin_buffer p)) \<and>
     (wants OP_WRITE s (nat (pc_client_fd p)) \<longleftrightarrow> contents (pc_origin_buffer p) \<noteq> [])"
    by (simp add: wants_def connected_interests_def can_read_iff [OF p(5)] can_read_iff [OF p(6)] can_write_iff
        OP_READ_def OP_WRITE_def OP_NOOP_def)
  moreover have "\<exists>sw' p'. relay_call env c p ev (s, w) = Inr sw' \<and> relay_ok sw' c p'"
    if "moved env p ev (os_then env w) \<noteq> []" for ev
    using relay_event_ok [OF assms(2,1) that] unfolding relay_effect_def by blast
  ultimately show ?thesis by blast
qed

text \<open>The client sends two bytes, and the proxy sends them on.\<close>

lemma some_moves:
  "moved some_env p Client_Readable st = take (buffer_room (pc_client_buffer p)) [72, 105]"
  "moved some_env p Origin_Writable st = contents (pc_client_buffer p)"
  by (simp_all add: some_os_def)

lemma some_room: "buffer_room (pc_client_buffer some_relay) = 8192" "contents (pc_client_buffer some_relay) = []"
  "contents (pc_origin_buffer some_relay) = []"
  by (simp_all add: some_relay_def buffer_room_def buffer_init_def buffer_reset_def contents_def)

theorem relay_fifo_witness:
  "\<exists>s sw' p'. relay_run some_env 0 (s, some_world some_relay) [(Client_Readable, [72, 105]), (Origin_Writable, [72, 105])] sw' \<and>
     relay_ok sw' 0 p' \<and> contents (pc_client_buffer p') = []"
proof -
  let ?w = "some_world some_relay"
  obtain s where s: "relay_ok (s, ?w) 0 some_relay" using some_relay_ok by blast
  have m1: "moved some_env some_relay Client_Readable (os_then some_env ?w) = [72, 105]"
    by (simp only: some_moves some_room) simp
  obtain sw1 p1 where 1: "relay_call some_env 0 some_relay Client_Readable (s, ?w) = Inr sw1" "relay_ok sw1 0 p1"
      "contents (pc_client_buffer p1) = [72, 105]"
    using relay_event_ok [OF s some_os_ok, of Client_Readable] m1 some_room by (auto simp: relay_effect_def)
  obtain s1 w1 where sw1: "sw1 = (s1, w1)" by fastforce
  have m2: "moved some_env p1 Origin_Writable (os_then some_env w1) = [72, 105]" by (simp only: some_moves 1)
  then have e2: "moved some_env p1 Origin_Writable (os_then some_env w1) \<noteq> []" by simp
  obtain sw2 p2 where 2: "relay_call some_env 0 p1 Origin_Writable (s1, w1) = Inr sw2" "relay_ok sw2 0 p2"
    using relay_event_ok [OF 1(2) [unfolded sw1] some_os_ok e2] unfolding relay_effect_def by blast
  have w: "w_conns ?w 0 = Some some_relay" "w_conns w1 0 = Some p1"
    using s 1(2) by (auto simp: relay_ok_def sw1)
  have r: "relay_run some_env 0 (s, ?w) [(Client_Readable, [72, 105]), (Origin_Writable, [72, 105])] sw2"
    using w m1 m2 1(1) 2(1)
    by (intro relay_step [where p = some_relay and sw' = "(s1, w1)"] relay_step [where p = p1 and sw' = sw2] relay_stop)
      (simp_all only: sw1 snd_conv list.distinct simp_thms)
  from relay_fifo [OF some_os_ok s r] obtain p' where "relay_ok sw2 0 p'"
      "[72, 105] @ contents (pc_client_buffer p') = contents (pc_client_buffer some_relay) @ [72, 105]" by auto
  then show ?thesis using r some_room(2) by (intro exI [of _ s] exI [of _ sw2] exI [of _ p']) simp
qed

theorem relay_watches_witness:
  "\<exists>s. relay_ok (s, some_world some_relay) 0 some_relay \<and> wants OP_READ s 5 \<and> \<not> wants OP_WRITE s 7"
proof -
  obtain s where s: "relay_ok (s, some_world some_relay) 0 some_relay" using some_relay_ok by blast
  then show ?thesis using relay_watches [OF some_os_ok s] some_room by (auto simp: some_relay_def)
qed

end
