(* ===== verification/Requests.thy ===== *)
theory Requests
  imports Relay
begin

text \<open>
  From the first byte of a client to the connection with the origin: the loop over the request line, the
  reply to a line that is refused, and the way of a request for an address through the states.
\<close>

section \<open>The loop over the request line\<close>

abbreviation feed_request :: "'o penv \<Rightarrow> request_parser \<Rightarrow> u8 \<Rightarrow> fault + request_parser" where
  "feed_request env \<equiv> request_parser_feed (pe_pton4 env) (pe_pton6 env)"

text \<open>The connection with its line read as far as \<open>q\<close>, \<open>n\<close> bytes on.\<close>

definition line_read :: "request_parser \<Rightarrow> buffer \<Rightarrow> nat \<Rightarrow> proxy_connection \<Rightarrow> proxy_connection" where
  "line_read q b n p =
     p\<lparr>pc_parsers := Request_Line q, pc_client_buffer := b, pc_bytes_to_analize := pc_bytes_to_analize p - int n\<rparr>"

lemma line_read_simps [simp]:
  "pc_stm (line_read q b n p) = pc_stm p" "pc_parsers (line_read q b n p) = Request_Line q"
  "pc_client_buffer (line_read q b n p) = b" "pc_origin_buffer (line_read q b n p) = pc_origin_buffer p"
  "pc_client_fd (line_read q b n p) = pc_client_fd p" "pc_origin_fd (line_read q b n p) = pc_origin_fd p"
  "pc_client_status (line_read q b n p) = pc_client_status p" "pc_origin_status (line_read q b n p) = pc_origin_status p"
  "pc_error (line_read q b n p) = pc_error p" "pc_request (line_read q b n p) = pc_request p"
  "pc_sniffer (line_read q b n p) = pc_sniffer p" "pc_doh (line_read q b n p) = pc_doh p"
  "pc_bytes_to_analize (line_read q b n p) = pc_bytes_to_analize p - int n"
  by (simp_all add: line_read_def)

lemma line_read_again: "line_read q b n (line_read q' b' n' p) = line_read q b (n' + n) p"
  by (simp add: line_read_def)

text \<open>What the loop does once the parser is where it stops.\<close>

definition after_line :: "'o penv \<Rightarrow> pkey \<Rightarrow> nat \<Rightarrow> request_parser \<Rightarrow> proxy_connection \<Rightarrow> 'o psys \<Rightarrow> fault + (nat \<times> 'o psys)" where
  "after_line env key c q p sw =
     (case request_line_error (rp_state q) of
        Some code \<Rightarrow> Inr (ERROR, (fst sw, with_conn c (p\<lparr>pc_error := code\<rparr>) (snd sw)))
      | None \<Rightarrow> if rp_state q = request_done then request_line_done env key c q (fst sw, with_conn c p (snd sw))
                else Inr (0, (fst sw, with_conn c p (snd sw))))"

lemma fin_iff: "request_fin q \<longleftrightarrow> rp_state q = request_done \<or> request_line_error (rp_state q) \<noteq> None"
  by (cases "rp_state q") (auto simp: request_fin_def request_failed_def request_line_error_def)

lemma client_byte:
  assumes "w_conns w c = Some p" "buffer_inv (pc_client_buffer p)" "contents (pc_client_buffer p) = x # xs"
  shows "\<exists>b. client_buffer_read c (s, w) = Inr (x, (s, with_conn c (p\<lparr>pc_client_buffer := b\<rparr>) w)) \<and>
    buffer_inv b \<and> contents b = xs \<and> b_limit b = b_limit (pc_client_buffer p)"
  using buffer_read_spec [OF assms(2,3)] assms(1) by (auto simp: client_buffer_read_def run_simps with_conn_def)

lemma parsing_loop_spec:
  assumes "w_conns w c = Some p" "pc_stm p = \<lparr>sm_initial = 0, sm_max_state = 9, sm_current = Some 0\<rparr>"
    "pc_parsers p = Request_Line r" "buffer_inv (pc_client_buffer p)" "\<not> request_fin r"
    "drive (feed_request env) request_fin r (contents (pc_client_buffer p)) = Inr (q, rest)"
    "length (contents (pc_client_buffer p)) < fuel"
  shows "\<exists>b n. buffer_inv b \<and> contents b = rest \<and> b_limit b = b_limit (pc_client_buffer p) \<and>
    parsing_loop fuel env key c (s, w) = after_line env key c q (line_read q b n p) (s, w)"
  using assms
proof (induction "contents (pc_client_buffer p)" arbitrary: w p r fuel)
  case Nil
  obtain k where k: "fuel = Suc k" using Nil.prems(7) by (cases fuel) auto
  have "\<not> buffer_can_read (pc_client_buffer p)" using Nil by (simp add: can_read_iff)
  then have "parsing_loop fuel env key c (s, w) = Inr (0, (s, w))"
    using Nil.prems(1,2) by (simp add: k run_simps)
  moreover have "with_conn c (line_read r (pc_client_buffer p) 0 p) w = w"
  proof -
    have "line_read r (pc_client_buffer p) 0 p = p" using Nil.prems(3) by (simp add: line_read_def)
    then show ?thesis using Nil.prems(1) by (simp add: with_conn_def fun_upd_idem)
  qed
  moreover have "q = r" "rest = []" using Nil by (simp_all add: Nil.hyps [symmetric])
  ultimately show ?case using Nil.prems(4,5) Nil.hyps
    by (intro exI [of _ "pc_client_buffer p"] exI [of _ 0]) (simp add: after_line_def fin_iff)
next
  case (Cons x xs)
  obtain k where k: "fuel = Suc k" using Cons.prems(7) by (cases fuel) auto
  have can: "buffer_can_read (pc_client_buffer p)" using Cons.hyps(2) Cons.prems(4) by (simp add: can_read_iff flip: Cons.hyps(2))
  obtain b where b: "client_buffer_read c (s, w) = Inr (x, (s, with_conn c (p\<lparr>pc_client_buffer := b\<rparr>) w))"
      "buffer_inv b" "contents b = xs" "b_limit b = b_limit (pc_client_buffer p)"
    using client_byte [OF Cons.prems(1,4) Cons.hyps(2) [symmetric]] by blast
  obtain r1 where r1: "feed_request env r x = Inr r1"
      "(if request_fin r1 then Inr (r1, xs) else drive (feed_request env) request_fin r1 xs) = Inr (q, rest)"
    using Cons.prems(6) unfolding Cons.hyps(2) [symmetric] by (auto simp: res_simps)
  let ?p = "line_read r1 b 1 p"
  have "p\<lparr>pc_client_buffer := b, pc_parsers := Request_Line r1, pc_bytes_to_analize := pc_bytes_to_analize p - 1\<rparr> = ?p"
    by (simp add: line_read_def)
  then have step: "parsing_loop fuel env key c (s, w) =
      bindS (check_request_line_error c (rp_state r1)) (\<lambda>bad.
        if bad then returnS ERROR
        else if rp_state r1 = request_done then request_line_done env key c r1
        else parsing_loop k env key c) (s, with_conn c ?p w)"
    using can b(1) r1(1) Cons.prems(1,3)
    by (simp add: k run_simps request_of_def with_conn_def del: bindS_def)
  show ?case
  proof (cases "request_fin r1")
    case True
    then have q: "q = r1" "rest = xs" using r1(2) by auto
    have "parsing_loop fuel env key c (s, w) = after_line env key c q ?p (s, w)"
    proof (cases "request_line_error (rp_state r1)")
      case None
      then show ?thesis using True unfolding step q
        by (simp add: check_request_line_error_def after_line_def run_bind [OF run_return] fin_iff)
    next
      case (Some code)
      then show ?thesis unfolding step q
        by (simp add: check_request_line_error_def after_line_def run_simps with_conn_def)
    qed
    then show ?thesis using b q by blast
  next
    case False
    then have "request_line_error (rp_state r1) = None" "rp_state r1 \<noteq> request_done" by (simp_all add: fin_iff)
    then have "parsing_loop fuel env key c (s, w) = parsing_loop k env key c (s, with_conn c ?p w)"
      unfolding step by (simp add: check_request_line_error_def run_simps)
    moreover obtain b' n where b': "buffer_inv b'" "contents b' = rest" "b_limit b' = b_limit b"
        "parsing_loop k env key c (s, with_conn c ?p w) = after_line env key c q (line_read q b' n ?p) (s, with_conn c ?p w)"
      using Cons.hyps(1) [of ?p "with_conn c ?p w" r1 k] Cons.prems b r1(2) False k by (auto simp flip: Cons.hyps(2))
    moreover have "after_line env key c q (line_read q b' n ?p) (s, with_conn c ?p w) =
        after_line env key c q (line_read q b' (1 + n) p) (s, w)"
      by (simp add: after_line_def line_read_again split: option.split)
    ultimately show ?thesis using b(4) by metis
  qed
qed

section \<open>Events and states\<close>

definition at_state :: "nat \<Rightarrow> proxy_connection \<Rightarrow> proxy_connection" where
  "at_state n p = p\<lparr>pc_stm := some_machine (Some n)\<rparr>"

lemma at_state_simps [simp]:
  "pc_stm (at_state n p) = some_machine (Some n)" "pc_parsers (at_state n p) = pc_parsers p"
  "pc_client_buffer (at_state n p) = pc_client_buffer p" "pc_origin_buffer (at_state n p) = pc_origin_buffer p"
  "pc_client_fd (at_state n p) = pc_client_fd p" "pc_origin_fd (at_state n p) = pc_origin_fd p"
  "pc_client_status (at_state n p) = pc_client_status p" "pc_origin_status (at_state n p) = pc_origin_status p"
  "pc_error (at_state n p) = pc_error p" "pc_request (at_state n p) = pc_request p"
  "pc_sniffer (at_state n p) = pc_sniffer p" "pc_doh (at_state n p) = pc_doh p"
  by (simp_all add: at_state_def)

lemma table_machine: "n < 10 \<Longrightarrow> machine_ok (connection_states env key) (some_machine (Some n))"
  by (simp add: some_machine_def machine_ok_table)

lemma no_departure: "n < 10 \<Longrightarrow> sd_on_departure (connection_states env key ! n) = None"
  by (auto simp: connection_states_def conn_row_def less_Suc_eq numeral_eq_Suc)

lemma jump_to:
  assumes "w_conns w c = Some p" "pc_stm p = some_machine (Some n)" "n < 10" "n' < 10" "n' \<noteq> n"
  shows "jump (conn_cell c) (connection_states env key) n' (s, w) =
    arrive_at (connection_states env key ! n') (s, with_conn c (at_state n' p) w)"
proof -
  have m: "stm_get (conn_cell c) (s, w) = Inr (some_machine (Some n))" using assms(1,2) by (simp add: conn_cell_get)
  obtain sw where sw: "stm_put (conn_cell c) ((some_machine (Some n))\<lparr>sm_current := Some n'\<rparr>) (s, w) = Inr sw"
      "jump (conn_cell c) (connection_states env key) n' (s, w) = arrive_at (connection_states env key ! n') sw"
    by (rule conn.jump_moves [OF m table_machine [OF assms(3), of env key], of n n'])
      (use assms no_departure in \<open>simp_all add: some_machine_def\<close>)
  then show ?thesis using assms(1) by (simp add: conn_cell_put with_conn_def at_state_def some_machine_def)
qed

lemma jump_same:
  assumes "w_conns w c = Some p" "pc_stm p = some_machine (Some n)" "n < 10"
  shows "jump (conn_cell c) (connection_states env key) n (s, w) = Inr (s, w)"
  using conn.jump_stays [of c "(s, w)" "some_machine (Some n)" n] assms by (simp add: conn_cell_get some_machine_def)

lemma event_at:
  assumes "w_conns w c = Some p" "pc_stm p = some_machine (Some n)" "n < 10"
    "event (connection_states env key ! n) = Some f"
  shows "stm_handler event (conn_cell c) (connection_states env key) (s, w) =
    bindR (f (s, w)) (\<lambda>(ret, s). bindR (jump (conn_cell c) (connection_states env key) ret s) (\<lambda>s. Inr (ret, s)))"
proof -
  have m: "stm_get (conn_cell c) (s, w) = Inr (some_machine (Some n))" using assms(1,2) by (simp add: conn_cell_get)
  show ?thesis using conn.handler_started [OF m table_machine [OF assms(3), of env key], where event = event] assms(4)
    by (simp add: some_machine_def)
qed

text \<open>The first event of a connection starts the machine.\<close>

definition begun :: "bool \<Rightarrow> proxy_connection \<Rightarrow> proxy_connection" where
  "begun enabled p =
     p\<lparr>pc_stm := some_machine (Some 0), pc_parsers := Request_Line (request_parser_init zero_request_parser),
       pc_sniffer := \<lparr>sn_parser = sniffer_parser_init (sn_parser (pc_sniffer p)), sn_enabled = enabled, sn_is_done = False\<rparr>\<rparr>"

lemma begun_simps [simp]:
  "pc_stm (begun e p) = some_machine (Some 0)" "pc_parsers (begun e p) = Request_Line (request_parser_init zero_request_parser)"
  "pc_client_buffer (begun e p) = pc_client_buffer p" "pc_origin_buffer (begun e p) = pc_origin_buffer p"
  "pc_client_fd (begun e p) = pc_client_fd p" "pc_origin_fd (begun e p) = pc_origin_fd p"
  "pc_client_status (begun e p) = pc_client_status p" "pc_origin_status (begun e p) = pc_origin_status p"
  "pc_error (begun e p) = pc_error p" "pc_request (begun e p) = pc_request p" "pc_doh (begun e p) = pc_doh p"
  by (simp_all add: begun_def)

lemma event_first:
  assumes "w_conns w c = Some p" "pc_stm p = some_machine None" "key_data key = Some (Connection c)"
  shows "stm_handler event (conn_cell c) (connection_states env key) (s, w) =
    stm_handler event (conn_cell c) (connection_states env key) (s, with_conn c (begun (w_disectors_enabled w) p) w)"
proof -
  obtain fd where key: "key = \<lparr>key_fd = fd, key_data = Some (Connection c)\<rparr>" using assms(3) by (cases key) simp
  have row: "connection_states env k ! 0 =
      conn_row 0 (parsing_host_on_arrival k) (Some (parsing_host_on_read_ready env k)) None" for k
    using table_at(1) [of env k] by (simp add: state_numbers)
  have "handle_first (conn_cell c) (connection_states env key) (s, w) =
      Inr (s, with_conn c (begun (w_disectors_enabled w) p) w)"
    using assms(1,2)
    by (simp add: handle_first_def enter_def conn_cell_get conn_cell_put some_machine_def state_at_ok row arrive_row
        parsing_host_on_arrival_def key run_simps with_conn_def begun_def)
  moreover have "handle_first (conn_cell c) (connection_states env key) (s, with_conn c (begun (w_disectors_enabled w) p) w) =
      Inr (s, with_conn c (begun (w_disectors_enabled w) p) w)"
    by (simp add: handle_first_def conn_cell_get some_machine_def)
  ultimately show ?thesis by (simp add: stm_handler_def)
qed

section \<open>A client that sends its request line\<close>

text \<open>
  A connection whose client is being read: nothing has failed, the parser has read as far as \<open>r\<close> and all
  that was received has been consumed.
\<close>

definition awaiting :: "'o psys \<Rightarrow> nat \<Rightarrow> proxy_connection \<Rightarrow> request_parser \<Rightarrow> bool" where
  "awaiting sw c p r \<longleftrightarrow>
     sel_inv (fst sw) \<and> w_conns (snd sw) c = Some p \<and> buffers_ok p \<and> contents (pc_client_buffer p) = [] \<and>
     64 \<le> b_limit (pc_origin_buffer p) \<and>
     \<not> invalid_fd (pc_client_fd p) \<and>
     sel_entry (fst sw) (nat (pc_client_fd p)) = Some (client_handler, OP_READ, Some (Connection c)) \<and>
     pc_client_status p = ACTIVE_STATUS \<and> pc_origin_status p = INACTIVE_STATUS \<and> pc_doh p = None \<and> \<not> request_fin r \<and>
     (pc_stm p = some_machine None \<and> r = request_parser_init zero_request_parser \<or>
      pc_stm p = some_machine (Some 0) \<and> pc_parsers p = Request_Line r)"

lemma event_read_line:
  assumes "w_conns w c = Some p" "key_data key = Some (Connection c)" "buffer_inv (pc_client_buffer p)" "\<not> request_fin r"
    "pc_stm p = some_machine None \<and> r = request_parser_init zero_request_parser \<or>
     pc_stm p = some_machine (Some 0) \<and> pc_parsers p = Request_Line r"
    "drive (feed_request env) request_fin r (contents (pc_client_buffer p)) = Inr (q, rest)"
  shows "\<exists>p' b n. (p' = p \<or> p' = begun (w_disectors_enabled w) p) \<and> buffer_inv b \<and> contents b = rest \<and>
    pc_stm p' = some_machine (Some 0) \<and>
    event_read env key c (s, w) = bindR (after_line env key c q (line_read q b n p') (s, w)) (\<lambda>(ret, s).
      bindR (jump (conn_cell c) (connection_states env key) ret s) (\<lambda>s. Inr ((), s)))"
proof -
  obtain fd where key: "key = \<lparr>key_fd = fd, key_data = Some (Connection c)\<rparr>" using assms(2) by (cases key) simp
  have row: "sd_on_read_ready (connection_states env key ! 0) = Some (parsing_host_on_read_ready env key)"
    using table_at(1) [of env key] by (simp add: state_numbers conn_row_def)
  have started: "\<exists>b n. buffer_inv b \<and> contents b = rest \<and>
      event_read env key c (s, v) = bindR (after_line env key c q (line_read q b n p') (s, v)) (\<lambda>(ret, s).
        bindR (jump (conn_cell c) (connection_states env key) ret s) (\<lambda>s. Inr ((), s)))"
    if v: "w_conns v c = Some p'" "pc_stm p' = some_machine (Some 0)" "pc_parsers p' = Request_Line r"
      "pc_client_buffer p' = pc_client_buffer p" for v p'
  proof -
    let ?b = "pc_client_buffer p"
    have len: "length (contents ?b) < Suc (b_write ?b - b_read ?b)" using assms(3) by (simp add: length_contents)
    obtain b n where b: "buffer_inv b" "contents b = rest"
        "parsing_loop (Suc (b_write ?b - b_read ?b)) env key c (s, v) = after_line env key c q (line_read q b n p') (s, v)"
      using parsing_loop_spec [OF v(1) _ v(3), of env q rest "Suc (b_write ?b - b_read ?b)" key s] assms(3,4,6) v len
      by (auto simp: some_machine_def simp del: parsing_loop.simps)
    have "parsing_host_on_read_ready env key (s, v) = after_line env key c q (line_read q b n p') (s, v)"
      using v(1,4) b(3) by (simp add: parsing_host_on_read_ready_def key run_simps del: parsing_loop.simps)
    then have "event_read env key c (s, v) = bindR (after_line env key c q (line_read q b n p') (s, v)) (\<lambda>(ret, s).
        bindR (jump (conn_cell c) (connection_states env key) ret s) (\<lambda>s. Inr ((), s)))"
      using event_at [where event = sd_on_read_ready, OF v(1,2) _ row]
      by (cases "after_line env key c q (line_read q b n p') (s, v)")
        (auto simp: event_read_def stm_handler_read_def bindR_assoc split: prod.splits)
    then show ?thesis using b(1,2) by blast
  qed
  show ?thesis
  proof (cases "pc_stm p = some_machine (Some 0)")
    case True
    then have "pc_parsers p = Request_Line r" using assms(5) by (auto simp: some_machine_def)
    then show ?thesis using started [OF assms(1) True] True by auto
  next
    case False
    then have f: "pc_stm p = some_machine None" "r = request_parser_init zero_request_parser" using assms(5) by auto
    let ?p = "begun (w_disectors_enabled w) p"
    have "event_read env key c (s, w) = event_read env key c (s, with_conn c ?p w)"
      using event_first [OF assms(1) f(1) assms(2)] by (simp add: event_read_def stm_handler_read_def)
    moreover obtain b n where "buffer_inv b" "contents b = rest"
        "event_read env key c (s, with_conn c ?p w) = bindR (after_line env key c q (line_read q b n ?p) (s, with_conn c ?p w)) (\<lambda>(ret, s).
        bindR (jump (conn_cell c) (connection_states env key) ret s) (\<lambda>s. Inr ((), s)))"
      using started [of "with_conn c ?p w" ?p] f(2) by auto
    moreover have "after_line env key c q (line_read q b n ?p) (s, with_conn c ?p w) = after_line env key c q (line_read q b n ?p) (s, w)" for b n
      by (simp add: after_line_def split: option.split)
    ultimately show ?thesis by (metis begun_simps(1))
  qed
qed

text \<open>The fields the reading of a line leaves alone.\<close>

definition same_rest_of :: "bool \<Rightarrow> proxy_connection \<Rightarrow> proxy_connection \<Rightarrow> bool" where
  "same_rest_of enabled p p' \<longleftrightarrow>
     (sn_enabled (pc_sniffer p') \<longrightarrow> enabled \<or> sn_enabled (pc_sniffer p)) \<and>
     pc_client_fd p' = pc_client_fd p \<and> pc_origin_fd p' = pc_origin_fd p \<and> pc_client_status p' = pc_client_status p \<and>
     pc_origin_status p' = pc_origin_status p \<and> pc_doh p' = pc_doh p \<and> pc_request p' = pc_request p \<and>
     pc_origin_buffer p' = pc_origin_buffer p \<and> pc_error p' = pc_error p"

text \<open>A connection whose bytes are not sniffed and that has not failed, with an empty buffer to the origin that has room for a line.\<close>

definition fresh_origin :: "'o world \<Rightarrow> proxy_connection \<Rightarrow> bool" where
  "fresh_origin w p \<longleftrightarrow>
     \<not> w_disectors_enabled w \<and> \<not> sn_enabled (pc_sniffer p) \<and> \<not> cr_connect (pc_request p) \<and> pc_error p \<noteq> INTERNAL_SERVER_ERROR \<and>
     contents (pc_origin_buffer p) = [] \<and> 1100 \<le> buffer_room (pc_origin_buffer p)"

lemma awaiting_read:
  assumes "awaiting (s, w) c p r" "os_ok env" "moved env p Client_Readable (os_then env w) = d" "d \<noteq> []"
    "drive (feed_request env) request_fin r d = Inr (q, rest)"
  shows "\<exists>st p' b n. same_rest_of (w_disectors_enabled w) p p' \<and> pc_stm p' = some_machine (Some 0) \<and> buffer_inv b \<and> contents b = rest \<and>
    relay_call env c p Client_Readable (s, w) =
      bindR (after_line env (client_key c p) c q (line_read q b n p') (s, w\<lparr>w_os := st\<rparr>)) (\<lambda>(ret, s).
        jump (conn_cell c) (connection_states env (client_key c p)) ret s)"
proof -
  let ?key = "client_key c p" and ?st = "os_then env w" and ?b = "pc_client_buffer p"
  have p: "w_conns w c = Some p" "buffer_inv ?b" "contents ?b = []" "\<not> request_fin r"
      "pc_stm p = some_machine None \<and> r = request_parser_init zero_request_parser \<or>
       pc_stm p = some_machine (Some 0) \<and> pc_parsers p = Request_Line r"
    using assms(1) by (simp_all add: awaiting_def buffers_ok_def)
  obtain st where d: "os_read (pe_os env) (pc_client_fd p) (buffer_room ?b) ?st = (Some d, st)"
    using assms(3,4) by (cases "os_read (pe_os env) (pc_client_fd p) (buffer_room ?b) ?st") (auto split: option.splits)
  have "length d \<le> buffer_room ?b"
    using assms(2) d by (auto simp: os_ok_def dest: spec [of _ "pc_client_fd p"]) (metis fst_conv)
  then obtain b1 b2 where b: "buffer_store ?b d = Inr b1" "buffer_write_adv b1 (int (length d)) = Inr b2"
      "buffer_inv b2" "contents b2 = d"
    using put_parts [OF p(2)] p(3) by fastforce
  obtain now where now: "os_time (pe_os env) (w_os w) = (now, ?st)" using time_then by blast
  let ?p = "p\<lparr>pc_last_action_time := now, pc_bytes_to_analize := int (length d), pc_client_buffer := b2\<rparr>"
  let ?w = "w\<lparr>w_os := st, w_conns := (w_conns w)(c \<mapsto> ?p)\<rparr>"
  have stm: "pc_stm p = \<lparr>sm_initial = 0, sm_max_state = 9, sm_current = None\<rparr> \<or>
      pc_stm p = \<lparr>sm_initial = 0, sm_max_state = 9, sm_current = Some 0\<rparr>"
    using p(5) by (auto simp: some_machine_def)
  have call: "proxy_client_read env ?key (s, w) = event_read env ?key c (s, ?w)"
    using stm assms(4)
    by (elim disjE)
      (simp_all add: proxy_client_read_def touch_def note_bytes_def client_key_def run_simps p(1) now d
        write_ptr_room [OF p(2)] b(1,2) state_numbers)
  obtain p' b' n where e: "p' = ?p \<or> p' = begun (w_disectors_enabled ?w) ?p" "buffer_inv b'" "contents b' = rest"
      "pc_stm p' = some_machine (Some 0)"
      "event_read env ?key c (s, ?w) = bindR (after_line env ?key c q (line_read q b' n p') (s, ?w)) (\<lambda>(ret, s).
        bindR (jump (conn_cell c) (connection_states env ?key) ret s) (\<lambda>s. Inr ((), s)))"
    using event_read_line [of ?w c ?p ?key r env q rest s] b(3,4) p(4,5) assms(5) by (auto simp: client_key_def)
  have "same_rest_of (w_disectors_enabled w) p p'" using e(1) by (auto simp: same_rest_of_def begun_def)
  moreover have "after_line env ?key c q (line_read q b' n p') (s, ?w) =
      after_line env ?key c q (line_read q b' n p') (s, w\<lparr>w_os := st\<rparr>)"
    by (simp add: after_line_def with_conn_def split: option.split)
  ultimately show ?thesis
    using e(2-5) call
    by (intro exI [of _ st] exI [of _ p'] exI [of _ b'] exI [of _ n])
      (simp add: call_def handler_of_def bindR_assoc case_prod_unfold)
qed

text \<open>A line that goes on: the connection waits for more.\<close>

lemma awaiting_goes_on:
  assumes "awaiting (s, w) c p r" "os_ok env" "moved env p Client_Readable (os_then env w) = d" "d \<noteq> []"
    "drive (feed_request env) request_fin r d = Inr (q, rest)" "\<not> request_fin q"
  shows "\<exists>w' p'. relay_call env c p Client_Readable (s, w) = Inr (s, w') \<and> awaiting (s, w') c p' q \<and>
    pc_client_fd p' = pc_client_fd p \<and> others_same c w w' \<and> (fresh_origin w p \<longrightarrow> fresh_origin w' p')"
proof -
  obtain st p' b n where e: "same_rest_of (w_disectors_enabled w) p p'" "pc_stm p' = some_machine (Some 0)" "buffer_inv b" "contents b = rest"
      "relay_call env c p Client_Readable (s, w) =
        bindR (after_line env (client_key c p) c q (line_read q b n p') (s, w\<lparr>w_os := st\<rparr>)) (\<lambda>(ret, s).
        jump (conn_cell c) (connection_states env (client_key c p)) ret s)"
    using awaiting_read [OF assms(1-5)] by blast
  let ?p = "line_read q b n p'" and ?w = "with_conn c (line_read q b n p') (w\<lparr>w_os := st\<rparr>)"
  have "after_line env (client_key c p) c q ?p (s, w\<lparr>w_os := st\<rparr>) = Inr (0, (s, ?w))"
    using assms(6) by (simp add: after_line_def fin_iff)
  moreover have "jump (conn_cell c) (connection_states env (client_key c p)) 0 (s, ?w) = Inr (s, ?w)"
    by (rule jump_same [where p = ?p]) (simp_all add: e(2))
  ultimately have "relay_call env c p Client_Readable (s, w) = Inr (s, ?w)" using e(5) by simp
  moreover have "rest = []"
  proof -
    have "drive (feed_request env) request_fin r' d' = Inr (q, rest) \<Longrightarrow> rest = []" for r' d'
      using assms(6) by (induction d' arbitrary: r') (auto simp: res_simps split: if_splits)
    then show ?thesis using assms(5) .
  qed
  moreover have "awaiting (s, ?w) c ?p q"
    using assms(1,6) e(1-4) \<open>rest = []\<close> by (auto simp: awaiting_def buffers_ok_def same_rest_of_def)
  ultimately show ?thesis using e(1)
    by (intro exI [of _ ?w] exI [of _ ?p]) (auto simp: same_rest_of_def others_same_def fresh_origin_def)
qed

section \<open>A line that is refused\<close>

lemma sprintf_spec:
  assumes "buffer_inv b" "length text < buffer_room b"
  shows "\<exists>b'. buffer_sprintf text b = Inr b' \<and> buffer_inv b' \<and> contents b' = contents b @ text \<and> b_limit b' = b_limit b"
proof -
  have l: "b_write b + length text < b_limit b" "b_limit b \<le> length (b_data b)" "b_read b \<le> b_write b"
    using assms by (auto simp: buffer_room_def buffer_inv_def)
  let ?d = "overwrite (b_data b) (b_write b) (text @ [0])"
  let ?b = "b\<lparr>b_data := ?d, b_write := b_write b + length text\<rparr>"
  have "buffer_sprintf text b = Inr ?b"
    using l assms(1) by (simp add: buffer_sprintf_def buffer_write_ptr_def buffer_store_def buffer_write_adv_def)
  moreover have "buffer_inv ?b" using l assms(1) by (simp add: buffer_inv_def)
  moreover have "contents ?b = contents b @ text"
  proof -
    have "take (b_write b + length text) ?d = take (b_write b) (b_data b) @ text"
      using l by (simp add: overwrite_def)
    then have "drop (b_read b) (take (b_write b + length text) ?d) = drop (b_read b) (take (b_write b) (b_data b)) @ text"
      using l by simp
    moreover have "contents ?b = drop (b_read b) (take (b_write b + length text) ?d)"
      by (simp add: contents_def drop_take)
    ultimately show ?thesis by (simp add: contents_def drop_take)
  qed
  ultimately show ?thesis by (intro exI [of _ ?b]) simp
qed

text \<open>The codes a connection can fail with, and the length of what is sent for each.\<close>

lemma ascii_length [simp]: "length (ascii t) = length t"
  by (simp add: ascii_def)

lemma reason_length: "length (reason_of code) \<le> 29"
  by (simp add: reason_of_def)

lemma code_length: "code < 1000 \<Longrightarrow> length (dec_text (nat code)) \<le> 3"
  by (simp add: dec_text.simps)

lemma error_text_length: "code < 1000 \<Longrightarrow> length (error_text code (reason_of code)) \<le> 46"
  using reason_length [of code] code_length [of code] by (simp add: error_text_def)

text \<open>The line for an error waits in the buffer to the client, who is watched for writing only.\<close>

definition answered :: "'o psys \<Rightarrow> nat \<Rightarrow> proxy_connection \<Rightarrow> bytes \<Rightarrow> bool" where
  "answered sw c p text \<longleftrightarrow>
     sel_inv (fst sw) \<and> w_conns (snd sw) c = Some p \<and> pc_stm p = some_machine (Some ERROR) \<and>
     buffer_inv (pc_origin_buffer p) \<and> contents (pc_origin_buffer p) = text \<and> \<not> invalid_fd (pc_client_fd p) \<and>
     pc_origin_status p = INACTIVE_STATUS \<and>
     sel_entry (fst sw) (nat (pc_client_fd p)) = Some (client_handler, OP_WRITE, Some (Connection c))"

lemma client_interest:
  assumes "sel_inv s" "\<not> invalid_fd fd" "sel_entry s (nat fd) = Some (h, n, d)"
  shows "\<exists>s'. set_interest fd m (s, w) = Inr (SELECTOR_SUCCESS, (s', w)) \<and> sel_inv s' \<and> sel_entry s' = (sel_entry s)(nat fd \<mapsto> (h, m, d))"
  using set_interest_inv [OF assms(1), of fd m] assms(2,3) by (auto simp: set_interest_def)

lemma error_arrival:
  assumes "sel_inv s" "w_conns w c = Some p" "\<not> invalid_fd (pc_client_fd p)"
    "sel_entry s (nat (pc_client_fd p)) = Some (client_handler, n, Some (Connection c))"
    "buffer_inv (pc_origin_buffer p)" "64 \<le> b_limit (pc_origin_buffer p)" "pc_origin_status p = INACTIVE_STATUS"
    "pc_error p < 1000" "pc_stm p = some_machine (Some ERROR)" "key_data key = Some (Connection c)"
  shows "\<exists>s' p'. arrive_at (connection_states env key ! ERROR) (s, w) = Inr (s', with_conn c p' w) \<and>
    answered (s', with_conn c p' w) c p' (error_text (pc_error p) (reason_of (pc_error p))) \<and> pc_client_fd p' = pc_client_fd p"
proof -
  obtain fd where key: "key = \<lparr>key_fd = fd, key_data = Some (Connection c)\<rparr>" using assms(10) by (cases key) simp
  let ?t = "error_text (pc_error p) (reason_of (pc_error p))" and ?b = "buffer_reset (pc_origin_buffer p)"
  have "length ?t < buffer_room ?b" using error_text_length [OF assms(8)] assms(6) by simp
  then obtain b where b: "buffer_sprintf ?t ?b = Inr b" "buffer_inv b" "contents b = ?t"
    using sprintf_spec [of ?b ?t] assms(5) by auto
  let ?p = "p\<lparr>pc_origin_buffer := b\<rparr>"
  obtain s' where s': "set_interest (pc_client_fd p) OP_WRITE (s, with_conn c ?p w) = Inr (SELECTOR_SUCCESS, (s', with_conn c ?p w))"
      "sel_inv s'" "sel_entry s' = (sel_entry s)(nat (pc_client_fd p) \<mapsto> (client_handler, OP_WRITE, Some (Connection c)))"
    using client_interest [OF assms(1,3,4)] by blast
  have "error_on_arrival key (s, w) = Inr ((), (s', with_conn c ?p w))"
    using s'(1) assms(2,7) b(1)
    by (simp add: error_on_arrival_def key write_error_def reset_origin_buffer_def run_simps with_conn_def)
  then have "arrive_at (connection_states env key ! ERROR) (s, w) = Inr (s', with_conn c ?p w)"
    by (simp add: table_at arrive_row)
  moreover have "answered (s', with_conn c ?p w) c ?p ?t"
    using s'(2,3) b assms(3,7,9) by (simp add: answered_def)
  ultimately show ?thesis by (intro exI [of _ s'] exI [of _ ?p]) simp
qed

lemma error_codes: "request_line_error st = Some code \<Longrightarrow> code \<in> {BAD_REQUEST, NOT_IMPLEMENTED, HTTP_VERSION_NOT_SUPPORTED}"
  by (cases st) (auto simp: request_line_error_def)

lemma awaiting_refused:
  assumes "awaiting (s, w) c p r" "os_ok env" "moved env p Client_Readable (os_then env w) = d" "d \<noteq> []"
    "drive (feed_request env) request_fin r d = Inr (q, rest)" "request_line_error (rp_state q) = Some code"
  shows "\<exists>s' w' p'. relay_call env c p Client_Readable (s, w) = Inr (s', w') \<and>
    answered (s', w') c p' (error_text code (reason_of code)) \<and> pc_client_fd p' = pc_client_fd p \<and> others_same c w w'"
proof -
  let ?key = "client_key c p"
  obtain st p' b n where e: "same_rest_of (w_disectors_enabled w) p p'" "pc_stm p' = some_machine (Some 0)" "buffer_inv b" "contents b = rest"
      "relay_call env c p Client_Readable (s, w) =
        bindR (after_line env ?key c q (line_read q b n p') (s, w\<lparr>w_os := st\<rparr>)) (\<lambda>(ret, s).
        jump (conn_cell c) (connection_states env ?key) ret s)"
    using awaiting_read [OF assms(1-5)] by blast
  let ?p = "(line_read q b n p')\<lparr>pc_error := code\<rparr>"
  let ?w = "with_conn c ?p (w\<lparr>w_os := st\<rparr>)" and ?pe = "at_state ERROR ?p"
  have "after_line env ?key c q (line_read q b n p') (s, w\<lparr>w_os := st\<rparr>) = Inr (ERROR, (s, ?w))"
    using assms(6) by (simp add: after_line_def)
  moreover have "jump (conn_cell c) (connection_states env ?key) ERROR (s, ?w) =
      arrive_at (connection_states env ?key ! ERROR) (s, with_conn c ?pe ?w)"
    by (rule jump_to [where p = ?p and n = 0]) (simp_all add: e(2) state_numbers)
  moreover have "\<exists>s' p''. arrive_at (connection_states env ?key ! ERROR) (s, with_conn c ?pe ?w) = Inr (s', with_conn c p'' (with_conn c ?pe ?w)) \<and>
      answered (s', with_conn c p'' (with_conn c ?pe ?w)) c p'' (error_text (pc_error ?pe) (reason_of (pc_error ?pe))) \<and>
      pc_client_fd p'' = pc_client_fd ?pe"
    by (rule error_arrival [where n = OP_READ])
      (use assms(1) e(1) error_codes [OF assms(6)] in
        \<open>auto simp: awaiting_def buffers_ok_def same_rest_of_def client_key_def BAD_REQUEST_def NOT_IMPLEMENTED_def HTTP_VERSION_NOT_SUPPORTED_def\<close>)
  ultimately show ?thesis using e(1,5) by (fastforce simp: same_rest_of_def others_same_def)
qed

text \<open>Writing the answer: what is left waits; when nothing is left the connection ends.\<close>

lemma client_close_item:
  "w_conns w c = Some p \<Longrightarrow>
   close_item (call_close env) client_handler \<lparr>key_fd = fd, key_data = Some (Connection c)\<rparr> (s, w) =
     Inr (s, w\<lparr>w_os := os_close (pe_os env) (pc_client_fd p) (w_os w), w_conns := (w_conns w)(c := None)\<rparr>)"
  by (simp add: close_item_def client_handler_def call_close_def proxy_client_close_def free_connection_data_def run_simps)

lemma unregister_client:
  assumes "sel_inv s" "\<not> invalid_fd fd" "sel_entry s (nat fd) = Some (client_handler, n, Some (Connection c))"
    "w_conns w c = Some p"
  shows "\<exists>s'. unregister_fd env fd (s, w) = Inr (SELECTOR_SUCCESS,
      (s', w\<lparr>w_os := os_close (pe_os env) (pc_client_fd p) (w_os w), w_conns := (w_conns w)(c := None)\<rparr>)) \<and>
    sel_inv s' \<and> sel_entry s' = (sel_entry s)(nat fd := None)"
  using unregister_inv [OF assms(1-3) client_close_item [OF assms(4)]] by (auto simp: unregister_fd_def)

lemma answered_written:
  assumes "answered (s, w) c p text" "os_ok env" "moved env p Client_Writable (os_then env w) = text" "text \<noteq> []"
  shows "\<exists>s' w'. relay_call env c p Client_Writable (s, w) = Inr (s', w') \<and> w_conns w' c = None \<and>
    sel_inv s' \<and> sel_entry s' = (sel_entry s)(nat (pc_client_fd p) := None) \<and> others_same c w w' \<and>
    (\<exists>st. os_send (pe_os env) (pc_client_fd p) text (os_then env w) = (int (length text), st) \<and>
       w_os w' = os_close (pe_os env) (pc_client_fd p) st)"
proof -
  let ?key = "client_key c p" and ?st = "os_then env w" and ?b = "pc_origin_buffer p"
  have p: "w_conns w c = Some p" "sel_inv s" "buffer_inv ?b" "contents ?b = text" "\<not> invalid_fd (pc_client_fd p)"
      "pc_origin_status p = INACTIVE_STATUS" "pc_stm p = some_machine (Some 9)"
      "sel_entry s (nat (pc_client_fd p)) = Some (client_handler, OP_WRITE, Some (Connection c))"
    using assms(1) by (simp_all add: answered_def state_numbers)
  have m: "take (nat (fst (os_send (pe_os env) (pc_client_fd p) text ?st))) text = text"
    using assms(3) unfolding moved.simps p(4) .
  obtain n st where n: "os_send (pe_os env) (pc_client_fd p) text ?st = (int n, st)" "0 < n" "n \<le> length text"
    by (rule sent_count [OF assms(2), of "pc_client_fd p" "text" ?st]) (simp_all only: m assms(4) not_False_eq_True)
  have len: "n = length text" using arg_cong [OF m, of length] n by simp
  obtain b2 where b: "buffer_read_adv ?b (int n) = Inr b2" "buffer_inv b2" "contents b2 = []"
    using read_adv_spec [OF p(3), of n] p(4) len by auto
  obtain now where now: "os_time (pe_os env) (w_os w) = (now, ?st)" using time_then by blast
  let ?p = "p\<lparr>pc_last_action_time := now, pc_origin_buffer := b2\<rparr>"
  let ?w = "w\<lparr>w_os := st, w_metrics := increase_bytes_received (word_of_int (int n)) (w_metrics w),
    w_conns := (w_conns w)(c \<mapsto> ?p)\<rparr>"
  let ?pd = "at_state DONE ?p"
  have e: "error_on_write_ready ?key (s, ?w) = Inr (DONE, (s, ?w))"
    using b(2,3) by (simp add: error_on_write_ready_def client_key_def run_simps can_read_iff)
  obtain s' where s': "unregister_fd env (pc_client_fd p) (s, with_conn c ?pd ?w) = Inr (SELECTOR_SUCCESS,
      (s', (with_conn c ?pd ?w)\<lparr>w_os := os_close (pe_os env) (pc_client_fd p) st, w_conns := (w_conns ?w)(c := None)\<rparr>))"
      "sel_inv s'" "sel_entry s' = (sel_entry s)(nat (pc_client_fd p) := None)"
    using unregister_client [OF p(2,5,8), of "with_conn c ?pd ?w" ?pd env] by auto
  let ?w' = "(with_conn c ?pd ?w)\<lparr>w_os := os_close (pe_os env) (pc_client_fd p) st, w_conns := (w_conns ?w)(c := None)\<rparr>"
  have d: "arrive_at (connection_states env ?key ! DONE) (s, with_conn c ?pd ?w) = Inr (s', ?w')"
    using s'(1) p(6) by (simp add: table_at arrive_row done_on_arrival_def client_key_def run_simps)
  have j: "jump (conn_cell c) (connection_states env ?key) DONE (s, ?w) = Inr (s', ?w')"
    unfolding d [symmetric] by (rule jump_to [where p = ?p and n = 9]) (simp_all add: p(7) state_numbers)
  have "event_write env ?key c (s, ?w) = Inr ((), (s', ?w'))"
  proof -
    have row: "sd_on_write_ready (connection_states env ?key ! 9) = Some (error_on_write_ready ?key)"
      using table_at(10) [of env ?key] by (simp add: state_numbers conn_row_def)
    show ?thesis
      using event_at [where event = sd_on_write_ready, of ?w c ?p 9 env ?key, OF _ _ _ row] e j p(7)
      by (simp add: event_write_def stm_handler_write_def state_numbers)
  qed
  moreover have sent: "take (length text) (drop (b_read ?b) (b_data ?b)) = text"
    using sent_bytes [OF p(3)] p(4) by simp
  ultimately have "proxy_client_write env ?key (s, w) = Inr ((), (s', ?w'))"
    using n(2)
    by (simp add: proxy_client_write_def touch_def count_metric_def client_key_def run_simps p(1) now n(1)
        read_ptr_length [OF p(3)] sent p(4) b(1))
  then have "relay_call env c p Client_Writable (s, w) = Inr (s', ?w')" by (simp add: call_def handler_of_def)
  then show ?thesis using s'(2,3) n(1) len
    by (intro exI [of _ s'] exI [of _ ?w']) (simp add: others_same_def with_conn_def)
qed


lemma answered_partly:
  assumes "answered (s, w) c p text" "os_ok env" "moved env p Client_Writable (os_then env w) = bs" "bs \<noteq> []" "bs \<noteq> text"
  shows "\<exists>w' p'. relay_call env c p Client_Writable (s, w) = Inr (s, w') \<and>
    answered (s, w') c p' (drop (length bs) text) \<and> pc_client_fd p' = pc_client_fd p \<and> others_same c w w'"
proof -
  let ?key = "client_key c p" and ?st = "os_then env w" and ?b = "pc_origin_buffer p"
  have p: "w_conns w c = Some p" "sel_inv s" "buffer_inv ?b" "contents ?b = text" "\<not> invalid_fd (pc_client_fd p)"
      "pc_origin_status p = INACTIVE_STATUS" "pc_stm p = some_machine (Some 9)"
      "sel_entry s (nat (pc_client_fd p)) = Some (client_handler, OP_WRITE, Some (Connection c))"
    using assms(1) by (simp_all add: answered_def state_numbers)
  have m: "take (nat (fst (os_send (pe_os env) (pc_client_fd p) text ?st))) text = bs"
    using assms(3) unfolding moved.simps p(4) .
  obtain n st where n: "os_send (pe_os env) (pc_client_fd p) text ?st = (int n, st)" "0 < n" "n \<le> length text"
    by (rule sent_count [OF assms(2), of "pc_client_fd p" "text" ?st]) (simp_all only: m assms(4) not_False_eq_True)
  have bs: "bs = take n text" using m n(1) by simp
  then have len: "n < length text" "length bs = n" using assms(5) n(3) by (cases "n = length text"; simp)+
  obtain b2 where b: "buffer_read_adv ?b (int n) = Inr b2" "buffer_inv b2" "contents b2 = drop n text"
    using read_adv_spec [OF p(3), of n] p(4) n(3) by auto
  obtain now where now: "os_time (pe_os env) (w_os w) = (now, ?st)" using time_then by blast
  let ?p = "p\<lparr>pc_last_action_time := now, pc_origin_buffer := b2\<rparr>"
  let ?w = "w\<lparr>w_os := st, w_metrics := increase_bytes_received (word_of_int (int n)) (w_metrics w),
    w_conns := (w_conns w)(c \<mapsto> ?p)\<rparr>"
  have stm: "pc_stm ?p = \<lparr>sm_initial = 0, sm_max_state = 9, sm_current = Some 9\<rparr>" using p(7) by (simp add: some_machine_def)
  have can: "buffer_can_read b2" using b(2,3) len(1) by (simp add: can_read_iff)
  have e: "error_on_write_ready ?key (s, ?w) = Inr (9, (s, ?w))"
    using can by (simp add: error_on_write_ready_def client_key_def run_simps stm)
  have j: "jump (conn_cell c) (connection_states env ?key) 9 (s, ?w) = Inr (s, ?w)"
    by (rule jump_same [where p = ?p]) (simp_all add: p(7))
  have "event_write env ?key c (s, ?w) = Inr ((), (s, ?w))"
  proof -
    have row: "sd_on_write_ready (connection_states env ?key ! 9) = Some (error_on_write_ready ?key)"
      using table_at(10) [of env ?key] by (simp add: state_numbers conn_row_def)
    show ?thesis
      using event_at [where event = sd_on_write_ready, of ?w c ?p 9 env ?key, OF _ _ _ row] e j p(7)
      by (simp add: event_write_def stm_handler_write_def)
  qed
  moreover have sent: "take (length text) (drop (b_read ?b) (b_data ?b)) = text"
    using sent_bytes [OF p(3)] p(4) by simp
  ultimately have "proxy_client_write env ?key (s, w) = Inr ((), (s, ?w))"
    using n(2)
    by (simp add: proxy_client_write_def touch_def count_metric_def client_key_def run_simps p(1) now n(1)
        read_ptr_length [OF p(3)] sent p(4) b(1))
  then have "relay_call env c p Client_Writable (s, w) = Inr (s, ?w)" by (simp add: call_def handler_of_def)
  moreover have "answered (s, ?w) c ?p (drop (length bs) text)"
    using p b(2,3) len(2) by (simp add: answered_def state_numbers)
  ultimately show ?thesis by (intro exI [of _ ?w] exI [of _ ?p]) (simp add: others_same_def)
qed

section \<open>Lines in pieces\<close>

lemma drive_append:
  assumes "\<not> fin p"
  shows "drive feed fin p (xs @ ys) =
    bindR (drive feed fin p xs) (\<lambda>(q, rest). if fin q then Inr (q, rest @ ys) else drive feed fin q ys)"
  using assms
proof (induction xs arbitrary: p)
  case Nil
  then show ?case by simp
next
  case (Cons x xs)
  show ?case
  proof (cases "feed p x")
    case (Inr p')
    then show ?thesis using Cons.IH [of p'] by (cases "fin p'") simp_all
  qed simp
qed

lemma reads_go_on:
  assumes "relay_run env c sw es sw'" "os_ok env"
  shows "awaiting sw c p r \<Longrightarrow> \<forall>e \<in> set es. fst e = Client_Readable \<Longrightarrow>
    drive (feed_request env) request_fin r (bytes_of Client_Readable es) = Inr (q, rest) \<Longrightarrow> \<not> request_fin q \<Longrightarrow>
    \<exists>p'. awaiting sw' c p' q \<and> pc_client_fd p' = pc_client_fd p \<and> others_same c (snd sw) (snd sw') \<and>
      (fresh_origin (snd sw) p \<longrightarrow> fresh_origin (snd sw') p') \<and> fst sw' = fst sw"
  using assms(1)
proof (induction arbitrary: p r rule: relay_run.induct)
  case (relay_stop sw)
  then show ?case by (auto simp: others_same_def)
next
  case (relay_step sw p1 bs ev sw1 es sw2)
  obtain s w where sw: "sw = (s, w)" by fastforce
  have p: "p1 = p" "\<not> request_fin r" using relay_step.hyps(1) relay_step.prems(1) by (simp_all add: awaiting_def)
  have ev: "ev = Client_Readable" "\<forall>e \<in> set es. fst e = Client_Readable" using relay_step.prems(2) by auto
  obtain q1 rest1 where q1: "drive (feed_request env) request_fin r bs = Inr (q1, rest1)"
      "(if request_fin q1 then Inr (q1, rest1 @ bytes_of Client_Readable es)
        else drive (feed_request env) request_fin q1 (bytes_of Client_Readable es)) = Inr (q, rest)"
    using relay_step.prems(3) drive_append [where fin = request_fin, OF p(2)] by (auto simp: ev bindR_eq_Inr)
  have nf: "\<not> request_fin q1" using q1(2) relay_step.prems(4) by (auto split: if_splits)
  have m: "moved env p Client_Readable (os_then env w) = bs" using relay_step.hyps(2) p ev sw by simp
  obtain w' p' where w': "relay_call env c p Client_Readable (s, w) = Inr (s, w')" "awaiting (s, w') c p' q1"
      "pc_client_fd p' = pc_client_fd p" "others_same c w w'" "fresh_origin w p \<longrightarrow> fresh_origin w' p'"
    using awaiting_goes_on [OF relay_step.prems(1) [unfolded sw] assms(2) m relay_step.hyps(3) q1(1) nf] by blast
  have sw1: "sw1 = (s, w')" using relay_step.hyps(4) w'(1) by (simp add: sw p ev)
  show ?case
    using relay_step.IH [OF w'(2) [folded sw1] ev(2)] q1(2) nf relay_step.prems(4) w'(3-5)
    by (auto simp: sw1 sw others_same_def)
qed


section \<open>A client to try\<close>

text \<open>A connection that has just been accepted, and a client that sends the bytes of the state.\<close>

definition new_client :: proxy_connection where
  "new_client = (some_connection None)\<lparr>pc_origin_status := INACTIVE_STATUS\<rparr>"

definition typing_env :: "bytes penv" where
  "typing_env = some_env\<lparr>pe_os := some_os\<lparr>os_read := (\<lambda>fd n st. (Some (take n st), drop n st))\<rparr>\<rparr>"

definition client_world :: "bytes \<Rightarrow> bytes world" where
  "client_world bs = (some_world new_client)\<lparr>w_os := bs\<rparr>"

lemma typing_os_ok: "os_ok typing_env"
  by (auto simp: os_ok_def typing_env_def some_os_def some_env_def)

lemma initial_not_final: "\<not> request_fin (request_parser_init zero_request_parser)"
  by (simp add: request_fin_def request_failed_def request_parser_init_def)

lemma new_client_room: "buffer_room (pc_client_buffer new_client) = 8192"
  by (simp add: new_client_def buffer_room_def buffer_init_def buffer_reset_def)

lemma new_client_awaiting:
  "\<exists>s. awaiting (s, client_world bs) 0 new_client (request_parser_init zero_request_parser) \<and>
     sel_entry s = [5 \<mapsto> (client_handler, OP_READ, Some (Connection 0))]"
proof -
  have v: "\<not> invalid_fd 5" by (simp add: invalid_fd_def ITEMS_MAX_SIZE_def)
  obtain s where "sel_inv s" "sel_entry s = [5 \<mapsto> (client_handler, OP_READ, Some (Connection 0))]"
    using register_inv [OF empty_selector_inv(1), of sel_env_ok 5 "Some client_handler" OP_READ "Some (Connection 0)"]
      v empty_selector_inv(2) by auto
  then show ?thesis using v initial_not_final
    by (intro exI [of _ s])
      (auto simp: awaiting_def client_world_def new_client_def buffers_ok_def buffer_inv_init contents_def buffer_init_def buffer_reset_def
        buffer_inv_def)
qed

section \<open>Properties\<close>

text \<open>
  C15: A request line that is not acceptable is answered with the error of its kind, however its bytes arrive.
  Whatever the pieces in which a client sends it, the parser is where it would be after all the bytes at
  once; when the last piece brings it to an error, the handler returns with the line \<^verbatim>\<open>HTTP/1.0\<close>, the
  code and its reason in the buffer to the client, who is now watched for writing only. No other connection
  changes.
\<close>

theorem refused_line_answered:
  assumes "os_ok env" "awaiting sw c p r" "relay_run env c sw es sw1" "\<forall>e \<in> set es. fst e = Client_Readable"
    "drive (feed_request env) request_fin r (bytes_of Client_Readable es) = Inr (q1, rest1)" "\<not> request_fin q1"
    "w_conns (snd sw1) c = Some p1" "moved env p1 Client_Readable (os_then env (snd sw1)) = d" "d \<noteq> []"
    "drive (feed_request env) request_fin r (bytes_of Client_Readable es @ d) = Inr (q, rest)"
    "request_line_error (rp_state q) = Some code"
  shows "\<exists>sw2 p2. relay_call env c p1 Client_Readable sw1 = Inr sw2 \<and>
    answered sw2 c p2 (error_text code (reason_of code)) \<and> code \<in> {BAD_REQUEST, NOT_IMPLEMENTED, HTTP_VERSION_NOT_SUPPORTED} \<and>
    pc_client_fd p2 = pc_client_fd p \<and> others_same c (snd sw) (snd sw2)"
proof -
  obtain s1 w1 where sw1: "sw1 = (s1, w1)" by fastforce
  obtain p' where p': "awaiting sw1 c p' q1" "pc_client_fd p' = pc_client_fd p" "others_same c (snd sw) (snd sw1)"
    using reads_go_on [OF assms(3,1,2,4,5,6)] by blast
  have p1: "p' = p1" using p'(1) assms(7) by (simp add: awaiting_def)
  have "\<not> request_fin r" using assms(2) by (simp add: awaiting_def)
  then have d: "drive (feed_request env) request_fin q1 d = Inr (q, rest)"
    using assms(10) assms(5,6) drive_append [where fin = request_fin] by auto
  obtain s2 w2 p2 where "relay_call env c p1 Client_Readable (s1, w1) = Inr (s2, w2)"
      "answered (s2, w2) c p2 (error_text code (reason_of code))" "pc_client_fd p2 = pc_client_fd p1" "others_same c w1 w2"
    using awaiting_refused [OF p'(1) [unfolded p1 sw1] assms(1) _ assms(9) d assms(11)] assms(8) sw1 by auto
  then show ?thesis using p'(2,3) p1 error_codes [OF assms(11)]
    by (intro exI [of _ "(s2, w2)"] exI [of _ p2]) (auto simp: sw1 others_same_def)
qed

text \<open>
  C14: The reply is sent whole, and then the connection is over. Each time the client takes bytes, what it
  takes is the front of what is left of the reply. When nothing is left, the handler has freed the connection, closed its
  descriptor after the last \<^verbatim>\<open>send\<close>, and removed it from the selector, with no other
  connection changed.
\<close>

theorem reply_sent_then_closed:
  assumes "os_ok env" "answered (s, w) c p reply" "moved env p Client_Writable (os_then env w) = bs" "bs \<noteq> []"
  shows "\<exists>rest. reply = bs @ rest \<and> (\<exists>s' w'. relay_call env c p Client_Writable (s, w) = Inr (s', w') \<and> others_same c w w' \<and>
    (if rest \<noteq> [] then s' = s \<and> (\<exists>p'. answered (s, w') c p' rest \<and> pc_client_fd p' = pc_client_fd p)
     else w_conns w' c = None \<and> sel_inv s' \<and> sel_entry s' = (sel_entry s)(nat (pc_client_fd p) := None) \<and>
       (\<exists>st. os_send (pe_os env) (pc_client_fd p) reply (os_then env w) = (int (length reply), st) \<and>
          w_os w' = os_close (pe_os env) (pc_client_fd p) st)))"
proof -
  have "contents (pc_origin_buffer p) = reply" using assms(2) by (simp add: answered_def)
  then have "bs = take (nat (fst (os_send (pe_os env) (pc_client_fd p) reply (os_then env w)))) reply"
    using assms(3) by (simp add: length_contents)
  then have rest: "reply = bs @ drop (length bs) reply" by (metis append_take_drop_id length_take min.commute take_take append_eq_conv_conj)
  show ?thesis
  proof (cases "bs = reply")
    case True
    then show ?thesis using answered_written [OF assms(2,1,3) [unfolded True]] assms(4) by auto
  next
    case False
    then have "drop (length bs) reply \<noteq> []" using rest by (metis append_Nil2)
    then show ?thesis using answered_partly [OF assms(2,1,3,4) False] rest
      by (intro exI [of _ "drop (length bs) reply"]) auto
  qed
qed

text \<open>The client sends \<^verbatim>\<open>G\<close> and then a zero byte, which no method has.\<close>

theorem refused_line_answered_witness:
  "\<exists>s sw2 p2. relay_call typing_env 0 new_client Client_Readable (s, client_world [71, 0]) = Inr sw2 \<and>
     answered sw2 0 p2 (error_text NOT_IMPLEMENTED (reason_of NOT_IMPLEMENTED))"
proof -
  let ?r = "request_parser_init zero_request_parser" and ?w = "client_world [71, 0]"
    and ?q = "(st_method [71])\<lparr>rp_state := request_error_unsupported_method\<rparr>"
  obtain s where s: "awaiting (s, ?w) 0 new_client ?r" using new_client_awaiting by blast
  have tok: "is_token (71 :: u8)" "\<not> is_token (0 :: u8)" "(0 :: u8) \<noteq> SP" by (simp_all add: is_token_def is_digit_def is_alpha_def)
  have f: "feed_request typing_env (st_method []) 71 = Inr (st_method [71])"
      "feed_request typing_env (st_method [71]) 0 = Inr ?q"
    using feed_method(1) [of "[]" 71 "pe_pton4 typing_env" "pe_pton6 typing_env"]
      feed_method(3) [of "[71]" 0 "pe_pton4 typing_env" "pe_pton6 typing_env"] tok by (simp_all only: list.set) simp_all
  have d: "drive (feed_request typing_env) request_fin ?r [71, 0] = Inr (?q, [])"
    unfolding init_is_st_method drive.simps f by (simp add: f request_fin_def request_failed_def) (simp add: st_method_def)
  have m: "moved typing_env new_client Client_Readable (os_then typing_env ?w) = [71, 0]"
    unfolding moved.simps new_client_room by (simp add: typing_env_def os_then_def some_os_def client_world_def)
  have "\<exists>sw2 p2. relay_call typing_env 0 new_client Client_Readable (s, ?w) = Inr sw2 \<and>
      answered sw2 0 p2 (error_text NOT_IMPLEMENTED (reason_of NOT_IMPLEMENTED)) \<and>
      NOT_IMPLEMENTED \<in> {BAD_REQUEST, NOT_IMPLEMENTED, HTTP_VERSION_NOT_SUPPORTED} \<and>
      pc_client_fd p2 = pc_client_fd new_client \<and> others_same 0 (snd (s, ?w)) (snd sw2)"
    by (rule refused_line_answered [OF typing_os_ok s relay_stop, where q = ?q and ?rest1.0 = "[]" and ?q1.0 = ?r and rest = "[]" and d = "[71, 0]" and ?p1.0 = new_client])
      (use d m initial_not_final in \<open>simp_all add: client_world_def request_line_error_def bytes_of_def del: drive.simps(2) moved.simps\<close>)
  then show ?thesis by blast
qed

text \<open>A client that takes the two bytes left for it.\<close>

definition refused_client :: proxy_connection where
  "refused_client = (some_connection (Some ERROR))\<lparr>pc_origin_status := INACTIVE_STATUS,
     pc_origin_buffer := \<lparr>b_data = [79, 75], b_limit = 2, b_read = 0, b_write = 2\<rparr>\<rparr>"

theorem reply_sent_then_closed_witness:
  "\<exists>s s' w'. answered (s, some_world refused_client) 0 refused_client [79, 75] \<and>
     relay_call some_env 0 refused_client Client_Writable (s, some_world refused_client) = Inr (s', w') \<and> w_conns w' 0 = None"
proof -
  have v: "\<not> invalid_fd 5" by (simp add: invalid_fd_def ITEMS_MAX_SIZE_def)
  obtain s where "sel_inv s" "sel_entry s = [5 \<mapsto> (client_handler, OP_WRITE, Some (Connection 0))]"
    using register_inv [OF empty_selector_inv(1), of sel_env_ok 5 "Some client_handler" OP_WRITE "Some (Connection 0)"]
      v empty_selector_inv(2) by auto
  then have a: "answered (s, some_world refused_client) 0 refused_client [79, 75]"
    using v by (simp add: answered_def refused_client_def buffer_inv_def contents_def)
  have "contents (pc_origin_buffer refused_client) = [79, 75]" by (simp add: refused_client_def contents_def)
  then have m: "moved some_env refused_client Client_Writable (os_then some_env (some_world refused_client)) = [79, 75]"
    by (simp add: some_os_def)
  show ?thesis using reply_sent_then_closed [OF some_os_ok a m] a by auto
qed

end
