(* ===== verification/Closing.thy ===== *)
theory Closing
  imports Requests
begin

text \<open>
  The end of a relay: one side has ended its stream and is owed nothing more, the other goes on; then the
  other ends its stream too, what is left in the buffers is sent, and the connection is freed.
\<close>

section \<open>The end of a stream\<close>

text \<open>\<^verbatim>\<open>read\<close> delivers 0.\<close>

fun eof :: "'o penv \<Rightarrow> proxy_connection \<Rightarrow> relay_event \<Rightarrow> 'o \<Rightarrow> bool" where
  "eof env p Client_Readable st \<longleftrightarrow> fst (os_read (pe_os env) (pc_client_fd p) (buffer_room (pc_client_buffer p)) st) = Some []"
| "eof env p Origin_Readable st \<longleftrightarrow> fst (os_read (pe_os env) (pc_origin_fd p) (buffer_room (pc_origin_buffer p)) st) = Some []"
| "eof env p _ st \<longleftrightarrow> False"

fun ended :: "relay_event \<Rightarrow> int \<Rightarrow> proxy_connection \<Rightarrow> proxy_connection" where
  "ended Client_Readable now p = p\<lparr>pc_last_action_time := now, pc_client_status := CLOSING_STATUS\<rparr>"
| "ended Origin_Readable now p = p\<lparr>pc_last_action_time := now, pc_origin_status := CLOSING_STATUS\<rparr>"
| "ended _ now p = p"

lemma eof_moves:
  assumes "moving env c p w" "eof env p ev (os_then env w)"
  obtains now where "relay_call env c p ev (s, w) = bindR (state_event env c p ev
      (s, with_conn c (ended ev now p) (w\<lparr>w_os := moved_os env p ev (os_then env w)\<rparr>))) (\<lambda>(_, sw). Inr sw)"
proof -
  let ?st = "os_then env w"
  obtain n now where p: "w_conns w c = Some p" "buffer_inv (pc_client_buffer p)" "buffer_inv (pc_origin_buffer p)"
    "pc_stm p = \<lparr>sm_initial = 0, sm_max_state = 9, sm_current = Some n\<rparr>" "5 \<le> n" "n < 10"
    "os_time (pe_os env) (w_os w) = (now, ?st)" by (rule movingE [OF assms(1)])
  show thesis
  proof (cases ev)
    case Client_Readable
    then obtain st' where r: "os_read (pe_os env) (pc_client_fd p) (buffer_room (pc_client_buffer p)) ?st = (Some [], st')"
      using assms(2) by (cases "os_read (pe_os env) (pc_client_fd p) (buffer_room (pc_client_buffer p)) ?st") auto
    have "proxy_client_read env (client_key c p) (s, w) =
        event_read env (client_key c p) c (s, with_conn c (ended ev now p) (w\<lparr>w_os := st'\<rparr>))"
      using p(5) Client_Readable
      by (simp add: proxy_client_read_def touch_def client_key_def run_simps p(1,4,6,7) r write_ptr_room [OF p(2)] state_numbers with_conn_def)
    then show thesis using that [of now] Client_Readable r by (simp add: call_def handler_of_def)
  next
    case Origin_Readable
    then obtain st' where r: "os_read (pe_os env) (pc_origin_fd p) (buffer_room (pc_origin_buffer p)) ?st = (Some [], st')"
      using assms(2) by (cases "os_read (pe_os env) (pc_origin_fd p) (buffer_room (pc_origin_buffer p)) ?st") auto
    have "proxy_origin_read env (origin_key c p) (s, w) =
        event_read env (origin_key c p) c (s, with_conn c (ended ev now p) (w\<lparr>w_os := st'\<rparr>))"
      using p(5) Origin_Readable
      by (simp add: proxy_origin_read_def touch_def origin_key_def run_simps p(1,4,6,7) r write_ptr_room [OF p(3)] state_numbers with_conn_def)
    then show thesis using that [of now] Origin_Readable r by (simp add: call_def handler_of_def)
  qed (use assms(2) in auto)
qed

section \<open>One side has ended its stream\<close>

text \<open>
  \<open>og\<close> tells whether it is the origin. What is left for its peer, what is left for itself, and the two
  statuses: of the side that goes on, and its own.
\<close>

definition left_for_peer :: "bool \<Rightarrow> proxy_connection \<Rightarrow> bytes" where
  "left_for_peer og p = contents (if og then pc_origin_buffer p else pc_client_buffer p)"

definition back_to :: "bool \<Rightarrow> proxy_connection \<Rightarrow> buffer" where
  "back_to og p = (if og then pc_client_buffer p else pc_origin_buffer p)"

definition statuses :: "bool \<Rightarrow> proxy_connection \<Rightarrow> connection_status \<times> connection_status" where
  "statuses og p = (if og then (pc_client_status p, pc_origin_status p) else (pc_origin_status p, pc_client_status p))"

definition peer_fd :: "bool \<Rightarrow> proxy_connection \<Rightarrow> int" where
  "peer_fd og p = (if og then pc_client_fd p else pc_origin_fd p)"

definition half_interests :: "bool \<Rightarrow> proxy_connection \<Rightarrow> fd_interest \<times> fd_interest" where
  "half_interests og p =
     (let peer = (if 0 < buffer_room (back_to og p) then OP_READ else OP_NOOP) OR (if left_for_peer og p \<noteq> [] then OP_WRITE else OP_NOOP);
          own = (if contents (back_to og p) \<noteq> [] then OP_WRITE else OP_NOOP)
      in if og then (peer, own) else (own, peer))"

definition half_closed :: "bool \<Rightarrow> 'o psys \<Rightarrow> nat \<Rightarrow> proxy_connection \<Rightarrow> bool" where
  "half_closed og sw c p \<longleftrightarrow>
     sel_inv (fst sw) \<and> w_conns (snd sw) c = Some p \<and> pc_stm p = some_machine (Some CLOSING) \<and> buffers_ok p \<and>
     statuses og p = (ACTIVE_STATUS, if left_for_peer og p = [] then CLOSED_STATUS else CLOSING_STATUS) \<and>
     linked (fst sw) c p (half_interests og p)"

text \<open>What the state \<open>CLOSING\<close> does: the peer is told of the end once nothing is left for it.\<close>

definition settled :: "bool \<Rightarrow> proxy_connection \<Rightarrow> proxy_connection" where
  "settled og p =
     (if og then p\<lparr>pc_client_status := pc_client_status p,
                   pc_origin_status := if left_for_peer og p = [] then CLOSED_STATUS else pc_origin_status p\<rparr>
      else p\<lparr>pc_client_status := if left_for_peer og p = [] then CLOSED_STATUS else pc_client_status p,
             pc_origin_status := pc_origin_status p\<rparr>)"

definition tells :: "bool \<Rightarrow> proxy_connection \<Rightarrow> bool" where
  "tells og p \<longleftrightarrow> left_for_peer og p = [] \<and> snd (statuses og p) = CLOSING_STATUS"

definition shut :: "'o penv \<Rightarrow> bool \<Rightarrow> proxy_connection \<Rightarrow> 'o \<Rightarrow> 'o" where
  "shut env og p st =
     (if tells og p then os_shutdown (pe_os env) (peer_fd og p) st else st)"

lemma settled_simps [simp]:
  "pc_stm (settled og p) = pc_stm p" "pc_client_buffer (settled og p) = pc_client_buffer p"
  "pc_origin_buffer (settled og p) = pc_origin_buffer p" "pc_client_fd (settled og p) = pc_client_fd p"
  "pc_origin_fd (settled og p) = pc_origin_fd p" "left_for_peer og (settled og p) = left_for_peer og p"
  "back_to og (settled og p) = back_to og p" "half_interests og (settled og p) = half_interests og p"
  "buffers_ok (settled og p) = buffers_ok p"
  by (simp_all add: settled_def left_for_peer_def back_to_def half_interests_def buffers_ok_def)

lemma closing_value:
  assumes "buffers_ok p" "fst (statuses og p) = ACTIVE_STATUS"
    "snd (statuses og p) = CLOSING_STATUS \<or> snd (statuses og p) = CLOSED_STATUS \<and> left_for_peer og p = []"
  shows "client_closing_step (pc_origin_buffer p) (pc_client_buffer p)
      (origin_closing_step (pc_origin_buffer p) (pc_client_buffer p) (closing_start p)) =
    \<lparr>cl_client_interest = fst (half_interests og p), cl_origin_interest = snd (half_interests og p),
     cl_client_status = pc_client_status (settled og p), cl_origin_status = pc_origin_status (settled og p),
     cl_shut_client = (og \<and> tells og p),
     cl_shut_origin = (\<not> og \<and> tells og p)\<rparr>"
proof -
  have b: "buffer_can_read (pc_client_buffer p) \<longleftrightarrow> contents (pc_client_buffer p) \<noteq> []"
    "buffer_can_read (pc_origin_buffer p) \<longleftrightarrow> contents (pc_origin_buffer p) \<noteq> []"
    using assms(1) by (simp_all add: buffers_ok_def can_read_iff)
  show ?thesis
    using assms(2,3)
    by (cases og; elim disjE conjE; cases "contents (pc_origin_buffer p) = []"; cases "contents (pc_client_buffer p) = []")
      (simp_all add: closing_start_def origin_closing_step_def client_closing_step_def b can_write_iff statuses_def
        left_for_peer_def back_to_def half_interests_def settled_def tells_def OP_NOOP_def Let_def)
qed

lemma settled_statuses:
  "settled og p = p\<lparr>pc_client_status := pc_client_status (settled og p), pc_origin_status := pc_origin_status (settled og p)\<rparr>"
  by (simp add: settled_def)

lemma closing_set:
  assumes "sel_inv s" "linked s c p n" "w_conns w c = Some p" "buffers_ok p" "fst (statuses og p) = ACTIVE_STATUS"
    "snd (statuses og p) = CLOSING_STATUS \<or> snd (statuses og p) = CLOSED_STATUS \<and> left_for_peer og p = []"
  shows "\<exists>s'. set_closing_connection_interests env c (s, w) =
      Inr ((), (s', with_conn c (settled og p) (w\<lparr>w_os := shut env og p (w_os w)\<rparr>))) \<and>
    sel_inv s' \<and> linked s' c (settled og p) (half_interests og p) \<and>
    statuses og (settled og p) = (ACTIVE_STATUS, if left_for_peer og p = [] then CLOSED_STATUS else CLOSING_STATUS)"
proof -
  let ?w = "with_conn c (settled og p) (w\<lparr>w_os := shut env og p (w_os w)\<rparr>)"
  obtain s' where s': "set_interests c (fst (half_interests og p)) (snd (half_interests og p)) (s, ?w) = Inr ((), (s', ?w))"
      "sel_inv s'" "linked s' c (settled og p) (half_interests og p)"
    using set_interests_linked [OF assms(1) linked_frame [OF assms(2), of "settled og p"],
        of ?w "fst (half_interests og p)" "snd (half_interests og p)"] by auto
  have st: "statuses og (settled og p) = (ACTIVE_STATUS, if left_for_peer og p = [] then CLOSED_STATUS else CLOSING_STATUS)"
    using assms(5,6) by (auto simp: statuses_def settled_def left_for_peer_def split: if_splits)
  have "set_closing_connection_interests env c (s, w) = Inr ((), (s', ?w))"
    using s'(1) assms(3)
    by (cases "tells og p"; cases og)
      (simp_all add: set_closing_connection_interests_def apply_closing_def run_simps closing_value [OF assms(4-6)] shut_def peer_fd_def
        with_conn_def flip: settled_statuses)
  then show ?thesis using s' st by blast
qed

text \<open>The end of a stream takes a relay to the state \<open>CLOSING\<close>.\<close>

definition half_closed_after :: "'o penv \<Rightarrow> bool \<Rightarrow> proxy_connection \<Rightarrow> 'o psys \<Rightarrow> nat \<Rightarrow> 'o world \<Rightarrow> bool" where
  "half_closed_after env og p sw c w \<longleftrightarrow>
     (\<exists>q. half_closed og sw c q \<and> pc_client_fd q = pc_client_fd p \<and> pc_origin_fd q = pc_origin_fd p \<and>
        pc_client_buffer q = pc_client_buffer p \<and> pc_origin_buffer q = pc_origin_buffer p \<and>
        snd sw = with_conn c q (w\<lparr>w_os := shut env og p (w_os w)\<rparr>))"

lemma closing_settles:
  assumes "sel_inv s" "linked s c p n" "w_conns w c = Some p" "buffers_ok p" "fst (statuses og p) = ACTIVE_STATUS"
    "snd (statuses og p) = CLOSING_STATUS \<or> snd (statuses og p) = CLOSED_STATUS \<and> left_for_peer og p = []"
    "pc_stm p = some_machine (Some CLOSING)"
  shows "\<exists>sw'. set_closing_connection_interests env c (s, w) = Inr ((), sw') \<and> half_closed_after env og p sw' c w \<and>
    (\<forall>n. w_conns (snd sw') c = Some n \<longrightarrow> pc_stm n = some_machine (Some CLOSING))"
proof -
  obtain s' where s': "set_closing_connection_interests env c (s, w) =
        Inr ((), (s', with_conn c (settled og p) (w\<lparr>w_os := shut env og p (w_os w)\<rparr>)))"
      "sel_inv s'" "linked s' c (settled og p) (half_interests og p)"
      "statuses og (settled og p) = (ACTIVE_STATUS, if left_for_peer og p = [] then CLOSED_STATUS else CLOSING_STATUS)"
    using closing_set [OF assms(1-6)] by blast
  have "half_closed og (s', with_conn c (settled og p) (w\<lparr>w_os := shut env og p (w_os w)\<rparr>)) c (settled og p)"
    using s' assms(4,7) by (simp add: half_closed_def)
  then show ?thesis using s'(1) assms(7)
    by (intro exI [of _ "(s', with_conn c (settled og p) (w\<lparr>w_os := shut env og p (w_os w)\<rparr>))"])
      (auto simp: half_closed_after_def intro!: exI [of _ "settled og p"])
qed

lemma relay_half_closes:
  assumes "relay_ok (s, w) c p" "os_ok env" "eof env p ev (os_then env w)" "og = (ev = Origin_Readable)" "quiet p"
  shows "\<exists>sw'. relay_call env c p ev (s, w) = Inr sw' \<and>
    half_closed_after env og (ended ev 0 p) sw' c (w\<lparr>w_os := moved_os env p ev (os_then env w)\<rparr>)"
proof -
  note p = relay_okD [OF assms(1)]
  let ?w = "w\<lparr>w_os := moved_os env p ev (os_then env w)\<rparr>"
  have "moving env c p w" using assms(2) p by (auto simp: moving_def buffers_ok_def state_numbers)
  then obtain now where call: "relay_call env c p ev (s, w) = bindR (state_event env c p ev
      (s, with_conn c (ended ev now p) ?w)) (\<lambda>(_, sw). Inr sw)"
    using eof_moves [OF _ assms(3)] by blast
  let ?p = "ended ev now p" and ?key = "event_key c p ev"
  have ev: "ev = Client_Readable \<or> ev = Origin_Readable" using assms(3) by (cases ev) auto
  have q: "pc_stm ?p = some_machine (Some 5)" "quiet ?p" "pc_client_status ?p = CLOSING_STATUS \<or> pc_origin_status ?p = CLOSING_STATUS"
    using ev p(4) assms(5) by (auto simp: relaying_def in_state_def some_machine_def state_numbers quiet_def)
  obtain fd where key: "?key = \<lparr>key_fd = fd, key_data = Some (Connection c)\<rparr>" using ev by (auto simp: client_key_def origin_key_def)
  have "connected_on_read_ready env ?key (s, with_conn c ?p ?w) = Inr (6, (s, with_conn c ?p ?w))"
    using q by (auto simp: connected_on_read_ready_def key run_simps quiet_def with_conn_def state_numbers)
  moreover have row: "sd_on_read_ready (connection_states env ?key ! 5) = Some (connected_on_read_ready env ?key)"
    using table_at(6) [of env ?key] by (simp add: state_numbers conn_row_def)
  moreover have "state_event env c p ev = event_read env ?key c" using ev by auto
  moreover have "jump (conn_cell c) (connection_states env ?key) 6 (s, with_conn c ?p ?w) =
      bindR (set_closing_connection_interests env c (s, with_conn c (at_state 6 ?p) ?w)) (\<lambda>(_, sw). Inr sw)"
    by (subst jump_to [where p = ?p and n = 5])
      (use q(1) table_at(7) [of env ?key] in \<open>simp_all add: state_numbers arrive_row closing_on_arrival_def key run_simps\<close>)
  ultimately have run: "relay_call env c p ev (s, w) =
      bindR (set_closing_connection_interests env c (s, with_conn c (at_state 6 ?p) ?w)) (\<lambda>(_, sw). Inr sw)"
    using event_at [where event = sd_on_read_ready, of "with_conn c ?p ?w" c ?p 5 env ?key, OF _ q(1) _ row]
    by (simp add: call event_read_def stm_handler_read_def bindR_assoc case_prod_unfold)
  have l: "linked s c (at_state 6 ?p) (connected_interests (pc_origin_buffer p) (pc_client_buffer p))"
    by (rule linked_frame [OF p(3)]) (use ev in auto)
  have b: "buffers_ok (at_state 6 ?p)" "pc_stm (at_state 6 ?p) = some_machine (Some CLOSING)"
      "fst (statuses og (at_state 6 ?p)) = ACTIVE_STATUS" "snd (statuses og (at_state 6 ?p)) = CLOSING_STATUS"
    using ev p(4) assms(4) by (auto simp: buffers_ok_def relaying_def statuses_def state_numbers)
  obtain sw' where "set_closing_connection_interests env c (s, with_conn c (at_state 6 ?p) ?w) = Inr ((), sw')"
      "half_closed_after env og (at_state 6 ?p) sw' c (with_conn c (at_state 6 ?p) ?w)"
    using closing_settles [OF p(2) l _ b(1,3) _ b(2), of "with_conn c (at_state 6 ?p) ?w" env] b(4) by auto
  moreover have "shut env og (at_state 6 ?p) st = shut env og (ended ev 0 p) st" for st
    using ev by (auto simp: shut_def tells_def left_for_peer_def statuses_def peer_fd_def)
  ultimately show ?thesis unfolding run
    by (intro exI [of _ sw']) (use ev in \<open>auto simp: half_closed_after_def\<close>)
qed

section \<open>The other side goes on\<close>

definition readable_of :: "bool \<Rightarrow> relay_event" where
  "readable_of og = (if og then Origin_Readable else Client_Readable)"

lemma event_key_fd: "event_key c p ev = \<lparr>key_fd = (if ev = Client_Readable \<or> ev = Client_Writable then pc_client_fd p else pc_origin_fd p),
    key_data = Some (Connection c)\<rparr>"
  by (cases ev) (simp_all add: client_key_def origin_key_def)

lemma state_event_read: "ev = Client_Readable \<or> ev = Origin_Readable \<Longrightarrow> state_event env c p ev = event_read env (event_key c p ev) c"
  by auto

lemma state_event_write: "ev = Client_Writable \<or> ev = Origin_Writable \<Longrightarrow> state_event env c p ev = event_write env (event_key c p ev) c"
  by auto

text \<open>An event of the state \<open>CLOSING\<close> whose function settles the two sides.\<close>

lemma closing_event:
  assumes "sel_inv s" "linked s c q n" "w_conns w c = Some q" "buffers_ok q" "fst (statuses og q) = ACTIVE_STATUS"
    "snd (statuses og q) = CLOSING_STATUS \<or> snd (statuses og q) = CLOSED_STATUS \<and> left_for_peer og q = []"
    "pc_stm q = some_machine (Some CLOSING)" "ev \<noteq> readable_of og" "pc_client_fd q = pc_client_fd p" "pc_origin_fd q = pc_origin_fd p"
  shows "\<exists>sw'. state_event env c p ev (s, w) = Inr ((), sw') \<and> half_closed_after env og q sw' c w"
proof -
  obtain s' w' where sw': "set_closing_connection_interests env c (s, w) = Inr ((), (s', w'))"
      "half_closed_after env og q (s', w') c w" "\<forall>n. w_conns w' c = Some n \<longrightarrow> pc_stm n = some_machine (Some CLOSING)"
    using closing_settles [OF assms(1-7), of env] by auto
  obtain q' where q': "w_conns w' c = Some q'" "pc_stm q' = some_machine (Some 6)"
    using sw'(2,3) by (auto simp: half_closed_after_def state_numbers)
  have six: "conn_state c (s', w') = Inr (6, (s', w'))"
    using run_conn_state [OF q'(1), of 6] q'(2) by (simp add: some_machine_def)
  have ne: "pc_origin_fd p \<noteq> pc_client_fd p" using assms(2,9,10) by (auto simp: linked_def)
  let ?key = "event_key c p ev"
  have q: "pc_stm q = some_machine (Some 6)" using assms(7) by (simp add: state_numbers)
  note stay = jump_same [OF q' , of env ?key s', simplified]
  show ?thesis
  proof (cases "ev = Client_Readable \<or> ev = Origin_Readable")
    case True
    have "closing_on_read_ready env ?key (s, w) = Inr (6, (s', w'))"
      using True assms(3,5,8-10) sw'(1) six ne
      by (auto simp: closing_on_read_ready_def event_key_fd run_simps statuses_def readable_of_def split: if_splits)
    moreover have "sd_on_read_ready (connection_states env ?key ! 6) = Some (closing_on_read_ready env ?key)"
      using table_at(7) [of env ?key] by (simp add: state_numbers conn_row_def)
    ultimately have "event_read env ?key c (s, w) = Inr ((), (s', w'))"
      using event_at [where event = sd_on_read_ready, OF assms(3) q] stay by (simp add: event_read_def stm_handler_read_def)
    then show ?thesis using sw'(2) state_event_read [OF True, of env c p] by auto
  next
    case False
    then have wr: "ev = Client_Writable \<or> ev = Origin_Writable" by (cases ev) auto
    have "closing_on_write_ready env ?key (s, w) = Inr (6, (s', w'))"
      using sw'(1) six by (simp add: closing_on_write_ready_def event_key_fd run_simps)
    moreover have "sd_on_write_ready (connection_states env ?key ! 6) = Some (closing_on_write_ready env ?key)"
      using table_at(7) [of env ?key] by (simp add: state_numbers conn_row_def)
    ultimately have "event_write env ?key c (s, w) = Inr ((), (s', w'))"
      using event_at [where event = sd_on_write_ready, OF assms(3) q] stay by (simp add: event_write_def stm_handler_write_def)
    then show ?thesis using sw'(2) state_event_write [OF wr, of env c p] by auto
  qed
qed

lemma half_closed_moving: "half_closed og (s, w) c p \<Longrightarrow> os_ok env \<Longrightarrow> moving env c p w"
  by (auto simp: half_closed_def moving_def some_machine_def state_numbers)

lemma same_statuses: "same_but_buffers p p' \<Longrightarrow> statuses og p' = statuses og p"
  by (simp add: same_but_buffers_def statuses_def)

text \<open>The bytes for the peer of a side that has ended only get fewer.\<close>

lemma left_shrinks:
  assumes "bytes_moved ev bs p p'" "ev \<noteq> readable_of og" "left_for_peer og p = []"
  shows "left_for_peer og p' = []"
  using assms by (cases ev) (auto simp: bytes_moved_def left_for_peer_def readable_of_def split: if_splits)

lemma half_closed_event:
  assumes "half_closed og (s, w) c p" "os_ok env" "moved env p ev (os_then env w) = bs" "bs \<noteq> []" "ev \<noteq> readable_of og"
  shows "\<exists>sw' p'. relay_call env c p ev (s, w) = Inr sw' \<and> bytes_moved ev bs p p' \<and>
    half_closed_after env og p' sw' c (after_move env p ev bs w)"
proof -
  obtain p' where p': "bytes_moved ev bs p p'"
      "relay_call env c p ev (s, w) = bindR (state_event env c p ev (s, with_conn c p' (after_move env p ev bs w))) (\<lambda>(_, sw). Inr sw)"
    using event_moves [OF half_closed_moving [OF assms(1,2)] assms(3,4)] unfolding continues_def fst_conv snd_conv by blast
  have same: "same_but_buffers p p'" "buffers_ok p'" using p'(1) by (simp_all add: bytes_moved_def)
  have h: "sel_inv s" "linked s c p (half_interests og p)" "pc_stm p = some_machine (Some CLOSING)"
      "statuses og p = (ACTIVE_STATUS, if left_for_peer og p = [] then CLOSED_STATUS else CLOSING_STATUS)"
    using assms(1) by (simp_all add: half_closed_def)
  obtain sw' where "state_event env c p ev (s, with_conn c p' (after_move env p ev bs w)) = Inr ((), sw')"
      "half_closed_after env og p' sw' c (with_conn c p' (after_move env p ev bs w))"
    using closing_event [OF h(1) linked_frame [OF h(2)] _ same(2), of "with_conn c p' (after_move env p ev bs w)" og ev p env]
      left_shrinks [OF p'(1) assms(5)] assms(5) same(1) h(3,4) same_statuses [OF same(1), of og]
    by (auto simp: same_but_buffers_def split: if_splits)
  then show ?thesis using p'
    by (intro exI [of _ sw'] exI [of _ p']) (auto simp: half_closed_after_def)
qed

section \<open>The end of the connection\<close>

definition freed :: "'o penv \<Rightarrow> 'o psys \<Rightarrow> nat \<Rightarrow> proxy_connection \<Rightarrow> 'o psys \<Rightarrow> bool" where
  "freed env sw c p sw' \<longleftrightarrow>
     sel_inv (fst sw') \<and>
     sel_entry (fst sw') = (sel_entry (fst sw))(nat (pc_client_fd p) := None, nat (pc_origin_fd p) := None) \<and>
     w_conns (snd sw') = (w_conns (snd sw))(c := None) \<and> w_metrics (snd sw') = w_metrics (snd sw) \<and>
     w_os (snd sw') = os_close (pe_os env) (pc_client_fd p) (os_close (pe_os env) (pc_origin_fd p) (w_os (snd sw)))"

lemma unregister_origin:
  assumes "sel_inv s" "\<not> invalid_fd fd" "sel_entry s (nat fd) = Some (origin_handler, n, Some (Connection c))"
  shows "\<exists>s'. unregister_fd env fd (s, w) = Inr (SELECTOR_SUCCESS, (s', w\<lparr>w_os := os_close (pe_os env) fd (w_os w)\<rparr>)) \<and>
    sel_inv s' \<and> sel_entry s' = (sel_entry s)(nat fd := None)"
proof -
  have "close_item (call_close env) origin_handler \<lparr>key_fd = fd, key_data = Some (Connection c)\<rparr> (s, w) =
      Inr (s, w\<lparr>w_os := os_close (pe_os env) fd (w_os w)\<rparr>)"
    by (simp add: close_item_def origin_handler_def call_close_def proxy_origin_close_def run_simps)
  from unregister_inv [OF assms this] show ?thesis by (auto simp: unregister_fd_def)
qed

lemma done_frees:
  assumes "sel_inv s" "linked s c p n" "w_conns w c = Some p" "pc_origin_status p \<noteq> INACTIVE_STATUS"
    "key_data key = Some (Connection c)"
  shows "\<exists>sw'. arrive_at (connection_states env key ! DONE) (s, w) = Inr sw' \<and> freed env (s, w) c p sw'"
proof -
  obtain fd where key: "key = \<lparr>key_fd = fd, key_data = Some (Connection c)\<rparr>" using assms(5) by (cases key) simp
  let ?w = "w\<lparr>w_os := os_close (pe_os env) (pc_origin_fd p) (w_os w)\<rparr>"
  have ne: "nat (pc_client_fd p) \<noteq> nat (pc_origin_fd p)" using assms(2) by (auto simp: linked_def invalid_fd_def)
  obtain s1 where s1: "unregister_fd env (pc_origin_fd p) (s, w) = Inr (SELECTOR_SUCCESS, (s1, ?w))" "sel_inv s1"
      "sel_entry s1 = (sel_entry s)(nat (pc_origin_fd p) := None)"
    using unregister_origin [OF assms(1), of "pc_origin_fd p" "snd n" c env w] assms(2) by (auto simp: linked_def)
  obtain s2 where s2: "unregister_fd env (pc_client_fd p) (s1, ?w) = Inr (SELECTOR_SUCCESS,
        (s2, ?w\<lparr>w_os := os_close (pe_os env) (pc_client_fd p) (w_os ?w), w_conns := (w_conns w)(c := None)\<rparr>))" "sel_inv s2"
      "sel_entry s2 = (sel_entry s1)(nat (pc_client_fd p) := None)"
    using unregister_client [OF s1(2), of "pc_client_fd p" "fst n" c ?w p env] assms(2,3) s1(3) ne by (auto simp: linked_def)
  have "arrive_at (connection_states env key ! DONE) (s, w) =
      Inr (s2, ?w\<lparr>w_os := os_close (pe_os env) (pc_client_fd p) (w_os ?w), w_conns := (w_conns w)(c := None)\<rparr>)"
    using s1(1) s2(1) assms(3,4) by (simp add: table_at arrive_row done_on_arrival_def key run_simps)
  then show ?thesis using s1(3) s2(2,3) by (auto simp: freed_def fun_upd_twist [OF ne])
qed

section \<open>Both sides have ended their streams\<close>

definition emptying :: "'o psys \<Rightarrow> nat \<Rightarrow> proxy_connection \<Rightarrow> bool" where
  "emptying sw c p \<longleftrightarrow>
     sel_inv (fst sw) \<and> w_conns (snd sw) c = Some p \<and> pc_stm p = some_machine (Some EMPTY_BUFFERS) \<and> buffers_ok p \<and>
     \<not> (contents (pc_client_buffer p) = [] \<and> contents (pc_origin_buffer p) = []) \<and>
     pc_client_status p = (if contents (pc_client_buffer p) = [] then CLOSED_STATUS else CLOSING_STATUS) \<and>
     pc_origin_status p = (if contents (pc_origin_buffer p) = [] then CLOSED_STATUS else CLOSING_STATUS) \<and>
     linked (fst sw) c p (if contents (pc_origin_buffer p) \<noteq> [] then OP_WRITE else OP_NOOP,
       if contents (pc_client_buffer p) \<noteq> [] then OP_WRITE else OP_NOOP)"

text \<open>Neither side sends any more; one that has ended is told so only when nothing is left for the other.\<close>

definition both_ended :: "proxy_connection \<Rightarrow> bool" where
  "both_ended p \<longleftrightarrow>
     (pc_client_status p = CLOSING_STATUS \<or> pc_client_status p = CLOSED_STATUS \<and> contents (pc_client_buffer p) = []) \<and>
     (pc_origin_status p = CLOSING_STATUS \<or> pc_origin_status p = CLOSED_STATUS \<and> contents (pc_origin_buffer p) = [])"

definition emptied :: "proxy_connection \<Rightarrow> proxy_connection" where
  "emptied p =
     p\<lparr>pc_client_status := if contents (pc_client_buffer p) = [] then CLOSED_STATUS else pc_client_status p,
       pc_origin_status := if contents (pc_origin_buffer p) = [] then CLOSED_STATUS else pc_origin_status p\<rparr>"

definition shut_both :: "'o penv \<Rightarrow> proxy_connection \<Rightarrow> 'o \<Rightarrow> 'o" where
  "shut_both env p st = shut env True p (shut env False p st)"

lemma emptied_simps [simp]:
  "pc_stm (emptied p) = pc_stm p" "pc_client_buffer (emptied p) = pc_client_buffer p"
  "pc_origin_buffer (emptied p) = pc_origin_buffer p" "pc_client_fd (emptied p) = pc_client_fd p"
  "pc_origin_fd (emptied p) = pc_origin_fd p" "buffers_ok (emptied p) = buffers_ok p"
  by (simp_all add: emptied_def buffers_ok_def)

lemma empty_set:
  assumes "sel_inv s" "linked s c p n" "w_conns w c = Some p" "buffers_ok p" "both_ended p"
  shows "\<exists>s'. set_empty_buffers_interests env c (s, w) =
      Inr ((), (s', with_conn c (emptied p) (w\<lparr>w_os := shut_both env p (w_os w)\<rparr>))) \<and>
    sel_inv s' \<and> linked s' c (emptied p) (if contents (pc_origin_buffer p) \<noteq> [] then OP_WRITE else OP_NOOP,
       if contents (pc_client_buffer p) \<noteq> [] then OP_WRITE else OP_NOOP)"
proof -
  let ?ci = "if contents (pc_origin_buffer p) \<noteq> [] then OP_WRITE else OP_NOOP"
  let ?oi = "if contents (pc_client_buffer p) \<noteq> [] then OP_WRITE else OP_NOOP"
  let ?w = "with_conn c (emptied p) (w\<lparr>w_os := shut_both env p (w_os w)\<rparr>)"
  obtain s' where s': "set_interests c ?ci ?oi (s, ?w) = Inr ((), (s', ?w))" "sel_inv s'" "linked s' c (emptied p) (?ci, ?oi)"
    using set_interests_linked [OF assms(1) linked_frame [OF assms(2), of "emptied p"], of ?w ?ci ?oi] by auto
  have b: "buffer_can_read (pc_client_buffer p) \<longleftrightarrow> contents (pc_client_buffer p) \<noteq> []"
    "buffer_can_read (pc_origin_buffer p) \<longleftrightarrow> contents (pc_origin_buffer p) \<noteq> []"
    using assms(4) by (simp_all add: buffers_ok_def can_read_iff)
  have v: "empty_buffers_step (pc_origin_buffer p) (pc_client_buffer p) (closing_start p) =
      \<lparr>cl_client_interest = ?ci, cl_origin_interest = ?oi, cl_client_status = pc_client_status (emptied p),
       cl_origin_status = pc_origin_status (emptied p), cl_shut_client = tells True p, cl_shut_origin = tells False p\<rparr>"
    using assms(5) by (cases "contents (pc_origin_buffer p) = []"; cases "contents (pc_client_buffer p) = []")
      (auto simp: empty_buffers_step_def closing_start_def b both_ended_def emptied_def tells_def left_for_peer_def statuses_def
        OP_NOOP_def Let_def)
  have "p\<lparr>pc_client_status := pc_client_status (emptied p), pc_origin_status := pc_origin_status (emptied p)\<rparr> = emptied p"
    by (simp add: emptied_def)
  then have "set_empty_buffers_interests env c (s, w) = Inr ((), (s', ?w))"
    using s'(1) assms(3)
    by (cases "tells True p"; cases "tells False p")
      (simp_all add: set_empty_buffers_interests_def apply_closing_def run_simps v shut_both_def shut_def peer_fd_def with_conn_def)
  then show ?thesis using s'(2,3) by blast
qed

lemma emptied_closed:
  assumes "both_ended p"
  shows "pc_client_status (emptied p) = (if contents (pc_client_buffer p) = [] then CLOSED_STATUS else CLOSING_STATUS)"
    and "pc_origin_status (emptied p) = (if contents (pc_origin_buffer p) = [] then CLOSED_STATUS else CLOSING_STATUS)"
  using assms by (auto simp: both_ended_def emptied_def)

definition gone :: "nat \<Rightarrow> proxy_connection \<Rightarrow> 'o world \<Rightarrow> 'o psys \<Rightarrow> bool" where
  "gone c p w sw \<longleftrightarrow>
     sel_inv (fst sw) \<and> sel_entry (fst sw) (nat (pc_client_fd p)) = None \<and> sel_entry (fst sw) (nat (pc_origin_fd p)) = None \<and>
     w_conns (snd sw) = (w_conns w)(c := None) \<and> w_metrics (snd sw) = unregister_connection (w_metrics w)"

text \<open>What is left is sent before the connection goes.\<close>

definition last_bytes :: "nat \<Rightarrow> proxy_connection \<Rightarrow> 'o world \<Rightarrow> 'o psys \<Rightarrow> bool" where
  "last_bytes c p w sw \<longleftrightarrow>
     (if contents (pc_client_buffer p) = [] \<and> contents (pc_origin_buffer p) = [] then gone c p w sw
      else \<exists>q. emptying sw c q \<and> pc_client_fd q = pc_client_fd p \<and> pc_origin_fd q = pc_origin_fd p \<and>
        pc_client_buffer q = pc_client_buffer p \<and> pc_origin_buffer q = pc_origin_buffer p \<and>
        w_conns (snd sw) = (w_conns w)(c \<mapsto> q) \<and> w_metrics (snd sw) = w_metrics w)"

lemma emptying_arrives:
  assumes "sel_inv s" "linked s c p n" "w_conns w c = Some p" "buffers_ok p" "both_ended p"
    "pc_stm p = some_machine (Some EMPTY_BUFFERS)" "\<not> (contents (pc_client_buffer p) = [] \<and> contents (pc_origin_buffer p) = [])"
  shows "\<exists>sw. set_empty_buffers_interests env c (s, w) = Inr ((), sw) \<and> last_bytes c p w sw"
proof -
  obtain s' where "set_empty_buffers_interests env c (s, w) =
      Inr ((), (s', with_conn c (emptied p) (w\<lparr>w_os := shut_both env p (w_os w)\<rparr>)))" "sel_inv s'"
      "linked s' c (emptied p) (if contents (pc_origin_buffer p) \<noteq> [] then OP_WRITE else OP_NOOP,
       if contents (pc_client_buffer p) \<noteq> [] then OP_WRITE else OP_NOOP)"
    using empty_set [OF assms(1-5)] by blast
  then show ?thesis using assms(4,6,7) emptied_closed [OF assms(5)]
    by (intro exI [of _ "(s', with_conn c (emptied p) (w\<lparr>w_os := shut_both env p (w_os w)\<rparr>))"])
      (auto simp: last_bytes_def emptying_def intro!: exI [of _ "emptied p"])
qed

lemma freed_gone: "freed env (s, w) c p sw \<Longrightarrow> w_metrics w = unregister_connection (w_metrics v) \<Longrightarrow>
    (w_conns w)(c := None) = (w_conns v)(c := None) \<Longrightarrow> gone c p v sw"
  by (auto simp: freed_def gone_def)

lemma emptying_moving: "emptying (s, w) c p \<Longrightarrow> os_ok env \<Longrightarrow> moving env c p w"
  by (auto simp: emptying_def moving_def some_machine_def state_numbers)

lemma bytes_moved_ended:
  assumes "bytes_moved ev bs p p'" "both_ended p" "ev = Client_Writable \<or> ev = Origin_Writable"
  shows "both_ended p'"
  using assms by (auto simp: bytes_moved_def same_but_buffers_def both_ended_def)

lemma emptying_event:
  assumes "emptying (s, w) c p" "os_ok env" "moved env p ev (os_then env w) = bs" "bs \<noteq> []"
    "ev = Client_Writable \<or> ev = Origin_Writable"
  shows "\<exists>sw' p'. relay_call env c p ev (s, w) = Inr sw' \<and> bytes_moved ev bs p p' \<and>
    last_bytes c p' (after_move env p ev bs w) sw'"
proof -
  obtain p' where p': "bytes_moved ev bs p p'"
      "relay_call env c p ev (s, w) = bindR (state_event env c p ev (s, with_conn c p' (after_move env p ev bs w))) (\<lambda>(_, sw). Inr sw)"
    using event_moves [OF emptying_moving [OF assms(1,2)] assms(3,4)] unfolding continues_def fst_conv snd_conv by blast
  let ?w = "with_conn c p' (after_move env p ev bs w)" and ?key = "event_key c p ev" and ?n = "\<lambda>b. if contents b \<noteq> [] then OP_WRITE else OP_NOOP"
  have same: "same_but_buffers p p'" "buffers_ok p'" using p'(1) by (simp_all add: bytes_moved_def)
  have h: "sel_inv s" "linked s c p (?n (pc_origin_buffer p), ?n (pc_client_buffer p))" "pc_stm p = some_machine (Some 7)" "both_ended p"
    using assms(1) by (auto simp: emptying_def both_ended_def state_numbers)
  have l: "linked s c p' (?n (pc_origin_buffer p), ?n (pc_client_buffer p))"
    by (rule linked_frame [OF h(2)]) (use same(1) in \<open>simp_all add: same_but_buffers_def\<close>)
  have stm: "pc_stm p' = some_machine (Some 7)" "both_ended p'"
    using h(3) same(1) bytes_moved_ended [OF p'(1) h(4) assms(5)] by (simp_all add: same_but_buffers_def)
  let ?v = "with_conn c (emptied p') ((after_move env p ev bs w)\<lparr>w_os := shut_both env p' (w_os ?w)\<rparr>)"
  obtain s' where s': "set_empty_buffers_interests env c (s, ?w) = Inr ((), (s', ?v))" "sel_inv s'"
      "linked s' c (emptied p') (?n (pc_origin_buffer p'), ?n (pc_client_buffer p'))"
    using empty_set [OF h(1) l _ same(2) stm(2), of ?w env] by auto
  have row: "sd_on_write_ready (connection_states env ?key ! 7) = Some (empty_buffers_on_write_ready env ?key)"
    using table_at(8) [of env ?key] by (simp add: state_numbers conn_row_def)
  note at = event_at [where event = sd_on_write_ready, of ?w c p' 7 env ?key, OF _ stm(1) _ row]
  note closed = emptied_closed [OF stm(2)]
  have run: "\<exists>sw'. event_write env ?key c (s, ?w) = Inr ((), sw') \<and> last_bytes c p' (after_move env p ev bs w) sw'"
  proof (cases "contents (pc_client_buffer p') = [] \<and> contents (pc_origin_buffer p') = []")
    case True
    let ?u = "?v\<lparr>w_metrics := unregister_connection (w_metrics ?v)\<rparr>" and ?q = "at_state 8 (emptied p')"
    have e: "empty_buffers_on_write_ready env ?key (s, ?w) = Inr (8, (s', ?u))"
      using s'(1) closed True by (simp add: empty_buffers_on_write_ready_def event_key_fd run_simps count_metric_def state_numbers)
    have j: "jump (conn_cell c) (connection_states env ?key) 8 (s', ?u) =
        arrive_at (connection_states env ?key ! 8) (s', with_conn c ?q ?u)"
      by (rule jump_to [where p = "emptied p'" and n = 7]) (simp_all add: stm(1))
    obtain sw' where sw': "arrive_at (connection_states env ?key ! 8) (s', with_conn c ?q ?u) = Inr sw'"
        "freed env (s', with_conn c ?q ?u) c ?q sw'"
      using done_frees [OF s'(2) linked_frame [OF s'(3), of ?q], of "with_conn c ?q ?u" ?key env] closed(2) True
      by (auto simp: event_key_fd state_numbers)
    have "gone c ?q (after_move env p ev bs w) sw'"
      by (rule freed_gone [OF sw'(2)]) simp_all
    then show ?thesis using at e j sw'(1) True
      by (auto simp: event_write_def stm_handler_write_def last_bytes_def gone_def intro!: exI [of _ sw'])
  next
    case False
    then have "\<not> (pc_client_status (emptied p') = CLOSED_STATUS \<and> pc_origin_status (emptied p') = CLOSED_STATUS)"
      using closed by auto
    then have e: "empty_buffers_on_write_ready env ?key (s, ?w) = Inr (7, (s', ?v))"
      using s'(1) stm(1) run_conn_state [of ?v c "emptied p'" 7]
      by (auto simp: empty_buffers_on_write_ready_def event_key_fd run_simps some_machine_def)
    have "jump (conn_cell c) (connection_states env ?key) 7 (s', ?v) = Inr (s', ?v)"
      by (rule jump_same [where p = "emptied p'"]) (simp_all add: stm(1))
    moreover have "last_bytes c p' (after_move env p ev bs w) (s', ?v)"
      using s'(2,3) stm(1) same(2) closed False
      by (auto simp: last_bytes_def emptying_def state_numbers intro!: exI [of _ "emptied p'"])
    ultimately show ?thesis using at e by (auto simp: event_write_def stm_handler_write_def)
  qed
  then show ?thesis using p' state_event_write [OF assms(5), of env c p] by auto
qed

text \<open>The second end of a stream.\<close>

lemma half_closed_ends:
  assumes "half_closed og (s, w) c p" "os_ok env" "ev = readable_of (\<not> og)" "eof env p ev (os_then env w)"
  shows "\<exists>sw'. relay_call env c p ev (s, w) = Inr sw' \<and> last_bytes c p w sw'"
proof -
  let ?w = "w\<lparr>w_os := moved_os env p ev (os_then env w)\<rparr>" and ?key = "event_key c p ev"
  obtain now where call: "relay_call env c p ev (s, w) = bindR (state_event env c p ev
      (s, with_conn c (ended ev now p) ?w)) (\<lambda>(_, sw). Inr sw)"
    using eof_moves [OF half_closed_moving [OF assms(1,2)] assms(4)] by blast
  let ?p = "ended ev now p"
  have ev: "ev = Client_Readable \<or> ev = Origin_Readable" using assms(3) by (auto simp: readable_of_def)
  have h: "sel_inv s" "linked s c p (half_interests og p)" "pc_stm p = some_machine (Some 6)" "buffers_ok p"
      "statuses og p = (ACTIVE_STATUS, if left_for_peer og p = [] then CLOSED_STATUS else CLOSING_STATUS)"
    using assms(1) by (simp_all add: half_closed_def state_numbers)
  have q: "pc_stm ?p = some_machine (Some 6)" "buffers_ok ?p" "pc_origin_status ?p \<noteq> INACTIVE_STATUS" "both_ended ?p"
    using h(3-5) assms(3) by (auto simp: readable_of_def buffers_ok_def statuses_def both_ended_def left_for_peer_def split: if_splits)
  have f: "pc_client_fd ?p = pc_client_fd p" "pc_origin_fd ?p = pc_origin_fd p" "pc_client_buffer ?p = pc_client_buffer p"
      "pc_origin_buffer ?p = pc_origin_buffer p"
    using ev by auto
  note l = linked_frame [OF h(2)]
  have ne: "pc_origin_fd p \<noteq> pc_client_fd p" using h(2) by (auto simp: linked_def)
  have b: "buffer_can_read (pc_client_buffer p) \<longleftrightarrow> contents (pc_client_buffer p) \<noteq> []"
    "buffer_can_read (pc_origin_buffer p) \<longleftrightarrow> contents (pc_origin_buffer p) \<noteq> []"
    using h(4) by (simp_all add: buffers_ok_def can_read_iff)
  have row: "sd_on_read_ready (connection_states env ?key ! 6) = Some (closing_on_read_ready env ?key)"
    using table_at(7) [of env ?key] by (simp add: state_numbers conn_row_def)
  note at = event_at [where event = sd_on_read_ready, of "with_conn c ?p ?w" c ?p 6 env ?key, OF _ q(1) _ row]
  have run: "\<exists>sw'. event_read env ?key c (s, with_conn c ?p ?w) = Inr ((), sw') \<and> last_bytes c p w sw'"
  proof (cases "contents (pc_client_buffer p) = [] \<and> contents (pc_origin_buffer p) = []")
    case True
    let ?v = "with_conn c ?p (w\<lparr>w_os := os_shutdown (pe_os env) (if og then pc_origin_fd p else pc_client_fd p) (w_os ?w)\<rparr>)"
    let ?u = "?v\<lparr>w_metrics := unregister_connection (w_metrics w)\<rparr>" and ?q = "at_state 8 ?p"
    have e: "closing_on_read_ready env ?key (s, with_conn c ?p ?w) = Inr (8, (s, ?u))"
      using True b f ne assms(3) by (auto simp: closing_on_read_ready_def event_key_fd run_simps count_metric_def readable_of_def state_numbers)
    have j: "jump (conn_cell c) (connection_states env ?key) 8 (s, ?u) =
        arrive_at (connection_states env ?key ! 8) (s, with_conn c ?q ?u)"
      by (rule jump_to [where p = ?p and n = 6]) (simp_all add: q(1))
    obtain sw' where sw': "arrive_at (connection_states env ?key ! 8) (s, with_conn c ?q ?u) = Inr sw'"
        "freed env (s, with_conn c ?q ?u) c ?q sw'"
      using done_frees [OF h(1) l [of ?q], of "with_conn c ?q ?u" ?key env] q(3) f by (auto simp: event_key_fd state_numbers)
    have "gone c ?q w sw'" by (rule freed_gone [OF sw'(2)]) simp_all
    then show ?thesis using at e j sw'(1) True f
      by (auto simp: event_read_def stm_handler_read_def last_bytes_def gone_def intro!: exI [of _ sw'])
  next
    case False
    let ?q = "at_state 7 ?p"
    have e: "closing_on_read_ready env ?key (s, with_conn c ?p ?w) = Inr (7, (s, with_conn c ?p ?w))"
      using False b f ne assms(3) by (auto simp: closing_on_read_ready_def event_key_fd run_simps readable_of_def state_numbers)
    have j: "jump (conn_cell c) (connection_states env ?key) 7 (s, with_conn c ?p ?w) =
        bindR (set_empty_buffers_interests env c (s, with_conn c ?q ?w)) (\<lambda>(_, sw). Inr sw)"
      by (subst jump_to [where p = ?p and n = 6])
        (use q(1) table_at(8) [of env ?key] in \<open>simp_all add: state_numbers arrive_row empty_buffers_on_arrival_def event_key_fd run_simps\<close>)
    obtain sw' where sw': "set_empty_buffers_interests env c (s, with_conn c ?q ?w) = Inr ((), sw')"
        "last_bytes c ?q (with_conn c ?q ?w) sw'"
      using emptying_arrives [OF h(1) l [of ?q], of "with_conn c ?q ?w" env] q(2,4) f False
      by (auto simp: buffers_ok_def both_ended_def state_numbers)
    then have "last_bytes c p w sw'" using f False by (auto simp: last_bytes_def)
    then show ?thesis using at e j sw'(1) by (auto simp: event_read_def stm_handler_read_def)
  qed
  then show ?thesis using call state_event_read [OF ev, of env c p] by auto
qed

section \<open>Runs\<close>

abbreviation counted :: "(relay_event \<times> bytes) list \<Rightarrow> proxy_metrics \<Rightarrow> proxy_metrics" where
  "counted es m \<equiv> fold (\<lambda>(ev, bs). relay_metrics ev bs) es m"

lemma fifo_same:
  assumes "pc_client_buffer q = pc_client_buffer p" "pc_origin_buffer q = pc_origin_buffer p"
  shows "fifo_between q es p' \<longleftrightarrow> fifo_between p es p'"
  using assms by (simp add: fifo_between_def)

lemma half_closed_run:
  assumes "relay_run env c sw es sw'" "os_ok env"
  shows "half_closed og sw c p \<Longrightarrow> \<forall>e \<in> set es. fst e \<noteq> readable_of og \<Longrightarrow>
    \<exists>p'. half_closed og sw' c p' \<and> fifo_between p es p' \<and> others_same c (snd sw) (snd sw') \<and>
      w_metrics (snd sw') = counted es (w_metrics (snd sw))"
  using assms(1)
proof (induction arbitrary: p rule: relay_run.induct)
  case (relay_stop sw)
  then show ?case by (auto simp: fifo_between_def others_same_def)
next
  case (relay_step sw p0 bs ev sw1 es sw2)
  obtain s w where sw: "sw = (s, w)" by fastforce
  have p0: "p0 = p" using relay_step.hyps(1) relay_step.prems(1) by (simp add: half_closed_def)
  have bs: "bs = moved env p ev (os_then env w)" "bs \<noteq> []" using relay_step.hyps(2,3) by (simp_all add: p0 sw)
  obtain p' where p': "bytes_moved ev bs p p'" "half_closed_after env og p' sw1 c (after_move env p ev bs w)"
    using half_closed_event [OF relay_step.prems(1) [unfolded sw] assms(2) bs(1) [symmetric] bs(2)] relay_step.prems(2)
      relay_step.hyps(4) by (auto simp: p0 sw)
  obtain q where q: "half_closed og sw1 c q" "pc_client_buffer q = pc_client_buffer p'" "pc_origin_buffer q = pc_origin_buffer p'"
      "others_same c w (snd sw1)" "w_metrics (snd sw1) = relay_metrics ev bs (w_metrics w)"
    using p'(2) by (auto simp: half_closed_after_def others_same_def)
  obtain p2 where p2: "half_closed og sw2 c p2" "fifo_between q es p2" "others_same c (snd sw1) (snd sw2)"
      "w_metrics (snd sw2) = counted es (w_metrics (snd sw1))"
    using relay_step.IH [OF q(1)] relay_step.prems(2) by auto
  have "fifo_between p ((ev, bs) # es) p2"
    using fifo_step [OF _ bs(1), of p'] p'(1) p2(2) fifo_same [OF q(2,3)] by (simp add: bytes_moved_def)
  then show ?case using p2 q(4,5) by (auto simp: others_same_def sw)
qed

lemma emptying_run:
  assumes "relay_run env c sw es sw'" "os_ok env"
  shows "last_bytes c p w sw \<Longrightarrow> \<forall>e \<in> set es. fst e = Client_Writable \<or> fst e = Origin_Writable \<Longrightarrow>
    \<exists>p' w'. last_bytes c p' w' sw' \<and> fifo_between p es p' \<and> others_same c w w' \<and> w_metrics w' = counted es (w_metrics w) \<and>
      pc_client_fd p' = pc_client_fd p \<and> pc_origin_fd p' = pc_origin_fd p"
  using assms(1)
proof (induction arbitrary: p w rule: relay_run.induct)
  case (relay_stop sw)
  then show ?case by (auto simp: fifo_between_def others_same_def)
next
  case (relay_step sw q bs ev sw1 es sw2)
  obtain s v where sw: "sw = (s, v)" by fastforce
  obtain q': "emptying sw c q" "pc_client_buffer q = pc_client_buffer p" "pc_origin_buffer q = pc_origin_buffer p"
      "pc_client_fd q = pc_client_fd p" "pc_origin_fd q = pc_origin_fd p"
      "w_conns v = (w_conns w)(c \<mapsto> q)" "w_metrics v = w_metrics w"
    using relay_step.prems(1) relay_step.hyps(1) by (auto simp: last_bytes_def gone_def emptying_def sw split: if_splits)
  have bs: "bs = moved env q ev (os_then env v)" "bs \<noteq> []" using relay_step.hyps(2,3) by (simp_all add: sw)
  obtain p1 where p1: "bytes_moved ev bs q p1" "last_bytes c p1 (after_move env q ev bs v) sw1"
    using emptying_event [OF q'(1) [unfolded sw] assms(2) bs(1) [symmetric] bs(2)] relay_step.prems(2) relay_step.hyps(4)
    by (auto simp: sw)
  obtain p2 w2 where p2: "last_bytes c p2 w2 sw2" "fifo_between p1 es p2" "others_same c (after_move env q ev bs v) w2"
      "w_metrics w2 = counted es (w_metrics (after_move env q ev bs v))" "pc_client_fd p2 = pc_client_fd p1" "pc_origin_fd p2 = pc_origin_fd p1"
    using relay_step.IH [OF p1(2)] relay_step.prems(2) by auto
  have "fifo_between p ((ev, bs) # es) p2"
    using fifo_step [OF _ bs(1) p2(2)] p1(1) fifo_same [OF q'(2,3)] by (simp add: bytes_moved_def)
  then show ?case using p2 p1(1) q'
    by (intro exI [of _ p2] exI [of _ w2]) (auto simp: others_same_def bytes_moved_def same_but_buffers_def)
qed

lemma no_reads: "\<forall>e \<in> set es. fst e = Client_Writable \<or> fst e = Origin_Writable \<Longrightarrow>
    bytes_of Client_Readable es = [] \<and> bytes_of Origin_Readable es = []"
  by (induction es) auto

section \<open>Properties\<close>



text \<open>A system on which every stream has ended.\<close>

definition ended_env :: "bytes penv" where
  "ended_env = some_env\<lparr>pe_os := some_os\<lparr>os_read := (\<lambda>fd n st. (Some [], st))\<rparr>\<rparr>"

lemma ended_os_ok: "os_ok ended_env"
  by (auto simp: os_ok_def ended_env_def some_os_def some_env_def)

lemma ended_eof: "eof ended_env p (readable_of og) st"
  by (simp add: readable_of_def ended_env_def)

lemma some_relay_quiet: "quiet some_relay"
  by (simp add: quiet_def some_relay_def)



end
