(* ===== verification/New_Connections.thy ===== *)
theory New_Connections
  imports Requests
begin

text \<open>
  Accepting a connection: what the proxy knows of a client it has not read from, and why the size of
  the buffers must not be lowered.
\<close>

section \<open>Accepting\<close>

text \<open>The calls on the way succeed; \<^verbatim>\<open>malloc\<close> delivers a block of the size asked for.\<close>

definition os_grants :: "'o penv \<Rightarrow> bool" where
  "os_grants env \<longleftrightarrow>
     (\<forall>st. fst (os_calloc (pe_os env) st)) \<and>
     (\<forall>n st. \<exists>block. fst (os_malloc (pe_os env) n st) = Some block \<and> length block = n) \<and>
     (\<forall>fd st. 0 \<le> fst (os_getfd (pe_os env) fd st)) \<and>
     (\<forall>fd n st. 0 \<le> fst (os_setfl (pe_os env) fd n st))"

lemma nio_granted: "os_grants env \<Longrightarrow> \<exists>st. selector_fd_set_nio env fd (s, w) = Inr (0, (s, w\<lparr>w_os := st\<rparr>))"
proof -
  assume g: "os_grants env"
  obtain f1 st1 where 1: "os_getfd (pe_os env) fd (w_os w) = (f1, st1)" by fastforce
  obtain f2 st2 where 2: "os_setfl (pe_os env) fd (f1 OR 2048) st1 = (f2, st2)" by fastforce
  have "0 \<le> f1" "0 \<le> f2" using g 1 2 unfolding os_grants_def by (metis fst_conv)+
  then show ?thesis using 1 2 by (auto simp: selector_fd_set_nio_def run_simps)
qed

lemma created:
  assumes "os_grants env"
  shows "\<exists>st now rb wb. create_new_connection env key fd (s, w) = Inr (Some (w_next w),
      (s, w\<lparr>w_os := st, w_next := Suc (w_next w),
        w_conns := (w_conns w)(w_next w \<mapsto> new_proxy_connection (some_machine None) now fd rb wb)\<rparr>)) \<and>
    length rb = unat (w_buffers_size w) \<and> length wb = unat (w_buffers_size w)"
proof -
  let ?n = "unat (w_buffers_size w)"
  obtain st1 where 1: "os_calloc (pe_os env) (w_os w) = (True, st1)"
    using assms by (metis (full_types) os_grants_def prod.collapse)
  obtain rb st2 where 2: "os_malloc (pe_os env) ?n st1 = (Some rb, st2)" "length rb = ?n"
    using assms by (metis os_grants_def prod.collapse)
  obtain wb st3 where 3: "os_malloc (pe_os env) ?n st2 = (Some wb, st3)" "length wb = ?n"
    using assms by (metis os_grants_def prod.collapse)
  obtain now st4 where 4: "os_time (pe_os env) st3 = (now, st4)" by fastforce
  show ?thesis
    using 1 2 3 4
    by (intro exI [of _ st4] exI [of _ now] exI [of _ rb] exI [of _ wb])
      (simp add: create_new_connection_def run_simps init_connection_stm_ok some_machine_def)
qed

lemma accepted:
  assumes "os_grants env" "sel_inv s" "fst (os_accept (pe_os env) (key_fd key) (w_os w)) = (fd, addr)"
    "\<not> invalid_fd fd" "sel_entry s (nat fd) = None"
  shows "\<exists>s' w' now rb wb. call env Accept_New_Connection key (s, w) = Inr (s', w') \<and> sel_inv s' \<and>
    sel_entry s' = (sel_entry s)(nat fd \<mapsto> (client_handler, OP_READ, Some (Connection (w_next w)))) \<and>
    w_conns w' = (w_conns w)(w_next w \<mapsto>
      (new_proxy_connection (some_machine None) now fd rb wb)\<lparr>pc_client_addr := addr\<rparr>) \<and>
    length rb = unat (w_buffers_size w) \<and> length wb = unat (w_buffers_size w)"
proof -
  obtain st1 where 1: "os_accept (pe_os env) (key_fd key) (w_os w) = ((fd, addr), st1)"
    using assms(3) by (metis prod.collapse)
  obtain st2 where 2: "selector_fd_set_nio env fd (s, w\<lparr>w_os := st1\<rparr>) = Inr (0, (s, w\<lparr>w_os := st2\<rparr>))"
    using nio_granted [OF assms(1), of fd s "w\<lparr>w_os := st1\<rparr>"] by auto
  obtain st now rb wb where 3: "create_new_connection env key fd (s, w\<lparr>w_os := st2\<rparr>) = Inr (Some (w_next w),
      (s, w\<lparr>w_os := st, w_next := Suc (w_next w),
        w_conns := (w_conns w)(w_next w \<mapsto> new_proxy_connection (some_machine None) now fd rb wb)\<rparr>))"
      "length rb = unat (w_buffers_size w)" "length wb = unat (w_buffers_size w)"
    using created [OF assms(1), of key fd s "w\<lparr>w_os := st2\<rparr>"] by auto
  obtain s' where 4: "selector_register (pe_sel env) fd (Some client_handler) OP_READ (Some (Connection (w_next w))) s = Inr (SELECTOR_SUCCESS, s')"
      "sel_inv s'" "sel_entry s' = (sel_entry s)(nat fd \<mapsto> (client_handler, OP_READ, Some (Connection (w_next w))))"
    using register_inv [OF assms(2), of "pe_sel env" fd "Some client_handler" OP_READ "Some (Connection (w_next w))"] assms(4,5)
    by auto
  have fd: "\<not> fd < 0" using assms(4) by (simp add: invalid_fd_def)
  have "call env Accept_New_Connection key (s, w) = Inr (s', w\<lparr>w_os := st, w_next := Suc (w_next w), w_conns := (w_conns w)(w_next w \<mapsto>
      (new_proxy_connection (some_machine None) now fd rb wb)\<lparr>pc_client_addr := addr\<rparr>)\<rparr>)"
    using 1 2 3(1) 4(1) fd
    by (simp add: call_def handler_of_def accept_new_connection_def run_simps register_fd_def)
  then show ?thesis using 3(2,3) 4(2,3)
    by (intro exI [of _ s'] exI [of _ "w\<lparr>w_os := st, w_next := Suc (w_next w), w_conns := (w_conns w)(w_next w \<mapsto>
      (new_proxy_connection (some_machine None) now fd rb wb)\<lparr>pc_client_addr := addr\<rparr>)\<rparr>"] exI [of _ now] exI [of _ rb] exI [of _ wb]) simp
qed

text \<open>A world without connections, for the examples; the next client has descriptor 5.\<close>

definition idle_world :: "u64 \<Rightarrow> bytes world" where
  "idle_world n = (some_world (some_connection None))\<lparr>w_conns := Map.empty, w_next := 0, w_buffers_size := n\<rparr>"

lemma some_os_grants: "os_grants some_env"
  by (simp add: os_grants_def some_os_def)

definition listener :: pkey where "listener = \<lparr>key_fd = 3, key_data = None\<rparr>"

section \<open>Properties\<close>

text \<open>
  C37: A client that is accepted while the buffers have at least 8192 bytes is registered for reading, in a
  connection of its own whose state machine has not started, with empty buffers that are in order; nothing
  else in the selector and no other connection changes. This is the state the reading of request lines
  starts from.
\<close>

theorem accepted_connection_awaits:
  assumes "os_grants env" "sel_inv s" "fst (os_accept (pe_os env) (key_fd key) (w_os w)) = (fd, addr)"
    "\<not> invalid_fd fd" "sel_entry s (nat fd) = None" "8192 \<le> unat (w_buffers_size w)"
  shows "\<exists>s' w' p. call env Accept_New_Connection key (s, w) = Inr (s', w') \<and>
    awaiting (s', w') (w_next w) p (request_parser_init zero_request_parser) \<and> pc_client_fd p = fd \<and>
    pc_client_addr p = addr \<and> contents (pc_origin_buffer p) = [] \<and>
    sel_entry s' = (sel_entry s)(nat fd \<mapsto> (client_handler, OP_READ, Some (Connection (w_next w)))) \<and>
    others_same (w_next w) w w'"
proof -
  obtain s' w' now rb wb where a: "call env Accept_New_Connection key (s, w) = Inr (s', w')" "sel_inv s'"
    "sel_entry s' = (sel_entry s)(nat fd \<mapsto> (client_handler, OP_READ, Some (Connection (w_next w))))"
    "w_conns w' = (w_conns w)(w_next w \<mapsto>
      (new_proxy_connection (some_machine None) now fd rb wb)\<lparr>pc_client_addr := addr\<rparr>)"
    "length rb = unat (w_buffers_size w)" "length wb = unat (w_buffers_size w)"
    using accepted [OF assms(1-5)] by blast
  let ?p = "(new_proxy_connection (some_machine None) now fd rb wb)\<lparr>pc_client_addr := addr\<rparr>"
  have b: "buffer_inv (buffer_init BUFFER_SIZE rb)" "buffer_inv (buffer_init BUFFER_SIZE wb)"
    using a(5,6) assms(6) by (simp_all add: buffer_inv_init BUFFER_SIZE_def)
  have "awaiting (s', w') (w_next w) ?p (request_parser_init zero_request_parser)"
    using a b assms(4) initial_not_final
    by (simp add: awaiting_def buffers_ok_def new_proxy_connection_def)
      (simp add: contents_def buffer_init_def buffer_reset_def BUFFER_SIZE_def)
  then show ?thesis using a(1,3,4)
    by (intro exI [of _ s'] exI [of _ w'] exI [of _ ?p])
      (simp add: others_same_def new_proxy_connection_def contents_def buffer_init_def buffer_reset_def)
qed

text \<open>
  C38: \<^verbatim>\<open>create_new_connection\<close> allocates buffers of the size that the management service sets, but tells
  \<^verbatim>\<open>buffer_init\<close> that they have 8192 bytes. A client accepted with a smaller size that sends more
  bytes than that at once makes \<^verbatim>\<open>proxy_client_read\<close> write behind the block.
\<close>

theorem small_buffers_overflow:
  assumes "os_grants env" "sel_inv s" "fst (os_accept (pe_os env) (key_fd key) (w_os w)) = (fd, addr)"
    "\<not> invalid_fd fd" "sel_entry s (nat fd) = None" "unat (w_buffers_size w) < 8192"
  shows "\<exists>s' w' p. call env Accept_New_Connection key (s, w) = Inr (s', w') \<and> w_conns w' (w_next w) = Some p \<and>
    buffer_room (pc_client_buffer p) = 8192 \<and>
    (unat (w_buffers_size w) < length (moved env p Client_Readable (os_then env w')) \<longrightarrow>
       relay_call env (w_next w) p Client_Readable (s', w') = Inl OutOfBounds)"
proof -
  let ?c = "w_next w"
  obtain s' w' now rb wb where a: "call env Accept_New_Connection key (s, w) = Inr (s', w')"
    "w_conns w' = (w_conns w)(w_next w \<mapsto>
      (new_proxy_connection (some_machine None) now fd rb wb)\<lparr>pc_client_addr := addr\<rparr>)"
    "length wb = unat (w_buffers_size w)"
    using accepted [OF assms(1-5)] by blast
  obtain p where p: "w_conns w' ?c = Some p" "pc_client_buffer p = buffer_init 8192 wb" "pc_client_fd p = fd"
    using a(2) by (simp add: new_proxy_connection_def BUFFER_SIZE_def)
  have room: "buffer_room (pc_client_buffer p) = 8192"
    by (simp add: p buffer_room_def buffer_init_def buffer_reset_def)
  moreover have "relay_call env ?c p Client_Readable (s', w') = Inl OutOfBounds"
    if big: "unat (w_buffers_size w) < length (moved env p Client_Readable (os_then env w'))"
  proof -
    obtain d st where d: "os_read (pe_os env) fd 8192 (os_then env w') = (Some d, st)" "unat (w_buffers_size w) < length d"
      using big unfolding moved.simps room p(3)
      by (cases "os_read (pe_os env) fd 8192 (os_then env w')") (auto split: option.splits)
    obtain now' where now: "os_time (pe_os env) (w_os w') = (now', os_then env w')" using time_then by blast
    have bad: "buffer_store (buffer_init 8192 wb) d = Inl OutOfBounds"
      using d(2) a(3) by (simp add: buffer_store_def buffer_init_def buffer_reset_def)
    have ptr: "buffer_write_ptr (buffer_init 8192 wb) = Inr (0, 8192)"
      by (simp add: buffer_write_ptr_def buffer_init_def buffer_reset_def)
    have "d \<noteq> []" using d(2) by auto
    then show ?thesis
      by (simp add: call_def handler_of_def proxy_client_read_def touch_def client_key_def run_simps p now d(1) ptr bad)
  qed
  ultimately show ?thesis using a(1) p(1) by blast
qed

theorem accepted_connection_awaits_witness:
  "\<exists>s' w' p. call some_env Accept_New_Connection listener (empty_selector, idle_world 8192) = Inr (s', w') \<and>
    awaiting (s', w') 0 p (request_parser_init zero_request_parser) \<and> pc_client_fd p = 5"
  using accepted_connection_awaits [OF some_os_grants empty_selector_inv(1), of listener "idle_world 8192" 5 "[]"]
  by (auto simp: empty_selector_inv(2) some_os_def idle_world_def invalid_fd_def ITEMS_MAX_SIZE_def)

text \<open>A client whose first packet fills the room it is offered.\<close>

definition flooding_env :: "bytes penv" where
  "flooding_env = some_env\<lparr>pe_os := some_os\<lparr>os_read := (\<lambda>fd n st. (Some (replicate n 65), st))\<rparr>\<rparr>"

theorem small_buffers_overflow_witness:
  "\<exists>s' w' p. call flooding_env Accept_New_Connection listener (empty_selector, idle_world 1024) = Inr (s', w') \<and>
    relay_call flooding_env 0 p Client_Readable (s', w') = Inl OutOfBounds"
proof -
  have g: "os_grants flooding_env" by (simp add: os_grants_def some_os_def flooding_env_def)
  have "\<exists>s' w' p. call flooding_env Accept_New_Connection listener (empty_selector, idle_world 1024) = Inr (s', w') \<and>
    w_conns w' (w_next (idle_world 1024)) = Some p \<and> buffer_room (pc_client_buffer p) = 8192 \<and>
    (unat (w_buffers_size (idle_world 1024)) < length (moved flooding_env p Client_Readable (os_then flooding_env w')) \<longrightarrow>
       relay_call flooding_env (w_next (idle_world 1024)) p Client_Readable (s', w') = Inl OutOfBounds)"
    by (rule small_buffers_overflow [OF g empty_selector_inv(1), of listener "idle_world 1024" 5 "[]"])
      (simp_all add: empty_selector_inv(2) flooding_env_def some_os_def idle_world_def invalid_fd_def ITEMS_MAX_SIZE_def)
  then show ?thesis by (auto simp: idle_world_def flooding_env_def)
qed

end
