(* ===== verification/Args.thy ===== *)
theory Args
  imports Doh_Query
begin

text \<open>
  The command lines: \<^verbatim>\<open>utils/args/args.c\<close> of the proxy and \<^verbatim>\<open>client_args.c\<close> of the management client. An argument is the
  bytes of a C string without its end. \<^verbatim>\<open>getopt_long\<close> belongs to the library: its results, in order, are
  a list of option codes with their arguments, and whether anything is left behind them. \<open>Inl\<close> is the
  code the process exits with.
\<close>

section \<open>Numbers\<close>

definition LONG_MAX :: int where "LONG_MAX = 2 ^ 63 - 1"
definition LONG_MIN :: int where "LONG_MIN = - (2 ^ 63)"
definition USHRT_MAX :: int where "USHRT_MAX = 65535"

definition c_isspace :: "u8 \<Rightarrow> bool" where
  "c_isspace c \<longleftrightarrow> c = 32 \<or> 9 \<le> c \<and> c \<le> 13"

text \<open>
  \<^verbatim>\<open>strtol\<close> in base 10: the value, the bytes from \<^verbatim>\<open>end\<close> on, and whether it sets \<^verbatim>\<open>errno\<close> to \<^verbatim>\<open>ERANGE\<close>. With no digits
  \<^verbatim>\<open>end\<close> is the start of the string.
\<close>

definition strtol :: "bytes \<Rightarrow> int \<times> bytes \<times> bool" where
  "strtol s =
     (let t = dropWhile c_isspace s;
          neg = (t \<noteq> [] \<and> hd t = 45);
          t = (if t \<noteq> [] \<and> (hd t = 45 \<or> hd t = 43) then tl t else t);
          ds = takeWhile is_digit t;
          v = (if neg then - int (dec_val 0 ds) else int (dec_val 0 ds))
      in if ds = [] then (0, s, False)
         else if v > LONG_MAX then (LONG_MAX, dropWhile is_digit t, True)
         else if v < LONG_MIN then (LONG_MIN, dropWhile is_digit t, True)
         else (v, dropWhile is_digit t, False))"

text \<open>\<open>stale\<close>: \<^verbatim>\<open>errno\<close> was \<^verbatim>\<open>ERANGE\<close> before.\<close>

definition port :: "bool \<Rightarrow> bytes \<Rightarrow> int + u16" where
  "port stale s =
     (let (sl, end, erange) = strtol s
      in if end = s \<or> end \<noteq> [] \<or> (LONG_MIN = sl \<or> LONG_MAX = sl) \<and> (erange \<or> stale) \<or> sl < 0 \<or> sl > USHRT_MAX
         then Inl 1 else Inr (word_of_int sl))"

section \<open>The proxy\<close>

record doh_args =
  da_host :: bytes
  da_ip :: bytes
  da_port :: u16
  da_path :: bytes
  da_query :: bytes

record http_args =
  ha_http_addr :: "bytes option"
  ha_http_port :: u16
  ha_mng_addr :: "bytes option"
  ha_mng_port :: u16
  ha_disectors_enabled :: bool
  ha_doh :: doh_args

definition default_args :: http_args where
  "default_args =
     \<lparr>ha_http_addr = None, ha_http_port = 8080, ha_mng_addr = None, ha_mng_port = 9090, ha_disectors_enabled = True,
      ha_doh = \<lparr>da_host = ascii ''localhost'', da_ip = ascii ''127.0.0.1'', da_port = 8053,
                da_path = ascii ''/getnsrecord'', da_query = ascii ''?dns=''\<rparr>\<rparr>"

text \<open>A port goes to the field that \<open>put\<close> sets.\<close>

definition with_port :: "bool \<Rightarrow> bytes \<Rightarrow> (u16 \<Rightarrow> 'a) \<Rightarrow> int + 'a" where
  "with_port stale optarg put = (case port stale optarg of Inl code \<Rightarrow> Inl code | Inr v \<Rightarrow> Inr (put v))"

text \<open>The body of the switch.\<close>

definition parse_option :: "bool \<Rightarrow> int \<Rightarrow> bytes \<Rightarrow> http_args \<Rightarrow> int + http_args" where
  "parse_option stale c optarg a =
     (if c = 104 then Inl 1
      else if c = 78 then Inr (a\<lparr>ha_disectors_enabled := False\<rparr>)
      else if c = 108 then Inr (a\<lparr>ha_http_addr := Some optarg\<rparr>)
      else if c = 76 then Inr (a\<lparr>ha_mng_addr := Some optarg\<rparr>)
      else if c = 111 then with_port stale optarg (\<lambda>v. a\<lparr>ha_mng_port := v\<rparr>)
      else if c = 112 then with_port stale optarg (\<lambda>v. a\<lparr>ha_http_port := v\<rparr>)
      else if c = 118 then Inl 0
      else if c = 53249 then Inr (a\<lparr>ha_doh := (ha_doh a)\<lparr>da_ip := optarg\<rparr>\<rparr>)
      else if c = 53250 then with_port stale optarg (\<lambda>v. a\<lparr>ha_doh := (ha_doh a)\<lparr>da_port := v\<rparr>\<rparr>)
      else if c = 53251 then Inr (a\<lparr>ha_doh := (ha_doh a)\<lparr>da_host := optarg\<rparr>\<rparr>)
      else if c = 53252 then Inr (a\<lparr>ha_doh := (ha_doh a)\<lparr>da_path := optarg\<rparr>\<rparr>)
      else if c = 53253 then Inr (a\<lparr>ha_doh := (ha_doh a)\<lparr>da_query := optarg\<rparr>\<rparr>)
      else Inl 1)"

fun option_loop :: "bool \<Rightarrow> (int \<times> bytes) list \<Rightarrow> http_args \<Rightarrow> int + http_args" where
  "option_loop stale [] a = Inr a"
| "option_loop stale ((c, optarg) # opts) a =
     (case parse_option stale c optarg a of Inl code \<Rightarrow> Inl code | Inr a \<Rightarrow> option_loop stale opts a)"

definition parse_args :: "bool \<Rightarrow> (int \<times> bytes) list \<Rightarrow> bool \<Rightarrow> int + http_args" where
  "parse_args stale opts left =
     (case option_loop stale opts default_args of
        Inl code \<Rightarrow> Inl code
      | Inr a \<Rightarrow> if left then Inl 1 else Inr a)"

section \<open>The management client\<close>

record client_args =
  ca_client_addr :: "bytes option"
  ca_client_port :: u16

definition client_port_of :: "bool \<Rightarrow> bytes \<Rightarrow> int + u16" where
  "client_port_of stale s =
     (let (sl, end, erange) = strtol s
      in if end = s \<or> end \<noteq> [] \<or> (LONG_MIN = sl \<or> LONG_MAX = sl) \<and> (erange \<or> stale) \<or> sl < 0 \<or> sl > USHRT_MAX
         then Inl 1 else Inr (word_of_int sl))"

fun client_option_loop :: "bool \<Rightarrow> (int \<times> bytes) list \<Rightarrow> client_args \<Rightarrow> int + client_args" where
  "client_option_loop stale [] a = Inr a"
| "client_option_loop stale ((c, optarg) # opts) a =
     (if c = 104 then Inl 1
      else if c = 76 then client_option_loop stale opts (a\<lparr>ca_client_addr := Some optarg\<rparr>)
      else if c = 111
      then (case client_port_of stale optarg of
              Inl code \<Rightarrow> Inl code
            | Inr v \<Rightarrow> client_option_loop stale opts (a\<lparr>ca_client_port := v\<rparr>))
      else Inl 1)"

definition parse_client_args :: "bool \<Rightarrow> (int \<times> bytes) list \<Rightarrow> bool \<Rightarrow> int + client_args" where
  "parse_client_args stale opts left =
     (case client_option_loop stale opts \<lparr>ca_client_addr = None, ca_client_port = 9090\<rparr> of
        Inl code \<Rightarrow> Inl code
      | Inr a \<Rightarrow> if left then Inl 1 else Inr a)"

section \<open>What a port is\<close>

text \<open>
  The texts \<^verbatim>\<open>strtol\<close> reads whole: blanks, a sign, digits. The value they stand for.
\<close>

definition decimal :: "bytes \<Rightarrow> bool \<Rightarrow> bytes \<Rightarrow> bytes \<Rightarrow> bool" where
  "decimal blanks neg ds s \<longleftrightarrow>
     (\<forall>c \<in> set blanks. c_isspace c) \<and> digits ds \<and> ds \<noteq> [] \<and>
     (s = blanks @ (if neg then [45] else []) @ ds \<or> \<not> neg \<and> s = blanks @ [43] @ ds)"

lemma digit_not_space: "is_digit c \<Longrightarrow> \<not> c_isspace c \<and> c \<noteq> 45 \<and> c \<noteq> 43"
  by (auto simp: is_digit_def c_isspace_def word_le_nat_alt unat_arith_simps)

lemma strtol_decimal:
  assumes "decimal blanks neg ds s"
  shows "strtol s =
    (let v = (if neg then - int (dec_val 0 ds) else int (dec_val 0 ds))
     in if v > LONG_MAX then (LONG_MAX, [], True) else if v < LONG_MIN then (LONG_MIN, [], True) else (v, [], False))"
proof -
  obtain d es where ds: "ds = d # es" "is_digit d" "\<forall>c \<in> set ds. is_digit c"
    using assms by (cases ds) (auto simp: decimal_def digits_def)
  have sp: "\<not> c_isspace d" "d \<noteq> 45" "d \<noteq> 43" "\<not> c_isspace 45" "\<not> c_isspace 43"
    using digit_not_space [OF ds(2)] by (simp_all add: c_isspace_def)
  have drop: "dropWhile c_isspace (blanks @ xs) = dropWhile c_isspace xs" for xs
    using assms by (induction blanks) (auto simp: decimal_def)
  have all: "takeWhile is_digit ds = ds" "dropWhile is_digit ds = []" using ds(3) by (simp_all add: takeWhile_eq_all_conv)
  have nd: "\<not> is_digit 45" "\<not> is_digit 43" by (simp_all add: is_digit_def)
  consider "s = blanks @ 45 # ds" "neg" | "s = blanks @ 43 # ds" "\<not> neg" | "s = blanks @ ds" "\<not> neg"
    using assms by (auto simp: decimal_def split: if_splits)
  then show ?thesis
  proof cases
    case 1
    then show ?thesis using all sp ds(1) by (simp add: strtol_def drop Let_def)
  next
    case 2
    then show ?thesis using all sp ds(1) by (simp add: strtol_def drop Let_def)
  next
    case 3
    then show ?thesis using all sp ds(1) by (simp add: strtol_def drop Let_def)
  qed
qed

lemma strtol_whole:
  assumes "strtol s = (v, [], e)" "s \<noteq> []"
  shows "\<exists>blanks neg ds. decimal blanks neg ds s"
proof -
  define t where "t = dropWhile c_isspace s"
  define u where "u = (if t \<noteq> [] \<and> (hd t = 45 \<or> hd t = 43) then tl t else t)"
  define ds where "ds = takeWhile is_digit u"
  have "ds \<noteq> [] \<and> dropWhile is_digit u = []"
    using assms unfolding strtol_def Let_def t_def [symmetric] u_def [symmetric] ds_def [symmetric]
    by (auto split: if_splits)
  then have u: "ds \<noteq> []" "u = ds" unfolding ds_def by (metis, metis append_Nil2 takeWhile_dropWhile_id)
  have ds: "digits ds" unfolding ds_def digits_def by (auto dest: set_takeWhileD)
  have blanks: "\<forall>c \<in> set (takeWhile c_isspace s). c_isspace c" by (auto dest: set_takeWhileD)
  have s: "s = takeWhile c_isspace s @ t" by (simp add: t_def)
  show ?thesis
  proof (cases "t \<noteq> [] \<and> (hd t = 45 \<or> hd t = 43)")
    case True
    then have "t = [hd t] @ ds" using u(2) by (cases t) (simp_all add: u_def)
    then have "s = takeWhile c_isspace s @ [hd t] @ ds" using s by metis
    then have "decimal (takeWhile c_isspace s) (hd t = 45) ds s"
      using True blanks ds u(1) unfolding decimal_def by auto
    then show ?thesis by blast
  next
    case False
    then have "t = ds" using u(2) by (auto simp: u_def split: if_splits)
    then have "decimal (takeWhile c_isspace s) False ds s"
      using s blanks ds u(1) unfolding decimal_def by auto
    then show ?thesis by blast
  qed
qed

section \<open>Properties\<close>

text \<open>
  The text of a port is accepted exactly when it is a decimal number, with blanks or a sign in front, from 0 to
  65535, and then the port has its value; everything else ends the program with code 1. So 0 is a port, and
  65536, the upper end the message names, is not.
\<close>

theorem port_exact:
  "port stale s = (case strtol s of (v, _) \<Rightarrow>
     if (\<exists>blanks neg ds. decimal blanks neg ds s) \<and> 0 \<le> v \<and> v \<le> 65535 then Inr (word_of_int v) else Inl 1) \<and>
   (\<forall>blanks neg ds. decimal blanks neg ds s \<longrightarrow>
      port stale s = (if (dec_val 0 ds = 0 \<or> \<not> neg) \<and> dec_val 0 ds \<le> 65535 then Inr (word_of_nat (dec_val 0 ds)) else Inl 1))"
proof -
  obtain v stop e where st: "strtol s = (v, stop, e)" by (cases "strtol s") auto
  have ne: "decimal blanks neg ds s \<Longrightarrow> s \<noteq> []" for blanks neg ds by (auto simp: decimal_def)
  have "stop = [] \<and> s \<noteq> []" if "decimal blanks neg ds s" for blanks neg ds
    using strtol_decimal [OF that] st ne [OF that] by (auto simp: Let_def split: if_splits)
  moreover have "\<exists>blanks neg ds. decimal blanks neg ds s" if "stop = []" "s \<noteq> []"
    using strtol_whole [of s v e] st that by simp
  ultimately have dec: "(\<exists>blanks neg ds. decimal blanks neg ds s) \<longleftrightarrow> stop = [] \<and> s \<noteq> []" by blast
  have 1: "port stale s = (if (\<exists>blanks neg ds. decimal blanks neg ds s) \<and> 0 \<le> v \<and> v \<le> 65535 then Inr (word_of_int v) else Inl 1)"
    unfolding dec by (auto simp: port_def st USHRT_MAX_def LONG_MAX_def LONG_MIN_def)
  have 2: "port stale s = (if (dec_val 0 ds = 0 \<or> \<not> neg) \<and> dec_val 0 ds \<le> 65535 then Inr (word_of_nat (dec_val 0 ds)) else Inl 1)"
    if d: "decimal blanks neg ds s" for blanks neg ds
    using strtol_decimal [OF d] d unfolding 1 by (auto simp: st Let_def LONG_MAX_def LONG_MIN_def split: if_splits)
  show ?thesis using 1 2 by (simp add: st)
qed

text \<open>\<^verbatim>\<open>8080\<close> with a blank in front, and \<^verbatim>\<open>65536\<close>.\<close>

theorem port_exact_witness:
  "port False (32 # ascii ''8080'') = Inr 8080 \<and> port False (ascii ''65536'') = Inl 1 \<and> port False (ascii ''-0'') = Inr 0"
proof -
  note port = port_exact [THEN conjunct2, rule_format, of _ _ _ _ False]
  have "decimal [32] False (ascii ''8080'') (32 # ascii ''8080'')" "decimal [] False (ascii ''65536'') (ascii ''65536'')"
    "decimal [] True (ascii ''0'') (ascii ''-0'')"
    by (simp_all add: decimal_def ascii_def c_isspace_def is_digit_def)
  moreover have "dec_val 0 (ascii ''8080'') = 8080" "dec_val 0 (ascii ''65536'') = 65536" "dec_val 0 (ascii ''0'') = 0"
    by (simp_all add: ascii_def)
  ultimately show ?thesis by (simp add: port)
qed

end
