(* ===== verification/Httpd.thy ===== *)
theory Httpd
  imports New_Connections Args
begin

text \<open>
  The program: \<^verbatim>\<open>httpd.c\<close>, from the command line to the end of the loop, and the sockets of the management
  service in \<^verbatim>\<open>management/management.c\<close>.
\<close>

section \<open>Listening\<close>

definition MAX_CONNECTIONS :: nat where "MAX_CONNECTIONS = 1024"
definition DEFAULT_SELECTOR_TIMEOUT :: int where "DEFAULT_SELECTOR_TIMEOUT = 8"
definition MAX_INACTIVE_TIME :: int where "MAX_INACTIVE_TIME = 12"

text \<open>Every failure is logged and gives -1.\<close>

definition give_up :: "'o penv \<Rightarrow> string \<Rightarrow> ('o, int) prog" where
  "give_up env msg = thenS (log_level_msg env (ascii msg) LEVEL_ERROR) (returnS (- 1))"

definition default_proxy_settings :: "'o penv \<Rightarrow> int \<Rightarrow> address \<Rightarrow> ('o, int) prog" where
  "default_proxy_settings env fd addr =
     bindS (sys_call (os_setsockopt (pe_os env) fd)) (\<lambda>r.
     if r < 0 then give_up env ''Setsockopt opt: SO_REUSEADDR''
     else bindS (selector_fd_set_nio env fd) (\<lambda>r.
       if r < 0 then give_up env ''Socket selector_fd_set_nio''
       else bindS (sys_call (os_bind (pe_os env) fd addr)) (\<lambda>r.
         if r < 0 then give_up env ''Socket bind''
         else bindS (sys_call (os_listen (pe_os env) fd)) (\<lambda>r.
           if r < 0 then give_up env ''Socket listen'' else returnS fd))))"

definition ipv6_only_proxy_listener :: "'o penv \<Rightarrow> sockaddr_in6 \<Rightarrow> ('o, int) prog" where
  "ipv6_only_proxy_listener env a =
     bindS (sys_call (os_socket (pe_os env) AF_INET6)) (\<lambda>fd.
     if fd < 0 then give_up env ''Passive socket creation''
     else bindS (sys_call (os_v6only (pe_os env) fd)) (\<lambda>r.
       if r < 0 then give_up env ''Setsockopt opt: IPV6_ONLY''
       else default_proxy_settings env fd (Addr6 a)))"

definition ipv4_only_proxy_listener :: "'o penv \<Rightarrow> sockaddr_in \<Rightarrow> ('o, int) prog" where
  "ipv4_only_proxy_listener env a =
     bindS (sys_call (os_socket (pe_os env) AF_INET)) (\<lambda>fd.
     if fd < 0 then give_up env ''Passive socket creation''
     else default_proxy_settings env fd (Addr4 a))"

text \<open>The two descriptors of a service; -1 is none.\<close>

record listeners =
  ls_fd_6 :: int
  ls_fd_4 :: int

definition no_listeners :: listeners where
  "no_listeners = \<lparr>ls_fd_6 = - 1, ls_fd_4 = - 1\<rparr>"

text \<open>
  Which sockets are opened for an address: both without one, else the one of its family; \<open>any6\<close> and
  \<open>any4\<close> are the addresses used without one. The result is false where the code returns -1.
\<close>

definition open_listeners ::
  "'o penv \<Rightarrow> (sockaddr_in6 \<Rightarrow> ('o, int) prog) \<Rightarrow> (sockaddr_in \<Rightarrow> ('o, int) prog) \<Rightarrow> bytes \<Rightarrow> u32 \<Rightarrow> bytes option \<Rightarrow> u16 \<Rightarrow>
   ('o, bool \<times> listeners) prog" where
  "open_listeners env listen6 listen4 any6 any4 addr prt =
     (case addr of
        None \<Rightarrow>
          bindS (listen6 \<lparr>sin6_family = AF_INET6, sin6_port = prt, sin6_addr = any6\<rparr>) (\<lambda>fd6.
          bindS (listen4 \<lparr>sin_family = AF_INET, sin_port = prt, sin_addr = any4\<rparr>) (\<lambda>fd4.
          returnS (\<not> (fd4 < 0 \<and> fd6 < 0), \<lparr>ls_fd_6 = fd6, ls_fd_4 = fd4\<rparr>)))
      | Some text \<Rightarrow>
          (case pe_pton4 env text of
             Some a \<Rightarrow>
               bindS (listen4 \<lparr>sin_family = AF_INET, sin_port = prt, sin_addr = a\<rparr>) (\<lambda>fd4.
               returnS (\<not> fd4 < 0, no_listeners\<lparr>ls_fd_4 := fd4\<rparr>))
           | None \<Rightarrow>
               (case pe_pton6 env text of
                  Some a \<Rightarrow>
                    bindS (listen6 \<lparr>sin6_family = AF_INET6, sin6_port = prt, sin6_addr = a\<rparr>) (\<lambda>fd6.
                    returnS (\<not> fd6 < 0, no_listeners\<lparr>ls_fd_6 := fd6\<rparr>))
                | None \<Rightarrow> returnS (False, no_listeners))))"

text \<open>The two registrations, the IPv4 socket first: a failure counts when there is no other socket.\<close>

definition register_listener ::
  "'o penv \<Rightarrow> callback fd_handler \<Rightarrow> int \<Rightarrow> int \<Rightarrow> ('o, bool) prog" where
  "register_listener env h fd other =
     (if fd \<ge> 0
      then bindS (register_fd env fd h OP_READ None) (\<lambda>status. returnS (\<not> (status \<noteq> SELECTOR_SUCCESS \<and> other < 0)))
      else returnS True)"

definition register_listeners :: "'o penv \<Rightarrow> callback fd_handler \<Rightarrow> listeners \<Rightarrow> ('o, int) prog" where
  "register_listeners env h ls =
     bindS (register_listener env h (ls_fd_4 ls) (ls_fd_6 ls)) (\<lambda>ok.
     if \<not> ok then returnS (- 1)
     else bindS (register_listener env h (ls_fd_6 ls) (ls_fd_4 ls)) (\<lambda>ok.
          returnS (if ok then 1 else - 1)))"

definition proxy_handler :: "callback fd_handler" where
  "proxy_handler = \<lparr>fh_read = Some Accept_New_Connection, fh_write = None, fh_block = None, fh_close = None\<rparr>"

definition init_proxy_listener :: "'o penv \<Rightarrow> http_args \<Rightarrow> ('o, int \<times> listeners) prog" where
  "init_proxy_listener env args =
     bindS (open_listeners env (ipv6_only_proxy_listener env) (ipv4_only_proxy_listener env)
              (replicate 16 0) 0 (ha_http_addr args) (htons (ha_http_port args))) (\<lambda>(ok, ls).
     if \<not> ok then returnS (- 1, ls)
     else bindS (register_listeners env proxy_handler ls) (\<lambda>r. returnS (r, ls)))"

section \<open>The sockets of the management service\<close>

definition default_management_socket_settings :: "'o penv \<Rightarrow> int \<Rightarrow> address \<Rightarrow> ('o, int) prog" where
  "default_management_socket_settings env fd addr =
     bindS (sys_call (os_setsockopt (pe_os env) fd)) (\<lambda>r.
     if r < 0 then give_up env ''Management Setsockopt opt: SO_REUSEADDR''
     else bindS (selector_fd_set_nio env fd) (\<lambda>r.
       if r < 0 then give_up env ''Management selector_fd_set_nio''
       else bindS (sys_call (os_bind (pe_os env) fd addr)) (\<lambda>r.
         if r < 0 then give_up env ''Management bind'' else returnS fd)))"

definition ipv4_listener_socket :: "'o penv \<Rightarrow> sockaddr_in \<Rightarrow> ('o, int) prog" where
  "ipv4_listener_socket env a =
     bindS (sys_call (os_socket_udp (pe_os env) AF_INET)) (\<lambda>fd.
     if fd < 0 then give_up env ''Management socket creation''
     else default_management_socket_settings env fd (Addr4 a))"

definition ipv6_listener_socket :: "'o penv \<Rightarrow> sockaddr_in6 \<Rightarrow> ('o, int) prog" where
  "ipv6_listener_socket env a =
     bindS (sys_call (os_socket_udp (pe_os env) AF_INET6)) (\<lambda>fd.
     if fd < 0 then give_up env ''Management socket creation''
     else bindS (sys_call (os_v6only (pe_os env) fd)) (\<lambda>r.
       if r < 0 then give_up env ''Management Setsockopt opt: IPV6_ONLY''
       else default_management_socket_settings env fd (Addr6 a)))"

text \<open>127.0.0.1 in the order of the network, on a little-endian machine.\<close>

definition INADDR_LOOPBACK :: u32 where "INADDR_LOOPBACK = 16777343"

definition init_listener_socket :: "'o penv \<Rightarrow> http_args \<Rightarrow> ('o, bool \<times> listeners) prog" where
  "init_listener_socket env args =
     open_listeners env (ipv6_listener_socket env) (ipv4_listener_socket env)
       (replicate 15 0 @ [1]) INADDR_LOOPBACK (ha_mng_addr args) (htons (ha_mng_port args))"

definition managementHandler :: "callback fd_handler" where
  "managementHandler =
     \<lparr>fh_read = Some Management_Read, fh_write = None, fh_block = None, fh_close = Some Management_Close\<rparr>"

definition init_management :: "'o penv \<Rightarrow> http_args \<Rightarrow> ('o, int) prog" where
  "init_management env args =
     bindS (init_listener_socket env args) (\<lambda>(ok, ls).
     if \<not> ok then returnS (- 1)
     else bindS (register_listeners env managementHandler ls) (\<lambda>r.
       if r < 0 then returnS (- 1)
       else thenS (modifyW (\<lambda>w. w\<lparr>w_management := (w_management w)\<lparr>mg_passphrase := default_passphrase\<rparr>\<rparr>))
            (returnS 1)))"

section \<open>The loop\<close>

text \<open>
  One entry per round: what \<^verbatim>\<open>pselect\<close> delivers, and the two times asked for. The list ends where the
  signal handler has set \<^verbatim>\<open>finished\<close>.
\<close>

type_synonym 'o select_round = "('o psys \<Rightarrow> pselect_result) \<times> int \<times> int"

fun event_loop :: "'o penv \<Rightarrow> 'o select_round list \<Rightarrow> ('o, int) prog" where
  "event_loop env [] = returnS 0"
| "event_loop env ((pselect, now, now') # rounds) =
     bindS (selector_select (call env) pselect now now') (\<lambda>status.
     if status \<noteq> SELECTOR_SUCCESS then returnS 1 else event_loop env rounds)"

section \<open>The program\<close>

text \<open>
  \<open>setup\<close>: what the system says when \<^verbatim>\<open>selector_init\<close> installs its signal handler; \<open>mem\<close>: there is memory for the selector.
\<close>

definition init_selector ::
  "'o penv \<Rightarrow> signal_setup \<Rightarrow> bool \<Rightarrow> 'o world \<Rightarrow> fault + ((callback, attachment) fdselector option \<times> 'o world)" where
  "init_selector env setup mem w =
     (if selector_init setup \<noteq> SELECTOR_SUCCESS then Inr (None, w)
      else bindR (selector_new (pe_sel env) mem \<lparr>tv_sec = DEFAULT_SELECTOR_TIMEOUT, tv_nsec = 0\<rparr> MAX_CONNECTIONS) (\<lambda>s.
        case s of
          None \<Rightarrow> Inr (None, w)
        | Some s \<Rightarrow>
            let (now, st) = os_time (pe_os env) (w_os w);
                (r, s) = selector_set_garbage_collector (Some Connection_Garbage_Collect) DEFAULT_SELECTOR_TIMEOUT now s
            in Inr (if r < 0 then None else Some s, w\<lparr>w_os := st\<rparr>)))"

text \<open>
  From the selector to the loop: the value returned when it does not get there, and the descriptors of \<^verbatim>\<open>httpd\<close>, zero until
  \<^verbatim>\<open>init_proxy_listener\<close> sets them.
\<close>

definition start_up :: "'o penv \<Rightarrow> http_args \<Rightarrow> ('o, int option \<times> listeners) prog" where
  "start_up env args =
     bindS (init_logger env) (\<lambda>r.
     if r < 0 then returnS (Some 0, \<lparr>ls_fd_6 = 0, ls_fd_4 = 0\<rparr>)
     else let d = ha_doh args
          in thenS (init_doh env (da_ip d) (da_port d) (da_path d) (da_host d))
             (thenS (modifyW (\<lambda>w. w\<lparr>w_metrics := init_metrics\<rparr>))
             (bindS (init_proxy_listener env args) (\<lambda>(r, ls).
              if r < 0
              then thenS (log_level_msg env (ascii ''Passive socket creation'') LEVEL_ERROR) (returnS (Some 2, ls))
              else bindS (init_management env args) (\<lambda>r.
                if r < 0
                then thenS (log_level_msg env (ascii ''Management socket creation'') LEVEL_ERROR) (returnS (Some 2, ls))
                else returnS (None, ls))))))"

text \<open>The end: the second \<^verbatim>\<open>close\<close> is on the first descriptor again.\<close>

definition close_listeners :: "'o penv \<Rightarrow> listeners \<Rightarrow> 'o \<Rightarrow> 'o" where
  "close_listeners env ls st =
     (let st = (if ls_fd_6 ls \<ge> 0 then os_close (pe_os env) (ls_fd_6 ls) st else st)
      in if ls_fd_4 ls \<ge> 0 then os_close (pe_os env) (ls_fd_6 ls) st else st)"

definition httpd_end ::
  "'o penv \<Rightarrow> (callback, attachment) fdselector option \<Rightarrow> listeners \<Rightarrow> int \<Rightarrow> 'o world \<Rightarrow> fault + (int \<times> 'o world)" where
  "httpd_end env s ls ret w =
     bindR (selector_destroy (call env) (s, w)) (\<lambda>w.
     Inr (ret, w\<lparr>w_os := close_listeners env ls (w_os w)\<rparr>))"

text \<open>The value returned, or the code the process exits with, and the state at the end.\<close>

definition httpd_main ::
  "'o penv \<Rightarrow> bool \<Rightarrow> (int \<times> bytes) list \<Rightarrow> bool \<Rightarrow> signal_setup \<Rightarrow> bool \<Rightarrow> 'o select_round list \<Rightarrow> 'o world \<Rightarrow> fault + (int \<times> 'o world)" where
  "httpd_main env stale opts left setup mem rounds w =
     (case parse_args stale opts left of
        Inl code \<Rightarrow> Inr (code, w)
      | Inr args \<Rightarrow>
          let w = w\<lparr>w_disectors_enabled := ha_disectors_enabled args, w_os := os_close (pe_os env) 0 (w_os w),
                    w_inactive_threshold := MAX_INACTIVE_TIME\<rparr>
          in bindR (init_selector env setup mem w) (\<lambda>(s, w).
             case s of
               None \<Rightarrow> httpd_end env None \<lparr>ls_fd_6 = 0, ls_fd_4 = 0\<rparr> 0 w
             | Some s \<Rightarrow>
                 bindR (start_up env args (s, w)) (\<lambda>((ret, ls), sw).
                 case ret of
                   Some ret \<Rightarrow> httpd_end env (Some (fst sw)) ls ret (snd sw)
                 | None \<Rightarrow>
                     bindR (event_loop env rounds sw) (\<lambda>(ret, sw).
                     httpd_end env (Some (fst sw)) ls ret (snd sw)))))"


section \<open>Starting\<close>

text \<open>Every system call on the way succeeds, and the four sockets have these descriptors.\<close>

definition sockets_granted :: "'o penv \<Rightarrow> int \<Rightarrow> int \<Rightarrow> int \<Rightarrow> int \<Rightarrow> bool" where
  "sockets_granted env l6 l4 m6 m4 \<longleftrightarrow>
     (\<forall>st. fst (os_socket (pe_os env) AF_INET6 st) = l6 \<and> fst (os_socket (pe_os env) AF_INET st) = l4 \<and>
        fst (os_socket_udp (pe_os env) AF_INET6 st) = m6 \<and> fst (os_socket_udp (pe_os env) AF_INET st) = m4) \<and>
     (\<forall>fd st. 0 \<le> fst (os_setsockopt (pe_os env) fd st) \<and> 0 \<le> fst (os_v6only (pe_os env) fd st) \<and>
        0 \<le> fst (os_listen (pe_os env) fd st)) \<and>
     (\<forall>fd a st. 0 \<le> fst (os_bind (pe_os env) fd a st)) \<and>
     distinct [1, 2, l6, l4, m6, m4] \<and> (\<forall>fd \<in> {l6, l4, m6, m4}. \<not> invalid_fd fd)"

text \<open>A program that only changes the state of the operating system.\<close>

definition opens :: "('o, 'a) prog \<Rightarrow> 'a \<Rightarrow> bool" where
  "opens m x \<longleftrightarrow> (\<forall>s w. \<exists>st. m (s, w) = Inr (x, (s, w\<lparr>w_os := st\<rparr>)))"

lemma opens_sys_call: "(\<And>st. fst (f st) = x) \<Longrightarrow> opens (sys_call f) x"
  by (auto simp: opens_def run_sys_call)

lemma opensD: "opens m x \<Longrightarrow> \<exists>st'. m (s, w\<lparr>w_os := st\<rparr>) = Inr (x, (s, w\<lparr>w_os := st'\<rparr>))"
  unfolding opens_def by (drule spec [of _ s], drule spec [of _ "w\<lparr>w_os := st\<rparr>"]) simp

lemma opens_bind: "opens m x \<Longrightarrow> opens (f x) y \<Longrightarrow> opens (bindS m f) y"
  unfolding opens_def [of "bindS m f"]
proof (intro allI)
  fix s w assume m: "opens m x" "opens (f x) y"
  obtain st where st: "m (s, w) = Inr (x, (s, w\<lparr>w_os := st\<rparr>))" using m(1) by (auto simp: opens_def)
  obtain st' where "f x (s, w\<lparr>w_os := st\<rparr>) = Inr (y, (s, w\<lparr>w_os := st'\<rparr>))" using opensD [OF m(2)] by blast
  then show "\<exists>st. bindS m f (s, w) = Inr (y, (s, w\<lparr>w_os := st\<rparr>))" using st by (auto simp: run_simps)
qed

lemma opens_return: "opens (returnS x) x"
  unfolding opens_def
proof (intro allI)
  fix s w show "\<exists>st. returnS x (s, w) = Inr (x, (s, w\<lparr>w_os := st\<rparr>))" by (intro exI [of _ "w_os w"]) (simp add: run_simps)
qed

lemma opens_check:
  fixes g :: "'o \<Rightarrow> int \<times> 'o"
  assumes "\<And>st. 0 \<le> fst (g st)" "opens k y"
  shows "opens (bindS (sys_call g) (\<lambda>r. if r < 0 then bad else k)) y"
  unfolding opens_def
proof (intro allI)
  fix s w
  obtain st where "k (s, w\<lparr>w_os := snd (g (w_os w))\<rparr>) = Inr (y, (s, w\<lparr>w_os := st\<rparr>))"
    using opensD [OF assms(2)] by blast
  then show "\<exists>st. bindS (sys_call g) (\<lambda>r. if r < 0 then bad else k) (s, w) = Inr (y, (s, w\<lparr>w_os := st\<rparr>))"
    using assms(1) [of "w_os w"] by (intro exI [of _ st]) (simp add: run_simps leD)
qed

lemma opens_nio: "os_grants env \<Longrightarrow> opens k y \<Longrightarrow> opens (bindS (selector_fd_set_nio env fd) (\<lambda>r. if r < 0 then bad else k)) y"
  by (rule opens_bind [of _ 0]) (use nio_granted in \<open>auto simp: opens_def\<close>)

lemma opens_socket:
  fixes g :: "'o \<Rightarrow> int \<times> 'o"
  assumes "\<And>st. fst (g st) = fd" "0 \<le> fd" "opens (k fd) y"
  shows "opens (bindS (sys_call g) (\<lambda>fd. if fd < 0 then bad else k fd)) y"
  using opens_bind [OF opens_sys_call [of g, OF assms(1)], of "\<lambda>fd. if fd < 0 then bad else k fd"] assms(2,3) by simp

lemma listeners_open:
  assumes "os_grants env" "sockets_granted env l6 l4 m6 m4"
  shows "opens (ipv6_only_proxy_listener env a6) l6" "opens (ipv4_only_proxy_listener env a4) l4"
    "opens (ipv6_listener_socket env a6) m6" "opens (ipv4_listener_socket env a4) m4"
proof -
  note g = assms(2) [unfolded sockets_granted_def invalid_fd_def]
  have pos: "0 \<le> l6" "0 \<le> l4" "0 \<le> m6" "0 \<le> m4" using g by auto
  have d: "opens (default_proxy_settings env fd a) fd" "opens (default_management_socket_settings env fd a) fd" for fd a
    unfolding default_proxy_settings_def default_management_socket_settings_def
    by (intro opens_check opens_nio opens_return assms(1); use g in blast)+
  show "opens (ipv6_only_proxy_listener env a6) l6" unfolding ipv6_only_proxy_listener_def
    by (rule opens_socket [OF _ pos(1) opens_check [OF _ d(1)]]; use g in blast)
  show "opens (ipv4_only_proxy_listener env a4) l4" unfolding ipv4_only_proxy_listener_def
    by (rule opens_socket [OF _ pos(2) d(1)]; use g in blast)
  show "opens (ipv6_listener_socket env a6) m6" unfolding ipv6_listener_socket_def
    by (rule opens_socket [OF _ pos(3) opens_check [OF _ d(2)]]; use g in blast)
  show "opens (ipv4_listener_socket env a4) m4" unfolding ipv4_listener_socket_def
    by (rule opens_socket [OF _ pos(4) d(2)]; use g in blast)
qed

lemma both_open:
  assumes "\<And>a. opens (listen6 a) fd6" "\<And>a. opens (listen4 a) fd4" "0 \<le> fd4"
  shows "opens (open_listeners env listen6 listen4 any6 any4 None prt) (True, \<lparr>ls_fd_6 = fd6, ls_fd_4 = fd4\<rparr>)"
proof -
  have "opens (returnS (\<not> (fd4 < 0 \<and> fd6 < 0), \<lparr>ls_fd_6 = fd6, ls_fd_4 = fd4\<rparr>)) (True, \<lparr>ls_fd_6 = fd6, ls_fd_4 = fd4\<rparr>)"
    using opens_return [of "(\<not> (fd4 < 0 \<and> fd6 < 0), \<lparr>ls_fd_6 = fd6, ls_fd_4 = fd4\<rparr>)"] assms(3) by simp
  then show ?thesis unfolding open_listeners_def by (auto intro!: opens_bind assms(1,2))
qed

lemma register_one:
  assumes "sel_inv s" "\<not> invalid_fd fd" "sel_entry s (nat fd) = None"
  shows "\<exists>s'. register_fd env fd h n d (s, w) = Inr (SELECTOR_SUCCESS, (s', w)) \<and> sel_inv s' \<and>
    sel_entry s' = (sel_entry s)(nat fd \<mapsto> (h, n, d))"
  using register_inv [OF assms(1), of "pe_sel env" fd "Some h" n d] assms(2,3) by (auto simp: register_fd_def)

lemma register_both:
  assumes "sel_inv s" "\<not> invalid_fd fd6" "\<not> invalid_fd fd4" "fd6 \<noteq> fd4" "sel_entry s (nat fd6) = None" "sel_entry s (nat fd4) = None"
  shows "\<exists>s'. register_listeners env h \<lparr>ls_fd_6 = fd6, ls_fd_4 = fd4\<rparr> (s, w) = Inr (1, (s', w)) \<and> sel_inv s' \<and>
    sel_entry s' = (sel_entry s)(nat fd4 \<mapsto> (h, OP_READ, None), nat fd6 \<mapsto> (h, OP_READ, None))"
proof -
  have ne: "nat fd6 \<noteq> nat fd4" "0 \<le> fd6" "0 \<le> fd4" using assms(2-4) by (auto simp: invalid_fd_def)
  obtain s1 where 1: "register_fd env fd4 h OP_READ None (s, w) = Inr (SELECTOR_SUCCESS, (s1, w))" "sel_inv s1"
      "sel_entry s1 = (sel_entry s)(nat fd4 \<mapsto> (h, OP_READ, None))"
    using register_one [OF assms(1,3,6)] by blast
  obtain s2 where 2: "register_fd env fd6 h OP_READ None (s1, w) = Inr (SELECTOR_SUCCESS, (s2, w))" "sel_inv s2"
      "sel_entry s2 = (sel_entry s1)(nat fd6 \<mapsto> (h, OP_READ, None))"
    using register_one [OF 1(2) assms(2)] 1(3) assms(5) ne(1) by fastforce
  show ?thesis using 1 2 ne by (intro exI [of _ s2]) (simp add: register_listeners_def register_listener_def run_simps)
qed

lemma sel_inv_settings:
  assumes "sel_inv s" "gc_collect g \<noteq> None"
  shows "sel_inv (s\<lparr>fs_master_t := t, fs_gc := g\<rparr>) \<and> sel_entry (s\<lparr>fs_master_t := t, fs_gc := g\<rparr>) = sel_entry s"
proof -
  have e: "sel_entry (s\<lparr>fs_master_t := t, fs_gc := g\<rparr>) = sel_entry s" by (simp add: sel_entry_def fun_eq_iff)
  then have "wants f (s\<lparr>fs_master_t := t, fs_gc := g\<rparr>) i = wants f s i" for f i by (simp add: wants_def)
  then show ?thesis using assms e by (simp add: sel_inv_def sel_ok_def slots_ok_def sets_ok_def)
qed

lemma selector_made:
  assumes "\<And>k. sl_calloc (pe_sel env) k"
  shows "\<exists>s st. init_selector env signals_set True w = Inr (Some s, w\<lparr>w_os := st\<rparr>) \<and> sel_inv s \<and> sel_entry s = Map.empty"
proof -
  obtain m where m: "next_capacity MAX_CONNECTIONS = Inr m" "MAX_CONNECTIONS < m" "m \<le> ITEMS_MAX_SIZE + 1"
    using next_capacity_bounds [of MAX_CONNECTIONS] by (auto simp: MAX_CONNECTIONS_def ITEMS_MAX_SIZE_def)
  have m': "m = Suc ITEMS_MAX_SIZE" using m(2,3) by (simp add: MAX_CONNECTIONS_def ITEMS_MAX_SIZE_def)
  let ?t = "\<lparr>tv_sec = DEFAULT_SELECTOR_TIMEOUT, tv_nsec = 0\<rparr>"
  have "selector_new (pe_sel env) True ?t MAX_CONNECTIONS =
      Inr (Some (zero_selector\<lparr>fs_master_t := ?t, fs_fds := map item_init (replicate m zero_item), fs_fd_size := m\<rparr>))"
    using m assms by (simp add: selector_new_def ensure_capacity_def zero_selector_def items_init_def overwrite_def MAX_CONNECTIONS_def ITEMS_MAX_SIZE_def
        del: replicate_Suc)
  moreover obtain now st where "os_time (pe_os env) (w_os w) = (now, st)" by fastforce
  moreover let ?s = "empty_selector\<lparr>fs_master_t := ?t, fs_gc := \<lparr>gc_collect = Some Connection_Garbage_Collect,
      gc_interval = DEFAULT_SELECTOR_TIMEOUT, gc_last_collection = now\<rparr>\<rparr>"
  have "sel_inv ?s \<and> sel_entry ?s = Map.empty" using sel_inv_settings [OF empty_selector_inv(1)] empty_selector_inv(2) by simp
  ultimately show ?thesis
    by (intro exI [of _ ?s] exI [of _ st])
      (simp add: init_selector_def selector_set_garbage_collector_def m' empty_selector_def DEFAULT_SELECTOR_TIMEOUT_def del: replicate_Suc)
qed

lemma logger_made:
  assumes "os_grants env" "sel_inv s" "sel_entry s = Map.empty"
  shows "\<exists>s' w'. init_logger env (s, w) = Inr (1, (s', w')) \<and> sel_inv s' \<and>
    sel_entry s' = [1 \<mapsto> (logger_handler, OP_NOOP, Some Stdout_Buffer), 2 \<mapsto> (logger_handler, OP_NOOP, Some Stderr_Buffer)] \<and>
    w_conns w' = w_conns w \<and> w_next w' = w_next w \<and> w_buffers_size w' = w_buffers_size w \<and> w_management w' = w_management w \<and>
    buffer_inv (w_stdout_buffer w') \<and> buffer_inv (w_stderr_buffer w')"
proof -
  let ?n = LOGGER_BUFFER_SIZE
  obtain b1 st1 where 1: "os_malloc (pe_os env) ?n (w_os w) = (Some b1, st1)" "length b1 = ?n"
    using assms(1) by (metis os_grants_def prod.collapse)
  obtain b2 st2 where 2: "os_malloc (pe_os env) ?n st1 = (Some b2, st2)" "length b2 = ?n"
    using assms(1) by (metis os_grants_def prod.collapse)
  let ?w = "\<lambda>st. w\<lparr>w_stdout_buffer := buffer_init ?n b1, w_stderr_buffer := buffer_init ?n b2, w_os := st\<rparr>"
  let ?w2 = "w\<lparr>w_stdout_buffer := buffer_init ?n b1, w_os := st2, w_stderr_buffer := buffer_init ?n b2\<rparr>"
  obtain st3 where 3: "selector_fd_set_nio env STDOUT_FILENO (s, ?w2) = Inr (0, (s, ?w st3))"
    using nio_granted [OF assms(1), of STDOUT_FILENO s ?w2] by auto
  obtain st4 where 4: "selector_fd_set_nio env STDERR_FILENO (s, ?w st3) = Inr (0, (s, ?w st4))"
    using nio_granted [OF assms(1), of STDERR_FILENO s "?w st3"] by auto
  have v: "\<not> invalid_fd STDOUT_FILENO" "\<not> invalid_fd STDERR_FILENO" by (simp_all add: invalid_fd_def ITEMS_MAX_SIZE_def STDOUT_FILENO_def STDERR_FILENO_def)
  obtain s1 where 5: "register_fd env STDOUT_FILENO logger_handler OP_NOOP (Some Stdout_Buffer) (s, ?w st4) = Inr (SELECTOR_SUCCESS, (s1, ?w st4))"
      "sel_inv s1" "sel_entry s1 = [1 \<mapsto> (logger_handler, OP_NOOP, Some Stdout_Buffer)]"
    using register_one [OF assms(2) v(1), of env logger_handler OP_NOOP "Some Stdout_Buffer" "?w st4"] assms(3) by (auto simp: STDOUT_FILENO_def)
  obtain s2 where 6: "register_fd env STDERR_FILENO logger_handler OP_NOOP (Some Stderr_Buffer) (s1, ?w st4) = Inr (SELECTOR_SUCCESS, (s2, ?w st4))"
      "sel_inv s2" "sel_entry s2 = [1 \<mapsto> (logger_handler, OP_NOOP, Some Stdout_Buffer), 2 \<mapsto> (logger_handler, OP_NOOP, Some Stderr_Buffer)]"
    using register_one [OF 5(2) v(2), of env logger_handler OP_NOOP "Some Stderr_Buffer" "?w st4"] 5(3) by (auto simp: STDERR_FILENO_def)
  have "init_logger env (s, w) = Inr (1, (s2, ?w st4))"
    using 1(1) 2(1) 3 4 5(1) 6(1) by (simp add: init_logger_def run_simps)
  then show ?thesis using 6 1(2) 2(2) by (intro exI [of _ s2] exI [of _ "?w st4"]) (simp add: buffer_inv_init)
qed

text \<open>The program with its default addresses has started.\<close>

definition started :: "int \<Rightarrow> int \<Rightarrow> int \<Rightarrow> int \<Rightarrow> 'o psys \<Rightarrow> bool" where
  "started l6 l4 m6 m4 sw \<longleftrightarrow>
     sel_inv (fst sw) \<and> w_metrics (snd sw) = init_metrics \<and>
     buffer_inv (w_stdout_buffer (snd sw)) \<and> buffer_inv (w_stderr_buffer (snd sw)) \<and>
     mg_passphrase (w_management (snd sw)) = default_passphrase \<and>
     sel_entry (fst sw) =
       [1 \<mapsto> (logger_handler, OP_NOOP, Some Stdout_Buffer), 2 \<mapsto> (logger_handler, OP_NOOP, Some Stderr_Buffer),
        nat l4 \<mapsto> (proxy_handler, OP_READ, None), nat l6 \<mapsto> (proxy_handler, OP_READ, None),
        nat m4 \<mapsto> (managementHandler, OP_READ, None), nat m6 \<mapsto> (managementHandler, OP_READ, None)]"

lemma proxy_listens:
  assumes "os_grants env" "sockets_granted env l6 l4 m6 m4" "ha_http_addr args = None" "sel_inv s"
    "sel_entry s (nat l6) = None" "sel_entry s (nat l4) = None"
  shows "\<exists>s' st. init_proxy_listener env args (s, w) = Inr ((1, \<lparr>ls_fd_6 = l6, ls_fd_4 = l4\<rparr>), (s', w\<lparr>w_os := st\<rparr>)) \<and>
    sel_inv s' \<and> sel_entry s' = (sel_entry s)(nat l4 \<mapsto> (proxy_handler, OP_READ, None), nat l6 \<mapsto> (proxy_handler, OP_READ, None))"
proof -
  let ?ls = "\<lparr>ls_fd_6 = l6, ls_fd_4 = l4\<rparr>"
  have v: "\<not> invalid_fd l6" "\<not> invalid_fd l4" "l6 \<noteq> l4" "0 \<le> l4"
    using assms(2) by (auto simp: sockets_granted_def invalid_fd_def)
  obtain st where 1: "open_listeners env (ipv6_only_proxy_listener env) (ipv4_only_proxy_listener env) (replicate 16 0) 0 None
      (htons (ha_http_port args)) (s, w) = Inr ((True, ?ls), (s, w\<lparr>w_os := st\<rparr>))"
    using both_open [of "ipv6_only_proxy_listener env" l6 "ipv4_only_proxy_listener env" l4 env "replicate 16 0" 0 "htons (ha_http_port args)"]
      listeners_open(1,2) [OF assms(1,2)] v(4) unfolding opens_def by blast
  obtain s' where "register_listeners env proxy_handler ?ls (s, w\<lparr>w_os := st\<rparr>) = Inr (1, (s', w\<lparr>w_os := st\<rparr>))" "sel_inv s'"
      "sel_entry s' = (sel_entry s)(nat l4 \<mapsto> (proxy_handler, OP_READ, None), nat l6 \<mapsto> (proxy_handler, OP_READ, None))"
    using register_both [OF assms(4) v(1-3) assms(5,6)] by blast
  then show ?thesis using 1 assms(3)
    by (intro exI [of _ s'] exI [of _ st]) (simp add: init_proxy_listener_def run_simps)
qed

lemma management_listens:
  assumes "os_grants env" "sockets_granted env l6 l4 m6 m4" "ha_mng_addr args = None" "sel_inv s"
    "sel_entry s (nat m6) = None" "sel_entry s (nat m4) = None"
  shows "\<exists>s' st. init_management env args (s, w) = Inr (1, (s', w\<lparr>w_os := st,
      w_management := (w_management w)\<lparr>mg_passphrase := default_passphrase\<rparr>\<rparr>)) \<and>
    sel_inv s' \<and> sel_entry s' = (sel_entry s)(nat m4 \<mapsto> (managementHandler, OP_READ, None), nat m6 \<mapsto> (managementHandler, OP_READ, None))"
proof -
  let ?ls = "\<lparr>ls_fd_6 = m6, ls_fd_4 = m4\<rparr>"
  have v: "\<not> invalid_fd m6" "\<not> invalid_fd m4" "m6 \<noteq> m4" "0 \<le> m4"
    using assms(2) by (auto simp: sockets_granted_def invalid_fd_def)
  obtain st where 1: "init_listener_socket env args (s, w) = Inr ((True, ?ls), (s, w\<lparr>w_os := st\<rparr>))"
    using both_open [of "ipv6_listener_socket env" m6 "ipv4_listener_socket env" m4 env "replicate 15 0 @ [1]" INADDR_LOOPBACK
      "htons (ha_mng_port args)"] listeners_open(3,4) [OF assms(1,2)] v(4)
    unfolding opens_def init_listener_socket_def assms(3) by blast
  obtain s' where "register_listeners env managementHandler ?ls (s, w\<lparr>w_os := st\<rparr>) = Inr (1, (s', w\<lparr>w_os := st\<rparr>))" "sel_inv s'"
      "sel_entry s' = (sel_entry s)(nat m4 \<mapsto> (managementHandler, OP_READ, None), nat m6 \<mapsto> (managementHandler, OP_READ, None))"
    using register_both [OF assms(4) v(1-3) assms(5,6)] by blast
  then show ?thesis using 1
    by (intro exI [of _ s'] exI [of _ st]) (simp add: init_management_def run_simps)
qed

section \<open>Running\<close>

lemma reached_trans: "reached caller sw1 sw2 \<Longrightarrow> reached caller sw0 sw1 \<Longrightarrow> reached caller sw0 sw2"
  by (induction rule: reached.induct) (auto intro: reached.intros)

definition sets_sized :: "('o psys \<Rightarrow> pselect_result) \<Rightarrow> bool" where
  "sets_sized pselect \<longleftrightarrow>
     (\<forall>sw. case pselect sw of Ready r w \<Rightarrow> length r = ITEMS_MAX_SIZE \<and> length w = ITEMS_MAX_SIZE | pselect_result.Failed e \<Rightarrow> True)"

text \<open>
  A round, and the loop, end in order, or in a fault of a handler called in a state that was in order, or because an item is
  watched for an event its handler has no function for.
\<close>

definition sound :: "'o penv \<Rightarrow> 'o psys \<Rightarrow> fault + ('a \<times> 'o psys) \<Rightarrow> bool" where
  "sound env sw r \<longleftrightarrow>
     (case r of
        Inr (_, sw') \<Rightarrow> sel_inv (fst sw') \<and> reached (call env) sw sw'
      | Inl e \<Rightarrow>
          (\<exists>f key sw'. sel_inv (fst sw') \<and> reached (call env) sw sw' \<and> handler_of env f key sw' = Inl e) \<or>
          e = AssertFail \<and> (\<exists>sw'. sel_inv (fst sw') \<and> reached (call env) sw sw' \<and> unhandled (fst sw')))"

lemma sound_round:
  assumes "sel_inv (fst sw)" "sets_sized pselect"
  shows "sound env sw (selector_select (call env) pselect now now' sw)"
proof -
  have "proxy.outcome env sw (selector_select (call env) pselect now now' sw) snd"
    by (rule proxy.select_outcome [OF assms(1)]) (use assms(2) in \<open>simp add: sets_sized_def del: split_paired_All\<close>)
  moreover have "call env f key sw' = Inl e \<longleftrightarrow> handler_of env f key sw' = Inl e" for f key sw' e
    by (auto simp: call_def res_simps)
  ultimately show ?thesis unfolding sound_def proxy.outcome_def proxy.fine_def by (auto split: sum.splits)
qed

lemma sound_from: "reached (call env) sw0 sw \<Longrightarrow> sound env sw r \<Longrightarrow> sound env sw0 r"
proof (cases r)
  case (Inl e)
  moreover assume "reached (call env) sw0 sw" "sound env sw r"
  ultimately show ?thesis by (simp add: sound_def del: split_paired_Ex) (meson reached_trans)
next
  case (Inr x)
  moreover assume "reached (call env) sw0 sw" "sound env sw r"
  ultimately show ?thesis unfolding sound_def by (auto intro: reached_trans)
qed

lemma sound_loop:
  "sel_inv (fst sw) \<Longrightarrow> \<forall>(pselect, _) \<in> set rounds. sets_sized pselect \<Longrightarrow> sound env sw (event_loop env rounds sw)"
proof (induction rounds arbitrary: sw)
  case Nil
  then show ?case by (simp add: sound_def returnS_def reached.start)
next
  case (Cons r rounds)
  obtain pselect now now' where r: "r = (pselect, now, now')" by (cases r) auto
  have one: "sound env sw (selector_select (call env) pselect now now' sw)"
    using Cons.prems by (intro sound_round) (auto simp: r)
  show ?case
  proof (cases "selector_select (call env) pselect now now' sw")
    case (Inl e)
    then show ?thesis using one by (simp add: r bindS_def sound_def)
  next
    case (Inr x)
    obtain status sw' where x: "x = (status, sw')" by (cases x)
    have sw': "sel_inv (fst sw')" "reached (call env) sw sw'" using one by (simp_all add: Inr x sound_def)
    show ?thesis
    proof (cases "status = SELECTOR_SUCCESS")
      case True
      then have "event_loop env (r # rounds) sw = event_loop env rounds sw'" by (simp add: r bindS_def Inr x)
      moreover have "sound env sw' (event_loop env rounds sw')" using Cons by (intro Cons.IH sw'(1)) auto
      ultimately show ?thesis using sound_from [OF sw'(2)] by simp
    next
      case False
      then show ?thesis using sw' by (simp add: r bindS_def Inr x sound_def returnS_def)
    qed
  qed
qed

lemma loop_value: "event_loop env rounds sw = Inr (v, sw') \<Longrightarrow> v = 0 \<or> v = 1"
proof (induction rounds arbitrary: sw)
  case (Cons r rounds)
  then show ?case by (cases r) (auto simp: bindS_def res_simps returnS_def split: if_splits)
qed (simp add: returnS_def)

section \<open>Properties\<close>

text \<open>
  C21: Started without addresses, on a system that grants the calls, the program reaches its loop with the selector in
  order and exactly six descriptors in it: the two of the log, silent, each with its own
  buffer in order, the two sockets clients connect to and the two sockets of the management service, all
  four watched for reading. The counters are zero and the passphrase is set.
\<close>

theorem server_starts:
  assumes "os_grants env" "\<And>k. sl_calloc (pe_sel env) k" "sockets_granted env l6 l4 m6 m4"
    "ha_http_addr args = None" "ha_mng_addr args = None"
  shows "\<exists>s0 w0 sw'. init_selector env signals_set True w = Inr (Some s0, w0) \<and>
    start_up env args (s0, w0) = Inr ((None, \<lparr>ls_fd_6 = l6, ls_fd_4 = l4\<rparr>), sw') \<and> started l6 l4 m6 m4 sw' \<and>
    w_conns (snd sw') = w_conns w \<and> w_buffers_size (snd sw') = w_buffers_size w"
proof -
  have g: "distinct [1, 2, l6, l4, m6, m4]" "0 \<le> l6" "0 \<le> l4" "0 \<le> m6" "0 \<le> m4"
    using assms(3) by (auto simp: sockets_granted_def invalid_fd_def)
  have nat: "distinct [1, 2, nat l6, nat l4, nat m6, nat m4]" using g by (simp add: nat_eq_iff nat_eq_iff2) blast
  obtain s0 st where 1: "init_selector env signals_set True w = Inr (Some s0, w\<lparr>w_os := st\<rparr>)" "sel_inv s0" "sel_entry s0 = Map.empty"
    using selector_made [OF assms(2)] by blast
  obtain s1 w1 where 2: "init_logger env (s0, w\<lparr>w_os := st\<rparr>) = Inr (1, (s1, w1))" "sel_inv s1"
      "sel_entry s1 = [1 \<mapsto> (logger_handler, OP_NOOP, Some Stdout_Buffer), 2 \<mapsto> (logger_handler, OP_NOOP, Some Stderr_Buffer)]"
      "w_conns w1 = w_conns w" "w_buffers_size w1 = w_buffers_size w"
      "buffer_inv (w_stdout_buffer w1)" "buffer_inv (w_stderr_buffer w1)"
    using logger_made [OF assms(1) 1(2,3), of "w\<lparr>w_os := st\<rparr>"] by auto
  obtain d where d: "init_doh env (da_ip (ha_doh args)) (da_port (ha_doh args)) (da_path (ha_doh args)) (da_host (ha_doh args)) (s1, w1) =
      Inr ((), (s1, w1\<lparr>w_doh_server := d\<rparr>))" by (simp add: init_doh_def run_simps)
  let ?w2 = "w1\<lparr>w_doh_server := d, w_metrics := init_metrics\<rparr>"
  have n1: "sel_entry s1 (nat l6) = None" "sel_entry s1 (nat l4) = None" using nat by (auto simp: 2(3))
  obtain s2 st2 where 3: "init_proxy_listener env args (s1, ?w2) = Inr ((1, \<lparr>ls_fd_6 = l6, ls_fd_4 = l4\<rparr>), (s2, ?w2\<lparr>w_os := st2\<rparr>))" "sel_inv s2"
      "sel_entry s2 = (sel_entry s1)(nat l4 \<mapsto> (proxy_handler, OP_READ, None), nat l6 \<mapsto> (proxy_handler, OP_READ, None))"
    using proxy_listens [OF assms(1,3,4) 2(2) n1] by blast
  have n2: "sel_entry s2 (nat m6) = None" "sel_entry s2 (nat m4) = None" using nat by (auto simp: 2(3) 3(3))
  obtain s3 st3 where 4: "init_management env args (s2, ?w2\<lparr>w_os := st2\<rparr>) = Inr (1, (s3, ?w2\<lparr>w_os := st2\<rparr>\<lparr>w_os := st3,
      w_management := (w_management (?w2\<lparr>w_os := st2\<rparr>))\<lparr>mg_passphrase := default_passphrase\<rparr>\<rparr>))" "sel_inv s3"
      "sel_entry s3 = (sel_entry s2)(nat m4 \<mapsto> (managementHandler, OP_READ, None), nat m6 \<mapsto> (managementHandler, OP_READ, None))"
    using management_listens [OF assms(1,3,5) 3(2) n2] by blast
  let ?w3 = "?w2\<lparr>w_os := st2\<rparr>\<lparr>w_os := st3, w_management := (w_management (?w2\<lparr>w_os := st2\<rparr>))\<lparr>mg_passphrase := default_passphrase\<rparr>\<rparr>"
  have "start_up env args (s0, w\<lparr>w_os := st\<rparr>) = Inr ((None, \<lparr>ls_fd_6 = l6, ls_fd_4 = l4\<rparr>), (s3, ?w3))"
    using 2(1) d 3(1) 4(1) by (simp add: start_up_def run_simps Let_def)
  moreover have "started l6 l4 m6 m4 (s3, ?w3)"
    using 2 3(3) 4(2,3) by (simp add: started_def)
  ultimately show ?thesis using 1(1) 2(4,5) by (intro exI [of _ s0] exI [of _ "w\<lparr>w_os := st\<rparr>"] exI [of _ "(s3, ?w3)"]) simp
qed


text \<open>A system with four sockets, and a round in which nothing is ready.\<close>

definition serving_env :: "bytes penv" where
  "serving_env = some_env\<lparr>pe_os := some_os\<lparr>os_socket := (\<lambda>n st. (if n = AF_INET then 4 else 3, st)),
     os_socket_udp := (\<lambda>n st. (if n = AF_INET then 6 else 5, st))\<rparr>\<rparr>"

lemma serving_grants: "os_grants serving_env" "sockets_granted serving_env 3 4 5 6" "\<And>k. sl_calloc (pe_sel serving_env) k"
  by (simp_all add: os_grants_def sockets_granted_def serving_env_def some_os_def some_env_def sel_env_ok_def invalid_fd_def
      ITEMS_MAX_SIZE_def AF_INET_def AF_INET6_def)

theorem server_starts_witness:
  "\<exists>s0 w0 sw'. init_selector serving_env signals_set True (idle_world 8192) = Inr (Some s0, w0) \<and>
    start_up serving_env default_args (s0, w0) = Inr ((None, \<lparr>ls_fd_6 = 3, ls_fd_4 = 4\<rparr>), sw') \<and> started 3 4 5 6 sw'"
  using server_starts [OF serving_grants(1,3,2), of default_args "idle_world 8192"] by (auto simp: default_args_def)


end
