(* ===== verification/Forwarding.thy ===== *)
theory Forwarding
  imports Httpd Closing
begin

text \<open>
  The way of an accepted request: the line is rewritten, the origin or the name server is connected to, and the
  line is sent on, or the tunnel answered, until the connection relays.
\<close>

section \<open>Reading the line to its end\<close>

lemma request_begun:
  assumes "pieces_ok (pe_pton6 env) r" "version_ok ma mi"
  shows "run (feed_request env) (request_parser_init p) (target_bytes r @ http_slash @ ma @ [DOT] @ mi @ [CR]) =
    Inr (st_end (request_value (pe_pton4 env) (pe_pton6 env) r ma mi) request_end)"
proof -
  let ?rl = "target_line (pe_pton4 env) (pe_pton6 env) r"
  let ?q = "st_end (request_value (pe_pton4 env) (pe_pton6 env) r ma mi)"
  have z: "rl_version_major ?rl = 0" "rl_version_minor ?rl = 0" by (simp_all add: target_line_def rq_def)
  have v: "ma = [] \<or> (\<exists>d. ma = [d] \<and> is_digit d)" "mi = [] \<or> (\<exists>d. mi = [d] \<and> is_digit d)"
    using assms(2) by (auto simp: version_ok_def short_digits)
  have "run (feed_request env) (st_major ?rl []) (ma @ [DOT] @ mi @ [CR]) = Inr (?q request_end)"
    using v z by (auto simp: feed_major feed_minor feed_end request_value_def)
  then show ?thesis
    unfolding init_is_st_method by (intro run_then [OF run_target [OF assms(1)]] run_then [OF run_http_version [OF z(1)]])
qed

lemma end_not_final: "\<not> request_fin (st_end l request_end)"
  by (simp add: request_fin_def request_failed_def st_end_def)

lemma drive_request:
  assumes "pieces_ok (pe_pton6 env) r" "version_ok ma mi"
  shows "drive (feed_request env) request_fin (request_parser_init p) (request_bytes r ma mi @ rest) =
    Inr (st_end (request_value (pe_pton4 env) (pe_pton6 env) r ma mi) request_done, rest)"
proof -
  let ?q = "st_end (request_value (pe_pton4 env) (pe_pton6 env) r ma mi)"
  have "feed_request env (?q request_end) LF = Inr (?q request_done)" by (simp add: feed_end)
  moreover have "request_fin (?q request_done)" by (simp add: request_fin_def st_end_def)
  ultimately have "drive (feed_request env) request_fin (?q request_end) (LF # rest) = Inr (?q request_done, rest)" by simp
  moreover have "request_bytes r ma mi @ rest = (target_bytes r @ http_slash @ ma @ [DOT] @ mi @ [CR]) @ LF # rest"
    by (simp add: request_bytes_def)
  ultimately show ?thesis using req.drive_through [OF request_begun [OF assms] end_not_final] by metis
qed

lemma front_of: "xs @ ys = zs @ us \<Longrightarrow> length xs \<le> length zs \<Longrightarrow> \<exists>vs. zs = xs @ vs"
  by (auto simp: append_eq_append_conv2)

text \<open>After a part of the line the parser waits for the rest.\<close>

lemma drive_request_part:
  assumes "pieces_ok (pe_pton6 env) r" "version_ok ma mi" "xs @ ys = request_bytes r ma mi @ rest" "length xs < length (request_bytes r ma mi)"
  shows "\<exists>q. drive (feed_request env) request_fin (request_parser_init p) xs = Inr (q, []) \<and> \<not> request_fin q \<and>
    drive (feed_request env) request_fin q ys = Inr (st_end (request_value (pe_pton4 env) (pe_pton6 env) r ma mi) request_done, rest)"
proof -
  let ?begun = "target_bytes r @ http_slash @ ma @ [DOT] @ mi @ [CR]"
  have "request_bytes r ma mi = ?begun @ [LF]" by (simp add: request_bytes_def)
  then have "xs @ ys = ?begun @ LF # rest" "length xs \<le> length ?begun" using assms(3,4) by simp_all
  then obtain zs where zs: "?begun = xs @ zs" using front_of [of xs ys ?begun "LF # rest"] by blast
  obtain q where q: "run (feed_request env) (request_parser_init p) xs = Inr q"
      "run (feed_request env) q zs = Inr (st_end (request_value (pe_pton4 env) (pe_pton6 env) r ma mi) request_end)"
    using request_begun [OF assms(1,2), of p] unfolding zs by (auto simp: run_append bindR_eq_Inr)
  have nf: "\<not> request_fin q" using q(2) req.run_fin [of q] end_not_final by force
  show ?thesis
    using req.drive_through [OF q(1) nf, of "[]"] req.drive_through [OF q(1) nf, of ys] drive_request [OF assms(1,2), of p rest] nf
    by (intro exI [of _ q]) (simp add: assms(3))
qed

section \<open>The line for the origin\<close>

definition request_line_text :: "pieces \<Rightarrow> bytes" where
  "request_line_text r =
     (if q_method r = OPTIONS_method \<and> q_origin r = None then q_method r @ ascii '' * HTTP/1.0'' @ [CR, LF]
      else q_method r @ [SP] @ cstr (origin_value (q_method r) (q_origin r)) @ ascii '' HTTP/1.0'' @ [CR, LF])"

text \<open>\<^verbatim>\<open>inet_ntop\<close> writes at most the text of an IPv6 address.\<close>

definition ntop_ok :: "'o penv \<Rightarrow> bool" where
  "ntop_ok env \<longleftrightarrow> (\<forall>family bs. length (pe_ntop env family bs) \<le> 45)"

lemma no_zero_method: "method_ok m \<Longrightarrow> cstr m = m"
  by (intro cstr_id) (auto simp: method_ok_def is_token_def is_digit_def is_alpha_def)

lemma cstr_length: "length (cstr xs) \<le> length xs"
  by (simp add: cstr_def length_takeWhile_le)

lemma origin_text_length:
  assumes "ntop_ok env" "authority_ok (pe_pton6 env) a x"
  shows "\<exists>t. origin_text env (host_kind (pe_pton4 env) a) (host_value (pe_pton4 env) (pe_pton6 env) a prt) = Inr t \<and> length t \<le> 254"
proof -
  have n: "length (pe_ntop env f bs) \<le> 254" for f bs using assms(1) le_trans [of "length (pe_ntop env f bs)" 45 254] by (simp add: ntop_ok_def)
  show ?thesis
  proof (cases a)
    case (Name h)
    then have h: "length h \<le> 254" using assms(2) by simp
    show ?thesis
    proof (cases "pe_pton4 env (cstr h)")
      case None
      then show ?thesis using Name h cstr_length [of h] c_string_pad [of h 256] by (simp add: origin_text_def)
    qed (use Name n in \<open>auto simp: origin_text_def\<close>)
  next
    case (Bracket k b)
    then show ?thesis using assms(2) n by (auto simp: origin_text_def)
  qed
qed

lemma first_byte:
  assumes "length og \<le> 1023"
  shows "arr_get (pad 1024 og) 0 = Inr (if og = [] then 0 else hd og)"
  using assms by (cases og) (simp_all add: arr_get_def pad_def)

lemma sprintf_fits: "length t < n \<Longrightarrow> sprintf_array n t = Inr t"
  by (simp add: sprintf_array_def)

lemma request_of_line_value:
  assumes "ntop_ok env" "pieces_ok (pe_pton6 env) r"
  shows "\<exists>cr'. request_of_line env (request_value (pe_pton4 env) (pe_pton6 env) r ma mi) cr = Inr cr' \<and>
    cr_request_line cr' = request_line_text r \<and> cr_method cr' = q_method r \<and>
    cr_connect cr' = (cr_connect cr \<or> q_method r = CONNECT_method) \<and>
    cr_host_type cr' = host_kind (pe_pton4 env) (q_authority r) \<and>
    cr_host cr' = rt_host (rl_request_target (request_value (pe_pton4 env) (pe_pton6 env) r ma mi)) \<and>
    length (cr_method cr') < method_room \<and> length (cr_target cr') < target_room"
proof -
  let ?m = "q_method r" and ?og = "origin_value (q_method r) (q_origin r)" and ?t = "rl_request_target (target_line (pe_pton4 env) (pe_pton6 env) r)"
  let ?line = "request_value (pe_pton4 env) (pe_pton6 env) r ma mi"
  have m: "method_ok ?m" "length ?m \<le> 23" using assms(2) by (simp_all add: pieces_ok_def method_ok_def)
  obtain x where a: "authority_ok (pe_pton6 env) (q_authority r) x" using assms(2) by (auto simp: pieces_ok_def split: option.splits)
  have og: "length ?og \<le> 1023" using assms(2) by (auto simp: origin_value_def pieces_ok_def split: option.splits)
  obtain host where host: "origin_text env (rt_host_type ?t) (rt_host ?t) = Inr host" "length host \<le> 254"
    using origin_text_length [OF assms(1) a] by (auto simp: target_line_def rq_def target_value_def tgt_def)
  have line: "rl_method ?line = pad 25 ?m" "rl_request_target ?line = ?t" "rt_origin_form ?t = pad 1024 ?og"
    "rt_host_type ?t = host_kind (pe_pton4 env) (q_authority r)"
    by (simp_all add: request_value_def target_line_def rq_def target_value_def tgt_def)
  have strs: "c_string (pad 25 ?m) = Inr ?m" "c_string (pad 1024 ?og) = Inr (cstr ?og)" "length (cstr ?og) \<le> 1023"
    using c_string_pad [of ?m 25] c_string_pad [of ?og 1024] no_zero_method [OF m(1)] m(2) og cstr_length [of ?og] by simp_all
  have opt: "?m = OPTIONS_method \<and> (if ?og = [] then 0 else hd ?og) = 0 \<longleftrightarrow> ?m = OPTIONS_method \<and> q_origin r = None"
    using assms(2) by (auto simp: origin_value_def pieces_ok_def origin_ok_def end_of_authority_def split: option.splits)
  define cr1 where "cr1 = (if ?m = OPTIONS_method \<and> q_origin r = None then cr\<lparr>cr_request_line := request_line_text r\<rparr>
    else cr\<lparr>cr_connect := cr_connect cr \<or> ?m = CONNECT_method, cr_request_line := request_line_text r\<rparr>)"
  define cr2 where "cr2 = cr1\<lparr>cr_host_type := rt_host_type ?t, cr_port := ntohs (rt_port ?t), cr_host := rt_host ?t\<rparr>"
  define target where "target = (if rt_type ?t = absolute_form then ascii ''http://'' else []) @ host @ [COLON] @
    dec_text (unat (cr_port cr2)) @ (if cr_connect cr2 then [] else cstr ?og)"
  have fits: "sprintf_array request_line_room (?m @ ascii '' * HTTP/1.0'' @ [CR, LF]) = Inr (?m @ ascii '' * HTTP/1.0'' @ [CR, LF])"
    "sprintf_array request_line_room (?m @ [SP] @ cstr ?og @ ascii '' HTTP/1.0'' @ [CR, LF]) = Inr (?m @ [SP] @ cstr ?og @ ascii '' HTTP/1.0'' @ [CR, LF])"
    "sprintf_array target_room target = Inr target" "sprintf_array method_room ?m = Inr ?m"
    using m(2) strs(3) host(2) dec_text_word [of "cr_port cr2"]
    by (auto intro!: sprintf_fits simp: request_line_room_def target_room_def method_room_def request_consts target_def)
  have rest: "bindR (origin_text env (rt_host_type ?t) (rt_host ?t)) (\<lambda>origin_host.
      bindR (if cr_connect cr2 then Inr [] else c_string (rt_origin_form ?t)) (\<lambda>form.
      bindR (sprintf_array target_room ((if rt_type ?t = absolute_form then ascii ''http://'' else []) @ origin_host @ [COLON] @
          dec_text (unat (cr_port cr2)) @ form)) (\<lambda>target.
      bindR (sprintf_array method_room ?m) (\<lambda>method. Inr (cr2\<lparr>cr_target := target, cr_method := method\<rparr>))))) =
      Inr (cr2\<lparr>cr_target := target, cr_method := ?m\<rparr>)"
    using fits(3,4) strs(2) by (cases "cr_connect cr2") (simp_all add: host(1) line(3) target_def)
  have "request_of_line env ?line cr = Inr (cr2\<lparr>cr_target := target, cr_method := ?m\<rparr>)"
  proof (cases "?m = OPTIONS_method \<and> q_origin r = None")
    case True
    have c1: "cr\<lparr>cr_request_line := ?m @ ascii '' * HTTP/1.0'' @ [CR, LF]\<rparr> = cr1"
      using True by (simp add: cr1_def request_line_text_def)
    show ?thesis using rest
      by (simp only: request_of_line_def line(1-3) strs(1,2) bindR.simps first_byte [OF og] opt if_P [OF True] fits(1) c1
          cr2_def [symmetric] Let_def)
  next
    case False
    have c1: "cr\<lparr>cr_connect := cr_connect cr \<or> ?m = CONNECT_method,
        cr_request_line := ?m @ [SP] @ cstr ?og @ ascii '' HTTP/1.0'' @ [CR, LF]\<rparr> = cr1"
      using False by (auto simp: cr1_def request_line_text_def)
    show ?thesis using rest
      by (simp only: request_of_line_def line(1-3) strs(1,2) bindR.simps first_byte [OF og] opt if_not_P [OF False] fits(2) c1
          cr2_def [symmetric] Let_def)
  qed
  moreover have "length ?m < method_room" "length target < target_room"
    using fits(3,4) by (auto simp: sprintf_array_def split: if_splits)
  moreover have "cr_connect cr2 = (cr_connect cr \<or> ?m = CONNECT_method)" "cr_request_line cr2 = request_line_text r"
    by (auto simp: cr2_def cr1_def OPTIONS_method_def CONNECT_method_def)
  ultimately show ?thesis by (simp add: cr2_def line)
qed

section \<open>Connecting\<close>

text \<open>The calls for a socket to the origin succeed, and its descriptor is \<open>fd\<close>.\<close>

definition origin_granted :: "'o penv \<Rightarrow> int \<Rightarrow> bool" where
  "origin_granted env fd \<longleftrightarrow>
     os_grants env \<and> \<not> invalid_fd fd \<and> (\<forall>family st. fst (os_socket (pe_os env) family st) = fd) \<and>
     (\<forall>fd st. 0 \<le> fst (os_setsockopt (pe_os env) fd st)) \<and>
     (\<forall>fd a st. 0 \<le> fst (fst (os_connect (pe_os env) fd a st)) \<or> snd (fst (os_connect (pe_os env) fd a st)))"

lemma origin_opens:
  assumes "origin_granted env fd"
  shows "opens (establish_origin_connection env a family) fd"
proof -
  note g = assms [unfolded origin_granted_def invalid_fd_def]
  have pos: "0 \<le> fd" using g by simp
  have c: "opens (bindS (sys_call (os_connect (pe_os env) fd a)) (\<lambda>(r, in_progress).
      if r < 0 \<and> \<not> in_progress then thenS (sys_do (os_close (pe_os env) fd)) (returnS (- 1)) else returnS fd)) fd"
    unfolding opens_def
  proof (intro allI)
    fix s and w :: "'a world"
    obtain r b st where c: "os_connect (pe_os env) fd a (w_os w) = ((r, b), st)" by (metis prod.collapse)
    then have "\<not> (r < 0 \<and> \<not> b)" using g by (metis fst_conv snd_conv not_le)
    then show "\<exists>st. bindS (sys_call (os_connect (pe_os env) fd a)) (\<lambda>(r, in_progress).
        if r < 0 \<and> \<not> in_progress then thenS (sys_do (os_close (pe_os env) fd)) (returnS (- 1)) else returnS fd) (s, w) =
        Inr (fd, (s, w\<lparr>w_os := st\<rparr>))"
      using c by (intro exI [of _ st]) (auto simp: run_simps)
  qed
  show ?thesis unfolding establish_origin_connection_def
    by (rule opens_socket [OF _ pos]; (rule opens_nio [OF _ opens_check [OF _ c]])?; use g in blast)
qed

text \<open>The literal of a request line, as the address to connect to.\<close>

lemma literal_opens:
  assumes "origin_granted env fd" "authority_ok (pe_pton6 env) a x" "host_kind (pe_pton4 env) a \<noteq> domain"
  shows "opens (if host_kind (pe_pton4 env) a = ipv4
      then (case host_value (pe_pton4 env) (pe_pton6 env) a prt of
          HIpv4 a \<Rightarrow> establish_origin_connection env (Addr4 a) AF_INET | _ \<Rightarrow> failS UnionMisread)
      else (case host_value (pe_pton4 env) (pe_pton6 env) a prt of
          HIpv6 a \<Rightarrow> establish_origin_connection env (Addr6 a) AF_INET6 | _ \<Rightarrow> failS UnionMisread)) fd"
  using assms(2,3) origin_opens [OF assms(1)] by (cases a) (auto split: option.splits)

text \<open>
  The connection waits for the socket; the client is not read. The socket is one to the origin unless the
  name server is still to be asked.
\<close>

definition asks_name :: "proxy_connection \<Rightarrow> bool" where
  "asks_name p \<longleftrightarrow> cr_host_type (pc_request p) = domain \<and> (case pc_doh p of None \<Rightarrow> True | Some d \<Rightarrow> \<not> dc_is_active d)"

definition dialing :: "'o psys \<Rightarrow> nat \<Rightarrow> proxy_connection \<Rightarrow> bool" where
  "dialing sw c p \<longleftrightarrow>
     sel_inv (fst sw) \<and> w_conns (snd sw) c = Some p \<and> pc_stm p = some_machine (Some TRY_CONNECTION_IP) \<and> buffers_ok p \<and>
     pc_client_status p = ACTIVE_STATUS \<and> pc_origin_status p = ACTIVE_STATUS \<and> \<not> sn_enabled (pc_sniffer p) \<and>
     pc_error p \<noteq> INTERNAL_SERVER_ERROR \<and> length (cr_method (pc_request p)) < method_room \<and>
     length (cr_target (pc_request p)) < target_room \<and> length (cr_request_line (pc_request p)) \<le> 1100 \<and>
     contents (pc_origin_buffer p) = [] \<and> 1100 \<le> buffer_room (pc_origin_buffer p) \<and>
     linked (fst sw) c p (OP_NOOP, OP_WRITE)"

definition connecting :: "'o psys \<Rightarrow> nat \<Rightarrow> proxy_connection \<Rightarrow> bool" where
  "connecting sw c p \<longleftrightarrow> dialing sw c p \<and> \<not> asks_name p"

lemma request_line_length:
  assumes "pieces_ok pton6 r"
  shows "length (request_line_text r) \<le> 1100"
proof -
  have "length (q_method r) \<le> 23" using assms by (simp add: pieces_ok_def method_ok_def)
  moreover have "length (origin_value (q_method r) (q_origin r)) \<le> 1023"
    using assms by (auto simp: origin_value_def pieces_ok_def split: option.splits)
  ultimately show ?thesis using cstr_length [of "origin_value (q_method r) (q_origin r)"] by (auto simp: request_line_text_def)
qed

lemma sniffer_waits: "\<exists>sf. modify_sniffer_state env p st = Inr sf"
  using strcmpi_value [of AUTHORIZATION] by (auto simp: modify_sniffer_state_def set_string_parser_def AUTHORIZATION_def MAX_STATES_def)

lemma register_origin:
  assumes "sel_inv s" "\<not> invalid_fd fd" "sel_entry s (nat fd) = None"
  shows "\<exists>s'. register_fd env fd origin_handler OP_WRITE (Some (Connection c)) (s, w) = Inr (SELECTOR_SUCCESS, (s', w)) \<and> sel_inv s' \<and>
    sel_entry s' = (sel_entry s)(nat fd \<mapsto> (origin_handler, OP_WRITE, Some (Connection c)))"
  using register_inv [OF assms(1), of "pe_sel env" fd "Some origin_handler" OP_WRITE "Some (Connection c)"] assms(2,3)
  by (auto simp: register_fd_def)

lemma with_conn_upd:
  "conn_upd c f (s, with_conn c p w) = Inr ((), (s, with_conn c (f p) w))"
  by (simp add: run_simps with_conn_def)

text \<open>The first part of \<^verbatim>\<open>request_line_done\<close>: the socket.\<close>

definition opened :: "'o penv \<Rightarrow> pkey \<Rightarrow> nat \<Rightarrow> request_parser \<Rightarrow> 'o psys \<Rightarrow> proxy_connection \<Rightarrow> int \<Rightarrow> 'o psys \<Rightarrow> bool" where
  "opened env key c q sw p fd sw' \<longleftrightarrow>
     (if rt_host_type (rp_target q) = domain then handle_origin_doh_connection env key else handle_origin_ip_connection env key) sw =
       Inr (TRY_CONNECTION_IP, sw') \<and>
     (\<exists>st. snd sw' = with_conn c (p\<lparr>pc_origin_fd := fd, pc_origin_status := ACTIVE_STATUS\<rparr>) (snd sw\<lparr>w_os := st\<rparr>)) \<and>
     sel_inv (fst sw') \<and> sel_entry (fst sw') = (sel_entry (fst sw))(nat fd \<mapsto> (origin_handler, OP_WRITE, Some (Connection c)))"

text \<open>The socket to the address of the line.\<close>

lemma literal_opened:
  assumes "origin_granted env fd" "pieces_ok (pe_pton6 env) r" "host_kind (pe_pton4 env) (q_authority r) \<noteq> domain"
    "rp_request q = request_value (pe_pton4 env) (pe_pton6 env) r ma mi" "pc_parsers p = Request_Line q"
    "sel_inv s" "sel_entry s (nat fd) = None"
  shows "\<exists>sw'. opened env \<lparr>key_fd = kfd, key_data = Some (Connection c)\<rparr> c q (s, with_conn c p w) p fd sw'"
proof -
  let ?key = "\<lparr>key_fd = kfd, key_data = Some (Connection c)\<rparr>" and ?t = "rp_target q"
  obtain x where a: "authority_ok (pe_pton6 env) (q_authority r) x" using assms(2) by (auto simp: pieces_ok_def split: option.splits)
  have t: "rt_host_type ?t = host_kind (pe_pton4 env) (q_authority r)"
      "rt_host ?t = host_value (pe_pton4 env) (pe_pton6 env) (q_authority r) (port_value (q_port r))"
    using assms(4) by (simp_all add: request_value_def target_line_def rq_def target_value_def tgt_def)
  have v: "\<not> invalid_fd fd" "fd \<noteq> - 1" using assms(1) by (auto simp: origin_granted_def invalid_fd_def)
  let ?p2 = "p\<lparr>pc_origin_fd := fd, pc_origin_status := ACTIVE_STATUS\<rparr>"
  obtain st where st: "(if rt_host_type ?t = ipv4
      then (case rt_host ?t of HIpv4 a \<Rightarrow> establish_origin_connection env (Addr4 a) AF_INET | _ \<Rightarrow> failS UnionMisread)
      else (case rt_host ?t of HIpv6 a \<Rightarrow> establish_origin_connection env (Addr6 a) AF_INET6 | _ \<Rightarrow> failS UnionMisread))
      (s, with_conn c p w) = Inr (fd, (s, with_conn c p (w\<lparr>w_os := st\<rparr>)))"
    using literal_opens [OF assms(1) a assms(3), of "port_value (q_port r)"] unfolding t opens_def by (metis with_conn_os)
  let ?w = "w\<lparr>w_os := st\<rparr>"
  obtain s' where s': "register_fd env fd origin_handler OP_WRITE (Some (Connection c)) (s, with_conn c ?p2 ?w) =
      Inr (SELECTOR_SUCCESS, (s', with_conn c ?p2 ?w))" "sel_inv s'"
      "sel_entry s' = (sel_entry s)(nat fd \<mapsto> (origin_handler, OP_WRITE, Some (Connection c)))"
    using register_origin [OF assms(6) v(1) assms(7)] by blast
  have "handle_origin_ip_connection env ?key (s, with_conn c p w) = Inr (TRY_CONNECTION_IP, (s', with_conn c ?p2 ?w))"
    using st s'(1) assms(5) v(2)
    by (simp add: handle_origin_ip_connection_def request_of_def run_simps with_conn_upd try_registered_def register_origin_socket_def)
  then show ?thesis using s'(2,3) t(1) assms(3)
    by (intro exI [of _ "(s', with_conn c ?p2 ?w)"]) (auto simp: opened_def)
qed

text \<open>The socket to the name server.\<close>

lemma server_opened:
  assumes "origin_granted env fd" "rt_host_type (rp_target q) = domain" "sel_inv s" "sel_entry s (nat fd) = None"
  shows "\<exists>sw'. opened env \<lparr>key_fd = kfd, key_data = Some (Connection c)\<rparr> c q (s, with_conn c p w) p fd sw'"
proof -
  let ?key = "\<lparr>key_fd = kfd, key_data = Some (Connection c)\<rparr>" and ?d = "w_doh_server w"
  have v: "\<not> invalid_fd fd" "\<not> fd < 0" using assms(1) by (auto simp: origin_granted_def invalid_fd_def)
  let ?p2 = "p\<lparr>pc_origin_fd := fd, pc_origin_status := ACTIVE_STATUS\<rparr>"
  obtain st where st: "(if ds_isipv4 ?d
        then establish_origin_connection env (Addr4 \<lparr>sin_family = AF_INET, sin_port = ds_port ?d, sin_addr = ds_ipv4addr ?d\<rparr>) AF_INET
        else establish_origin_connection env (Addr6 \<lparr>sin6_family = AF_INET6, sin6_port = ds_port ?d, sin6_addr = ds_ipv6addr ?d\<rparr>) AF_INET6)
      (s, with_conn c p w) = Inr (fd, (s, with_conn c p (w\<lparr>w_os := st\<rparr>)))"
  proof -
    have "opens (if ds_isipv4 ?d
        then establish_origin_connection env (Addr4 \<lparr>sin_family = AF_INET, sin_port = ds_port ?d, sin_addr = ds_ipv4addr ?d\<rparr>) AF_INET
        else establish_origin_connection env (Addr6 \<lparr>sin6_family = AF_INET6, sin6_port = ds_port ?d, sin6_addr = ds_ipv6addr ?d\<rparr>) AF_INET6)
        fd"
      using origin_opens [OF assms(1)] by simp
    then show ?thesis using that unfolding opens_def by (metis with_conn_os)
  qed
  let ?w = "w\<lparr>w_os := st\<rparr>"
  obtain s' where s': "register_fd env fd origin_handler OP_WRITE (Some (Connection c)) (s, with_conn c ?p2 ?w) =
      Inr (SELECTOR_SUCCESS, (s', with_conn c ?p2 ?w))" "sel_inv s'"
      "sel_entry s' = (sel_entry s)(nat fd \<mapsto> (origin_handler, OP_WRITE, Some (Connection c)))"
    using register_origin [OF assms(3) v(1) assms(4)] by blast
  have "w_doh_server (with_conn c p w) = ?d" by (simp add: with_conn_def)
  then have "handle_origin_doh_connection env ?key (s, with_conn c p w) = Inr (TRY_CONNECTION_IP, (s', with_conn c ?p2 ?w))"
    using st s'(1) v(2)
    by (simp add: handle_origin_doh_connection_def run_simps with_conn_upd try_registered_def register_origin_socket_def)
  then show ?thesis using s'(2,3) assms(2)
    by (intro exI [of _ "(s', with_conn c ?p2 ?w)"]) (auto simp: opened_def)
qed

text \<open>The rest of it: the request for the origin.\<close>

lemma line_connects:
  assumes "opened env key c q (s, with_conn c p w) p fd sw1" "ntop_ok env" "pieces_ok (pe_pton6 env) r"
    "rp_request q = request_value (pe_pton4 env) (pe_pton6 env) r ma mi" "pc_parsers p = Request_Line q"
    "key_data key = Some (Connection c)" "\<not> cr_connect (pc_request p)" "\<not> sn_enabled (pc_sniffer p)"
  shows "\<exists>s' st p'. request_line_done env key c q (s, with_conn c p w) = Inr (TRY_CONNECTION_IP, (s', with_conn c p' (w\<lparr>w_os := st\<rparr>))) \<and>
    sel_inv s' \<and> sel_entry s' = (sel_entry s)(nat fd \<mapsto> (origin_handler, OP_WRITE, Some (Connection c))) \<and>
    pc_client_fd p' = pc_client_fd p \<and> pc_origin_fd p' = fd \<and> pc_client_status p' = pc_client_status p \<and> pc_origin_status p' = ACTIVE_STATUS \<and>
    pc_stm p' = pc_stm p \<and> \<not> sn_enabled (pc_sniffer p') \<and> pc_origin_buffer p' = pc_origin_buffer p \<and>
    pc_parsers p' = Request_Line q \<and> pc_doh p' = pc_doh p \<and> pc_error p' = pc_error p \<and>
    pc_client_buffer p' = (if q_method r = CONNECT_method then buffer_reset (pc_client_buffer p) else pc_client_buffer p) \<and>
    cr_connect (pc_request p') = (q_method r = CONNECT_method) \<and> cr_request_line (pc_request p') = request_line_text r \<and>
    cr_host_type (pc_request p') = host_kind (pe_pton4 env) (q_authority r) \<and> cr_host (pc_request p') = rt_host (rp_target q) \<and>
    length (cr_method (pc_request p')) < method_room \<and> length (cr_target (pc_request p')) < target_room"
proof -
  obtain kfd where key: "key = \<lparr>key_fd = kfd, key_data = Some (Connection c)\<rparr>" using assms(6) by (cases key) simp
  let ?t = "rp_target q" and ?p2 = "p\<lparr>pc_origin_fd := fd, pc_origin_status := ACTIVE_STATUS\<rparr>"
  obtain s' st where s': "sw1 = (s', with_conn c ?p2 (w\<lparr>w_os := st\<rparr>))" "sel_inv s'"
      "sel_entry s' = (sel_entry s)(nat fd \<mapsto> (origin_handler, OP_WRITE, Some (Connection c)))"
    using assms(1) by (cases sw1) (auto simp: opened_def)
  let ?w = "w\<lparr>w_os := st\<rparr>"
  have first: "(if rt_host_type ?t = domain then handle_origin_doh_connection env key else handle_origin_ip_connection env key)
      (s, with_conn c p w) = Inr (TRY_CONNECTION_IP, (s', with_conn c ?p2 ?w))"
    using assms(1) s'(1) by (simp add: opened_def)
  obtain cr where cr: "request_of_line env (rp_request q) (pc_request p) = Inr cr" "cr_request_line cr = request_line_text r"
      "cr_connect cr = (q_method r = CONNECT_method)" "cr_host_type cr = host_kind (pe_pton4 env) (q_authority r)"
      "cr_host cr = rt_host ?t" "length (cr_method cr) < method_room" "length (cr_target cr) < target_room"
    using request_of_line_value [OF assms(2,3), of ma mi "pc_request p"] assms(4,7) by auto
  let ?p3 = "?p2\<lparr>pc_request := cr\<rparr>"
  have build: "build_connection_request env key (s', with_conn c ?p2 ?w) = Inr ((), (s', with_conn c ?p3 ?w))"
    using cr(1) assms(5) by (simp add: build_connection_request_def request_of_def key run_simps with_conn_upd)
  note start = run_bind [where m = "if rt_host_type ?t = domain then handle_origin_doh_connection env key else handle_origin_ip_connection env key",
      OF first]
  show ?thesis
  proof (cases "q_method r = CONNECT_method")
    case True
    let ?p4 = "?p3\<lparr>pc_client_buffer := buffer_reset (pc_client_buffer p)\<rparr>"
    have "request_line_done env key c q (s, with_conn c p w) = Inr (TRY_CONNECTION_IP, (s', with_conn c ?p4 ?w))"
      unfolding request_line_done_def start using build cr(3) True
      by (simp add: run_simps with_conn_upd TRY_CONNECTION_IP_def ERROR_def)
    then show ?thesis using s'(2,3) cr True assms(5,8)
      by (intro exI [of _ s'] exI [of _ st] exI [of _ ?p4]) simp
  next
    case False
    obtain sf where sf: "modify_sniffer_state (pe_sniff env) (sn_parser (pc_sniffer p)) sniff_http_authorization = Inr sf"
      using sniffer_waits by blast
    let ?p4 = "?p3\<lparr>pc_sniffer := (pc_sniffer p)\<lparr>sn_parser := sf\<rparr>\<rparr>"
    have "request_line_done env key c q (s, with_conn c p w) = Inr (TRY_CONNECTION_IP, (s', with_conn c ?p4 ?w))"
      unfolding request_line_done_def start using build cr(3) False assms(8) sf
      by (simp add: run_simps with_conn_upd TRY_CONNECTION_IP_def ERROR_def)
    then show ?thesis using s'(2,3) cr False assms(5,8)
      by (intro exI [of _ s'] exI [of _ st] exI [of _ ?p4]) simp
  qed
qed

lemma awaiting_connects:
  assumes "awaiting (s, w) c p r0" "os_ok env" "fresh_origin w p" "moved env p Client_Readable (os_then env w) = d" "d \<noteq> []"
    "drive (feed_request env) request_fin r0 d = Inr (q, rest)" "q = st_end (request_value (pe_pton4 env) (pe_pton6 env) r ma mi) request_done"
    "origin_granted env fd" "ntop_ok env" "pieces_ok (pe_pton6 env) r" "sel_entry s (nat fd) = None"
  shows "\<exists>sw' p'. relay_call env c p Client_Readable (s, w) = Inr sw' \<and> dialing sw' c p' \<and> others_same c w (snd sw') \<and>
    pc_client_fd p' = pc_client_fd p \<and> pc_origin_fd p' = fd \<and> cr_connect (pc_request p') = (q_method r = CONNECT_method) \<and>
    cr_request_line (pc_request p') = request_line_text r \<and> cr_host_type (pc_request p') = host_kind (pe_pton4 env) (q_authority r) \<and>
    cr_host (pc_request p') = rt_host (rp_target q) \<and> pc_parsers p' = Request_Line q \<and> pc_doh p' = None \<and>
    contents (pc_client_buffer p') = (if q_method r = CONNECT_method then [] else rest)"
proof -
  let ?key = "client_key c p"
  obtain st1 p1 b n where e: "same_rest_of (w_disectors_enabled w) p p1" "pc_stm p1 = some_machine (Some 0)" "buffer_inv b" "contents b = rest"
      "relay_call env c p Client_Readable (s, w) =
        bindR (after_line env ?key c q (line_read q b n p1) (s, w\<lparr>w_os := st1\<rparr>)) (\<lambda>(ret, s).
        jump (conn_cell c) (connection_states env ?key) ret s)"
    using awaiting_read [OF assms(1,2,4-6)] by blast
  let ?p = "line_read q b n p1"
  note a = assms(1) [unfolded awaiting_def buffers_ok_def] and f = assms(3) [unfolded fresh_origin_def] and sr = e(1) [unfolded same_rest_of_def]
  have pre: "rp_request q = request_value (pe_pton4 env) (pe_pton6 env) r ma mi" "pc_parsers ?p = Request_Line q" "sel_inv s"
      "\<not> cr_connect (pc_request ?p)" "\<not> sn_enabled (pc_sniffer ?p)"
    using a f sr assms(7) by (auto simp: st_end_def)
  have kind: "rt_host_type (rp_target q) = host_kind (pe_pton4 env) (q_authority r)"
    by (simp add: pre(1) request_value_def target_line_def rq_def target_value_def tgt_def)
  obtain sw1 where o: "opened env ?key c q (s, with_conn c ?p (w\<lparr>w_os := st1\<rparr>)) ?p fd sw1"
    using literal_opened [OF assms(8,10) _ pre(1-3) assms(11)] server_opened [OF assms(8) _ pre(3) assms(11)] kind
    unfolding client_key_def by metis
  obtain s' st p2 where d: "request_line_done env ?key c q (s, with_conn c ?p (w\<lparr>w_os := st1\<rparr>)) =
        Inr (TRY_CONNECTION_IP, (s', with_conn c p2 (w\<lparr>w_os := st\<rparr>)))" "sel_inv s'"
      "sel_entry s' = (sel_entry s)(nat fd \<mapsto> (origin_handler, OP_WRITE, Some (Connection c)))"
      "pc_client_fd p2 = pc_client_fd ?p" "pc_origin_fd p2 = fd" "pc_client_status p2 = pc_client_status ?p" "pc_origin_status p2 = ACTIVE_STATUS"
      "pc_stm p2 = pc_stm ?p" "\<not> sn_enabled (pc_sniffer p2)" "pc_origin_buffer p2 = pc_origin_buffer ?p"
      "pc_parsers p2 = Request_Line q" "pc_doh p2 = pc_doh ?p" "pc_error p2 = pc_error ?p"
      "pc_client_buffer p2 = (if q_method r = CONNECT_method then buffer_reset (pc_client_buffer ?p) else pc_client_buffer ?p)"
      "cr_connect (pc_request p2) = (q_method r = CONNECT_method)" "cr_request_line (pc_request p2) = request_line_text r"
      "cr_host_type (pc_request p2) = host_kind (pe_pton4 env) (q_authority r)" "cr_host (pc_request p2) = rt_host (rp_target q)"
      "length (cr_method (pc_request p2)) < method_room" "length (cr_target (pc_request p2)) < target_room"
    using line_connects [OF o assms(9,10) pre(1,2) _ pre(4,5)] by (auto simp: client_key_def)
  have line: "after_line env ?key c q ?p (s, w\<lparr>w_os := st1\<rparr>) = Inr (TRY_CONNECTION_IP, (s', with_conn c p2 (w\<lparr>w_os := st\<rparr>)))"
    using d(1) assms(7) by (simp add: after_line_def st_end_def request_line_error_def)
  let ?p3 = "at_state 1 p2" and ?w = "w\<lparr>w_os := st\<rparr>"
  have ne: "nat (pc_client_fd p) \<noteq> nat fd" using a assms(11) by auto
  have l: "linked s' c ?p3 (OP_READ, OP_WRITE)"
    using a ne d(3-5) sr assms(8) by (auto simp: linked_def origin_granted_def invalid_fd_def)
  obtain s2 where s2: "set_interests c OP_NOOP OP_WRITE (s', with_conn c ?p3 ?w) = Inr ((), (s2, with_conn c ?p3 ?w))" "sel_inv s2"
      "linked s2 c ?p3 (OP_NOOP, OP_WRITE)"
    using set_interests_linked [OF d(2) l, of "with_conn c ?p3 ?w" OP_NOOP OP_WRITE] by auto
  have "jump (conn_cell c) (connection_states env ?key) 1 (s', with_conn c p2 ?w) =
      arrive_at (connection_states env ?key ! 1) (s', with_conn c ?p3 (with_conn c p2 ?w))"
    by (rule jump_to [where n = 0]) (use d(8) e(2) in simp_all)
  also have "\<dots> = Inr (s2, with_conn c ?p3 ?w)"
    using table_at(2) [of env ?key] s2(1)
    by (simp add: state_numbers arrive_row try_connection_ip_on_arrival_def client_key_def run_simps)
  finally have "relay_call env c p Client_Readable (s, w) = Inr (s2, with_conn c ?p3 ?w)"
    using e(5) line by (simp add: TRY_CONNECTION_IP_def)
  moreover have "buffer_inv (buffer_reset b)" "contents (buffer_reset b) = []"
    using e(3) by (auto simp: buffer_inv_def buffer_reset_def contents_def)
  then have "dialing (s2, with_conn c ?p3 ?w) c ?p3" "contents (pc_client_buffer ?p3) = (if q_method r = CONNECT_method then [] else rest)"
    using s2(2,3) d(2-16,19,20) a f sr e(3,4) request_line_length [OF assms(10)]
    by (simp_all add: dialing_def buffers_ok_def state_numbers)
  ultimately show ?thesis using d(4,5,11,12,15-18) sr a
    by (intro exI [of _ "(s2, with_conn c ?p3 ?w)"] exI [of _ ?p3]) (simp add: others_same_def)
qed

section \<open>Connected\<close>

text \<open>The line waits to be sent.\<close>

definition sending :: "'o psys \<Rightarrow> nat \<Rightarrow> proxy_connection \<Rightarrow> bytes \<Rightarrow> bool" where
  "sending sw c p line \<longleftrightarrow>
     sel_inv (fst sw) \<and> w_conns (snd sw) c = Some p \<and> pc_stm p = some_machine (Some SEND_REQUEST_LINE) \<and> buffers_ok p \<and>
     pc_client_status p = ACTIVE_STATUS \<and> pc_origin_status p = ACTIVE_STATUS \<and> \<not> sn_enabled (pc_sniffer p) \<and>
     \<not> cr_connect (pc_request p) \<and> length (cr_method (pc_request p)) < method_room \<and>
     length (cr_target (pc_request p)) < target_room \<and> contents (pc_origin_buffer p) = line \<and>
     linked (fst sw) c p (OP_NOOP, OP_WRITE)"

lemma connected_arrives:
  assumes "sel_inv s" "linked s c p n" "w_conns w c = Some p" "pc_stm p = some_machine (Some CONNECTED)" "buffers_ok p"
    "pc_client_status p = ACTIVE_STATUS" "pc_origin_status p = ACTIVE_STATUS" "\<not> sn_enabled (pc_sniffer p)"
    "length (cr_method (pc_request p)) < method_room" "length (cr_target (pc_request p)) < target_room"
    "key_data key = Some (Connection c)"
  shows "\<exists>s' p'. arrive_at (connection_states env key ! 5) (s, w) = Inr (s', with_conn c p' w) \<and>
    relay_ok (s', with_conn c p' w) c p' \<and> pc_client_buffer p' = pc_client_buffer p \<and> pc_origin_buffer p' = pc_origin_buffer p \<and>
    pc_client_fd p' = pc_client_fd p \<and> pc_origin_fd p' = pc_origin_fd p"
proof -
  obtain fd where key: "key = \<lparr>key_fd = fd, key_data = Some (Connection c)\<rparr>" using assms(11) by (cases key) simp
  define p' where "p' = (if cr_connect (pc_request p) then p
    else p\<lparr>pc_parsers := Status_Line (status_line_parser_init (dc_status_line_parser zero_doh_connection)) False\<rparr>)"
  have p': "pc_client_buffer p' = pc_client_buffer p" "pc_origin_buffer p' = pc_origin_buffer p"
    "pc_client_fd p' = pc_client_fd p" "pc_origin_fd p' = pc_origin_fd p" "relaying p'"
    using assms(4-10) status_inv_init
    by (auto simp: p'_def relaying_def reading_def buffers_ok_def in_state_def some_machine_def state_numbers)
  obtain s' where s': "set_connection_interests c (s, with_conn c p' w) = Inr ((), (s', with_conn c p' w))" "sel_inv s'"
      "linked s' c p' (connected_interests (pc_origin_buffer p') (pc_client_buffer p'))"
    using interests_set [OF assms(1) linked_frame [OF assms(2) p'(3,4)], of "with_conn c p' w"] by auto
  have same: "cr_connect (pc_request p) \<Longrightarrow> with_conn c p' w = w" using assms(3) by (simp add: p'_def with_conn_def fun_upd_idem)
  have "connected_on_arrival key (s, w) = Inr ((), (s', with_conn c p' w))"
  proof (cases "cr_connect (pc_request p)")
    case True
    then show ?thesis using s'(1) same assms(3) by (simp add: connected_on_arrival_def key run_simps)
  next
    case False
    then show ?thesis using s'(1) assms(3)
      by (simp add: connected_on_arrival_def key run_simps init_http_response_def p'_def flip: with_conn_def)
  qed
  then have "arrive_at (connection_states env key ! 5) (s, w) = Inr (s', with_conn c p' w)"
    using table_at(6) [of env key] by (simp add: state_numbers arrive_row)
  then show ?thesis using s'(2,3) p' by (intro exI [of _ s'] exI [of _ p']) (simp add: relay_ok_def)
qed

text \<open>The socket is connected.\<close>

lemma origin_checked:
  assumes "fst (os_getsockopt (pe_os env) fd (w_os w)) = Some 0"
  shows "check_origin_connection env fd (s, w) = Inr (True, (s, w\<lparr>w_os := snd (os_getsockopt (pe_os env) fd (w_os w))\<rparr>))"
  using assms by (simp add: check_origin_connection_def run_simps)

definition request_for_origin :: "proxy_connection \<Rightarrow> proxy_connection \<Rightarrow> 'o psys \<Rightarrow> nat \<Rightarrow> bool" where
  "request_for_origin p p' sw c \<longleftrightarrow>
     (if cr_connect (pc_request p)
      then relay_ok sw c p' \<and> contents (pc_origin_buffer p') = connect_reply 200 \<and> pc_client_buffer p' = pc_client_buffer p
      else sending sw c p' (cr_request_line (pc_request p)) \<and> pc_client_buffer p' = pc_client_buffer p)"

lemma reply_length: "length (connect_reply 200) < 64"
  by (simp add: connect_reply_def dec_text.simps)

lemma connecting_connects:
  assumes "connecting (s, w) c p" "os_ok env" "fst (os_getsockopt (pe_os env) (pc_origin_fd p) (os_then env w)) = Some 0"
  shows "\<exists>sw' p'. relay_call env c p Origin_Writable (s, w) = Inr sw' \<and> request_for_origin p p' sw' c \<and> others_same c w (snd sw') \<and>
    w_metrics (snd sw') = register_new_connection (w_metrics w)"
proof -
  let ?key = "origin_key c p"
  note p = assms(1) [unfolded connecting_def dialing_def fst_conv snd_conv]
  obtain now where now: "os_time (pe_os env) (w_os w) = (now, os_then env w)" using time_then by blast
  let ?p1 = "p\<lparr>pc_last_action_time := now\<rparr>"
  have asks: "asks_name ?p1 = False" using p by (simp add: asks_name_def)
  let ?w1 = "w\<lparr>w_os := os_then env w, w_conns := (w_conns w)(c \<mapsto> ?p1)\<rparr>"
  let ?w2 = "(?w1\<lparr>w_os := snd (os_getsockopt (pe_os env) (pc_origin_fd p) (os_then env w))\<rparr>)\<lparr>w_metrics := register_new_connection (w_metrics w)\<rparr>"
  have stm: "pc_stm p = \<lparr>sm_initial = 0, sm_max_state = 9, sm_current = Some 1\<rparr>" "pc_stm ?p1 = some_machine (Some 1)"
    using p by (simp_all add: some_machine_def state_numbers)
  have c: "w_conns w c = Some p" using p by blast
  have cs: "conn_state c (s, ?w1) = Inr (1, (s, ?w1))" by (rule run_conn_state [where p = ?p1]) (simp_all add: stm(1))
  have touch: "proxy_origin_write env ?key (s, w) = event_write env ?key c (s, ?w1)"
    using cs by (simp add: proxy_origin_write_def touch_def origin_key_def run_simps c now TRY_CONNECTION_IP_def)
  have row: "sd_on_write_ready (connection_states env ?key ! 1) = Some (try_connection_ip_on_write_ready env ?key)"
    using table_at(2) [of env ?key] by (simp add: state_numbers conn_row_def)
  note at = event_at [where event = sd_on_write_ready, of ?w1 c ?p1 1 env ?key, OF _ stm(2) _ row]
  have check: "check_origin_connection env (pc_origin_fd p) (s, ?w1) =
      Inr (True, (s, ?w1\<lparr>w_os := snd (os_getsockopt (pe_os env) (pc_origin_fd p) (os_then env w))\<rparr>))"
    using origin_checked [of env "pc_origin_fd p" ?w1 s] assms(3) by simp
  have "\<exists>sw' p'. event_write env ?key c (s, ?w1) = Inr ((), sw') \<and> request_for_origin p p' sw' c \<and> others_same c w (snd sw') \<and>
    w_metrics (snd sw') = register_new_connection (w_metrics w)"
  proof (cases "cr_connect (pc_request p)")
    case True
    let ?p2 = "?p1\<lparr>pc_request := (pc_request p)\<lparr>cr_status_code := 200\<rparr>\<rparr>"
    obtain st where st: "log_new_connection env ?key (s, with_conn c ?p2 ?w2) = Inr ((), (s, (with_conn c ?p2 ?w2)\<lparr>w_os := st\<rparr>))"
      using log_new_connection_spec [OF assms(2), of "with_conn c ?p2 ?w2" c ?p2 ?key s] p by (auto simp: origin_key_def)
    let ?b = "buffer_reset (pc_origin_buffer p)"
    have b: "buffer_inv ?b" "contents ?b = []" "1100 \<le> buffer_room ?b"
      using p by (auto simp: buffers_ok_def buffer_inv_def buffer_reset_def contents_def buffer_room_def)
    obtain b' where b': "buffer_sprintf (connect_reply 200) ?b = Inr b'" "buffer_inv b'" "contents b' = connect_reply 200"
      using sprintf_spec [OF b(1), of "connect_reply 200"] b(2,3) reply_length by auto
    let ?p3 = "?p2\<lparr>pc_origin_buffer := b'\<rparr>" and ?w3 = "?w2\<lparr>w_os := st\<rparr>"
    have e: "try_connection_ip_on_write_ready env ?key (s, ?w1) = Inr (5, (s, with_conn c ?p3 ?w3))"
      using check True asks st b'(1)
      by (simp add: try_connection_ip_on_write_ready_def origin_key_def run_simps count_metric_def with_conn_def state_numbers flip: asks_name_def)
    let ?p4 = "at_state 5 ?p3"
    have j: "jump (conn_cell c) (connection_states env ?key) 5 (s, with_conn c ?p3 ?w3) =
        arrive_at (connection_states env ?key ! 5) (s, with_conn c ?p4 ?w3)"
      by (subst jump_to [where p = ?p3 and n = 1]) (use stm(2) in simp_all)
    obtain s' p' where p': "arrive_at (connection_states env ?key ! 5) (s, with_conn c ?p4 ?w3) = Inr (s', with_conn c p' (with_conn c ?p4 ?w3))"
        "relay_ok (s', with_conn c p' (with_conn c ?p4 ?w3)) c p'" "pc_client_buffer p' = pc_client_buffer ?p4"
        "pc_origin_buffer p' = pc_origin_buffer ?p4"
      using connected_arrives [of s c ?p4 "(OP_NOOP, OP_WRITE)" "with_conn c ?p4 ?w3" ?key env] p b'(2) linked_frame [of s c p "(OP_NOOP, OP_WRITE)" ?p4]
      by (auto simp: buffers_ok_def state_numbers origin_key_def)
    have "event_write env ?key c (s, ?w1) = Inr ((), (s', with_conn c p' ?w3))"
      using at e j p'(1) by (simp add: event_write_def stm_handler_write_def)
    then show ?thesis using p'(2-4) b'(3) True
      by (intro exI [of _ "(s', with_conn c p' ?w3)"] exI [of _ p']) (simp add: request_for_origin_def others_same_def)
  next
    case False
    have e: "try_connection_ip_on_write_ready env ?key (s, ?w1) = Inr (4, (s, ?w2))"
      using check False asks
      by (simp add: try_connection_ip_on_write_ready_def origin_key_def run_simps count_metric_def state_numbers flip: asks_name_def)
    let ?line = "cr_request_line (pc_request p)" and ?p2 = "at_state 4 ?p1"
    obtain b' where b': "buffer_put (pc_origin_buffer p) ?line = Inr b'" "buffer_inv b'" "contents b' = ?line"
      using put_spec [of "pc_origin_buffer p" ?line] p by (auto simp: buffers_ok_def)
    let ?p3 = "?p2\<lparr>pc_origin_buffer := b'\<rparr>"
    obtain s' where s': "set_interests c OP_NOOP OP_WRITE (s, with_conn c ?p3 ?w2) = Inr ((), (s', with_conn c ?p3 ?w2))" "sel_inv s'"
        "linked s' c ?p3 (OP_NOOP, OP_WRITE)"
      using set_interests_linked [of s c ?p3 "(OP_NOOP, OP_WRITE)" "with_conn c ?p3 ?w2" OP_NOOP OP_WRITE] p
        linked_frame [of s c p "(OP_NOOP, OP_WRITE)" ?p3] by auto
    have "jump (conn_cell c) (connection_states env ?key) 4 (s, ?w2) = arrive_at (connection_states env ?key ! 4) (s, with_conn c ?p2 ?w2)"
      by (rule jump_to [where p = ?p1 and n = 1]) (use stm(2) in simp_all)
    also have "\<dots> = Inr (s', with_conn c ?p3 ?w2)"
      using table_at(5) [of env ?key] s'(1) b'(1)
      by (simp add: state_numbers arrive_row send_request_line_on_arrival_def write_request_line_def origin_key_def run_simps with_conn_def)
    finally have "event_write env ?key c (s, ?w1) = Inr ((), (s', with_conn c ?p3 ?w2))"
      using at e by (simp add: event_write_def stm_handler_write_def)
    moreover have "sending (s', with_conn c ?p3 ?w2) c ?p3 ?line"
      using s'(2,3) b'(2,3) p False by (simp add: sending_def buffers_ok_def state_numbers)
    ultimately show ?thesis using False
      by (intro exI [of _ "(s', with_conn c ?p3 ?w2)"] exI [of _ ?p3]) (simp add: request_for_origin_def others_same_def)
  qed
  then obtain sw' p' where r: "event_write env ?key c (s, ?w1) = Inr ((), sw')" "request_for_origin p p' sw' c" "others_same c w (snd sw')"
    "w_metrics (snd sw') = register_new_connection (w_metrics w)" by blast
  have "relay_call env c p Origin_Writable (s, w) = Inr sw'" using touch r(1) by (simp add: call_def handler_of_def)
  then show ?thesis using r by blast
qed

section \<open>Sending the line\<close>

text \<open>What the origin takes, of the line or of the question to the name server.\<close>

lemma origin_sent:
  assumes "w_conns w c = Some p" "buffer_inv (pc_origin_buffer p)" "contents (pc_origin_buffer p) = line"
    "pc_stm p = some_machine (Some k)" "k = SEND_REQUEST_LINE \<or> k = SEND_DOH_REQUEST" "os_ok env"
    "bs = take (nat (fst (os_send (pe_os env) (pc_origin_fd p) line (os_then env w)))) line" "bs \<noteq> []"
  obtains now st b where "buffer_inv b" "contents b = drop (length bs) line" "b_limit b = b_limit (pc_origin_buffer p)"
    "relay_call env c p Origin_Writable (s, w) = bindR (event_write env (origin_key c p) c
       (s, w\<lparr>w_os := st, w_metrics := increase_bytes_sent (word_of_nat (length bs)) (w_metrics w),
          w_conns := (w_conns w)(c \<mapsto> p\<lparr>pc_last_action_time := now, pc_origin_buffer := b\<rparr>)\<rparr>)) (\<lambda>(_, sw). Inr sw)"
proof -
  let ?key = "origin_key c p" and ?b = "pc_origin_buffer p"
  note inv = assms(2,3) and c = assms(1)
  obtain now where now: "os_time (pe_os env) (w_os w) = (now, os_then env w)" using time_then by blast
  obtain n st where n: "os_send (pe_os env) (pc_origin_fd p) line (os_then env w) = (int n, st)" "0 < n" "n \<le> length line"
    by (rule sent_count [OF assms(6), of "pc_origin_fd p" line "os_then env w"]) (use assms(7,8) in simp_all)
  have len: "length bs = n" using assms(7) n by simp
  obtain b where b: "buffer_read_adv ?b (int n) = Inr b" "buffer_inv b" "contents b = drop n line" "b_limit b = b_limit ?b"
    using read_adv_spec [OF inv(1), of n] inv(2) n(3) by auto
  have sent: "take (length line) (drop (b_read ?b) (b_data ?b)) = line" using sent_bytes [OF inv(1)] inv(2) by simp
  let ?p0 = "p\<lparr>pc_last_action_time := now\<rparr>"
  let ?w0 = "w\<lparr>w_os := os_then env w, w_conns := (w_conns w)(c \<mapsto> ?p0)\<rparr>"
  have stm: "pc_stm p = \<lparr>sm_initial = 0, sm_max_state = 9, sm_current = Some k\<rparr>" using assms(4) by (simp add: some_machine_def)
  have cs: "conn_state c (s, ?w0) = Inr (k, (s, ?w0))"
    by (rule run_conn_state [where p = ?p0]) (use assms(5) in \<open>auto simp: stm state_numbers\<close>)
  have "proxy_origin_write env ?key (s, w) = event_write env ?key c (s, w\<lparr>w_os := st,
      w_metrics := increase_bytes_sent (word_of_int (int n)) (w_metrics w),
      w_conns := (w_conns w)(c \<mapsto> p\<lparr>pc_last_action_time := now, pc_origin_buffer := b\<rparr>)\<rparr>)"
    using cs n(1,2) b(1) assms(5)
    by (auto simp: proxy_origin_write_def touch_def origin_key_def run_simps c now state_numbers send_origin_buffer_def count_metric_def
        read_ptr_length [OF inv(1)] sent inv(2))
  then show thesis using that [of b now st] b(2-4) len by (simp add: call_def handler_of_def)
qed

lemma sending_event:
  assumes "sending (s, w) c p line" "os_ok env"
    "bs = take (nat (fst (os_send (pe_os env) (pc_origin_fd p) line (os_then env w)))) line" "bs \<noteq> []"
  shows "\<exists>sw' p'. relay_call env c p Origin_Writable (s, w) = Inr sw' \<and> others_same c w (snd sw') \<and>
    w_metrics (snd sw') = increase_bytes_sent (word_of_nat (length bs)) (w_metrics w) \<and> pc_client_buffer p' = pc_client_buffer p \<and>
    pc_client_fd p' = pc_client_fd p \<and> pc_origin_fd p' = pc_origin_fd p \<and>
    (if drop (length bs) line = [] then relay_ok sw' c p' \<and> contents (pc_origin_buffer p') = []
     else sending sw' c p' (drop (length bs) line))"
proof -
  let ?key = "origin_key c p" and ?b = "pc_origin_buffer p"
  note p = assms(1) [unfolded sending_def fst_conv snd_conv]
  obtain now st b2 where b: "buffer_inv b2" "contents b2 = drop (length bs) line"
      "relay_call env c p Origin_Writable (s, w) = bindR (event_write env ?key c
         (s, w\<lparr>w_os := st, w_metrics := increase_bytes_sent (word_of_nat (length bs)) (w_metrics w),
            w_conns := (w_conns w)(c \<mapsto> p\<lparr>pc_last_action_time := now, pc_origin_buffer := b2\<rparr>)\<rparr>)) (\<lambda>(_, sw). Inr sw)"
    by (rule origin_sent [OF _ _ _ _ _ assms(2-4), where c = c and s = s and k = SEND_REQUEST_LINE]) (use p in \<open>simp_all add: buffers_ok_def\<close>)
  let ?p1 = "p\<lparr>pc_last_action_time := now, pc_origin_buffer := b2\<rparr>"
  let ?w1 = "w\<lparr>w_os := st, w_metrics := increase_bytes_sent (word_of_nat (length bs)) (w_metrics w), w_conns := (w_conns w)(c \<mapsto> ?p1)\<rparr>"
  note call = b(3)
  have stm: "pc_stm p = \<lparr>sm_initial = 0, sm_max_state = 9, sm_current = Some 4\<rparr>" "pc_stm ?p1 = some_machine (Some 4)"
    using p by (simp_all add: some_machine_def state_numbers)
  have row: "sd_on_write_ready (connection_states env ?key ! 4) = Some (send_request_line_on_write_ready ?key)"
    using table_at(5) [of env ?key] by (simp add: state_numbers conn_row_def)
  note at = event_at [where event = sd_on_write_ready, of ?w1 c ?p1 4 env ?key, OF _ stm(2) _ row]
  have l: "linked s c q (OP_NOOP, OP_WRITE)" if "pc_client_fd q = pc_client_fd p" "pc_origin_fd q = pc_origin_fd p" for q
    using linked_frame [of s c p "(OP_NOOP, OP_WRITE)" q] p that by auto
  show ?thesis
  proof (cases "drop (length bs) line = []")
    case True
    have e: "send_request_line_on_write_ready ?key (s, ?w1) = Inr (5, (s, ?w1))"
      using b(1,2) True by (simp add: send_request_line_on_write_ready_def origin_key_def run_simps can_read_iff state_numbers)
    let ?p2 = "at_state 5 ?p1"
    have j: "jump (conn_cell c) (connection_states env ?key) 5 (s, ?w1) =
        arrive_at (connection_states env ?key ! 5) (s, with_conn c ?p2 ?w1)"
      by (rule jump_to [where p = ?p1 and n = 4]) (use stm(2) in simp_all)
    have *: "pc_stm ?p2 = some_machine (Some CONNECTED)" "buffers_ok ?p2" "pc_client_status ?p2 = ACTIVE_STATUS"
        "pc_origin_status ?p2 = ACTIVE_STATUS" "\<not> sn_enabled (pc_sniffer ?p2)" "length (cr_method (pc_request ?p2)) < method_room"
        "length (cr_target (pc_request ?p2)) < target_room" "key_data ?key = Some (Connection c)"
      using p b(1) by (simp_all add: buffers_ok_def state_numbers origin_key_def)
    obtain s' p' where p': "arrive_at (connection_states env ?key ! 5) (s, with_conn c ?p2 ?w1) = Inr (s', with_conn c p' (with_conn c ?p2 ?w1))"
        "relay_ok (s', with_conn c p' (with_conn c ?p2 ?w1)) c p'" "pc_client_buffer p' = pc_client_buffer ?p2"
        "pc_origin_buffer p' = pc_origin_buffer ?p2" "pc_client_fd p' = pc_client_fd ?p2" "pc_origin_fd p' = pc_origin_fd ?p2"
      using connected_arrives [OF _ l _ *, of "with_conn c ?p2 ?w1" env] p by auto
    have "event_write env ?key c (s, ?w1) = Inr ((), (s', with_conn c p' ?w1))"
      using at e j p'(1) by (simp add: event_write_def stm_handler_write_def)
    then show ?thesis using call p'(2-6) b(2) True
      by (intro exI [of _ "(s', with_conn c p' ?w1)"] exI [of _ p']) (simp add: others_same_def)
  next
    case False
    have can: "buffer_can_read b2" using b(1,2) False by (simp add: can_read_iff)
    have cs1: "conn_state c (s, ?w1) = Inr (4, (s, ?w1))" by (rule run_conn_state [where p = ?p1]) (simp_all add: stm(1))
    have e: "send_request_line_on_write_ready ?key (s, ?w1) = Inr (4, (s, ?w1))"
      using can cs1 by (simp add: send_request_line_on_write_ready_def origin_key_def run_simps)
    have j: "jump (conn_cell c) (connection_states env ?key) 4 (s, ?w1) = Inr (s, ?w1)"
      by (rule jump_same [where p = ?p1]) (simp_all add: stm)
    have "event_write env ?key c (s, ?w1) = Inr ((), (s, ?w1))"
      using at e j by (simp add: event_write_def stm_handler_write_def)
    moreover have "sending (s, ?w1) c ?p1 (drop (length bs) line)"
      using p b(1,2) l [of ?p1] by (simp add: sending_def buffers_ok_def)
    ultimately show ?thesis using call False
      by (intro exI [of _ "(s, ?w1)"] exI [of _ ?p1]) (simp add: others_same_def)
  qed
qed

section \<open>The whole line\<close>

text \<open>A line that arrives in any pieces opens a socket.\<close>

lemma request_line_connects:
  assumes "os_ok env" "ntop_ok env" "origin_granted env fd" "awaiting sw c p (request_parser_init zero_request_parser)" "fresh_origin (snd sw) p"
    "sel_entry (fst sw) (nat fd) = None" "pieces_ok (pe_pton6 env) r" "version_ok ma mi"
    "relay_run env c sw es sw1" "\<forall>e \<in> set es. fst e = Client_Readable" "w_conns (snd sw1) c = Some p1"
    "moved env p1 Client_Readable (os_then env (snd sw1)) = d" "bytes_of Client_Readable es @ d = request_bytes r ma mi @ rest"
    "length (bytes_of Client_Readable es) < length (request_bytes r ma mi)"
  shows "\<exists>sw2 p2 q. relay_call env c p1 Client_Readable sw1 = Inr sw2 \<and> dialing sw2 c p2 \<and>
    (connecting sw2 c p2 \<longleftrightarrow> host_kind (pe_pton4 env) (q_authority r) \<noteq> domain) \<and> others_same c (snd sw) (snd sw2) \<and>
    pc_client_fd p2 = pc_client_fd p \<and> pc_origin_fd p2 = fd \<and> cr_connect (pc_request p2) = (q_method r = CONNECT_method) \<and>
    cr_request_line (pc_request p2) = request_line_text r \<and> pc_parsers p2 = Request_Line q \<and>
    rp_request q = request_value (pe_pton4 env) (pe_pton6 env) r ma mi \<and> cr_host (pc_request p2) = rt_host (rp_target q) \<and>
    contents (pc_client_buffer p2) = (if q_method r = CONNECT_method then [] else rest)"
proof -
  obtain s1 w1 where sw1: "sw1 = (s1, w1)" by fastforce
  let ?q = "st_end (request_value (pe_pton4 env) (pe_pton6 env) r ma mi) request_done"
  obtain q where q: "drive (feed_request env) request_fin (request_parser_init zero_request_parser) (bytes_of Client_Readable es) = Inr (q, [])"
      "\<not> request_fin q" "drive (feed_request env) request_fin q d = Inr (?q, rest)"
    using drive_request_part [OF assms(7,8,13,14)] by blast
  obtain p' where p': "awaiting sw1 c p' q" "pc_client_fd p' = pc_client_fd p" "others_same c (snd sw) (snd sw1)"
      "fresh_origin (snd sw1) p'" "fst sw1 = fst sw"
    using reads_go_on [OF assms(9,1,4,10) q(1,2)] assms(5) by blast
  have p1: "p' = p1" using p'(1) assms(11) by (simp add: awaiting_def)
  have d: "moved env p1 Client_Readable (os_then env w1) = d" "d \<noteq> []" "sel_entry s1 (nat fd) = None"
    using assms(6,12,13,14) p'(5) by (auto simp: sw1)
  have a: "awaiting (s1, w1) c p1 q" "fresh_origin w1 p1" using p'(1,4) p1 sw1 by simp_all
  obtain sw2 p2 where "relay_call env c p1 Client_Readable (s1, w1) = Inr sw2" "dialing sw2 c p2" "others_same c w1 (snd sw2)"
      "pc_client_fd p2 = pc_client_fd p1" "pc_origin_fd p2 = fd" "cr_connect (pc_request p2) = (q_method r = CONNECT_method)"
      "cr_request_line (pc_request p2) = request_line_text r" "cr_host_type (pc_request p2) = host_kind (pe_pton4 env) (q_authority r)"
      "cr_host (pc_request p2) = rt_host (rp_target ?q)" "pc_parsers p2 = Request_Line ?q" "pc_doh p2 = None"
      "contents (pc_client_buffer p2) = (if q_method r = CONNECT_method then [] else rest)"
    using awaiting_connects [OF a(1) assms(1) a(2) d(1,2) q(3) refl assms(3,2,7) d(3)] by blast
  then show ?thesis using p'(2,3) p1
    by (intro exI [of _ sw2] exI [of _ p2] exI [of _ ?q])
      (auto simp: sw1 others_same_def connecting_def asks_name_def st_end_def)
qed

section \<open>A request to try\<close>

text \<open>A client that asks for a literal address, which \<^verbatim>\<open>inet_pton\<close> takes.\<close>

definition literal_env :: "bytes penv" where
  "literal_env = typing_env\<lparr>pe_pton4 := (\<lambda>s. Some 16777343)\<rparr>"

definition some_pieces :: pieces where
  "some_pieces = \<lparr>q_method = [71], q_authority = Name [49], q_port = None, q_origin = Some [SLASH]\<rparr>"

definition some_request :: bytes where
  "some_request = request_bytes some_pieces [49] [48]"

lemma some_pieces_ok: "pieces_ok pton6 some_pieces" "version_ok [49] [48]"
  by (simp_all add: pieces_ok_def some_pieces_def method_ok_def origin_ok_def end_of_authority_def host_end_def version_ok_def
      is_token_def is_alpha_def is_digit_def)

lemma some_literal: "host_kind (pe_pton4 literal_env) (q_authority some_pieces) \<noteq> domain"
  by (simp add: literal_env_def some_pieces_def)

lemma literal_env_ok: "os_ok literal_env" "ntop_ok literal_env" "origin_granted literal_env 7"
  using typing_os_ok some_os_grants
  by (auto simp: os_ok_def ntop_ok_def origin_granted_def os_grants_def literal_env_def typing_env_def some_os_def some_env_def invalid_fd_def
      ITEMS_MAX_SIZE_def)

lemma some_request_length: "some_request \<noteq> []" "length some_request = 22"
  by (simp_all add: some_request_def request_bytes_def target_bytes_def host_part_def scheme_bytes_def http_scheme_def CONNECT_method_def
      some_pieces_def http_slash_def)

section \<open>Properties\<close>

text \<open>
  C18: The line sent to the origin. For every request line that the parser accepts, the request for the
  origin is built without a fault: the line, the target and the method fit in their arrays of 1100, 2048
  and 24 bytes whatever the lengths the parser let through, and the line is the method, the origin form up
  to its first zero byte and \<^verbatim>\<open>HTTP/1.0\<close> (\<^verbatim>\<open>OPTIONS * HTTP/1.0\<close> when there is no origin form), whatever
  version the client named. The request is a tunnel from then on exactly if its method is \<^verbatim>\<open>CONNECT\<close>.
\<close>

theorem request_rewritten:
  assumes "ntop_ok env" "run (feed_request env) (request_parser_init p) bs = Inr q" "rp_state q = request_done"
  shows "\<exists>r ma mi rest cr'. bs = request_bytes r ma mi @ rest \<and> pieces_ok (pe_pton6 env) r \<and>
    request_of_line env (rp_request q) cr = Inr cr' \<and> cr_request_line cr' = request_line_text r \<and> length (request_line_text r) < request_line_room \<and>
    cr_method cr' = q_method r \<and> length (cr_method cr') < method_room \<and> length (cr_target cr') < target_room \<and>
    cr_connect cr' = (cr_connect cr \<or> q_method r = CONNECT_method) \<and> cr_host_type cr' = host_kind (pe_pton4 env) (q_authority r)"
proof -
  obtain q' where "request_reads (pe_pton4 env) (pe_pton6 env) bs q'" "rp_state q' = request_done" "rp_request q' = rp_request q"
    using assms(2,3) request_reads_run by blast
  then obtain r ma mi rest where r: "bs = request_bytes r ma mi @ rest" "pieces_ok (pe_pton6 env) r"
      "rp_request q = request_value (pe_pton4 env) (pe_pton6 env) r ma mi"
    by (cases rule: request_reads.cases)
      (auto simp: st_method_def st_scheme_def st_host_def st_port_def st_origin_def st_version_def st_major_def st_minor_def st_end_def
        request_failed_def)
  obtain cr' where "request_of_line env (rp_request q) cr = Inr cr'" "cr_request_line cr' = request_line_text r" "cr_method cr' = q_method r"
      "cr_connect cr' = (cr_connect cr \<or> q_method r = CONNECT_method)" "cr_host_type cr' = host_kind (pe_pton4 env) (q_authority r)"
      "length (cr_method cr') < method_room" "length (cr_target cr') < target_room"
    using request_of_line_value [OF assms(1) r(2), of ma mi cr] r(3) by metis
  moreover have "length (request_line_text r) < request_line_room"
    using request_line_length [OF r(2)] by (simp add: request_line_room_def request_consts)
  ultimately show ?thesis using r(1,2) by blast
qed


text \<open>
  C3: A socket that connects turns the request into a tunnel or sends it. When the socket to the origin is
  writable and has no error, the connection is counted, the client's bytes are kept, and the proxy relays
  from then on with \<^verbatim>\<open>HTTP/1.0 200 OK\<close> as the first bytes for the client if the method was \<^verbatim>\<open>CONNECT\<close>, and
  otherwise waits to send the rewritten line to the origin.
\<close>

theorem tunnel_or_line:
  assumes "os_ok env" "connecting (s, w) c p" "fst (os_getsockopt (pe_os env) (pc_origin_fd p) (os_then env w)) = Some 0"
  shows "\<exists>sw' p'. relay_call env c p Origin_Writable (s, w) = Inr sw' \<and> request_for_origin p p' sw' c \<and> others_same c w (snd sw') \<and>
    w_metrics (snd sw') = register_new_connection (w_metrics w)"
  by (rule connecting_connects [OF assms(2,1,3)])

text \<open>
  C11: The line goes out before anything else. Each time the origin takes bytes, what it takes is the front
  of what is left of the line, and it is counted as sent. When nothing is left the connection relays, with
  the bytes the client had sent after its line still to be sent and none lost; until then the client is
  not read.
\<close>

theorem line_sent_then_relays:
  assumes "os_ok env" "sending (s, w) c p line"
    "bs = take (nat (fst (os_send (pe_os env) (pc_origin_fd p) line (os_then env w)))) line" "bs \<noteq> []"
  shows "\<exists>rest. line = bs @ rest \<and> (\<exists>sw' p'. relay_call env c p Origin_Writable (s, w) = Inr sw' \<and> others_same c w (snd sw') \<and>
    w_metrics (snd sw') = increase_bytes_sent (word_of_nat (length bs)) (w_metrics w) \<and> pc_client_buffer p' = pc_client_buffer p \<and>
    pc_client_fd p' = pc_client_fd p \<and> pc_origin_fd p' = pc_origin_fd p \<and>
    (if rest = [] then relay_ok sw' c p' \<and> contents (pc_origin_buffer p') = [] else sending sw' c p' rest))"
proof (intro exI [of _ "drop (length bs) line"] conjI)
  show "line = bs @ drop (length bs) line"
    using assms(3) by (metis append_take_drop_id length_take min.commute take_take append_eq_conv_conj)
qed (rule sending_event [OF assms(2,1,3,4)])

text \<open>Witnesses: the request of the client above, and the states it passes through.\<close>

theorem request_rewritten_witness:
  "\<exists>q cr'. run (feed_request literal_env) (request_parser_init zero_request_parser) some_request = Inr q \<and>
    request_of_line literal_env (rp_request q) zero_connection_request = Inr cr'"
proof -
  let ?q = "st_end (request_value (pe_pton4 literal_env) (pe_pton6 literal_env) some_pieces [49] [48]) request_done"
  have run: "run (feed_request literal_env) (request_parser_init zero_request_parser) some_request = Inr ?q"
    unfolding some_request_def by (rule run_request [OF some_pieces_ok])
  have "rp_state ?q = request_done" by (simp add: st_end_def)
  from request_rewritten [OF literal_env_ok(2) run this, of zero_connection_request] run show ?thesis by blast
qed


definition waiting_client :: proxy_connection where
  "waiting_client = (some_connection (Some TRY_CONNECTION_IP))\<lparr>pc_request := zero_connection_request\<lparr>cr_host_type := ipv4, cr_connect := True\<rparr>\<rparr>"

definition sending_client :: proxy_connection where
  "sending_client = (some_connection (Some SEND_REQUEST_LINE))\<lparr>pc_origin_buffer := \<lparr>b_data = [71, 69], b_limit = 2, b_read = 0, b_write = 2\<rparr>\<rparr>"

theorem tunnel_or_line_witness:
  "\<exists>s sw' p'. relay_call some_env 0 waiting_client Origin_Writable (s, some_world waiting_client) = Inr sw' \<and>
     request_for_origin waiting_client p' sw' 0"
proof -
  obtain s where "sel_inv s" "linked s 0 waiting_client (OP_NOOP, OP_WRITE)"
    using linked_exists [of waiting_client 0 "(OP_NOOP, OP_WRITE)"] by (auto simp: waiting_client_def invalid_fd_def ITEMS_MAX_SIZE_def)
  then have c: "connecting (s, some_world waiting_client) 0 waiting_client"
    by (simp add: connecting_def dialing_def asks_name_def INTERNAL_SERVER_ERROR_def waiting_client_def buffers_ok_def buffer_inv_def buffer_init_def buffer_reset_def contents_def buffer_room_def
        zero_connection_request_def method_room_def target_room_def request_consts)
  have "fst (os_getsockopt (pe_os some_env) (pc_origin_fd waiting_client) (os_then some_env (some_world waiting_client))) = Some 0"
    by (simp add: some_env_def some_os_def)
  from tunnel_or_line [OF some_os_ok c this] show ?thesis by blast
qed

theorem line_sent_then_relays_witness:
  "\<exists>s sw' p'. relay_call some_env 0 sending_client Origin_Writable (s, some_world sending_client) = Inr sw' \<and> relay_ok sw' 0 p'"
proof -
  obtain s where "sel_inv s" "linked s 0 sending_client (OP_NOOP, OP_WRITE)"
    using linked_exists [of sending_client 0 "(OP_NOOP, OP_WRITE)"] by (auto simp: sending_client_def invalid_fd_def ITEMS_MAX_SIZE_def)
  then have c: "sending (s, some_world sending_client) 0 sending_client [71, 69]"
    by (simp add: sending_def sending_client_def buffers_ok_def buffer_inv_def buffer_init_def buffer_reset_def contents_def buffer_room_def
        zero_connection_request_def method_room_def target_room_def request_consts)
  have "([71, 69] :: bytes) = take (nat (fst (os_send (pe_os some_env) (pc_origin_fd sending_client) [71, 69]
      (os_then some_env (some_world sending_client))))) [71, 69]"
    by (simp add: some_env_def some_os_def)
  from line_sent_then_relays [OF some_os_ok c this] show ?thesis by (auto split: if_splits)
qed

end
