(* ===== verification/Failed_Connections.thy ===== *)
theory Failed_Connections
  imports Forwarding
begin

text \<open>
  A connection to the origin that fails: \<^verbatim>\<open>try_connection_ip_on_write_ready\<close> when the socket reports an error and
  there is no other address to try.
\<close>

lemma logger_error_open:
  assumes "os_ok env"
  shows "\<exists>st. logger_log env line LEVEL_ERROR (s, w) = Inr ((), (s, w\<lparr>w_os := st\<rparr>))"
proof -
  obtain n nb st where wr: "os_write (pe_os env) STDERR_FILENO line (w_os w) = ((n, nb), st)" by (metis prod.collapse)
  have "\<not> nb" using assms wr unfolding os_ok_def by (metis fst_conv snd_conv)
  then show ?thesis using wr by (intro exI [of _ st]) (simp add: logger_log_def run_simps)
qed

lemma log_level_msg_spec:
  assumes "os_ok env"
  shows "\<exists>st. log_level_msg env msg LEVEL_ERROR (s, w) = Inr ((), (s, w\<lparr>w_os := st\<rparr>))"
proof -
  obtain stamp st where t: "os_time_text (pe_os env) (w_os w) = (stamp, st)" by fastforce
  show ?thesis
    using logger_error_open [OF assms, of _ s "w\<lparr>w_os := st\<rparr>"] t
    by (auto simp: log_level_msg_def get_time_def run_simps Let_def)
qed

lemma origin_refused:
  assumes "os_ok env" "fst (os_getsockopt (pe_os env) fd (w_os w)) = Some err" "err \<noteq> 0"
  shows "\<exists>st. check_origin_connection env fd (s, w) = Inr (False, (s, w\<lparr>w_os := st\<rparr>))"
proof -
  let ?w = "w\<lparr>w_os := snd (os_getsockopt (pe_os env) fd (w_os w))\<rparr>"
  obtain st where "log_level_msg env (ascii ''Connection could not be established, closing sockets.'') LEVEL_ERROR (s, ?w) =
      Inr ((), (s, ?w\<lparr>w_os := st\<rparr>))"
    using log_level_msg_spec [OF assms(1)] by blast
  then show ?thesis using assms(2,3) by (intro exI [of _ st]) (simp add: check_origin_connection_def run_simps)
qed

text \<open>The reply of a connection that holds a socket to the origin: the socket is not watched any more.\<close>

definition failed :: "'o psys \<Rightarrow> nat \<Rightarrow> proxy_connection \<Rightarrow> bytes \<Rightarrow> bool" where
  "failed sw c p text \<longleftrightarrow>
     sel_inv (fst sw) \<and> w_conns (snd sw) c = Some p \<and> pc_stm p = some_machine (Some ERROR) \<and> buffers_ok p \<and>
     contents (pc_origin_buffer p) = text \<and> pc_origin_status p = ACTIVE_STATUS \<and> linked (fst sw) c p (OP_WRITE, OP_NOOP)"

lemma error_arrival_linked:
  assumes "sel_inv s" "w_conns w c = Some p" "linked s c p n" "buffers_ok p" "64 \<le> b_limit (pc_origin_buffer p)"
    "pc_origin_status p = ACTIVE_STATUS" "pc_error p < 1000" "pc_stm p = some_machine (Some ERROR)" "key_data key = Some (Connection c)"
  shows "\<exists>s' p'. arrive_at (connection_states env key ! ERROR) (s, w) = Inr (s', with_conn c p' w) \<and>
    failed (s', with_conn c p' w) c p' (error_text (pc_error p) (reason_of (pc_error p))) \<and>
    pc_client_fd p' = pc_client_fd p \<and> pc_origin_fd p' = pc_origin_fd p"
proof -
  obtain fd where key: "key = \<lparr>key_fd = fd, key_data = Some (Connection c)\<rparr>" using assms(9) by (cases key) simp
  let ?t = "error_text (pc_error p) (reason_of (pc_error p))" and ?b = "buffer_reset (pc_origin_buffer p)"
  have "length ?t < buffer_room ?b" using error_text_length [OF assms(7)] assms(5) by simp
  then obtain b where b: "buffer_sprintf ?t ?b = Inr b" "buffer_inv b" "contents b = ?t"
    using sprintf_spec [of ?b ?t] assms(4) by (auto simp: buffers_ok_def)
  let ?p = "p\<lparr>pc_origin_buffer := b\<rparr>"
  have l: "linked s c ?p n" by (rule linked_frame [OF assms(3)]) simp_all
  obtain s1 where s1: "set_interest (pc_client_fd p) OP_WRITE (s, with_conn c ?p w) = Inr (SELECTOR_SUCCESS, (s1, with_conn c ?p w))"
      "sel_inv s1" "linked s1 c ?p (OP_WRITE, snd n)"
    using set_interest_linked(1) [OF assms(1) l, of OP_WRITE "with_conn c ?p w"] by auto
  obtain s2 where s2: "set_interest (pc_origin_fd p) OP_NOOP (s1, with_conn c ?p w) = Inr (SELECTOR_SUCCESS, (s2, with_conn c ?p w))"
      "sel_inv s2" "linked s2 c ?p (OP_WRITE, OP_NOOP)"
    using set_interest_linked(2) [OF s1(2,3), of OP_NOOP "with_conn c ?p w"] by auto
  have "error_on_arrival key (s, w) = Inr ((), (s2, with_conn c ?p w))"
    using s1(1) s2(1) assms(2,6) b(1)
    by (simp add: error_on_arrival_def key write_error_def reset_origin_buffer_def run_simps with_conn_def state_numbers)
  then have "arrive_at (connection_states env key ! ERROR) (s, w) = Inr (s2, with_conn c ?p w)"
    by (simp add: table_at arrive_row)
  moreover have "failed (s2, with_conn c ?p w) c ?p ?t"
    using s2(2,3) b assms(4,6,8) by (simp add: failed_def buffers_ok_def)
  ultimately show ?thesis by (intro exI [of _ s2] exI [of _ ?p]) simp
qed

lemma connecting_fails:
  assumes "dialing (s, w) c p" "os_ok env" "fst (os_getsockopt (pe_os env) (pc_origin_fd p) (os_then env w)) = Some err" "err \<noteq> 0"
    "cr_host_type (pc_request p) \<noteq> domain \<or> pc_doh p = None"
  shows "\<exists>sw' p'. relay_call env c p Origin_Writable (s, w) = Inr sw' \<and>
    failed sw' c p' (error_text INTERNAL_SERVER_ERROR (reason_of INTERNAL_SERVER_ERROR)) \<and>
    pc_client_fd p' = pc_client_fd p \<and> pc_origin_fd p' = pc_origin_fd p \<and> others_same c w (snd sw') \<and>
    w_metrics (snd sw') = increase_failed_connections (w_metrics w)"
proof -
  let ?key = "origin_key c p"
  note p = assms(1) [unfolded dialing_def fst_conv snd_conv]
  obtain now where now: "os_time (pe_os env) (w_os w) = (now, os_then env w)" using time_then by blast
  let ?p1 = "p\<lparr>pc_last_action_time := now\<rparr>"
  let ?w1 = "w\<lparr>w_os := os_then env w, w_conns := (w_conns w)(c \<mapsto> ?p1)\<rparr>"
  have stm: "pc_stm p = \<lparr>sm_initial = 0, sm_max_state = 9, sm_current = Some 1\<rparr>" "pc_stm ?p1 = some_machine (Some 1)"
    using p by (simp_all add: some_machine_def state_numbers)
  have c: "w_conns w c = Some p" using p by blast
  have cs: "conn_state c (s, ?w1) = Inr (1, (s, ?w1))" by (rule run_conn_state [where p = ?p1]) (simp_all add: stm(1))
  have touch: "proxy_origin_write env ?key (s, w) = event_write env ?key c (s, ?w1)"
    using cs by (simp add: proxy_origin_write_def touch_def origin_key_def run_simps c now TRY_CONNECTION_IP_def)
  have row: "sd_on_write_ready (connection_states env ?key ! 1) = Some (try_connection_ip_on_write_ready env ?key)"
    using table_at(2) [of env ?key] by (simp add: state_numbers conn_row_def)
  note at = event_at [where event = sd_on_write_ready, of ?w1 c ?p1 1 env ?key, OF _ stm(2) _ row]
  obtain st where st: "check_origin_connection env (pc_origin_fd p) (s, ?w1) = Inr (False, (s, ?w1\<lparr>w_os := st\<rparr>))"
    using origin_refused [OF assms(2), of "pc_origin_fd p" ?w1 err s] assms(3,4) by auto
  let ?p2 = "?p1\<lparr>pc_error := INTERNAL_SERVER_ERROR\<rparr>"
  let ?w2 = "w\<lparr>w_os := st, w_metrics := increase_failed_connections (w_metrics w)\<rparr>"
  have e: "try_connection_ip_on_write_ready env ?key (s, ?w1) = Inr (ERROR, (s, with_conn c ?p2 ?w2))"
    using assms(5)
    by (cases "cr_host_type (pc_request p) = domain")
      (simp_all add: run_bind [where m = "check_origin_connection env (pc_origin_fd p)", OF st] try_connection_ip_on_write_ready_def
        origin_key_def run_simps count_metric_def set_error_def with_conn_def)
  let ?p3 = "at_state ERROR ?p2"
  have j: "jump (conn_cell c) (connection_states env ?key) ERROR (s, with_conn c ?p2 ?w2) =
      arrive_at (connection_states env ?key ! ERROR) (s, with_conn c ?p3 (with_conn c ?p2 ?w2))"
    by (rule jump_to [where p = ?p2 and n = 1]) (use stm(2) in \<open>simp_all add: state_numbers\<close>)
  have room: "64 \<le> b_limit (pc_origin_buffer p)" using p by (auto simp: buffer_room_def)
  have l: "linked s c ?p3 (OP_NOOP, OP_WRITE)" by (rule linked_frame [of s c p]) (use p in simp_all)
  have q: "w_conns (with_conn c ?p3 ?w2) c = Some ?p3" "buffers_ok ?p3" "64 \<le> b_limit (pc_origin_buffer ?p3)" "pc_origin_status ?p3 = ACTIVE_STATUS"
      "pc_error ?p3 < 1000" "pc_stm ?p3 = some_machine (Some ERROR)" "key_data ?key = Some (Connection c)"
    using p room by (simp_all add: buffers_ok_def INTERNAL_SERVER_ERROR_def origin_key_def at_state_def)
  obtain s' p' where p': "arrive_at (connection_states env ?key ! ERROR) (s, with_conn c ?p3 ?w2) = Inr (s', with_conn c p' (with_conn c ?p3 ?w2))"
      "failed (s', with_conn c p' (with_conn c ?p3 ?w2)) c p' (error_text (pc_error ?p3) (reason_of (pc_error ?p3)))"
      "pc_client_fd p' = pc_client_fd ?p3" "pc_origin_fd p' = pc_origin_fd ?p3"
    using error_arrival_linked [OF _ q(1) l q(2-7), of env] p by blast
  have "relay_call env c p Origin_Writable (s, w) = Inr (s', with_conn c p' ?w2)"
    using touch at e j p'(1) by (simp add: event_write_def stm_handler_write_def call_def handler_of_def)
  then show ?thesis using p'(2-4)
    by (intro exI [of _ "(s', with_conn c p' ?w2)"] exI [of _ p']) (simp add: others_same_def at_state_def)
qed

text \<open>The reply goes out, and with the last byte of it both sockets are closed and the connection is freed.\<close>

lemma failed_event:
  assumes "failed (s, w) c p left" "os_ok env" "moved env p Client_Writable (os_then env w) = bs" "bs \<noteq> []"
  shows "\<exists>sw'. relay_call env c p Client_Writable (s, w) = Inr sw' \<and> others_same c w (snd sw') \<and>
    (if drop (length bs) left = []
     then w_conns (snd sw') c = None \<and> sel_inv (fst sw') \<and>
       sel_entry (fst sw') = (sel_entry s)(nat (pc_origin_fd p) := None, nat (pc_client_fd p) := None)
     else \<exists>p'. failed sw' c p' (drop (length bs) left) \<and> pc_client_fd p' = pc_client_fd p \<and> pc_origin_fd p' = pc_origin_fd p)"
proof -
  let ?key = "client_key c p" and ?st = "os_then env w" and ?b = "pc_origin_buffer p"
  have p: "w_conns w c = Some p" "sel_inv s" "buffer_inv ?b" "buffers_ok p" "contents ?b = left"
      "pc_origin_status p = ACTIVE_STATUS" "pc_stm p = some_machine (Some 9)" "linked s c p (OP_WRITE, OP_NOOP)"
    using assms(1) by (simp_all add: failed_def buffers_ok_def state_numbers)
  have m: "take (nat (fst (os_send (pe_os env) (pc_client_fd p) left ?st))) left = bs"
    using assms(3) unfolding moved.simps p(5) .
  obtain n st where n: "os_send (pe_os env) (pc_client_fd p) left ?st = (int n, st)" "0 < n" "n \<le> length left"
    by (rule sent_count [OF assms(2), of "pc_client_fd p" left ?st]) (simp_all only: m assms(4) not_False_eq_True)
  have len: "length bs = n" using m n by auto
  obtain b2 where b: "buffer_read_adv ?b (int n) = Inr b2" "buffer_inv b2" "contents b2 = drop (length bs) left"
    using read_adv_spec [OF p(3), of n] p(5) n(3) len by auto
  obtain now where now: "os_time (pe_os env) (w_os w) = (now, ?st)" using time_then by blast
  let ?p = "p\<lparr>pc_last_action_time := now, pc_origin_buffer := b2\<rparr>"
  let ?w = "w\<lparr>w_os := st, w_metrics := increase_bytes_received (word_of_int (int n)) (w_metrics w),
    w_conns := (w_conns w)(c \<mapsto> ?p)\<rparr>"
  have stm: "pc_stm ?p = \<lparr>sm_initial = 0, sm_max_state = 9, sm_current = Some 9\<rparr>" using p(7) by (simp add: some_machine_def)
  have sent: "take (length left) (drop (b_read ?b) (b_data ?b)) = left" using sent_bytes [OF p(3)] p(5) by simp
  have row: "sd_on_write_ready (connection_states env ?key ! 9) = Some (error_on_write_ready ?key)"
    using table_at(10) [of env ?key] by (simp add: state_numbers conn_row_def)
  have call: "relay_call env c p Client_Writable (s, w) = bindR (bindR (error_on_write_ready ?key (s, ?w)) (\<lambda>(ret, sw).
      jump (conn_cell c) (connection_states env ?key) ret sw)) Inr"
  proof -
    have "proxy_client_write env ?key (s, w) = event_write env ?key c (s, ?w)"
      using n(2)
      by (simp add: proxy_client_write_def touch_def count_metric_def client_key_def run_simps p(1) now n(1)
          read_ptr_length [OF p(3)] sent p(5) b(1))
    then show ?thesis
      using event_at [where event = sd_on_write_ready, of ?w c ?p 9 env ?key, OF _ _ _ row] p(7)
      by (simp add: event_write_def stm_handler_write_def call_def handler_of_def bindR_assoc case_prod_unfold)
  qed
  show ?thesis
  proof (cases "drop (length bs) left = []")
    case True
    have e: "error_on_write_ready ?key (s, ?w) = Inr (DONE, (s, ?w))"
      using b(2,3) True by (simp add: error_on_write_ready_def client_key_def run_simps can_read_iff)
    let ?pd = "at_state DONE ?p"
    have j: "jump (conn_cell c) (connection_states env ?key) DONE (s, ?w) =
        arrive_at (connection_states env ?key ! DONE) (s, with_conn c ?pd ?w)"
      by (rule jump_to [where p = ?p and n = 9]) (simp_all add: p(7) state_numbers)
    have l: "linked s c ?pd (OP_WRITE, OP_NOOP)" by (rule linked_frame [OF p(8)]) simp_all
    obtain sw' where sw': "arrive_at (connection_states env ?key ! DONE) (s, with_conn c ?pd ?w) = Inr sw'"
        "freed env (s, with_conn c ?pd ?w) c ?pd sw'"
      using done_frees [OF p(2) l, of "with_conn c ?pd ?w" ?key env] p(6) by (auto simp: client_key_def)
    show ?thesis using call e j sw' True
      by (intro exI [of _ sw']) (auto simp: freed_def others_same_def)
  next
    case False
    have can: "buffer_can_read b2" using b(2,3) False by (simp add: can_read_iff)
    have e: "error_on_write_ready ?key (s, ?w) = Inr (9, (s, ?w))"
      using can by (simp add: error_on_write_ready_def client_key_def run_simps stm)
    have j: "jump (conn_cell c) (connection_states env ?key) 9 (s, ?w) = Inr (s, ?w)"
      by (rule jump_same [where p = ?p]) (simp_all add: p(7))
    have l: "linked s c ?p (OP_WRITE, OP_NOOP)" by (rule linked_frame [OF p(8)]) simp_all
    have "failed (s, ?w) c ?p (drop (length bs) left)"
      using p b(2,3) l by (simp add: failed_def buffers_ok_def state_numbers)
    then show ?thesis using call e j False
      by (intro exI [of _ "(s, ?w)"]) (auto simp: others_same_def)
  qed
qed


text \<open>
  C17: The reply of a failed connection is sent whole, and then nothing of the connection is left. Each time the
  client takes bytes they are the front of what is left of the reply; with the last of them both sockets are
  removed from the selector and the connection is freed, with no other connection changed.
\<close>

theorem failure_reply_sent:
  assumes "os_ok env" "failed (s, w) c p reply" "moved env p Client_Writable (os_then env w) = bs" "bs \<noteq> []"
  shows "\<exists>rest. reply = bs @ rest \<and> (\<exists>sw'. relay_call env c p Client_Writable (s, w) = Inr sw' \<and> others_same c w (snd sw') \<and>
    (if rest = []
     then w_conns (snd sw') c = None \<and> sel_inv (fst sw') \<and>
       sel_entry (fst sw') = (sel_entry s)(nat (pc_origin_fd p) := None, nat (pc_client_fd p) := None)
     else \<exists>p'. failed sw' c p' rest \<and> pc_client_fd p' = pc_client_fd p \<and> pc_origin_fd p' = pc_origin_fd p))"
proof (intro exI [of _ "drop (length bs) reply"] conjI)
  have "contents (pc_origin_buffer p) = reply" using assms(2) by (simp add: failed_def)
  then have "bs = take (nat (fst (os_send (pe_os env) (pc_client_fd p) reply (os_then env w)))) reply"
    using assms(3) by (simp add: length_contents)
  then show "reply = bs @ drop (length bs) reply" by (metis append_take_drop_id length_take min.commute take_take append_eq_conv_conj)
qed (rule failed_event [OF assms(2,1,3,4)])

definition refusing_env :: "bytes penv" where
  "refusing_env = some_env\<lparr>pe_os := some_os\<lparr>os_getsockopt := (\<lambda>fd st. (Some 111, st))\<rparr>\<rparr>"



definition refused_client :: proxy_connection where
  "refused_client = (some_connection (Some ERROR))\<lparr>pc_origin_buffer := \<lparr>b_data = [72, 105], b_limit = 2, b_read = 0, b_write = 2\<rparr>\<rparr>"

theorem failure_reply_sent_witness:
  "\<exists>s sw'. relay_call some_env 0 refused_client Client_Writable (s, some_world refused_client) = Inr sw' \<and> w_conns (snd sw') 0 = None"
proof -
  obtain s where "sel_inv s" "linked s 0 refused_client (OP_WRITE, OP_NOOP)"
    using linked_exists [of refused_client 0 "(OP_WRITE, OP_NOOP)"] by (auto simp: refused_client_def invalid_fd_def ITEMS_MAX_SIZE_def)
  then have f: "failed (s, some_world refused_client) 0 refused_client [72, 105]"
    by (simp add: failed_def refused_client_def buffers_ok_def buffer_inv_def buffer_init_def buffer_reset_def contents_def)
  have m: "moved some_env refused_client Client_Writable (os_then some_env (some_world refused_client)) = [72, 105]" "[72, 105] \<noteq> ([] :: bytes)"
    by (simp_all add: some_env_def some_os_def refused_client_def contents_def)
  from failure_reply_sent [OF some_os_ok f m] show ?thesis by (auto split: if_splits)
qed

end
