(* ===== verification/Addresses.thy ===== *)
theory Addresses
  imports Forwarding
begin

text \<open>
  The addresses of a name: the two loops of \<^verbatim>\<open>utils/doh/doh_utils.c\<close> over the answers of the name server,
  against a function that tries the answers in their order; when the loops end and when they do not.
\<close>

section \<open>Opening a socket\<close>

text \<open>A program that only asks the operating system: \<open>g\<close> is what it answers.\<close>

definition os_only :: "('o, 'a) prog \<Rightarrow> ('o \<Rightarrow> 'a \<times> 'o) \<Rightarrow> bool" where
  "os_only m g \<longleftrightarrow> (\<forall>s w. m (s, w) = Inr (fst (g (w_os w)), (s, w\<lparr>w_os := snd (g (w_os w))\<rparr>)))"

lemma os_onlyD: "os_only m g \<Longrightarrow> m (s, w) = Inr (fst (g (w_os w)), (s, w\<lparr>w_os := snd (g (w_os w))\<rparr>))"
  by (simp add: os_only_def)

lemma os_only_return: "os_only (returnS x) (\<lambda>st. (x, st))"
  by (simp add: os_only_def run_simps)

lemma os_only_sys_call: "os_only (sys_call f) f"
  by (simp add: os_only_def run_simps)

lemma os_only_bind:
  assumes "os_only m g" "\<And>x. os_only (f x) (h x)"
  shows "os_only (bindS m f) (\<lambda>st. h (fst (g st)) (snd (g st)))"
  using os_onlyD [OF assms(1)] os_onlyD [OF assms(2)] by (simp add: os_only_def run_simps)

lemma os_only_close: "os_only (thenS (sys_do f) (returnS x)) (\<lambda>st. (x, f st))"
  by (simp add: os_only_def run_simps)

lemma os_only_if: "os_only m g \<Longrightarrow> os_only m' g' \<Longrightarrow> os_only (if b then m else m') (if b then g else g')"
  by simp

lemma os_only_pair: "(\<And>x y. os_only (f x y) (g x y)) \<Longrightarrow> os_only (case z of (x, y) \<Rightarrow> f x y) (g (fst z) (snd z))"
  by (cases z) simp

lemma os_only_eq: "os_only m g \<Longrightarrow> (\<And>st. g st = g' st) \<Longrightarrow> os_only m g'"
  by (simp add: os_only_def)

text \<open>What \<^verbatim>\<open>establish_origin_connection\<close> does to the operating system.\<close>

definition nio_attempt :: "'o penv \<Rightarrow> int \<Rightarrow> 'o \<Rightarrow> int \<times> 'o" where
  "nio_attempt env fd st =
     (let (flags, st) = os_getfd (pe_os env) fd st
      in if flags = - 1 then (- 1, st)
         else let (r, st) = os_setfl (pe_os env) fd (flags OR 2048) st in (if r = - 1 then - 1 else 0, st))"

definition attempt :: "'o penv \<Rightarrow> address \<Rightarrow> u16 \<Rightarrow> 'o \<Rightarrow> int \<times> 'o" where
  "attempt env addr family st =
     (let (sock, st) = os_socket (pe_os env) family st; close = (\<lambda>st. (- 1, os_close (pe_os env) sock st))
      in if sock < 0 then (- 1, st)
         else let (r, st) = nio_attempt env sock st
         in if r < 0 then close st
            else let (r, st) = os_setsockopt (pe_os env) sock st
            in if r < 0 then close st
               else let ((r, in_progress), st) = os_connect (pe_os env) sock addr st
               in if r < 0 \<and> \<not> in_progress then close st else (sock, st))"

lemma nio_os_only: "os_only (selector_fd_set_nio env fd) (nio_attempt env fd)"
  unfolding os_only_def selector_fd_set_nio_def nio_attempt_def
  by (auto simp: run_simps split: prod.splits)

lemma establish_os_only: "os_only (establish_origin_connection env addr family) (attempt env addr family)"
  unfolding establish_origin_connection_def
  by (rule os_only_eq, (rule os_only_bind os_only_if os_only_pair os_only_sys_call os_only_return os_only_close nio_os_only)+)
    (simp add: attempt_def Let_def split: prod.splits)

lemma attempt_fd: "fst (attempt env addr family st) = - 1 \<or> 0 \<le> fst (attempt env addr family st)"
  by (auto simp: attempt_def Let_def split: prod.splits)

section \<open>Trying the addresses\<close>

text \<open>The answers are tried in order until one gives a socket.\<close>

datatype 'o tries = Reached int "answer list" 'o | Exhausted int 'o

fun first_reached :: "u16 \<Rightarrow> (answer \<Rightarrow> 'o \<Rightarrow> int \<times> 'o) \<Rightarrow> answer list \<Rightarrow> int \<Rightarrow> 'o \<Rightarrow> 'o tries" where
  "first_reached family connect [] fd st = Exhausted fd st"
| "first_reached family connect (a # as) fd st =
     (if an_type a \<noteq> family then first_reached family connect as fd st
      else let (fd, st) = connect a st in if fd = - 1 then first_reached family connect as fd st else Reached fd as st)"

definition connect4 :: "'o penv \<Rightarrow> u16 \<Rightarrow> answer \<Rightarrow> 'o \<Rightarrow> int \<times> 'o" where
  "connect4 env pno a = attempt env (Addr4 \<lparr>sin_family = AF_INET, sin_port = pno, sin_addr = in_addr_of (an_ip a)\<rparr>) AF_INET"

definition connect6 :: "'o penv \<Rightarrow> u16 \<Rightarrow> answer \<Rightarrow> 'o \<Rightarrow> int \<times> 'o" where
  "connect6 env pno a = attempt env (Addr6 \<lparr>sin6_family = AF_INET6, sin6_port = pno, sin6_addr = an_ip a\<rparr>) AF_INET6"

text \<open>The connection after \<open>n\<close> answers, with the descriptor of the last attempt.\<close>

definition tried :: "proxy_connection \<Rightarrow> doh_connection \<Rightarrow> nat \<Rightarrow> int \<Rightarrow> proxy_connection" where
  "tried p d n fd = p\<lparr>pc_origin_fd := fd, pc_doh := Some (d\<lparr>dc_current_try := word_of_nat n\<rparr>)\<rparr>"

lemma tried_again [simp]: "(tried p d n fd)\<lparr>pc_origin_fd := fd'\<rparr> = tried p d n fd'"
  by (cases p) (simp add: tried_def)

definition answers_ok :: "doh_connection \<Rightarrow> answer list \<Rightarrow> bool" where
  "answers_ok d as \<longleftrightarrow>
     dr_answers (doh_response_of d) = Some as \<and> length as = unat (dh_ancount (dr_header (doh_response_of d))) \<and> length as < 256"

definition request_is :: "proxy_connection \<Rightarrow> u16 \<Rightarrow> bool" where
  "request_is p pno \<longleftrightarrow> (\<exists>r. pc_parsers p = Request_Line r \<and> rt_port (rp_target r) = pno)"

lemma more_answers_value:
  assumes "pc_doh p = Some (d\<lparr>dc_current_try := word_of_nat n\<rparr>)" "answers_ok d as" "n \<le> length as"
  shows "more_answers c (s, with_conn c p w) = Inr (n < length as, (s, with_conn c p w))"
proof -
  have "unat (word_of_nat n :: u8) = n" "unat (ucast (word_of_nat n :: u8) :: u16) = n"
    using assms(2,3) by (simp_all add: answers_ok_def unat_of_nat unsigned_ucast_eq take_bit_nat_eq_self)
  then have "((ucast (word_of_nat n :: u8) :: u16) < dh_ancount (dr_header (doh_response_of d))) = (n < length as)"
    using assms(2) by (simp add: answers_ok_def word_less_nat_alt)
  then show ?thesis using assms(1)
    by (simp add: more_answers_def doh_get_def run_simps doh_response_of_def)
qed

lemma answer_entry_value:
  assumes "pc_doh p = Some (d\<lparr>dc_current_try := word_of_nat n\<rparr>)" "answers_ok d as" "n < length as"
  shows "answer_entry c (s, with_conn c p w) =
    Inr (as ! n, (s, with_conn c (p\<lparr>pc_doh := Some (d\<lparr>dc_current_try := word_of_nat (Suc n)\<rparr>)\<rparr>) w))"
proof -
  have "uint (word_of_nat n :: u8) = int n" using assms(2,3) by (simp add: answers_ok_def unsigned_of_nat take_bit_nat_eq_self)
  then have "arr_get as (uint (word_of_nat n :: u8)) = Inr (as ! n)" using assms(3) by (simp add: arr_get_def)
  then show ?thesis using assms(1,2)
    by (simp add: answer_entry_def doh_get_def doh_upd_def run_simps doh_response_of_def answers_ok_def with_conn_upd add.commute)
qed


lemma request_port_value:
  assumes "request_is p pno"
  shows "request_port c (s, with_conn c p w) = Inr (pno, (s, with_conn c p w))"
  using assms by (auto simp: request_is_def request_port_def run_simps)

text \<open>The two loops of the code, one for each family, are the same but for the family.\<close>

locale address_loop =
  fixes loop :: "nat \<Rightarrow> ('o, nat) prog" and env :: "'o penv" and key :: pkey and c :: nat and family :: u16
    and dial :: "u16 \<Rightarrow> answer \<Rightarrow> ('o, int) prog" and connect :: "u16 \<Rightarrow> answer \<Rightarrow> 'o \<Rightarrow> int \<times> 'o" and stop :: "('o, nat) prog"
  assumes loop_0: "loop 0 = failS Hang"
    and loop_Suc: "loop (Suc fuel) =
      bindS (more_answers c) (\<lambda>more.
      if \<not> more then stop
      else bindS (answer_entry c) (\<lambda>a.
        if an_type a \<noteq> family then loop fuel
        else bindS (request_port c) (\<lambda>pno.
          bindS (dial pno a) (\<lambda>fd.
          thenS (conn_upd c (\<lambda>p. p\<lparr>pc_origin_fd := fd\<rparr>))
          (if fd = - 1 then loop fuel else try_registered env key c)))))"
    and opening_connects: "os_only (dial pno a) (connect pno a)"
begin

lemma tries_value:
  assumes "answers_ok d as" "request_is p pno"
  shows "n \<le> length as \<Longrightarrow> length as - n < fuel \<Longrightarrow>
    loop fuel (s, with_conn c (tried p d n fd) w) =
     (case first_reached family (connect pno) (drop n as) fd (w_os w) of
        Reached fd rest st \<Rightarrow> try_registered env key c (s, with_conn c (tried p d (length as - length rest) fd) (w\<lparr>w_os := st\<rparr>))
      | Exhausted fd st \<Rightarrow> stop (s, with_conn c (tried p d (length as) fd) (w\<lparr>w_os := st\<rparr>)))"
proof (induction fuel arbitrary: n fd w)
  case 0
  then show ?case by simp
next
  case (Suc fuel)
  let ?p = "tried p d n fd" and ?p1 = "tried p d (Suc n) fd"
  have more: "more_answers c (s, with_conn c ?p w) = Inr (n < length as, (s, with_conn c ?p w))"
    by (rule more_answers_value [OF _ assms(1) Suc.prems(1)]) (simp add: tried_def)
  show ?case
  proof (cases "n < length as")
    case False
    then have n: "n = length as" using Suc.prems(1) by simp
    show ?thesis unfolding loop_Suc run_bind [where m = "more_answers c", OF more] using n by simp
  next
    case True
    have entry: "answer_entry c (s, with_conn c ?p w) = Inr (as ! n, (s, with_conn c ?p1 w))"
      using answer_entry_value [OF _ assms(1) True, where p = ?p] by (simp add: tried_def)
    have as: "drop n as = as ! n # drop (Suc n) as" using True by (simp add: Cons_nth_drop_Suc)
    have room: "Suc n \<le> length as" "length as - Suc n < fuel" using Suc.prems True by simp_all
    note IH = Suc.IH [OF room]
    show ?thesis
    proof (cases "an_type (as ! n) = family")
      case False
      then have "loop (Suc fuel) (s, with_conn c ?p w) = loop fuel (s, with_conn c ?p1 w)"
        using more entry True by (simp add: loop_Suc run_simps)
      then show ?thesis using IH Suc.prems True False by (simp add: as)
    next
      case type: True
      obtain fd1 st1 where g: "connect pno (as ! n) (w_os w) = (fd1, st1)" by fastforce
      have rp: "request_port c (s, with_conn c ?p1 w) = Inr (pno, (s, with_conn c ?p1 w))"
        by (rule request_port_value) (use assms(2) in \<open>simp add: request_is_def tried_def\<close>)
      have o: "dial pno (as ! n) (s, with_conn c ?p1 w) = Inr (fd1, (s, with_conn c ?p1 (w\<lparr>w_os := st1\<rparr>)))"
        using os_onlyD [OF opening_connects] g by (simp add: with_conn_def)
      have "loop (Suc fuel) (s, with_conn c ?p w) =
          (if fd1 = - 1 then loop fuel else try_registered env key c) (s, with_conn c (tried p d (Suc n) fd1) (w\<lparr>w_os := st1\<rparr>))"
        using more entry True type rp o by (simp add: loop_Suc run_simps with_conn_upd)
      moreover have "length as - length (drop (Suc n) as) = Suc n" using True by simp
      ultimately show ?thesis using IH [of fd1 "w\<lparr>w_os := st1\<rparr>"] Suc.prems True type g
        by (cases "fd1 = - 1"; cases "first_reached family (connect pno) (drop (Suc n) as) fd1 st1") (simp_all add: as)
    qed
  qed
qed

text \<open>With 256 answers or more of other types the counter comes round again.\<close>

lemma tries_hang:
  assumes "dr_answers (doh_response_of d) = Some as" "length as = unat (dh_ancount (dr_header (doh_response_of d)))"
    "256 \<le> length as" "\<forall>n < 256. an_type (as ! n) \<noteq> family"
  shows "loop fuel (s, with_conn c (p\<lparr>pc_doh := Some (d\<lparr>dc_current_try := k\<rparr>)\<rparr>) w) = Inl Hang"
proof (induction fuel arbitrary: k)
  case 0
  then show ?case by (simp add: loop_0 run_simps)
next
  case (Suc fuel)
  let ?p = "p\<lparr>pc_doh := Some (d\<lparr>dc_current_try := k\<rparr>)\<rparr>"
  have k: "unat k < 256" by (rule unat_u8)
  have "unat (ucast k :: u16) = unat k" by (simp add: unsigned_ucast_eq take_bit_nat_eq_self less_le_trans [OF k])
  then have "(ucast k :: u16) < dh_ancount (dr_header (doh_response_of d))" using k assms(2,3) by (simp add: word_less_nat_alt)
  then have more: "more_answers c (s, with_conn c ?p w) = Inr (True, (s, with_conn c ?p w))"
    by (simp add: more_answers_def doh_get_def run_simps doh_response_of_def)
  have "uint k = int (unat k)" by simp
  then have "uint k < int (length as)" using k assms(3) by linarith
  then have "arr_get as (uint k) = Inr (as ! unat k)" by (simp add: arr_get_def)
  then have entry: "answer_entry c (s, with_conn c ?p w) =
      Inr (as ! unat k, (s, with_conn c (p\<lparr>pc_doh := Some (d\<lparr>dc_current_try := k + 1\<rparr>)\<rparr>) w))"
    using assms(1) by (simp add: answer_entry_def doh_get_def doh_upd_def run_simps doh_response_of_def with_conn_upd)
  show ?case using more entry k assms(4) Suc.IH by (simp add: loop_Suc run_simps)
qed

end

interpretation v4: address_loop "\<lambda>fuel. try_next_ipv4_connection fuel env key c" env key c IPV4_TYPE
    "\<lambda>pno a. establish_origin_connection env (Addr4 \<lparr>sin_family = AF_INET, sin_port = pno, sin_addr = in_addr_of (an_ip a)\<rparr>) AF_INET"
    "connect4 env" "switch_to_ipv6 env key c" for env :: "'o penv" and key c
  by unfold_locales (simp_all add: connect4_def establish_os_only)

interpretation v6: address_loop "\<lambda>fuel. try_next_ipv6_connection fuel env key c" env key c IPV6_TYPE
    "\<lambda>pno a. establish_origin_connection env (Addr6 \<lparr>sin6_family = AF_INET6, sin6_port = pno, sin6_addr = an_ip a\<rparr>) AF_INET6"
    "connect6 env" "set_error c INTERNAL_SERVER_ERROR" for env :: "'o penv" and key c
  by unfold_locales (simp_all add: connect6_def establish_os_only)


section \<open>The next address\<close>

lemma conn_is: "w_conns w c = Some p \<Longrightarrow> with_conn c p w = w"
  by (simp add: with_conn_def fun_upd_idem)

text \<open>The socket that is registered when an attempt succeeds.\<close>

lemma registered:
  assumes "sel_inv s" "\<not> invalid_fd (pc_origin_fd p)" "sel_entry s (nat (pc_origin_fd p)) = None"
  shows "\<exists>s'. try_registered env \<lparr>key_fd = kfd, key_data = Some (Connection c)\<rparr> c (s, with_conn c p w) =
      Inr (TRY_CONNECTION_IP, (s', with_conn c (p\<lparr>pc_origin_status := ACTIVE_STATUS\<rparr>) w)) \<and> sel_inv s' \<and>
    sel_entry s' = (sel_entry s)(nat (pc_origin_fd p) \<mapsto> (origin_handler, OP_WRITE, Some (Connection c)))"
proof -
  let ?p = "p\<lparr>pc_origin_status := ACTIVE_STATUS\<rparr>"
  obtain s' where "register_fd env (pc_origin_fd p) origin_handler OP_WRITE (Some (Connection c)) (s, with_conn c ?p w) =
      Inr (SELECTOR_SUCCESS, (s', with_conn c ?p w))" "sel_inv s'"
      "sel_entry s' = (sel_entry s)(nat (pc_origin_fd p) \<mapsto> (origin_handler, OP_WRITE, Some (Connection c)))"
    using register_origin [OF assms] by blast
  then show ?thesis
    by (intro exI [of _ s']) (simp add: try_registered_def register_origin_socket_def run_simps with_conn_upd)
qed

definition rcode_of :: "doh_connection \<Rightarrow> u8" where
  "rcode_of d = df_rcode (dh_flags (dr_header (doh_response_of d)))"

text \<open>A connection whose name has been answered: the answers are those of the code's array.\<close>

definition answered_name :: "'o psys \<Rightarrow> nat \<Rightarrow> proxy_connection \<Rightarrow> doh_connection \<Rightarrow> u16 \<Rightarrow> bool" where
  "answered_name sw c p d pno \<longleftrightarrow>
     sel_inv (fst sw) \<and> w_conns (snd sw) c = Some p \<and> pc_doh p = Some d \<and> rcode_of d = 0 \<and> request_is p pno \<and>
     \<not> invalid_fd (pc_origin_fd p) \<and>
     (\<exists>n. sel_entry (fst sw) (nat (pc_origin_fd p)) = Some (origin_handler, n, Some (Connection c)))"

lemma next_address:
  assumes "answered_name (s, w) c p d pno"
  shows "\<exists>s1. sel_inv s1 \<and> sel_entry s1 = (sel_entry s)(nat (pc_origin_fd p) := None) \<and>
    try_next_dns_connection env \<lparr>key_fd = kfd, key_data = Some (Connection c)\<rparr> (s, w) =
      (if dc_current_type d = ipv4_try then try_next_ipv4_connection (pe_fuel env) env \<lparr>key_fd = kfd, key_data = Some (Connection c)\<rparr> c
       else try_next_ipv6_connection (pe_fuel env) env \<lparr>key_fd = kfd, key_data = Some (Connection c)\<rparr> c)
      (s1, w\<lparr>w_os := os_close (pe_os env) (pc_origin_fd p) (w_os w)\<rparr>)"
proof -
  note p = assms [unfolded answered_name_def fst_conv snd_conv]
  obtain n where n: "sel_entry s (nat (pc_origin_fd p)) = Some (origin_handler, n, Some (Connection c))" using p by blast
  obtain s1 where "unregister_fd env (pc_origin_fd p) (s, w) =
      Inr (SELECTOR_SUCCESS, (s1, w\<lparr>w_os := os_close (pe_os env) (pc_origin_fd p) (w_os w)\<rparr>))" "sel_inv s1"
      "sel_entry s1 = (sel_entry s)(nat (pc_origin_fd p) := None)"
    using unregister_origin [OF _ _ n, of env w] p by blast
  then show ?thesis using p
    by (intro exI [of _ s1]) (simp add: try_next_dns_connection_def doh_get_def run_simps rcode_of_def Let_def)
qed

text \<open>The loops, against the function that tries the addresses in order.\<close>

lemma addresses_tried:
  assumes "answered_name (s, w) c p d pno" "answers_ok d as" "dc_current_try d = word_of_nat n" "n \<le> length as" "256 \<le> pe_fuel env"
    "key = \<lparr>key_fd = kfd, key_data = Some (Connection c)\<rparr>"
  shows "\<exists>s1. sel_inv s1 \<and> sel_entry s1 = (sel_entry s)(nat (pc_origin_fd p) := None) \<and>
    try_next_dns_connection env key (s, w) =
     (case first_reached (if dc_current_type d = ipv4_try then IPV4_TYPE else IPV6_TYPE)
         (if dc_current_type d = ipv4_try then connect4 env pno else connect6 env pno) (drop n as) (pc_origin_fd p)
         (os_close (pe_os env) (pc_origin_fd p) (w_os w)) of
        Reached fd rest st \<Rightarrow> try_registered env key c (s1, with_conn c (tried p d (length as - length rest) fd) (w\<lparr>w_os := st\<rparr>))
      | Exhausted fd st \<Rightarrow> (if dc_current_type d = ipv4_try then switch_to_ipv6 env key c else set_error c INTERNAL_SERVER_ERROR)
          (s1, with_conn c (tried p d (length as) fd) (w\<lparr>w_os := st\<rparr>)))"
proof -
  note a = assms(1) [unfolded answered_name_def fst_conv snd_conv]
  let ?w = "w\<lparr>w_os := os_close (pe_os env) (pc_origin_fd p) (w_os w)\<rparr>"
  obtain s1 where s1: "sel_inv s1" "sel_entry s1 = (sel_entry s)(nat (pc_origin_fd p) := None)"
      "try_next_dns_connection env key (s, w) =
        (if dc_current_type d = ipv4_try then try_next_ipv4_connection (pe_fuel env) env key c
         else try_next_ipv6_connection (pe_fuel env) env key c) (s1, ?w)"
    using next_address [OF assms(1), of env kfd] assms(6) by blast
  have "d\<lparr>dc_current_try := word_of_nat n\<rparr> = d" using assms(3) by (cases d) simp
  then have "tried p d n (pc_origin_fd p) = p" using a by (cases p) (simp add: tried_def)
  then have w: "with_conn c (tried p d n (pc_origin_fd p)) ?w = ?w" using a by (simp add: conn_is)
  have fuel: "length as - n < pe_fuel env" using assms(2,5) unfolding answers_ok_def by linarith
  have pno: "request_is p pno" using a by blast
  show ?thesis
    using s1 v4.tries_value [OF assms(2) pno assms(4) fuel, of env key c s1 "pc_origin_fd p" ?w]
      v6.tries_value [OF assms(2) pno assms(4) fuel, of env key c s1 "pc_origin_fd p" ?w]
    unfolding w by (intro exI [of _ s1]) (auto cong: tries.case_cong)
qed

section \<open>Properties\<close>

text \<open>
  C20: The addresses of a name are tried in the order of the answers, each once. For every answer with
  at most 255 records, asking for the next address ends. The socket that was there is closed and
  unregistered; then of the records that have not been tried, those of the family that was asked
  for are connected to one after the other until the operating system gives a socket. That socket is
  registered and the record is not tried again; if none is left, the name server is asked for the other
  family, or after both the connection fails with code 500.
\<close>

theorem addresses_in_order:
  assumes "answered_name (s, w) c p d pno" "answers_ok d as" "dc_current_try d = word_of_nat n" "n \<le> length as" "256 \<le> pe_fuel env"
    "key = \<lparr>key_fd = kfd, key_data = Some (Connection c)\<rparr>"
  shows "\<exists>s1. sel_inv s1 \<and> sel_entry s1 = (sel_entry s)(nat (pc_origin_fd p) := None) \<and>
    try_next_dns_connection env key (s, w) =
     (case first_reached (if dc_current_type d = ipv4_try then IPV4_TYPE else IPV6_TYPE)
         (if dc_current_type d = ipv4_try then connect4 env pno else connect6 env pno) (drop n as) (pc_origin_fd p)
         (os_close (pe_os env) (pc_origin_fd p) (w_os w)) of
        Reached fd rest st \<Rightarrow> try_registered env key c (s1, with_conn c (tried p d (length as - length rest) fd) (w\<lparr>w_os := st\<rparr>))
      | Exhausted fd st \<Rightarrow> (if dc_current_type d = ipv4_try then switch_to_ipv6 env key c else set_error c INTERNAL_SERVER_ERROR)
          (s1, with_conn c (tried p d (length as) fd) (w\<lparr>w_os := st\<rparr>)))"
  by (rule addresses_tried [OF assms])

text \<open>
  C39: With more records than that the proxy can hang. The counter of tried records has eight bits: if an answer
  has 256 records or more and none of the first 256 is of the family asked for, then asking for the next
  address never ends, whatever the fuel.
\<close>

theorem many_answers_hang:
  assumes "answered_name (s, w) c p d pno" "dr_answers (doh_response_of d) = Some as"
    "length as = unat (dh_ancount (dr_header (doh_response_of d)))" "256 \<le> length as"
    "\<forall>n < 256. an_type (as ! n) \<noteq> (if dc_current_type d = ipv4_try then IPV4_TYPE else IPV6_TYPE)"
    "key = \<lparr>key_fd = kfd, key_data = Some (Connection c)\<rparr>"
  shows "try_next_dns_connection env key (s, w) = Inl Hang"
proof -
  note a = assms(1) [unfolded answered_name_def fst_conv snd_conv]
  let ?w = "w\<lparr>w_os := os_close (pe_os env) (pc_origin_fd p) (w_os w)\<rparr>"
  obtain s1 where s1: "try_next_dns_connection env key (s, w) =
        (if dc_current_type d = ipv4_try then try_next_ipv4_connection (pe_fuel env) env key c
         else try_next_ipv6_connection (pe_fuel env) env key c) (s1, ?w)"
    using next_address [OF assms(1), of env kfd] assms(6) by blast
  have "p\<lparr>pc_doh := Some (d\<lparr>dc_current_try := dc_current_try d\<rparr>)\<rparr> = p" using a by (cases p) simp
  then have w: "with_conn c (p\<lparr>pc_doh := Some (d\<lparr>dc_current_try := dc_current_try d\<rparr>)\<rparr>) ?w = ?w" using a by (simp only: conn_is) (simp add: conn_is)
  show ?thesis
    using s1 assms(5) v4.tries_hang [OF assms(2-4), where p = p and k = "dc_current_try d" and w = ?w and c = c, unfolded w]
      v6.tries_hang [OF assms(2-4), where p = p and k = "dc_current_try d" and w = ?w and c = c, unfolded w]
    by (simp split: if_splits)
qed

text \<open>Witnesses: a name with an address of each family, and one with 256 records of no address.\<close>

definition named_doh :: "answer list \<Rightarrow> doh_connection" where
  "named_doh as = zero_doh_connection\<lparr>dc_doh_parser := (dc_doh_parser zero_doh_connection)\<lparr>dp_response :=
     zero_doh_response\<lparr>dr_header := (dr_header zero_doh_response)\<lparr>dh_ancount := word_of_nat (length as)\<rparr>, dr_answers := Some as\<rparr>\<rparr>\<rparr>"

definition named_client :: "answer list \<Rightarrow> proxy_connection" where
  "named_client as = (some_connection (Some AWAIT_DOH_RESPONSE))
     \<lparr>pc_doh := Some (named_doh as), pc_parsers := Request_Line (request_parser_init zero_request_parser)\<rparr>"

definition some_key :: pkey where "some_key = \<lparr>key_fd = 7, key_data = Some (Connection 0)\<rparr>"

lemma named_values:
  "dr_answers (doh_response_of (named_doh as)) = Some as"
  "dh_ancount (dr_header (doh_response_of (named_doh as))) = word_of_nat (length as)"
  "dc_current_type (named_doh as) = ipv4_try" "dc_current_try (named_doh as) = 0" "rcode_of (named_doh as) = 0"
  by (simp_all add: named_doh_def doh_response_of_def zero_doh_connection_def rcode_of_def zero_doh_response_def zero_flags_def)

lemma named_answered:
  "\<exists>s pno. answered_name (s, some_world (named_client as)) 0 (named_client as) (named_doh as) pno"
proof -
  have v: "\<not> invalid_fd (pc_client_fd (named_client as))" "\<not> invalid_fd (pc_origin_fd (named_client as))"
      "pc_client_fd (named_client as) \<noteq> pc_origin_fd (named_client as)"
    by (simp_all add: named_client_def invalid_fd_def ITEMS_MAX_SIZE_def)
  obtain s where "sel_inv s" "linked s 0 (named_client as) (OP_NOOP, OP_READ)" using linked_exists [OF v] by blast
  then show ?thesis using named_values(5) [of as]
    by (intro exI [of _ s]) (auto simp: answered_name_def named_client_def linked_def request_is_def)
qed

definition two_records :: "answer list" where
  "two_records = [zero_answer\<lparr>an_type := IPV6_TYPE\<rparr>, zero_answer\<lparr>an_type := IPV4_TYPE\<rparr>]"

lemma two_records_ok: "answers_ok (named_doh two_records) two_records"
  by (simp add: answers_ok_def named_values two_records_def)

lemma two_records_reach: "first_reached IPV4_TYPE (connect4 some_env pno) (drop 0 two_records) fd st = Reached 7 [] st"
  by (simp add: two_records_def IPV4_TYPE_def IPV6_TYPE_def connect4_def attempt_def nio_attempt_def some_os_def Let_def)

theorem addresses_in_order_witness:
  "\<exists>s s1 w. try_next_dns_connection some_env some_key (s, some_world (named_client two_records)) =
     try_registered some_env some_key 0 (s1, with_conn 0 (tried (named_client two_records) (named_doh two_records) 2 7) w)"
proof -
  obtain s pno where a: "answered_name (s, some_world (named_client two_records)) 0 (named_client two_records) (named_doh two_records) pno"
    using named_answered by blast
  have len: "length two_records = 2" by (simp add: two_records_def)
  obtain s1 where "try_next_dns_connection some_env some_key (s, some_world (named_client two_records)) =
      try_registered some_env some_key 0 (s1, with_conn 0 (tried (named_client two_records) (named_doh two_records) 2 7)
        ((some_world (named_client two_records))\<lparr>w_os := os_close some_os (pc_origin_fd (named_client two_records)) []\<rparr>))"
    using addresses_in_order [OF a two_records_ok, of 0 some_env some_key 7] two_records_reach [of pno]
    by (auto simp: named_values some_key_def len)
  then show ?thesis by blast
qed

theorem many_answers_hang_witness:
  "\<exists>s. try_next_dns_connection some_env some_key (s, some_world (named_client (replicate 256 zero_answer))) = Inl Hang"
proof -
  let ?as = "replicate 256 zero_answer"
  obtain s pno where a: "answered_name (s, some_world (named_client ?as)) 0 (named_client ?as) (named_doh ?as) pno"
    using named_answered by blast
  have "try_next_dns_connection some_env some_key (s, some_world (named_client ?as)) = Inl Hang"
    by (rule many_answers_hang [OF a named_values(1)]) (simp_all add: named_values some_key_def IPV4_TYPE_def zero_answer_def)
  then show ?thesis by blast
qed

end
