(* ===== verification/Name_Server.thy ===== *)
theory Name_Server
  imports Addresses
begin

text \<open>
  The answer of the name server: it is read by three parsers one after the other, and when the server closes,
  the proxy connects to the first address it can.
\<close>

section \<open>Reading the answer\<close>

text \<open>The parser whose turn it is takes the byte.\<close>

definition answer_feed :: "'o penv \<Rightarrow> doh_connection \<Rightarrow> u8 \<Rightarrow> fault + doh_connection" where
  "answer_feed env d x =
     (if status_line_parser.sp_state (dc_status_line_parser d) \<noteq> status_line_done
      then bindR (status_line_parser_feed (dc_status_line_parser d) x) (\<lambda>sp. Inr (d\<lparr>dc_status_line_parser := sp\<rparr>))
      else if hp_state (dc_headers_parser d) \<noteq> headers_done
      then bindR (headers_parser_feed (dc_headers_parser d) x) (\<lambda>hp. Inr (d\<lparr>dc_headers_parser := hp\<rparr>))
      else bindR (doh_response_parser_feed (pe_doh env) (dc_doh_parser d) x) (\<lambda>dp. Inr (d\<lparr>dc_doh_parser := dp\<rparr>)))"

definition answer_bad :: "doh_connection \<Rightarrow> bool" where
  "answer_bad d \<longleftrightarrow>
     status_line_parser.sp_state (dc_status_line_parser d) = status_line_error \<or>
     status_line_parser.sp_state (dc_status_line_parser d) = status_line_done \<and>
       (hp_state (dc_headers_parser d) = headers_error \<or>
        hp_state (dc_headers_parser d) = headers_done \<and>
          dp_state (dc_doh_parser d) \<in> {doh_response_error, response_mem_alloc_error, doh_no_answers})"

definition answer_done :: "doh_connection \<Rightarrow> bool" where
  "answer_done d \<longleftrightarrow>
     status_line_parser.sp_state (dc_status_line_parser d) = status_line_done \<and> hp_state (dc_headers_parser d) = headers_done \<and>
     dp_state (dc_doh_parser d) = doh_response_done"

definition answer_fin :: "doh_connection \<Rightarrow> bool" where
  "answer_fin d \<longleftrightarrow> answer_bad d \<or> answer_done d"

text \<open>A parser starts when the one before it has ended.\<close>

definition in_turn :: "doh_connection \<Rightarrow> bool" where
  "in_turn d \<longleftrightarrow>
     (status_line_parser.sp_state (dc_status_line_parser d) \<noteq> status_line_done \<longrightarrow> hp_state (dc_headers_parser d) = headers_field_name) \<and>
     (hp_state (dc_headers_parser d) \<noteq> headers_done \<longrightarrow> dp_state (dc_doh_parser d) = response_header_id)"

lemma same_status: "d\<lparr>dc_status_line_parser := dc_status_line_parser d\<rparr> = d" by (cases d) simp
lemma same_headers: "d\<lparr>dc_headers_parser := dc_headers_parser d\<rparr> = d" by (cases d) simp
lemma same_message: "d\<lparr>dc_doh_parser := dc_doh_parser d\<rparr> = d" by (cases d) simp

lemma answer_fin_stays:
  assumes "answer_fin d"
  shows "answer_feed env d x = Inr d"
proof -
  consider (status) "status_line_parser.sp_state (dc_status_line_parser d) = status_line_error"
    | (headers) "status_line_parser.sp_state (dc_status_line_parser d) = status_line_done" "hp_state (dc_headers_parser d) = headers_error"
    | (message) "status_line_parser.sp_state (dc_status_line_parser d) = status_line_done" "hp_state (dc_headers_parser d) = headers_done"
      "doh_fin (dc_doh_parser d)"
    using assms by (auto simp: answer_fin_def answer_bad_def answer_done_def doh_fin_def)
  then show ?thesis
  proof cases
    case status
    then show ?thesis using status.fin_stays [of "dc_status_line_parser d" x]
      by (simp add: answer_feed_def status_fin_def same_status)
  next
    case headers
    then show ?thesis using hdr.fin_stays [of "dc_headers_parser d" x]
      by (simp add: answer_feed_def headers_fin_def same_headers)
  next
    case message
    then show ?thesis using doh.fin_stays [of "dc_doh_parser d" "pe_doh env" x]
      by (simp add: answer_feed_def same_message)
  qed
qed

lemma feed_in_turn: "in_turn d \<Longrightarrow> answer_feed env d x = Inr d1 \<Longrightarrow> in_turn d1"
  by (auto simp: answer_feed_def in_turn_def bindR_eq_Inr split: if_splits)

interpretation answer: byte_parser "answer_feed env" in_turn answer_fin for env :: "'o penv"
  by unfold_locales (simp_all add: answer_fin_stays feed_in_turn)

text \<open>The parsers leave the rest of the exchange alone.\<close>

definition same_exchange :: "doh_connection \<Rightarrow> doh_connection \<Rightarrow> bool" where
  "same_exchange d d' \<longleftrightarrow>
     dc_is_active d' = dc_is_active d \<and> dc_current_try d' = dc_current_try d \<and> dc_current_type d' = dc_current_type d"

lemma feed_same_exchange: "answer_feed env d x = Inr d' \<Longrightarrow> same_exchange d d'"
  by (auto simp: answer_feed_def same_exchange_def bindR_eq_Inr split: if_splits)

lemma run_same_exchange: "run (answer_feed env) d xs = Inr d' \<Longrightarrow> same_exchange d d'"
proof (induction xs arbitrary: d)
  case Nil
  then show ?case by (simp add: same_exchange_def)
next
  case (Cons x xs)
  then obtain d1 where d1: "answer_feed env d x = Inr d1" "run (answer_feed env) d1 xs = Inr d'" by (auto simp: res_simps)
  show ?case using Cons.IH [OF d1(2)] feed_same_exchange [OF d1(1)] by (simp add: same_exchange_def)
qed

text \<open>What follows the byte that ended the message.\<close>

definition answer_end :: "'o penv \<Rightarrow> pkey \<Rightarrow> nat \<Rightarrow> doh_response_state \<Rightarrow> ('o, nat) prog" where
  "answer_end env key c st =
     (if st = doh_response_error then set_error c BAD_GATEWAY
      else if st = response_mem_alloc_error then set_error c INTERNAL_SERVER_ERROR
      else if st = doh_no_answers
      then bindS (doh_get c) (\<lambda>d.
           if dc_current_type d = ipv6_try then set_error c INTERNAL_SERVER_ERROR
           else thenS (reset_origin_buffer c)
                (bindS (conn_field c pc_origin_fd) (\<lambda>fd. thenS (unregister_fd env fd) (switch_to_ipv6 env key c))))
      else thenS (reset_origin_buffer c) (await_doh_end env key c))"

lemma bindS_of_bindS: "bindS (bindS m f) g = bindS m (\<lambda>x. bindS (f x) g)"
  by (auto simp: bindS_def bindR_assoc fun_eq_iff case_prod_unfold)

lemma bindS_of_return: "bindS (returnS x) f = f x"
  by (simp add: fun_eq_iff run_simps)

lemma bindS_of_thenS: "bindS (thenS m k) f = thenS m (bindS k f)"
  by (simp add: thenS_def bindS_of_bindS)

lemma bindS_returns: "bindS m returnS = m"
  by (auto simp: bindS_def returnS_def fun_eq_iff split: sum.split)

lemma await_byte_ends:
  assumes "doh_fin dp"
  shows "bindS (await_doh_byte env key c (dp_state dp)) (\<lambda>r. case r of Some n \<Rightarrow> returnS n | None \<Rightarrow> k) =
    answer_end env key c (dp_state dp)"
  using assms
  by (auto simp: doh_fin_def await_doh_byte_def answer_end_def bindS_of_bindS bindS_of_thenS bindS_of_return bindS_returns
      if_distrib [where f = "\<lambda>m. bindS m f" for f] cong: if_cong)

text \<open>What the loop does after the byte that ended a parser, and after the last byte there is.\<close>

definition after_answer :: "'o penv \<Rightarrow> pkey \<Rightarrow> nat \<Rightarrow> doh_connection \<Rightarrow> ('o, nat) prog" where
  "after_answer env key c d =
     (if \<not> answer_fin d then await_doh_end env key c
      else if status_line_parser.sp_state (dc_status_line_parser d) = status_line_error \<or>
              hp_state (dc_headers_parser d) = headers_error then set_error c BAD_GATEWAY
      else answer_end env key c (dp_state (dc_doh_parser d)))"

definition answer_read :: "doh_connection \<Rightarrow> buffer \<Rightarrow> proxy_connection \<Rightarrow> proxy_connection" where
  "answer_read d b p = p\<lparr>pc_origin_buffer := b, pc_doh := Some d\<rparr>"

lemma answer_read_simps [simp]:
  "pc_stm (answer_read d b p) = pc_stm p" "pc_doh (answer_read d b p) = Some d" "pc_origin_buffer (answer_read d b p) = b"
  "pc_client_buffer (answer_read d b p) = pc_client_buffer p" "answer_read d' b' (answer_read d b p) = answer_read d' b' p"
  by (simp_all add: answer_read_def)

lemma answer_read_reset: "(answer_read d b p)\<lparr>pc_origin_buffer := b'\<rparr> = answer_read d b' p"
  by (cases p) (simp add: answer_read_def)

lemma origin_byte:
  assumes "w_conns w c = Some p" "buffer_inv (pc_origin_buffer p)" "contents (pc_origin_buffer p) = x # xs"
  shows "\<exists>b. origin_buffer_read c (s, w) = Inr (x, (s, with_conn c (p\<lparr>pc_origin_buffer := b\<rparr>) w)) \<and>
    buffer_inv b \<and> contents b = xs \<and> b_limit b = b_limit (pc_origin_buffer p)"
  using buffer_read_spec [OF assms(2,3)] assms(1) by (auto simp: origin_buffer_read_def run_simps with_conn_def)

text \<open>One round of the loop.\<close>

lemma await_round:
  assumes "w_conns w c = Some p" "pc_doh p = Some d" "\<not> answer_fin d" "in_turn d" "buffer_inv (pc_origin_buffer p)"
    "contents (pc_origin_buffer p) = x # xs" "answer_feed env d x = Inr d1"
  shows "\<exists>b. buffer_inv b \<and> contents b = xs \<and> b_limit b = b_limit (pc_origin_buffer p) \<and>
    await_doh_loop (Suc k) env key c (s, w) =
      (if answer_fin d1 then after_answer env key c d1 else await_doh_loop k env key c) (s, with_conn c (answer_read d1 b p) w)"
proof -
  obtain b where b: "origin_buffer_read c (s, w) = Inr (x, (s, with_conn c (p\<lparr>pc_origin_buffer := b\<rparr>) w))"
      "buffer_inv b" "contents b = xs" "b_limit b = b_limit (pc_origin_buffer p)"
    using origin_byte [OF assms(1,5,6)] by blast
  have can: "buffer_can_read (pc_origin_buffer p)" using assms(5,6) by (simp add: can_read_iff)
  have upd: "doh_upd c f (s, with_conn c (p\<lparr>pc_origin_buffer := b\<rparr>) w) = Inr ((), (s, with_conn c (answer_read d1 b p) w))"
    if "f d = d1" for f
    using assms(2) that by (simp add: doh_upd_def doh_get_def run_simps with_conn_upd answer_read_def)
  have start: "await_doh_loop (Suc k) env key c (s, w) = r"
    if "(if status_line_parser.sp_state (dc_status_line_parser d) \<noteq> status_line_done
       then bindS (origin_buffer_read c) (\<lambda>x.
            bindS (liftS (status_line_parser_feed (dc_status_line_parser d) x)) (\<lambda>sp.
            thenS (doh_upd c (\<lambda>d. d\<lparr>dc_status_line_parser := sp\<rparr>))
            (if status_line_parser.sp_state sp = status_line_error then set_error c BAD_GATEWAY
             else await_doh_loop k env key c)))
       else if hp_state (dc_headers_parser d) \<noteq> headers_done
       then bindS (origin_buffer_read c) (\<lambda>x.
            bindS (liftS (headers_parser_feed (dc_headers_parser d) x)) (\<lambda>hp.
            thenS (doh_upd c (\<lambda>d. d\<lparr>dc_headers_parser := hp\<rparr>))
            (if hp_state hp = headers_error then set_error c BAD_GATEWAY
             else await_doh_loop k env key c)))
       else if dp_state (dc_doh_parser d) \<noteq> doh_response_done
       then bindS (origin_buffer_read c) (\<lambda>x.
            bindS (liftS (doh_response_parser_feed (pe_doh env) (dc_doh_parser d) x)) (\<lambda>dp.
            thenS (doh_upd c (\<lambda>d. d\<lparr>dc_doh_parser := dp\<rparr>))
            (bindS (await_doh_byte env key c (dp_state dp)) (\<lambda>r.
             case r of Some n \<Rightarrow> returnS n | None \<Rightarrow> await_doh_loop k env key c))))
       else await_doh_loop k env key c) (s, w) = r" for r
  proof -
    have "conn_field c pc_origin_buffer (s, w) = Inr (pc_origin_buffer p, (s, w))" "doh_get c (s, w) = Inr (d, (s, w))"
      using assms(1,2) by (simp_all add: run_simps doh_get_def)
    then show ?thesis using that can by (simp only: await_doh_loop.simps run_bind if_True if_False not_not simp_thms)
  qed
  have "await_doh_loop (Suc k) env key c (s, w) =
      (if answer_fin d1 then after_answer env key c d1 else await_doh_loop k env key c) (s, with_conn c (answer_read d1 b p) w)"
  proof (cases "status_line_parser.sp_state (dc_status_line_parser d) = status_line_done")
    case False
    then obtain sp where sp: "status_line_parser_feed (dc_status_line_parser d) x = Inr sp" "d1 = d\<lparr>dc_status_line_parser := sp\<rparr>"
      using assms(7) by (auto simp: answer_feed_def bindR_eq_Inr)
    have hp: "hp_state (dc_headers_parser d) = headers_field_name" using False assms(4) by (simp add: in_turn_def)
    then have fin: "answer_fin d1 \<longleftrightarrow> status_line_parser.sp_state sp = status_line_error"
      by (auto simp: sp(2) answer_fin_def answer_bad_def answer_done_def)
    show ?thesis
      by (rule start) (use False sp fin hp in \<open>simp add: run_simps b(1) upd after_answer_def\<close>)
  next
    case sl: True
    show ?thesis
    proof (cases "hp_state (dc_headers_parser d) = headers_done")
      case False
      then obtain hp where hp: "headers_parser_feed (dc_headers_parser d) x = Inr hp" "d1 = d\<lparr>dc_headers_parser := hp\<rparr>"
        using assms(7) sl by (auto simp: answer_feed_def bindR_eq_Inr)
      have "dp_state (dc_doh_parser d) = response_header_id" using False assms(4) by (simp add: in_turn_def)
      then have fin: "answer_fin d1 \<longleftrightarrow> hp_state hp = headers_error"
        using sl by (auto simp: hp(2) answer_fin_def answer_bad_def answer_done_def)
      show ?thesis
        by (rule start) (use False sl hp fin in \<open>simp add: run_simps b(1) upd after_answer_def\<close>)
    next
      case hd: True
      then obtain dp where dp: "doh_response_parser_feed (pe_doh env) (dc_doh_parser d) x = Inr dp" "d1 = d\<lparr>dc_doh_parser := dp\<rparr>"
        using assms(7) sl by (auto simp: answer_feed_def bindR_eq_Inr)
      have nd: "dp_state (dc_doh_parser d) \<noteq> doh_response_done" using assms(3) sl hd by (auto simp: answer_fin_def answer_done_def)
      have fin: "answer_fin d1 \<longleftrightarrow> doh_fin dp"
        using sl hd by (auto simp: dp(2) answer_fin_def answer_bad_def answer_done_def doh_fin_def)
      show ?thesis
      proof (cases "doh_fin dp")
        case True
        note ends = await_byte_ends [OF True, of env key c "await_doh_loop k env key c"]
        show ?thesis
          by (rule start) (use True sl hd nd dp fin in \<open>simp add: run_simps b(1) upd after_answer_def ends\<close>)
      next
        case False
        then have "await_doh_byte env key c (dp_state dp) = returnS None" by (auto simp: doh_fin_def await_doh_byte_def)
        then show ?thesis
          by - (rule start, use False sl hd nd dp fin in \<open>simp add: run_simps b(1) upd after_answer_def\<close>)
      qed
    qed
  qed
  then show ?thesis using b(2-4) by blast
qed


lemma await_loop_reads:
  assumes "w_conns w c = Some p" "pc_doh p = Some d" "\<not> answer_fin d" "in_turn d" "buffer_inv (pc_origin_buffer p)"
    "drive (answer_feed env) answer_fin d (contents (pc_origin_buffer p)) = Inr (d', rest)"
    "length (contents (pc_origin_buffer p)) < fuel"
  shows "\<exists>b. buffer_inv b \<and> contents b = rest \<and> b_limit b = b_limit (pc_origin_buffer p) \<and>
    await_doh_loop fuel env key c (s, w) = after_answer env key c d' (s, with_conn c (answer_read d' b p) w)"
  using assms
proof (induction "contents (pc_origin_buffer p)" arbitrary: w p d fuel)
  case Nil
  obtain k where k: "fuel = Suc k" using Nil.prems(7) by (cases fuel) auto
  have "\<not> buffer_can_read (pc_origin_buffer p)" using Nil by (simp add: can_read_iff)
  then have "await_doh_loop fuel env key c (s, w) = await_doh_end env key c (s, w)"
    using Nil.prems(1) by (simp add: k run_simps)
  moreover have "with_conn c (answer_read d (pc_origin_buffer p) p) w = w"
  proof -
    have "answer_read d (pc_origin_buffer p) p = p" using Nil.prems(2) by (cases p) (simp add: answer_read_def)
    then show ?thesis using Nil.prems(1) by (simp add: conn_is)
  qed
  moreover have "d' = d" "rest = []" using Nil by (simp_all add: Nil.hyps [symmetric])
  ultimately show ?case using Nil.prems(3,5) Nil.hyps
    by (intro exI [of _ "pc_origin_buffer p"]) (simp add: after_answer_def)
next
  case (Cons x xs)
  obtain k where k: "fuel = Suc k" using Cons.prems(7) by (cases fuel) auto
  obtain d1 where d1: "answer_feed env d x = Inr d1"
      "(if answer_fin d1 then Inr (d1, xs) else drive (answer_feed env) answer_fin d1 xs) = Inr (d', rest)"
    using Cons.prems(6) unfolding Cons.hyps(2) [symmetric] by (auto simp: res_simps)
  obtain b where b: "buffer_inv b" "contents b = xs" "b_limit b = b_limit (pc_origin_buffer p)"
      "await_doh_loop fuel env key c (s, w) =
        (if answer_fin d1 then after_answer env key c d1 else await_doh_loop k env key c) (s, with_conn c (answer_read d1 b p) w)"
    using await_round [OF Cons.prems(1-5) Cons.hyps(2) [symmetric] d1(1)] unfolding k by blast
  show ?case
  proof (cases "answer_fin d1")
    case True
    then show ?thesis using b d1(2) by (intro exI [of _ b]) auto
  next
    case False
    let ?p = "answer_read d1 b p"
    have "in_turn d1" using feed_in_turn [OF Cons.prems(4) d1(1)] .
    then obtain b' where b': "buffer_inv b'" "contents b' = rest" "b_limit b' = b_limit b"
        "await_doh_loop k env key c (s, with_conn c ?p w) =
          after_answer env key c d' (s, with_conn c (answer_read d' b' ?p) (with_conn c ?p w))"
      using Cons.hyps(1) [of ?p "with_conn c ?p w" d1 k] b(1,2) d1(2) False Cons.prems(7) k by (auto simp flip: Cons.hyps(2))
    then show ?thesis using b(3,4) False by (intro exI [of _ b']) simp
  qed
qed

text \<open>A byte that comes after the message is never taken.\<close>

lemma await_loop_hangs:
  assumes "w_conns w c = Some p" "pc_doh p = Some d" "answer_done d" "buffer_can_read (pc_origin_buffer p)"
  shows "await_doh_loop fuel env key c (s, w) = Inl Hang"
proof (induction fuel)
  case 0
  then show ?case by (simp add: run_simps)
next
  case (Suc fuel)
  have "conn_field c pc_origin_buffer (s, w) = Inr (pc_origin_buffer p, (s, w))" "doh_get c (s, w) = Inr (d, (s, w))"
    using assms(1,2) by (simp_all add: run_simps doh_get_def)
  then show ?case using assms(3,4) Suc unfolding answer_done_def
    by (simp only: await_doh_loop.simps run_bind if_True if_False not_not simp_thms)
qed

section \<open>The connection while the name server is asked\<close>

text \<open>What holds in the states from the connection to the name server to the end of its answer.\<close>

definition asking_name :: "nat \<Rightarrow> fd_interest \<times> fd_interest \<Rightarrow> 'o psys \<Rightarrow> nat \<Rightarrow> proxy_connection \<Rightarrow> bool" where
  "asking_name k i sw c p \<longleftrightarrow>
     sel_inv (fst sw) \<and> w_conns (snd sw) c = Some p \<and> pc_stm p = some_machine (Some k) \<and> buffers_ok p \<and>
     pc_client_status p = ACTIVE_STATUS \<and> pc_origin_status p = ACTIVE_STATUS \<and> \<not> sn_enabled (pc_sniffer p) \<and>
     pc_error p \<noteq> INTERNAL_SERVER_ERROR \<and> length (cr_method (pc_request p)) < method_room \<and>
     length (cr_target (pc_request p)) < target_room \<and> length (cr_request_line (pc_request p)) \<le> 1100 \<and>
     cr_host_type (pc_request p) = domain \<and> 1100 \<le> b_limit (pc_origin_buffer p) \<and> linked (fst sw) c p i"

definition answering :: "'o psys \<Rightarrow> nat \<Rightarrow> proxy_connection \<Rightarrow> doh_connection \<Rightarrow> bool" where
  "answering sw c p d \<longleftrightarrow>
     asking_name AWAIT_DOH_RESPONSE (OP_NOOP, OP_READ) sw c p \<and> pc_doh p = Some d \<and> dc_is_active d \<and> in_turn d \<and>
     contents (pc_origin_buffer p) = [] \<and>
     (answer_done d \<longrightarrow> buffer_room (pc_origin_buffer p) = b_limit (pc_origin_buffer p))"

text \<open>The fields the exchange leaves alone.\<close>

definition same_request :: "proxy_connection \<Rightarrow> proxy_connection \<Rightarrow> bool" where
  "same_request p p' \<longleftrightarrow>
     pc_client_fd p' = pc_client_fd p \<and> pc_client_buffer p' = pc_client_buffer p \<and> pc_request p' = pc_request p \<and>
     pc_parsers p' = pc_parsers p \<and> pc_sniffer p' = pc_sniffer p \<and> pc_client_status p' = pc_client_status p"

lemma answer_moves:
  assumes "asking_name AWAIT_DOH_RESPONSE i (s, w) c p" "os_ok env" "moved env p Origin_Readable (os_then env w) = d" "d \<noteq> []"
  obtains now st b where "buffer_inv b" "contents b = contents (pc_origin_buffer p) @ d" "b_limit b = b_limit (pc_origin_buffer p)"
    "relay_call env c p Origin_Readable (s, w) = bindR (event_read env (origin_key c p) c
      (s, with_conn c (p\<lparr>pc_last_action_time := now, pc_origin_buffer := b\<rparr>) (w\<lparr>w_os := st\<rparr>))) (\<lambda>(_, sw). Inr sw)"
proof -
  let ?key = "origin_key c p" and ?b = "pc_origin_buffer p"
  have c: "w_conns w c = Some p" and inv: "buffer_inv ?b" and stm: "pc_stm p = \<lparr>sm_initial = 0, sm_max_state = 9, sm_current = Some 3\<rparr>"
    using assms(1) by (simp_all add: asking_name_def buffers_ok_def some_machine_def state_numbers)
  obtain now where now: "os_time (pe_os env) (w_os w) = (now, os_then env w)" using time_then by blast
  obtain st where d: "os_read (pe_os env) (pc_origin_fd p) (buffer_room ?b) (os_then env w) = (Some d, st)"
    using assms(3,4) by (cases "os_read (pe_os env) (pc_origin_fd p) (buffer_room ?b) (os_then env w)") (auto split: option.splits)
  have len: "length d \<le> buffer_room ?b" using assms(2) d by (auto simp: os_ok_def dest: spec [of _ "pc_origin_fd p"]) (metis fst_conv)
  obtain b where put: "buffer_put ?b d = Inr b" "buffer_inv b" "contents b = contents ?b @ d" "b_limit b = b_limit ?b"
    using put_spec [OF inv len] by blast
  then obtain b1 where b: "buffer_store ?b d = Inr b1" "buffer_write_adv b1 (int (length d)) = Inr b"
    by (auto simp: buffer_put_def write_ptr_room [OF inv] res_simps)
  let ?p = "p\<lparr>pc_last_action_time := now, pc_origin_buffer := b\<rparr>"
  have "proxy_origin_read env ?key (s, w) = event_read env ?key c (s, with_conn c ?p (w\<lparr>w_os := st\<rparr>))"
    using assms(4)
    by (simp add: proxy_origin_read_def touch_def note_bytes_def origin_key_def run_simps c stm now d write_ptr_room [OF inv] b
        state_numbers with_conn_def)
  then show thesis using that [of b now st] put(2-4) by (simp add: call_def handler_of_def)
qed

lemma answer_event:
  assumes "answering (s, w) c p d" "os_ok env" "moved env p Origin_Readable (os_then env w) = bs" "bs \<noteq> []"
  obtains now st b where "buffer_inv b" "contents b = bs" "b_limit b = b_limit (pc_origin_buffer p)"
    "relay_call env c p Origin_Readable (s, w) =
      bindR (await_doh_loop (Suc (length bs)) env (origin_key c p) c
        (s, with_conn c (p\<lparr>pc_last_action_time := now, pc_origin_buffer := b\<rparr>) (w\<lparr>w_os := st\<rparr>)))
      (\<lambda>(ret, s). jump (conn_cell c) (connection_states env (origin_key c p)) ret s)"
proof -
  let ?key = "origin_key c p"
  have a: "asking_name AWAIT_DOH_RESPONSE (OP_NOOP, OP_READ) (s, w) c p" "contents (pc_origin_buffer p) = []"
    using assms(1) by (simp_all add: answering_def)
  obtain now st b where b: "buffer_inv b" "contents b = bs" "b_limit b = b_limit (pc_origin_buffer p)"
      "relay_call env c p Origin_Readable (s, w) = bindR (event_read env ?key c
        (s, with_conn c (p\<lparr>pc_last_action_time := now, pc_origin_buffer := b\<rparr>) (w\<lparr>w_os := st\<rparr>))) (\<lambda>(_, sw). Inr sw)"
    by (rule answer_moves [OF a(1) assms(2-4)]) (simp add: a(2))
  let ?p = "p\<lparr>pc_last_action_time := now, pc_origin_buffer := b\<rparr>" and ?w = "w\<lparr>w_os := st\<rparr>"
  have p: "pc_stm ?p = some_machine (Some 3)" "pc_error ?p \<noteq> INTERNAL_SERVER_ERROR"
    using a(1) by (simp_all add: asking_name_def state_numbers)
  have row: "sd_on_read_ready (connection_states env ?key ! 3) = Some (await_doh_response_on_read_ready env ?key)"
    using table_at(4) [of env ?key] by (simp add: state_numbers conn_row_def)
  have len: "Suc (b_write b - b_read b) = Suc (length bs)" using b(1,2) length_contents [of b] by simp
  have e: "await_doh_response_on_read_ready env ?key (s, with_conn c ?p ?w) =
      await_doh_loop (Suc (length bs)) env ?key c (s, with_conn c ?p ?w)"
    using p(2) by (simp add: await_doh_response_on_read_ready_def origin_key_def run_simps len del: await_doh_loop.simps)
  have "relay_call env c p Origin_Readable (s, w) = bindR (await_doh_loop (Suc (length bs)) env ?key c (s, with_conn c ?p ?w))
      (\<lambda>(ret, s). jump (conn_cell c) (connection_states env ?key) ret s)"
    using event_at [where event = sd_on_read_ready, of "with_conn c ?p ?w" c ?p 3 env ?key, OF _ p(1) _ row] e
    unfolding b(4) by (simp add: event_read_def stm_handler_read_def bindR_assoc case_prod_unfold del: await_doh_loop.simps)
  then show thesis using that [of b now st] b(1-3) by blast
qed


text \<open>What is read while the message goes on, or up to its end: the bytes are taken and the connection waits for more.\<close>

lemma answer_goes_on:
  assumes "answering (s, w) c p d" "os_ok env" "moved env p Origin_Readable (os_then env w) = bs" "bs \<noteq> []"
    "\<not> answer_fin d" "drive (answer_feed env) answer_fin d bs = Inr (d', rest)" "\<not> answer_bad d'"
  shows "\<exists>w' p'. relay_call env c p Origin_Readable (s, w) = Inr (s, w') \<and> answering (s, w') c p' d' \<and> same_request p p' \<and>
    pc_origin_fd p' = pc_origin_fd p \<and> others_same c w w' \<and> w_metrics w' = w_metrics w"
proof -
  let ?key = "origin_key c p"
  note a = assms(1) [unfolded answering_def asking_name_def fst_conv snd_conv]
  obtain now st b where b: "buffer_inv b" "contents b = bs" "b_limit b = b_limit (pc_origin_buffer p)"
      "relay_call env c p Origin_Readable (s, w) =
        bindR (await_doh_loop (Suc (length bs)) env ?key c
          (s, with_conn c (p\<lparr>pc_last_action_time := now, pc_origin_buffer := b\<rparr>) (w\<lparr>w_os := st\<rparr>)))
        (\<lambda>(ret, s). jump (conn_cell c) (connection_states env ?key) ret s)"
    by (rule answer_event [OF assms(1-4)])
  let ?p = "p\<lparr>pc_last_action_time := now, pc_origin_buffer := b\<rparr>" and ?w = "w\<lparr>w_os := st\<rparr>"
  obtain b' where b': "buffer_inv b'" "contents b' = rest" "b_limit b' = b_limit b"
      "await_doh_loop (Suc (length bs)) env ?key c (s, with_conn c ?p ?w) =
        after_answer env ?key c d' (s, with_conn c (answer_read d' b' ?p) (with_conn c ?p ?w))"
    using await_loop_reads [of "with_conn c ?p ?w" c ?p d env d' rest "Suc (length bs)" ?key s] a b(1,2) assms(5,6) by auto
  have stays: "await_doh_end env ?key c (s, with_conn c q ?w) = Inr (3, (s, with_conn c q ?w))"
    if "pc_origin_status q = ACTIVE_STATUS" "pc_stm q = some_machine (Some 3)" for q
  proof -
    have "conn_state c (s, with_conn c q ?w) = Inr (3, (s, with_conn c q ?w))"
      by (rule run_conn_state [where p = q]) (use that(2) in \<open>simp_all add: some_machine_def\<close>)
    then show ?thesis using that(1) by (simp add: await_doh_end_def run_simps)
  qed
  define b2 where "b2 = (if answer_done d' then buffer_reset b' else b')"
  let ?q = "answer_read d' b2 ?p"
  have q: "pc_origin_status ?q = ACTIVE_STATUS" "pc_stm ?q = some_machine (Some 3)"
    using a by (simp_all add: answer_read_def state_numbers)
  have b2: "buffer_inv b2" "contents b2 = []" "b_limit b2 = b_limit (pc_origin_buffer p)" "answer_done d' \<longrightarrow> buffer_room b2 = b_limit b2"
  proof -
    have "rest = []" if "\<not> answer_done d'"
    proof -
      have nf: "\<not> answer_fin d'" using that assms(7) by (simp add: answer_fin_def)
      have "drive (answer_feed env) answer_fin e ds = Inr (d', rest) \<Longrightarrow> rest = []" for e ds
        using nf by (induction ds arbitrary: e) (auto simp: res_simps split: if_splits)
      then show ?thesis using assms(6) .
    qed
    then show "buffer_inv b2" "contents b2 = []" "b_limit b2 = b_limit (pc_origin_buffer p)" "answer_done d' \<longrightarrow> buffer_room b2 = b_limit b2"
      using b'(1-3) b(3) by (auto simp: b2_def buffer_inv_def buffer_reset_def contents_def buffer_room_def)
  qed
  have after: "after_answer env ?key c d' (s, with_conn c (answer_read d' b' ?p) ?w) = Inr (3, (s, with_conn c ?q ?w))"
  proof (cases "answer_done d'")
    case True
    then have st: "answer_fin d'" "\<not> (status_line_parser.sp_state (dc_status_line_parser d') = status_line_error \<or>
        hp_state (dc_headers_parser d') = headers_error)" "dp_state (dc_doh_parser d') = doh_response_done"
      by (auto simp: answer_fin_def answer_done_def)
    have "reset_origin_buffer c (s, with_conn c (answer_read d' b' ?p) ?w) = Inr ((), (s, with_conn c ?q ?w))"
      using True by (simp add: reset_origin_buffer_def run_simps with_conn_upd b2_def answer_read_reset)
    then show ?thesis using st stays [OF q] by (simp add: after_answer_def answer_end_def run_simps)
  next
    case False
    then have "\<not> answer_fin d'" using assms(7) by (simp add: answer_fin_def)
    then show ?thesis using False stays [OF q] by (simp add: after_answer_def b2_def)
  qed
  have j: "jump (conn_cell c) (connection_states env ?key) 3 (s, with_conn c ?q ?w) = Inr (s, with_conn c ?q ?w)"
    by (rule jump_same [where p = ?q]) (use a in \<open>simp_all add: state_numbers\<close>)
  have "relay_call env c p Origin_Readable (s, w) = Inr (s, with_conn c ?q ?w)"
    using b(4) b'(4) after j by (simp del: await_doh_loop.simps)
  moreover have "in_turn d'" and "dc_is_active d'"
  proof -
    have r: "run (answer_feed env) d bs = Inr d'" using answer.drive_run [OF assms(6)] .
    show "in_turn d'" using answer.run_inv [OF _ r] a by blast
    show "dc_is_active d'" using run_same_exchange [OF r] a by (simp add: same_exchange_def)
  qed
  moreover have "linked s c ?q (OP_NOOP, OP_READ)"
    by (rule linked_frame [of s c p]) (use a in \<open>simp_all add: answer_read_def\<close>)
  ultimately show ?thesis using a b2
    by (intro exI [of _ "with_conn c ?q ?w"] exI [of _ ?q])
      (simp add: answering_def asking_name_def answer_read_def buffers_ok_def same_request_def others_same_def with_conn_def)
qed

lemma answer_goes_on_run:
  assumes "relay_run env c sw es sw'" "os_ok env"
  shows "answering sw c p d \<Longrightarrow> \<forall>e \<in> set es. fst e = Origin_Readable \<Longrightarrow>
    run (answer_feed env) d (bytes_of Origin_Readable es) = Inr d' \<Longrightarrow> \<not> answer_fin d' \<Longrightarrow>
    \<exists>p'. answering sw' c p' d' \<and> same_request p p' \<and> pc_origin_fd p' = pc_origin_fd p \<and> others_same c (snd sw) (snd sw') \<and>
      fst sw' = fst sw \<and> w_metrics (snd sw') = w_metrics (snd sw)"
  using assms(1)
proof (induction arbitrary: p d rule: relay_run.induct)
  case (relay_stop sw)
  then show ?case by (auto simp: others_same_def bytes_of_def same_request_def)
next
  case (relay_step sw p1 bs ev sw1 es sw2)
  obtain s w where sw: "sw = (s, w)" by fastforce
  have p: "p1 = p" using relay_step.hyps(1) relay_step.prems(1) by (simp add: answering_def asking_name_def)
  have ev: "ev = Origin_Readable" "\<forall>e \<in> set es. fst e = Origin_Readable" using relay_step.prems(2) by auto
  obtain d1 where d1: "run (answer_feed env) d bs = Inr d1" "run (answer_feed env) d1 (bytes_of Origin_Readable es) = Inr d'"
    using relay_step.prems(3) by (auto simp: ev run_append bindR_eq_Inr)
  have nf1: "\<not> answer_fin d1" using answer.run_fin [of d1 env "bytes_of Origin_Readable es"] d1(2) relay_step.prems(4) by auto
  have nf: "\<not> answer_fin d" using answer.run_fin [of d env bs] d1(1) nf1 by auto
  have dr: "drive (answer_feed env) answer_fin d bs = Inr (d1, [])"
    using answer.drive_through [OF d1(1) nf1, of "[]"] by simp
  have m: "moved env p Origin_Readable (os_then env w) = bs" using relay_step.hyps(2) p ev sw by simp
  obtain w' p' where w': "relay_call env c p Origin_Readable (s, w) = Inr (s, w')" "answering (s, w') c p' d1"
      "same_request p p'" "pc_origin_fd p' = pc_origin_fd p" "others_same c w w'" "w_metrics w' = w_metrics w"
    using answer_goes_on [OF relay_step.prems(1) [unfolded sw] assms(2) m relay_step.hyps(3) nf dr] nf1 by (auto simp: answer_fin_def)
  have sw1: "sw1 = (s, w')" using relay_step.hyps(4) w'(1) by (simp add: sw p ev)
  show ?case
    using relay_step.IH [OF w'(2) [folded sw1] ev(2) d1(2) relay_step.prems(4)] w'(3-6)
    by (auto simp: sw1 sw others_same_def same_request_def)
qed


section \<open>The bytes of an answer\<close>

text \<open>A parser reads its part of the answer and ends with the last byte of it.\<close>

lemma status_part:
  assumes "run status_line_parser_feed (dc_status_line_parser d) xs = Inr sp"
    "\<And>ys zs q. xs = ys @ zs \<Longrightarrow> zs \<noteq> [] \<Longrightarrow> run status_line_parser_feed (dc_status_line_parser d) ys = Inr q \<Longrightarrow>
       status_line_parser.sp_state q \<noteq> status_line_done"
  shows "run (answer_feed env) d xs = Inr (d\<lparr>dc_status_line_parser := sp\<rparr>)"
  using assms
proof (induction xs arbitrary: d)
  case Nil
  then show ?case by (simp add: same_status)
next
  case (Cons x xs)
  obtain sp1 where sp1: "status_line_parser_feed (dc_status_line_parser d) x = Inr sp1" "run status_line_parser_feed sp1 xs = Inr sp"
    using Cons.prems(1) by (auto simp: res_simps)
  have nd: "status_line_parser.sp_state (dc_status_line_parser d) \<noteq> status_line_done" using Cons.prems(2) [of "[]" "x # xs"] by simp
  let ?d = "d\<lparr>dc_status_line_parser := sp1\<rparr>"
  have "run (answer_feed env) ?d xs = Inr (?d\<lparr>dc_status_line_parser := sp\<rparr>)"
  proof (rule Cons.IH)
    show "run status_line_parser_feed (dc_status_line_parser ?d) xs = Inr sp" using sp1(2) by simp
  next
    fix ys zs q
    assume "xs = ys @ zs" "zs \<noteq> []" "run status_line_parser_feed (dc_status_line_parser ?d) ys = Inr q"
    then show "status_line_parser.sp_state q \<noteq> status_line_done" using Cons.prems(2) [of "x # ys" zs q] sp1(1) by simp
  qed
  moreover have "answer_feed env d x = Inr ?d" using sp1(1) nd by (simp add: answer_feed_def)
  ultimately show ?case by simp
qed

lemma headers_part:
  assumes "run headers_parser_feed (dc_headers_parser d) xs = Inr hp"
    "\<And>ys zs q. xs = ys @ zs \<Longrightarrow> zs \<noteq> [] \<Longrightarrow> run headers_parser_feed (dc_headers_parser d) ys = Inr q \<Longrightarrow> hp_state q \<noteq> headers_done"
    "status_line_parser.sp_state (dc_status_line_parser d) = status_line_done"
  shows "run (answer_feed env) d xs = Inr (d\<lparr>dc_headers_parser := hp\<rparr>)"
  using assms
proof (induction xs arbitrary: d)
  case Nil
  then show ?case by (simp add: same_headers)
next
  case (Cons x xs)
  obtain hp1 where hp1: "headers_parser_feed (dc_headers_parser d) x = Inr hp1" "run headers_parser_feed hp1 xs = Inr hp"
    using Cons.prems(1) by (auto simp: res_simps)
  have nd: "hp_state (dc_headers_parser d) \<noteq> headers_done" using Cons.prems(2) [of "[]" "x # xs"] by simp
  let ?d = "d\<lparr>dc_headers_parser := hp1\<rparr>"
  have "run (answer_feed env) ?d xs = Inr (?d\<lparr>dc_headers_parser := hp\<rparr>)"
  proof (rule Cons.IH)
    show "run headers_parser_feed (dc_headers_parser ?d) xs = Inr hp" using hp1(2) by simp
  next
    fix ys zs q
    assume "xs = ys @ zs" "zs \<noteq> []" "run headers_parser_feed (dc_headers_parser ?d) ys = Inr q"
    then show "hp_state q \<noteq> headers_done" using Cons.prems(2) [of "x # ys" zs q] hp1(1) by simp
  qed (use Cons.prems(3) in simp)
  moreover have "answer_feed env d x = Inr ?d" using hp1(1) nd Cons.prems(3) by (simp add: answer_feed_def)
  ultimately show ?case by simp
qed

lemma message_part:
  assumes "run (doh_response_parser_feed (pe_doh env)) (dc_doh_parser d) xs = Inr dp"
    "status_line_parser.sp_state (dc_status_line_parser d) = status_line_done" "hp_state (dc_headers_parser d) = headers_done"
  shows "run (answer_feed env) d xs = Inr (d\<lparr>dc_doh_parser := dp\<rparr>)"
  using assms
proof (induction xs arbitrary: d)
  case Nil
  then show ?case by (simp add: same_message)
next
  case (Cons x xs)
  then obtain dp1 where dp1: "doh_response_parser_feed (pe_doh env) (dc_doh_parser d) x = Inr dp1"
      "run (doh_response_parser_feed (pe_doh env)) dp1 xs = Inr dp"
    by (auto simp: res_simps)
  have "answer_feed env d x = Inr (d\<lparr>dc_doh_parser := dp1\<rparr>)" using dp1(1) Cons.prems(2,3) by (simp add: answer_feed_def)
  then show ?case using Cons.IH [of "d\<lparr>dc_doh_parser := dp1\<rparr>"] dp1(2) Cons.prems(2,3) by simp
qed

text \<open>The whole answer: head and message.\<close>

definition answer_head :: "bytes \<Rightarrow> bytes \<Rightarrow> bytes \<Rightarrow> bytes \<Rightarrow> (bytes \<times> bytes) list \<Rightarrow> bytes" where
  "answer_head ma mi co rs fs = status_bytes ma mi co rs @ section_bytes fs"

lemma answer_head_read:
  assumes "status_line_ok ma mi co rs" "section_ok fs"
  shows "\<exists>d'. run (answer_feed env) (doh_started d) (answer_head ma mi co rs fs) = Inr d' \<and>
    status_line_parser.sp_state (dc_status_line_parser d') = status_line_done \<and> hp_state (dc_headers_parser d') = headers_done \<and>
    dc_doh_parser d' = doh_response_parser_init (dc_doh_parser d)"
proof -
  let ?d = "doh_started d"
  have s: "dc_status_line_parser ?d = status_line_parser_init (dc_status_line_parser d)"
    "dc_headers_parser ?d = headers_parser_init (dc_headers_parser d)" "dc_doh_parser ?d = doh_response_parser_init (dc_doh_parser d)"
    by (simp_all add: doh_started_def)
  obtain sp where sp: "run status_line_parser_feed (dc_status_line_parser ?d) (status_bytes ma mi co rs) = Inr sp"
      "status_line_parser.sp_state sp = status_line_done"
    using run_status_line [OF assms(1)] unfolding s by blast
  have 1: "run (answer_feed env) ?d (status_bytes ma mi co rs) = Inr (?d\<lparr>dc_status_line_parser := sp\<rparr>)"
  proof (rule status_part [OF sp(1)])
    fix ys zs q
    assume *: "status_bytes ma mi co rs = ys @ zs" "zs \<noteq> []" "run status_line_parser_feed (dc_status_line_parser ?d) ys = Inr q"
    show "status_line_parser.sp_state q \<noteq> status_line_done"
    proof
      assume "status_line_parser.sp_state q = status_line_done"
      then obtain ma' mi' co' rs' rest where "ys = status_bytes ma' mi' co' rs' @ rest" "status_line_ok ma' mi' co' rs'"
        using status_reads_run [OF *(3) [unfolded s]] by (auto simp: status_reads_def)
      then show False using status_bytes_unique [OF assms(1), of ma' mi' co' rs' "rest @ zs"] *(1,2) by simp
    qed
  qed
  let ?d1 = "?d\<lparr>dc_status_line_parser := sp\<rparr>"
  obtain hp where hp: "run headers_parser_feed (dc_headers_parser ?d1) (section_bytes fs) = Inr hp" "hp_state hp = headers_done"
    using run_section [OF assms(2)] s by auto
  have 2: "run (answer_feed env) ?d1 (section_bytes fs) = Inr (?d1\<lparr>dc_headers_parser := hp\<rparr>)"
  proof (rule headers_part [OF hp(1)])
    fix ys zs q
    assume *: "section_bytes fs = ys @ zs" "zs \<noteq> []" "run headers_parser_feed (dc_headers_parser ?d1) ys = Inr q"
    show "hp_state q \<noteq> headers_done"
    proof
      assume "hp_state q = headers_done"
      moreover have "dc_headers_parser ?d1 = headers_parser_init (dc_headers_parser d)" using s by simp
      ultimately obtain gs rest where "ys = section_bytes gs @ rest" "section_ok gs"
        using reads_run [of "dc_headers_parser d" ys q] *(3) by auto
      then show False using section_bytes_unique [OF assms(2), of gs "rest @ zs"] *(1,2) by simp
    qed
  qed (use sp(2) in simp)
  show ?thesis
    using run_then [OF 1 2] sp(2) hp(2) s(3)
    by (intro exI [of _ "?d1\<lparr>dc_headers_parser := hp\<rparr>"]) (simp add: answer_head_def)
qed

section \<open>From the answer to the address\<close>

lemma answer_closed:
  assumes "asking_name AWAIT_DOH_RESPONSE i (s, w) c p" "contents (pc_origin_buffer p) = []" "eof env p Origin_Readable (os_then env w)"
  obtains now st where "st = snd (os_read (pe_os env) (pc_origin_fd p) (buffer_room (pc_origin_buffer p)) (os_then env w))"
    "relay_call env c p Origin_Readable (s, w) =
      bindR (thenS (sys_do (os_shutdown (pe_os env) (pc_origin_fd p))) (try_next_dns_connection env (origin_key c p))
        (s, with_conn c (p\<lparr>pc_last_action_time := now, pc_origin_status := CLOSING_STATUS\<rparr>) (w\<lparr>w_os := st\<rparr>)))
      (\<lambda>(ret, s). jump (conn_cell c) (connection_states env (origin_key c p)) ret s)"
proof -
  let ?key = "origin_key c p" and ?b = "pc_origin_buffer p"
  have c: "w_conns w c = Some p" and inv: "buffer_inv ?b" and stm: "pc_stm p = \<lparr>sm_initial = 0, sm_max_state = 9, sm_current = Some 3\<rparr>"
      and e: "pc_error p \<noteq> INTERNAL_SERVER_ERROR"
    using assms(1) by (simp_all add: asking_name_def buffers_ok_def some_machine_def state_numbers)
  obtain now where now: "os_time (pe_os env) (w_os w) = (now, os_then env w)" using time_then by blast
  define st where "st = snd (os_read (pe_os env) (pc_origin_fd p) (buffer_room ?b) (os_then env w))"
  have d: "os_read (pe_os env) (pc_origin_fd p) (buffer_room ?b) (os_then env w) = (Some [], st)"
    using assms(3) by (simp add: st_def prod_eq_iff)
  let ?p = "p\<lparr>pc_last_action_time := now, pc_origin_status := CLOSING_STATUS\<rparr>" and ?w = "w\<lparr>w_os := st\<rparr>"
  have 1: "proxy_origin_read env ?key (s, w) = event_read env ?key c (s, with_conn c ?p ?w)"
    by (simp add: proxy_origin_read_def touch_def origin_key_def run_simps c stm now d write_ptr_room [OF inv] state_numbers with_conn_def)
  have row: "sd_on_read_ready (connection_states env ?key ! 3) = Some (await_doh_response_on_read_ready env ?key)"
    using table_at(4) [of env ?key] by (simp add: state_numbers conn_row_def)
  have "\<not> buffer_can_read ?b" using inv assms(2) by (simp add: can_read_iff)
  then have 2: "await_doh_response_on_read_ready env ?key (s, with_conn c ?p ?w) =
      thenS (sys_do (os_shutdown (pe_os env) (pc_origin_fd p))) (try_next_dns_connection env ?key) (s, with_conn c ?p ?w)"
    using e by (simp add: await_doh_response_on_read_ready_def await_doh_end_def origin_key_def run_simps)
  have "relay_call env c p Origin_Readable (s, w) =
      bindR (thenS (sys_do (os_shutdown (pe_os env) (pc_origin_fd p))) (try_next_dns_connection env ?key) (s, with_conn c ?p ?w))
      (\<lambda>(ret, s). jump (conn_cell c) (connection_states env ?key) ret s)"
    using event_at [where event = sd_on_read_ready, of "with_conn c ?p ?w" c ?p 3 env ?key, OF _ _ _ row] 1 2 stm
    by (simp add: call_def handler_of_def event_read_def stm_handler_read_def bindR_assoc case_prod_unfold some_machine_def)
  then show thesis using that [of st now] st_def by blast
qed

text \<open>
  C7: A name becomes a connection. When the name server closes after its whole answer, and one of the addresses
  of the family asked for can be tried, the proxy leaves the name server and waits for a connection to the
  first of them: the new socket is watched for output, the client waits, and the request is as it was.
\<close>

theorem name_connects:
  assumes "answering (s, w) c p d" "answer_done d" "eof env p Origin_Readable (os_then env w)" "answers_ok d as"
    "dc_current_try d = 0" "rcode_of d = 0" "request_is p pno" "256 \<le> pe_fuel env"
    "st = snd (os_read (pe_os env) (pc_origin_fd p) (buffer_room (pc_origin_buffer p)) (os_then env w))"
    "first_reached (if dc_current_type d = ipv4_try then IPV4_TYPE else IPV6_TYPE)
       (if dc_current_type d = ipv4_try then connect4 env pno else connect6 env pno) as (pc_origin_fd p)
       (os_close (pe_os env) (pc_origin_fd p) (os_shutdown (pe_os env) (pc_origin_fd p) st)) = Reached fd rest st'"
    "\<not> invalid_fd fd" "fd = pc_origin_fd p \<or> sel_entry s (nat fd) = None"
  shows "\<exists>s' w' p'. relay_call env c p Origin_Readable (s, w) = Inr (s', w') \<and> connecting (s', w') c p' \<and> pc_origin_fd p' = fd \<and>
    same_request p p' \<and> others_same c w w'"
proof -
  let ?key = "origin_key c p" and ?k = "\<lparr>key_fd = pc_origin_fd p, key_data = Some (Connection c)\<rparr>"
  note a = assms(1) [unfolded answering_def asking_name_def fst_conv snd_conv]
  have ask: "asking_name AWAIT_DOH_RESPONSE (OP_NOOP, OP_READ) (s, w) c p" "contents (pc_origin_buffer p) = []"
    using assms(1) by (simp_all add: answering_def)
  obtain now where e: "relay_call env c p Origin_Readable (s, w) =
      bindR (thenS (sys_do (os_shutdown (pe_os env) (pc_origin_fd p))) (try_next_dns_connection env ?key)
        (s, with_conn c (p\<lparr>pc_last_action_time := now, pc_origin_status := CLOSING_STATUS\<rparr>) (w\<lparr>w_os := st\<rparr>)))
      (\<lambda>(ret, s). jump (conn_cell c) (connection_states env ?key) ret s)"
    using answer_closed [OF ask assms(3)] assms(9) by metis
  define p1 where "p1 = p\<lparr>pc_last_action_time := now, pc_origin_status := CLOSING_STATUS\<rparr>"
  have p1: "pc_origin_fd p1 = pc_origin_fd p" "pc_doh p1 = Some d" "pc_client_fd p1 = pc_client_fd p" "pc_stm p1 = pc_stm p"
    "same_request p p1" "pc_origin_buffer p1 = pc_origin_buffer p" "pc_error p1 = pc_error p"
    using a by (simp_all add: p1_def same_request_def)
  define w1 where "w1 = with_conn c p1 (w\<lparr>w_os := os_shutdown (pe_os env) (pc_origin_fd p) st\<rparr>)"
  have shut: "sys_do (os_shutdown (pe_os env) (pc_origin_fd p)) (s, with_conn c p1 (w\<lparr>w_os := st\<rparr>)) = Inr ((), (s, w1))"
    by (simp add: run_simps w1_def with_conn_def)
  have an: "answered_name (s, w1) c p1 d pno"
    using a p1 assms(6,7) by (auto simp: answered_name_def w1_def linked_def request_is_def same_request_def)
  let ?w = "w1\<lparr>w_os := st'\<rparr>" and ?p = "tried p1 d (length as - length rest) fd"
  obtain s1 where s1: "sel_inv s1" "sel_entry s1 = (sel_entry s)(nat (pc_origin_fd p) := None)"
      "try_next_dns_connection env ?key (s, w1) = try_registered env ?k c (s1, with_conn c ?p ?w)"
    using addresses_tried [OF an assms(4), of 0 env ?k "pc_origin_fd p"] assms(5,8,10) p1(1)
    by (auto simp: origin_key_def w1_def)
  let ?q = "?p\<lparr>pc_origin_status := ACTIVE_STATUS\<rparr>" and ?q1 = "at_state 1 (?p\<lparr>pc_origin_status := ACTIVE_STATUS\<rparr>)"
  have fd: "pc_origin_fd ?p = fd" by (simp add: tried_def)
  have free: "sel_entry s1 (nat (pc_origin_fd ?p)) = None" using assms(12) s1(2) fd by auto
  obtain s2 where s2: "try_registered env ?k c (s1, with_conn c ?p ?w) = Inr (TRY_CONNECTION_IP, (s2, with_conn c ?q ?w))" "sel_inv s2"
      "sel_entry s2 = (sel_entry s1)(nat fd \<mapsto> (origin_handler, OP_WRITE, Some (Connection c)))"
    using registered [OF s1(1) _ free, of env "pc_origin_fd p" c ?w] assms(11) fd by auto
  have q: "pc_client_fd ?q1 = pc_client_fd p" "pc_origin_fd ?q1 = fd" "same_request p ?q1" "pc_error ?q1 = pc_error p"
      "pc_origin_buffer ?q1 = pc_origin_buffer p" "pc_origin_status ?q1 = ACTIVE_STATUS" "pc_stm ?q1 = some_machine (Some 1)"
      "pc_doh ?q1 = Some (d\<lparr>dc_current_try := word_of_nat (length as - length rest)\<rparr>)"
    using p1 by (simp_all add: tried_def same_request_def at_state_def)
  have ne: "nat (pc_client_fd p) \<noteq> nat fd" "nat (pc_client_fd p) \<noteq> nat (pc_origin_fd p)"
    using a assms(11,12) by (auto simp: linked_def invalid_fd_def)
  have l: "linked s2 c ?q1 (OP_NOOP, OP_WRITE)"
    using a ne s1(2) s2(3) q(1,2) assms(11) by (auto simp: linked_def)
  obtain s3 where s3: "set_interests c OP_NOOP OP_WRITE (s2, with_conn c ?q1 ?w) = Inr ((), (s3, with_conn c ?q1 ?w))" "sel_inv s3"
      "linked s3 c ?q1 (OP_NOOP, OP_WRITE)"
    using set_interests_linked [OF s2(2) l, of "with_conn c ?q1 ?w" OP_NOOP OP_WRITE] by auto
  have "jump (conn_cell c) (connection_states env ?key) 1 (s2, with_conn c ?q ?w) =
      arrive_at (connection_states env ?key ! 1) (s2, with_conn c ?q1 (with_conn c ?q ?w))"
    by (rule jump_to [where n = 3]) (use a p1(4) in \<open>simp_all add: tried_def state_numbers\<close>)
  also have "\<dots> = Inr (s3, with_conn c ?q1 ?w)"
    using table_at(2) [of env ?key] s3(1)
    by (simp add: state_numbers arrive_row try_connection_ip_on_arrival_def origin_key_def run_simps)
  finally have "relay_call env c p Origin_Readable (s, w) = Inr (s3, with_conn c ?q1 ?w)"
    using e shut s1(3) s2(1) by (simp add: p1_def run_simps TRY_CONNECTION_IP_def)
  moreover have "connecting (s3, with_conn c ?q1 ?w) c ?q1"
    using a s3(2,3) q assms(2) by (simp add: connecting_def dialing_def asks_name_def same_request_def buffers_ok_def state_numbers)
  ultimately show ?thesis using q(2,3)
    by (intro exI [of _ s3] exI [of _ "with_conn c ?q1 ?w"] exI [of _ ?q1]) (simp add: others_same_def w1_def)
qed


text \<open>
  C40: Bytes after the message stop the proxy. Once the message has ended, the loop that reads the answer leaves
  the byte it finds in the buffer, and so it never ends: if the server sends another byte before it closes, no
  handler runs any more.
\<close>

theorem late_bytes_hang:
  assumes "answering (s, w) c p d" "answer_done d" "os_ok env" "moved env p Origin_Readable (os_then env w) \<noteq> []"
  shows "relay_call env c p Origin_Readable (s, w) = Inl Hang"
proof -
  note a = assms(1) [unfolded answering_def asking_name_def fst_conv snd_conv]
  define bs where "bs = moved env p Origin_Readable (os_then env w)"
  obtain now st b where b: "buffer_inv b" "contents b = bs" "b_limit b = b_limit (pc_origin_buffer p)"
      "relay_call env c p Origin_Readable (s, w) =
        bindR (await_doh_loop (Suc (length bs)) env (origin_key c p) c
          (s, with_conn c (p\<lparr>pc_last_action_time := now, pc_origin_buffer := b\<rparr>) (w\<lparr>w_os := st\<rparr>)))
        (\<lambda>(ret, s). jump (conn_cell c) (connection_states env (origin_key c p)) ret s)"
    by (rule answer_event [OF assms(1,3) bs_def [symmetric]]) (use assms(4) bs_def in auto)
  have "buffer_can_read b" using b(1,2) assms(4) bs_def by (simp add: can_read_iff)
  moreover have "pc_doh p = Some d" using a by simp
  ultimately have "await_doh_loop (Suc (length bs)) env (origin_key c p) c
      (s, with_conn c (p\<lparr>pc_last_action_time := now, pc_origin_buffer := b\<rparr>) (w\<lparr>w_os := st\<rparr>)) = Inl Hang"
    using await_loop_hangs [where p = "p\<lparr>pc_last_action_time := now, pc_origin_buffer := b\<rparr>"
        and w = "with_conn c (p\<lparr>pc_last_action_time := now, pc_origin_buffer := b\<rparr>) (w\<lparr>w_os := st\<rparr>)" and c = c and d = d] assms(2)
    by (simp add: with_conn_def del: await_doh_loop.simps)
  then show ?thesis using b(4) by (simp del: await_doh_loop.simps)
qed

text \<open>Witnesses: the whole answer of the sample message in one piece, and one byte after it.\<close>

definition some_answer :: bytes where
  "some_answer = answer_head [49] [49] [50, 48, 48] [79, 75] [([104], [118])] @ message_bytes sample_message"

definition name_env :: "bytes penv" where
  "name_env = some_env\<lparr>pe_os := some_os\<lparr>os_read := \<lambda>fd n st. (Some (take n some_answer), st)\<rparr>, pe_doh := sample_env\<rparr>"

definition asked_client :: "doh_connection \<Rightarrow> proxy_connection" where
  "asked_client d = (some_connection (Some AWAIT_DOH_RESPONSE))
     \<lparr>pc_doh := Some d, pc_request := zero_connection_request\<lparr>cr_host_type := domain\<rparr>,
       pc_parsers := Request_Line (request_parser_init zero_request_parser)\<rparr>"

definition ended_doh :: "answer list \<Rightarrow> doh_connection" where
  "ended_doh as = (named_doh as)\<lparr>dc_is_active := True,
     dc_status_line_parser := (dc_status_line_parser zero_doh_connection)\<lparr>status_line_parser.sp_state := status_line_done\<rparr>,
     dc_headers_parser := (dc_headers_parser zero_doh_connection)\<lparr>hp_state := headers_done\<rparr>,
     dc_doh_parser := (dc_doh_parser (named_doh as))\<lparr>dp_state := doh_response_done\<rparr>\<rparr>"

lemma ended_values:
  "in_turn (ended_doh as)" "dc_is_active (ended_doh as)" "answer_done (ended_doh as)" "rcode_of (ended_doh as) = 0"
  "dc_current_try (ended_doh as) = 0" "dc_current_type (ended_doh as) = ipv4_try" "doh_response_of (ended_doh as) = doh_response_of (named_doh as)"
  using named_values(3-5) [of as] by (simp_all add: ended_doh_def in_turn_def answer_done_def rcode_of_def doh_response_of_def)

lemma asked_answering:
  assumes "in_turn d" "dc_is_active d"
  shows "\<exists>s. answering (s, some_world (asked_client d)) 0 (asked_client d) d"
proof -
  obtain s where "sel_inv s" "linked s 0 (asked_client d) (OP_NOOP, OP_READ)"
    using linked_exists [of "asked_client d" 0 "(OP_NOOP, OP_READ)"] by (auto simp: asked_client_def invalid_fd_def ITEMS_MAX_SIZE_def)
  then show ?thesis using assms
    by (intro exI [of _ s]) (simp add: answering_def asking_name_def asked_client_def INTERNAL_SERVER_ERROR_def buffers_ok_def
        buffer_inv_def buffer_init_def buffer_reset_def contents_def buffer_room_def zero_connection_request_def method_room_def target_room_def request_consts)
qed

lemma started_in_turn: "in_turn (doh_started d)" "dc_is_active (doh_started d)" "\<not> answer_done (doh_started d)"
  by (simp_all add: in_turn_def doh_started_def status_line_parser_init_def headers_parser_init_def doh_response_parser_init_def answer_done_def)

lemma sample_ok: "message_ok sample_message" "env_calloc sample_env (length (ms_records sample_message))" "pton4_ok sample_env"
  by (simp_all add: message_ok_def sample_message_def Doh_Parser.name_ok_def label_ok_def dotted_def record_ok_def is_pointer_def sample_env_def
      pton4_ok_def dotted_pton4_ok)

lemma some_answer_length: "length some_answer \<le> 8192" "some_answer \<noteq> []"
  by (simp_all add: some_answer_def answer_head_def status_bytes_def section_bytes_def field_bytes_def message_bytes_def sample_message_def
      http_slash_def be16_def be32_def label_wire_def labels_wire_def record_bytes_def)

theorem late_bytes_hang_witness:
  "\<exists>s. relay_call some_env 0 (asked_client (ended_doh [])) Origin_Readable (s, some_world (asked_client (ended_doh []))) = Inl Hang"
proof -
  obtain s where s: "answering (s, some_world (asked_client (ended_doh []))) 0 (asked_client (ended_doh [])) (ended_doh [])"
    using asked_answering [OF ended_values(1,2)] by blast
  have "moved some_env (asked_client (ended_doh [])) Origin_Readable (os_then some_env (some_world (asked_client (ended_doh [])))) \<noteq> []"
    by (simp add: some_env_def some_os_def asked_client_def buffer_room_def buffer_init_def buffer_reset_def)
  then show ?thesis using late_bytes_hang [OF s ended_values(3) some_os_ok] by blast
qed


theorem name_connects_witness:
  "\<exists>s s' w' p'. relay_call ended_env 0 (asked_client (ended_doh two_records)) Origin_Readable
       (s, some_world (asked_client (ended_doh two_records))) = Inr (s', w') \<and> connecting (s', w') 0 p' \<and> pc_origin_fd p' = 7"
proof -
  let ?d = "ended_doh two_records" and ?p = "asked_client (ended_doh two_records)"
  obtain s where s: "answering (s, some_world ?p) 0 ?p ?d" using asked_answering [OF ended_values(1,2)] by blast
  obtain pno where r: "request_is ?p pno" by (simp add: request_is_def asked_client_def)
  have e: "eof ended_env ?p Origin_Readable (os_then ended_env (some_world ?p))" by (simp add: ended_env_def)
  have as: "answers_ok ?d two_records" using two_records_ok by (simp add: answers_ok_def ended_values)
  have f: "first_reached (if dc_current_type ?d = ipv4_try then IPV4_TYPE else IPV6_TYPE)
      (if dc_current_type ?d = ipv4_try then connect4 ended_env pno else connect6 ended_env pno) two_records n st = Reached 7 [] st" for n st
    by (simp add: ended_values two_records_def IPV4_TYPE_def IPV6_TYPE_def connect4_def attempt_def nio_attempt_def ended_env_def some_os_def Let_def)
  have "256 \<le> pe_fuel ended_env" "\<not> invalid_fd 7" "7 = pc_origin_fd ?p \<or> sel_entry s (nat 7) = None"
    by (simp_all add: ended_env_def some_env_def invalid_fd_def ITEMS_MAX_SIZE_def asked_client_def)
  from name_connects [OF s ended_values(3) e as ended_values(5,4) r this(1) refl f this(2,3)] show ?thesis by blast
qed

end
