(* ===== verification/Name_Question.thy ===== *)
theory Name_Question
  imports Name_Server
begin

text \<open>
  The question to the name server: \<^verbatim>\<open>states/send_doh_request/send_doh_request.c\<close> on a connection to the server,
  from the connected socket to the state that waits for the answer.
\<close>

section \<open>Writing the question\<close>

text \<open>The connection of which the name is asked next, and the type it is asked for.\<close>

definition doh_of :: "proxy_connection \<Rightarrow> doh_connection" where
  "doh_of p = (case pc_doh p of None \<Rightarrow> zero_doh_connection | Some d \<Rightarrow> d)"

definition type_asked :: "proxy_connection \<Rightarrow> u8" where
  "type_asked p = ucast (if dc_current_type (doh_of p) = ipv4_try then IPV4_TYPE else IPV6_TYPE)"

definition question_text :: "doh_server \<Rightarrow> bytes list \<Rightarrow> bytes \<Rightarrow> u8 \<Rightarrow> bytes" where
  "question_text server ls l t =
     (let m = message_bytes (query_message (query_labels ls l) t)
      in http_head (doh_utils.truncate server) (word_of_nat (length m)) @ m)"

lemma question_text_value: "question_text server ls l t = doh_request_text (doh_utils.truncate server) ls l t"
  by (simp add: question_text_def doh_request_text_def doh_body_def Let_def)

text \<open>The host of the request as the array that holds it: the labels, the end of the text, and whatever follows.\<close>

definition name_of :: "bytes list \<Rightarrow> bytes \<Rightarrow> proxy_connection \<Rightarrow> bool" where
  "name_of ls l p \<longleftrightarrow>
     (\<exists>junk. cr_host (pc_request p) = HDomain (dotted ls @ l @ 0 # junk)) \<and> (\<forall>x \<in> set ls. domain_label x) \<and> domain_label l \<and>
     (ls \<noteq> [] \<or> l \<noteq> []) \<and> length (dotted ls @ l) + 2 < MAX_QUERY_LENGTH"

text \<open>What is left of the question waits to be sent.\<close>

definition asking :: "'o psys \<Rightarrow> nat \<Rightarrow> proxy_connection \<Rightarrow> bytes \<Rightarrow> bool" where
  "asking sw c p left \<longleftrightarrow>
     asking_name SEND_DOH_REQUEST (OP_NOOP, OP_WRITE) sw c p \<and> asks_name p \<and> contents (pc_origin_buffer p) = left"

lemma type_asked_value:
  "ucast (case pc_doh p of None \<Rightarrow> IPV4_TYPE | Some d \<Rightarrow> if dc_current_type d = ipv4_try then IPV4_TYPE else IPV6_TYPE) = type_asked p"
  by (simp add: type_asked_def doh_of_def zero_doh_connection_def split: option.split)

text \<open>The request is put at the end of the buffer.\<close>

lemma question_put:
  assumes "buffer_inv b" "length text0 \<le> buffer_room b"
  shows "\<exists>b'. buffer_write_adv (b\<lparr>b_data := take (b_write b) (b_data b) @ overwrite (drop (b_write b) (b_data b)) 0 text0\<rparr>)
      (int (length text0)) = Inr b' \<and>
    buffer_inv b' \<and> contents b' = contents b @ text0 \<and> b_limit b' = b_limit b"
proof -
  have i: "b_write b \<le> length (b_data b)" "b_write b + length text0 \<le> length (b_data b)"
    using assms by (auto simp: buffer_inv_def buffer_room_def)
  have "take (b_write b) (b_data b) @ overwrite (drop (b_write b) (b_data b)) 0 text0 = overwrite (b_data b) (b_write b) text0"
    using i by (simp add: overwrite_def add.commute)
  then show ?thesis using put_spec [OF assms] i(2) by (simp add: buffer_put_def buffer_store_def write_ptr_room [OF assms(1)])
qed

lemma question_written:
  assumes "w_conns w c = Some p" "buffer_inv (pc_origin_buffer p)" "name_of ls l p" "length (pe_stack env) = MAX_QUERY_LENGTH"
    "t = question_text (w_doh_server w) ls l (type_asked p)" "length t \<le> buffer_room (pc_origin_buffer p)"
    "key_data key = Some (Connection c)"
  shows "\<exists>b. write_doh_request env key (s, w) = Inr ((), (s, with_conn c (p\<lparr>pc_origin_buffer := b\<rparr>) w)) \<and> buffer_inv b \<and>
    contents b = contents (pc_origin_buffer p) @ t \<and> b_limit b = b_limit (pc_origin_buffer p)"
proof -
  let ?b = "pc_origin_buffer p"
  obtain fd where key: "key = \<lparr>key_fd = fd, key_data = Some (Connection c)\<rparr>" using assms(7) by (cases key) simp
  obtain junk where host: "cr_host (pc_request p) = HDomain (dotted ls @ l @ 0 # junk)" and n: "\<forall>x \<in> set ls. domain_label x"
      "domain_label l" "ls \<noteq> [] \<or> l \<noteq> []" "length (dotted ls @ l) + 2 < MAX_QUERY_LENGTH"
    using assms(3) by (auto simp: name_of_def)
  have room: "length t \<le> length (drop (b_write ?b) (b_data ?b))"
    using assms(2,6) by (auto simp: buffer_inv_def buffer_room_def)
  have built: "build_doh_request (doh_utils.truncate (w_doh_server w)) (pe_stack env) (drop (b_write ?b) (b_data ?b))
      (dotted ls @ l @ 0 # junk) (type_asked p) = Inr (overwrite (drop (b_write ?b) (b_data ?b)) 0 t, length t)"
    using build_doh_request_value [OF n assms(4)] room unfolding assms(5) question_text_value by blast
  obtain b where b: "buffer_write_adv (?b\<lparr>b_data := take (b_write ?b) (b_data ?b) @ overwrite (drop (b_write ?b) (b_data ?b)) 0 t\<rparr>)
      (int (length t)) = Inr b" "buffer_inv b" "contents b = contents ?b @ t" "b_limit b = b_limit ?b"
    using question_put [OF assms(2,6)] by blast
  have "write_doh_request env key (s, w) = Inr ((), (s, with_conn c (p\<lparr>pc_origin_buffer := b\<rparr>) w))"
    using assms(1) host built b(1)
    by (simp add: write_doh_request_def key run_simps write_ptr_room [OF assms(2)] type_asked_value with_conn_def Let_def)
  then show ?thesis using b(2-4) by blast
qed

section \<open>The event of the connected socket\<close>

lemma server_connected:
  assumes "dialing (s, w) c p" "asks_name p" "fst (os_getsockopt (pe_os env) (pc_origin_fd p) (os_then env w)) = Some 0"
    "name_of ls l p" "length (pe_stack env) = MAX_QUERY_LENGTH" "t = question_text (w_doh_server w) ls l (type_asked p)"
    "length t \<le> buffer_room (pc_origin_buffer p)"
  shows "\<exists>sw' p'. relay_call env c p Origin_Writable (s, w) = Inr sw' \<and> asking sw' c p' t \<and> same_request p p' \<and> pc_doh p' = pc_doh p \<and>
    pc_origin_fd p' = pc_origin_fd p \<and> others_same c w (snd sw') \<and> w_metrics (snd sw') = w_metrics w"
proof -
  let ?key = "origin_key c p"
  note p = assms(1) [unfolded dialing_def fst_conv snd_conv]
  obtain now where now: "os_time (pe_os env) (w_os w) = (now, os_then env w)" using time_then by blast
  let ?p1 = "p\<lparr>pc_last_action_time := now\<rparr>"
  have asks: "asks_name ?p1" using assms(2) by (simp add: asks_name_def)
  let ?w1 = "w\<lparr>w_os := os_then env w, w_conns := (w_conns w)(c \<mapsto> ?p1)\<rparr>"
  let ?w2 = "?w1\<lparr>w_os := snd (os_getsockopt (pe_os env) (pc_origin_fd p) (os_then env w))\<rparr>"
  have stm: "pc_stm p = \<lparr>sm_initial = 0, sm_max_state = 9, sm_current = Some 1\<rparr>" "pc_stm ?p1 = some_machine (Some 1)"
    using p by (simp_all add: some_machine_def state_numbers)
  have c: "w_conns w c = Some p" using p by blast
  have cs: "conn_state c (s, ?w1) = Inr (1, (s, ?w1))" by (rule run_conn_state [where p = ?p1]) (simp_all add: stm(1))
  have touch: "proxy_origin_write env ?key (s, w) = event_write env ?key c (s, ?w1)"
    using cs by (simp add: proxy_origin_write_def touch_def origin_key_def run_simps c now TRY_CONNECTION_IP_def)
  have row: "sd_on_write_ready (connection_states env ?key ! 1) = Some (try_connection_ip_on_write_ready env ?key)"
    using table_at(2) [of env ?key] by (simp add: state_numbers conn_row_def)
  note at = event_at [where event = sd_on_write_ready, of ?w1 c ?p1 1 env ?key, OF _ stm(2) _ row]
  have check: "check_origin_connection env (pc_origin_fd p) (s, ?w1) = Inr (True, (s, ?w2))"
    using origin_checked [of env "pc_origin_fd p" ?w1 s] assms(3) by simp
  have e: "try_connection_ip_on_write_ready env ?key (s, ?w1) = Inr (2, (s, ?w2))"
    using check asks
    by (simp add: try_connection_ip_on_write_ready_def origin_key_def run_simps state_numbers flip: asks_name_def)
  have lim: "1100 \<le> b_limit (pc_origin_buffer p)" using p by (auto simp: buffer_room_def)
  let ?p2 = "at_state 2 ?p1"
  have same: "type_asked ?p2 = type_asked p" "name_of ls l ?p2" using assms(4) by (simp_all add: type_asked_def doh_of_def name_of_def at_state_def)
  obtain b where b: "write_doh_request env ?key (s, with_conn c ?p2 ?w2) = Inr ((), (s, with_conn c (?p2\<lparr>pc_origin_buffer := b\<rparr>) (with_conn c ?p2 ?w2)))"
      "buffer_inv b" "contents b = t" "b_limit b = b_limit (pc_origin_buffer p)"
    using question_written [of "with_conn c ?p2 ?w2" c ?p2 ls l env t ?key s] same assms(5-7) p
    by (auto simp: buffers_ok_def origin_key_def with_conn_def)
  let ?p3 = "?p2\<lparr>pc_origin_buffer := b\<rparr>"
  obtain s' where s': "set_interests c OP_NOOP OP_WRITE (s, with_conn c ?p3 ?w2) = Inr ((), (s', with_conn c ?p3 ?w2))" "sel_inv s'"
      "linked s' c ?p3 (OP_NOOP, OP_WRITE)"
    using set_interests_linked [of s c ?p3 "(OP_NOOP, OP_WRITE)" "with_conn c ?p3 ?w2" OP_NOOP OP_WRITE] p
      linked_frame [of s c p "(OP_NOOP, OP_WRITE)" ?p3] by auto
  have "jump (conn_cell c) (connection_states env ?key) 2 (s, ?w2) = arrive_at (connection_states env ?key ! 2) (s, with_conn c ?p2 ?w2)"
    by (rule jump_to [where p = ?p1 and n = 1]) (use stm(2) in simp_all)
  also have "\<dots> = Inr (s', with_conn c ?p3 ?w2)"
    using table_at(3) [of env ?key] s'(1) b(1)
    by (simp add: state_numbers arrive_row send_doh_request_on_arrival_def origin_key_def run_simps)
  finally have "relay_call env c p Origin_Writable (s, w) = Inr (s', with_conn c ?p3 ?w2)"
    using at e touch by (simp add: event_write_def stm_handler_write_def call_def handler_of_def)
  moreover have "asking (s', with_conn c ?p3 ?w2) c ?p3 t"
    using p s'(2,3) b(2-4) assms(2) lim
    by (simp add: asking_def asking_name_def asks_name_def buffers_ok_def state_numbers)
  ultimately show ?thesis
    by (intro exI [of _ "(s', with_conn c ?p3 ?w2)"] exI [of _ ?p3]) (simp add: others_same_def same_request_def)
qed

section \<open>Sending the question\<close>

definition calloc_ok :: "'o penv \<Rightarrow> bool" where
  "calloc_ok env \<longleftrightarrow> (\<forall>st. fst (os_calloc (pe_os env) st))"

lemma doh_starts:
  assumes "w_conns w c = Some p" "calloc_ok env" "key_data key = Some (Connection c)"
  shows "\<exists>st. init_doh_state env key (s, w) = Inr ((), (s, with_conn c (p\<lparr>pc_doh := Some (doh_started (doh_of p))\<rparr>) (w\<lparr>w_os := st\<rparr>)))"
proof -
  obtain fd where key: "key = \<lparr>key_fd = fd, key_data = Some (Connection c)\<rparr>" using assms(3) by (cases key) simp
  show ?thesis
  proof (cases "pc_doh p")
    case None
    obtain st where "os_calloc (pe_os env) (w_os w) = (True, st)" using assms(2) by (metis calloc_ok_def prod.collapse)
    then show ?thesis using assms(1) None
      by (intro exI [of _ st]) (simp add: init_doh_state_def key run_simps doh_of_def with_conn_def)
  next
    case (Some d)
    then show ?thesis using assms(1)
      by (intro exI [of _ "w_os w"]) (simp add: init_doh_state_def key run_simps doh_of_def with_conn_def)
  qed
qed

lemma started_turn: "in_turn (doh_started d)" "dc_is_active (doh_started d)" "\<not> answer_done (doh_started d)"
  by (simp_all add: in_turn_def doh_started_def status_line_parser_init_def headers_parser_init_def doh_response_parser_init_def answer_done_def)

lemma question_event:
  assumes "asking (s, w) c p left" "os_ok env" "calloc_ok env"
    "bs = take (nat (fst (os_send (pe_os env) (pc_origin_fd p) left (os_then env w)))) left" "bs \<noteq> []"
  shows "\<exists>sw' p'. relay_call env c p Origin_Writable (s, w) = Inr sw' \<and> others_same c w (snd sw') \<and> same_request p p' \<and>
    w_metrics (snd sw') = increase_bytes_sent (word_of_nat (length bs)) (w_metrics w) \<and> pc_origin_fd p' = pc_origin_fd p \<and>
    (if drop (length bs) left = [] then answering sw' c p' (doh_started (doh_of p))
     else asking sw' c p' (drop (length bs) left) \<and> doh_of p' = doh_of p)"
proof -
  let ?key = "origin_key c p" and ?b = "pc_origin_buffer p"
  note p = assms(1) [unfolded asking_def asking_name_def fst_conv snd_conv]
  obtain now st b2 where b: "buffer_inv b2" "contents b2 = drop (length bs) left" "b_limit b2 = b_limit ?b"
      "relay_call env c p Origin_Writable (s, w) = bindR (event_write env ?key c
         (s, w\<lparr>w_os := st, w_metrics := increase_bytes_sent (word_of_nat (length bs)) (w_metrics w),
            w_conns := (w_conns w)(c \<mapsto> p\<lparr>pc_last_action_time := now, pc_origin_buffer := b2\<rparr>)\<rparr>)) (\<lambda>(_, sw). Inr sw)"
    by (rule origin_sent [OF _ _ _ _ _ assms(2,4,5), where c = c and s = s and k = SEND_DOH_REQUEST]) (use p in \<open>simp_all add: buffers_ok_def\<close>)
  let ?p1 = "p\<lparr>pc_last_action_time := now, pc_origin_buffer := b2\<rparr>"
  let ?w1 = "w\<lparr>w_os := st, w_metrics := increase_bytes_sent (word_of_nat (length bs)) (w_metrics w), w_conns := (w_conns w)(c \<mapsto> ?p1)\<rparr>"
  have stm: "pc_stm p = \<lparr>sm_initial = 0, sm_max_state = 9, sm_current = Some 2\<rparr>" "pc_stm ?p1 = some_machine (Some 2)"
    using p by (simp_all add: some_machine_def state_numbers)
  have row: "sd_on_write_ready (connection_states env ?key ! 2) = Some (send_doh_request_on_write_ready ?key)"
    using table_at(3) [of env ?key] by (simp add: state_numbers conn_row_def)
  note at = event_at [where event = sd_on_write_ready, of ?w1 c ?p1 2 env ?key, OF _ stm(2) _ row]
  have l: "linked s c q (OP_NOOP, OP_WRITE)" if "pc_client_fd q = pc_client_fd p" "pc_origin_fd q = pc_origin_fd p" for q
    using linked_frame [of s c p "(OP_NOOP, OP_WRITE)" q] p that by auto
  show ?thesis
  proof (cases "drop (length bs) left = []")
    case True
    have e: "send_doh_request_on_write_ready ?key (s, ?w1) = Inr (3, (s, ?w1))"
      using b(1,2) True by (simp add: send_doh_request_on_write_ready_def origin_key_def run_simps can_read_iff state_numbers)
    let ?p2 = "at_state 3 ?p1"
    have j: "jump (conn_cell c) (connection_states env ?key) 3 (s, ?w1) =
        arrive_at (connection_states env ?key ! 3) (s, with_conn c ?p2 ?w1)"
      by (rule jump_to [where p = ?p1 and n = 2]) (use stm(2) in simp_all)
    have doh: "doh_of ?p2 = doh_of p" by (simp add: doh_of_def at_state_def)
    let ?d = "doh_started (doh_of p)" and ?p3 = "?p2\<lparr>pc_doh := Some (doh_started (doh_of p))\<rparr>"
    obtain st2 where st2: "init_doh_state env ?key (s, with_conn c ?p2 ?w1) =
        Inr ((), (s, with_conn c ?p3 ((with_conn c ?p2 ?w1)\<lparr>w_os := st2\<rparr>)))"
      using doh_starts [of "with_conn c ?p2 ?w1" c ?p2 env ?key s] assms(3) doh by (auto simp: origin_key_def)
    let ?w3 = "with_conn c ?p3 ((with_conn c ?p2 ?w1)\<lparr>w_os := st2\<rparr>)"
    obtain s' where s': "set_interests c OP_NOOP OP_READ (s, ?w3) = Inr ((), (s', ?w3))" "sel_inv s'" "linked s' c ?p3 (OP_NOOP, OP_READ)"
      using set_interests_linked [OF _ l, of ?p3 ?w3 OP_NOOP OP_READ] p by auto
    have "arrive_at (connection_states env ?key ! 3) (s, with_conn c ?p2 ?w1) = Inr (s', ?w3)"
      using table_at(4) [of env ?key] s'(1) st2
      by (simp add: state_numbers arrive_row await_doh_response_on_arrival_def origin_key_def run_simps)
    then have "relay_call env c p Origin_Writable (s, w) = Inr (s', ?w3)"
      using b(4) at e j by (simp add: event_write_def stm_handler_write_def)
    moreover have "answering (s', ?w3) c ?p3 ?d"
      using p s'(2,3) b(1-3) True started_turn [of "doh_of p"]
      by (simp add: answering_def asking_name_def buffers_ok_def state_numbers)
    ultimately show ?thesis using True
      by (intro exI [of _ "(s', ?w3)"] exI [of _ ?p3]) (simp add: others_same_def same_request_def)
  next
    case False
    have can: "buffer_can_read b2" using b(1,2) False by (simp add: can_read_iff)
    have cs1: "conn_state c (s, ?w1) = Inr (2, (s, ?w1))" by (rule run_conn_state [where p = ?p1]) (simp_all add: stm(1))
    have e: "send_doh_request_on_write_ready ?key (s, ?w1) = Inr (2, (s, ?w1))"
      using can cs1 by (simp add: send_doh_request_on_write_ready_def origin_key_def run_simps)
    have j: "jump (conn_cell c) (connection_states env ?key) 2 (s, ?w1) = Inr (s, ?w1)"
      by (rule jump_same [where p = ?p1]) (simp_all add: stm)
    have "relay_call env c p Origin_Writable (s, w) = Inr (s, ?w1)"
      using b(4) at e j by (simp add: event_write_def stm_handler_write_def)
    moreover have "asking (s, ?w1) c ?p1 (drop (length bs) left)" "doh_of ?p1 = doh_of p"
      using p b(1-3) l [of ?p1] by (simp_all add: asking_def asking_name_def asks_name_def buffers_ok_def doh_of_def)
    ultimately show ?thesis using False
      by (intro exI [of _ "(s, ?w1)"] exI [of _ ?p1]) (simp add: others_same_def same_request_def)
  qed
qed

text \<open>
  C8: The name server is asked for the name. When the socket to it is connected, the buffer for it holds the
  HTTP head and the DNS message that asks for exactly the labels of the host, with the type of the addresses
  wanted, and the socket is watched for output; the client is left alone and nothing else changes. The request
  has to fit the free part of the buffer.
\<close>

theorem question_asked:
  assumes "dialing (s, w) c p" "asks_name p" "fst (os_getsockopt (pe_os env) (pc_origin_fd p) (os_then env w)) = Some 0"
    "name_of ls l p" "length (pe_stack env) = MAX_QUERY_LENGTH" "t = question_text (w_doh_server w) ls l (type_asked p)"
    "length t \<le> buffer_room (pc_origin_buffer p)"
  shows "\<exists>sw' p'. relay_call env c p Origin_Writable (s, w) = Inr sw' \<and> asking sw' c p' t \<and> same_request p p' \<and> pc_doh p' = pc_doh p \<and>
    pc_origin_fd p' = pc_origin_fd p \<and> others_same c w (snd sw') \<and> w_metrics (snd sw') = w_metrics w"
  by (rule server_connected [OF assms])

text \<open>
  C9: The question goes out whole and in order. Each time the name server takes bytes, they are the front of
  what is left, and they are counted as sent; with the last of them the connection waits for the answer with
  its three parsers at their start.
\<close>

theorem question_sent:
  assumes "asking (s, w) c p left" "os_ok env" "calloc_ok env"
    "bs = take (nat (fst (os_send (pe_os env) (pc_origin_fd p) left (os_then env w)))) left" "bs \<noteq> []"
  shows "\<exists>rest. left = bs @ rest \<and> (\<exists>sw' p'. relay_call env c p Origin_Writable (s, w) = Inr sw' \<and> others_same c w (snd sw') \<and>
    same_request p p' \<and> w_metrics (snd sw') = increase_bytes_sent (word_of_nat (length bs)) (w_metrics w) \<and>
    pc_origin_fd p' = pc_origin_fd p \<and>
    (if rest = [] then answering sw' c p' (doh_started (doh_of p)) else asking sw' c p' rest \<and> doh_of p' = doh_of p))"
proof (intro exI [of _ "drop (length bs) left"] conjI)
  show "left = bs @ drop (length bs) left"
    using assms(4) by (metis append_take_drop_id length_take min.commute take_take append_eq_conv_conj)
qed (rule question_event [OF assms])


text \<open>Witnesses: the name \<open>a.b\<close>, and a question of which two bytes are left.\<close>

definition named_request :: proxy_connection where
  "named_request = (some_connection (Some TRY_CONNECTION_IP))
     \<lparr>pc_request := zero_connection_request\<lparr>cr_host_type := domain, cr_host := HDomain (dotted [[97]] @ [98] @ 0 # [])\<rparr>\<rparr>"

definition questioning :: proxy_connection where
  "questioning = (some_connection (Some SEND_DOH_REQUEST))
     \<lparr>pc_request := zero_connection_request\<lparr>cr_host_type := domain\<rparr>, pc_origin_buffer := \<lparr>b_data = replicate 1100 71, b_limit = 1100, b_read = 0, b_write = 2\<rparr>\<rparr>"

theorem question_asked_witness:
  "\<exists>s sw' p'. relay_call some_env 0 named_request Origin_Writable (s, some_world named_request) = Inr sw' \<and>
     asking sw' 0 p' (question_text (w_doh_server (some_world named_request)) [[97]] [98] (type_asked named_request))"
proof -
  obtain s where "sel_inv s" "linked s 0 named_request (OP_NOOP, OP_WRITE)"
    using linked_exists [of named_request 0 "(OP_NOOP, OP_WRITE)"] by (auto simp: named_request_def invalid_fd_def ITEMS_MAX_SIZE_def)
  then have c: "dialing (s, some_world named_request) 0 named_request"
    by (simp add: dialing_def INTERNAL_SERVER_ERROR_def named_request_def buffers_ok_def buffer_inv_def buffer_init_def buffer_reset_def
        contents_def buffer_room_def zero_connection_request_def method_room_def target_room_def request_consts)
  have a: "asks_name named_request" by (simp add: asks_name_def named_request_def)
  have g: "fst (os_getsockopt (pe_os some_env) (pc_origin_fd named_request) (os_then some_env (some_world named_request))) = Some 0"
    by (simp add: some_env_def some_os_def)
  have n: "name_of [[97]] [98] named_request"
    by (auto simp: name_of_def named_request_def domain_label_def dotted_def MAX_QUERY_LENGTH_def)
  have k: "length (pe_stack some_env) = MAX_QUERY_LENGTH" by (simp add: some_env_def MAX_QUERY_LENGTH_def)
  have "length (question_text (w_doh_server (some_world named_request)) [[97]] [98] (type_asked named_request)) \<le> buffer_room (pc_origin_buffer named_request)"
    by (simp add: question_text_def http_head_def some_world_def doh_utils.truncate_def message_bytes_def query_message_def query_labels_def
        labels_wire_def label_wire_def be16_def Let_def dec_text.simps named_request_def buffer_room_def buffer_init_def buffer_reset_def)
  from question_asked [OF c a g n k refl this] show ?thesis by blast
qed

theorem question_sent_witness:
  "\<exists>s sw' p'. relay_call some_env 0 questioning Origin_Writable (s, some_world questioning) = Inr sw' \<and>
     answering sw' 0 p' (doh_started zero_doh_connection)"
proof -
  obtain s where "sel_inv s" "linked s 0 questioning (OP_NOOP, OP_WRITE)"
    using linked_exists [of questioning 0 "(OP_NOOP, OP_WRITE)"] by (auto simp: questioning_def invalid_fd_def ITEMS_MAX_SIZE_def)
  then have c: "asking (s, some_world questioning) 0 questioning [71, 71]"
    by (simp add: asking_def asking_name_def asks_name_def INTERNAL_SERVER_ERROR_def questioning_def buffers_ok_def buffer_inv_def buffer_init_def
        buffer_reset_def contents_def zero_connection_request_def method_room_def target_room_def request_consts numeral_2_eq_2)
  have b: "([71, 71] :: bytes) = take (nat (fst (os_send (pe_os some_env) (pc_origin_fd questioning) [71, 71]
      (os_then some_env (some_world questioning))))) [71, 71]"
    by (simp add: some_env_def some_os_def)
  have k: "calloc_ok some_env" by (simp add: calloc_ok_def some_env_def some_os_def)
  have d: "doh_of questioning = zero_doh_connection" by (simp add: doh_of_def questioning_def)
  from question_sent [OF c some_os_ok k b] show ?thesis unfolding d by (auto split: if_splits)
qed

end
