(* ===== verification/Request_Runs.thy ===== *)
theory Request_Runs
  imports Name_Question
begin

text \<open>
  Runs over several states: the events that send the line, one after the other, and the way of a request from
  the first byte read to the connected socket, for the properties of the whole program.
\<close>

section \<open>Runs\<close>

lemma relay_run_snoc:
  assumes "relay_run env c sw (es @ [(ev, d)]) sw2"
  shows "\<exists>sw1 p1. relay_run env c sw es sw1 \<and> w_conns (snd sw1) c = Some p1 \<and> moved env p1 ev (os_then env (snd sw1)) = d \<and>
    d \<noteq> [] \<and> relay_call env c p1 ev sw1 = Inr sw2"
  using assms
proof (induction es arbitrary: sw)
  case Nil
  then show ?case by (fastforce elim: relay_runE intro: relay_stop)
next
  case (Cons e es)
  from Cons.prems show ?case
  proof (cases rule: relay_run.cases)
    case (relay_step p bs ev' sw')
    then have "relay_run env c sw' (es @ [(ev, d)]) sw2" by simp
    then obtain sw1 p1 where "relay_run env c sw' es sw1" "w_conns (snd sw1) c = Some p1" "moved env p1 ev (os_then env (snd sw1)) = d"
        "d \<noteq> []" "relay_call env c p1 ev sw1 = Inr sw2"
      using Cons.IH by blast
    moreover from this have "relay_run env c sw (e # es) sw1"
      using relay_step relay_run.relay_step [of sw c p bs env ev' sw' es sw1] by simp
    ultimately show ?thesis by blast
  qed simp_all
qed

text \<open>The events in which the origin takes bytes of the line.\<close>

inductive line_run :: "'o penv \<Rightarrow> nat \<Rightarrow> 'o psys \<Rightarrow> bytes list \<Rightarrow> 'o psys \<Rightarrow> bool" for env c where
  line_stop: "line_run env c sw [] sw"
| line_step: "w_conns (snd sw) c = Some p \<Longrightarrow>
    bs = take (nat (fst (os_send (pe_os env) (pc_origin_fd p) (contents (pc_origin_buffer p)) (os_then env (snd sw))))) (contents (pc_origin_buffer p)) \<Longrightarrow>
    bs \<noteq> [] \<Longrightarrow> relay_call env c p Origin_Writable sw = Inr sw' \<Longrightarrow> line_run env c sw' bss sw'' \<Longrightarrow> line_run env c sw (bs # bss) sw''"

inductive_cases line_runE: "line_run env c sw bss sw'"

lemma line_goes_out:
  assumes "line_run env c sw bss sw'" "os_ok env"
  shows "sending sw c p (concat bss) \<Longrightarrow> bss \<noteq> [] \<Longrightarrow>
    \<exists>p'. relay_ok sw' c p' \<and> contents (pc_origin_buffer p') = [] \<and> pc_client_buffer p' = pc_client_buffer p \<and> others_same c (snd sw) (snd sw')"
  using assms(1)
proof (induction arbitrary: p rule: line_run.induct)
  case (line_stop sw)
  then show ?case by simp
next
  case (line_step sw p1 bs sw1 bss sw2)
  obtain s w where sw: "sw = (s, w)" by fastforce
  have p: "p1 = p" "contents (pc_origin_buffer p) = bs @ concat bss" using line_step.hyps(1) line_step.prems(1) by (auto simp: sending_def)
  have bs: "bs = take (nat (fst (os_send (pe_os env) (pc_origin_fd p) (bs @ concat bss) (os_then env w)))) (bs @ concat bss)"
    using line_step.hyps(2) p by (simp add: sw)
  have left: "drop (length bs) (concat (bs # bss)) = concat bss" by simp
  have call: "relay_call env c p Origin_Writable (s, w) = Inr sw1" using line_step.hyps(4) p(1) sw by simp
  obtain p' where p': "others_same c w (snd sw1)" "pc_client_buffer p' = pc_client_buffer p"
      "if concat bss = [] then relay_ok sw1 c p' \<and> contents (pc_origin_buffer p') = [] else sending sw1 c p' (concat bss)"
    using sending_event [OF line_step.prems(1) [unfolded sw] assms(2), of bs] bs line_step.hyps(3)
    unfolding left call by (auto simp del: concat_eq_Nil_conv)
  show ?case
  proof (cases bss)
    case Nil
    then have "sw2 = sw1" using line_step.hyps(5) by (auto elim: line_runE)
    then show ?thesis using p' Nil by (auto simp: sw)
  next
    case (Cons b bss')
    then have "b \<noteq> []" using line_step.hyps(5) by (auto elim: line_runE)
    then have "sending sw1 c p' (concat bss)" using p'(3) Cons by simp
    then show ?thesis using line_step.IH [of p'] Cons p'(1,2) by (auto simp: sw others_same_def)
  qed
qed

text \<open>A request that is read, in any pieces, and whose socket connects.\<close>

lemma request_arrives:
  assumes "os_ok env" "ntop_ok env" "origin_granted env fd" "awaiting sw c p (request_parser_init zero_request_parser)" "fresh_origin (snd sw) p"
    "sel_entry (fst sw) (nat fd) = None" "pieces_ok (pe_pton6 env) r" "version_ok ma mi" "host_kind (pe_pton4 env) (q_authority r) \<noteq> domain"
    "relay_run env c sw es sw1" "\<forall>e \<in> set es. fst e = Client_Readable" "bytes_of Client_Readable es = request_bytes r ma mi @ rest"
    "length (bytes_of Client_Readable (butlast es)) < length (request_bytes r ma mi)"
    "w_conns (snd sw1) c = Some p1" "fst (os_getsockopt (pe_os env) fd (os_then env (snd sw1))) = Some 0"
    "relay_call env c p1 Origin_Writable sw1 = Inr sw2"
  shows "\<exists>p2. request_for_origin p1 p2 sw2 c \<and> others_same c (snd sw) (snd sw2) \<and> cr_connect (pc_request p1) = (q_method r = CONNECT_method) \<and>
    cr_request_line (pc_request p1) = request_line_text r \<and>
    contents (pc_client_buffer p1) = (if q_method r = CONNECT_method then [] else rest)"
proof -
  have "es \<noteq> []"
  proof
    assume "es = []"
    then show False using assms(12,13) by (simp add: bytes_of_def)
  qed
  then obtain es0 d where es: "es = es0 @ [(Client_Readable, d)]"
    using assms(11) by (cases es rule: rev_cases) auto
  obtain sw0 p0 where 0: "relay_run env c sw es0 sw0" "w_conns (snd sw0) c = Some p0"
      "moved env p0 Client_Readable (os_then env (snd sw0)) = d" "relay_call env c p0 Client_Readable sw0 = Inr sw1"
    using relay_run_snoc assms(10) unfolding es by blast
  have b: "bytes_of Client_Readable es0 @ d = request_bytes r ma mi @ rest" "length (bytes_of Client_Readable es0) < length (request_bytes r ma mi)"
    "\<forall>e \<in> set es0. fst e = Client_Readable"
    using assms(11-13) by (auto simp: es bytes_of_def)
  obtain p2 where p2: "connecting sw1 c p2" "others_same c (snd sw) (snd sw1)" "pc_origin_fd p2 = fd"
      "cr_connect (pc_request p2) = (q_method r = CONNECT_method)" "cr_request_line (pc_request p2) = request_line_text r"
      "contents (pc_client_buffer p2) = (if q_method r = CONNECT_method then [] else rest)"
    using request_line_connects [OF assms(1-8) 0(1) b(3) 0(2,3) b(1,2)] 0(4) assms(9) by auto
  obtain s w where sw1: "sw1 = (s, w)" by fastforce
  have p1: "p2 = p1" using p2(1) assms(14) by (simp add: connecting_def dialing_def)
  obtain p3 where "request_for_origin p1 p3 sw2 c" "others_same c w (snd sw2)"
    using connecting_connects [OF p2(1) [unfolded sw1 p1] assms(1)] assms(15,16) p2(3) by (auto simp: sw1 p1)
  then show ?thesis using p2 p1 by (auto simp: sw1 others_same_def)
qed

section \<open>A request to try\<close>

text \<open>A CONNECT beside the GET of \<open>some_pieces\<close>; each is read in one piece.\<close>

definition tunnel_pieces :: pieces where
  "tunnel_pieces = \<lparr>q_method = CONNECT_method, q_authority = Name [49], q_port = Some [56, 48], q_origin = None\<rparr>"

lemma tunnel_pieces_ok: "pieces_ok pton6 tunnel_pieces"
  by (simp add: pieces_ok_def tunnel_pieces_def method_ok_def end_of_authority_def host_end_def CONNECT_method_def
      is_token_def is_alpha_def is_digit_def)

lemma tunnel_request_length: "request_bytes tunnel_pieces [49] [48] \<noteq> []" "length (request_bytes tunnel_pieces [49] [48]) \<le> 8192"
  by (simp_all add: request_bytes_def target_bytes_def host_part_def scheme_bytes_def http_scheme_def CONNECT_method_def
      tunnel_pieces_def http_slash_def)

lemma literal_read:
  assumes "pieces_ok pton6 r" "request_bytes r [49] [48] = req" "req \<noteq> []" "length req \<le> 8192"
    "host_kind (pe_pton4 literal_env) (q_authority r) \<noteq> domain" "pe_pton6 literal_env = pton6"
  shows "\<exists>s sw1 p1. awaiting (s, client_world req) 0 new_client (request_parser_init zero_request_parser) \<and>
    sel_entry s (nat 7) = None \<and> fresh_origin (client_world req) new_client \<and>
    relay_run literal_env 0 (s, client_world req) [(Client_Readable, req)] sw1 \<and> connecting sw1 0 p1 \<and>
    cr_connect (pc_request p1) = (q_method r = CONNECT_method) \<and> cr_request_line (pc_request p1) = request_line_text r"
proof -
  let ?w = "client_world req"
  obtain s where s: "awaiting (s, ?w) 0 new_client (request_parser_init zero_request_parser)"
      "sel_entry s = [5 \<mapsto> (client_handler, OP_READ, Some (Connection 0))]"
    using new_client_awaiting by blast
  have f: "fresh_origin ?w new_client"
    by (simp add: fresh_origin_def INTERNAL_SERVER_ERROR_def client_world_def new_client_def buffer_room_def buffer_init_def buffer_reset_def contents_def
        zero_connection_request_def)
  have m: "moved literal_env new_client Client_Readable (os_then literal_env ?w) = req"
    using assms(4) unfolding moved.simps new_client_room
    by (simp add: literal_env_def typing_env_def os_then_def some_os_def client_world_def)
  have c: "w_conns ?w 0 = Some new_client" by (simp add: client_world_def)
  have "\<exists>sw1 p1. relay_call literal_env 0 new_client Client_Readable (s, ?w) = Inr sw1 \<and> connecting sw1 0 p1 \<and>
      cr_connect (pc_request p1) = (q_method r = CONNECT_method) \<and> cr_request_line (pc_request p1) = request_line_text r"
    using request_line_connects [OF literal_env_ok s(1) _ _ _ some_pieces_ok(2) relay_stop, of r new_client req "[]"] s(2) f m c assms
    by (auto simp: bytes_of_def simp del: moved.simps)
  then obtain sw1 p1 where 1: "relay_call literal_env 0 new_client Client_Readable (s, ?w) = Inr sw1" "connecting sw1 0 p1"
      "cr_connect (pc_request p1) = (q_method r = CONNECT_method)" "cr_request_line (pc_request p1) = request_line_text r"
    by blast
  have "relay_run literal_env 0 (s, ?w) [(Client_Readable, req)] sw1"
    using c m assms(3) 1(1) by (intro relay_step [where p = new_client and sw' = sw1] relay_stop) (simp_all del: moved.simps)
  moreover have "sel_entry s (nat 7) = None" using s(2) by simp
  ultimately show ?thesis using s(1) f 1(2-4) by blast
qed

end
