(* ===== verification/Client_Session.thy ===== *)
theory Client_Session
  imports Httpd Management_Client
begin

text \<open>
  The management client as a program, \<^verbatim>\<open>main\<close> of \<^verbatim>\<open>management_client/client/httpdctl.c\<close>: the address of the
  service, and the loop over what the user types. The replies shown are collected in a list; menus and messages are left
  out.
\<close>

section \<open>The system of the client\<close>

text \<open>
  \<open>co_read\<close> is a \<^verbatim>\<open>read\<close> from the terminal, \<open>co_enter\<close> tells whether a line end comes before the end of the input.
\<close>

record 'o client_os =
  co_socket :: "u16 \<Rightarrow> 'o \<Rightarrow> int \<times> 'o"
  co_read :: "'o \<Rightarrow> bytes option \<times> 'o"
  co_sendto :: "int \<Rightarrow> bytes \<Rightarrow> address \<Rightarrow> 'o \<Rightarrow> 'o"
  co_recvfrom :: "int \<Rightarrow> 'o \<Rightarrow> bytes option \<times> 'o"
  co_enter :: "'o \<Rightarrow> bool \<times> 'o"
  co_close :: "int \<Rightarrow> 'o \<Rightarrow> 'o"

text \<open>
  The socket and the address; \<open>Inl\<close> is an exit with code 1. A failure of the first call of \<^verbatim>\<open>socket\<close> without an address is only
  reported.
\<close>

definition server_address ::
  "'o client_os \<Rightarrow> pton4 \<Rightarrow> pton6 \<Rightarrow> client_args \<Rightarrow> 'o \<Rightarrow> (int + (int \<times> address)) \<times> 'o" where
  "server_address os pton4 pton6 args st =
     (let prt = htons (ca_client_port args);
          (text4, text6, must) = (case ca_client_addr args of
             None \<Rightarrow> (ascii ''127.0.0.1'', ascii ''::1'', False) | Some a \<Rightarrow> (a, a, True))
      in case pton4 text4 of
           Some a \<Rightarrow>
             let (fd, st) = co_socket os AF_INET st
             in (if fd < 0 \<and> must then Inl 1
                 else Inr (fd, Addr4 \<lparr>sin_family = AF_INET, sin_port = prt, sin_addr = a\<rparr>), st)
         | None \<Rightarrow>
             (case pton6 text6 of
                Some a \<Rightarrow>
                  let (fd, st) = co_socket os AF_INET6 st
                  in (if fd < 0 then Inl 1
                      else Inr (fd, Addr6 \<lparr>sin6_family = AF_INET6, sin6_port = prt, sin6_addr = a\<rparr>), st)
              | None \<Rightarrow> (Inl 1, st)))"

section \<open>The loop\<close>

text \<open>Whether \<^verbatim>\<open>process_input\<close> reads a second time.\<close>

definition asks_value :: "bytes \<Rightarrow> bool" where
  "asks_value input = (case number_loop input 0 0 of Inr (Some n) \<Rightarrow> 9 \<le> n \<and> n \<le> 11 | _ \<Rightarrow> False)"

text \<open>\<open>buff\<close> is the array of \<^verbatim>\<open>main\<close>, \<open>p\<close> what \<^verbatim>\<open>parse_answer\<close> finds on its stack.\<close>

fun client_loop ::
  "nat \<Rightarrow> 'o client_os \<Rightarrow> int \<Rightarrow> address \<Rightarrow> percy_response_parser \<Rightarrow> bytes \<Rightarrow> percy_response list \<Rightarrow> 'o \<Rightarrow>
   fault + (percy_response list \<times> 'o)" where
  "client_loop 0 os fd addr p buff shown st = Inl Hang"
| "client_loop (Suc fuel) os fd addr p buff shown st =
     (let (line, st) = co_read os st
      in case line of
           None \<Rightarrow> Inr (shown, st)
         | Some input \<Rightarrow>
             if input = [] then Inr (shown, st)
             else let input = take MAX_BUFF input;
                      buff = overwrite buff 0 input;
                      (value_line, st) = (if asks_value input then co_read os st else (None, st))
                  in bindR (process_input input value_line) (\<lambda>r. case r of
                       None \<Rightarrow> client_loop fuel os fd addr p buff shown st
                     | Some (option, value) \<Rightarrow>
                         bindR (build_request buff option (word_of_int value)) (\<lambda>(buff, len).
                         let st = co_sendto os fd (take len buff) addr st;
                             (reply, st) = co_recvfrom os fd st;
                             reply = (case reply of None \<Rightarrow> [] | Some d \<Rightarrow> take MAX_BUFF d);
                             buff = overwrite buff 0 reply
                         in bindR (parse_answer p reply) (\<lambda>q.
                            let (entered, st) = co_enter os st
                            in if \<not> entered then Inl Hang
                               else client_loop fuel os fd addr p buff (shown @ [rsp_response q]) st))))"

definition client_main ::
  "nat \<Rightarrow> 'o client_os \<Rightarrow> pton4 \<Rightarrow> pton6 \<Rightarrow> bool \<Rightarrow> (int \<times> bytes) list \<Rightarrow> bool \<Rightarrow> percy_response_parser \<Rightarrow> bytes \<Rightarrow> 'o \<Rightarrow>
   fault + (int \<times> percy_response list \<times> 'o)" where
  "client_main fuel os pton4 pton6 stale opts left p buff st =
     (case parse_client_args stale opts left of
        Inl code \<Rightarrow> Inr (code, [], st)
      | Inr args \<Rightarrow>
          (case server_address os pton4 pton6 args st of
             (Inl code, st) \<Rightarrow> Inr (code, [], st)
           | (Inr (fd, addr), st) \<Rightarrow>
               bindR (client_loop fuel os fd addr p buff [] st) (\<lambda>(shown, st).
               Inr (0, shown, co_close os fd st))))"

section \<open>Client and service together\<close>

text \<open>
  The service of Management.thy at the other end: it serves each datagram and the first of its replies is what the
  client receives. The user types the lines of \<open>dk_typed\<close>, then ends the input, and presses enter when asked.
\<close>

record desk =
  dk_typed :: "bytes list"
  dk_server :: server
  dk_replies :: "bytes list"

definition desk_os :: "desk client_os" where
  "desk_os =
     \<lparr>co_socket = (\<lambda>family st. (3, st)),
      co_read = (\<lambda>st. case dk_typed st of [] \<Rightarrow> (Some [], st) | l # ls \<Rightarrow> (Some l, st\<lparr>dk_typed := ls\<rparr>)),
      co_sendto = (\<lambda>fd d addr st. case management_read (dk_server st) (Some d) of
         Inl e \<Rightarrow> st | Inr (s, replies) \<Rightarrow> st\<lparr>dk_server := s, dk_replies := replies\<rparr>),
      co_recvfrom = (\<lambda>fd st. case dk_replies st of [] \<Rightarrow> (None, st) | r # rs \<Rightarrow> (Some r, st\<lparr>dk_replies := rs\<rparr>)),
      co_enter = (\<lambda>st. (True, st)),
      co_close = (\<lambda>fd st. st)\<rparr>"

lemma served_request:
  assumes "server_inv s" "1 \<le> n" "n \<le> 11"
  shows "\<exists>s'. management_read s (Some (percy_bytes (option_request n v))) =
      Inr (s', [snd (spec_answer (option_request n v) s)]) \<and>
    config_of s' = fst (spec_answer (option_request n v) s) \<and> server_inv s' \<and> sv_metrics s' = sv_metrics s"
proof -
  have ok: "percy_ok (option_request n v)" by (rule option_request_ok [OF assms(2,3)])
  have "decode_request (receive s (Some (percy_bytes (option_request n v)))) = Some (option_request n v)"
    using decode_percy_bytes [OF ok] length_percy_bytes [OF ok] by (simp add: receive_def overwrite_def MAX_MSG_LEN_def)
  then have "spec_serve s (receive s (Some (percy_bytes (option_request n v)))) =
      (fst (spec_answer (option_request n v) s), [snd (spec_answer (option_request n v) s)])"
    by (simp add: spec_serve_def authorised_def option_request_def)
  then show ?thesis using management_read_spec [OF assms(1), of "Some (percy_bytes (option_request n v))"] by auto
qed

text \<open>The reply as the client shows it.\<close>

definition shown_answer :: "request_percy \<Rightarrow> server \<Rightarrow> percy_response" where
  "shown_answer r s =
     (if pq_type r = 0 then \<lparr>ps_ver = 1, ps_status = 0, ps_resv = 0, ps_value = spec_retrieve s ! unat (pq_method r)\<rparr>
      else \<lparr>ps_ver = 1, ps_status = (if spec_modify (unat (pq_method r)) (unat (pq_value r)) (config_of s) \<noteq> None then 0 else 2),
            ps_resv = 0, ps_value = 0\<rparr>)"

lemma answer_shown:
  assumes "1 \<le> n" "n \<le> 11"
  shows "\<exists>q. parse_answer p (snd (spec_answer (option_request n v) s)) = Inr q \<and>
    rsp_response q = shown_answer (option_request n v) s \<and> length (snd (spec_answer (option_request n v) s)) = 11"
proof -
  have len: "length (build_reply a b c d) = 11" for a b c d by (simp add: build_reply_def serialize_def)
  have t: "pq_type (option_request n v) = 0 \<or> pq_type (option_request n v) = 1" by (simp add: option_request_def)
  show ?thesis
    using t by (auto simp: spec_answer_def shown_answer_def parse_answer_reply response_state_def len split: option.splits)
qed

section \<open>Properties\<close>

text \<open>
  C22: The client and the service work together. When the user types an option of the menu, a value for it where the
  client asks for one, and then ends the input, the client shows exactly one reply: for an option that asks, the number
  the service keeps, for one that changes a setting whether the value was allowed. The setting is changed exactly as the protocol says, and
  the program ends with code 0.
\<close>

theorem client_shows_answer:
  assumes "server_inv s" "digits ds" "ds \<noteq> []" "length ds < 1023" "1 \<le> dec_val 0 ds" "dec_val 0 ds \<le> 11"
    "digits vs" "vs \<noteq> []" "length vs < 1023" "dec_val 0 vs < 2147483600" "length buff = 1024"
    "pton4 (ascii ''127.0.0.1'') = Some a"
    "r = option_request (int (dec_val 0 ds)) (word_of_nat (dec_val 0 vs))"
  shows "\<exists>st. client_main 2 desk_os pton4 pton6 False [] False p buff
       \<lparr>dk_typed = (ds @ [LF]) # (if dec_val 0 ds \<le> 8 then [] else [vs @ [LF]]), dk_server = s, dk_replies = []\<rparr> =
     Inr (0, [shown_answer r s], st) \<and>
     config_of (dk_server st) = fst (spec_answer r s) \<and> sv_metrics (dk_server st) = sv_metrics s"
proof -
  let ?n = "dec_val 0 ds" and ?v = "word_of_nat (dec_val 0 vs) :: u16" and ?in = "ds @ [LF]"
  let ?buff = "overwrite buff 0 ?in"
  obtain s' where s': "management_read s (Some (percy_bytes r)) = Inr (s', [snd (spec_answer r s)])"
      "config_of s' = fst (spec_answer r s)" "sv_metrics s' = sv_metrics s"
    using served_request [OF assms(1), of "int ?n" ?v] assms(5,6,13) by auto
  obtain q where q: "parse_answer p (snd (spec_answer r s)) = Inr q" "rsp_response q = shown_answer r s"
      "length (snd (spec_answer r s)) = 11"
    using answer_shown [of "int ?n" p ?v s] assms(5,6,13) by auto
  have ok: "percy_ok r" using option_request_ok assms(5,6,13) by simp
  have num: "number_loop ?in 0 0 = Inr (Some (int ?n))"
    using process_value_digits [of ds "[LF]"] assms(2,3,6) by (simp add: process_value_def)
  have pi: "process_input ?in (if ?n \<le> 8 then None else Some (vs @ [LF])) =
      Inr (Some (int ?n, if ?n \<le> 8 then 0 else int (dec_val 0 vs)))"
    using process_input_typed [OF assms(2,3,5,6,7,8) _ assms(10)] assms(9) num assms(5,6) by (auto simp: process_input_def)
  have req: "build_request ?buff (int ?n) (word_of_int (if ?n \<le> 8 then 0 else int (dec_val 0 vs))) =
      Inr (percy_bytes r @ drop 12 ?buff, 12)"
  proof -
    have "r = option_request (int ?n) (word_of_int (if ?n \<le> 8 then 0 else int (dec_val 0 vs)))"
      unfolding assms(13) by (simp add: option_request_def)
    then show ?thesis using build_request_bytes [of "int ?n" ?buff] assms(4,5,6,11) by simp
  qed
  have take: "take 1024 ?in = ?in" "take 12 (percy_bytes r @ drop 12 ?buff) = percy_bytes r"
    using assms(4) length_percy_bytes [OF ok] by simp_all
  have args: "parse_client_args False [] False = Inr \<lparr>ca_client_addr = None, ca_client_port = 9090\<rparr>"
    by (simp add: parse_client_args_def)
  have "eval_2": "2 = Suc (Suc 0)" by simp
  show ?thesis
  proof (cases "?n \<le> 8")
    case True
    then show ?thesis
      using num pi req take s' q args assms(12)
      by (simp add: client_main_def server_address_def eval_2 asks_value_def desk_os_def MAX_BUFF_def Let_def)
  next
    case False
    then show ?thesis
      using num pi req take s' q args assms(6,12)
      by (simp add: client_main_def server_address_def eval_2 asks_value_def desk_os_def MAX_BUFF_def Let_def)
  qed
qed

text \<open>The option 1 shows the connections so far, none.\<close>

theorem client_shows_answer_witness:
  "\<exists>st. client_main 2 desk_os (\<lambda>_. Some 0) (\<lambda>_. None) False [] False (percy_response_parser_init (response_state 0 0 0 0)) (replicate 1024 0)
      \<lparr>dk_typed = [[49, LF]], dk_server = init_server blank_percy_parser, dk_replies = []\<rparr> =
    Inr (0, [\<lparr>ps_ver = 1, ps_status = 0, ps_resv = 0, ps_value = 0\<rparr>], st)"
proof -
  let ?s = "init_server blank_percy_parser" and ?r = "option_request (int (dec_val 0 [49])) (word_of_nat (dec_val 0 [48]))"
  have "\<exists>st. client_main 2 desk_os (\<lambda>_. Some 0) (\<lambda>_. None) False [] False (percy_response_parser_init (response_state 0 0 0 0)) (replicate 1024 0)
       \<lparr>dk_typed = ([49] @ [LF]) # (if dec_val 0 [49] \<le> 8 then [] else [[48] @ [LF]]), dk_server = ?s, dk_replies = []\<rparr> =
     Inr (0, [shown_answer ?r ?s], st) \<and>
     config_of (dk_server st) = fst (spec_answer ?r ?s) \<and> sv_metrics (dk_server st) = sv_metrics ?s"
    by (rule client_shows_answer [where a = 0, OF init_server_inv]) (simp_all add: is_digit_def)
  moreover have "shown_answer ?r ?s = \<lparr>ps_ver = 1, ps_status = 0, ps_resv = 0, ps_value = 0\<rparr>"
    by (simp add: shown_answer_def option_request_def spec_retrieve_def init_server_def init_metrics_def)
  ultimately show ?thesis by auto
qed

end
